(* ===== verification/Prelude.thy ===== *)
theory Prelude
  imports Main "HOL-Library.Word" "HOL-Library.List_Lexorder" "HOL-Library.AList"
begin

text \<open>
  Shared vocabulary of the development: JavaScript strings, the collections the TypeScript
  code uses (\<open>Set\<close> and \<open>Map\<close> with their insertion order, \<open>Array.prototype.sort\<close>), the
  digest-shape regular expressions that recur in every package, and the interface
  \<open>ranked_chain\<close> that the two ranked vocabularies of the code (policy decisions and
  provenance classes) both implement.

  A JavaScript string is its list of UTF-16 code units, \<open>16 word list\<close>; a string literal of
  the source is written \<open>js ''...''\<close>. The order on such lists is lexicographic by code unit
  (\<open>List_Lexorder\<close>), which is what \<open><\<close> and the default comparator of \<open>sort()\<close> compute.
\<close>

named_theorems js_simps
named_theorems shape_simps

subsection \<open>Strings\<close>

type_synonym code_unit = "16 word"
type_synonym jstr = "code_unit list"

definition cu :: "char \<Rightarrow> code_unit" where
  "cu c = of_nat (of_char c)"

definition js :: "string \<Rightarrow> jstr" where
  "js s = map cu s"

lemma of_char_nat_less: "(of_char c :: nat) < 256"
  by (metis of_char_of char_of_take_bit_eq take_bit_nat_less_exp of_char_mod_256
      mod_less_divisor zero_less_numeral)

lemma unat_cu: "unat (cu c) = of_char c"
proof -
  have "(of_char c :: nat) < 65536" using of_char_nat_less [of c] by linarith
  then show ?thesis by (simp add: cu_def unat_of_nat)
qed

lemma cu_eq_iff [simp]: "cu a = cu b \<longleftrightarrow> a = b"
  by (metis unat_cu of_char_eq_iff)

lemma js_eq_iff [simp]: "js a = js b \<longleftrightarrow> a = b"
  by (simp add: js_def inj_map_eq_map inj_def)

lemma js_append [simp]: "js (a @ b) = js a @ js b"
  by (simp add: js_def)

lemma length_js [simp]: "length (js s) = length s"
  by (simp add: js_def)

lemma js_Nil [simp]: "js [] = []"
  by (simp add: js_def)

lemma js_eq_Nil [simp]: "js s = [] \<longleftrightarrow> s = []" "[] = js s \<longleftrightarrow> s = []"
  by (auto simp: js_def)

lemma js_Cons: "js (c # s) = cu c # js s"
  by (simp add: js_def)

definition startsWith :: "jstr \<Rightarrow> jstr \<Rightarrow> bool" where
  "startsWith s p \<longleftrightarrow> take (length p) s = p"

lemma startsWith_append [simp]: "startsWith (p @ s) p"
  by (simp add: startsWith_def)

lemma startsWith_iff: "startsWith s p \<longleftrightarrow> (\<exists>r. s = p @ r)"
  by (metis append_eq_conv_conj append_take_drop_id startsWith_def)

text \<open>Equations by which literals and prefixes are evaluated.\<close>

lemma cu_code [code]: "cu c = of_int (of_char c)"
  unfolding cu_def by (simp only: of_nat_of_char of_int_of_char)

lemma startsWith_code [code]:
  "startsWith s [] = True"
  "startsWith [] (c # p) = False"
  "startsWith (d # s) (c # p) = (if d = c then startsWith s p else False)"
  by (simp_all add: startsWith_def)

fun js_includes :: "jstr \<Rightarrow> jstr \<Rightarrow> bool" where
  "js_includes [] p = (p = [])"
| "js_includes (c # s) p = (startsWith (c # s) p \<or> js_includes s p)"

lemma js_includes_iff: "js_includes s p \<longleftrightarrow> (\<exists>a b. s = a @ p @ b)"
proof (induction s)
  case Nil
  show ?case by simp
next
  case (Cons c s)
  show ?case
  proof
    assume "js_includes (c # s) p"
    then consider "startsWith (c # s) p" | "js_includes s p" by auto
    then show "\<exists>a b. c # s = a @ p @ b"
    proof cases
      case 1
      then show ?thesis by (metis startsWith_iff append_Nil)
    next
      case 2
      then show ?thesis using Cons.IH by (metis append_Cons)
    qed
  next
    assume "\<exists>a b. c # s = a @ p @ b"
    then obtain a b where ab: "c # s = a @ p @ b" by blast
    show "js_includes (c # s) p"
    proof (cases a)
      case Nil
      with ab have "startsWith (c # s) p" by (simp add: startsWith_iff)
      then show ?thesis by simp
    next
      case (Cons x xs)
      with ab have "s = xs @ p @ b" by simp
      then show ?thesis using Cons.IH by auto
    qed
  qed
qed

fun joinWith :: "jstr \<Rightarrow> jstr list \<Rightarrow> jstr" where
  "joinWith sep [] = []"
| "joinWith sep [x] = x"
| "joinWith sep (x # y # xs) = x @ sep @ joinWith sep (y # xs)"

subsection \<open>Character classes and digest shapes\<close>

definition is_digit :: "code_unit \<Rightarrow> bool" where
  "is_digit c \<longleftrightarrow> 48 \<le> c \<and> c \<le> 57"

definition is_lower :: "code_unit \<Rightarrow> bool" where
  "is_lower c \<longleftrightarrow> 97 \<le> c \<and> c \<le> 122"

definition is_upper :: "code_unit \<Rightarrow> bool" where
  "is_upper c \<longleftrightarrow> 65 \<le> c \<and> c \<le> 90"

definition is_lower_hex :: "code_unit \<Rightarrow> bool" where
  "is_lower_hex c \<longleftrightarrow> is_digit c \<or> (97 \<le> c \<and> c \<le> 102)"

text \<open>\<open>/^[a-f0-9]{64}$/\<close>, \<open>/^sha256:[a-f0-9]{64}$/\<close> and \<open>/^hmac-sha256:[a-f0-9]{64}$/\<close>.\<close>

definition hex64 :: "jstr \<Rightarrow> bool" where
  "hex64 s \<longleftrightarrow> length s = 64 \<and> list_all is_lower_hex s"

definition sha256_shape :: "jstr \<Rightarrow> bool" where
  "sha256_shape s \<longleftrightarrow> startsWith s (js ''sha256:'') \<and> hex64 (drop 7 s)"

definition hmac_shape :: "jstr \<Rightarrow> bool" where
  "hmac_shape s \<longleftrightarrow> startsWith s (js ''hmac-sha256:'') \<and> hex64 (drop 12 s)"

text \<open>\<open>/^[A-Za-z0-9._:-]{m,n}$/\<close>, the shape of nonces and evidence identifiers.\<close>

definition is_url_safe :: "code_unit \<Rightarrow> bool" where
  "is_url_safe c \<longleftrightarrow> is_upper c \<or> is_lower c \<or> is_digit c \<or> c \<in> set (js ''._:-'')"

definition url_safe_between :: "nat \<Rightarrow> nat \<Rightarrow> jstr \<Rightarrow> bool" where
  "url_safe_between m n s \<longleftrightarrow> m \<le> length s \<and> length s \<le> n \<and> list_all is_url_safe s"

lemma hex64_length [shape_simps]: "hex64 s \<Longrightarrow> length s = 64"
  by (simp add: hex64_def)

lemma sha256_shape_prefixed [simp]: "sha256_shape (js ''sha256:'' @ s) \<longleftrightarrow> hex64 s"
  by (simp add: sha256_shape_def)

lemma hmac_shape_prefixed [simp]: "hmac_shape (js ''hmac-sha256:'' @ s) \<longleftrightarrow> hex64 s"
  by (simp add: hmac_shape_def)

lemma sha256_shape_length [shape_simps]:
  assumes "sha256_shape s"
  shows "length s = 71"
proof -
  from assms obtain r where "s = js ''sha256:'' @ r" "hex64 r"
    by (auto simp: sha256_shape_def startsWith_iff)
  then show ?thesis by (simp add: hex64_def)
qed

lemma hmac_shape_length [shape_simps]:
  assumes "hmac_shape s"
  shows "length s = 76"
proof -
  from assms obtain r where "s = js ''hmac-sha256:'' @ r" "hex64 r"
    by (auto simp: hmac_shape_def startsWith_iff)
  then show ?thesis by (simp add: hex64_def)
qed

subsection \<open>Decimal numerals\<close>

text \<open>The decimal digits of a natural number, as template literals and \<open>String(n)\<close> print it.\<close>

fun nat_digits :: "nat \<Rightarrow> nat list" where
  "nat_digits n = (if n < 10 then [n] else nat_digits (n div 10) @ [n mod 10])"

declare nat_digits.simps [simp del]

definition digit_unit :: "nat \<Rightarrow> code_unit" where
  "digit_unit d = 48 + of_nat d"

definition nat_str :: "nat \<Rightarrow> jstr" where
  "nat_str n = map digit_unit (nat_digits n)"

definition digits_value :: "nat list \<Rightarrow> nat" where
  "digits_value ds = foldl (\<lambda>a d. a * 10 + d) 0 ds"

lemma digits_value_snoc [simp]: "digits_value (ds @ [d]) = digits_value ds * 10 + d"
  by (simp add: digits_value_def)

lemma digits_value_nat_digits [simp]: "digits_value (nat_digits n) = n"
proof (induction n rule: nat_digits.induct)
  case (1 n)
  show ?case
  proof (cases "n < 10")
    case True
    then show ?thesis by (simp add: nat_digits.simps [of n] digits_value_def)
  next
    case False
    then show ?thesis using 1 by (simp add: nat_digits.simps [of n])
  qed
qed

lemma nat_digits_inject [simp]: "nat_digits m = nat_digits n \<longleftrightarrow> m = n"
  by (metis digits_value_nat_digits)

lemma nat_digits_lt10: "d \<in> set (nat_digits n) \<Longrightarrow> d < 10"
proof (induction n rule: nat_digits.induct)
  case (1 n)
  then show ?case by (auto simp: nat_digits.simps [of n] split: if_splits)
qed

lemma nat_digits_not_Nil [simp]: "nat_digits n \<noteq> []" "[] \<noteq> nat_digits n"
  by (cases "n < 10"; simp add: nat_digits.simps [of n])+

lemma unat_digit_unit: "d < 10 \<Longrightarrow> unat (digit_unit d) = 48 + d"
  by (simp add: digit_unit_def unat_word_ariths(1) unat_of_nat)

lemma digit_unit_eq: "d < 10 \<Longrightarrow> e < 10 \<Longrightarrow> digit_unit d = digit_unit e \<longleftrightarrow> d = e"
  by (metis add_left_cancel unat_digit_unit)

lemma map_digit_unit_eq:
  "\<forall>d\<in>set ds. d < 10 \<Longrightarrow> \<forall>d\<in>set es. d < 10 \<Longrightarrow> map digit_unit ds = map digit_unit es \<longleftrightarrow> ds = es"
proof (induction ds arbitrary: es)
  case Nil
  show ?case by auto
next
  case (Cons d ds)
  then show ?case by (cases es) (auto simp: digit_unit_eq)
qed

lemma is_digit_digit_unit [simp]: "d < 10 \<Longrightarrow> is_digit (digit_unit d)"
  by (simp add: is_digit_def word_le_nat_alt unat_digit_unit)

lemma nat_str_inject [simp]: "nat_str m = nat_str n \<longleftrightarrow> m = n"
  using map_digit_unit_eq [of "nat_digits m" "nat_digits n"] nat_digits_lt10
  by (auto simp: nat_str_def)

lemma nat_str_digits: "c \<in> set (nat_str n) \<Longrightarrow> is_digit c"
  using nat_digits_lt10 by (auto simp: nat_str_def)

subsection \<open>Results\<close>

text \<open>Running a list of fallible computations in order: the first error, or all results.\<close>

fun sequence :: "('e + 'a) list \<Rightarrow> 'e + 'a list" where
  "sequence [] = Inr []"
| "sequence (Inl e # rs) = Inl e"
| "sequence (Inr x # rs) = (case sequence rs of Inl e \<Rightarrow> Inl e | Inr xs \<Rightarrow> Inr (x # xs))"

lemma sequence_map_Inr [simp]: "sequence (map (\<lambda>x. Inr (f x)) xs) = Inr (map f xs)"
  by (induction xs) auto

lemma sequence_map_ok: "(\<And>x. x \<in> set xs \<Longrightarrow> f x = Inr (g x)) \<Longrightarrow> sequence (map f xs) = Inr (map g xs)"
  by (induction xs) auto

lemma sequence_eq_Inr: "sequence rs = Inr xs \<longleftrightarrow> rs = map Inr xs"
proof (induction rs arbitrary: xs rule: sequence.induct)
  case (3 x rs)
  show ?case
  proof (cases "sequence rs")
    case (Inl e)
    then show ?thesis using 3 by (cases xs) auto
  next
    case (Inr ys)
    then show ?thesis using "3.IH" [of ys] by (cases xs) (auto simp: inj_map_eq_map)
  qed
next
  case (2 e rs)
  show ?case by (cases xs) auto
qed auto

lemma set_update_subset: "set (AList.update k v al) \<subseteq> insert (k, v) (set al)"
  by (induction al) auto

subsection \<open>Safe integers\<close>

definition max_safe_integer :: int where
  "max_safe_integer = 2 ^ 53 - 1"

definition is_safe_integer :: "int \<Rightarrow> bool" where
  "is_safe_integer n \<longleftrightarrow> \<bar>n\<bar> \<le> max_safe_integer"

subsection \<open>Sets, maps and sorting in JavaScript order\<close>

text \<open>\<open>[...new Set(xs)]\<close>: first occurrences, in insertion order.\<close>

definition js_set :: "'a list \<Rightarrow> 'a list" where
  "js_set xs = rev (remdups (rev xs))"

lemma set_js_set [simp]: "set (js_set xs) = set xs"
  by (simp add: js_set_def)

lemma distinct_js_set [simp]: "distinct (js_set xs)"
  by (simp add: js_set_def)

lemma length_js_set: "length (js_set xs) = card (set xs)"
  by (metis distinct_card distinct_js_set set_js_set)

text \<open>
  \<open>Array.prototype.sort\<close> with a comparator is stable; \<open>sort_by le\<close> is the stable insertion
  sort for the relation ``not after''.
\<close>

fun insert_by :: "('a \<Rightarrow> 'a \<Rightarrow> bool) \<Rightarrow> 'a \<Rightarrow> 'a list \<Rightarrow> 'a list" where
  "insert_by le x [] = [x]"
| "insert_by le x (y # ys) = (if le x y then x # y # ys else y # insert_by le x ys)"

definition sort_by :: "('a \<Rightarrow> 'a \<Rightarrow> bool) \<Rightarrow> 'a list \<Rightarrow> 'a list" where
  "sort_by le xs = foldr (insert_by le) xs []"

lemma set_insert_by [simp]: "set (insert_by le x ys) = insert x (set ys)"
  by (induction ys) auto

lemma length_insert_by [simp]: "length (insert_by le x ys) = Suc (length ys)"
  by (induction ys) auto

lemma distinct_insert_by: "distinct (insert_by le x ys) \<longleftrightarrow> x \<notin> set ys \<and> distinct ys"
  by (induction ys) auto

lemma set_sort_by [simp]: "set (sort_by le xs) = set xs"
  by (induction xs) (auto simp: sort_by_def)

lemma length_sort_by [simp]: "length (sort_by le xs) = length xs"
  by (induction xs) (auto simp: sort_by_def)

lemma sort_by_Nil_iff [simp]: "sort_by le xs = [] \<longleftrightarrow> xs = []" "sort_by le [] = []"
  using length_sort_by [of le xs] by (auto simp: sort_by_def simp flip: length_0_conv)

lemma distinct_sort_by [simp]: "distinct (sort_by le xs) \<longleftrightarrow> distinct xs"
proof (induction xs)
  case Nil
  show ?case by (simp add: sort_by_def)
next
  case (Cons x xs)
  have "distinct (sort_by le (x # xs)) \<longleftrightarrow> x \<notin> set (sort_by le xs) \<and> distinct (sort_by le xs)"
    by (simp add: sort_by_def distinct_insert_by)
  with Cons show ?case by simp
qed

lemma sorted_wrt_insert_by:
  assumes "\<And>a b. le a b \<or> le b a" and "\<And>a b c. le a b \<Longrightarrow> le b c \<Longrightarrow> le a c"
    and "sorted_wrt le ys"
  shows "sorted_wrt le (insert_by le x ys)"
  using assms(3)
proof (induction ys)
  case Nil
  show ?case by simp
next
  case (Cons y ys)
  then show ?case using assms(1,2) by auto
qed

lemma sorted_wrt_sort_by:
  assumes "\<And>a b. le a b \<or> le b a" and "\<And>a b c. le a b \<Longrightarrow> le b c \<Longrightarrow> le a c"
  shows "sorted_wrt le (sort_by le xs)"
proof (induction xs)
  case Nil
  show ?case by (simp add: sort_by_def)
next
  case (Cons x xs)
  then have "sorted_wrt le (insert_by le x (sort_by le xs))"
    using assms by (intro sorted_wrt_insert_by) blast+
  then show ?case by (simp add: sort_by_def)
qed

lemma map_sort_by_key: "map key (sort_by (\<lambda>a b. key a \<le> key b) xs) = sort_by (\<le>) (map key xs)"
proof (induction xs)
  case Nil
  show ?case by (simp add: sort_by_def)
next
  case (Cons x xs)
  have "map key (insert_by (\<lambda>a b. key a \<le> key b) x ys) = insert_by (\<le>) (key x) (map key ys)" for ys
    by (induction ys) auto
  with Cons show ?case by (simp add: sort_by_def)
qed

lemma sorted_sort_by: "sorted (sort_by (\<le>) (xs :: 'a :: linorder list))"
  by (rule sorted_wrt_sort_by) auto

text \<open>Sorting by a key that distinguishes the elements forgets their original order.\<close>

lemma sort_by_key_unique:
  fixes key :: "'a \<Rightarrow> 'b :: linorder"
  assumes "distinct (map key xs)" and "distinct (map key ys)" and "set xs = set ys"
  shows "sort_by (\<lambda>a b. key a \<le> key b) xs = sort_by (\<lambda>a b. key a \<le> key b) ys"
proof -
  let ?s = "sort_by (\<lambda>a b. key a \<le> key b)"
  have "map key (?s xs) = map key (?s ys)"
    unfolding map_sort_by_key
    by (rule sorted_distinct_set_unique) (use assms in \<open>simp_all add: sorted_sort_by\<close>)
  moreover have "inj_on key (set (?s xs) \<union> set (?s ys))" using assms by (simp add: distinct_map)
  ultimately show ?thesis by (rule map_inj_on)
qed

subsection \<open>Digests\<close>

text \<open>
  SHA-256 is a parameter of the model. Two facts are used of it, each named where it is used:
  digests are 64 lowercase hexadecimal digits, and no two of the finitely many texts hashed in
  the situation at hand collide. Over all texts the two would contradict each other.
\<close>

definition hex_digests :: "(jstr \<Rightarrow> jstr) \<Rightarrow> bool" where
  "hex_digests h \<longleftrightarrow> (\<forall>x. hex64 (h x))"

definition collision_free :: "(jstr \<Rightarrow> 'b) \<Rightarrow> jstr list \<Rightarrow> bool" where
  "collision_free h ts \<longleftrightarrow> (\<forall>x\<in>set ts. \<forall>y\<in>set ts. h x = h y \<longrightarrow> x = y)"

lemma collision_freeD:
  "collision_free h ts \<Longrightarrow> x \<in> set ts \<Longrightarrow> y \<in> set ts \<Longrightarrow> h x = h y \<Longrightarrow> x = y"
  by (auto simp: collision_free_def)

lemma collision_free_mono: "collision_free h ts \<Longrightarrow> set us \<subseteq> set ts \<Longrightarrow> collision_free h us"
  by (auto simp: collision_free_def)

lemma collision_free_distinct:
  "distinct (map h ts) \<Longrightarrow> set us \<subseteq> set ts \<Longrightarrow> collision_free h us"
  by (auto simp: collision_free_def distinct_map dest: inj_onD)

text \<open>A checksum with the shape of a digest, at which hypotheses on the hash are instantiated.\<close>

definition hex_digit :: "int \<Rightarrow> code_unit" where
  "hex_digit d = (if d < 10 then of_int (48 + d) else of_int (87 + d))"

definition checksum :: "jstr \<Rightarrow> int" where
  "checksum s = fold (\<lambda>c a. (a * 257 + uint c + 1) mod 1048573) s 7"

definition digest_of :: "int \<Rightarrow> jstr" where
  "digest_of v =
     replicate 59 48 @
     map hex_digit [v div 65536 mod 16, v div 4096 mod 16, v div 256 mod 16, v div 16 mod 16, v mod 16]"

definition sample_digest :: "jstr \<Rightarrow> jstr" where
  "sample_digest s = digest_of (checksum s)"

lemma is_lower_hex_hex_digit:
  assumes "0 \<le> d" "d < 16"
  shows "is_lower_hex (hex_digit d)"
proof -
  have "d \<in> {0,1,2,3,4,5,6,7,8,9,10,11,12,13,14,15}" using assms by (simp, presburger)
  then show ?thesis
    by (auto simp: hex_digit_def is_lower_hex_def is_digit_def)
qed

lemma list_all_replicate: "P x \<Longrightarrow> list_all P (replicate n x)"
  by (simp add: list_all_iff)

lemma hex_digests_sample: "hex_digests sample_digest"
proof -
  have "is_lower_hex 48" by (simp add: is_lower_hex_def is_digit_def)
  then show ?thesis
    by (simp add: hex_digests_def hex64_def sample_digest_def digest_of_def is_lower_hex_hex_digit
        list_all_append list_all_replicate)
qed

subsection \<open>Ranked vocabularies\<close>

text \<open>
  A vocabulary with an injective rank is a finite chain. The code picks the larger of two
  elements with a comparison of ranks; the lemmas about folds of such picks are proved here
  once and reach the policy decisions and the provenance classes by interpretation.
\<close>

locale ranked_chain =
  fixes rank :: "'a \<Rightarrow> nat" and pick :: "'a \<Rightarrow> 'a \<Rightarrow> 'a"
  assumes rank_inj: "rank a = rank b \<Longrightarrow> a = b"
    and pick_rank: "rank (pick a b) = max (rank a) (rank b)"
begin

lemma pick_assoc: "pick (pick a b) c = pick a (pick b c)"
  by (rule rank_inj) (simp add: pick_rank max.assoc)

lemma pick_commute: "pick a b = pick b a"
  by (rule rank_inj) (simp add: pick_rank max.commute)

lemma pick_idem: "pick a a = a"
  by (rule rank_inj) (simp add: pick_rank)

lemma pick_choice: "pick a b = a \<or> pick a b = b"
proof (cases "rank a \<le> rank b")
  case True
  then have "rank (pick a b) = rank b" by (simp add: pick_rank)
  then show ?thesis by (blast intro: rank_inj)
next
  case False
  then have "rank (pick a b) = rank a" by (simp add: pick_rank)
  then show ?thesis by (blast intro: rank_inj)
qed

lemma rank_foldl_pick: "rank (foldl pick a xs) = fold max (map rank xs) (rank a)"
  by (induction xs arbitrary: a) (simp_all add: pick_rank max.commute)

lemma foldl_pick_ge: "x \<in> insert a (set xs) \<Longrightarrow> rank x \<le> rank (foldl pick a xs)"
proof (induction xs arbitrary: a x)
  case Nil
  then show ?case by simp
next
  case (Cons y xs)
  have "rank (pick a y) \<le> rank (foldl pick (pick a y) xs)"
    by (rule Cons.IH) simp
  moreover have "rank a \<le> rank (pick a y)" "rank y \<le> rank (pick a y)"
    by (simp_all add: pick_rank)
  ultimately show ?case using Cons by fastforce
qed

lemma foldl_pick_in: "foldl pick a xs \<in> insert a (set xs)"
proof (induction xs arbitrary: a)
  case Nil
  then show ?case by simp
next
  case (Cons y xs)
  then show ?case using pick_choice [of a y] by (metis foldl_Cons insert_iff list.set(2))
qed

lemma foldl_pick_unique:
  assumes "m \<in> insert a (set xs)" and "\<And>x. x \<in> insert a (set xs) \<Longrightarrow> rank x \<le> rank m"
  shows "foldl pick a xs = m"
  using assms foldl_pick_ge foldl_pick_in by (meson order_antisym rank_inj)

end

end
