(* ===== verification/Provenance.thy ===== *)
theory Provenance
  imports Prelude
begin

text \<open>
  The evidence provenance lattice, \<open>packages/enforcement-runtime/src/evidence/provenanceLattice.ts\<close>.

  A provenance label is a runtime string, looked up with \<open>value in provenanceRankByClass\<close>; the
  table is an object literal, so \<open>in\<close> also answers true for the names it inherits from
  \<open>Object.prototype\<close>, whose values are objects and functions. \<open>rank_value\<close> keeps the two
  apart: a number of the table, or an inherited object with the string it converts to. The
  five declared labels are the datatype \<open>ProvenanceClass\<close>, over which the chain is stated.
\<close>

datatype ProvenanceClass =
    AGENT_ASSERTED | GATEWAY_RECORDED | SOURCE_SIGNED | CROSS_WITNESSED | EXTERNALLY_ATTESTED

fun class_name :: "ProvenanceClass \<Rightarrow> jstr" where
  "class_name AGENT_ASSERTED = js ''AGENT_ASSERTED''"
| "class_name GATEWAY_RECORDED = js ''GATEWAY_RECORDED''"
| "class_name SOURCE_SIGNED = js ''SOURCE_SIGNED''"
| "class_name CROSS_WITNESSED = js ''CROSS_WITNESSED''"
| "class_name EXTERNALLY_ATTESTED = js ''EXTERNALLY_ATTESTED''"

definition provenanceRankByClass :: "(jstr \<times> int) list" where
  "provenanceRankByClass =
     [(js ''AGENT_ASSERTED'', 0), (js ''GATEWAY_RECORDED'', 1), (js ''SOURCE_SIGNED'', 2),
      (js ''CROSS_WITNESSED'', 3), (js ''EXTERNALLY_ATTESTED'', 4)]"

definition deriveOnlyClasses :: "jstr list" where
  "deriveOnlyClasses = [js ''CROSS_WITNESSED'']"

text \<open>The property names an object literal inherits, with the value's string conversion.\<close>

definition native_function :: "string \<Rightarrow> jstr" where
  "native_function n = js ''function '' @ js n @ js ''() { [native code] }''"

definition object_prototype :: "(jstr \<times> jstr) list" where
  "object_prototype =
     (js ''__proto__'', js ''[object Object]'') # (js ''constructor'', native_function ''Object'') #
     map (\<lambda>n. (js n, native_function n))
       [''__defineGetter__'', ''__defineSetter__'', ''hasOwnProperty'', ''__lookupGetter__'',
        ''__lookupSetter__'', ''isPrototypeOf'', ''propertyIsEnumerable'', ''toString'',
        ''valueOf'', ''toLocaleString'']"

datatype rank_value = RNum int | RObj jstr

datatype provenance_error =
    UnknownProvenanceClass jstr
  | DeriveOnlyAssigned jstr
  | BadEvidenceId nat | BadSourceId nat | BadContentDigest nat
  | NoEvidenceElements
  | DeriveOnlyElement nat
  | DigestCountMismatch nat
  | BadEffectClass
  | BadMinimumDistinctSources int

record ProvenanceLabeledEvidence =
  evidenceId :: jstr
  contentDigest :: jstr
  sourceId :: jstr
  provenanceClass :: jstr

record EvidenceFloorRequirement =
  effectClass :: jstr
  floorClass :: jstr
  minimumDistinctSources :: int

datatype floor_detail = FloorMet jstr nat jstr | FloorNeeds jstr int jstr nat

record EvidenceFloorEvaluation =
  satisfied :: bool
  qualifyingSourceIds :: "jstr list"
  floorDetail :: floor_detail

subsection \<open>Labels and their ranks\<close>

definition assertProvenanceClass :: "jstr \<Rightarrow> provenance_error + unit" where
  "assertProvenanceClass v =
     (if v \<in> fst ` set provenanceRankByClass \<or> v \<in> fst ` set object_prototype then Inr ()
      else Inl (UnknownProvenanceClass v))"

definition assertAssignableProvenanceClass :: "jstr \<Rightarrow> provenance_error + unit" where
  "assertAssignableProvenanceClass v =
     (case assertProvenanceClass v of
        Inl e \<Rightarrow> Inl e
      | Inr _ \<Rightarrow> if v \<in> set deriveOnlyClasses then Inl (DeriveOnlyAssigned v) else Inr ())"

definition provenanceRank :: "jstr \<Rightarrow> provenance_error + rank_value" where
  "provenanceRank v =
     (case assertProvenanceClass v of
        Inl e \<Rightarrow> Inl e
      | Inr _ \<Rightarrow>
          (case map_of provenanceRankByClass v of
             Some n \<Rightarrow> Inr (RNum n)
           | None \<Rightarrow> Inr (RObj (the (map_of object_prototype v)))))"

text \<open>
  \<open>-\<close> and \<open>>=\<close> on rank values: an object operand of \<open>-\<close> is \<open>NaN\<close>, and so is every
  result; \<open>>=\<close> compares two converted objects as strings and is false on a mixed pair.
\<close>

fun rank_delta :: "rank_value \<Rightarrow> rank_value \<Rightarrow> int option" where
  "rank_delta (RNum a) (RNum b) = Some (a - b)"
| "rank_delta _ _ = None"

fun rank_ge :: "rank_value \<Rightarrow> rank_value \<Rightarrow> bool" where
  "rank_ge (RNum a) (RNum b) = (a \<ge> b)"
| "rank_ge (RObj s) (RObj t) = (s \<ge> t)"
| "rank_ge _ _ = False"

definition compareProvenance :: "jstr \<Rightarrow> jstr \<Rightarrow> provenance_error + int" where
  "compareProvenance a b =
     (case provenanceRank a of
        Inl e \<Rightarrow> Inl e
      | Inr ra \<Rightarrow>
          (case provenanceRank b of
             Inl e \<Rightarrow> Inl e
           | Inr rb \<Rightarrow>
               (case rank_delta ra rb of
                  None \<Rightarrow> Inr 0
                | Some d \<Rightarrow> Inr (if d < 0 then -1 else if d > 0 then 1 else 0))))"

definition joinProvenance :: "jstr \<Rightarrow> jstr \<Rightarrow> provenance_error + jstr" where
  "joinProvenance a b =
     (case compareProvenance a b of Inl e \<Rightarrow> Inl e | Inr c \<Rightarrow> Inr (if c \<ge> 0 then a else b))"

definition meetProvenance :: "jstr \<Rightarrow> jstr \<Rightarrow> provenance_error + jstr" where
  "meetProvenance a b =
     (case compareProvenance a b of Inl e \<Rightarrow> Inl e | Inr c \<Rightarrow> Inr (if c \<le> 0 then a else b))"

definition meetsProvenanceFloor :: "jstr \<Rightarrow> jstr \<Rightarrow> provenance_error + bool" where
  "meetsProvenanceFloor obs fl =
     (case provenanceRank obs of
        Inl e \<Rightarrow> Inl e
      | Inr ro \<Rightarrow> (case provenanceRank fl of Inl e \<Rightarrow> Inl e | Inr rf \<Rightarrow> Inr (rank_ge ro rf)))"

definition admitDelegatedEvidence :: "jstr \<Rightarrow> jstr \<Rightarrow> provenance_error + jstr" where
  "admitDelegatedEvidence claimedClass reverifiedClass =
     (case assertProvenanceClass claimedClass of
        Inl e \<Rightarrow> Inl e
      | Inr _ \<Rightarrow>
          (case assertAssignableProvenanceClass reverifiedClass of
             Inl e \<Rightarrow> Inl e
           | Inr _ \<Rightarrow> meetProvenance claimedClass reverifiedClass))"

subsection \<open>Evidence sets\<close>

definition assertEvidenceShape :: "ProvenanceLabeledEvidence \<Rightarrow> nat \<Rightarrow> provenance_error + unit" where
  "assertEvidenceShape el i =
     (if \<not> url_safe_between 1 256 (evidenceId el) then Inl (BadEvidenceId i)
      else if \<not> url_safe_between 1 256 (sourceId el) then Inl (BadSourceId i)
      else if \<not> sha256_shape (contentDigest el) then Inl (BadContentDigest i)
      else assertProvenanceClass (provenanceClass el))"

fun assertAggregateElements ::
  "ProvenanceLabeledEvidence list \<Rightarrow> nat \<Rightarrow> provenance_error + unit" where
  "assertAggregateElements [] i = Inr ()"
| "assertAggregateElements (el # els) i =
     (case assertEvidenceShape el i of
        Inl e \<Rightarrow> Inl e
      | Inr _ \<Rightarrow>
          if provenanceClass el \<in> set deriveOnlyClasses then Inl (DeriveOnlyElement i)
          else assertAggregateElements els (Suc i))"

fun joinAll :: "jstr \<Rightarrow> ProvenanceLabeledEvidence list \<Rightarrow> provenance_error + jstr" where
  "joinAll agg [] = Inr agg"
| "joinAll agg (el # els) =
     (case joinProvenance agg (provenanceClass el) of
        Inl e \<Rightarrow> Inl e
      | Inr agg' \<Rightarrow> joinAll agg' els)"

fun filterFloor ::
  "ProvenanceLabeledEvidence list \<Rightarrow> jstr \<Rightarrow> provenance_error + ProvenanceLabeledEvidence list" where
  "filterFloor [] fl = Inr []"
| "filterFloor (el # els) fl =
     (case meetsProvenanceFloor (provenanceClass el) fl of
        Inl e \<Rightarrow> Inl e
      | Inr ok \<Rightarrow>
          (case filterFloor els fl of
             Inl e \<Rightarrow> Inl e
           | Inr rest \<Rightarrow> Inr (if ok then el # rest else rest)))"

definition deriveAggregateClass ::
  "ProvenanceLabeledEvidence list \<Rightarrow> provenance_error + jstr" where
  "deriveAggregateClass elements =
     (case elements of
        [] \<Rightarrow> Inl NoEvidenceElements
      | el0 # rest \<Rightarrow>
          (case assertAggregateElements elements 0 of
             Inl e \<Rightarrow> Inl e
           | Inr _ \<Rightarrow>
               let digests = js_set (map contentDigest elements) in
               if length digests \<noteq> 1 then Inl (DigestCountMismatch (length digests))
               else
                 (case joinAll (provenanceClass el0) rest of
                    Inl e \<Rightarrow> Inl e
                  | Inr aggregate \<Rightarrow>
                      (case filterFloor elements (js ''SOURCE_SIGNED'') of
                         Inl e \<Rightarrow> Inl e
                       | Inr sgnd \<Rightarrow>
                           if length (js_set (map sourceId sgnd)) \<ge> 2
                           then joinProvenance aggregate (js ''CROSS_WITNESSED'')
                           else Inr aggregate))))"

definition assertRequirementShape :: "EvidenceFloorRequirement \<Rightarrow> provenance_error + unit" where
  "assertRequirementShape r =
     (if \<not> url_safe_between 1 256 (effectClass r) then Inl BadEffectClass
      else
        (case assertProvenanceClass (floorClass r) of
           Inl e \<Rightarrow> Inl e
         | Inr _ \<Rightarrow>
             if \<not> is_safe_integer (minimumDistinctSources r) \<or> minimumDistinctSources r < 1
             then Inl (BadMinimumDistinctSources (minimumDistinctSources r))
             else Inr ()))"

fun assertElements :: "ProvenanceLabeledEvidence list \<Rightarrow> nat \<Rightarrow> provenance_error + unit" where
  "assertElements [] i = Inr ()"
| "assertElements (el # els) i =
     (case assertEvidenceShape el i of Inl e \<Rightarrow> Inl e | Inr _ \<Rightarrow> assertElements els (Suc i))"

definition evaluateEvidenceFloor ::
  "ProvenanceLabeledEvidence list \<Rightarrow> EvidenceFloorRequirement \<Rightarrow>
     provenance_error + EvidenceFloorEvaluation" where
  "evaluateEvidenceFloor elements r =
     (case assertRequirementShape r of
        Inl e \<Rightarrow> Inl e
      | Inr _ \<Rightarrow>
          (case assertElements elements 0 of
             Inl e \<Rightarrow> Inl e
           | Inr _ \<Rightarrow>
               (case filterFloor elements (floorClass r) of
                  Inl e \<Rightarrow> Inl e
                | Inr q \<Rightarrow>
                    let ids = sort (js_set (map sourceId q));
                        ok = int (length ids) \<ge> minimumDistinctSources r
                    in Inr \<lparr>satisfied = ok, qualifyingSourceIds = ids,
                            floorDetail =
                              (if ok then FloorMet (effectClass r) (length ids) (floorClass r)
                               else FloorNeeds (effectClass r) (minimumDistinctSources r)
                                      (floorClass r) (length ids))\<rparr>)))"

definition detectVacuousRequirement :: "EvidenceFloorRequirement \<Rightarrow> provenance_error + bool" where
  "detectVacuousRequirement r =
     (case assertRequirementShape r of
        Inl e \<Rightarrow> Inl e
      | Inr _ \<Rightarrow> Inr (floorClass r = js ''AGENT_ASSERTED''))"

subsection \<open>The chain of declared classes\<close>

fun class_rank :: "ProvenanceClass \<Rightarrow> nat" where
  "class_rank AGENT_ASSERTED = 0"
| "class_rank GATEWAY_RECORDED = 1"
| "class_rank SOURCE_SIGNED = 2"
| "class_rank CROSS_WITNESSED = 3"
| "class_rank EXTERNALLY_ATTESTED = 4"

definition class_join :: "ProvenanceClass \<Rightarrow> ProvenanceClass \<Rightarrow> ProvenanceClass" where
  "class_join a b = (if class_rank b \<le> class_rank a then a else b)"

definition class_meet :: "ProvenanceClass \<Rightarrow> ProvenanceClass \<Rightarrow> ProvenanceClass" where
  "class_meet a b = (if class_rank a \<le> class_rank b then a else b)"

lemma class_rank_inj: "class_rank a = class_rank b \<Longrightarrow> a = b"
  by (cases a; cases b) simp_all

interpretation prov: ranked_chain class_rank class_join
  by unfold_locales (auto intro: class_rank_inj simp: class_join_def)

lemma class_meet_rank: "class_rank (class_meet a b) = min (class_rank a) (class_rank b)"
  by (simp add: class_meet_def)

lemma class_name_eq_iff [simp]: "class_name a = class_name b \<longleftrightarrow> a = b"
  by (cases a; cases b) simp_all

lemmas label_tables = provenanceRankByClass_def deriveOnlyClasses_def object_prototype_def

lemma assertProvenanceClass_class [simp]: "assertProvenanceClass (class_name c) = Inr ()"
  by (cases c) (simp_all add: assertProvenanceClass_def label_tables)

lemma deriveOnly_class [simp]: "class_name c \<in> set deriveOnlyClasses \<longleftrightarrow> c = CROSS_WITNESSED"
  by (cases c) (simp_all add: label_tables)

lemma map_of_rank_class [simp]:
  "map_of provenanceRankByClass (class_name c) = Some (int (class_rank c))"
  by (cases c) (simp_all add: label_tables)

lemma provenanceRank_class [simp]:
  "provenanceRank (class_name c) = Inr (RNum (int (class_rank c)))"
  by (simp add: provenanceRank_def)

lemma compareProvenance_class:
  "compareProvenance (class_name a) (class_name b) =
     Inr (if class_rank a < class_rank b then -1 else if class_rank b < class_rank a then 1 else 0)"
  by (auto simp: compareProvenance_def)

lemma joinProvenance_class [simp]:
  "joinProvenance (class_name a) (class_name b) = Inr (class_name (class_join a b))"
  by (simp add: joinProvenance_def compareProvenance_class class_join_def)

lemma meetProvenance_class [simp]:
  "meetProvenance (class_name a) (class_name b) = Inr (class_name (class_meet a b))"
  by (simp add: meetProvenance_def compareProvenance_class class_meet_def)

lemma meetsProvenanceFloor_class [simp]:
  "meetsProvenanceFloor (class_name a) (class_name b) = Inr (class_rank b \<le> class_rank a)"
  by (simp add: meetsProvenanceFloor_def)

lemma admitDelegatedEvidence_class:
  "admitDelegatedEvidence (class_name a) (class_name b) =
     (if b = CROSS_WITNESSED then Inl (DeriveOnlyAssigned (class_name b))
      else Inr (class_name (class_meet a b)))"
  by (simp add: admitDelegatedEvidence_def assertAssignableProvenanceClass_def)

text \<open>
  On the five declared classes \<open>joinProvenance\<close> and \<open>meetProvenance\<close> never raise and
  compute the least upper and greatest lower bound of the rank order.
\<close>

theorem join_meet_are_lattice_bounds:
  "\<exists>j m. joinProvenance (class_name a) (class_name b) = Inr (class_name j)
       \<and> meetProvenance (class_name a) (class_name b) = Inr (class_name m)
       \<and> class_rank j = max (class_rank a) (class_rank b)
       \<and> class_rank m = min (class_rank a) (class_rank b)
       \<and> joinProvenance (class_name a) (class_name b) = joinProvenance (class_name b) (class_name a)
       \<and> meetProvenance (class_name a) (class_name b) = meetProvenance (class_name b) (class_name a)"
proof -
  have "class_meet a b = class_meet b a"
    by (rule class_rank_inj) (simp add: class_meet_rank min.commute)
  then show ?thesis
    by (simp add: prov.pick_rank class_meet_rank prov.pick_commute)
qed

subsection \<open>Delegation hops\<close>

text \<open>Evidence passed through a chain of boundaries, each re-verifying at its own class.\<close>

fun delegate :: "jstr \<Rightarrow> jstr list \<Rightarrow> provenance_error + jstr" where
  "delegate c [] = Inr c"
| "delegate c (r # rs) =
     (case admitDelegatedEvidence c r of Inl e \<Rightarrow> Inl e | Inr c' \<Rightarrow> delegate c' rs)"

text \<open>
  No laundering: whatever class is claimed, after any chain of delegation hops the
  admitted class ranks no higher than the claim and no higher than what any single boundary
  re-verified; it is exactly the lowest of them.
\<close>

theorem delegation_never_launders:
  assumes "delegate (class_name c) (map class_name rs) = Inr out"
  shows "\<exists>d. out = class_name d \<and> class_rank d \<le> class_rank c
           \<and> (\<forall>r \<in> set rs. class_rank d \<le> class_rank r)
           \<and> (d = c \<or> d \<in> set rs)"
  using assms
proof (induction rs arbitrary: c)
  case Nil
  then show ?case by auto
next
  case (Cons r rs)
  from Cons.prems have r: "r \<noteq> CROSS_WITNESSED"
    and next_hop: "delegate (class_name (class_meet c r)) (map class_name rs) = Inr out"
    by (auto simp: admitDelegatedEvidence_class split: if_splits)
  from Cons.IH [OF next_hop] show ?case
    by (auto simp: class_meet_rank) (auto simp: class_meet_def split: if_splits)
qed

theorem delegation_never_launders_witness:
  "delegate (class_name SOURCE_SIGNED) (map class_name [EXTERNALLY_ATTESTED, GATEWAY_RECORDED])
     = Inr (class_name GATEWAY_RECORDED)
   \<and> class_rank GATEWAY_RECORDED \<le> class_rank SOURCE_SIGNED"
proof -
  have run: "delegate (class_name SOURCE_SIGNED)
      (map class_name [EXTERNALLY_ATTESTED, GATEWAY_RECORDED]) = Inr (class_name GATEWAY_RECORDED)"
    by (simp only: list.map delegate.simps admitDelegatedEvidence_class) (simp add: class_meet_def admitDelegatedEvidence_class del: class_name.simps)
  from delegation_never_launders [OF run] show ?thesis
    using run by (metis class_name_eq_iff)
qed

subsection \<open>Aggregation\<close>

definition signed_sources ::
  "nat \<Rightarrow> ProvenanceLabeledEvidence list \<Rightarrow> ProvenanceClass list \<Rightarrow> jstr set" where
  "signed_sources n els cs = sourceId ` fst ` {p \<in> set (zip els cs). n \<le> class_rank (snd p)}"

lemma joinAll_class:
  "map provenanceClass els = map class_name cs \<Longrightarrow>
   joinAll (class_name a) els = Inr (class_name (foldl class_join a cs))"
proof (induction els arbitrary: a cs)
  case Nil
  then show ?case by simp
next
  case (Cons el els)
  then obtain c cs' where "cs = c # cs'" "provenanceClass el = class_name c"
    "map provenanceClass els = map class_name cs'"
    by (cases cs) auto
  then show ?case using Cons.IH by simp
qed

lemma filterFloor_class:
  "map provenanceClass els = map class_name cs \<Longrightarrow>
   filterFloor els (class_name f) =
     Inr (map fst (filter (\<lambda>p. class_rank f \<le> class_rank (snd p)) (zip els cs)))"
proof (induction els arbitrary: cs)
  case Nil
  then show ?case by simp
next
  case (Cons el els)
  then obtain c cs' where "cs = c # cs'" "provenanceClass el = class_name c"
    "map provenanceClass els = map class_name cs'"
    by (cases cs) auto
  then show ?case using Cons.IH by simp
qed

lemma assertAggregateElements_ok:
  "assertAggregateElements els i = Inr () \<Longrightarrow>
   \<forall>el \<in> set els. assertEvidenceShape el 0 = Inr () \<and> provenanceClass el \<notin> set deriveOnlyClasses"
  by (induction els i rule: assertAggregateElements.induct)
    (auto simp: assertEvidenceShape_def split: sum.splits if_splits)

lemma class_rank_top: "4 \<le> class_rank m \<longleftrightarrow> m = EXTERNALLY_ATTESTED"
  by (cases m) simp_all

lemma class_join_cross:
  "class_join m CROSS_WITNESSED =
     (if m = EXTERNALLY_ATTESTED then EXTERNALLY_ATTESTED else CROSS_WITNESSED)"
  by (cases m) (simp_all add: class_join_def)

lemma deriveAggregateClass_value:
  assumes "deriveAggregateClass els = Inr out" and cs: "map provenanceClass els = map class_name cs"
  shows "\<exists>m. m \<in> set cs \<and> (\<forall>c \<in> set cs. class_rank c \<le> class_rank m) \<and> CROSS_WITNESSED \<notin> set cs
     \<and> out = class_name (if 2 \<le> card (signed_sources 2 els cs) then class_join m CROSS_WITNESSED else m)"
proof -
  from assms(1) obtain el0 rest where els: "els = el0 # rest"
    by (cases els) (auto simp: deriveAggregateClass_def)
  with cs obtain c0 cs0 where cs': "cs = c0 # cs0" and c0: "provenanceClass el0 = class_name c0"
    and cs0: "map provenanceClass rest = map class_name cs0"
    by (cases cs) auto
  let ?m = "foldl class_join c0 cs0"
  have ff: "filterFloor els (js ''SOURCE_SIGNED'') =
      Inr (map fst (filter (\<lambda>p. 2 \<le> class_rank (snd p)) (zip els cs)))"
    using filterFloor_class [OF cs, of SOURCE_SIGNED] by simp
  have card: "length (js_set (map (sourceId \<circ> fst) (filter (\<lambda>p. 2 \<le> class_rank (snd p)) (zip els cs))))
      = card (signed_sources 2 els cs)"
    by (simp add: length_js_set signed_sources_def image_image)
  have aggr: "assertAggregateElements els 0 = Inr ()"
    using assms(1) els by (auto simp: deriveAggregateClass_def split: sum.splits)
  have out: "out = class_name (if 2 \<le> card (signed_sources 2 els cs) then class_join ?m CROSS_WITNESSED else ?m)"
  proof -
    have ja: "joinAll (provenanceClass el0) rest = Inr (class_name ?m)"
      using joinAll_class [OF cs0] c0 by simp
    have jc: "joinProvenance (class_name ?m) (js ''CROSS_WITNESSED'') =
        Inr (class_name (class_join ?m CROSS_WITNESSED))"
      using joinProvenance_class [of ?m CROSS_WITNESSED] by simp
    from assms(1) aggr show ?thesis
      by (simp add: deriveAggregateClass_def els ja ff [unfolded els] card [unfolded els] jc
          Let_def del: filterFloor.simps assertAggregateElements.simps split: if_splits)
  qed
  have "\<forall>c \<in> set cs. c \<noteq> CROSS_WITNESSED"
  proof
    fix c assume "c \<in> set cs"
    then have "class_name c \<in> set (map provenanceClass els)" by (simp add: cs)
    then obtain el where "el \<in> set els" "provenanceClass el = class_name c" by auto
    then have "class_name c \<notin> set deriveOnlyClasses"
      using assertAggregateElements_ok [OF aggr] by (metis (no_types))
    then show "c \<noteq> CROSS_WITNESSED" using deriveOnly_class [of c] by blast
  qed
  moreover have "?m \<in> set cs" using prov.foldl_pick_in [of c0 cs0] by (simp add: cs')
  moreover have "\<forall>c \<in> set cs. class_rank c \<le> class_rank ?m"
    using prov.foldl_pick_ge [of _ c0 cs0] by (auto simp: cs')
  ultimately show ?thesis using out by blast
qed

text \<open>
  \<open>CROSS_WITNESSED\<close> is derive-only: when aggregation of declared classes succeeds, the
  result is \<open>CROSS_WITNESSED\<close> exactly if two distinct sources at \<open>SOURCE_SIGNED\<close> or above agree
  and no element is externally attested; otherwise the result is the highest individual class.
\<close>

theorem aggregate_cross_witness_iff:
  assumes "deriveAggregateClass els = Inr out" and "map provenanceClass els = map class_name cs"
  shows "(out = class_name CROSS_WITNESSED \<longleftrightarrow>
            2 \<le> card (signed_sources 2 els cs) \<and> EXTERNALLY_ATTESTED \<notin> set cs)
     \<and> (out \<noteq> class_name CROSS_WITNESSED \<longrightarrow>
          (\<exists>c \<in> set cs. out = class_name c \<and> (\<forall>d \<in> set cs. class_rank d \<le> class_rank c)))"
proof -
  obtain m where m: "m \<in> set cs" "\<forall>c \<in> set cs. class_rank c \<le> class_rank m" "CROSS_WITNESSED \<notin> set cs"
    and out: "out = class_name (if 2 \<le> card (signed_sources 2 els cs) then class_join m CROSS_WITNESSED else m)"
    using deriveAggregateClass_value [OF assms] by blast
  have ext: "m = EXTERNALLY_ATTESTED \<longleftrightarrow> EXTERNALLY_ATTESTED \<in> set cs"
    using m(1,2) by (auto simp: class_rank_top dest!: bspec [of _ _ EXTERNALLY_ATTESTED])
  from m(1,3) have "m \<noteq> CROSS_WITNESSED" by auto
  with ext m out show ?thesis
    by (auto simp: class_join_cross simp del: class_name.simps split: if_splits)
qed

definition sample_digest :: jstr where
  "sample_digest = js ''sha256:'' @ replicate 64 (cu CHR ''0'')"

definition sample_evidence :: "string \<Rightarrow> ProvenanceClass \<Rightarrow> ProvenanceLabeledEvidence" where
  "sample_evidence src c = \<lparr>evidenceId = js ''ev-1'', contentDigest = sample_digest,
     sourceId = js src, provenanceClass = class_name c\<rparr>"

theorem aggregate_cross_witness_iff_witness:
  "deriveAggregateClass [sample_evidence ''alice'' SOURCE_SIGNED, sample_evidence ''bob'' SOURCE_SIGNED]
     = Inr (class_name CROSS_WITNESSED)
   \<and> 2 \<le> card (signed_sources 2
        [sample_evidence ''alice'' SOURCE_SIGNED, sample_evidence ''bob'' SOURCE_SIGNED]
        [SOURCE_SIGNED, SOURCE_SIGNED])"
proof -
  let ?els = "[sample_evidence ''alice'' SOURCE_SIGNED, sample_evidence ''bob'' SOURCE_SIGNED]"
  have run: "deriveAggregateClass ?els = Inr (class_name CROSS_WITNESSED)"
    by code_simp
  have cls: "map provenanceClass ?els = map class_name [SOURCE_SIGNED, SOURCE_SIGNED]"
    by (simp add: sample_evidence_def)
  from aggregate_cross_witness_iff [OF run cls] run show ?thesis by simp
qed

subsection \<open>Floors\<close>

lemma sorted_distinct_eq_set: "sort (js_set xs) = sorted_list_of_set (set xs)"
  by (metis sorted_list_of_set_sort_remdups distinct_js_set distinct_remdups_id set_js_set)

lemma evaluateEvidenceFloor_value:
  assumes "evaluateEvidenceFloor els r = Inr ev"
    and cs: "map provenanceClass els = map class_name cs" and f: "floorClass r = class_name f"
  shows "qualifyingSourceIds ev = sorted_list_of_set (signed_sources (class_rank f) els cs)
     \<and> (satisfied ev \<longleftrightarrow> minimumDistinctSources r \<le> int (card (signed_sources (class_rank f) els cs)))
     \<and> floorDetail ev =
         (if satisfied ev
          then FloorMet (effectClass r) (card (signed_sources (class_rank f) els cs)) (floorClass r)
          else FloorNeeds (effectClass r) (minimumDistinctSources r) (floorClass r)
                 (card (signed_sources (class_rank f) els cs)))"
proof -
  let ?q = "map fst (filter (\<lambda>p. class_rank f \<le> class_rank (snd p)) (zip els cs))"
  have ff: "filterFloor els (floorClass r) = Inr ?q"
    unfolding f by (rule filterFloor_class [OF cs])
  have set: "set (map sourceId ?q) = signed_sources (class_rank f) els cs"
    by (simp add: signed_sources_def image_image)
  have ids: "sort (js_set (map sourceId ?q)) = sorted_list_of_set (signed_sources (class_rank f) els cs)"
    by (simp only: sorted_distinct_eq_set set)
  have fin: "finite (signed_sources (class_rank f) els cs)"
    unfolding set [symmetric] by simp
  have "assertRequirementShape r = Inr ()" "assertElements els 0 = Inr ()"
    using assms(1) by (auto simp: evaluateEvidenceFloor_def split: sum.splits)
  then show ?thesis
    using assms(1) fin by (auto simp: evaluateEvidenceFloor_def ff ids Let_def simp del: map_map)
qed

text \<open>
  The floor verdict counts exactly the distinct sources at or above the floor: it is
  satisfied iff there are at least the required number of them, and they are what it reports.
\<close>

theorem floor_counts_distinct_sources:
  assumes "evaluateEvidenceFloor els r = Inr ev"
    and "map provenanceClass els = map class_name cs" and "floorClass r = class_name f"
  shows "set (qualifyingSourceIds ev) = signed_sources (class_rank f) els cs
     \<and> sorted (qualifyingSourceIds ev) \<and> distinct (qualifyingSourceIds ev)
     \<and> (satisfied ev \<longleftrightarrow> minimumDistinctSources r \<le> int (card (signed_sources (class_rank f) els cs)))"
proof -
  have "finite (signed_sources (class_rank f) els cs)" by (simp add: signed_sources_def)
  then show ?thesis using evaluateEvidenceFloor_value [OF assms] by simp
qed

definition sample_requirement :: EvidenceFloorRequirement where
  "sample_requirement = \<lparr>effectClass = js ''pay'', floorClass = js ''SOURCE_SIGNED'',
     minimumDistinctSources = 1\<rparr>"

lemma signed_sources_append:
  assumes "length els = length cs"
  shows "signed_sources n (els @ ys) (cs @ ds) = signed_sources n els cs \<union> signed_sources n ys ds"
proof -
  have "zip (els @ ys) (cs @ ds) = zip els cs @ zip ys ds" using assms by simp
  then show ?thesis by (simp add: signed_sources_def Collect_disj_eq conj_disj_distribR image_Un)
qed

text \<open>
  Verdict monotonicity under provenance stratification: adding any number of elements
  whose declared class is below the floor leaves the whole evaluation unchanged.
\<close>

theorem below_floor_evidence_is_inert:
  assumes "evaluateEvidenceFloor els r = Inr ev" and "evaluateEvidenceFloor (els @ ys) r = Inr ev'"
    and cs: "map provenanceClass els = map class_name cs" and ds: "map provenanceClass ys = map class_name ds"
    and f: "floorClass r = class_name f"
    and below: "\<forall>d \<in> set ds. class_rank d < class_rank f"
  shows "ev' = ev"
proof -
  have len: "length els = length cs" using cs by (metis length_map)
  have none: "signed_sources (class_rank f) ys ds = {}"
    using below by (auto simp: signed_sources_def dest!: set_zip_rightD)
  have same: "signed_sources (class_rank f) (els @ ys) (cs @ ds) = signed_sources (class_rank f) els cs"
    using none by (simp add: signed_sources_append [OF len])
  have app: "map provenanceClass (els @ ys) = map class_name (cs @ ds)" using cs ds by simp
  from evaluateEvidenceFloor_value [OF assms(1) cs f] evaluateEvidenceFloor_value [OF assms(2) app f]
  show ?thesis by (simp add: same)
qed

theorem floor_counts_distinct_sources_witness:
  "\<exists>ev. evaluateEvidenceFloor [sample_evidence ''alice'' SOURCE_SIGNED, sample_evidence ''bob'' AGENT_ASSERTED]
      sample_requirement = Inr ev \<and> qualifyingSourceIds ev = [js ''alice''] \<and> satisfied ev
    \<and> minimumDistinctSources sample_requirement \<le> int (card (signed_sources (class_rank SOURCE_SIGNED)
        [sample_evidence ''alice'' SOURCE_SIGNED, sample_evidence ''bob'' AGENT_ASSERTED]
        [SOURCE_SIGNED, AGENT_ASSERTED]))"
proof -
  let ?els = "[sample_evidence ''alice'' SOURCE_SIGNED, sample_evidence ''bob'' AGENT_ASSERTED]"
  let ?ev = "\<lparr>satisfied = True, qualifyingSourceIds = [js ''alice''],
      floorDetail = FloorMet (js ''pay'') 1 (js ''SOURCE_SIGNED'')\<rparr>"
  have run: "evaluateEvidenceFloor ?els sample_requirement = Inr ?ev"
    by code_simp
  have cls: "map provenanceClass ?els = map class_name [SOURCE_SIGNED, AGENT_ASSERTED]"
    by (simp add: sample_evidence_def)
  have fl: "floorClass sample_requirement = class_name SOURCE_SIGNED"
    by (simp add: sample_requirement_def)
  from floor_counts_distinct_sources [OF run cls fl] run show ?thesis by auto
qed

theorem below_floor_evidence_is_inert_witness:
  "evaluateEvidenceFloor ([sample_evidence ''alice'' SOURCE_SIGNED] @ [sample_evidence ''bob'' AGENT_ASSERTED])
     sample_requirement = evaluateEvidenceFloor [sample_evidence ''alice'' SOURCE_SIGNED] sample_requirement
   \<and> (\<exists>ev. evaluateEvidenceFloor [sample_evidence ''alice'' SOURCE_SIGNED] sample_requirement = Inr ev)"
proof -
  let ?ev = "\<lparr>satisfied = True, qualifyingSourceIds = [js ''alice''],
      floorDetail = FloorMet (js ''pay'') 1 (js ''SOURCE_SIGNED'')\<rparr>"
  have r1: "evaluateEvidenceFloor [sample_evidence ''alice'' SOURCE_SIGNED] sample_requirement = Inr ?ev"
    by code_simp
  obtain ev' where r2: "evaluateEvidenceFloor ([sample_evidence ''alice'' SOURCE_SIGNED] @
      [sample_evidence ''bob'' AGENT_ASSERTED]) sample_requirement = Inr ev'"
  proof -
    have "evaluateEvidenceFloor ([sample_evidence ''alice'' SOURCE_SIGNED] @
      [sample_evidence ''bob'' AGENT_ASSERTED]) sample_requirement = Inr ?ev" by code_simp
    then show thesis by (rule that)
  qed
  have "ev' = ?ev"
    by (rule below_floor_evidence_is_inert [OF r1 r2, where cs = "[SOURCE_SIGNED]" and ds = "[AGENT_ASSERTED]"
          and f = SOURCE_SIGNED]) (simp_all add: sample_evidence_def sample_requirement_def)
  with r1 r2 show ?thesis by simp
qed

subsection \<open>Inherited names pass the label check\<close>

text \<open>
  The membership test does not fail closed: a label that is none of the five declared
  classes but the name of an inherited property is accepted, and as the first element of a pair
  it absorbs every declared class under both \<open>joinProvenance\<close> and \<open>meetProvenance\<close>; a delegated
  claim of that label is admitted unchanged.
\<close>

theorem inherited_name_is_accepted_and_absorbs:
  "js ''constructor'' \<notin> range class_name
   \<and> assertProvenanceClass (js ''constructor'') = Inr ()
   \<and> joinProvenance (js ''constructor'') (class_name c) = Inr (js ''constructor'')
   \<and> meetProvenance (js ''constructor'') (class_name c) = Inr (js ''constructor'')
   \<and> (c \<noteq> CROSS_WITNESSED \<longrightarrow>
        admitDelegatedEvidence (js ''constructor'') (class_name c) = Inr (js ''constructor''))"
proof -
  have out: "js ''constructor'' \<notin> range class_name"
  proof
    assume "js ''constructor'' \<in> range class_name"
    then obtain k where "js ''constructor'' = class_name k" by blast
    then show False by (cases k) simp_all
  qed
  have ok: "assertProvenanceClass (js ''constructor'') = Inr ()"
    by (simp add: assertProvenanceClass_def label_tables)
  have rank: "provenanceRank (js ''constructor'') = Inr (RObj (native_function ''Object''))"
    by (simp add: provenanceRank_def ok) (simp add: label_tables)
  have cmp: "compareProvenance (js ''constructor'') (class_name c) = Inr 0"
    by (simp add: compareProvenance_def rank)
  show ?thesis
    using out by (simp add: ok cmp joinProvenance_def meetProvenance_def admitDelegatedEvidence_def
        assertAssignableProvenanceClass_def)
qed

theorem inherited_name_is_accepted_and_absorbs_witness:
  "admitDelegatedEvidence (js ''constructor'') (class_name SOURCE_SIGNED) = Inr (js ''constructor'')"
  using inherited_name_is_accepted_and_absorbs [of SOURCE_SIGNED] by simp

end
