(* ===== verification/Merkle_Log.thy ===== *)
theory Merkle_Log
  imports Prelude
begin

text \<open>
  The append-only Merkle log, \<open>packages/research-frontier/src/merkle.ts\<close>: tree hashes, inclusion
  proofs and consistency proofs in the style of RFC 6962.

  SHA-256 is a parameter \<open>h\<close>, from the hashed text to its hex digest. What the code relies on
  is named where it is used: \<open>hex_digests h\<close>, that digests are 64 lowercase hex digits, and
  collision freedom of \<open>h\<close> on the finite list of the texts that the tree and the proof at hand
  hash.
  Sizes and indices that come from a proof are integers, checked as the code checks them; the
  recursion over ranges uses natural numbers. An exception of the code is a value \<open>Inl e\<close>.
\<close>

datatype merkle_error =
    NotSha256Hex
  | BadTreeSize
  | BadLeafIndex
  | OldTreeTooLarge
  | PowerUndefined
  | EmptyRange
  | LeafUndefined

datatype position = PLeft | PRight

type_synonym proof_step = "position \<times> jstr"

record MerkleInclusionProof =
  tree_size :: int
  leaf_index :: int
  leaf_hash :: jstr
  root_hash :: jstr
  audit_path :: "proof_step list"

record MerkleConsistencyProof =
  old_tree_size :: int
  new_tree_size :: int
  consistency_path :: "jstr list"

definition EMPTY_TREE_ROOT :: "(jstr \<Rightarrow> jstr) \<Rightarrow> jstr" where
  "EMPTY_TREE_ROOT h = h (js ''ghostark.empty_merkle_tree.v1'')"

definition leafHash :: "(jstr \<Rightarrow> jstr) \<Rightarrow> jstr \<Rightarrow> jstr" where
  "leafHash h payload = h (js ''ghostark.leaf.v1:'' @ payload)"

definition assertSha256Hex :: "jstr \<Rightarrow> merkle_error + unit" where
  "assertSha256Hex v = (if hex64 v then Inr () else Inl NotSha256Hex)"

definition node_text :: "jstr \<Rightarrow> jstr \<Rightarrow> jstr" where
  "node_text l r = js ''ghostark.node.v1:'' @ l @ js '':'' @ r"

definition nodeHash :: "(jstr \<Rightarrow> jstr) \<Rightarrow> jstr \<Rightarrow> jstr \<Rightarrow> merkle_error + jstr" where
  "nodeHash h l r =
     (case assertSha256Hex l of
        Inl e \<Rightarrow> Inl e
      | Inr _ \<Rightarrow>
          (case assertSha256Hex r of
             Inl e \<Rightarrow> Inl e
           | Inr _ \<Rightarrow> Inr (h (node_text l r))))"

fun assertLeafHashes :: "jstr list \<Rightarrow> merkle_error + unit" where
  "assertLeafHashes [] = Inr ()"
| "assertLeafHashes (x # xs) =
     (case assertSha256Hex x of Inl e \<Rightarrow> Inl e | Inr _ \<Rightarrow> assertLeafHashes xs)"

definition assertTreeSize :: "int \<Rightarrow> merkle_error + unit" where
  "assertTreeSize v = (if \<not> is_safe_integer v \<or> v < 0 then Inl BadTreeSize else Inr ())"

definition assertValidLeafIndex :: "int \<Rightarrow> int \<Rightarrow> merkle_error + unit" where
  "assertValidLeafIndex leafIndex treeSize =
     (case assertTreeSize treeSize of
        Inl e \<Rightarrow> Inl e
      | Inr _ \<Rightarrow>
          if \<not> is_safe_integer leafIndex \<or> leafIndex < 0 \<or> leafIndex \<ge> treeSize
          then Inl BadLeafIndex else Inr ())"

text \<open>The loop \<open>while (power * 2 < value) power *= 2\<close>; it starts at 1, so the power is positive.\<close>

function doubling :: "nat \<Rightarrow> nat \<Rightarrow> nat" where
  "doubling pw value =
     (if 0 < pw \<and> pw * 2 < value then doubling (pw * 2) value else pw)"
  by pat_completeness auto
termination
  by (relation "measure (\<lambda>(pw, value). value - pw)") auto

declare doubling.simps [simp del]

definition largestPowerOfTwoLessThan :: "nat \<Rightarrow> merkle_error + nat" where
  "largestPowerOfTwoLessThan value =
     (if \<not> is_safe_integer (int value) \<or> value \<le> 1 then Inl PowerUndefined
      else Inr (doubling 1 value))"

lemma doubling_bounds:
  "0 < p \<Longrightarrow> p < v \<Longrightarrow> p \<le> doubling p v \<and> doubling p v < v \<and> v \<le> 2 * doubling p v"
proof (induction p v rule: doubling.induct)
  case (1 p v)
  then show ?case
    by (cases "p * 2 < v") (auto simp: doubling.simps [of p v])
qed

lemma largestPowerOfTwoLessThan_bounds:
  "largestPowerOfTwoLessThan n = Inr k \<Longrightarrow> 0 < k \<and> k < n \<and> n \<le> 2 * k"
  using doubling_bounds [of 1 n] by (auto simp: largestPowerOfTwoLessThan_def split: if_splits)

lemma largestPow_Inr_less [termination_simp]:
  "Inr k = largestPowerOfTwoLessThan n \<Longrightarrow> 0 < k" "Inr k = largestPowerOfTwoLessThan n \<Longrightarrow> k < n"
  using largestPowerOfTwoLessThan_bounds by metis+

function merkleRootForRange ::
  "(jstr \<Rightarrow> jstr) \<Rightarrow> jstr list \<Rightarrow> nat \<Rightarrow> nat \<Rightarrow> merkle_error + jstr" where
  "merkleRootForRange h leafHashes start end =
     (if end \<le> start then Inl EmptyRange
      else if end - start = 1 then
        (if start < length leafHashes then Inr (leafHashes ! start) else Inl LeafUndefined)
      else
        (case largestPowerOfTwoLessThan (end - start) of
           Inl e \<Rightarrow> Inl e
         | Inr k \<Rightarrow>
             (case merkleRootForRange h leafHashes start (start + k) of
                Inl e \<Rightarrow> Inl e
              | Inr l \<Rightarrow>
                  (case merkleRootForRange h leafHashes (start + k) end of
                     Inl e \<Rightarrow> Inl e
                   | Inr r \<Rightarrow> nodeHash h l r))))"
  by pat_completeness auto
termination
  by (relation "measure (\<lambda>(h, ls, s, e). e - s)")
    (auto dest!: largestPowerOfTwoLessThan_bounds)

function inclusionPathForRange ::
  "(jstr \<Rightarrow> jstr) \<Rightarrow> nat \<Rightarrow> jstr list \<Rightarrow> nat \<Rightarrow> nat \<Rightarrow> merkle_error + proof_step list" where
  "inclusionPathForRange h leafIndex leafHashes start end =
     (if end - start = 1 then Inr []
      else
        (case largestPowerOfTwoLessThan (end - start) of
           Inl e \<Rightarrow> Inl e
         | Inr k \<Rightarrow>
             if leafIndex < start + k then
               (case inclusionPathForRange h leafIndex leafHashes start (start + k) of
                  Inl e \<Rightarrow> Inl e
                | Inr path \<Rightarrow>
                    (case merkleRootForRange h leafHashes (start + k) end of
                       Inl e \<Rightarrow> Inl e
                     | Inr r \<Rightarrow> Inr (path @ [(PRight, r)])))
             else
               (case inclusionPathForRange h leafIndex leafHashes (start + k) end of
                  Inl e \<Rightarrow> Inl e
                | Inr path \<Rightarrow>
                    (case merkleRootForRange h leafHashes start (start + k) of
                       Inl e \<Rightarrow> Inl e
                     | Inr l \<Rightarrow> Inr (path @ [(PLeft, l)])))))"
  by pat_completeness auto
termination
  by (relation "measure (\<lambda>(h, i, ls, s, e). e - s)")
    (auto dest!: largestPowerOfTwoLessThan_bounds)

function inclusionPathPositionsForRange :: "nat \<Rightarrow> nat \<Rightarrow> nat \<Rightarrow> merkle_error + position list" where
  "inclusionPathPositionsForRange leafIndex start end =
     (if end - start = 1 then Inr []
      else
        (case largestPowerOfTwoLessThan (end - start) of
           Inl e \<Rightarrow> Inl e
         | Inr k \<Rightarrow>
             if leafIndex < start + k then
               (case inclusionPathPositionsForRange leafIndex start (start + k) of
                  Inl e \<Rightarrow> Inl e
                | Inr ps \<Rightarrow> Inr (ps @ [PRight]))
             else
               (case inclusionPathPositionsForRange leafIndex (start + k) end of
                  Inl e \<Rightarrow> Inl e
                | Inr ps \<Rightarrow> Inr (ps @ [PLeft]))))"
  by pat_completeness auto
termination
  by (relation "measure (\<lambda>(i, s, e). e - s)") (auto dest!: largestPowerOfTwoLessThan_bounds)

function consistencySubproof ::
  "(jstr \<Rightarrow> jstr) \<Rightarrow> nat \<Rightarrow> jstr list \<Rightarrow> nat \<Rightarrow> nat \<Rightarrow> bool \<Rightarrow> merkle_error + jstr list" where
  "consistencySubproof h oldTreeSize leafHashes start end includeOldRoot =
     (if oldTreeSize = end - start then
        (if includeOldRoot then Inr []
         else
           (case merkleRootForRange h leafHashes start end of
              Inl e \<Rightarrow> Inl e
            | Inr r \<Rightarrow> Inr [r]))
      else
        (case largestPowerOfTwoLessThan (end - start) of
           Inl e \<Rightarrow> Inl e
         | Inr k \<Rightarrow>
             if oldTreeSize \<le> k then
               (case consistencySubproof h oldTreeSize leafHashes start (start + k) includeOldRoot of
                  Inl e \<Rightarrow> Inl e
                | Inr path \<Rightarrow>
                    (case merkleRootForRange h leafHashes (start + k) end of
                       Inl e \<Rightarrow> Inl e
                     | Inr r \<Rightarrow> Inr (path @ [r])))
             else
               (case consistencySubproof h (oldTreeSize - k) leafHashes (start + k) end False of
                  Inl e \<Rightarrow> Inl e
                | Inr path \<Rightarrow>
                    (case merkleRootForRange h leafHashes start (start + k) of
                       Inl e \<Rightarrow> Inl e
                     | Inr l \<Rightarrow> Inr (path @ [l])))))"
  by pat_completeness auto
termination
  by (relation "measure (\<lambda>(h, m, ls, s, e, b). e - s)")
    (auto dest!: largestPowerOfTwoLessThan_bounds)

text \<open>
  \<open>verifyConsistencySubproof\<close> returns \<open>null\<close> (\<open>Inr None\<close>) when the path is too short; its result
  is the cursor after the consumed entries and the two reconstructed roots.
\<close>

function verifyConsistencySubproof ::
  "(jstr \<Rightarrow> jstr) \<Rightarrow> nat \<Rightarrow> nat \<Rightarrow> bool \<Rightarrow> jstr list \<Rightarrow> nat \<Rightarrow> jstr \<Rightarrow>
     merkle_error + (nat \<times> jstr \<times> jstr) option" where
  "verifyConsistencySubproof h oldTreeSize newTreeSize includeOldRoot auditPath cursor oldRoot =
     (if oldTreeSize = newTreeSize then
        (if includeOldRoot then Inr (Some (cursor, oldRoot, oldRoot))
         else if cursor < length auditPath
         then Inr (Some (cursor + 1, auditPath ! cursor, auditPath ! cursor))
         else Inr None)
      else
        (case largestPowerOfTwoLessThan newTreeSize of
           Inl e \<Rightarrow> Inl e
         | Inr k \<Rightarrow>
             if oldTreeSize \<le> k then
               (case verifyConsistencySubproof h oldTreeSize k includeOldRoot auditPath cursor oldRoot of
                  Inl e \<Rightarrow> Inl e
                | Inr None \<Rightarrow> Inr None
                | Inr (Some (c, lo, ln)) \<Rightarrow>
                    if c < length auditPath then
                      (case nodeHash h ln (auditPath ! c) of
                         Inl e \<Rightarrow> Inl e
                       | Inr n \<Rightarrow> Inr (Some (c + 1, lo, n)))
                    else Inr None)
             else
               (case verifyConsistencySubproof h (oldTreeSize - k) (newTreeSize - k) False auditPath
                       cursor oldRoot of
                  Inl e \<Rightarrow> Inl e
                | Inr None \<Rightarrow> Inr None
                | Inr (Some (c, ro, rn)) \<Rightarrow>
                    if c < length auditPath then
                      (case nodeHash h (auditPath ! c) ro of
                         Inl e \<Rightarrow> Inl e
                       | Inr o' \<Rightarrow>
                           (case nodeHash h (auditPath ! c) rn of
                              Inl e \<Rightarrow> Inl e
                            | Inr n \<Rightarrow> Inr (Some (c + 1, o', n))))
                    else Inr None)))"
  by pat_completeness auto
termination
  by (relation "measure (\<lambda>(h, m, n, b, p, c, r). n)")
    (auto dest!: largestPowerOfTwoLessThan_bounds)

declare merkleRootForRange.simps [simp del] inclusionPathForRange.simps [simp del]
  inclusionPathPositionsForRange.simps [simp del] consistencySubproof.simps [simp del]
  verifyConsistencySubproof.simps [simp del]

subsection \<open>The exported operations\<close>

definition computeMerkleRootFromLeafHashes ::
  "(jstr \<Rightarrow> jstr) \<Rightarrow> jstr list \<Rightarrow> merkle_error + jstr" where
  "computeMerkleRootFromLeafHashes h leafHashes =
     (if leafHashes = [] then Inr (EMPTY_TREE_ROOT h)
      else
        (case assertLeafHashes leafHashes of
           Inl e \<Rightarrow> Inl e
         | Inr _ \<Rightarrow> merkleRootForRange h leafHashes 0 (length leafHashes)))"

definition computeMerkleRoot :: "(jstr \<Rightarrow> jstr) \<Rightarrow> jstr list \<Rightarrow> merkle_error + jstr" where
  "computeMerkleRoot h payloads = computeMerkleRootFromLeafHashes h (map (leafHash h) payloads)"

definition getInclusionProofFromLeafHashes ::
  "(jstr \<Rightarrow> jstr) \<Rightarrow> int \<Rightarrow> jstr list \<Rightarrow> merkle_error + MerkleInclusionProof" where
  "getInclusionProofFromLeafHashes h leafIndex leafHashes =
     (case assertLeafHashes leafHashes of
        Inl e \<Rightarrow> Inl e
      | Inr _ \<Rightarrow>
          (case assertValidLeafIndex leafIndex (int (length leafHashes)) of
             Inl e \<Rightarrow> Inl e
           | Inr _ \<Rightarrow>
               (case computeMerkleRootFromLeafHashes h leafHashes of
                  Inl e \<Rightarrow> Inl e
                | Inr root \<Rightarrow>
                    (case inclusionPathForRange h (nat leafIndex) leafHashes 0 (length leafHashes) of
                       Inl e \<Rightarrow> Inl e
                     | Inr path \<Rightarrow>
                         Inr \<lparr>tree_size = int (length leafHashes), leaf_index = leafIndex,
                              leaf_hash = leafHashes ! nat leafIndex, root_hash = root,
                              audit_path = path\<rparr>))))"

definition getInclusionProof ::
  "(jstr \<Rightarrow> jstr) \<Rightarrow> int \<Rightarrow> jstr list \<Rightarrow> merkle_error + MerkleInclusionProof" where
  "getInclusionProof h leafIndex payloads =
     getInclusionProofFromLeafHashes h leafIndex (map (leafHash h) payloads)"

text \<open>
  The loop of \<open>verifyInclusionProofFromLeafHash\<close>: \<open>Inr None\<close> is its \<open>return false\<close> on a step
  whose position is not the expected one.
\<close>

fun walkPath ::
  "(jstr \<Rightarrow> jstr) \<Rightarrow> position list \<Rightarrow> proof_step list \<Rightarrow> jstr \<Rightarrow> merkle_error + jstr option" where
  "walkPath h expected [] computed = Inr (Some computed)"
| "walkPath h [] (s # ss) computed = Inr None"
| "walkPath h (p # ps) ((pos, hash) # ss) computed =
     (case assertSha256Hex hash of
        Inl e \<Rightarrow> Inl e
      | Inr _ \<Rightarrow>
          if pos \<noteq> p then Inr None
          else
            (case (if pos = PLeft then nodeHash h hash computed else nodeHash h computed hash) of
               Inl e \<Rightarrow> Inl e
             | Inr c \<Rightarrow> walkPath h ps ss c))"

definition assertExpectedRoot :: "jstr option \<Rightarrow> merkle_error + unit" where
  "assertExpectedRoot r = (case r of None \<Rightarrow> Inr () | Some v \<Rightarrow> assertSha256Hex v)"

definition verifyInclusionProofFromLeafHash ::
  "(jstr \<Rightarrow> jstr) \<Rightarrow> jstr \<Rightarrow> MerkleInclusionProof \<Rightarrow> jstr option \<Rightarrow> bool" where
  "verifyInclusionProofFromLeafHash h leaf p expectedRoot =
     (if assertSha256Hex leaf = Inr ()
       \<and> assertValidLeafIndex (leaf_index p) (tree_size p) = Inr ()
       \<and> assertSha256Hex (leaf_hash p) = Inr ()
       \<and> assertSha256Hex (root_hash p) = Inr ()
       \<and> assertExpectedRoot expectedRoot = Inr ()
      then
        if leaf \<noteq> leaf_hash p then False
        else
          (case inclusionPathPositionsForRange (nat (leaf_index p)) 0 (nat (tree_size p)) of
             Inl e \<Rightarrow> False
           | Inr expected \<Rightarrow>
               if length expected \<noteq> length (audit_path p) then False
               else
                 (case walkPath h expected (audit_path p) (leaf_hash p) of
                    Inl e \<Rightarrow> False
                  | Inr None \<Rightarrow> False
                  | Inr (Some computed) \<Rightarrow>
                      computed = (case expectedRoot of None \<Rightarrow> root_hash p | Some r \<Rightarrow> r)))
      else False)"

definition verifyInclusionProof ::
  "(jstr \<Rightarrow> jstr) \<Rightarrow> jstr \<Rightarrow> MerkleInclusionProof \<Rightarrow> jstr option \<Rightarrow> bool" where
  "verifyInclusionProof h payload p expectedRoot =
     verifyInclusionProofFromLeafHash h (leafHash h payload) p expectedRoot"

definition getConsistencyProofFromLeafHashes ::
  "(jstr \<Rightarrow> jstr) \<Rightarrow> int \<Rightarrow> jstr list \<Rightarrow> merkle_error + MerkleConsistencyProof" where
  "getConsistencyProofFromLeafHashes h oldTreeSize newLeafHashes =
     (case assertLeafHashes newLeafHashes of
        Inl e \<Rightarrow> Inl e
      | Inr _ \<Rightarrow>
          (case assertTreeSize oldTreeSize of
             Inl e \<Rightarrow> Inl e
           | Inr _ \<Rightarrow>
               if oldTreeSize > int (length newLeafHashes) then Inl OldTreeTooLarge
               else
                 (case (if oldTreeSize = 0 \<or> oldTreeSize = int (length newLeafHashes) then Inr []
                        else consistencySubproof h (nat oldTreeSize) newLeafHashes 0
                               (length newLeafHashes) True) of
                    Inl e \<Rightarrow> Inl e
                  | Inr path \<Rightarrow>
                      Inr \<lparr>old_tree_size = oldTreeSize, new_tree_size = int (length newLeafHashes),
                           consistency_path = path\<rparr>)))"

definition getConsistencyProof ::
  "(jstr \<Rightarrow> jstr) \<Rightarrow> int \<Rightarrow> jstr list \<Rightarrow> merkle_error + MerkleConsistencyProof" where
  "getConsistencyProof h oldTreeSize payloads =
     getConsistencyProofFromLeafHashes h oldTreeSize (map (leafHash h) payloads)"

definition verifyConsistencyProof ::
  "(jstr \<Rightarrow> jstr) \<Rightarrow> jstr \<Rightarrow> jstr \<Rightarrow> MerkleConsistencyProof \<Rightarrow> bool" where
  "verifyConsistencyProof h oldRoot newRoot p =
     (if assertSha256Hex oldRoot = Inr () \<and> assertSha256Hex newRoot = Inr ()
       \<and> assertTreeSize (old_tree_size p) = Inr () \<and> assertTreeSize (new_tree_size p) = Inr ()
       \<and> assertLeafHashes (consistency_path p) = Inr ()
      then
        if old_tree_size p > new_tree_size p then False
        else if old_tree_size p = 0 then
          oldRoot = EMPTY_TREE_ROOT h
          \<and> (new_tree_size p > 0 \<or> newRoot = EMPTY_TREE_ROOT h)
          \<and> length (consistency_path p) = 0
        else if old_tree_size p = new_tree_size p then
          length (consistency_path p) = 0 \<and> oldRoot = newRoot
        else
          (case verifyConsistencySubproof h (nat (old_tree_size p)) (nat (new_tree_size p)) True
                  (consistency_path p) 0 oldRoot of
             Inl e \<Rightarrow> False
           | Inr None \<Rightarrow> False
           | Inr (Some (cursor, ro, rn)) \<Rightarrow>
               cursor = length (consistency_path p) \<and> ro = oldRoot \<and> rn = newRoot)
      else False)"

subsection \<open>Reference: the recursive tree hash of a list\<close>

text \<open>A JavaScript array has at most \<open>2 ^ 32 - 1\<close> elements.\<close>

definition js_array :: "'a list \<Rightarrow> bool" where
  "js_array xs \<longleftrightarrow> length xs < 2 ^ 32"

definition hnode :: "(jstr \<Rightarrow> jstr) \<Rightarrow> jstr \<Rightarrow> jstr \<Rightarrow> jstr" where
  "hnode h l r = h (node_text l r)"

definition pow2_below :: "nat \<Rightarrow> nat" where
  "pow2_below n = doubling 1 n"

lemma pow2_below_bounds: "1 < n \<Longrightarrow> 0 < pow2_below n \<and> pow2_below n < n \<and> n \<le> 2 * pow2_below n"
  using doubling_bounds [of 1 n] by (simp add: pow2_below_def)

function mth :: "('a \<Rightarrow> 'a \<Rightarrow> 'a) \<Rightarrow> 'a list \<Rightarrow> 'a" where
  "mth f xs =
     (if length xs \<le> 1 then hd xs
      else f (mth f (take (pow2_below (length xs)) xs)) (mth f (drop (pow2_below (length xs)) xs)))"
  by pat_completeness auto
termination
proof (relation "measure (\<lambda>(f, xs). length xs)")
  show "wf (measure (\<lambda>(f, xs). length xs))" by simp
next
  fix f :: "'a \<Rightarrow> 'a \<Rightarrow> 'a" and xs :: "'a list"
  assume "\<not> length xs \<le> 1"
  then show "((f, take (pow2_below (length xs)) xs), f, xs) \<in> measure (\<lambda>(f, xs). length xs)"
    and "((f, drop (pow2_below (length xs)) xs), f, xs) \<in> measure (\<lambda>(f, xs). length xs)"
    using pow2_below_bounds [of "length xs"] by auto
qed

declare mth.simps [simp del]

lemma mth_single [simp]: "mth f [x] = x"
  by (simp add: mth.simps)

lemma mth_split:
  "1 < length xs \<Longrightarrow> mth f xs =
     f (mth f (take (pow2_below (length xs)) xs)) (mth f (drop (pow2_below (length xs)) xs))"
  by (simp add: mth.simps [of f xs])

lemma mth_induct [consumes 1, case_names single split]:
  assumes "xs \<noteq> []"
    and "\<And>x. P [x]"
    and "\<And>xs. 1 < length xs \<Longrightarrow> P (take (pow2_below (length xs)) xs) \<Longrightarrow>
           P (drop (pow2_below (length xs)) xs) \<Longrightarrow> P xs"
  shows "P xs"
  using assms(1)
proof (induction xs rule: length_induct)
  case (1 xs)
  show ?case
  proof (cases "1 < length xs")
    case True
    let ?k = "pow2_below (length xs)"
    have b: "0 < ?k" "?k < length xs" using pow2_below_bounds [OF True] by auto
    then have "length (take ?k xs) < length xs" "take ?k xs \<noteq> []"
      "length (drop ?k xs) < length xs" "drop ?k xs \<noteq> []"
      by auto
    then have "P (take ?k xs)" and "P (drop ?k xs)" using "1.IH" [rule_format] by blast+
    then show ?thesis by (rule assms(3) [OF True])
  next
    case False
    with "1.prems" obtain x where "xs = [x]" by (cases xs) auto
    then show ?thesis by (simp add: assms(2))
  qed
qed

lemma mth_hex:
  assumes "hex_digests h" and "xs \<noteq> []" and "list_all hex64 xs"
  shows "hex64 (mth (hnode h) xs)"
  using assms(2,3)
proof (induction xs rule: mth_induct)
  case (single x)
  then show ?case by simp
next
  case (split xs)
  then show ?case
    using assms(1) by (simp add: mth_split hnode_def hex_digests_def)
qed

definition slice :: "'a list \<Rightarrow> nat \<Rightarrow> nat \<Rightarrow> 'a list" where
  "slice xs s e = take (e - s) (drop s xs)"

lemma slice_all [simp]: "slice xs 0 (length xs) = xs"
  by (simp add: slice_def)

lemma length_slice: "e \<le> length xs \<Longrightarrow> length (slice xs s e) = e - s"
  by (simp add: slice_def)

lemma take_slice: "k \<le> e - s \<Longrightarrow> take k (slice xs s e) = slice xs s (s + k)"
  by (simp add: slice_def min_def)

lemma drop_slice: "s + k \<le> e \<Longrightarrow> drop k (slice xs s e) = slice xs (s + k) e"
  by (simp add: slice_def drop_take add.commute)

lemma list_all_slice: "list_all P xs \<Longrightarrow> list_all P (slice xs s e)"
  by (auto simp: slice_def list_all_iff dest!: in_set_takeD in_set_dropD)

lemma slice_single: "s < length xs \<Longrightarrow> slice xs s (Suc s) = [xs ! s]"
  by (simp add: slice_def take_Suc_conv_app_nth)

lemma largestPow_value:
  "1 < n \<Longrightarrow> n < 2 ^ 32 \<Longrightarrow> largestPowerOfTwoLessThan n = Inr (pow2_below n)"
  by (simp add: largestPowerOfTwoLessThan_def pow2_below_def is_safe_integer_def max_safe_integer_def)

lemma assertSha256Hex_iff [simp]: "assertSha256Hex v = Inr () \<longleftrightarrow> hex64 v"
  by (simp add: assertSha256Hex_def)

lemma nodeHash_hex: "hex64 l \<Longrightarrow> hex64 r \<Longrightarrow> nodeHash h l r = Inr (hnode h l r)"
  by (simp add: nodeHash_def assertSha256Hex_def hnode_def)

lemma nodeHash_Inr:
  "nodeHash h l r = Inr v \<longleftrightarrow> hex64 l \<and> hex64 r \<and> v = hnode h l r"
  by (auto simp: nodeHash_def assertSha256Hex_def hnode_def)

lemma assertLeafHashes_iff [simp]: "assertLeafHashes xs = Inr () \<longleftrightarrow> list_all hex64 xs"
  by (induction xs) (auto simp: assertSha256Hex_def)

lemma assertLeafHashes_ok [simp]: "list_all hex64 xs \<Longrightarrow> assertLeafHashes xs = Inr ()"
  by simp

lemma assertSha256Hex_ok [simp]: "hex64 x \<Longrightarrow> assertSha256Hex x = Inr ()"
  by simp

lemma merkleRootForRange_mth:
  assumes "hex_digests h" and "list_all hex64 ls" and "js_array ls"
  shows "s < e \<Longrightarrow> e \<le> length ls \<Longrightarrow>
    merkleRootForRange h ls s e = Inr (mth (hnode h) (slice ls s e))"
proof (induction "e - s" arbitrary: s e rule: less_induct)
  case less
  show ?case
  proof (cases "e - s = 1")
    case True
    then have "e = Suc s" by simp
    with less.prems show ?thesis by (simp add: merkleRootForRange.simps slice_single)
  next
    case False
    let ?k = "pow2_below (e - s)"
    have big: "1 < e - s" using False less.prems by simp
    have k: "0 < ?k" "?k < e - s" using pow2_below_bounds [OF big] by auto
    have lp: "largestPowerOfTwoLessThan (e - s) = Inr ?k"
      using big less.prems assms(3) by (intro largestPow_value) (auto simp: js_array_def)
    have l: "merkleRootForRange h ls s (s + ?k) = Inr (mth (hnode h) (slice ls s (s + ?k)))"
      using k less.prems by (intro less.hyps) auto
    have r: "merkleRootForRange h ls (s + ?k) e = Inr (mth (hnode h) (slice ls (s + ?k) e))"
      using k less.prems by (intro less.hyps) auto
    have len: "length (slice ls s e) = e - s" using less.prems by (simp add: length_slice)
    have split: "mth (hnode h) (slice ls s e) =
        hnode h (mth (hnode h) (slice ls s (s + ?k))) (mth (hnode h) (slice ls (s + ?k) e))"
      using big k mth_split [of "slice ls s e" "hnode h"] by (simp add: len take_slice drop_slice)
    have "length (slice ls s (s + ?k)) = ?k" "length (slice ls (s + ?k) e) = e - (s + ?k)"
      using k less.prems by (simp_all add: length_slice)
    then have ne: "slice ls s (s + ?k) \<noteq> []" "slice ls (s + ?k) e \<noteq> []"
      using k by force+
    have "hex64 (mth (hnode h) (slice ls s (s + ?k)))" "hex64 (mth (hnode h) (slice ls (s + ?k) e))"
      using ne assms by (auto intro!: mth_hex list_all_slice)
    then show ?thesis
      using False less.prems
      by (simp add: merkleRootForRange.simps [of h ls s e] lp l r split nodeHash_hex)
  qed
qed

lemma assertLeafHashes_fail: "\<not> list_all hex64 xs \<Longrightarrow> assertLeafHashes xs = Inl NotSha256Hex"
  by (induction xs) (auto simp: assertSha256Hex_def)

lemma root_value:
  assumes "hex_digests h" and "list_all hex64 ls" and "js_array ls" and "ls \<noteq> []"
  shows "computeMerkleRootFromLeafHashes h ls = Inr (mth (hnode h) ls)"
proof -
  have "merkleRootForRange h ls 0 (length ls) = Inr (mth (hnode h) ls)"
    using merkleRootForRange_mth [OF assms(1-3), of 0 "length ls"] assms(4) by simp
  then show ?thesis using assms(2,4) by (simp add: computeMerkleRootFromLeafHashes_def)
qed

text \<open>
  The range recursion of \<open>computeMerkleRootFromLeafHashes\<close> computes the recursive tree
  hash of the leaf list, splitting at the largest power of two below its length; it raises exactly
  when some leaf is not a lowercase 64 digit digest.
\<close>

theorem merkle_root_is_recursive_tree_hash:
  assumes "hex_digests h" and "js_array ls"
  shows "computeMerkleRootFromLeafHashes h ls =
     (if ls = [] then Inr (EMPTY_TREE_ROOT h)
      else if list_all hex64 ls then Inr (mth (hnode h) ls)
      else Inl NotSha256Hex)"
  using root_value [OF assms(1) _ assms(2)]
  by (simp add: computeMerkleRootFromLeafHashes_def assertLeafHashes_fail)

theorem merkle_root_is_recursive_tree_hash_witness:
  "computeMerkleRootFromLeafHashes sample_digest (map (leafHash sample_digest) [js ''a'', js ''b'', js ''c'']) =
     Inr (mth (hnode sample_digest) (map (leafHash sample_digest) [js ''a'', js ''b'', js ''c'']))"
proof -
  have "list_all hex64 (map (leafHash sample_digest) [js ''a'', js ''b'', js ''c''])"
    using hex_digests_sample by (simp add: leafHash_def hex_digests_def)
  then show ?thesis
    using merkle_root_is_recursive_tree_hash [OF hex_digests_sample,
        of "map (leafHash sample_digest) [js ''a'', js ''b'', js ''c'']"]
    by (simp add: js_array_def)
qed

subsection \<open>Inclusion proofs\<close>

fun fold_path :: "('a \<Rightarrow> 'a \<Rightarrow> 'a) \<Rightarrow> (position \<times> 'a) list \<Rightarrow> 'a \<Rightarrow> 'a" where
  "fold_path f [] c = c"
| "fold_path f ((PLeft, l) # ps) c = fold_path f ps (f l c)"
| "fold_path f ((PRight, r) # ps) c = fold_path f ps (f c r)"

lemma fold_path_snoc:
  "fold_path f (ps @ [(p, x)]) c =
     (case p of PLeft \<Rightarrow> f x (fold_path f ps c) | PRight \<Rightarrow> f (fold_path f ps c) x)"
  by (induction f ps c rule: fold_path.induct) (auto split: position.splits)

function path_of :: "('a \<Rightarrow> 'a \<Rightarrow> 'a) \<Rightarrow> nat \<Rightarrow> 'a list \<Rightarrow> (position \<times> 'a) list" where
  "path_of f i xs =
     (if length xs \<le> 1 then []
      else if i < pow2_below (length xs)
      then path_of f i (take (pow2_below (length xs)) xs) @
             [(PRight, mth f (drop (pow2_below (length xs)) xs))]
      else path_of f (i - pow2_below (length xs)) (drop (pow2_below (length xs)) xs) @
             [(PLeft, mth f (take (pow2_below (length xs)) xs))])"
  by pat_completeness auto
termination
proof (relation "measure (\<lambda>(f, i, xs). length xs)")
  show "wf (measure (\<lambda>(f :: 'a \<Rightarrow> 'a \<Rightarrow> 'a, i :: nat, xs :: 'a list). length xs))" by simp
next
  fix f :: "'a \<Rightarrow> 'a \<Rightarrow> 'a" and i :: nat and xs :: "'a list"
  assume "\<not> length xs \<le> 1"
  then have b: "0 < pow2_below (length xs)" "pow2_below (length xs) < length xs"
    using pow2_below_bounds [of "length xs"] by auto
  show "((f, i, take (pow2_below (length xs)) xs), f, i, xs) \<in> measure (\<lambda>(f, i, xs). length xs)"
    using b by simp
  show "((f, i - pow2_below (length xs), drop (pow2_below (length xs)) xs), f, i, xs)
      \<in> measure (\<lambda>(f, i, xs). length xs)"
    using b by simp
qed

declare path_of.simps [simp del]

lemma path_of_single [simp]: "path_of f i [x] = []"
  by (simp add: path_of.simps)

lemma path_of_left:
  "1 < length xs \<Longrightarrow> i < pow2_below (length xs) \<Longrightarrow>
     path_of f i xs = path_of f i (take (pow2_below (length xs)) xs) @
        [(PRight, mth f (drop (pow2_below (length xs)) xs))]"
  by (simp add: path_of.simps [of f i xs])

lemma path_of_right:
  "1 < length xs \<Longrightarrow> \<not> i < pow2_below (length xs) \<Longrightarrow>
     path_of f i xs = path_of f (i - pow2_below (length xs)) (drop (pow2_below (length xs)) xs) @
        [(PLeft, mth f (take (pow2_below (length xs)) xs))]"
  by (simp add: path_of.simps [of f i xs])

lemma fold_path_of:
  assumes "xs \<noteq> []" and "i < length xs"
  shows "fold_path f (path_of f i xs) (xs ! i) = mth f xs"
  using assms
proof (induction xs arbitrary: i rule: mth_induct)
  case (single x)
  then show ?case by simp
next
  case (split xs)
  show ?case
  proof (cases "i < pow2_below (length xs)")
    case True
    then have "fold_path f (path_of f i (take (pow2_below (length xs)) xs)) (xs ! i) =
        mth f (take (pow2_below (length xs)) xs)"
      using split.IH(1) [of i] split.prems by simp
    then show ?thesis
      using split.hyps True by (simp add: path_of_left fold_path_snoc mth_split [of xs])
  next
    case False
    then have "fold_path f (path_of f (i - pow2_below (length xs)) (drop (pow2_below (length xs)) xs))
        (xs ! i) = mth f (drop (pow2_below (length xs)) xs)"
      using split.IH(2) [of "i - pow2_below (length xs)"] split.prems by simp
    then show ?thesis
      using split.hyps False by (simp add: path_of_right fold_path_snoc mth_split [of xs])
  qed
qed

lemma inclusionPathForRange_eq:
  assumes "hex_digests h" and "list_all hex64 ls" and "js_array ls"
  shows "s \<le> i \<Longrightarrow> i < e \<Longrightarrow> e \<le> length ls \<Longrightarrow>
    inclusionPathForRange h i ls s e = Inr (path_of (hnode h) (i - s) (slice ls s e))"
proof (induction "e - s" arbitrary: s e rule: less_induct)
  case less
  show ?case
  proof (cases "e - s = 1")
    case True
    then have "e = Suc s" by simp
    with less.prems show ?thesis by (simp add: inclusionPathForRange.simps slice_single)
  next
    case False
    let ?k = "pow2_below (e - s)"
    have big: "1 < e - s" using False less.prems by simp
    have k: "0 < ?k" "?k < e - s" using pow2_below_bounds [OF big] by auto
    have lp: "largestPowerOfTwoLessThan (e - s) = Inr ?k"
      using big less.prems assms(3) by (intro largestPow_value) (auto simp: js_array_def)
    have l: "merkleRootForRange h ls s (s + ?k) = Inr (mth (hnode h) (slice ls s (s + ?k)))"
      using k less.prems by (intro merkleRootForRange_mth assms) auto
    have r: "merkleRootForRange h ls (s + ?k) e = Inr (mth (hnode h) (slice ls (s + ?k) e))"
      using k less.prems by (intro merkleRootForRange_mth assms) auto
    have len: "length (slice ls s e) = e - s" using less.prems by (simp add: length_slice)
    show ?thesis
    proof (cases "i < s + ?k")
      case True
      have "inclusionPathForRange h i ls s (s + ?k) =
          Inr (path_of (hnode h) (i - s) (slice ls s (s + ?k)))"
        using k less.prems True by (intro less.hyps) auto
      then show ?thesis
        using True False k less.prems big
        by (simp add: inclusionPathForRange.simps [of h i ls s e] lp r path_of_left len
            take_slice drop_slice)
    next
      case nl: False
      have "inclusionPathForRange h i ls (s + ?k) e =
          Inr (path_of (hnode h) (i - (s + ?k)) (slice ls (s + ?k) e))"
        using k less.prems nl by (intro less.hyps) auto
      then show ?thesis
        using nl False k less.prems big
        by (simp add: inclusionPathForRange.simps [of h i ls s e] lp l path_of_right len
            take_slice drop_slice)
    qed
  qed
qed

lemma positions_eq:
  "i < length xs \<Longrightarrow> js_array xs \<Longrightarrow>
     inclusionPathPositionsForRange (i + s) s (s + length xs) = Inr (map fst (path_of f i xs))"
proof (induction "length xs" arbitrary: i s xs rule: less_induct)
  case less
  show ?case
  proof (cases "length xs = 1")
    case True
    then obtain x where "xs = [x]" by (cases xs) auto
    then show ?thesis by (simp add: inclusionPathPositionsForRange.simps)
  next
    case False
    let ?k = "pow2_below (length xs)"
    have big: "1 < length xs" using False less.prems by simp
    have k: "0 < ?k" "?k < length xs" using pow2_below_bounds [OF big] by auto
    have lp: "largestPowerOfTwoLessThan (length xs) = Inr ?k"
      using big less.prems by (intro largestPow_value) (auto simp: js_array_def)
    show ?thesis
    proof (cases "i < ?k")
      case True
      have "inclusionPathPositionsForRange (i + s) s (s + ?k) =
          Inr (map fst (path_of f i (take ?k xs)))"
        using less.hyps [of "take ?k xs" i s] k True less.prems by (simp add: js_array_def)
      then show ?thesis
        using True False lp big
        by (simp add: inclusionPathPositionsForRange.simps [of "i + s" s "s + length xs"] path_of_left)
    next
      case nl: False
      have "inclusionPathPositionsForRange (i + s) (s + ?k) (s + length xs) =
          Inr (map fst (path_of f (i - ?k) (drop ?k xs)))"
        using less.hyps [of "drop ?k xs" "i - ?k" "s + ?k"] k nl less.prems
        by (simp add: js_array_def)
      then show ?thesis
        using nl False lp big
        by (simp add: inclusionPathPositionsForRange.simps [of "i + s" s "s + length xs"] path_of_right)
    qed
  qed
qed

definition path_hexes :: "proof_step list \<Rightarrow> bool" where
  "path_hexes path \<longleftrightarrow> list_all (\<lambda>s. hex64 (snd s)) path"

lemma hnode_hex: "hex_digests h \<Longrightarrow> hex64 (hnode h l r)"
  by (simp add: hex_digests_def hnode_def)

lemma walkPath_complete:
  assumes "hex_digests h"
  shows "hex64 c \<Longrightarrow> path_hexes path \<Longrightarrow>
    walkPath h (map fst path) path c = Inr (Some (fold_path (hnode h) path c))"
proof (induction path arbitrary: c)
  case Nil
  then show ?case by simp
next
  case (Cons s path)
  obtain p x where s: "s = (p, x)" by (cases s)
  show ?case
    using Cons assms by (cases p) (simp_all add: s path_hexes_def nodeHash_hex hnode_hex)
qed

lemma walkPath_sound:
  "hex_digests h \<Longrightarrow> walkPath h ps path c = Inr (Some r) \<Longrightarrow> length ps = length path \<Longrightarrow> hex64 c \<Longrightarrow>
    map fst path = ps \<and> path_hexes path \<and> r = fold_path (hnode h) path c"
proof (induction h ps path c rule: walkPath.induct)
  case (3 h p ps pos hash ss c)
  then have hash: "hex64 hash" and pos: "pos = p"
    by (auto simp: assertSha256Hex_def split: if_splits)
  show ?case
    using 3 hash pos by (cases pos) (auto simp: nodeHash_hex path_hexes_def hnode_hex)
qed (auto simp: path_hexes_def)

lemma path_of_hexes:
  assumes "hex_digests h" and "xs \<noteq> []" and "list_all hex64 xs"
  shows "path_hexes (path_of (hnode h) i xs)"
  using assms(2,3)
proof (induction xs arbitrary: i rule: mth_induct)
  case (single x)
  then show ?case by (simp add: path_hexes_def)
next
  case (split xs)
  let ?k = "pow2_below (length xs)"
  have k: "0 < ?k" "?k < length xs" using pow2_below_bounds [OF split.hyps(1)] by auto
  have halves: "list_all hex64 (take ?k xs)" "list_all hex64 (drop ?k xs)"
    using split.prems by (auto simp: list_all_iff dest: in_set_takeD in_set_dropD)
  then have "hex64 (mth (hnode h) (take ?k xs))" "hex64 (mth (hnode h) (drop ?k xs))"
    using k assms(1) by (auto intro!: mth_hex)
  then show ?case
    using split.IH halves split.hyps
    by (cases "i < ?k") (auto simp: path_of_left path_of_right path_hexes_def)
qed

lemma getInclusionProof_value:
  assumes "hex_digests h" and "list_all hex64 ls" and "js_array ls" and "0 \<le> i" and "i < int (length ls)"
  shows "getInclusionProofFromLeafHashes h i ls =
    Inr \<lparr>tree_size = int (length ls), leaf_index = i, leaf_hash = ls ! nat i,
         root_hash = mth (hnode h) ls, audit_path = path_of (hnode h) (nat i) ls\<rparr>"
proof -
  have "ls \<noteq> []" using assms(4,5) by auto
  then have "merkleRootForRange h ls 0 (length ls) = Inr (mth (hnode h) ls)"
    using merkleRootForRange_mth [OF assms(1-3), of 0 "length ls"] by simp
  moreover have "inclusionPathForRange h (nat i) ls 0 (length ls) = Inr (path_of (hnode h) (nat i) ls)"
    using inclusionPathForRange_eq [OF assms(1-3), of 0 "nat i" "length ls"] assms(4,5) by simp
  moreover have "assertValidLeafIndex i (int (length ls)) = Inr ()"
    using assms(3-5)
    by (auto simp: assertValidLeafIndex_def assertTreeSize_def is_safe_integer_def
        max_safe_integer_def js_array_def)
  ultimately show ?thesis
    using assms(2) \<open>ls \<noteq> []\<close>
    by (simp add: getInclusionProofFromLeafHashes_def computeMerkleRootFromLeafHashes_def)
qed

definition proof_of :: "(jstr \<Rightarrow> jstr) \<Rightarrow> nat \<Rightarrow> jstr list \<Rightarrow> MerkleInclusionProof" where
  "proof_of h i ls =
     \<lparr>tree_size = int (length ls), leaf_index = int i, leaf_hash = ls ! i,
      root_hash = mth (hnode h) ls, audit_path = path_of (hnode h) i ls\<rparr>"

lemma leaf_hashes_ok:
  assumes "hex_digests h" and "js_array payloads"
  shows "list_all hex64 (map (leafHash h) payloads)" "js_array (map (leafHash h) payloads)"
  using assms by (auto simp: list_all_iff leafHash_def hex_digests_def js_array_def)

lemma inclusion_round_trip:
  assumes "hex_digests h" and "js_array payloads" and "i < length payloads"
  defines "ls \<equiv> map (leafHash h) payloads"
  shows "getInclusionProof h (int i) payloads = Inr (proof_of h i ls)"
    and "computeMerkleRoot h payloads = Inr (mth (hnode h) ls)"
    and "r \<in> {None, Some (mth (hnode h) ls)} \<Longrightarrow> verifyInclusionProof h (payloads ! i) (proof_of h i ls) r"
proof -
  have ls: "list_all hex64 ls" "js_array ls" "i < length ls" "ls \<noteq> []"
    using assms leaf_hashes_ok [OF assms(1,2)] by auto
  show "getInclusionProof h (int i) payloads = Inr (proof_of h i ls)"
    using getInclusionProof_value [OF assms(1) ls(1,2), of "int i"] ls(3)
    by (simp add: getInclusionProof_def proof_of_def ls_def)
  show "computeMerkleRoot h payloads = Inr (mth (hnode h) ls)"
    using root_value [OF assms(1) ls(1,2,4)] by (simp add: computeMerkleRoot_def ls_def)
  have hexes: "hex64 (ls ! i)" "hex64 (mth (hnode h) ls)"
    using ls assms(1) by (auto simp: list_all_length intro!: mth_hex)
  have "inclusionPathPositionsForRange i 0 (length ls) = Inr (map fst (path_of (hnode h) i ls))"
    using positions_eq [of i ls 0] ls by simp
  moreover have "walkPath h (map fst (path_of (hnode h) i ls)) (path_of (hnode h) i ls) (ls ! i) =
      Inr (Some (mth (hnode h) ls))"
    using walkPath_complete [OF assms(1) hexes(1) path_of_hexes [OF assms(1) ls(4,1)]]
      fold_path_of [OF ls(4,3)] by simp
  moreover have "assertValidLeafIndex (int i) (int (length ls)) = Inr ()"
    using ls(2,3)
    by (auto simp: assertValidLeafIndex_def assertTreeSize_def is_safe_integer_def
        max_safe_integer_def js_array_def)
  moreover have "leafHash h (payloads ! i) = ls ! i" using assms(3) by (simp add: ls_def)
  ultimately show "verifyInclusionProof h (payloads ! i) (proof_of h i ls) r"
    if "r \<in> {None, Some (mth (hnode h) ls)}"
    using that hexes
    by (auto simp: verifyInclusionProof_def verifyInclusionProofFromLeafHash_def assertExpectedRoot_def
        proof_of_def)
qed

text \<open>
  For every payload list and every valid index, \<open>getInclusionProof\<close> returns a proof, and
  \<open>verifyInclusionProof\<close> accepts it for the payload at that index against the root that
  \<open>computeMerkleRoot\<close> computes.
\<close>

theorem inclusion_proof_complete:
  assumes "hex_digests h" and "js_array payloads" and "i < length payloads"
  shows "\<exists>p root. getInclusionProof h (int i) payloads = Inr p
    \<and> computeMerkleRoot h payloads = Inr root
    \<and> verifyInclusionProof h (payloads ! i) p (Some root)
    \<and> verifyInclusionProof h (payloads ! i) p None"
  using inclusion_round_trip [OF assms] by blast

theorem inclusion_proof_complete_witness:
  "\<exists>p root. getInclusionProof sample_digest (int 2) [js ''a'', js ''b'', js ''c''] = Inr p
    \<and> computeMerkleRoot sample_digest [js ''a'', js ''b'', js ''c''] = Inr root
    \<and> verifyInclusionProof sample_digest ([js ''a'', js ''b'', js ''c''] ! 2) p (Some root)
    \<and> verifyInclusionProof sample_digest ([js ''a'', js ''b'', js ''c''] ! 2) p None"
  by (rule inclusion_proof_complete [OF hex_digests_sample]) (simp_all add: js_array_def)

subsection \<open>Soundness of inclusion proofs\<close>

text \<open>The texts hashed by a tree over \<open>xs\<close>, and by walking an audit path from \<open>c\<close>.\<close>

function mth_texts :: "(jstr \<Rightarrow> jstr) \<Rightarrow> jstr list \<Rightarrow> jstr list" where
  "mth_texts h xs =
     (if length xs \<le> 1 then []
      else
        (let l = take (pow2_below (length xs)) xs; r = drop (pow2_below (length xs)) xs in
         node_text (mth (hnode h) l) (mth (hnode h) r) # mth_texts h l @ mth_texts h r))"
  by pat_completeness auto
termination
proof (relation "measure (\<lambda>(h, xs). length xs)", goal_cases)
  case (2 h xs l r)
  then show ?case using pow2_below_bounds [of "length xs"] by auto
next
  case (3 h xs l r)
  then show ?case using pow2_below_bounds [of "length xs"] by auto
qed simp

declare mth_texts.simps [simp del]

lemma mth_texts_split:
  "1 < length xs \<Longrightarrow> mth_texts h xs =
     node_text (mth (hnode h) (take (pow2_below (length xs)) xs))
               (mth (hnode h) (drop (pow2_below (length xs)) xs))
     # mth_texts h (take (pow2_below (length xs)) xs) @ mth_texts h (drop (pow2_below (length xs)) xs)"
  by (simp add: mth_texts.simps [of h xs] Let_def)

fun path_texts :: "(jstr \<Rightarrow> jstr) \<Rightarrow> proof_step list \<Rightarrow> jstr \<Rightarrow> jstr list" where
  "path_texts h [] c = []"
| "path_texts h ((PLeft, l) # ps) c = node_text l c # path_texts h ps (hnode h l c)"
| "path_texts h ((PRight, r) # ps) c = node_text c r # path_texts h ps (hnode h c r)"

lemma path_texts_snoc:
  "path_texts h (ps @ [(p, x)]) c =
     path_texts h ps c @
     [case p of PLeft \<Rightarrow> node_text x (fold_path (hnode h) ps c)
              | PRight \<Rightarrow> node_text (fold_path (hnode h) ps c) x]"
  by (induction h ps c rule: path_texts.induct) (auto split: position.splits)

lemma node_text_inject:
  "length l = length l' \<Longrightarrow> node_text l r = node_text l' r' \<longleftrightarrow> l = l' \<and> r = r'"
  by (auto simp: node_text_def)

lemma fold_path_hex:
  assumes "hex_digests h"
  shows "hex64 c \<Longrightarrow> hex64 (fold_path (hnode h) path c)"
  by (induction "hnode h" path c rule: fold_path.induct) (auto simp: hnode_hex assms)

lemma hnode_inject:
  assumes "collision_free h ts" and "node_text l r \<in> set ts" and "node_text l' r' \<in> set ts"
    and "hex64 l" and "hex64 l'" and "hnode h l r = hnode h l' r'"
  shows "l = l' \<and> r = r'"
proof -
  have "node_text l r = node_text l' r'"
    using collision_freeD [OF assms(1-3)] assms(6) by (simp add: hnode_def)
  moreover have "length l = length l'" using assms(4,5) by (simp add: hex64_def)
  ultimately show ?thesis using node_text_inject by blast
qed

lemma path_determines_leaf:
  assumes "hex_digests h" and "xs \<noteq> []" and "list_all hex64 xs" and "i < length xs"
    and "map fst path = map fst (path_of (hnode h) i xs)" and "path_hexes path" and "hex64 c"
    and "fold_path (hnode h) path c = mth (hnode h) xs"
    and "collision_free h ts" and "set (mth_texts h xs) \<union> set (path_texts h path c) \<subseteq> set ts"
  shows "c = xs ! i"
  using assms(2-8,10)
proof (induction xs arbitrary: i path rule: mth_induct)
  case (single x)
  then show ?case by simp
next
  case (split xs)
  let ?k = "pow2_below (length xs)"
  let ?l = "take ?k xs" and ?r = "drop ?k xs" and ?f = "hnode h"
  have k: "0 < ?k" "?k < length xs" using pow2_below_bounds [OF split.hyps(1)] by auto
  have halves: "list_all hex64 ?l" "list_all hex64 ?r"
    using split.prems(1) by (auto simp: list_all_iff dest: in_set_takeD in_set_dropD)
  have sides: "hex64 (mth ?f ?l)" "hex64 (mth ?f ?r)"
    using halves k assms(1) by (auto intro!: mth_hex)
  note texts = mth_texts_split [OF split.hyps(1), of h] and hash = mth_split [OF split.hyps(1), of ?f]
  show ?case
  proof (cases "i < ?k")
    case True
    from split.prems(3) obtain path' r where path: "path = path' @ [(PRight, r)]"
      and fst: "map fst path' = map fst (path_of ?f i ?l)"
      by (auto simp: path_of_left [OF split.hyps(1) True] map_eq_append_conv)
    have "fold_path ?f path' c = mth ?f ?l \<and> r = mth ?f ?r"
      using split.prems(5-7) hash sides fold_path_hex [OF assms(1)] texts
      by (intro hnode_inject [OF assms(9)]) (auto simp: path fold_path_snoc path_texts_snoc)
    then have "c = ?l ! i"
      using True k halves fst split.prems
      by (intro split.IH(1) [of i path']) (auto simp: path path_texts_snoc texts path_hexes_def)
    then show ?thesis using True by simp
  next
    case False
    from split.prems(3) obtain path' l where path: "path = path' @ [(PLeft, l)]"
      and fst: "map fst path' = map fst (path_of ?f (i - ?k) ?r)"
      by (auto simp: path_of_right [OF split.hyps(1) False] map_eq_append_conv)
    have "l = mth ?f ?l \<and> fold_path ?f path' c = mth ?f ?r"
      using split.prems(4-7) hash sides texts
      by (intro hnode_inject [OF assms(9)]) (auto simp: path fold_path_snoc path_texts_snoc path_hexes_def)
    then have "c = ?r ! (i - ?k)"
      using False k halves fst split.prems
      by (intro split.IH(2) [of "i - ?k" path']) (auto simp: path path_texts_snoc texts path_hexes_def)
    then show ?thesis using False k by simp
  qed
qed

lemma inclusion_verified_leaf:
  assumes "hex_digests h" and "list_all hex64 ls" and "js_array ls" and "ls \<noteq> []"
    and "tree_size p = int (length ls)"
    and "verifyInclusionProofFromLeafHash h leaf p (Some (mth (hnode h) ls))"
    and "collision_free h (mth_texts h ls @ path_texts h (audit_path p) leaf)"
  shows "0 \<le> leaf_index p \<and> leaf_index p < int (length ls) \<and> leaf = ls ! nat (leaf_index p)"
proof -
  let ?i = "nat (leaf_index p)"
  from assms(5,6) have shape: "hex64 leaf" "leaf_hash p = leaf"
    "assertValidLeafIndex (leaf_index p) (int (length ls)) = Inr ()"
    by (auto simp: verifyInclusionProofFromLeafHash_def split: if_splits)
  then have range: "0 \<le> leaf_index p" "leaf_index p < int (length ls)"
    by (auto simp: assertValidLeafIndex_def assertTreeSize_def split: if_splits)
  have pos: "inclusionPathPositionsForRange ?i 0 (length ls) = Inr (map fst (path_of (hnode h) ?i ls))"
    using positions_eq [of ?i ls 0] range assms(3) by simp
  obtain w where w: "walkPath h (map fst (path_of (hnode h) ?i ls)) (audit_path p) leaf = Inr (Some w)"
    "w = mth (hnode h) ls" "length (path_of (hnode h) ?i ls) = length (audit_path p)"
    using assms(5,6) shape pos
    by (auto simp: verifyInclusionProofFromLeafHash_def split: if_splits sum.splits option.splits)
  have "map fst (audit_path p) = map fst (path_of (hnode h) ?i ls) \<and> path_hexes (audit_path p)
      \<and> w = fold_path (hnode h) (audit_path p) leaf"
    using walkPath_sound [OF assms(1) w(1)] w(3) shape by simp
  then have "leaf = ls ! ?i"
    using path_determines_leaf [OF assms(1,4,2) _ _ _ shape(1) _ assms(7), of ?i "audit_path p"]
      range w(2) by simp
  then show ?thesis using range by simp
qed

definition inclusion_texts :: "(jstr \<Rightarrow> jstr) \<Rightarrow> jstr list \<Rightarrow> jstr \<Rightarrow> MerkleInclusionProof \<Rightarrow> jstr list" where
  "inclusion_texts h payloads payload p =
     map (\<lambda>x. js ''ghostark.leaf.v1:'' @ x) (payload # payloads) @
     mth_texts h (map (leafHash h) payloads) @ path_texts h (audit_path p) (leafHash h payload)"

lemma included_payload:
  assumes "hex_digests h" and "js_array payloads"
    and "computeMerkleRoot h payloads = Inr root"
    and "tree_size p = int (length payloads)"
    and "verifyInclusionProof h payload p (Some root)"
    and "collision_free h (inclusion_texts h payloads payload p)"
  shows "0 \<le> leaf_index p \<and> leaf_index p < int (length payloads)
    \<and> payloads ! nat (leaf_index p) = payload"
proof -
  let ?ls = "map (leafHash h) payloads"
  have ne: "payloads \<noteq> []"
    using assms(4,5)
    by (auto simp: verifyInclusionProof_def verifyInclusionProofFromLeafHash_def
        assertValidLeafIndex_def assertTreeSize_def split: if_splits)
  have ls: "list_all hex64 ?ls" "js_array ?ls" "?ls \<noteq> []"
    using ne leaf_hashes_ok [OF assms(1,2)] by auto
  have root: "root = mth (hnode h) ?ls"
    using assms(3) root_value [OF assms(1) ls] by (simp add: computeMerkleRoot_def)
  have "collision_free h (mth_texts h ?ls @ path_texts h (audit_path p) (leafHash h payload))"
    using assms(6) by (rule collision_free_mono) (auto simp: inclusion_texts_def)
  then have leaf: "0 \<le> leaf_index p \<and> leaf_index p < int (length ?ls)
      \<and> leafHash h payload = ?ls ! nat (leaf_index p)"
    using assms(4,5) root inclusion_verified_leaf [OF assms(1) ls, of p "leafHash h payload"]
    by (simp add: verifyInclusionProof_def)
  then have mem: "payloads ! nat (leaf_index p) \<in> set payloads"
    by (simp add: nat_less_iff)
  have "h (js ''ghostark.leaf.v1:'' @ payload) =
      h (js ''ghostark.leaf.v1:'' @ payloads ! nat (leaf_index p))"
    using leaf by (simp add: leafHash_def nat_less_iff)
  moreover have "js ''ghostark.leaf.v1:'' @ x \<in> set (inclusion_texts h payloads payload p)"
    if "x \<in> set (payload # payloads)" for x
    using that by (auto simp: inclusion_texts_def)
  ultimately have "js ''ghostark.leaf.v1:'' @ payload =
      js ''ghostark.leaf.v1:'' @ payloads ! nat (leaf_index p)"
    using mem by (meson collision_freeD [OF assms(6)] list.set_intros)
  then show ?thesis using leaf by simp
qed

text \<open>
  Claim C23. An inclusion proof is sound: if \<open>verifyInclusionProof\<close> accepts a payload against the
  root that \<open>computeMerkleRoot\<close> gives a payload list, for a proof that states the list's size, then
  that payload is the one at the proof's index. The hash need only be free of collisions on the
  texts hashed by the tree and by the walk along the audit path.
\<close>

theorem inclusion_proof_sound:
  assumes "hex_digests h" and "js_array payloads"
    and "computeMerkleRoot h payloads = Inr root"
    and "tree_size p = int (length payloads)"
    and "verifyInclusionProof h payload p (Some root)"
    and "collision_free h (inclusion_texts h payloads payload p)"
  shows "0 \<le> leaf_index p \<and> leaf_index p < int (length payloads)
    \<and> payloads ! nat (leaf_index p) = payload"
  using assms by (rule included_payload)

definition sample_log :: "jstr list" where
  "sample_log = [js ''a'', js ''b'', js ''c'']"

definition sample_leaves :: "jstr list" where
  "sample_leaves = map (leafHash sample_digest) sample_log"

lemma sample_collision_free:
  "collision_free sample_digest
     (inclusion_texts sample_digest sample_log (js ''c'') (proof_of sample_digest 2 sample_leaves))"
proof -
  let ?n = "node_text (leafHash sample_digest (js ''a'')) (leafHash sample_digest (js ''b''))"
  let ?p = "js ''ghostark.leaf.v1:''"
  let ?ts = "[?p @ js ''a'', ?p @ js ''b'', ?p @ js ''c'', ?n,
     node_text (sample_digest ?n) (leafHash sample_digest (js ''c''))]"
  have pows: "pow2_below (Suc (Suc 0)) = Suc 0" "pow2_below (Suc (Suc (Suc 0))) = Suc (Suc 0)"
    by code_simp+
  have "distinct (map sample_digest ?ts)" by code_simp
  then show ?thesis
    by (rule collision_free_distinct)
      (simp add: inclusion_texts_def sample_log_def sample_leaves_def proof_of_def
        mth_texts.simps path_of.simps mth.simps pows hnode_def)
qed

theorem inclusion_proof_sound_witness:
  "sample_log ! nat (leaf_index (proof_of sample_digest 2 sample_leaves)) = js ''c''"
proof -
  have arr: "js_array sample_log" "2 < length sample_log" "sample_log ! 2 = js ''c''"
    by (simp_all add: js_array_def sample_log_def)
  note trip = inclusion_round_trip [OF hex_digests_sample arr(1,2), folded sample_leaves_def]
  have v: "verifyInclusionProof sample_digest (js ''c'') (proof_of sample_digest 2 sample_leaves)
      (Some (mth (hnode sample_digest) sample_leaves))"
    using trip(3) [of "Some (mth (hnode sample_digest) sample_leaves)"] arr(3) by simp
  have size: "tree_size (proof_of sample_digest 2 sample_leaves) = int (length sample_log)"
    by (simp add: proof_of_def sample_leaves_def)
  show ?thesis
    by (rule inclusion_proof_sound [OF hex_digests_sample arr(1) trip(2) size v sample_collision_free,
          THEN conjunct2, THEN conjunct2])
qed

subsection \<open>Consistency proofs\<close>

lemma doubling_power: "\<exists>j. doubling (2 ^ i) v = 2 ^ j"
proof (induction "2 ^ i :: nat" v arbitrary: i rule: doubling.induct)
  case (1 v)
  show ?case
  proof (cases "2 ^ i * 2 < v")
    case True
    then have "\<exists>j. doubling (2 ^ i * 2) v = 2 ^ j" using "1" [of "Suc i"] by (simp add: mult.commute)
    with True show ?thesis by (simp add: doubling.simps [of "2 ^ i" v])
  next
    case False
    then have "doubling (2 ^ i) v = 2 ^ i" by (simp add: doubling.simps [of "2 ^ i" v])
    then show ?thesis by blast
  qed
qed

lemma pow2_below_power: "\<exists>j. pow2_below n = 2 ^ j"
  using doubling_power [of 0 n] by (simp add: pow2_below_def)

lemma pow2_interval_unique:
  assumes "(2::nat) ^ i < m" "m \<le> 2 * 2 ^ i" "2 ^ j < m" "m \<le> 2 * 2 ^ j"
  shows "i = j"
proof -
  have "(2::nat) ^ i < 2 ^ Suc j" "(2::nat) ^ j < 2 ^ Suc i" using assms by simp_all
  then have "i < Suc j" "j < Suc i" by (metis one_less_numeral_iff power_less_imp_less_exp semiring_norm(76))+
  then show ?thesis by simp
qed

lemma pow2_below_prefix:
  assumes "1 < n" and "pow2_below n < m" and "m \<le> n"
  shows "pow2_below m = pow2_below n"
proof -
  obtain i j where ij: "pow2_below n = 2 ^ i" "pow2_below m = 2 ^ j"
    using pow2_below_power by meson
  have "0 < pow2_below n" using pow2_below_bounds [OF assms(1)] by simp
  then have "1 < m" using assms(2) by linarith
  then have "i = j"
    using pow2_below_bounds [OF assms(1)] pow2_below_bounds [of m] assms ij
    by (intro pow2_interval_unique [of i m j]) auto
  then show ?thesis using ij by simp
qed

lemma mth_prefix_split:
  assumes "1 < length xs" and "pow2_below (length xs) < m" and "m \<le> length xs"
  shows "mth f (take m xs) =
    f (mth f (take (pow2_below (length xs)) xs))
      (mth f (take (m - pow2_below (length xs)) (drop (pow2_below (length xs)) xs)))"
proof -
  have "1 < m" using pow2_below_bounds [OF assms(1)] assms(2) by linarith
  then show ?thesis
    using assms mth_split [of "take m xs" f] pow2_below_prefix [OF assms]
    by (simp add: min_absorb1 min_absorb2 drop_take)
qed

lemma nth_middle: "(pre @ x # post) ! length pre = x"
  by simp

text \<open>
  A consistency subproof \<open>seg\<close> of the range \<open>[s, e)\<close> \<^emph>\<open>trips\<close> when it is what the prover computes
  and the verifier, started at it inside a longer path, reconstructs both roots.
\<close>

definition trips :: "(jstr \<Rightarrow> jstr) \<Rightarrow> jstr list \<Rightarrow> nat \<Rightarrow> nat \<Rightarrow> nat \<Rightarrow> bool \<Rightarrow> jstr list \<Rightarrow> bool" where
  "trips h ls m s e b seg \<longleftrightarrow>
     consistencySubproof h m ls s e b = Inr seg \<and> list_all hex64 seg \<and>
     (\<forall>pre post oldRoot. (b \<longrightarrow> oldRoot = mth (hnode h) (slice ls s (s + m))) \<longrightarrow>
        verifyConsistencySubproof h m (e - s) b (pre @ seg @ post) (length pre) oldRoot =
        Inr (Some (length pre + length seg, mth (hnode h) (slice ls s (s + m)),
                   mth (hnode h) (slice ls s e))))"

definition good_leaves :: "(jstr \<Rightarrow> jstr) \<Rightarrow> jstr list \<Rightarrow> bool" where
  "good_leaves h ls \<longleftrightarrow> hex_digests h \<and> list_all hex64 ls \<and> js_array ls"

lemma range_root:
  assumes "good_leaves h ls" and "s < e" and "e \<le> length ls"
  shows "merkleRootForRange h ls s e = Inr (mth (hnode h) (slice ls s e))"
    and "hex64 (mth (hnode h) (slice ls s e))"
proof -
  have "length (slice ls s e) = e - s" using assms(3) by (simp add: length_slice)
  then have "slice ls s e \<noteq> []" using assms(2) by force
  then show "hex64 (mth (hnode h) (slice ls s e))"
    using assms(1) by (auto simp: good_leaves_def intro!: mth_hex list_all_slice)
  show "merkleRootForRange h ls s e = Inr (mth (hnode h) (slice ls s e))"
    using assms merkleRootForRange_mth by (auto simp: good_leaves_def)
qed

lemma range_split:
  assumes "good_leaves h ls" and "1 < e - s" and "e \<le> length ls"
  defines "k \<equiv> pow2_below (e - s)"
  shows "largestPowerOfTwoLessThan (e - s) = Inr k" and "0 < k" and "k < e - s"
    and "mth (hnode h) (slice ls s e) =
      hnode h (mth (hnode h) (slice ls s (s + k))) (mth (hnode h) (slice ls (s + k) e))"
    and "k < m \<Longrightarrow> m \<le> e - s \<Longrightarrow> mth (hnode h) (slice ls s (s + m)) =
      hnode h (mth (hnode h) (slice ls s (s + k))) (mth (hnode h) (slice ls (s + k) (s + m)))"
proof -
  have len: "length (slice ls s e) = e - s" using assms(3) by (simp add: length_slice)
  show k: "0 < k" "k < e - s" using pow2_below_bounds [OF assms(2)] by (auto simp: k_def)
  show "largestPowerOfTwoLessThan (e - s) = Inr k"
    using assms by (auto simp: js_array_def good_leaves_def k_def intro!: largestPow_value)
  show "mth (hnode h) (slice ls s e) =
      hnode h (mth (hnode h) (slice ls s (s + k))) (mth (hnode h) (slice ls (s + k) e))"
    using assms(2) k mth_split [of "slice ls s e" "hnode h"]
    by (simp add: len take_slice drop_slice k_def)
  show "mth (hnode h) (slice ls s (s + m)) =
      hnode h (mth (hnode h) (slice ls s (s + k))) (mth (hnode h) (slice ls (s + k) (s + m)))"
    if "k < m" "m \<le> e - s"
    using mth_prefix_split [of "slice ls s e" m "hnode h"] assms(2) k that
    by (simp add: len take_slice drop_slice k_def)
qed

lemma trips_same:
  assumes "good_leaves h ls" and "s < e" and "e \<le> length ls"
  shows "trips h ls (e - s) s e b (if b then [] else [mth (hnode h) (slice ls s e)])"
  using assms range_root [OF assms]
  by (simp add: trips_def consistencySubproof.simps [of h "e - s" ls s e]
      verifyConsistencySubproof.simps [of h "e - s" "e - s"])

lemma trips_left:
  assumes "good_leaves h ls" and "1 < e - s" and "e \<le> length ls"
  defines "k \<equiv> pow2_below (e - s)"
  assumes "m \<le> k" and "trips h ls m s (s + k) b seg"
  shows "trips h ls m s e b (seg @ [mth (hnode h) (slice ls (s + k) e)])"
proof -
  let ?r = "mth (hnode h) (slice ls (s + k) e)"
  note sp = range_split [OF assms(1-3), folded k_def]
  note l = range_root [OF assms(1), of s "s + k"] and r = range_root [OF assms(1), of "s + k" e]
  have "verifyConsistencySubproof h m (e - s) b (pre @ (seg @ [?r]) @ post) (length pre) oldRoot =
      Inr (Some (length pre + (length seg + 1), mth (hnode h) (slice ls s (s + m)),
        mth (hnode h) (slice ls s e)))"
    if "b \<longrightarrow> oldRoot = mth (hnode h) (slice ls s (s + m))" for pre post oldRoot
    using assms(3,5,6) sp l r that nth_middle [of "pre @ seg" ?r post]
    by (simp add: verifyConsistencySubproof.simps [of h m "e - s"] nodeHash_hex trips_def)
  then show ?thesis
    using assms(3,5,6) sp r by (simp add: trips_def consistencySubproof.simps [of h m ls s e])
qed

lemma trips_right:
  assumes "good_leaves h ls" and "1 < e - s" and "e \<le> length ls"
  defines "k \<equiv> pow2_below (e - s)"
  assumes "k < m" and "m < e - s" and "trips h ls (m - k) (s + k) e False seg"
  shows "trips h ls m s e b (seg @ [mth (hnode h) (slice ls s (s + k))])"
proof -
  let ?l = "mth (hnode h) (slice ls s (s + k))"
  note sp = range_split [OF assms(1-3), folded k_def]
  note l = range_root [OF assms(1), of s "s + k"] and r = range_root [OF assms(1), of "s + k" e]
    and p = range_root [OF assms(1), of "s + k" "s + m"]
  have "s + k + (m - k) = s + m" "e - (s + k) = e - s - k" using assms(5) by simp_all
  then have sub: "verifyConsistencySubproof h (m - k) (e - s - k) False (pre @ seg @ post) (length pre) oldRoot =
      Inr (Some (length pre + length seg, mth (hnode h) (slice ls (s + k) (s + m)),
        mth (hnode h) (slice ls (s + k) e)))" for pre post oldRoot
    using assms(7) by (simp add: trips_def)
  have "verifyConsistencySubproof h m (e - s) b (pre @ (seg @ [?l]) @ post) (length pre) oldRoot =
      Inr (Some (length pre + (length seg + 1), mth (hnode h) (slice ls s (s + m)),
        mth (hnode h) (slice ls s e)))" for pre post oldRoot
    using assms(3,5,6) sp(1-4) sp(5) [of m] l r p sub [of pre "?l # post" oldRoot]
      nth_middle [of "pre @ seg" ?l post]
    by (simp add: verifyConsistencySubproof.simps [of h m "e - s"] nodeHash_hex)
  then show ?thesis
    using assms(3,5-7) sp l by (simp add: trips_def consistencySubproof.simps [of h m ls s e])
qed

lemma consistency_round_trip:
  assumes "good_leaves h ls"
  shows "0 < m \<Longrightarrow> m \<le> e - s \<Longrightarrow> e \<le> length ls \<Longrightarrow> \<exists>seg. trips h ls m s e b seg"
proof (induction "e - s" arbitrary: m s e b rule: less_induct)
  case less
  let ?k = "pow2_below (e - s)"
  consider "m = e - s" | "m < e - s" "m \<le> ?k" | "m < e - s" "?k < m" using less.prems by linarith
  then show ?case
  proof cases
    case 1
    then show ?thesis using trips_same [OF assms, of s e b] less.prems by auto
  next
    case 2
    then have big: "1 < e - s" using less.prems by simp
    then have "\<exists>seg. trips h ls m s (s + ?k) b seg"
      using less.prems 2 pow2_below_bounds [OF big] by (intro less.hyps) auto
    then show ?thesis using trips_left [OF assms big less.prems(3) 2(2)] by blast
  next
    case 3
    then have big: "1 < e - s" using less.prems by simp
    then have "\<exists>seg. trips h ls (m - ?k) (s + ?k) e False seg"
      using less.prems 3 pow2_below_bounds [OF big] by (intro less.hyps) auto
    then show ?thesis using trips_right [OF assms big less.prems(3) 3(2,1)] by blast
  qed
qed

lemma sizes_ok:
  "js_array xs \<Longrightarrow> m \<le> length xs \<Longrightarrow> assertTreeSize (int m) = Inr ()"
  by (auto simp: assertTreeSize_def is_safe_integer_def max_safe_integer_def js_array_def)

lemma leaves_good:
  "hex_digests h \<Longrightarrow> js_array payloads \<Longrightarrow> good_leaves h (map (leafHash h) payloads)"
  using leaf_hashes_ok by (auto simp: good_leaves_def)

lemma payload_root:
  assumes "hex_digests h" and "js_array payloads"
  shows "computeMerkleRoot h payloads =
    Inr (if payloads = [] then EMPTY_TREE_ROOT h else mth (hnode h) (map (leafHash h) payloads))"
  using root_value [OF assms(1) leaf_hashes_ok [OF assms]]
  by (simp add: computeMerkleRoot_def computeMerkleRootFromLeafHashes_def)

lemma consistency_middle:
  assumes "hex_digests h" and "js_array payloads" and "0 < m" and "m < length payloads"
  defines "ls \<equiv> map (leafHash h) payloads"
  shows "\<exists>p. getConsistencyProof h (int m) payloads = Inr p
    \<and> verifyConsistencyProof h (mth (hnode h) (take m ls)) (mth (hnode h) ls) p"
proof -
  have good: "good_leaves h ls" and len: "length ls = length payloads"
    using leaves_good [OF assms(1,2)] by (simp_all add: ls_def)
  obtain seg where seg: "trips h ls m 0 (length ls) True seg"
    using consistency_round_trip [OF good, of m "length ls" 0 True] assms(3,4) len by auto
  have hexes: "hex64 (mth (hnode h) (take m ls))" "hex64 (mth (hnode h) ls)"
    using range_root(2) [OF good, of 0 m] range_root(2) [OF good, of 0 "length ls"] assms(3,4) len
    by (force simp: slice_def)+
  have v: "verifyConsistencySubproof h m (length ls) True seg 0 (mth (hnode h) (take m ls)) =
      Inr (Some (length seg, mth (hnode h) (take m ls), mth (hnode h) ls))"
    using seg unfolding trips_def
    by (elim conjE allE [of _ "[]"] allE [of _ "mth (hnode h) (take m ls)"]) (simp add: slice_def)
  have sizes: "assertTreeSize (int m) = Inr ()" "assertTreeSize (int (length ls)) = Inr ()"
    using sizes_ok [OF assms(2)] assms(4) len by simp_all
  have "getConsistencyProof h (int m) payloads =
      Inr \<lparr>old_tree_size = int m, new_tree_size = int (length ls), consistency_path = seg\<rparr>"
    using seg good sizes assms(3,4) len
    by (simp add: getConsistencyProof_def getConsistencyProofFromLeafHashes_def trips_def
        good_leaves_def flip: ls_def)
  moreover have "verifyConsistencyProof h (mth (hnode h) (take m ls)) (mth (hnode h) ls)
      \<lparr>old_tree_size = int m, new_tree_size = int (length ls), consistency_path = seg\<rparr>"
    using seg sizes hexes v assms(3,4) len by (simp add: verifyConsistencyProof_def trips_def)
  ultimately show ?thesis by blast
qed

lemma consistency_ends:
  assumes "hex_digests h" and "js_array payloads" and "m \<le> length payloads"
  shows "m \<in> {0, length payloads} \<Longrightarrow> getConsistencyProof h (int m) payloads =
    Inr \<lparr>old_tree_size = int m, new_tree_size = int (length payloads), consistency_path = []\<rparr>"
  using leaf_hashes_ok [OF assms(1,2)] sizes_ok [OF assms(2,3)]
  by (auto simp: getConsistencyProof_def getConsistencyProofFromLeafHashes_def)

lemma consistency_verifies:
  assumes "hex_digests h" and "js_array payloads" and "m \<le> length payloads"
  shows "\<exists>p oldRoot newRoot. getConsistencyProof h (int m) payloads = Inr p
    \<and> computeMerkleRoot h (take m payloads) = Inr oldRoot
    \<and> computeMerkleRoot h payloads = Inr newRoot
    \<and> verifyConsistencyProof h oldRoot newRoot p"
proof -
  have old: "js_array (take m payloads)" using assms(2) by (simp add: js_array_def)
  note roots = payload_root [OF assms(1) old] payload_root [OF assms(1,2)]
  have hexes: "hex64 (EMPTY_TREE_ROOT h)"
    "payloads = [] \<or> hex64 (mth (hnode h) (map (leafHash h) payloads))"
    using assms(1) mth_hex [OF assms(1) _ leaf_hashes_ok(1) [OF assms(1,2)]]
    by (auto simp: EMPTY_TREE_ROOT_def hex_digests_def)
  consider "m = 0" | "0 < m" "m = length payloads" | "0 < m" "m < length payloads"
    using assms(3) by linarith
  then show ?thesis
  proof cases
    case 3
    then show ?thesis
      using consistency_middle [OF assms(1,2) 3] roots by (auto simp: take_map)
  next
    case 1
    then show ?thesis
      using roots hexes consistency_ends [OF assms] sizes_ok [OF assms(2)] sizes_ok [OF assms(2), of 0]
      by (auto simp: verifyConsistencyProof_def)
  next
    case 2
    then show ?thesis
      using roots hexes consistency_ends [OF assms] sizes_ok [OF assms(2)]
      by (auto simp: verifyConsistencyProof_def)
  qed
qed

text \<open>
  For every payload list and every earlier size, \<open>getConsistencyProof\<close> returns a proof
  that \<open>verifyConsistencyProof\<close> accepts for the root of the prefix of that size and the root of
  the whole list, the empty and the complete prefix included.
\<close>

theorem consistency_proof_complete:
  assumes "hex_digests h" and "js_array payloads" and "m \<le> length payloads"
  shows "\<exists>p oldRoot newRoot. getConsistencyProof h (int m) payloads = Inr p
    \<and> computeMerkleRoot h (take m payloads) = Inr oldRoot
    \<and> computeMerkleRoot h payloads = Inr newRoot
    \<and> verifyConsistencyProof h oldRoot newRoot p"
  using assms by (rule consistency_verifies)

theorem consistency_proof_complete_witness:
  "\<exists>p oldRoot newRoot. getConsistencyProof sample_digest (int 2) sample_log = Inr p
    \<and> computeMerkleRoot sample_digest (take 2 sample_log) = Inr oldRoot
    \<and> computeMerkleRoot sample_digest sample_log = Inr newRoot
    \<and> verifyConsistencyProof sample_digest oldRoot newRoot p"
  by (rule consistency_proof_complete [OF hex_digests_sample]) (simp_all add: js_array_def sample_log_def)

subsection \<open>Soundness of consistency proofs\<close>

text \<open>The texts the verifier hashes on the side of the new root.\<close>

function verify_texts ::
  "(jstr \<Rightarrow> jstr) \<Rightarrow> nat \<Rightarrow> nat \<Rightarrow> bool \<Rightarrow> jstr list \<Rightarrow> nat \<Rightarrow> jstr \<Rightarrow> jstr list" where
  "verify_texts h m n b path c r =
     (if m = n \<or> n \<le> 1 then []
      else if m \<le> pow2_below n then
        verify_texts h m (pow2_below n) b path c r @
        (case verifyConsistencySubproof h m (pow2_below n) b path c r of
           Inr (Some (c', _, ln)) \<Rightarrow> [node_text ln (path ! c')] | _ \<Rightarrow> [])
      else
        verify_texts h (m - pow2_below n) (n - pow2_below n) False path c r @
        (case verifyConsistencySubproof h (m - pow2_below n) (n - pow2_below n) False path c r of
           Inr (Some (c', _, rn)) \<Rightarrow> [node_text (path ! c') rn] | _ \<Rightarrow> []))"
  by pat_completeness auto
termination
proof (relation "measure (\<lambda>(h, m, n, b, p, c, r). n)", goal_cases)
  case (2 h m n b path c r)
  then show ?case using pow2_below_bounds [of n] by auto
next
  case (3 h m n b path c r)
  then show ?case using pow2_below_bounds [of n] by auto
qed simp

declare verify_texts.simps [simp del]

lemma verify_old_root_is_prefix_root:
  assumes "hex_digests h" and "collision_free h ts"
  shows "0 < m \<Longrightarrow> m \<le> length xs \<Longrightarrow> list_all hex64 xs \<Longrightarrow> js_array xs \<Longrightarrow>
    verifyConsistencySubproof h m (length xs) b path c r = Inr (Some (c', ro, mth (hnode h) xs)) \<Longrightarrow>
    set (mth_texts h xs) \<union> set (verify_texts h m (length xs) b path c r) \<subseteq> set ts \<Longrightarrow>
    ro = mth (hnode h) (take m xs)"
proof (induction "length xs" arbitrary: xs m b c' ro rule: less_induct)
  case less
  let ?k = "pow2_below (length xs)" and ?v = "verifyConsistencySubproof h"
  let ?l = "take ?k xs" and ?r = "drop ?k xs"
  show ?case
  proof (cases "m = length xs")
    case True
    then show ?thesis
      using less.prems(5) by (auto simp: verifyConsistencySubproof.simps [of h "length xs" "length xs"] split: if_splits)
  next
    case False
    then have big: "1 < length xs" using less.prems by linarith
    have k: "0 < ?k" "?k < length xs" using pow2_below_bounds [OF big] by auto
    have lp: "largestPowerOfTwoLessThan (length xs) = Inr ?k"
      using big less.prems(4) by (intro largestPow_value) (auto simp: js_array_def)
    have halves: "list_all hex64 ?l" "list_all hex64 ?r" "js_array ?l" "js_array ?r"
      using less.prems(3,4) by (auto simp: list_all_iff js_array_def dest: in_set_takeD in_set_dropD)
    have sides: "hex64 (mth (hnode h) ?l)" using halves(1) k assms(1) by (auto intro!: mth_hex)
    note texts = mth_texts_split [OF big, of h] and hash = mth_split [OF big, of "hnode h"]
    note unfold = verifyConsistencySubproof.simps [of h m "length xs" b path c r]
      verify_texts.simps [of h m "length xs" b path c r]
    show ?thesis
    proof (cases "m \<le> ?k")
      case True
      obtain c0 ln where sub: "?v m ?k b path c r = Inr (Some (c0, ro, ln))"
        and eq: "hex64 ln" "mth (hnode h) xs = hnode h ln (path ! c0)"
        using less.prems(5) False True lp
        by (auto simp: unfold nodeHash_Inr split: sum.splits option.splits if_splits)
      have "ln = mth (hnode h) ?l \<and> path ! c0 = mth (hnode h) ?r"
        using less.prems(6) eq hash texts sides sub True False big
        by (intro hnode_inject [OF assms(2)]) (auto simp: unfold(2))
      then have "ro = mth (hnode h) (take m ?l)"
        using k True less.prems sub halves texts False big
        by (intro less.hyps [of ?l m b c0 ro]) (auto simp: unfold(2) min_absorb2)
      then show ?thesis using True by (simp add: min_absorb1)
    next
      case gt: False
      obtain c0 ro' rn where sub: "?v (m - ?k) (length xs - ?k) False path c r = Inr (Some (c0, ro', rn))"
        and eq: "hex64 (path ! c0)" "mth (hnode h) xs = hnode h (path ! c0) rn"
        and ro: "ro = hnode h (path ! c0) ro'"
        using less.prems(5) False gt lp
        by (auto simp: unfold nodeHash_Inr split: sum.splits option.splits if_splits)
      have ids: "path ! c0 = mth (hnode h) ?l \<and> rn = mth (hnode h) ?r"
        using less.prems(6) eq hash texts sides sub gt False big
        by (intro hnode_inject [OF assms(2)]) (auto simp: unfold(2))
      then have "ro' = mth (hnode h) (take (m - ?k) ?r)"
        using k gt less.prems sub halves texts False big
        by (intro less.hyps [of ?r "m - ?k" False c0 ro']) (auto simp: unfold(2))
      then show ?thesis
        using ro ids mth_prefix_split [OF big _ less.prems(2), of "hnode h"] gt by simp
    qed
  qed
qed

lemma mth_inject:
  assumes "hex_digests h" and "collision_free h ts" and "xs \<noteq> []"
  shows "list_all hex64 xs \<Longrightarrow> list_all hex64 ys \<Longrightarrow> length xs = length ys \<Longrightarrow>
    mth (hnode h) xs = mth (hnode h) ys \<Longrightarrow> set (mth_texts h xs) \<union> set (mth_texts h ys) \<subseteq> set ts \<Longrightarrow>
    xs = ys"
  using assms(3)
proof (induction xs arbitrary: ys rule: mth_induct)
  case (single x)
  then obtain y where "ys = [y]" by (cases ys) auto
  with single show ?case by simp
next
  case (split xs)
  let ?k = "pow2_below (length xs)" and ?f = "hnode h"
  have big: "1 < length ys" using split by simp
  have k: "0 < ?k" "?k < length xs" using pow2_below_bounds [OF split.hyps(1)] by auto
  note texts = mth_texts_split [OF split.hyps(1), of h] mth_texts_split [OF big, of h]
    and hash = mth_split [OF split.hyps(1), of ?f] mth_split [OF big, of ?f]
  have halves: "list_all hex64 (take ?k xs)" "list_all hex64 (drop ?k xs)"
    "list_all hex64 (take ?k ys)" "list_all hex64 (drop ?k ys)"
    using split.prems(1,2) by (auto simp: list_all_iff dest: in_set_takeD in_set_dropD)
  then have "hex64 (mth ?f (take ?k xs))" "hex64 (mth ?f (take ?k ys))"
    using k split.prems(3) assms(1) by (auto intro!: mth_hex)
  then have eqs: "mth ?f (take ?k xs) = mth ?f (take ?k ys) \<and> mth ?f (drop ?k xs) = mth ?f (drop ?k ys)"
    using split.prems texts hash by (intro hnode_inject [OF assms(2)]) auto
  have "take ?k xs = take ?k ys"
    using split.prems halves eqs texts by (intro split.IH(1)) auto
  moreover have "drop ?k xs = drop ?k ys"
    using split.prems halves eqs texts by (intro split.IH(2)) auto
  ultimately show ?case by (metis append_take_drop_id)
qed

definition leaf_texts :: "jstr list \<Rightarrow> jstr list" where
  "leaf_texts payloads = map (\<lambda>x. js ''ghostark.leaf.v1:'' @ x) payloads"

lemma leafHash_list_inject:
  assumes "collision_free h ts" and "set (leaf_texts xs) \<union> set (leaf_texts ys) \<subseteq> set ts"
    and "map (leafHash h) xs = map (leafHash h) ys"
  shows "xs = ys"
  using assms(2,3)
proof (induction xs arbitrary: ys)
  case Nil
  then show ?case by simp
next
  case (Cons x xs)
  from Cons.prems(2) obtain y ys' where ys: "ys = y # ys'" "leafHash h x = leafHash h y"
    "map (leafHash h) xs = map (leafHash h) ys'" by (cases ys) auto
  have "js ''ghostark.leaf.v1:'' @ x = js ''ghostark.leaf.v1:'' @ y"
    using Cons.prems(1) ys
    by (intro collision_freeD [OF assms(1), of "js ''ghostark.leaf.v1:'' @ x" "js ''ghostark.leaf.v1:'' @ y"])
      (auto simp: leaf_texts_def leafHash_def)
  then show ?case using Cons.IH [of ys'] Cons.prems(1) ys by (auto simp: leaf_texts_def)
qed

definition consistency_texts ::
  "(jstr \<Rightarrow> jstr) \<Rightarrow> jstr list \<Rightarrow> jstr list \<Rightarrow> jstr \<Rightarrow> MerkleConsistencyProof \<Rightarrow> jstr list" where
  "consistency_texts h old new oldRoot p =
     leaf_texts old @ leaf_texts new @
     mth_texts h (map (leafHash h) old) @ mth_texts h (map (leafHash h) new) @
     mth_texts h (map (leafHash h) (take (length old) new)) @
     verify_texts h (length old) (length new) True (consistency_path p) 0 oldRoot"

lemma consistency_old_root:
  assumes "hex_digests h" and "js_array new" and "0 < length old" and "length old \<le> length new"
    and "old_tree_size p = int (length old)" and "new_tree_size p = int (length new)"
    and "verifyConsistencyProof h oldRoot (mth (hnode h) (map (leafHash h) new)) p"
    and "collision_free h (consistency_texts h old new oldRoot p)"
  shows "oldRoot = mth (hnode h) (map (leafHash h) (take (length old) new))"
proof (cases "length old = length new")
  case True
  then show ?thesis
    using assms(3,5-7) by (auto simp: verifyConsistencyProof_def split: if_splits)
next
  case False
  then obtain c where
    "verifyConsistencySubproof h (length old) (length new) True (consistency_path p) 0 oldRoot =
      Inr (Some (c, oldRoot, mth (hnode h) (map (leafHash h) new)))"
    using assms(3,5-7)
    by (auto simp: verifyConsistencyProof_def split: if_splits sum.splits option.splits)
  then show ?thesis
    using verify_old_root_is_prefix_root [OF assms(1,8), of "length old" "map (leafHash h) new" True
        "consistency_path p" 0 oldRoot c oldRoot] leaf_hashes_ok [OF assms(1,2)] assms(3,4)
    by (auto simp: consistency_texts_def take_map)
qed

lemma consistent_prefix:
  assumes "hex_digests h" and "js_array old" and "js_array new"
    and "computeMerkleRoot h old = Inr oldRoot" and "computeMerkleRoot h new = Inr newRoot"
    and "old_tree_size p = int (length old)" and "new_tree_size p = int (length new)"
    and "verifyConsistencyProof h oldRoot newRoot p"
    and "collision_free h (consistency_texts h old new oldRoot p)"
  shows "length old \<le> length new \<and> old = take (length old) new"
proof (cases "old = []")
  case True
  then show ?thesis by simp
next
  case False
  have le: "length old \<le> length new"
    using assms(6-8) by (auto simp: verifyConsistencyProof_def split: if_splits)
  with False have new: "new \<noteq> []" by auto
  let ?pre = "take (length old) new"
  have "oldRoot = mth (hnode h) (map (leafHash h) ?pre)"
    using assms(3-9) le False new payload_root [OF assms(1,3)]
    by (intro consistency_old_root [OF assms(1,3)]) auto
  then have "mth (hnode h) (map (leafHash h) old) = mth (hnode h) (map (leafHash h) ?pre)"
    using assms(4) False payload_root [OF assms(1,2)] by simp
  moreover have "js_array ?pre" using assms(3) by (simp add: js_array_def)
  ultimately have "map (leafHash h) old = map (leafHash h) ?pre"
    using False le leaf_hashes_ok [OF assms(1,2)] leaf_hashes_ok [OF assms(1), of ?pre]
    by (intro mth_inject [OF assms(1,9)]) (auto simp: consistency_texts_def)
  moreover have "set (leaf_texts old) \<union> set (leaf_texts ?pre) \<subseteq> set (consistency_texts h old new oldRoot p)"
    by (auto simp: consistency_texts_def leaf_texts_def dest: in_set_takeD)
  ultimately have "old = ?pre" using leafHash_list_inject [OF assms(9)] by blast
  with le show ?thesis by simp
qed

text \<open>
  Claim C22. A consistency proof is sound: if \<open>verifyConsistencyProof\<close> accepts the roots that
  \<open>computeMerkleRoot\<close> gives an old and a new payload list, for a proof that states their sizes,
  then the old list is a prefix of the new one: nothing was removed, reordered or rewritten.
\<close>

theorem consistency_proof_sound:
  assumes "hex_digests h" and "js_array old" and "js_array new"
    and "computeMerkleRoot h old = Inr oldRoot" and "computeMerkleRoot h new = Inr newRoot"
    and "old_tree_size p = int (length old)" and "new_tree_size p = int (length new)"
    and "verifyConsistencyProof h oldRoot newRoot p"
    and "collision_free h (consistency_texts h old new oldRoot p)"
  shows "length old \<le> length new \<and> old = take (length old) new"
  using assms by (rule consistent_prefix)

definition sample_consistency :: MerkleConsistencyProof where
  "sample_consistency = \<lparr>old_tree_size = 2, new_tree_size = 3,
     consistency_path = [leafHash sample_digest (js ''c'')]\<rparr>"

definition sample_old_root :: jstr where
  "sample_old_root = hnode sample_digest (leafHash sample_digest (js ''a'')) (leafHash sample_digest (js ''b''))"

theorem consistency_proof_sound_witness:
  "[js ''a'', js ''b''] = take (length [js ''a'', js ''b'']) sample_log"
proof -
  let ?a = "leafHash sample_digest (js ''a'')" and ?b = "leafHash sample_digest (js ''b'')"
    and ?c = "leafHash sample_digest (js ''c'')" and ?p = "js ''ghostark.leaf.v1:''"
  let ?new = "hnode sample_digest sample_old_root ?c"
  have pows: "pow2_below (Suc (Suc 0)) = Suc 0" "pow2_below (Suc (Suc (Suc 0))) = Suc (Suc 0)"
    "largestPowerOfTwoLessThan 3 = Inr 2" "largestPowerOfTwoLessThan (Suc (Suc (Suc 0))) = Inr 2"
    by code_simp+
  have arr: "js_array [js ''a'', js ''b'']" "js_array sample_log"
    by (simp_all add: js_array_def sample_log_def)
  have hexes: "hex64 (leafHash sample_digest x)" "hex64 sample_old_root" "hex64 ?new" for x
    using hex_digests_sample by (simp_all add: hex_digests_def leafHash_def sample_old_root_def hnode_def)
  have old: "computeMerkleRoot sample_digest [js ''a'', js ''b''] = Inr sample_old_root"
    by (simp add: payload_root [OF hex_digests_sample arr(1)] mth.simps pows sample_old_root_def)
  have new: "computeMerkleRoot sample_digest sample_log = Inr ?new"
    using payload_root [OF hex_digests_sample arr(2)]
    by (simp add: mth.simps pows sample_old_root_def sample_log_def)
  have sizes: "assertTreeSize 2 = Inr ()" "assertTreeSize 3 = Inr ()" by code_simp+
  have v: "verifyConsistencyProof sample_digest sample_old_root ?new sample_consistency"
    using hexes by (simp add: verifyConsistencyProof_def sample_consistency_def sizes
        verifyConsistencySubproof.simps pows nodeHash_hex)
  have "distinct (map sample_digest [?p @ js ''a'', ?p @ js ''b'', ?p @ js ''c'', node_text ?a ?b,
      node_text sample_old_root ?c])" by code_simp
  then have "collision_free sample_digest
      (consistency_texts sample_digest [js ''a'', js ''b''] sample_log sample_old_root sample_consistency)"
    by (rule collision_free_distinct)
      (simp add: consistency_texts_def sample_log_def leaf_texts_def sample_consistency_def
        mth_texts.simps verify_texts.simps verifyConsistencySubproof.simps mth.simps pows sample_old_root_def)
  then show ?thesis
    using consistency_proof_sound [OF hex_digests_sample arr old new _ _ v]
    by (simp add: sample_consistency_def sample_log_def)
qed

end
