(* ===== verification/Canonical_JSON.thy ===== *)
theory Canonical_JSON
  imports Prelude
begin

text \<open>
  The canonical JSON serializer, \<open>packages/receipt-schema/src/hashCanonicalization.ts\<close>.

  A JavaScript value is a \<open>jsval\<close>: the JSON shapes and, as constructors of their own, the host
  values that \<open>canonicalize\<close> rejects. An array is a list of optional elements, a hole being
  \<open>None\<close>; a plain object is its list of own entries. A finite non-zero number is given by the
  data from which ECMAScript prints it, its sign, the digits of its shortest decimal and the
  exponent \<open>n\<close> with \<open>value = 0.d\<^sub>1d\<^sub>2... * 10^n\<close>. Each exception is an error value.
\<close>

subsection \<open>Values\<close>

datatype jnum = NotANumber | Infinite bool | Zero bool | Finite bool "nat list" int

datatype jsval =
    JUndefined
  | JNull
  | JBool bool
  | JNum jnum
  | JStr jstr
  | JBigint
  | JFunction
  | JSymbol
  | JArr "jsval option list"
  | JDate
  | JBuffer
  | JBinaryView
  | JMapOrSet
  | JObj "(jstr \<times> jsval) list"
  | JInstance

datatype canonical_error =
    UndefinedValue
  | NonFiniteNumber
  | BigintValue
  | ExecutableValue
  | SparseArray
  | DateObject
  | BufferValue
  | BinaryViewValue
  | MapOrSetValue
  | UnsupportedValue

subsection \<open>\<open>JSON.stringify\<close> on strings and numbers\<close>

definition is_high_surrogate :: "code_unit \<Rightarrow> bool" where
  "is_high_surrogate c \<longleftrightarrow> 0xD800 \<le> c \<and> c \<le> 0xDBFF"

definition is_low_surrogate :: "code_unit \<Rightarrow> bool" where
  "is_low_surrogate c \<longleftrightarrow> 0xDC00 \<le> c \<and> c \<le> 0xDFFF"

definition hex4 :: "code_unit \<Rightarrow> jstr" where
  "hex4 c = map hex_digit [uint c div 4096 mod 16, uint c div 256 mod 16, uint c div 16 mod 16, uint c mod 16]"

definition escape_unit :: "code_unit \<Rightarrow> jstr" where
  "escape_unit c =
     (if c = 8 then [92, 98]
      else if c = 9 then [92, 116]
      else if c = 10 then [92, 110]
      else if c = 12 then [92, 102]
      else if c = 13 then [92, 114]
      else if c = 34 then [92, 34]
      else if c = 92 then [92, 92]
      else if c < 32 \<or> is_high_surrogate c \<or> is_low_surrogate c then 92 # 117 # hex4 c
      else [c])"

fun quote_units :: "jstr \<Rightarrow> jstr" where
  "quote_units [] = []"
| "quote_units [c] = escape_unit c"
| "quote_units (c # d # s) =
     (if is_high_surrogate c \<and> is_low_surrogate d then c # d # quote_units s
      else escape_unit c @ quote_units (d # s))"

definition stringify_string :: "jstr \<Rightarrow> jstr" where
  "stringify_string s = 34 # quote_units s @ [34]"

text \<open>\<open>Number::toString\<close> in base ten, for a finite non-zero number.\<close>

definition finite_magnitude :: "nat list \<Rightarrow> int \<Rightarrow> jstr" where
  "finite_magnitude ds n =
     (if int (length ds) \<le> n \<and> n \<le> 21
      then map digit_unit ds @ replicate (nat n - length ds) 48
      else if 0 < n \<and> n \<le> 21
      then map digit_unit (take (nat n) ds) @ [46] @ map digit_unit (drop (nat n) ds)
      else if - 6 < n \<and> n \<le> 0
      then [48, 46] @ replicate (nat (- n)) 48 @ map digit_unit ds
      else map digit_unit (take 1 ds) @
           (if length ds = 1 then [] else 46 # map digit_unit (drop 1 ds)) @
           [101] @ (if n - 1 < 0 then [45] else [43]) @ nat_str (nat \<bar>n - 1\<bar>))"

definition stringify_finite :: "bool \<Rightarrow> nat list \<Rightarrow> int \<Rightarrow> jstr" where
  "stringify_finite neg ds n = (if neg then [45] else []) @ finite_magnitude ds n"

subsection \<open>Comparing numbers\<close>

text \<open>
  With the digits normalised, magnitudes compare by exponent and then lexicographically by digits.
  \<open>num_less\<close> is \<open><\<close> on numbers; it is false when a side is \<open>NaN\<close>.
\<close>

fun magnitude_less :: "jnum \<Rightarrow> jnum \<Rightarrow> bool" where
  "magnitude_less (Zero _) (Finite _ _ _) = True"
| "magnitude_less (Zero _) (Infinite _) = True"
| "magnitude_less (Finite _ ds n) (Finite _ es m) = (n < m \<or> n = m \<and> ds < es)"
| "magnitude_less (Finite _ _ _) (Infinite _) = True"
| "magnitude_less _ _ = False"

fun negative :: "jnum \<Rightarrow> bool" where
  "negative (Finite neg _ _) = neg"
| "negative (Infinite neg) = neg"
| "negative _ = False"

definition num_less :: "jnum \<Rightarrow> jnum \<Rightarrow> bool" where
  "num_less x y \<longleftrightarrow> x \<noteq> NotANumber \<and> y \<noteq> NotANumber \<and>
     (if negative x then negative y \<longrightarrow> magnitude_less y x else \<not> negative y \<and> magnitude_less x y)"

definition num_one :: jnum where
  "num_one = Finite False [1] 1"

text \<open>\<open>z.number().min(0)\<close>, \<open>z.number().min(0).max(1)\<close> and \<open>z.number().int().min(0)\<close>.\<close>

definition zod_nonnegative :: "jnum \<Rightarrow> bool" where
  "zod_nonnegative x \<longleftrightarrow> x \<noteq> NotANumber \<and> \<not> negative x"

definition zod_unit_interval :: "jnum \<Rightarrow> bool" where
  "zod_unit_interval x \<longleftrightarrow> zod_nonnegative x \<and> \<not> num_less num_one x"

fun num_is_int :: "jnum \<Rightarrow> bool" where
  "num_is_int (Zero _) = True"
| "num_is_int (Finite _ ds n) = (int (length ds) \<le> n)"
| "num_is_int _ = False"

definition zod_nonnegative_int :: "jnum \<Rightarrow> bool" where
  "zod_nonnegative_int x \<longleftrightarrow> num_is_int x \<and> zod_nonnegative x"

subsection \<open>The serializer\<close>

definition utf16LexicographicCompare :: "jstr \<Rightarrow> jstr \<Rightarrow> int" where
  "utf16LexicographicCompare left right = (if left < right then - 1 else if right < left then 1 else 0)"

definition key_le :: "jstr \<times> 'a \<Rightarrow> jstr \<times> 'b \<Rightarrow> bool" where
  "key_le a b \<longleftrightarrow> utf16LexicographicCompare (fst a) (fst b) \<le> 0"

definition canonical_number :: "jnum \<Rightarrow> canonical_error + jstr" where
  "canonical_number x =
     (case x of
        NotANumber \<Rightarrow> Inl NonFiniteNumber
      | Infinite _ \<Rightarrow> Inl NonFiniteNumber
      | Zero _ \<Rightarrow> Inr [48]
      | Finite neg ds n \<Rightarrow> Inr (stringify_finite neg ds n))"

lemma size_array_item [termination_simp]:
  "Some v \<in> set xs \<Longrightarrow> size v < Suc (size_list (size_option size) xs)"
  by (induction xs) auto

lemma size_object_entry [termination_simp]:
  "(k, v) \<in> set es \<Longrightarrow> size v < Suc (size_list (size_prod (\<lambda>_. 0) size) es)"
  by (induction es) auto

text \<open>
  The entries are printed in the order of their sorted keys, and the first of them that fails in
  that order is the exception raised.
\<close>

definition print_entry :: "jstr \<times> (canonical_error + jstr) \<Rightarrow> canonical_error + jstr" where
  "print_entry kr = (case snd kr of Inl e \<Rightarrow> Inl e | Inr t \<Rightarrow> Inr (stringify_string (fst kr) @ [58] @ t))"

definition brackets :: "code_unit \<Rightarrow> code_unit \<Rightarrow> canonical_error + jstr list \<Rightarrow> canonical_error + jstr" where
  "brackets l r items =
     (case items of Inl e \<Rightarrow> Inl e | Inr ts \<Rightarrow> Inr (l # joinWith [44] ts @ [r]))"

fun canonicalize :: "jsval \<Rightarrow> canonical_error + jstr" where
  "canonicalize JUndefined = Inl UndefinedValue"
| "canonicalize JNull = Inr (js ''null'')"
| "canonicalize (JStr s) = Inr (stringify_string s)"
| "canonicalize (JBool b) = Inr (if b then js ''true'' else js ''false'')"
| "canonicalize (JNum x) = canonical_number x"
| "canonicalize JBigint = Inl BigintValue"
| "canonicalize JFunction = Inl ExecutableValue"
| "canonicalize JSymbol = Inl ExecutableValue"
| "canonicalize (JArr xs) =
     brackets 91 93 (sequence (map (\<lambda>item. case item of
        None \<Rightarrow> Inl SparseArray
      | Some v \<Rightarrow> canonicalize v) xs))"
| "canonicalize JDate = Inl DateObject"
| "canonicalize JBuffer = Inl BufferValue"
| "canonicalize JBinaryView = Inl BinaryViewValue"
| "canonicalize JMapOrSet = Inl MapOrSetValue"
| "canonicalize (JObj es) =
     (if JUndefined \<in> snd ` set es then Inl UndefinedValue
      else brackets 123 125 (sequence (map print_entry
             (sort_by key_le (map (\<lambda>(k, v). (k, canonicalize v)) es)))))"
| "canonicalize JInstance = Inl UnsupportedValue"

definition canonicalSha256Hex :: "(jstr \<Rightarrow> jstr) \<Rightarrow> jsval \<Rightarrow> canonical_error + jstr" where
  "canonicalSha256Hex h v = (case canonicalize v of Inl e \<Rightarrow> Inl e | Inr t \<Rightarrow> Inr (h t))"

definition prefixed_id :: "jstr \<Rightarrow> (jstr \<Rightarrow> jstr) \<Rightarrow> jsval \<Rightarrow> canonical_error + jstr" where
  "prefixed_id p h v = (case canonicalSha256Hex h v of Inl e \<Rightarrow> Inl e | Inr d \<Rightarrow> Inr (p @ d))"

definition evidenceObjectId :: "(jstr \<Rightarrow> jstr) \<Rightarrow> jsval \<Rightarrow> canonical_error + jstr" where
  "evidenceObjectId = prefixed_id (js ''ev_'')"

definition receiptIdFromPayload :: "(jstr \<Rightarrow> jstr) \<Rightarrow> jsval \<Rightarrow> canonical_error + jstr" where
  "receiptIdFromPayload = prefixed_id (js ''rct_'')"

definition claimIdFromPayload :: "(jstr \<Rightarrow> jstr) \<Rightarrow> jsval \<Rightarrow> canonical_error + jstr" where
  "claimIdFromPayload = prefixed_id (js ''clm_'')"

definition lineageEventIdFromPayload :: "(jstr \<Rightarrow> jstr) \<Rightarrow> jsval \<Rightarrow> canonical_error + jstr" where
  "lineageEventIdFromPayload = prefixed_id (js ''lin_'')"

subsection \<open>JSON-shaped values and their normal form\<close>

text \<open>
  A number is well formed when its digits are those of a shortest decimal (no leading or trailing
  zero). A value is JSON-shaped when it uses the JSON constructors only, without holes, and its
  objects have distinct keys, which holds of every JavaScript object.
\<close>

fun wf_num :: "jnum \<Rightarrow> bool" where
  "wf_num (Zero _) = True"
| "wf_num (Finite neg ds n) = (ds \<noteq> [] \<and> (\<forall>d\<in>set ds. d < 10) \<and> hd ds \<noteq> 0 \<and> last ds \<noteq> 0)"
| "wf_num _ = False"

fun json_shaped :: "jsval \<Rightarrow> bool" where
  "json_shaped JNull = True"
| "json_shaped (JBool b) = True"
| "json_shaped (JStr s) = True"
| "json_shaped (JNum x) = wf_num x"
| "json_shaped (JArr xs) =
     list_all (\<lambda>item. case item of None \<Rightarrow> False | Some v \<Rightarrow> json_shaped v) xs"
| "json_shaped (JObj es) = (distinct (map fst es) \<and> list_all (\<lambda>(k, v). json_shaped v) es)"
| "json_shaped _ = False"

text \<open>The normal form orders the entries of every object and forgets the sign of zero.\<close>

fun norm_num :: "jnum \<Rightarrow> jnum" where
  "norm_num (Zero _) = Zero False"
| "norm_num x = x"

fun norm_val :: "jsval \<Rightarrow> jsval" where
  "norm_val (JNum x) = JNum (norm_num x)"
| "norm_val (JArr xs) =
     JArr (map (\<lambda>item. case item of None \<Rightarrow> None | Some v \<Rightarrow> Some (norm_val v)) xs)"
| "norm_val (JObj es) = JObj (sort_by key_le (map (\<lambda>(k, v). (k, norm_val v)) es))"
| "norm_val v = v"

text \<open>A printer without sorting and without errors.\<close>

fun print_num :: "jnum \<Rightarrow> jstr" where
  "print_num (Finite neg ds n) = stringify_finite neg ds n"
| "print_num _ = [48]"

fun print_val :: "jsval \<Rightarrow> jstr" where
  "print_val (JStr s) = stringify_string s"
| "print_val (JBool b) = (if b then js ''true'' else js ''false'')"
| "print_val (JNum x) = print_num x"
| "print_val (JArr xs) =
     91 # joinWith [44] (map (\<lambda>item. case item of None \<Rightarrow> [] | Some v \<Rightarrow> print_val v) xs) @ [93]"
| "print_val (JObj es) =
     123 # joinWith [44] (map (\<lambda>(k, v). stringify_string k @ [58] @ print_val v) es) @ [125]"
| "print_val _ = js ''null''"

lemma key_le_iff: "key_le a b \<longleftrightarrow> fst a \<le> fst b"
  by (auto simp: key_le_def utf16LexicographicCompare_def)

lemma insert_by_map:
  assumes "\<And>a b. le (f a) (f b) \<longleftrightarrow> le' a b"
  shows "insert_by le (f x) (map f ys) = map f (insert_by le' x ys)"
  by (induction ys) (auto simp: assms)

lemma sort_by_map:
  assumes "\<And>a b. le (f a) (f b) \<longleftrightarrow> le' a b"
  shows "sort_by le (map f xs) = map f (sort_by le' xs)"
  by (induction xs) (simp_all add: sort_by_def insert_by_map assms)

lemma sort_by_sorted: "sorted_wrt le xs \<Longrightarrow> sort_by le xs = xs"
proof (induction xs)
  case Nil
  show ?case by (simp add: sort_by_def)
next
  case (Cons x xs)
  then have "sort_by le (x # xs) = insert_by le x xs" by (simp add: sort_by_def)
  then show ?case using Cons.prems by (cases xs) auto
qed

lemma canonicalize_norm: "json_shaped v \<Longrightarrow> canonicalize v = Inr (print_val (norm_val v))"
proof (induction v rule: json_shaped.induct)
  case (4 x)
  then show ?case by (cases x) (auto simp: canonical_number_def)
next
  case (5 xs)
  have item: "(case item of None \<Rightarrow> Inl SparseArray | Some v \<Rightarrow> canonicalize v) =
      Inr (case item of None \<Rightarrow> [] | Some v \<Rightarrow> print_val (norm_val v))" if "item \<in> set xs" for item
    using 5 that by (auto simp: list_all_iff split: option.splits)
  have "sequence (map (\<lambda>item. case item of None \<Rightarrow> Inl SparseArray | Some v \<Rightarrow> canonicalize v) xs) =
      Inr (map (\<lambda>item. case item of None \<Rightarrow> [] | Some v \<Rightarrow> print_val (norm_val v)) xs)"
    using item by (rule sequence_map_ok)
  moreover have "(\<lambda>item. case item of None \<Rightarrow> [] | Some v \<Rightarrow> print_val v) \<circ>
      (\<lambda>item. case item of None \<Rightarrow> None | Some v \<Rightarrow> Some (norm_val v)) =
      (\<lambda>item. case item of None \<Rightarrow> [] | Some v \<Rightarrow> print_val (norm_val v))"
    by (auto split: option.splits)
  ultimately show ?case by (simp add: brackets_def)
next
  case (6 es)
  let ?f = "\<lambda>(k, v). (k, canonicalize v)" and ?g = "\<lambda>(k, v). (k, norm_val v)"
  let ?sorted = "sort_by key_le es"
  have shaped: "json_shaped v" "canonicalize v = Inr (print_val (norm_val v))" if "(k, v) \<in> set es" for k v
    using 6 that by (auto simp: list_all_iff)
  have "sort_by key_le (map ?f es) = map ?f ?sorted" "sort_by key_le (map ?g es) = map ?g ?sorted"
    by (rule sort_by_map; simp add: key_le_def split: prod.splits)+
  moreover have "sequence (map (\<lambda>kv. print_entry (?f kv)) ?sorted) =
      Inr (map (\<lambda>kv. stringify_string (fst kv) @ [58] @ print_val (norm_val (snd kv))) ?sorted)"
    using shaped by (intro sequence_map_ok) (auto simp: print_entry_def)
  moreover have "JUndefined \<notin> snd ` set es" using shaped(1) by fastforce
  ultimately show ?case by (simp add: brackets_def comp_def case_prod_beta)
qed auto

lemma json_shaped_norm: "json_shaped v \<Longrightarrow> json_shaped (norm_val v)"
proof (induction v rule: json_shaped.induct)
  case (4 x)
  then show ?case by (cases x) auto
next
  case (5 xs)
  then show ?case by (auto simp: list_all_iff split: option.splits)
next
  case (6 es)
  have "sort_by key_le (map (\<lambda>(k, v). (k, norm_val v)) es) =
      map (\<lambda>(k, v). (k, norm_val v)) (sort_by key_le es)"
    by (rule sort_by_map) (simp add: key_le_def split: prod.splits)
  moreover have "distinct (map fst (sort_by key_le es))"
  proof -
    have "map fst (sort_by key_le es) = sort_by (\<le>) (map fst es)"
      by (rule sort_by_map [symmetric]) (simp add: key_le_iff)
    then show ?thesis using 6 by simp
  qed
  ultimately show ?case
    using 6 by (auto simp: list_all_iff comp_def case_prod_beta)
qed auto

text \<open>The number of a natural number below \<open>2^53\<close>.\<close>

definition num_of_nat :: "nat \<Rightarrow> jnum" where
  "num_of_nat k =
     (if k = 0 then Zero False
      else Finite False (rev (dropWhile (\<lambda>d. d = 0) (rev (nat_digits k)))) (int (length (nat_digits k))))"

lemma wf_num_of_nat: "wf_num (num_of_nat k)"
proof (cases "k = 0")
  case False
  let ?ds = "rev (dropWhile (\<lambda>d. d = 0) (rev (nat_digits k)))"
  have hd: "hd (nat_digits k) \<noteq> 0" using False
    by (induction k rule: nat_digits.induct) (subst nat_digits.simps, auto)
  have "\<exists>d\<in>set (nat_digits k). d \<noteq> 0" using hd by (metis hd_in_set nat_digits_not_Nil(1))
  then have nonempty: "?ds \<noteq> []" by (auto simp: dropWhile_eq_Nil_conv)
  have "\<exists>zs. nat_digits k = ?ds @ zs"
    by (metis rev_append rev_rev_ident takeWhile_dropWhile_id)
  then have "hd ?ds = hd (nat_digits k)" using nonempty by (metis hd_append2)
  moreover have "last ?ds \<noteq> 0" using nonempty hd_dropWhile [of "\<lambda>d. d = 0" "rev (nat_digits k)"] by (simp add: last_rev)
  moreover have "d < 10" if "d \<in> set ?ds" for d using that nat_digits_lt10 set_dropWhileD by fastforce
  ultimately show ?thesis using False nonempty hd by (simp add: num_of_nat_def)
qed (simp add: num_of_nat_def)

end
