(* ===== verification/Policy.thy ===== *)
theory Policy
  imports Canonical_JSON
begin

text \<open>
  The policy engine of \<open>packages/enforcement-runtime/src/policy\<close>: the ranked decision vocabulary
  (\<open>decisions.ts\<close>), the policy source and compiled policy types (\<open>schema.ts\<close>), the compiler
  (\<open>compiler.ts\<close>, \<open>canonical.ts\<close>), the evaluator (\<open>evaluator.ts\<close>), the built-in policy
  (\<open>repository.ts\<close>) and the in-memory repository (\<open>inMemoryPolicyRepository.ts\<close>).

  Sources are typed values here; the regular expressions and bounds of their schema are the checks
  of \<open>validatePolicySource\<close>. Two functions of the JavaScript library are parameters:
  \<open>lower\<close> for \<open>toLowerCase\<close> and \<open>toFixed4\<close> for \<open>Number(x.toFixed(4))\<close>; the digest is \<open>h\<close>.
\<close>

subsection \<open>Decisions\<close>

datatype DecisionKind =
  ALLOW | MODIFY | REDACT | REFUSE | SILENCE | ESCALATE | REQUIRE_CONSENT | MEMORY_SUPPRESS
  | RECEIPT_ONLY | HUMAN_REVIEW

datatype EnforcementPhase = Pre_retrieval | Pre_model | Post_model | Memory_write | Final_response

datatype ConsentState = Granted | Denied | Missing | Not_required

fun decision_name :: "DecisionKind \<Rightarrow> jstr" where
  "decision_name ALLOW = js ''ALLOW''"
| "decision_name MODIFY = js ''MODIFY''"
| "decision_name REDACT = js ''REDACT''"
| "decision_name REFUSE = js ''REFUSE''"
| "decision_name SILENCE = js ''SILENCE''"
| "decision_name ESCALATE = js ''ESCALATE''"
| "decision_name REQUIRE_CONSENT = js ''REQUIRE_CONSENT''"
| "decision_name MEMORY_SUPPRESS = js ''MEMORY_SUPPRESS''"
| "decision_name RECEIPT_ONLY = js ''RECEIPT_ONLY''"
| "decision_name HUMAN_REVIEW = js ''HUMAN_REVIEW''"

fun phase_name :: "EnforcementPhase \<Rightarrow> jstr" where
  "phase_name Pre_retrieval = js ''pre_retrieval''"
| "phase_name Pre_model = js ''pre_model''"
| "phase_name Post_model = js ''post_model''"
| "phase_name Memory_write = js ''memory_write''"
| "phase_name Final_response = js ''final_response''"

fun consent_name :: "ConsentState \<Rightarrow> jstr" where
  "consent_name Granted = js ''granted''"
| "consent_name Denied = js ''denied''"
| "consent_name Missing = js ''missing''"
| "consent_name Not_required = js ''not_required''"

fun decisionRank :: "DecisionKind \<Rightarrow> nat" where
  "decisionRank ALLOW = 0"
| "decisionRank RECEIPT_ONLY = 1"
| "decisionRank MODIFY = 2"
| "decisionRank REDACT = 3"
| "decisionRank REQUIRE_CONSENT = 4"
| "decisionRank MEMORY_SUPPRESS = 5"
| "decisionRank ESCALATE = 6"
| "decisionRank HUMAN_REVIEW = 7"
| "decisionRank REFUSE = 8"
| "decisionRank SILENCE = 9"

definition compareDecisionRestrictiveness :: "DecisionKind \<Rightarrow> DecisionKind \<Rightarrow> int" where
  "compareDecisionRestrictiveness left right = int (decisionRank left) - int (decisionRank right)"

definition stricter :: "DecisionKind \<Rightarrow> DecisionKind \<Rightarrow> DecisionKind" where
  "stricter current candidate =
     (if compareDecisionRestrictiveness candidate current > 0 then candidate else current)"

definition mostRestrictiveDecision :: "DecisionKind list \<Rightarrow> DecisionKind" where
  "mostRestrictiveDecision decisions =
     (case decisions of [] \<Rightarrow> ALLOW | d # ds \<Rightarrow> foldl stricter d ds)"

definition decisionAtLeastAsRestrictiveAs :: "DecisionKind \<Rightarrow> DecisionKind \<Rightarrow> bool" where
  "decisionAtLeastAsRestrictiveAs candidate baseline \<longleftrightarrow>
     compareDecisionRestrictiveness candidate baseline \<ge> 0"

subsection \<open>Policy sources\<close>

datatype PolicyLayer = Default | User | Organization | Regulated | Emergency

datatype PolicyMemoryTier = KAPPA | SESSION | CONSTITUTION | AUDIT | RESTRICTED

datatype RetrievalTaint = Trusted | Untrusted_instruction | Cross_tenant | Unknown_origin

fun layer_name :: "PolicyLayer \<Rightarrow> jstr" where
  "layer_name Default = js ''default''"
| "layer_name User = js ''user''"
| "layer_name Organization = js ''organization''"
| "layer_name Regulated = js ''regulated''"
| "layer_name Emergency = js ''emergency''"

fun tier_name :: "PolicyMemoryTier \<Rightarrow> jstr" where
  "tier_name KAPPA = js ''KAPPA''"
| "tier_name SESSION = js ''SESSION''"
| "tier_name CONSTITUTION = js ''CONSTITUTION''"
| "tier_name AUDIT = js ''AUDIT''"
| "tier_name RESTRICTED = js ''RESTRICTED''"

fun taint_name :: "RetrievalTaint \<Rightarrow> jstr" where
  "taint_name Trusted = js ''trusted''"
| "taint_name Untrusted_instruction = js ''untrusted_instruction''"
| "taint_name Cross_tenant = js ''cross_tenant''"
| "taint_name Unknown_origin = js ''unknown_origin''"

record PolicyRuleMatch =
  textContainsAny :: "jstr list option"
  outputContainsAny :: "jstr list option"
  riskTagsAny :: "jstr list option"
  retrievalTaintAny :: "RetrievalTaint list option"
  memoryTierAny :: "PolicyMemoryTier list option"
  memoryClassificationAny :: "jstr list option"
  consentStateAny :: "ConsentState list option"
  requiresConsent :: "bool option"
  bodyDeclaredTenant :: "bool option"

record PolicyRule =
  rule_id :: jstr
  rule_description :: "jstr option"
  rule_phase :: EnforcementPhase
  rule_decision :: DecisionKind
  rule_riskScore :: jnum
  rule_actionTaken :: "jstr list"
  rule_match :: PolicyRuleMatch

record PolicySource =
  policyId :: jstr
  policy_version :: jstr
  policy_layer :: PolicyLayer
  source_defaultDecision :: DecisionKind
  source_unknownRiskDecision :: DecisionKind
  source_rules :: "PolicyRule list"

record CompiledPolicyRule = PolicyRule +
  canonicalRuleId :: jstr
  sourcePolicyId :: jstr
  sourceVersion :: jstr
  rule_layer :: PolicyLayer

record CompiledPolicy =
  policyVersion :: jstr
  policyHash :: jstr
  defaultDecision :: DecisionKind
  unknownRiskDecision :: DecisionKind
  compiled_rules :: "CompiledPolicyRule list"

text \<open>\<open>/^[a-z][a-z0-9._-]{1,96}$/\<close>\<close>

definition slug :: "jstr \<Rightarrow> bool" where
  "slug s \<longleftrightarrow>
     (case s of
        [] \<Rightarrow> False
      | c # cs \<Rightarrow> is_lower c \<and> 1 \<le> length cs \<and> length cs \<le> 96
          \<and> list_all (\<lambda>d. is_lower d \<or> is_digit d \<or> d \<in> set (js ''._-'')) cs)"

definition nonempty_strings :: "jstr list option \<Rightarrow> bool" where
  "nonempty_strings xs = (case xs of None \<Rightarrow> True | Some ys \<Rightarrow> list_all (\<lambda>y. y \<noteq> []) ys)"

definition valid_match :: "PolicyRuleMatch \<Rightarrow> bool" where
  "valid_match m \<longleftrightarrow> nonempty_strings (textContainsAny m) \<and> nonempty_strings (outputContainsAny m)
     \<and> nonempty_strings (riskTagsAny m) \<and> nonempty_strings (memoryClassificationAny m)"

definition valid_rule :: "PolicyRule \<Rightarrow> bool" where
  "valid_rule r \<longleftrightarrow> slug (rule_id r) \<and> zod_unit_interval (rule_riskScore r)
     \<and> list_all (\<lambda>a. a \<noteq> []) (rule_actionTaken r) \<and> valid_match (rule_match r)"

datatype policy_error = InvalidPolicySource | NoPolicySource | PolicyNotCanonical canonical_error

definition validatePolicySource :: "PolicySource \<Rightarrow> policy_error + PolicySource" where
  "validatePolicySource p =
     (if slug (policyId p) \<and> policy_version p \<noteq> [] \<and> list_all valid_rule (source_rules p)
      then Inr p else Inl InvalidPolicySource)"

subsection \<open>Compilation\<close>

fun layerPrecedence :: "PolicyLayer \<Rightarrow> nat" where
  "layerPrecedence Default = 0"
| "layerPrecedence User = 1"
| "layerPrecedence Organization = 2"
| "layerPrecedence Regulated = 3"
| "layerPrecedence Emergency = 4"

definition colon_join :: "jstr list \<Rightarrow> jstr" where
  "colon_join = joinWith (js '':'')"

definition sourceSortKey :: "PolicySource \<Rightarrow> jstr" where
  "sourceSortKey p =
     colon_join [nat_str (layerPrecedence (policy_layer p)), layer_name (policy_layer p), policyId p, policy_version p]"

definition padStart2 :: "jstr \<Rightarrow> jstr" where
  "padStart2 s = replicate (2 - length s) 48 @ s"

definition ruleSortKey :: "CompiledPolicyRule \<Rightarrow> jstr" where
  "ruleSortKey r =
     colon_join [phase_name (rule_phase r), padStart2 (nat_str (layerPrecedence (rule_layer r))),
       sourcePolicyId r, sourceVersion r, rule_id r]"

definition compile_rule :: "PolicySource \<Rightarrow> PolicyRule \<Rightarrow> CompiledPolicyRule" where
  "compile_rule p r = PolicyRule.extend r
     \<lparr>canonicalRuleId = colon_join [layer_name (policy_layer p), policyId p, policy_version p, rule_id r],
      sourcePolicyId = policyId p, sourceVersion = policy_version p, rule_layer = policy_layer p\<rparr>"

definition opt_entry :: "jstr \<Rightarrow> ('a \<Rightarrow> jsval) \<Rightarrow> 'a option \<Rightarrow> (jstr \<times> jsval) list" where
  "opt_entry k f x = (case x of None \<Rightarrow> [] | Some v \<Rightarrow> [(k, f v)])"

definition json_list :: "('a \<Rightarrow> jsval) \<Rightarrow> 'a list \<Rightarrow> jsval" where
  "json_list f xs = JArr (map (\<lambda>x. Some (f x)) xs)"

definition match_json :: "PolicyRuleMatch \<Rightarrow> jsval" where
  "match_json m = JObj (
     opt_entry (js ''textContainsAny'') (json_list JStr) (textContainsAny m) @
     opt_entry (js ''outputContainsAny'') (json_list JStr) (outputContainsAny m) @
     opt_entry (js ''riskTagsAny'') (json_list JStr) (riskTagsAny m) @
     opt_entry (js ''retrievalTaintAny'') (json_list (\<lambda>t. JStr (taint_name t))) (retrievalTaintAny m) @
     opt_entry (js ''memoryTierAny'') (json_list (\<lambda>t. JStr (tier_name t))) (memoryTierAny m) @
     opt_entry (js ''memoryClassificationAny'') (json_list JStr) (memoryClassificationAny m) @
     opt_entry (js ''consentStateAny'') (json_list (\<lambda>t. JStr (consent_name t))) (consentStateAny m) @
     opt_entry (js ''requiresConsent'') JBool (requiresConsent m) @
     opt_entry (js ''bodyDeclaredTenant'') JBool (bodyDeclaredTenant m))"

definition rule_json :: "CompiledPolicyRule \<Rightarrow> jsval" where
  "rule_json r = JObj (
     [(js ''id'', JStr (rule_id r))] @
     opt_entry (js ''description'') JStr (rule_description r) @
     [(js ''phase'', JStr (phase_name (rule_phase r))),
      (js ''decision'', JStr (decision_name (rule_decision r))),
      (js ''riskScore'', JNum (rule_riskScore r)),
      (js ''actionTaken'', json_list JStr (rule_actionTaken r)),
      (js ''match'', match_json (rule_match r)),
      (js ''canonicalRuleId'', JStr (canonicalRuleId r)),
      (js ''sourcePolicyId'', JStr (sourcePolicyId r)),
      (js ''sourceVersion'', JStr (sourceVersion r)),
      (js ''layer'', JStr (layer_name (rule_layer r)))])"

definition policy_json :: "CompiledPolicy \<Rightarrow> jsval" where
  "policy_json p = JObj
     [(js ''schemaVersion'', JStr (js ''ghost.compiled_policy.v1'')),
      (js ''compilerVersion'', JStr (js ''ghost-policy-compiler-ts.1'')),
      (js ''policyVersion'', JStr (policyVersion p)),
      (js ''defaultDecision'', JStr (decision_name (defaultDecision p))),
      (js ''unknownRiskDecision'', JStr (decision_name (unknownRiskDecision p))),
      (js ''rules'', json_list rule_json (compiled_rules p))]"

definition canonicalPolicyHash :: "(jstr \<Rightarrow> jstr) \<Rightarrow> CompiledPolicy \<Rightarrow> canonical_error + jstr" where
  "canonicalPolicyHash h p = canonicalSha256Hex h (policy_json p)"

definition sort_sources :: "PolicySource list \<Rightarrow> PolicySource list" where
  "sort_sources = sort_by (\<lambda>a b. sourceSortKey a \<le> sourceSortKey b)"

definition compile_rules :: "PolicySource list \<Rightarrow> CompiledPolicyRule list" where
  "compile_rules ps = sort_by (\<lambda>a b. ruleSortKey a \<le> ruleSortKey b)
     (concat (map (\<lambda>p. map (compile_rule p) (source_rules p)) ps))"

definition assemble :: "PolicySource list \<Rightarrow> CompiledPolicy" where
  "assemble ps =
     \<lparr>policyVersion = joinWith (js ''+'') (map (\<lambda>p. layer_name (policy_layer p) @ js '':'' @ policyId p
        @ js ''@'' @ policy_version p) ps),
      policyHash = [],
      defaultDecision = mostRestrictiveDecision (map source_defaultDecision ps),
      unknownRiskDecision = mostRestrictiveDecision (map source_unknownRiskDecision ps),
      compiled_rules = compile_rules ps\<rparr>"

definition compilePolicySet :: "(jstr \<Rightarrow> jstr) \<Rightarrow> PolicySource list \<Rightarrow> policy_error + CompiledPolicy" where
  "compilePolicySet h policies =
     (case sequence (map validatePolicySource policies) of
        Inl e \<Rightarrow> Inl e
      | Inr valid \<Rightarrow>
          let ps = sort_sources valid in
          if ps = [] then Inl NoPolicySource
          else
            (case canonicalPolicyHash h (assemble ps) of
               Inl e \<Rightarrow> Inl (PolicyNotCanonical e)
             | Inr d \<Rightarrow> Inr ((assemble ps)\<lparr>policyHash := d\<rparr>)))"

subsection \<open>Evaluation\<close>

record RetrievedContextForPolicy =
  ctx_tenantId :: jstr
  ctx_digest :: jstr
  ctx_taint :: "RetrievalTaint list"

record MemoryWriteForPolicy =
  mw_tier :: PolicyMemoryTier
  mw_classificationTags :: "jstr list"

text \<open>The identity of an evaluation context is carried but not read by the evaluator.\<close>

record PolicyEvaluationContext =
  eval_phase :: EnforcementPhase
  requestText :: "jstr option"
  outputText :: "jstr option"
  riskTags :: "jstr list option"
  retrievedContext :: "RetrievedContextForPolicy list option"
  memoryWrite :: "MemoryWriteForPolicy option"
  consentState :: "ConsentState option"
  ctx_bodyDeclaredTenant :: "bool option"

record PolicyDecision =
  decision_phase :: EnforcementPhase
  decision :: DecisionKind
  decision_policyVersion :: jstr
  decision_policyHash :: jstr
  matchedRuleIds :: "jstr list"
  matchedLayers :: "jstr list"
  actionTaken :: "jstr list"
  riskScore :: jnum
  reasons :: "jstr list"

definition or_default :: "'a \<Rightarrow> 'a option \<Rightarrow> 'a" where
  "or_default d x = (case x of None \<Rightarrow> d | Some v \<Rightarrow> v)"

definition includesText :: "(jstr \<Rightarrow> jstr) \<Rightarrow> jstr option \<Rightarrow> jstr list option \<Rightarrow> bool" where
  "includesText lower haystack needles =
     (case needles of
        None \<Rightarrow> True
      | Some ns \<Rightarrow> ns = [] \<or> list_ex (\<lambda>n. js_includes (lower (or_default [] haystack)) (lower n)) ns)"

definition intersects :: "'a list option \<Rightarrow> 'a list option \<Rightarrow> bool" where
  "intersects left right =
     (case right of
        None \<Rightarrow> True
      | Some rs \<Rightarrow> rs = [] \<or> list_ex (\<lambda>r. r \<in> set (or_default [] left)) rs)"

definition hasUnknownRisk :: "PolicyEvaluationContext \<Rightarrow> bool" where
  "hasUnknownRisk c \<longleftrightarrow>
     list_ex (\<lambda>t. t \<in> set [js ''unknown'', js ''unknown_risk'', js ''unclassified'']) (or_default [] (riskTags c))"

definition matchesRule :: "(jstr \<Rightarrow> jstr) \<Rightarrow> CompiledPolicyRule \<Rightarrow> PolicyEvaluationContext \<Rightarrow> bool" where
  "matchesRule lower r c =
     (let m = rule_match r in
      if rule_phase r \<noteq> eval_phase c then False
      else if \<not> includesText lower (requestText c) (textContainsAny m) then False
      else if \<not> includesText lower (outputText c) (outputContainsAny m) then False
      else if \<not> intersects (riskTags c) (riskTagsAny m) then False
      else if \<not> intersects (map_option mw_classificationTags (memoryWrite c)) (memoryClassificationAny m) then False
      else if memoryTierAny m \<noteq> None \<and> memoryWrite c = None then False
      else if (case memoryTierAny m of None \<Rightarrow> False
               | Some ts \<Rightarrow> or_default KAPPA (map_option mw_tier (memoryWrite c)) \<notin> set ts) then False
      else if (case consentStateAny m of None \<Rightarrow> False
               | Some ss \<Rightarrow> or_default Missing (consentState c) \<notin> set ss) then False
      else if requiresConsent m = Some True \<and> consentState c = Some Granted then False
      else if (case retrievalTaintAny m of None \<Rightarrow> False
               | Some ts \<Rightarrow> \<not> intersects (Some (concat (map ctx_taint (or_default [] (retrievedContext c))))) (Some ts))
           then False
      else if (case bodyDeclaredTenant m of None \<Rightarrow> False
               | Some b \<Rightarrow> b \<noteq> (ctx_bodyDeclaredTenant c = Some True)) then False
      else True)"

definition chooseDecision :: "CompiledPolicyRule list \<Rightarrow> DecisionKind \<Rightarrow> DecisionKind" where
  "chooseDecision matches fallback = foldl (\<lambda>current r. stricter current (rule_decision r)) fallback matches"

definition winner_le :: "CompiledPolicyRule \<Rightarrow> CompiledPolicyRule \<Rightarrow> bool" where
  "winner_le a b \<longleftrightarrow>
     (if layerPrecedence (rule_layer a) \<noteq> layerPrecedence (rule_layer b)
      then layerPrecedence (rule_layer b) < layerPrecedence (rule_layer a)
      else canonicalRuleId a \<le> canonicalRuleId b)"

definition winningRules :: "CompiledPolicyRule list \<Rightarrow> DecisionKind \<Rightarrow> CompiledPolicyRule list" where
  "winningRules matches d = sort_by winner_le (filter (\<lambda>r. rule_decision r = d) matches)"

definition num_max :: "jnum \<Rightarrow> jnum \<Rightarrow> jnum" where
  "num_max x y = (if num_less x y then y else x)"

definition matching_rules :: "(jstr \<Rightarrow> jstr) \<Rightarrow> CompiledPolicy \<Rightarrow> PolicyEvaluationContext \<Rightarrow> CompiledPolicyRule list" where
  "matching_rules lower p c = filter (\<lambda>r. matchesRule lower r c) (compiled_rules p)"

definition fallback_decision :: "(jstr \<Rightarrow> jstr) \<Rightarrow> CompiledPolicy \<Rightarrow> PolicyEvaluationContext \<Rightarrow> DecisionKind" where
  "fallback_decision lower p c =
     (if matching_rules lower p c \<noteq> [] then defaultDecision p
      else if hasUnknownRisk c then unknownRiskDecision p else defaultDecision p)"

definition evaluatePolicy ::
  "(jstr \<Rightarrow> jstr) \<Rightarrow> (jnum \<Rightarrow> jnum) \<Rightarrow> CompiledPolicy \<Rightarrow> PolicyEvaluationContext \<Rightarrow> PolicyDecision" where
  "evaluatePolicy lower toFixed4 p c =
     (let ms = matching_rules lower p c;
          d = chooseDecision ms (fallback_decision lower p c);
          winners = winningRules ms d;
          maxRisk = foldl (\<lambda>cur r. num_max cur (rule_riskScore r))
                      (if hasUnknownRisk c then Finite False [5] 0 else Zero False) ms
      in \<lparr>decision_phase = eval_phase c,
          decision = d,
          decision_policyVersion = policyVersion p,
          decision_policyHash = policyHash p,
          matchedRuleIds = sort_by (\<le>) (map canonicalRuleId ms),
          matchedLayers = sort_by (\<le>) (js_set (map (\<lambda>r. layer_name (rule_layer r)) ms)),
          actionTaken = sort_by (\<le>) (js_set (concat (map rule_actionTaken ms))),
          riskScore = toFixed4 maxRisk,
          reasons = (if winners \<noteq> [] then map (\<lambda>r. or_default (canonicalRuleId r) (rule_description r)) winners
                     else [if hasUnknownRisk c then js ''unknown risk default'' else js ''policy default''])\<rparr>)"

subsection \<open>The built-in policy and the in-memory repository\<close>

definition no_match :: PolicyRuleMatch where
  "no_match = \<lparr>textContainsAny = None, outputContainsAny = None, riskTagsAny = None, retrievalTaintAny = None,
     memoryTierAny = None, memoryClassificationAny = None, consentStateAny = None, requiresConsent = None,
     bodyDeclaredTenant = None\<rparr>"

definition DEFAULT_GOVERNED_INVOKE_POLICY :: PolicySource where
  "DEFAULT_GOVERNED_INVOKE_POLICY =
     \<lparr>policyId = js ''governed-invoke-default'',
      policy_version = js ''1.0.0'',
      policy_layer = Default,
      source_defaultDecision = ALLOW,
      source_unknownRiskDecision = REQUIRE_CONSENT,
      source_rules =
       [\<lparr>rule_id = js ''private-memory-extraction'',
         rule_description = Some (js ''Refuse direct attempts to extract private memory.''),
         rule_phase = Pre_model, rule_decision = REFUSE, rule_riskScore = Finite False [9, 5] 0,
         rule_actionTaken = [js ''block_model_invocation''],
         rule_match = no_match\<lparr>textContainsAny := Some [js ''extract private memory'', js ''reveal private memory'']\<rparr>\<rparr>,
        \<lparr>rule_id = js ''cross-tenant-retrieval'',
         rule_description = Some (js ''Refuse model invocation when cross-tenant retrieval contamination is detected.''),
         rule_phase = Pre_model, rule_decision = REFUSE, rule_riskScore = num_one,
         rule_actionTaken = [js ''block_model_invocation'', js ''quarantine_retrieval''],
         rule_match = no_match\<lparr>riskTagsAny := Some [js ''retrieval_cross_tenant'']\<rparr>\<rparr>,
        \<lparr>rule_id = js ''untrusted-retrieval-instruction'',
         rule_description = Some (js ''Escalate retrieved content that appears to contain instruction-hijacking text.''),
         rule_phase = Pre_model, rule_decision = ESCALATE, rule_riskScore = Finite False [9] 0,
         rule_actionTaken = [js ''block_model_invocation'', js ''quarantine_retrieval''],
         rule_match = no_match\<lparr>riskTagsAny := Some [js ''retrieval_untrusted_instruction'']\<rparr>\<rparr>,
        \<lparr>rule_id = js ''post-model-pii-redaction'',
         rule_description = Some (js ''Redact obvious private identifiers or credential-like material in model output.''),
         rule_phase = Post_model, rule_decision = REDACT, rule_riskScore = Finite False [7] 0,
         rule_actionTaken = [js ''redact_output''],
         rule_match = no_match\<lparr>outputContainsAny := Some [js ''email:'', js ''password'', js ''secret'', js ''api key'']\<rparr>\<rparr>,
        \<lparr>rule_id = js ''restricted-memory-consent'',
         rule_description = Some (js ''Restricted memory requires explicit consent.''),
         rule_phase = Memory_write, rule_decision = REQUIRE_CONSENT, rule_riskScore = Finite False [8] 0,
         rule_actionTaken = [js ''request_explicit_consent''],
         rule_match = no_match\<lparr>memoryTierAny := Some [RESTRICTED], requiresConsent := Some True\<rparr>\<rparr>,
        \<lparr>rule_id = js ''sensitive-memory-suppression'',
         rule_description = Some (js ''Suppress credential-like or sensitive memory writes.''),
         rule_phase = Memory_write, rule_decision = MEMORY_SUPPRESS, rule_riskScore = Finite False [9] 0,
         rule_actionTaken = [js ''drop_memory_write''],
         rule_match = no_match\<lparr>memoryClassificationAny := Some [js ''credential'', js ''secret'', js ''sensitive'']\<rparr>\<rparr>]\<rparr>"

record InMemoryPolicyRepository =
  tenantPolicies :: "(jstr \<times> PolicySource list) list"
  userPolicies :: "(jstr \<times> PolicySource list) list"
  repo_defaultPolicy :: PolicySource
  allowDefaultPolicy :: bool

datatype repository_error = IdentityRequired | NoActivePolicy

definition tenantKey :: "jstr \<Rightarrow> jstr" where
  "tenantKey tenantId = js ''tenant:'' @ tenantId"

definition userKey :: "jstr \<Rightarrow> jstr \<Rightarrow> jstr" where
  "userKey tenantId userId = js ''tenant:'' @ tenantId @ js '':user:'' @ userId"

definition putTenantPolicies ::
  "jstr \<Rightarrow> PolicySource list \<Rightarrow> InMemoryPolicyRepository \<Rightarrow> InMemoryPolicyRepository" where
  "putTenantPolicies tenantId ps repo =
     repo\<lparr>tenantPolicies := AList.update (tenantKey tenantId) ps (tenantPolicies repo)\<rparr>"

definition putUserPolicies ::
  "jstr \<Rightarrow> jstr \<Rightarrow> PolicySource list \<Rightarrow> InMemoryPolicyRepository \<Rightarrow> InMemoryPolicyRepository" where
  "putUserPolicies tenantId userId ps repo =
     repo\<lparr>userPolicies := AList.update (userKey tenantId userId) ps (userPolicies repo)\<rparr>"

definition newPolicyRepository ::
  "PolicySource option \<Rightarrow> (jstr \<times> PolicySource list) list option \<Rightarrow> bool option \<Rightarrow> InMemoryPolicyRepository" where
  "newPolicyRepository defaultPol byTenant allow =
     fold (\<lambda>(t, ps) repo. putTenantPolicies t ps repo) (or_default [] byTenant)
       \<lparr>tenantPolicies = [], userPolicies = [],
        repo_defaultPolicy = or_default DEFAULT_GOVERNED_INVOKE_POLICY defaultPol,
        allowDefaultPolicy = or_default True allow\<rparr>"

definition loadPolicies ::
  "jstr \<Rightarrow> jstr \<Rightarrow> InMemoryPolicyRepository \<Rightarrow> repository_error + PolicySource list" where
  "loadPolicies tenantId userId repo =
     (if tenantId = [] \<or> userId = [] then Inl IdentityRequired
      else
        let ps = or_default [] (map_of (tenantPolicies repo) (tenantKey tenantId)) @
                 or_default [] (map_of (userPolicies repo) (userKey tenantId userId))
        in if ps = [] \<and> \<not> allowDefaultPolicy repo then Inl NoActivePolicy
           else Inr (if ps \<noteq> [] then ps else [repo_defaultPolicy repo]))"

subsection \<open>The decision is the most restrictive one\<close>

lemma decisionRank_inject: "decisionRank a = decisionRank b \<Longrightarrow> a = b"
  by (cases a; cases b) auto

interpretation dec: ranked_chain decisionRank stricter
proof
  show "a = b" if "decisionRank a = decisionRank b" for a b
    using that by (rule decisionRank_inject)
  show "decisionRank (stricter a b) = max (decisionRank a) (decisionRank b)" for a b
    by (simp add: stricter_def compareDecisionRestrictiveness_def)
qed

lemma chooseDecision_fold: "chooseDecision ms d = foldl stricter d (map rule_decision ms)"
  by (simp add: chooseDecision_def foldl_map)

lemma mostRestrictive_ge: "d \<in> set ds \<Longrightarrow> decisionRank d \<le> decisionRank (mostRestrictiveDecision ds)"
  using dec.foldl_pick_ge by (cases ds) (auto simp: mostRestrictiveDecision_def)

lemma mostRestrictive_in: "ds \<noteq> [] \<Longrightarrow> mostRestrictiveDecision ds \<in> set ds"
  using dec.foldl_pick_in by (cases ds) (auto simp: mostRestrictiveDecision_def)

lemma evaluatePolicy_sel [simp]:
  "decision (evaluatePolicy lower f p c) = chooseDecision (matching_rules lower p c) (fallback_decision lower p c)"
  by (simp add: evaluatePolicy_def Let_def)

text \<open>
  Claim C33. The decision of \<open>evaluatePolicy\<close> is the unique most restrictive one among the fallback
  of the policy and the decisions of the matching rules: it is one of them, and it ranks at least
  as high as each of them, whatever the order of the rules.
\<close>

theorem decision_is_most_restrictive:
  "decision (evaluatePolicy lower toFixed4 p c) = d \<longleftrightarrow>
     d \<in> insert (fallback_decision lower p c) (rule_decision ` set (matching_rules lower p c)) \<and>
     (\<forall>e\<in>insert (fallback_decision lower p c) (rule_decision ` set (matching_rules lower p c)).
        decisionAtLeastAsRestrictiveAs d e)"
proof -
  let ?ms = "map rule_decision (matching_rules lower p c)" and ?f = "fallback_decision lower p c"
  have ge: "decisionRank e \<le> decisionRank (foldl stricter ?f ?ms)" if "e \<in> insert ?f (set ?ms)" for e
    using that by (rule dec.foldl_pick_ge)
  have mem: "foldl stricter ?f ?ms \<in> insert ?f (set ?ms)" by (rule dec.foldl_pick_in)
  have "foldl stricter ?f ?ms = d" if "d \<in> insert ?f (set ?ms)" "\<forall>e\<in>insert ?f (set ?ms). decisionRank e \<le> decisionRank d"
    using that by (intro dec.foldl_pick_unique) auto
  then show ?thesis
    using ge mem
    by (auto simp: chooseDecision_fold decisionAtLeastAsRestrictiveAs_def compareDecisionRestrictiveness_def)
qed

definition sample_context :: PolicyEvaluationContext where
  "sample_context = \<lparr>eval_phase = Pre_model, requestText = Some (js ''hello''), outputText = None,
     riskTags = Some [js ''t''], retrievedContext = None, memoryWrite = None,
     consentState = None, ctx_bodyDeclaredTenant = None\<rparr>"

definition sample_rule :: "string \<Rightarrow> DecisionKind \<Rightarrow> PolicyRule" where
  "sample_rule n d = \<lparr>rule_id = js n, rule_description = None, rule_phase = Pre_model, rule_decision = d,
     rule_riskScore = Zero False, rule_actionTaken = [], rule_match = no_match\<lparr>riskTagsAny := Some [js ''t'']\<rparr>\<rparr>"

definition sample_source :: "string \<Rightarrow> DecisionKind \<Rightarrow> PolicySource" where
  "sample_source n d = \<lparr>policyId = js n, policy_version = js ''1'', policy_layer = Organization,
     source_defaultDecision = MODIFY, source_unknownRiskDecision = d, source_rules = [sample_rule ''r1'' d, sample_rule ''r2'' REDACT]\<rparr>"

theorem decision_is_most_restrictive_witness:
  "decision (evaluatePolicy id id (assemble [sample_source ''ab'' REFUSE]) sample_context) = REFUSE"
proof -
  have "map rule_decision (matching_rules id (assemble [sample_source ''ab'' REFUSE]) sample_context) = [REFUSE, REDACT]"
    by code_simp
  then have m: "rule_decision ` set (matching_rules id (assemble [sample_source ''ab'' REFUSE]) sample_context) = {REFUSE, REDACT}"
    by (metis list.set(1) list.simps(15) set_map)
  have f: "fallback_decision id (assemble [sample_source ''ab'' REFUSE]) sample_context = MODIFY"
    by code_simp
  show ?thesis
    unfolding decision_is_most_restrictive m f
    by (simp add: decisionAtLeastAsRestrictiveAs_def compareDecisionRestrictiveness_def)
qed

subsection \<open>Compilation does not depend on the order of the sources\<close>

lemma sequence_validate:
  "sequence (map validatePolicySource ps) =
     (if \<forall>p\<in>set ps. validatePolicySource p = Inr p then Inr ps else Inl InvalidPolicySource)"
proof (induction ps)
  case (Cons p ps)
  have "validatePolicySource p = Inr p \<or> validatePolicySource p = Inl InvalidPolicySource"
    by (simp add: validatePolicySource_def)
  with Cons show ?case by (elim disjE) auto
qed simp

text \<open>
  The compiled policy, its hash included, does not depend on the order in which the sources
  are given, as long as no two of them share their sort key.
\<close>

theorem compile_order_irrelevant:
  assumes "set ps = set qs" and "distinct (map sourceSortKey ps)" and "distinct (map sourceSortKey qs)"
  shows "compilePolicySet h ps = compilePolicySet h qs"
proof -
  have "sort_sources ps = sort_sources qs"
    unfolding sort_sources_def by (rule sort_by_key_unique) (use assms in auto)
  then show ?thesis using assms(1) by (simp add: compilePolicySet_def sequence_validate)
qed

theorem compile_order_irrelevant_witness:
  "compilePolicySet sample_digest [sample_source ''cd'' REFUSE, sample_source ''ab'' REDACT] =
     compilePolicySet sample_digest [sample_source ''ab'' REDACT, sample_source ''cd'' REFUSE]"
proof -
  have "sourceSortKey (sample_source ''cd'' REFUSE) \<noteq> sourceSortKey (sample_source ''ab'' REDACT)"
    by code_simp
  then show ?thesis by (intro compile_order_irrelevant) auto
qed

subsection \<open>Adding a source\<close>

lemma set_sort_sources [simp]: "set (sort_sources ps) = set ps"
  by (simp add: sort_sources_def)

lemma compiled_shape:
  assumes "compilePolicySet h ps = Inr p"
  obtains d where "p = (assemble (sort_sources ps))\<lparr>policyHash := d\<rparr>" "ps \<noteq> []"
proof -
  have "sort_sources ps = [] \<longleftrightarrow> ps = []" by (simp add: sort_sources_def)
  then show thesis
    using assms that by (auto simp: compilePolicySet_def sequence_validate Let_def split: if_splits sum.splits)
qed

lemma compiled_parts:
  assumes "compilePolicySet h ps = Inr p"
  shows "set (compiled_rules p) = (\<Union>q\<in>set ps. compile_rule q ` set (source_rules q))"
    and "defaultDecision p = mostRestrictiveDecision (map source_defaultDecision (sort_sources ps))"
    and "unknownRiskDecision p = mostRestrictiveDecision (map source_unknownRiskDecision (sort_sources ps))"
    and "ps \<noteq> []"
  by (rule compiled_shape [OF assms], simp add: assemble_def compile_rules_def)+

lemma distinct_opt_entry:
  "k \<notin> fst ` set es \<Longrightarrow> distinct (map fst es) \<Longrightarrow> distinct (map fst (opt_entry k f x @ es))"
  "j \<noteq> k \<Longrightarrow> j \<notin> fst ` set es \<Longrightarrow> j \<notin> fst ` set (opt_entry k f x @ es)"
  by (auto simp: opt_entry_def split: option.splits)

lemma distinct_opt_entry_last:
  "distinct (map fst (opt_entry k f x))" "j \<noteq> k \<Longrightarrow> j \<notin> fst ` set (opt_entry k f x)"
  by (auto simp: opt_entry_def split: option.splits)

lemma json_shaped_opt: "(\<And>v. json_shaped (f v)) \<Longrightarrow> list_all (\<lambda>(k, v). json_shaped v) (opt_entry k f x)"
  by (auto simp: opt_entry_def split: option.splits)

lemma json_shaped_list [simp]: "json_shaped (json_list f xs) \<longleftrightarrow> (\<forall>x\<in>set xs. json_shaped (f x))"
  by (simp add: json_list_def list_all_iff)

lemma json_shaped_match: "json_shaped (match_json m)"
  unfolding match_json_def json_shaped.simps list_all_append
  by (intro conjI distinct_opt_entry distinct_opt_entry_last json_shaped_opt) simp_all

lemma json_shaped_rule: "wf_num (rule_riskScore r) \<Longrightarrow> json_shaped (rule_json r)"
  by (simp add: rule_json_def json_shaped_match opt_entry_def split: option.splits)

lemma json_shaped_policy: "\<forall>r\<in>set (compiled_rules p). wf_num (rule_riskScore r) \<Longrightarrow> json_shaped (policy_json p)"
  by (simp add: policy_json_def json_shaped_rule)

lemma compile_succeeds:
  assumes "ps \<noteq> []" and "\<And>p. p \<in> set ps \<Longrightarrow> validatePolicySource p = Inr p"
    and "\<And>p r. p \<in> set ps \<Longrightarrow> r \<in> set (source_rules p) \<Longrightarrow> wf_num (rule_riskScore r)"
  shows "\<exists>c. compilePolicySet h ps = Inr c"
proof -
  have "wf_num (rule_riskScore r)" if "r \<in> set (compiled_rules (assemble (sort_sources ps)))" for r
    using that assms(3)
    by (auto simp: assemble_def compile_rules_def compile_rule_def PolicyRule.defs)
  then have "json_shaped (policy_json (assemble (sort_sources ps)))" by (intro json_shaped_policy) blast
  then show ?thesis
    using assms(1,2) canonicalize_norm [of "policy_json (assemble (sort_sources ps))"]
    by (simp add: compilePolicySet_def sequence_validate canonicalPolicyHash_def canonicalSha256Hex_def Let_def
        sort_sources_def)
qed

lemma most_restrictive_mono:
  assumes "ds \<noteq> []" and "set ds \<subseteq> set es"
  shows "decisionRank (mostRestrictiveDecision ds) \<le> decisionRank (mostRestrictiveDecision es)"
  using mostRestrictive_in [OF assms(1)] assms(2) mostRestrictive_ge by blast

text \<open>
  Adding policy sources never relaxes a decision: if more sources are compiled, the decision
  for a context is at least as restrictive, provided the context carries no unknown-risk tag or some
  rule of the smaller set matched already.
\<close>

theorem adding_sources_never_relaxes:
  assumes "compilePolicySet h ps = Inr p" and "compilePolicySet h qs = Inr q" and "set ps \<subseteq> set qs"
    and "\<not> hasUnknownRisk c \<or> matching_rules lower p c \<noteq> []"
  shows "decisionAtLeastAsRestrictiveAs (decision (evaluatePolicy lower toFixed4 q c))
           (decision (evaluatePolicy lower toFixed4 p c))"
proof -
  note P = compiled_parts [OF assms(1)] and Q = compiled_parts [OF assms(2)]
  have sub: "set (matching_rules lower p c) \<subseteq> set (matching_rules lower q c)"
    using P(1) Q(1) assms(3) by (auto simp: matching_rules_def)
  have "sort_sources ps \<noteq> []" using P(4) set_sort_sources [of ps] by (metis set_empty)
  then have def: "decisionRank (defaultDecision p) \<le> decisionRank (defaultDecision q)"
    unfolding P(2) Q(2) using assms(3) by (intro most_restrictive_mono) auto
  have fb: "fallback_decision lower p c = defaultDecision p" "fallback_decision lower q c = defaultDecision q"
    using assms(4) sub by (auto simp: fallback_decision_def)
  let ?f = "\<lambda>x. foldl stricter (fallback_decision lower x c) (map rule_decision (matching_rules lower x c))"
  have "?f p \<in> insert (defaultDecision p) (rule_decision ` set (matching_rules lower p c))"
    using dec.foldl_pick_in [of "fallback_decision lower p c" "map rule_decision (matching_rules lower p c)"] fb by simp
  then have "decisionRank (?f p) \<le> decisionRank (?f q)"
    using def sub fb dec.foldl_pick_ge [of _ "fallback_decision lower q c" "map rule_decision (matching_rules lower q c)"]
    by fastforce
  then show ?thesis
    by (simp add: chooseDecision_fold decisionAtLeastAsRestrictiveAs_def compareDecisionRestrictiveness_def)
qed

theorem adding_sources_never_relaxes_witness:
  "\<exists>p q. compilePolicySet sample_digest [sample_source ''ab'' REDACT] = Inr p
    \<and> compilePolicySet sample_digest [sample_source ''ab'' REDACT, sample_source ''cd'' REFUSE] = Inr q
    \<and> decisionAtLeastAsRestrictiveAs (decision (evaluatePolicy id id q sample_context))
         (decision (evaluatePolicy id id p sample_context))"
proof -
  have c: "\<not> hasUnknownRisk sample_context" by code_simp
  have v: "validatePolicySource (sample_source ''ab'' REDACT) = Inr (sample_source ''ab'' REDACT)"
    "validatePolicySource (sample_source ''cd'' REFUSE) = Inr (sample_source ''cd'' REFUSE)"
    by code_simp+
  have w: "wf_num (rule_riskScore r)" if "r \<in> set (source_rules (sample_source n d))" for r n d
    using that by (auto simp: sample_source_def sample_rule_def)
  obtain p where p: "compilePolicySet sample_digest [sample_source ''ab'' REDACT] = Inr p"
    using compile_succeeds [of "[sample_source ''ab'' REDACT]" sample_digest] v w by auto
  obtain q where q: "compilePolicySet sample_digest [sample_source ''ab'' REDACT, sample_source ''cd'' REFUSE] = Inr q"
    using compile_succeeds [of "[sample_source ''ab'' REDACT, sample_source ''cd'' REFUSE]" sample_digest] v w by auto
  show ?thesis using adding_sources_never_relaxes [OF p q, of sample_context id id] p q c by auto
qed

subsection \<open>Keys of the in-memory repository\<close>

text \<open>
  The user key of \<open>InMemoryPolicyRepository\<close> is not injective: policies stored for user
  \<open>b:user:c\<close> of tenant \<open>a\<close> are loaded for user \<open>c\<close> of the different tenant \<open>a:user:b\<close>.
\<close>

theorem user_policies_leak_across_tenants:
  "loadPolicies (js ''a:user:b'') (js ''c'')
     (putUserPolicies (js ''a'') (js ''b:user:c'') (p # ps) (newPolicyRepository None None None)) = Inr (p # ps)"
  by (simp add: loadPolicies_def putUserPolicies_def newPolicyRepository_def userKey_def or_default_def Let_def
      flip: js_append)

text \<open>
  Apart from that, the repository returns what was stored: after \<open>putTenantPolicies\<close> a load
  for that tenant starts with the stored sources, loads for other tenants are unchanged when no
  user key is involved, and an identity with an empty part is always refused.
\<close>

theorem tenant_policies_are_isolated:
  assumes "t \<noteq> []" and "u \<noteq> []" and "t' \<noteq> t" and "ps \<noteq> []"
  shows "loadPolicies t u (putTenantPolicies t ps repo) =
      Inr (ps @ or_default [] (map_of (userPolicies repo) (userKey t u)))
    \<and> loadPolicies t' u (putTenantPolicies t ps repo) = loadPolicies t' u repo
    \<and> loadPolicies [] u repo = Inl IdentityRequired"
  using assms by (simp add: loadPolicies_def putTenantPolicies_def tenantKey_def or_default_def Let_def update_conv')

theorem tenant_policies_are_isolated_witness:
  "loadPolicies (js ''t'') (js ''u'') (putTenantPolicies (js ''t'') [sample_source ''ab'' REDACT]
     (newPolicyRepository None None None)) = Inr [sample_source ''ab'' REDACT]"
  using tenant_policies_are_isolated [of "js ''t''" "js ''u''" "js ''v''" "[sample_source ''ab'' REDACT]"
      "newPolicyRepository None None None"]
  by (simp add: newPolicyRepository_def or_default_def)

end
