(* ===== verification/Strict_Admission.thy ===== *)
theory Strict_Admission
  imports Canonical_JSON
begin

text \<open>
  The text-level JSON guard, \<open>packages/receipt-schema/src/strictJsonAdmission.ts\<close>: a scanner that
  runs before \<open>JSON.parse\<close> and reports repeated object keys, integers above
  \<open>Number.MAX_SAFE_INTEGER\<close> and literals with more than 17 significant digits.

  The scan state holds the text from the current index on (\<open>rest\<close>), the index (\<open>pos\<close>) and the
  violations found so far. The mutually recursive readers carry a fuel; the entry point gives
  \<open>2 * length text + 2\<close>, and it is proved that this is never used up. \<open>JSON.parse\<close> is a parameter
  of \<open>parseStrictJson\<close>. The prose of a violation is not modelled; its rule, offset and path are.
\<close>

datatype StrictAdmissionRuleId = Duplicate_object_key | Unsafe_integer_magnitude | Excess_significant_digits

definition MAX_SIGNIFICANT_DIGITS :: nat where
  "MAX_SIGNIFICANT_DIGITS = 17"

record StrictAdmissionViolation =
  rule :: StrictAdmissionRuleId
  offset :: nat
  path :: jstr

datatype scan_message =
    ExpectedString | MalformedUnicodeEscape | UnknownEscape | UnterminatedString
  | ExpectedNumber | ExpectedColon | ExpectedCommaOrBrace | ExpectedCommaOrBracket | TrailingContent

datatype scan_error = SyntaxErr scan_message nat | OutOfFuel

record ScanState =
  rest :: jstr
  pos :: nat
  violations :: "StrictAdmissionViolation list"

subsection \<open>Characters and strings\<close>

definition isWhitespace :: "code_unit \<Rightarrow> bool" where
  "isWhitespace c \<longleftrightarrow> c = 32 \<or> c = 9 \<or> c = 10 \<or> c = 13"

definition advance :: "nat \<Rightarrow> ScanState \<Rightarrow> ScanState" where
  "advance n st = st\<lparr>rest := drop n (rest st), pos := pos st + n\<rparr>"

definition peek :: "ScanState \<Rightarrow> code_unit option" where
  "peek st = (case rest st of [] \<Rightarrow> None | c # _ \<Rightarrow> Some c)"

definition skipWhitespace :: "ScanState \<Rightarrow> ScanState" where
  "skipWhitespace st = advance (length (takeWhile isWhitespace (rest st))) st"

definition hex_value :: "code_unit \<Rightarrow> code_unit option" where
  "hex_value c =
     (if is_digit c then Some (c - 48)
      else if 97 \<le> c \<and> c \<le> 102 then Some (c - 87)
      else if 65 \<le> c \<and> c \<le> 70 then Some (c - 55)
      else None)"

text \<open>\<open>/^[0-9a-fA-F]{4}$/\<close> and \<open>parseInt(hex, 16)\<close>.\<close>

definition hex4_value :: "jstr \<Rightarrow> code_unit option" where
  "hex4_value s =
     (case map hex_value s of
        [Some a, Some b, Some c, Some d] \<Rightarrow> Some (((a * 16 + b) * 16 + c) * 16 + d)
      | _ \<Rightarrow> None)"

definition simple_escape :: "code_unit \<Rightarrow> code_unit option" where
  "simple_escape e =
     (if e = 34 then Some 34
      else if e = 92 then Some 92
      else if e = 47 then Some 47
      else if e = 98 then Some 8
      else if e = 102 then Some 12
      else if e = 110 then Some 10
      else if e = 114 then Some 13
      else if e = 116 then Some 9
      else None)"

text \<open>The loop of \<open>readString\<close> after the opening quote.\<close>

function readStringLoop :: "jstr \<Rightarrow> nat \<Rightarrow> jstr \<Rightarrow> scan_error + (jstr \<times> jstr \<times> nat)" where
  "readStringLoop s i decoded =
     (case s of
        [] \<Rightarrow> Inl (SyntaxErr UnterminatedString i)
      | c # s1 \<Rightarrow>
          if c = 34 then Inr (decoded, s1, i + 1)
          else if c = 92 then
            (case s1 of
               [] \<Rightarrow> Inl (SyntaxErr UnknownEscape (i + 2))
             | e # s2 \<Rightarrow>
                 (case simple_escape e of
                    Some u \<Rightarrow> readStringLoop s2 (i + 2) (decoded @ [u])
                  | None \<Rightarrow>
                      if e = 117 then
                        (case hex4_value (take 4 s2) of
                           None \<Rightarrow> Inl (SyntaxErr MalformedUnicodeEscape (i + 2))
                         | Some u \<Rightarrow> readStringLoop (drop 4 s2) (i + 6) (decoded @ [u]))
                      else Inl (SyntaxErr UnknownEscape (i + 2))))
          else readStringLoop s1 (i + 1) (decoded @ [c]))"
  by pat_completeness auto
termination
  by (relation "measure (\<lambda>(s, i, d). length s)") auto

declare readStringLoop.simps [simp del]

definition readString :: "ScanState \<Rightarrow> scan_error + (jstr \<times> ScanState)" where
  "readString st =
     (if peek st \<noteq> Some 34 then Inl (SyntaxErr ExpectedString (pos st))
      else
        (case readStringLoop (tl (rest st)) (pos st + 1) [] of
           Inl e \<Rightarrow> Inl e
         | Inr (decoded, r, i) \<Rightarrow> Inr (decoded, st\<lparr>rest := r, pos := i\<rparr>)))"

subsection \<open>Numbers\<close>

definition drop_sign :: "jstr \<Rightarrow> jstr" where
  "drop_sign s = (case s of c # r \<Rightarrow> if c = 43 \<or> c = 45 then r else s | [] \<Rightarrow> [])"

definition countSignificantDigits :: "jstr \<Rightarrow> nat" where
  "countSignificantDigits literal =
     length (dropWhile (\<lambda>c. c = 48)
       (remove1 46 (takeWhile (\<lambda>c. c \<noteq> 101 \<and> c \<noteq> 69) (drop_sign literal))))"

definition digit_value :: "code_unit \<Rightarrow> nat" where
  "digit_value c = unat (c - 48)"

text \<open>
  \<open>Number(literal)\<close> for a literal without fraction and exponent. It is \<open>NaN\<close> without digits and
  rounds to \<open>Infinity\<close> from \<open>2^1024 - 2^970\<close> on. Rounding moves no integer across
  \<open>MAX_SAFE_INTEGER\<close>, so the comparison can be made on the exact value.
\<close>

definition unsafe_integer_literal :: "jstr \<Rightarrow> bool" where
  "unsafe_integer_literal literal \<longleftrightarrow>
     (let ds = drop_sign literal; v = digits_value (map digit_value ds) in
      ds \<noteq> [] \<and> v < 2 ^ 1024 - 2 ^ 970 \<and> int v > max_safe_integer)"

definition skipDigits :: "ScanState \<Rightarrow> ScanState" where
  "skipDigits st = advance (length (takeWhile is_digit (rest st))) st"

definition skipSign :: "ScanState \<Rightarrow> ScanState" where
  "skipSign st = (if peek st \<in> {Some 45, Some 43} then advance 1 st else st)"

definition scanNumber :: "ScanState \<Rightarrow> bool \<times> ScanState" where
  "scanNumber st =
     (let s1 = skipDigits (skipSign st);
          frac = (peek s1 = Some 46);
          s2 = (if frac then skipDigits (advance 1 s1) else s1);
          expo = (peek s2 \<in> {Some 101, Some 69});
          s3 = (if expo then skipDigits (skipSign (advance 1 s2)) else s2)
      in (\<not> frac \<and> \<not> expo, s3))"

definition numberViolations :: "bool \<Rightarrow> jstr \<Rightarrow> nat \<Rightarrow> jstr \<Rightarrow> StrictAdmissionViolation list" where
  "numberViolations isInteger literal start p =
     (if isInteger \<and> unsafe_integer_literal literal
      then [\<lparr>rule = Unsafe_integer_magnitude, offset = start, path = p\<rparr>] else []) @
     (if countSignificantDigits literal > MAX_SIGNIFICANT_DIGITS
      then [\<lparr>rule = Excess_significant_digits, offset = start, path = p\<rparr>] else [])"

definition readNumber :: "ScanState \<Rightarrow> jstr \<Rightarrow> scan_error + ScanState" where
  "readNumber st p =
     (let (isInteger, st') = scanNumber st;
          literal = take (pos st' - pos st) (rest st)
      in if literal = [] then Inl (SyntaxErr ExpectedNumber (pos st'))
         else Inr (st'\<lparr>violations := violations st' @ numberViolations isInteger literal (pos st) p\<rparr>))"

subsection \<open>Values\<close>

definition add_key_violation :: "jstr set \<Rightarrow> jstr \<Rightarrow> nat \<Rightarrow> jstr \<Rightarrow> ScanState \<Rightarrow> ScanState" where
  "add_key_violation seen key keyOffset p st =
     (if key \<in> seen
      then st\<lparr>violations := violations st @
             [\<lparr>rule = Duplicate_object_key, offset = keyOffset, path = p @ [47] @ key\<rparr>]\<rparr>
      else st)"

fun readValue :: "nat \<Rightarrow> ScanState \<Rightarrow> jstr \<Rightarrow> scan_error + ScanState"
  and readMembers :: "nat \<Rightarrow> jstr set \<Rightarrow> ScanState \<Rightarrow> jstr \<Rightarrow> scan_error + ScanState"
  and readElements :: "nat \<Rightarrow> nat \<Rightarrow> ScanState \<Rightarrow> jstr \<Rightarrow> scan_error + ScanState" where
  "readValue 0 state p = Inl OutOfFuel"
| "readValue (Suc fuel) state p =
     (let st = skipWhitespace state in
      if peek st = Some 123 then
        (let st1 = skipWhitespace (advance 1 st) in
         if peek st1 = Some 125 then Inr (advance 1 st1) else readMembers fuel {} st1 p)
      else if peek st = Some 91 then
        (let st1 = skipWhitespace (advance 1 st) in
         if peek st1 = Some 93 then Inr (advance 1 st1) else readElements fuel 0 st1 p)
      else if peek st = Some 34 then
        (case readString st of Inl e \<Rightarrow> Inl e | Inr (_, st1) \<Rightarrow> Inr st1)
      else if startsWith (rest st) (js ''true'') then Inr (advance 4 st)
      else if startsWith (rest st) (js ''false'') then Inr (advance 5 st)
      else if startsWith (rest st) (js ''null'') then Inr (advance 4 st)
      else readNumber st p)"
| "readMembers 0 seen state p = Inl OutOfFuel"
| "readMembers (Suc fuel) seen state p =
     (let st = skipWhitespace state in
      case readString st of
        Inl e \<Rightarrow> Inl e
      | Inr (key, st1) \<Rightarrow>
          let st2 = skipWhitespace (add_key_violation seen key (pos st) p st1) in
          if peek st2 \<noteq> Some 58 then Inl (SyntaxErr ExpectedColon (pos st2))
          else
            (case readValue fuel (advance 1 st2) (p @ [47] @ key) of
               Inl e \<Rightarrow> Inl e
             | Inr st3 \<Rightarrow>
                 let st4 = skipWhitespace st3 in
                 if peek st4 = Some 44 then readMembers fuel (insert key seen) (advance 1 st4) p
                 else if peek st4 = Some 125 then Inr (advance 1 st4)
                 else Inl (SyntaxErr ExpectedCommaOrBrace (pos st4))))"
| "readElements 0 arrayIndex state p = Inl OutOfFuel"
| "readElements (Suc fuel) arrayIndex state p =
     (case readValue fuel state (p @ [47] @ nat_str arrayIndex) of
        Inl e \<Rightarrow> Inl e
      | Inr st1 \<Rightarrow>
          let st2 = skipWhitespace st1 in
          if peek st2 = Some 44 then readElements fuel (arrayIndex + 1) (advance 1 st2) p
          else if peek st2 = Some 93 then Inr (advance 1 st2)
          else Inl (SyntaxErr ExpectedCommaOrBracket (pos st2)))"

definition findStrictAdmissionViolations :: "jstr \<Rightarrow> scan_error + StrictAdmissionViolation list" where
  "findStrictAdmissionViolations text =
     (case readValue (2 * length text + 2) \<lparr>rest = text, pos = 0, violations = []\<rparr> [] of
        Inl e \<Rightarrow> Inl e
      | Inr st1 \<Rightarrow>
          let st = skipWhitespace st1 in
          if rest st \<noteq> [] then Inl (SyntaxErr TrailingContent (pos st)) else Inr (violations st))"

datatype 'e strict_error = ScanFailed scan_error | Rejected "StrictAdmissionViolation list" | ParseFailed 'e

definition parseStrictJson :: "(jstr \<Rightarrow> 'e + 'v) \<Rightarrow> jstr \<Rightarrow> 'e strict_error + 'v" where
  "parseStrictJson json_parse text =
     (case findStrictAdmissionViolations text of
        Inl e \<Rightarrow> Inl (ScanFailed e)
      | Inr vs \<Rightarrow>
          if 0 < length vs then Inl (Rejected vs)
          else (case json_parse text of Inl e \<Rightarrow> Inl (ParseFailed e) | Inr v \<Rightarrow> Inr v))"

definition isStrictlyAdmissible :: "jstr \<Rightarrow> bool" where
  "isStrictlyAdmissible text \<longleftrightarrow>
     (case findStrictAdmissionViolations text of Inl e \<Rightarrow> False | Inr vs \<Rightarrow> length vs = 0)"

subsection \<open>The fuel is enough\<close>

lemma advance_advance [simp]: "advance m (advance n st) = advance (n + m) st"
  by (simp add: advance_def add.commute add.assoc)

lemma advance_sel [simp]:
  "rest (advance n st) = drop n (rest st)" "pos (advance n st) = pos st + n"
  "violations (advance n st) = violations st"
  by (simp_all add: advance_def)

lemma peek_Some_length: "peek st = Some c \<Longrightarrow> 0 < length (rest st)"
  by (cases "rest st") (auto simp: peek_def)

lemma skipWhitespace_le: "length (rest (skipWhitespace st)) \<le> length (rest st)"
  by (simp add: skipWhitespace_def)

lemma readStringLoop_cases:
  "readStringLoop [] i d = Inl (SyntaxErr UnterminatedString i)"
  "readStringLoop (34 # s) i d = Inr (d, s, i + 1)"
  "c \<noteq> 34 \<Longrightarrow> c \<noteq> 92 \<Longrightarrow> readStringLoop (c # s) i d = readStringLoop s (i + 1) (d @ [c])"
  "readStringLoop [92] i d = Inl (SyntaxErr UnknownEscape (i + 2))"
  "simple_escape e = Some u \<Longrightarrow>
     readStringLoop (92 # e # s) i d = readStringLoop s (i + 2) (d @ [u])"
  "simple_escape e = None \<Longrightarrow> e \<noteq> 117 \<Longrightarrow>
     readStringLoop (92 # e # s) i d = Inl (SyntaxErr UnknownEscape (i + 2))"
  "hex4_value (take 4 s) = Some u \<Longrightarrow>
     readStringLoop (92 # 117 # s) i d = readStringLoop (drop 4 s) (i + 6) (d @ [u])"
  "hex4_value (take 4 s) = None \<Longrightarrow>
     readStringLoop (92 # 117 # s) i d = Inl (SyntaxErr MalformedUnicodeEscape (i + 2))"
  by (subst readStringLoop.simps, simp add: simple_escape_def)+

lemma readStringLoop_induct [case_names nil quote plain lone esc bad uni baduni]:
  assumes "P []" and "\<And>s. P (34 # s)"
    and "\<And>c s. c \<noteq> 34 \<Longrightarrow> c \<noteq> 92 \<Longrightarrow> P s \<Longrightarrow> P (c # s)"
    and "P [92]"
    and "\<And>e u s. simple_escape e = Some u \<Longrightarrow> P s \<Longrightarrow> P (92 # e # s)"
    and "\<And>e s. simple_escape e = None \<Longrightarrow> e \<noteq> 117 \<Longrightarrow> P (92 # e # s)"
    and "\<And>s u. hex4_value (take 4 s) = Some u \<Longrightarrow> P (drop 4 s) \<Longrightarrow> P (92 # 117 # s)"
    and "\<And>s. hex4_value (take 4 s) = None \<Longrightarrow> P (92 # 117 # s)"
  shows "P s"
proof (induction s rule: length_induct)
  case (1 s)
  then have IH: "length t < length s \<Longrightarrow> P t" for t by blast
  show ?case
  proof (cases s)
    case (Cons c t)
    consider "c = 34" | "c \<noteq> 34" "c \<noteq> 92" | "c = 92" "t = []" | e s2 where "c = 92" "t = e # s2"
      by (cases t) auto
    then show ?thesis
    proof cases
      case (4 e s2)
      have "P s2" "P (drop 4 s2)" using IH Cons 4 by auto
      then show ?thesis
        using assms(5-8) Cons 4 by (cases "simple_escape e"; cases "e = 117"; cases "hex4_value (take 4 s2)") auto
    qed (use assms(2-4) IH Cons in auto)
  qed (simp add: assms(1))
qed

lemma readStringLoop_shrinks:
  "readStringLoop s i d = Inr (d', r, i') \<Longrightarrow> length r < length s"
proof (induction s arbitrary: i d rule: readStringLoop_induct)
  case (uni s u)
  then have "length r < length (drop 4 s)" by (simp add: readStringLoop_cases)
  then show ?case by simp
qed (fastforce simp: readStringLoop_cases)+

lemma readString_shrinks: "readString st = Inr (k, st') \<Longrightarrow> length (rest st') < length (rest st)"
  by (cases "rest st")
    (auto simp: readString_def peek_def split: if_splits sum.splits dest!: readStringLoop_shrinks)

lemma scanNumber_advance: "\<exists>k. snd (scanNumber st) = advance k st"
proof -
  have d: "\<exists>k. skipDigits (advance n st) = advance k st" for n
    by (auto simp: skipDigits_def)
  have s: "\<exists>k. skipSign (advance n st) = advance k st" for n
    by (auto simp: skipSign_def)
  obtain a where a: "skipSign st = advance a st"
    using s [of 0] by (auto simp: advance_def)
  obtain b where b: "skipDigits (skipSign st) = advance b st" using d [of a] a by auto
  obtain c where c: "skipDigits (advance (b + 1) st) = advance c st" using d by blast
  obtain s2 where s2: "(if peek (advance b st) = Some 46 then skipDigits (advance 1 (advance b st))
      else advance b st) = advance s2 st"
    using c by (cases "peek (advance b st) = Some 46") auto
  obtain f g where f: "skipSign (advance (s2 + 1) st) = advance f st"
    "skipDigits (advance f st) = advance g st" using s d by metis
  show ?thesis
    using b s2 f by (auto simp: scanNumber_def Let_def)
qed

lemma readNumber_shrinks: "readNumber st p = Inr st' \<Longrightarrow> length (rest st') < length (rest st)"
proof -
  assume r: "readNumber st p = Inr st'"
  obtain b k where k: "scanNumber st = (b, advance k st)"
    using scanNumber_advance [of st] by (metis prod.collapse)
  then show ?thesis using r by (auto simp: readNumber_def split: if_splits)
qed

lemma add_key_violation_sel [simp]:
  "rest (add_key_violation seen k i p st) = rest st" "pos (add_key_violation seen k i p st) = pos st"
  by (simp_all add: add_key_violation_def)

lemma startsWith_shorter:
  "startsWith s (js w) \<Longrightarrow> length s \<le> m \<Longrightarrow> 0 < n \<Longrightarrow> n \<le> length w \<Longrightarrow> length s - n < m"
  by (auto simp: startsWith_iff)

lemma readers_shrink:
  "readValue f st p = Inr st' \<Longrightarrow> length (rest st') < length (rest st)"
  "readMembers f seen st p = Inr st' \<Longrightarrow> length (rest st') < length (rest st)"
  "readElements f i st p = Inr st' \<Longrightarrow> length (rest st') < length (rest st)"
proof (induction f st p and f seen st p and f i st p arbitrary: st' and st' and st'
    rule: readValue_readMembers_readElements.induct)
  case (2 fuel state p)
  let ?st = "skipWhitespace state" and ?st1 = "skipWhitespace (advance 1 (skipWhitespace state))"
  have le: "length (rest ?st) \<le> length (rest state)" by (rule skipWhitespace_le)
  have ws: "length (rest ?st1) \<le> length (rest ?st) - 1"
    using skipWhitespace_le [of "advance 1 ?st"] by simp
  consider (obj) "peek ?st = Some 123" | (arr) "peek ?st = Some 91" | (str) "peek ?st = Some 34"
    | (other) "peek ?st \<noteq> Some 123" "peek ?st \<noteq> Some 91" "peek ?st \<noteq> Some 34" by blast
  then show ?case
  proof cases
    case obj
    have "length (rest st') \<le> length (rest ?st1)"
    proof (cases "peek ?st1 = Some 125")
      case False
      then have "readMembers fuel {} ?st1 p = Inr st'" using obj "2.prems" by (simp add: Let_def)
      then show ?thesis using "2.IH"(1) [OF refl obj refl False] by simp
    qed (use obj "2.prems" in \<open>auto simp: Let_def\<close>)
    then show ?thesis using ws le peek_Some_length [OF obj] by linarith
  next
    case arr
    have "length (rest st') \<le> length (rest ?st1)"
    proof (cases "peek ?st1 = Some 93")
      case False
      then have "readElements fuel 0 ?st1 p = Inr st'" using arr "2.prems" by (simp add: Let_def)
      then show ?thesis using "2.IH"(2) [OF refl _ arr refl False] arr by simp
    qed (use arr "2.prems" in \<open>auto simp: Let_def\<close>)
    then show ?thesis using ws le peek_Some_length [OF arr] by linarith
  next
    case str
    then obtain k where "readString ?st = Inr (k, st')"
      using "2.prems" by (auto simp: Let_def split: sum.splits)
    then show ?thesis using readString_shrinks le by fastforce
  next
    case other
    have lits: "readValue (Suc fuel) state p =
        (if startsWith (rest ?st) (js ''true'') then Inr (advance 4 ?st)
         else if startsWith (rest ?st) (js ''false'') then Inr (advance 5 ?st)
         else if startsWith (rest ?st) (js ''null'') then Inr (advance 4 ?st)
         else readNumber ?st p)"
      using other by (simp only: readValue.simps Let_def if_False)
    consider "startsWith (rest ?st) (js ''true'')" "st' = advance 4 ?st"
      | "startsWith (rest ?st) (js ''false'')" "st' = advance 5 ?st"
      | "startsWith (rest ?st) (js ''null'')" "st' = advance 4 ?st" | "readNumber ?st p = Inr st'"
      using "2.prems" lits by (metis sum.inject(2))
    then show ?thesis
      by cases (use le startsWith_shorter [OF _ le] in \<open>force dest: readNumber_shrinks\<close>)+
  qed
next
  case (4 fuel seen state p)
  let ?st = "skipWhitespace state"
  obtain key st1 where k: "readString ?st = Inr (key, st1)"
    using "4.prems" by (auto simp: Let_def split: sum.splits)
  let ?st2 = "skipWhitespace (add_key_violation seen key (pos ?st) p st1)"
  have colon: "peek ?st2 = Some 58"
    using "4.prems" k by (cases "peek ?st2 = Some 58") (simp_all add: Let_def)
  obtain st3 where v: "readValue fuel (advance 1 ?st2) (p @ [47] @ key) = Inr st3"
    using "4.prems" k colon
    by (cases "readValue fuel (advance 1 ?st2) (p @ [47] @ key)") (simp_all add: Let_def del: readValue.simps readMembers.simps(1))
  let ?st4 = "skipWhitespace st3"
  have ch: "length (rest ?st4) < length (rest state)"
    using skipWhitespace_le [of state] readString_shrinks [OF k] "4.IH"(1) [OF refl k _ refl _ v]
      skipWhitespace_le [of "add_key_violation seen key (pos ?st) p st1"] colon skipWhitespace_le [of st3]
    by simp
  show ?case
  proof (cases "peek ?st4 = Some 44")
    case True
    then have "readMembers fuel (insert key seen) (advance 1 ?st4) p = Inr st'"
      using "4.prems" k colon v by (simp add: Let_def)
    then show ?thesis using "4.IH"(2) [OF refl k _ refl _ v refl True] colon ch by simp
  next
    case False
    then have "st' = advance 1 ?st4"
      using "4.prems" k colon v by (auto simp: Let_def split: if_splits)
    then show ?thesis using ch by simp
  qed
next
  case (6 fuel i state p)
  obtain st1 where v: "readValue fuel state (p @ [47] @ nat_str i) = Inr st1"
    using "6.prems" by (auto split: sum.splits)
  let ?st2 = "skipWhitespace st1"
  have ch: "length (rest ?st2) < length (rest state)"
    using "6.IH"(1) [OF v] skipWhitespace_le [of st1] by simp
  show ?case
  proof (cases "peek ?st2 = Some 44")
    case True
    then have "readElements fuel (i + 1) (advance 1 ?st2) p = Inr st'"
      using "6.prems" v by (simp add: Let_def)
    then show ?thesis using "6.IH"(2) [OF v refl True] ch by simp
  next
    case False
    then have "st' = advance 1 ?st2"
      using "6.prems" v by (auto simp: Let_def split: if_splits)
    then show ?thesis using ch by simp
  qed
qed auto

lemma readString_not_fuel: "readString st \<noteq> Inl OutOfFuel"
proof -
  have "readStringLoop s i d \<noteq> Inl OutOfFuel" for s i d
    by (induction s arbitrary: i d rule: readStringLoop_induct) (simp_all add: readStringLoop_cases)
  then show ?thesis by (auto simp: readString_def split: sum.splits)
qed

lemma readNumber_not_fuel: "readNumber st p \<noteq> Inl OutOfFuel"
  by (auto simp: readNumber_def split: prod.splits)

lemma readers_enough_fuel:
  "2 * length (rest st) + 1 \<le> f \<Longrightarrow> readValue f st p \<noteq> Inl OutOfFuel"
  "2 * length (rest st) + 2 \<le> f \<Longrightarrow> readMembers f seen st p \<noteq> Inl OutOfFuel"
  "2 * length (rest st) + 2 \<le> f \<Longrightarrow> readElements f i st p \<noteq> Inl OutOfFuel"
proof (induction f st p and f seen st p and f i st p rule: readValue_readMembers_readElements.induct)
  case (2 fuel state p)
  let ?st = "skipWhitespace state" and ?st1 = "skipWhitespace (advance 1 (skipWhitespace state))"
  have le: "length (rest ?st) \<le> length (rest state)" by (rule skipWhitespace_le)
  have ws: "length (rest ?st1) \<le> length (rest ?st) - 1"
    using skipWhitespace_le [of "advance 1 ?st"] by simp
  have room: "2 * length (rest ?st1) + 2 \<le> fuel" if "peek ?st = Some c" for c
    using peek_Some_length [OF that] le ws "2.prems" by linarith
  consider (obj) "peek ?st = Some 123" | (arr) "peek ?st = Some 91" | (str) "peek ?st = Some 34"
    | (other) "peek ?st \<noteq> Some 123" "peek ?st \<noteq> Some 91" "peek ?st \<noteq> Some 34" by blast
  then show ?case
  proof cases
    case obj
    then show ?thesis using "2.IH"(1) [OF refl obj refl _ room [OF obj]] by (simp add: Let_def)
  next
    case arr
    then show ?thesis using "2.IH"(2) [OF refl _ arr refl _ room [OF arr]] by (simp add: Let_def)
  next
    case str
    then show ?thesis using readString_not_fuel [of ?st] by (auto simp: Let_def split: sum.splits)
  next
    case other
    then show ?thesis using readNumber_not_fuel [of ?st p] by (simp add: Let_def)
  qed
next
  case (4 fuel seen state p)
  let ?st = "skipWhitespace state"
  show ?case
  proof (cases "readString ?st")
    case (Inl e)
    then show ?thesis using readString_not_fuel [of ?st] by (simp add: Let_def)
  next
    case (Inr ks)
    obtain key st1 where k: "readString ?st = Inr (key, st1)" using Inr by (cases ks) auto
    let ?st2 = "skipWhitespace (add_key_violation seen key (pos ?st) p st1)"
    have l2: "length (rest ?st2) < length (rest state)"
      using skipWhitespace_le [of state] readString_shrinks [OF k]
        skipWhitespace_le [of "add_key_violation seen key (pos ?st) p st1"] by simp
    show ?thesis
    proof (cases "peek ?st2 = Some 58")
      case False
      then show ?thesis using k by (simp add: Let_def)
    next
      case colon: True
      have v: "readValue fuel (advance 1 ?st2) (p @ [47] @ key) \<noteq> Inl OutOfFuel"
        using "4.IH"(1) [OF refl k _ refl] colon l2 "4.prems" by simp
      show ?thesis
      proof (cases "readValue fuel (advance 1 ?st2) (p @ [47] @ key)")
        case (Inl e)
        then show ?thesis using k colon v by (simp add: Let_def)
      next
        case (Inr st3)
        have "length (rest (skipWhitespace st3)) < length (rest state)"
          using readers_shrink(1) [OF Inr] skipWhitespace_le [of st3] l2 by simp
        then have "2 * length (rest (advance 1 (skipWhitespace st3))) + 2 \<le> fuel"
          using "4.prems" by simp
        then show ?thesis
          using "4.IH"(2) [OF refl k _ refl _ Inr refl] k colon Inr by (simp add: Let_def)
      qed
    qed
  qed
next
  case (6 fuel i state p)
  show ?case
  proof (cases "readValue fuel state (p @ [47] @ nat_str i)")
    case (Inl e)
    then show ?thesis using 6 by simp
  next
    case (Inr st1)
    have "length (rest (skipWhitespace st1)) < length (rest state)"
      using readers_shrink(1) [OF Inr] skipWhitespace_le [of st1] by simp
    then have "2 * length (rest (advance 1 (skipWhitespace st1))) + 2 \<le> fuel"
      using "6.prems" by simp
    then show ?thesis using "6.IH"(2) [OF Inr refl] Inr by (simp add: Let_def)
  qed
qed auto

text \<open>
  The scanner terminates on every text: with the fuel the entry point provides, it
  never runs out, so every outcome is a list of violations or a syntax error of the code.
\<close>

theorem scanner_never_out_of_fuel: "findStrictAdmissionViolations text \<noteq> Inl OutOfFuel"
proof -
  let ?st = "\<lparr>rest = text, pos = 0, violations = []\<rparr>"
  have "readValue (2 * length text + 2) ?st [] \<noteq> Inl OutOfFuel"
    by (rule readers_enough_fuel) simp
  then show ?thesis
    by (auto simp: findStrictAdmissionViolations_def Let_def simp del: readValue.simps split: sum.splits)
qed

subsection \<open>Reading back what the serializer prints\<close>

lemma hex_value_hex_digit:
  assumes "0 \<le> d" "d < 16"
  shows "hex_value (hex_digit d) = Some (of_int d)"
proof -
  have "\<forall>d\<in>set [0,1,2,3,4,5,6,7,8,9,10,11,12,13,14,15]. hex_value (hex_digit d) = Some (of_int d)"
    by code_simp
  moreover have "d \<in> set [0,1,2,3,4,5,6,7,8,9,10,11,12,13,14,15]" using assms by (simp, presburger)
  ultimately show ?thesis by blast
qed

lemma nibbles:
  fixes v :: int
  assumes "0 \<le> v" "v < 65536"
  shows "((v div 4096 mod 16 * 16 + v div 256 mod 16) * 16 + v div 16 mod 16) * 16 + v mod 16 = v"
proof -
  have a: "v div 4096 = v div 256 div 16" and b: "v div 256 = v div 16 div 16"
    by (simp_all flip: zdiv_zmult2_eq)
  have m: "v div 4096 mod 16 = v div 4096" using assms by simp
  have "v div 4096 * 16 + v div 256 mod 16 = v div 256"
    unfolding a by (rule div_mult_mod_eq)
  moreover have "v div 256 * 16 + v div 16 mod 16 = v div 16"
    unfolding b by (rule div_mult_mod_eq)
  ultimately show ?thesis unfolding m by (simp only: div_mult_mod_eq)
qed

lemma hex4_round_trip: "hex4_value (hex4 c) = Some c"
proof -
  have "0 \<le> uint c" "uint c < 65536" using uint_bounded [of c] by simp_all
  then have "(of_int (((uint c div 4096 mod 16 * 16 + uint c div 256 mod 16) * 16 + uint c div 16 mod 16) * 16
      + uint c mod 16) :: code_unit) = c"
    by (simp only: nibbles) simp
  moreover have "hex4_value (hex4 c) = Some (((of_int (uint c div 4096 mod 16) * 16
      + of_int (uint c div 256 mod 16)) * 16 + of_int (uint c div 16 mod 16)) * 16 + of_int (uint c mod 16))"
    by (simp add: hex4_value_def hex4_def hex_value_hex_digit)
  ultimately show ?thesis by (simp only: of_int_add of_int_mult of_int_numeral)
qed

lemma length_hex4 [simp]: "length (hex4 c) = 4"
  by (simp add: hex4_def)

lemma readStringLoop_escape:
  "readStringLoop (escape_unit c @ t) i d = readStringLoop t (i + length (escape_unit c)) (d @ [c])"
proof -
  have uni: "readStringLoop (92 # 117 # hex4 c @ t) i d = readStringLoop t (i + 6) (d @ [c])"
    using readStringLoop_cases(7) [of "hex4 c @ t" c] by (simp add: hex4_round_trip)
  show ?thesis
  proof (cases "c \<in> {8, 9, 10, 12, 13, 34, 92}")
    case True
    then show ?thesis by (auto simp: escape_unit_def simple_escape_def readStringLoop_cases)
  next
    case False
    then have "escape_unit c =
        (if c < 32 \<or> is_high_surrogate c \<or> is_low_surrogate c then 92 # 117 # hex4 c else [c])"
      by (simp add: escape_unit_def)
    then show ?thesis using False uni by (simp add: readStringLoop_cases)
  qed
qed

lemma surrogate_plain:
  "is_high_surrogate c \<Longrightarrow> c \<noteq> 34 \<and> c \<noteq> 92" "is_low_surrogate c \<Longrightarrow> c \<noteq> 34 \<and> c \<noteq> 92"
  by (auto simp: is_high_surrogate_def is_low_surrogate_def)

lemma readStringLoop_quoted:
  "readStringLoop (quote_units s @ 34 # r) i d = Inr (d @ s, r, i + length (quote_units s) + 1)"
proof (induction s arbitrary: i d rule: quote_units.induct)
  case 1
  show ?case by (simp add: readStringLoop_cases)
next
  case (2 c)
  show ?case by (simp add: readStringLoop_escape readStringLoop_cases)
next
  case (3 c d' s)
  show ?case
  proof (cases "is_high_surrogate c \<and> is_low_surrogate d'")
    case True
    then show ?thesis
      using 3 surrogate_plain [of c] surrogate_plain [of d'] by (simp add: readStringLoop_cases)
  next
    case False
    then show ?thesis using 3 by (auto simp: readStringLoop_escape)
  qed
qed

lemma readString_printed:
  assumes "rest st = stringify_string s @ r"
  shows "readString st = Inr (s, st\<lparr>rest := r, pos := pos st + length (stringify_string s)\<rparr>)"
  using assms readStringLoop_quoted [of s r]
  by (simp add: readString_def peek_def stringify_string_def)

text \<open>
  \<open>readString\<close> inverts \<open>JSON.stringify\<close> on every string, control characters, quotes and
  lone surrogates included: it returns the string and stops right behind the closing quote.
\<close>

theorem readString_inverts_stringify:
  "readString \<lparr>rest = stringify_string s @ r, pos = i, violations = vs\<rparr> =
     Inr (s, \<lparr>rest = r, pos = i + length (stringify_string s), violations = vs\<rparr>)"
  by (simp add: readString_printed)

definition delimited :: "jstr \<Rightarrow> bool" where
  "delimited r \<longleftrightarrow> r = [] \<or> hd r \<in> {44, 93, 125}"

lemma skipWhitespace_id: "rest st = c # t \<Longrightarrow> \<not> isWhitespace c \<Longrightarrow> skipWhitespace st = st"
  by (simp add: skipWhitespace_def advance_def)

lemma delimited_skip: "delimited (rest st) \<Longrightarrow> skipWhitespace st = st"
  by (cases "rest st") (auto simp: delimited_def skipWhitespace_def advance_def isWhitespace_def)

lemma skipDigits_run:
  assumes "rest st = map digit_unit ds @ t" and "\<forall>d\<in>set ds. d < 10" and "t = [] \<or> \<not> is_digit (hd t)"
  shows "skipDigits st = advance (length ds) st"
proof -
  have "takeWhile is_digit (map digit_unit ds @ t) = map digit_unit ds"
    using assms(2,3) by (subst takeWhile_append2) (cases t; auto)+
  then show ?thesis using assms(1) by (simp add: skipDigits_def)
qed

subsection \<open>The parts of a printed number\<close>

type_synonym num_parts = "nat list \<times> nat list option \<times> (bool \<times> nat list) option"

fun num_text :: "num_parts \<Rightarrow> jstr" where
  "num_text (a, b, e) =
     map digit_unit a @
     (case b of None \<Rightarrow> [] | Some ds \<Rightarrow> 46 # map digit_unit ds) @
     (case e of None \<Rightarrow> [] | Some (neg, ds) \<Rightarrow> 101 # (if neg then 45 else 43) # map digit_unit ds)"

fun wf_parts :: "num_parts \<Rightarrow> bool" where
  "wf_parts (a, b, e) \<longleftrightarrow>
     a \<noteq> [] \<and> (\<forall>d\<in>set a. d < 10) \<and>
     (case b of None \<Rightarrow> True | Some ds \<Rightarrow> \<forall>d\<in>set ds. d < 10) \<and>
     (case e of None \<Rightarrow> True | Some (neg, ds) \<Rightarrow> \<forall>d\<in>set ds. d < 10)"

definition parts_of :: "nat list \<Rightarrow> int \<Rightarrow> num_parts" where
  "parts_of ds n =
     (if int (length ds) \<le> n \<and> n \<le> 21 then (ds @ replicate (nat n - length ds) 0, None, None)
      else if 0 < n \<and> n \<le> 21 then (take (nat n) ds, Some (drop (nat n) ds), None)
      else if - 6 < n \<and> n \<le> 0 then ([0], Some (replicate (nat (- n)) 0 @ ds), None)
      else (take 1 ds, if length ds = 1 then None else Some (drop 1 ds),
            Some (n - 1 < 0, nat_digits (nat \<bar>n - 1\<bar>))))"

lemma digit_unit_0 [simp]: "digit_unit 0 = 48"
  by (simp add: digit_unit_def)

lemma finite_magnitude_text: "finite_magnitude ds n = num_text (parts_of ds n)"
  by (simp add: finite_magnitude_def parts_of_def nat_str_def map_replicate_const)

lemma wf_parts_of:
  assumes "ds \<noteq> []" and "\<forall>d\<in>set ds. d < 10"
  shows "wf_parts (parts_of ds n)"
  using assms nat_digits_lt10
  by (auto simp: parts_of_def dest: in_set_takeD in_set_dropD)

lemma digit_unit_not: "d < 10 \<Longrightarrow> digit_unit d \<notin> {43, 44, 45, 46, 69, 93, 101, 125}"
  using is_digit_digit_unit [of d] by (auto simp: is_digit_def)

lemma not_digit_units [simp]:
  "\<not> is_digit 43" "\<not> is_digit 44" "\<not> is_digit 45" "\<not> is_digit 46" "\<not> is_digit 69" "\<not> is_digit 93"
  "\<not> is_digit 101" "\<not> is_digit 125"
  by (simp_all add: is_digit_def)

lemma delimited_not_number:
  "delimited r \<Longrightarrow> r = [] \<or> \<not> is_digit (hd r) \<and> hd r \<notin> {46, 101, 69, 43, 45}"
  by (auto simp: delimited_def)

lemma peek_advance: "rest st = s @ t \<Longrightarrow> n = length s \<Longrightarrow> peek (advance n st) = (case t of [] \<Rightarrow> None | c # _ \<Rightarrow> Some c)"
  by (simp add: peek_def)

lemma skipDigits_at:
  assumes "rest st = s @ map digit_unit ds @ t" and "\<forall>d\<in>set ds. d < 10" and "t = [] \<or> \<not> is_digit (hd t)"
  shows "skipDigits (advance (length s) st) = advance (length s + length ds) st"
  using skipDigits_run [of "advance (length s) st" ds t] assms by simp

lemma scanNumber_parts:
  assumes "rest st = sg @ num_text (a, b, e) @ r" and "sg \<in> {[], [45]}"
    and "wf_parts (a, b, e)" and "delimited r"
  shows "scanNumber st = (b = None \<and> e = None, advance (length sg + length (num_text (a, b, e))) st)"
proof -
  define B where "B = (case b of None \<Rightarrow> [] | Some ds \<Rightarrow> 46 # map digit_unit ds)"
  define E where "E = (case e of None \<Rightarrow> [] | Some (n, ds) \<Rightarrow> 101 # (if n then 45 else 43) # map digit_unit ds)"
  let ?n1 = "length sg + length a" and ?n2 = "length sg + length a + length B"
  have full: "rest st = sg @ map digit_unit a @ B @ E @ r" using assms(1) by (simp add: B_def E_def)
  have wf: "a \<noteq> []" "\<forall>d\<in>set a. d < 10" using assms(3) by auto
  note dl = delimited_not_number [OF assms(4)]
  have tails: "E @ r = [] \<or> \<not> is_digit (hd (E @ r))" "B @ E @ r = [] \<or> \<not> is_digit (hd (B @ E @ r))"
    using dl by (auto simp: B_def E_def split: option.splits)
  have sign: "skipSign st = advance (length sg) st"
    using full wf assms(2) digit_unit_not [of "hd a"]
    by (cases a) (auto simp: skipSign_def peek_def advance_def)
  have s1: "skipDigits (skipSign st) = advance ?n1 st"
    using skipDigits_at [OF full wf(2) tails(2)] sign by simp
  have p1: "peek (advance ?n1 st) = Some 46 \<longleftrightarrow> b \<noteq> None"
    using peek_advance [of st "sg @ map digit_unit a" "B @ E @ r" ?n1] full dl
    by (auto simp: B_def E_def split: option.splits list.splits)
  have s2: "(if b \<noteq> None then skipDigits (advance (?n1 + 1) st) else advance ?n1 st) = advance ?n2 st"
  proof (cases b)
    case (Some ds)
    then have "B = 46 # map digit_unit ds" by (simp add: B_def)
    then show ?thesis
      using Some skipDigits_at [of st "sg @ map digit_unit a @ [46]" ds "E @ r"] full tails(1) assms(3)
      by simp
  qed (simp add: B_def)
  have p2: "peek (advance ?n2 st) \<in> {Some 101, Some 69} \<longleftrightarrow> e \<noteq> None"
    using peek_advance [of st "sg @ map digit_unit a @ B" "E @ r" ?n2] full dl
    by (auto simp: E_def split: option.splits list.splits)
  have s3: "(if e \<noteq> None then skipDigits (skipSign (advance (?n2 + 1) st)) else advance ?n2 st) =
      advance (?n2 + length E) st"
  proof (cases e)
    case (Some nd)
    obtain n ds where nd: "nd = (n, ds)" by (cases nd)
    define c :: code_unit where "c = (if n then 45 else 43)"
    have E: "E = 101 # c # map digit_unit ds" using Some nd by (simp add: E_def c_def)
    have "peek (advance (?n2 + 1) st) = Some c"
      using peek_advance [of st "sg @ map digit_unit a @ B @ [101]" "c # map digit_unit ds @ r" "?n2 + 1"]
        full E by simp
    then have "skipSign (advance (?n2 + 1) st) = advance (?n2 + 2) st"
      by (simp add: skipSign_def c_def)
    moreover have "skipDigits (advance (?n2 + 2) st) = advance (?n2 + 2 + length ds) st"
      using skipDigits_at [of st "sg @ map digit_unit a @ B @ [101, c]" ds r] full E Some nd assms(3) dl
      by (auto simp: add.assoc)
    ultimately show ?thesis using Some E by simp
  qed (simp add: E_def)
  have "length (num_text (a, b, e)) = length a + length B + length E" by (simp add: B_def E_def)
  moreover have "scanNumber st = (\<not> b \<noteq> None \<and> \<not> e \<noteq> None, advance (?n2 + length E) st)"
    by (simp only: scanNumber_def Let_def s1 p1 advance_advance s2 p2 s3)
  ultimately show ?thesis by (simp add: add.assoc) (metis not_None_eq prod.collapse)
qed

lemma takeWhile_mantissa:
  "\<forall>d\<in>set a. d < 10 \<Longrightarrow> takeWhile (\<lambda>c. c \<noteq> 101 \<and> c \<noteq> 69) (map digit_unit a @ t) =
     map digit_unit a @ takeWhile (\<lambda>c. c \<noteq> 101 \<and> c \<noteq> 69) t"
  using digit_unit_not by (intro takeWhile_append2) auto

lemma dropWhile_digits:
  "\<forall>d\<in>set ds. d < 10 \<Longrightarrow> dropWhile (\<lambda>c. c = 48) (map digit_unit ds) = map digit_unit (dropWhile (\<lambda>d. d = 0) ds)"
proof (induction ds)
  case (Cons d ds)
  then show ?case using digit_unit_eq [of d 0] by simp
qed simp

lemma significant_parts:
  assumes "wf_parts (a, b, e)" and "sg \<in> {[], [45]}"
  shows "countSignificantDigits (sg @ num_text (a, b, e)) =
    length (dropWhile (\<lambda>d. d = 0) (a @ (case b of None \<Rightarrow> [] | Some ds \<Rightarrow> ds)))"
proof -
  define F where "F = (case b of None \<Rightarrow> [] | Some ds \<Rightarrow> ds)"
  have wf: "a \<noteq> []" "\<forall>d\<in>set a. d < 10" "\<forall>d\<in>set F. d < 10"
    using assms(1) by (auto simp: F_def split: option.splits)
  have sg: "drop_sign (sg @ num_text (a, b, e)) = num_text (a, b, e)"
    using wf(1,2) assms(2) digit_unit_not [of "hd a"] by (cases a) (auto simp: drop_sign_def)
  have mant: "takeWhile (\<lambda>c. c \<noteq> 101 \<and> c \<noteq> 69) (num_text (a, b, e)) =
      map digit_unit a @ (case b of None \<Rightarrow> [] | Some ds \<Rightarrow> 46 # map digit_unit ds)"
    using wf takeWhile_mantissa [of F "[]"] takeWhile_mantissa [of a "[]"] takeWhile_mantissa [of F "101 # t" for t]
    by (cases b; cases e) (auto simp: F_def takeWhile_mantissa)
  have dot: "46 \<notin> set (map digit_unit a)" using wf(2) digit_unit_not by fastforce
  have "remove1 46 (map digit_unit a @ (case b of None \<Rightarrow> [] | Some ds \<Rightarrow> 46 # map digit_unit ds)) =
      map digit_unit (a @ F)"
    using dot by (cases b) (simp_all add: F_def remove1_append remove1_idem)
  moreover have "dropWhile (\<lambda>c. c = 48) (map digit_unit (a @ F)) = map digit_unit (dropWhile (\<lambda>d. d = 0) (a @ F))"
    using wf by (intro dropWhile_digits) auto
  ultimately show ?thesis
    by (simp add: countSignificantDigits_def sg mant flip: F_def del: map_append num_text.simps)
qed

lemma digit_value_unit: "d < 10 \<Longrightarrow> digit_value (digit_unit d) = d"
  by (simp add: digit_value_def digit_unit_def unat_of_nat)

lemma map_digit_value: "\<forall>d\<in>set ds. d < 10 \<Longrightarrow> map digit_value (map digit_unit ds) = ds"
  by (induction ds) (simp_all add: digit_value_unit)

lemma digits_value_zeros: "digits_value (ds @ replicate n 0) = digits_value ds * 10 ^ n"
proof (induction n)
  case (Suc n)
  have "ds @ replicate (Suc n) 0 = (ds @ replicate n 0) @ [0]" by (simp add: replicate_append_same)
  then have "digits_value (ds @ replicate (Suc n) 0) = digits_value (ds @ replicate n 0) * 10"
    by (simp only: digits_value_snoc)
  with Suc show ?case by simp
qed simp

lemma digits_value_bounds:
  "\<forall>d\<in>set ds. d < 10 \<Longrightarrow> digits_value ds < 10 ^ length ds"
  "ds \<noteq> [] \<Longrightarrow> hd ds \<noteq> 0 \<Longrightarrow> 10 ^ (length ds - 1) \<le> digits_value ds"
proof (induction ds rule: rev_induct)
  case (snoc d ds)
  {
    case 1
    then show ?case using snoc.IH(1) by simp
  next
    case 2
    show ?case
    proof (cases "ds = []")
      case True
      with 2 show ?thesis by (simp add: digits_value_def)
    next
      case False
      then have "10 ^ (length ds - 1) \<le> digits_value ds" using 2 snoc.IH(2) by simp
      moreover have "(10::nat) ^ length ds = 10 ^ (length ds - 1) * 10"
        using False by (metis One_nat_def Suc_pred length_greater_0_conv power_Suc2)
      ultimately show ?thesis by simp
    qed
  }
qed (simp_all add: digits_value_def)

text \<open>
  What the numeric rules mean for the number behind a literal: an integer printed without an
  exponent must be safe, any other number has at most 17 digits.
\<close>

fun num_admissible :: "jnum \<Rightarrow> bool" where
  "num_admissible (Finite neg ds n) =
     (if int (length ds) \<le> n \<and> n \<le> 21
      then int (digits_value ds * 10 ^ (nat n - length ds)) \<le> max_safe_integer
      else length ds \<le> 17)"
| "num_admissible _ = True"

lemma dropWhile_zeros_pad: "ds \<noteq> [] \<Longrightarrow> hd ds \<noteq> 0 \<Longrightarrow> dropWhile (\<lambda>d. d = 0) (replicate n 0 @ ds @ t) = ds @ t"
  for ds :: "nat list"
  by (induction n) (cases ds; simp)+

lemma printed_number_clean:
  assumes "wf_num (Finite neg ds n)" and "sg = (if neg then [45] else [])"
  shows "numberViolations (int (length ds) \<le> n \<and> n \<le> 21) (sg @ num_text (parts_of ds n)) i p = []
    \<longleftrightarrow> num_admissible (Finite neg ds n)"
proof -
  have wf: "ds \<noteq> []" "\<forall>d\<in>set ds. d < 10" "hd ds \<noteq> 0" using assms(1) by auto
  have sg: "sg \<in> {[], [45]}" using assms(2) by simp
  obtain a b e where abe: "parts_of ds n = (a, b, e)" by (cases "parts_of ds n")
  note sig = significant_parts [OF wf_parts_of [OF wf(1,2), of n, unfolded abe] sg, folded abe]
  show ?thesis
  proof (cases "int (length ds) \<le> n \<and> n \<le> 21")
    case True
    let ?z = "ds @ replicate (nat n - length ds) 0"
    have parts: "parts_of ds n = (?z, None, None)" using True by (simp add: parts_of_def)
    have lt: "\<forall>d\<in>set ?z. d < 10" using wf(2) by auto
    have digits: "countSignificantDigits (sg @ num_text (parts_of ds n)) = nat n"
      using sig parts abe dropWhile_zeros_pad [OF wf(1,3), of 0 "replicate (nat n - length ds) 0"] True
      by auto
    have val: "digits_value ?z = digits_value ds * 10 ^ (nat n - length ds)" by (rule digits_value_zeros)
    have len: "length ?z = nat n" "nat n \<le> 21" using True by auto
    have up: "digits_value ?z < 10 ^ 21"
      using digits_value_bounds(1) [OF lt] len power_increasing [of "nat n" 21 "10::nat"] by simp
    have low: "10 ^ (nat n - 1) \<le> digits_value ?z"
      using digits_value_bounds(2) [of ?z] wf len by simp
    have small: "nat n \<le> 17" if "int (digits_value ?z) \<le> max_safe_integer"
    proof (rule ccontr)
      assume "\<not> nat n \<le> 17"
      then have "(10::nat) ^ 17 \<le> 10 ^ (nat n - 1)" by (intro power_increasing) auto
      with low that show False by (simp add: max_safe_integer_def)
    qed
    have ds: "drop_sign (sg @ num_text (parts_of ds n)) = map digit_unit ?z"
      using parts assms(2) wf digit_unit_not [of "hd ds"] by (cases ds) (auto simp: drop_sign_def)
    have "unsafe_integer_literal (sg @ num_text (parts_of ds n)) \<longleftrightarrow> int (digits_value ?z) > max_safe_integer"
      using wf(1) up map_digit_value [OF lt] by (simp add: unsafe_integer_literal_def ds Let_def del: map_append)
    then show ?thesis
      using True small digits val by (auto simp: numberViolations_def MAX_SIGNIFICANT_DIGITS_def)
  next
    case False
    have "countSignificantDigits (sg @ num_text (parts_of ds n)) = length ds"
      using False sig abe dropWhile_zeros_pad [OF wf(1,3), of 0 "[]"] wf
        dropWhile_zeros_pad [OF wf(1,3), of "Suc (nat (- n))" "[]"]
      by (cases ds) (auto simp: parts_of_def split: if_splits)
    then show ?thesis
      using False by (auto simp: numberViolations_def MAX_SIGNIFICANT_DIGITS_def)
  qed
qed

lemma num_text_not_Nil: "wf_parts ps \<Longrightarrow> num_text ps \<noteq> []"
  by (cases ps) auto

lemma readNumber_printed:
  assumes "wf_num x" and "rest st = print_num x @ r" and "delimited r"
  shows "\<exists>ws. readNumber st p =
      Inr (st\<lparr>rest := r, pos := pos st + length (print_num x), violations := violations st @ ws\<rparr>)
    \<and> (ws = [] \<longleftrightarrow> num_admissible x)"
proof (cases x)
  case (Finite neg ds n)
  let ?sg = "if neg then [45] else [] :: jstr"
  have wf: "ds \<noteq> []" "\<forall>d\<in>set ds. d < 10" using assms(1) Finite by auto
  obtain a b e where abe: "parts_of ds n = (a, b, e)" by (cases "parts_of ds n")
  have printed: "print_num x = ?sg @ num_text (parts_of ds n)"
    by (simp add: Finite stringify_finite_def finite_magnitude_text)
  have plain: "(b = None \<and> e = None) = (int (length ds) \<le> n \<and> n \<le> 21)"
    using abe by (auto simp: parts_of_def split: if_splits)
  have "scanNumber st = (int (length ds) \<le> n \<and> n \<le> 21, advance (length (print_num x)) st)"
    using scanNumber_parts [of st ?sg a b e r] assms(2,3) printed abe wf_parts_of [OF wf, of n] plain by simp
  moreover have "print_num x \<noteq> []"
    using printed num_text_not_Nil [OF wf_parts_of [OF wf, of n]] by auto
  ultimately show ?thesis
    using assms(2) printed_number_clean [of neg ds n ?sg "pos st" p] assms(1) Finite printed
    by (intro exI [of _ "numberViolations (int (length ds) \<le> n \<and> n \<le> 21) (print_num x) (pos st) p"])
      (simp add: readNumber_def advance_def)
next
  case (Zero s)
  have "skipSign st = st" using assms(2) Zero by (auto simp: skipSign_def peek_def)
  then have s1: "skipDigits (skipSign st) = advance 1 st"
    using skipDigits_run [of st "[0]" r] assms(2,3) Zero delimited_not_number [OF assms(3)] by auto
  have "peek (advance 1 st) \<notin> {Some 46, Some 101, Some 69}"
    using assms(2) Zero delimited_not_number [OF assms(3)] by (cases r) (auto simp: peek_def)
  then have "scanNumber st = (True, advance 1 st)" using s1 by (simp add: scanNumber_def Let_def)
  moreover have "numberViolations True [48] (pos st) p = []"
    by (simp add: numberViolations_def unsafe_integer_literal_def countSignificantDigits_def drop_sign_def
        MAX_SIGNIFICANT_DIGITS_def digits_value_def digit_value_def max_safe_integer_def)
  ultimately show ?thesis using assms(2) Zero by (simp add: readNumber_def advance_def)
qed (use assms(1) in auto)

subsection \<open>Documents\<close>

text \<open>
  A document tree is a JSON value whose objects may repeat a key, as a text can; it is admissible
  when no object at any depth repeats one and every number obeys the numeric rules.
\<close>

fun json_tree :: "jsval \<Rightarrow> bool" where
  "json_tree JNull = True"
| "json_tree (JBool b) = True"
| "json_tree (JStr s) = True"
| "json_tree (JNum x) = wf_num x"
| "json_tree (JArr xs) = list_all (\<lambda>item. case item of None \<Rightarrow> False | Some v \<Rightarrow> json_tree v) xs"
| "json_tree (JObj es) = list_all (\<lambda>(k, v). json_tree v) es"
| "json_tree _ = False"

fun admissible :: "jsval \<Rightarrow> bool" where
  "admissible (JNum x) = num_admissible x"
| "admissible (JArr xs) = list_all (\<lambda>item. case item of None \<Rightarrow> True | Some v \<Rightarrow> admissible v) xs"
| "admissible (JObj es) = (distinct (map fst es) \<and> list_all (\<lambda>(k, v). admissible v) es)"
| "admissible _ = True"

definition consumed :: "ScanState \<Rightarrow> jstr \<Rightarrow> nat \<Rightarrow> StrictAdmissionViolation list \<Rightarrow> ScanState" where
  "consumed st r n ws = st\<lparr>rest := r, pos := pos st + n, violations := violations st @ ws\<rparr>"

text \<open>\<open>reads v\<close>: the value reader consumes exactly the printed tree and reports iff it is inadmissible.\<close>

definition reads :: "jsval \<Rightarrow> bool" where
  "reads v \<longleftrightarrow> (\<forall>f st p r. rest st = print_val v @ r \<longrightarrow> delimited r \<longrightarrow> 2 * length (rest st) + 1 \<le> f \<longrightarrow>
     (\<exists>ws. readValue f st p = Inr (consumed st r (length (print_val v)) ws) \<and> (ws = [] \<longleftrightarrow> admissible v)))"

lemma readsD:
  assumes "reads v" and "rest st = print_val v @ r" and "delimited r" and "2 * length (rest st) + 1 \<le> f"
  obtains ws where "readValue f st p = Inr (consumed st r (length (print_val v)) ws)" "ws = [] \<longleftrightarrow> admissible v"
  using assms unfolding reads_def by blast

lemma consumed_sel [simp]:
  "rest (consumed st r n ws) = r" "pos (consumed st r n ws) = pos st + n"
  "violations (consumed st r n ws) = violations st @ ws"
  by (simp_all add: consumed_def)

lemma consumed_consumed [simp]:
  "consumed (consumed st r n ws) r' n' ws' = consumed st r' (n + n') (ws @ ws')"
  by (simp add: consumed_def add.assoc)

lemma advance_consumed: "rest st = s @ r \<Longrightarrow> n = length s \<Longrightarrow> advance n st = consumed st r n []"
  by (simp add: advance_def consumed_def)

lemma advance_one [simp]: "advance (Suc 0) (consumed st (c # t) n ws) = consumed st t (Suc n) ws"
  by (simp add: advance_def consumed_def)

lemma delimited_simps [simp]:
  "delimited []" "delimited (44 # r)" "delimited (93 # r)" "delimited (125 # r)"
  by (simp_all add: delimited_def)

lemma peek_Cons: "rest st = c # t \<Longrightarrow> peek st = Some c"
  by (simp add: peek_def)

lemma read_elements_printed:
  assumes "xs \<noteq> []" and "\<And>v. v \<in> set xs \<Longrightarrow> reads v"
    and "rest st = joinWith [44] (map print_val xs) @ 93 # r" and "2 * length (rest st) + 2 \<le> f"
  shows "\<exists>ws. readElements f i st p =
      Inr (consumed st r (length (joinWith [44] (map print_val xs)) + 1) ws)
    \<and> (ws = [] \<longleftrightarrow> list_all admissible xs)"
  using assms
proof (induction xs arbitrary: st f i rule: induct_list012)
  case (2 v)
  obtain g where f: "f = Suc g" using 2 by (cases f) auto
  obtain ws where ws: "readValue g st (p @ [47] @ nat_str i) = Inr (consumed st (93 # r) (length (print_val v)) ws)"
    "ws = [] \<longleftrightarrow> admissible v"
    by (rule readsD [where v = v and st = st and r = "93 # r" and f = g and p = "p @ [47] @ nat_str i"])
      (use 2 f in auto)
  let ?st1 = "consumed st (93 # r) (length (print_val v)) ws"
  have "skipWhitespace ?st1 = ?st1" "peek ?st1 = Some 93" "advance 1 ?st1 = consumed st r (length (print_val v) + 1) ws"
    by (simp_all add: delimited_skip peek_Cons)
  then show ?case using ws f by (intro exI [of _ ws]) (simp add: Let_def)
next
  case (3 v w xs)
  obtain g where f: "f = Suc g" using 3 by (cases f) auto
  let ?t = "joinWith [44] (map print_val (w # xs)) @ 93 # r"
  obtain ws where ws: "readValue g st (p @ [47] @ nat_str i) = Inr (consumed st (44 # ?t) (length (print_val v)) ws)"
    "ws = [] \<longleftrightarrow> admissible v"
    by (rule readsD [where v = v and st = st and r = "44 # ?t" and f = g and p = "p @ [47] @ nat_str i"])
      (use 3 f in auto)
  let ?st1 = "consumed st (44 # ?t) (length (print_val v)) ws"
  let ?st2 = "consumed st ?t (length (print_val v) + 1) ws"
  have next_st: "skipWhitespace ?st1 = ?st1" "peek ?st1 = Some 44" "advance 1 ?st1 = ?st2"
    by (simp_all add: delimited_skip peek_Cons)
  obtain us where us: "readElements g (i + 1) ?st2 p =
      Inr (consumed ?st2 r (length (joinWith [44] (map print_val (w # xs))) + 1) us)"
    "us = [] \<longleftrightarrow> list_all admissible (w # xs)"
    using "3.IH"(2) [of ?st2 g "i + 1"] "3.prems" f by auto
  then show ?case
    using ws f next_st by (intro exI [of _ "ws @ us"]) (auto simp: Let_def)
qed simp

lemma read_members_printed:
  assumes "es \<noteq> []" and "\<And>e. e \<in> set es \<Longrightarrow> reads (snd e)"
    and "rest st = joinWith [44] (map (\<lambda>(k, v). stringify_string k @ [58] @ print_val v) es) @ 125 # r"
    and "2 * length (rest st) + 2 \<le> f"
  shows "\<exists>ws. readMembers f seen st p =
      Inr (consumed st r (length (joinWith [44] (map (\<lambda>(k, v). stringify_string k @ [58] @ print_val v) es)) + 1) ws)
    \<and> (ws = [] \<longleftrightarrow> distinct (map fst es) \<and> fst ` set es \<inter> seen = {} \<and> list_all (\<lambda>(k, v). admissible v) es)"
  using assms
proof (induction es arbitrary: st f seen)
  case (Cons kv es)
  obtain k v where kv: "kv = (k, v)" by (cases kv)
  obtain g where f: "f = Suc g" using Cons.prems by (cases f) auto
  let ?pe = "\<lambda>(k, v). stringify_string k @ [58] @ print_val v"
  define t where "t = (if es = [] then 125 # r else 44 # joinWith [44] (map ?pe es) @ 125 # r)"
  have t: "delimited t" by (simp add: t_def)
  have full: "rest st = stringify_string k @ 58 # print_val v @ t"
    using Cons.prems(3) by (cases es) (auto simp: kv t_def)
  have room: "2 * length (print_val v @ t) + 4 \<le> g"
    using Cons.prems(4) f unfolding full by (simp add: stringify_string_def)
  define q where "q = (if k \<in> seen then [\<lparr>rule = Duplicate_object_key, offset = pos st, path = p @ [47] @ k\<rparr>] else [])"
  let ?n = "length (stringify_string k)"
  let ?st1 = "st\<lparr>rest := 58 # print_val v @ t, pos := pos st + ?n\<rparr>"
  let ?st2 = "consumed st (58 # print_val v @ t) ?n q"
  have key: "skipWhitespace st = st" "readString st = Inr (k, ?st1)"
    using readString_printed [OF full] full
    by (simp_all add: skipWhitespace_id [of st 34] stringify_string_def isWhitespace_def)
  have colon: "skipWhitespace (add_key_violation seen k (pos st) p ?st1) = ?st2" "peek ?st2 = Some 58"
    "advance 1 ?st2 = consumed st (print_val v @ t) (?n + 1) q"
    using skipWhitespace_id [of ?st2 58]
    by (auto simp: add_key_violation_def consumed_def q_def peek_def isWhitespace_def)
  let ?st3 = "consumed st (print_val v @ t) (?n + 1) q"
  obtain ws where ws: "readValue g ?st3 (p @ [47] @ k) = Inr (consumed ?st3 t (length (print_val v)) ws)"
    "ws = [] \<longleftrightarrow> admissible v"
    by (rule readsD [where v = v and st = ?st3 and r = t and f = g and p = "p @ [47] @ k"])
      (use Cons.prems(2) [of kv] kv t room in auto)
  let ?st4 = "consumed st t (?n + 1 + length (print_val v)) (q @ ws)"
  have v: "readValue g (advance 1 ?st2) (p @ [47] @ k) = Inr ?st4" "skipWhitespace ?st4 = ?st4"
    using ws colon(3) t by (simp_all add: delimited_skip)
  have unfold: "readMembers f seen st p =
      (if peek ?st4 = Some 44 then readMembers g (insert k seen) (advance 1 ?st4) p
       else if peek ?st4 = Some 125 then Inr (advance 1 ?st4)
       else Inl (SyntaxErr ExpectedCommaOrBrace (pos ?st4)))"
    unfolding f readMembers.simps Let_def key sum.case prod.case colon(1) v
    using colon(2) v by simp
  show ?case
  proof (cases es)
    case Nil
    then have "readMembers f seen st p = Inr (consumed st r (?n + 1 + length (print_val v) + 1) (q @ ws))"
      using unfold by (simp add: t_def peek_Cons)
    then show ?thesis
      using Nil kv ws(2) by (auto simp: q_def)
  next
    case ne: (Cons e' es')
    let ?rest = "joinWith [44] (map ?pe es) @ 125 # r"
    let ?st5 = "consumed st ?rest (?n + 1 + length (print_val v) + 1) (q @ ws)"
    have step: "readMembers f seen st p = readMembers g (insert k seen) ?st5 p"
      using ne unfold by (simp add: t_def peek_Cons)
    have es: "es \<noteq> []" "\<And>e. e \<in> set es \<Longrightarrow> reads (snd e)" "rest ?st5 = ?rest" "2 * length (rest ?st5) + 2 \<le> g"
      using ne room Cons.prems(2) by (auto simp: t_def)
    obtain us where us: "readMembers g (insert k seen) ?st5 p =
        Inr (consumed ?st5 r (length (joinWith [44] (map ?pe es)) + 1) us)"
      "us = [] \<longleftrightarrow> distinct (map fst es) \<and> fst ` set es \<inter> insert k seen = {} \<and> list_all (\<lambda>(k, v). admissible v) es"
      using Cons.IH [of ?st5 g "insert k seen", OF es] by blast
    have "length (joinWith [44] (map ?pe (kv # es))) =
        ?n + 1 + length (print_val v) + 1 + length (joinWith [44] (map ?pe es))"
      using ne kv by simp
    then have "readMembers f seen st p =
        Inr (consumed st r (length (joinWith [44] (map ?pe (kv # es))) + 1) (q @ ws @ us))"
      using step us(1) by (simp add: add.assoc)
    moreover have "q @ ws @ us = [] \<longleftrightarrow> distinct (map fst (kv # es)) \<and> fst ` set (kv # es) \<inter> seen = {}
        \<and> list_all (\<lambda>(k, v). admissible v) (kv # es)"
      using us(2) ws(2) kv by (auto simp: q_def)
    ultimately show ?thesis by blast
  qed
qed simp

lemma reads_skip:
  assumes "rest st = c # t" and "\<not> isWhitespace c"
  shows "skipWhitespace st = st" and "peek st = Some c"
  using assms by (auto simp: skipWhitespace_id peek_Cons)

lemma print_num_start:
  assumes "wf_num x"
  shows "\<exists>c t. print_num x = c # t \<and> (is_digit c \<or> c = 45)"
proof (cases x)
  case (Finite neg ds n)
  then have wf: "wf_parts (parts_of ds n)" using assms wf_parts_of [of ds n] by auto
  obtain a b e where abe: "parts_of ds n = (a, b, e)" by (cases "parts_of ds n")
  then show ?thesis
    using wf Finite by (cases a; cases neg) (auto simp: stringify_finite_def finite_magnitude_text)
qed (use assms in \<open>auto simp: is_digit_def\<close>)

lemma literal_units:
  "js ''true'' = [116, 114, 117, 101]" "js ''false'' = [102, 97, 108, 115, 101]" "js ''null'' = [110, 117, 108, 108]"
  by code_simp+

lemma reads_literal:
  assumes "rest st = print_val v @ r" and "v \<in> {JNull, JBool True, JBool False}"
  shows "readValue (Suc f) st p = Inr (consumed st r (length (print_val v)) [])"
proof -
  obtain c t where ct: "rest st = c # t" "c \<in> {110, 116, 102}"
    using assms by (auto simp: literal_units)
  have sk: "skipWhitespace st = st" and pk: "peek st = Some c"
    using reads_skip [OF ct(1)] ct(2) by (auto simp: isWhitespace_def)
  have adv: "advance (length (print_val v)) st = consumed st r (length (print_val v)) []"
    using advance_consumed [OF assms(1)] by simp
  consider "v = JNull" | "v = JBool True" | "v = JBool False" using assms(2) by blast
  then show ?thesis
    by cases (use adv ct(2) assms(1) in \<open>auto simp: sk pk startsWith_def literal_units\<close>)
qed

lemma reads_number:
  assumes "wf_num x"
  shows "reads (JNum x)"
  unfolding reads_def
proof (intro allI impI)
  fix f :: nat and st :: ScanState and p r
  assume st: "rest st = print_val (JNum x) @ r" "delimited r" "2 * length (rest st) + 1 \<le> f"
  obtain g where f: "f = Suc g" using st(3) by (cases f) auto
  obtain c t where ct: "rest st = c # t" "is_digit c \<or> c = 45"
    using st(1) print_num_start [OF assms] by auto
  have c: "c \<notin> {32, 9, 10, 13, 123, 91, 34, 116, 102, 110}" using ct(2) by (auto simp: is_digit_def)
  have sk: "skipWhitespace st = st" "peek st = Some c"
    using reads_skip [OF ct(1)] c by (auto simp: isWhitespace_def)
  have "readValue f st p = readNumber st p"
    using c ct(1) by (simp add: f sk Let_def startsWith_def literal_units)
  moreover obtain ws where "readNumber st p =
      Inr (st\<lparr>rest := r, pos := pos st + length (print_num x), violations := violations st @ ws\<rparr>)"
    "ws = [] \<longleftrightarrow> num_admissible x"
    using readNumber_printed [OF assms, of st r p] st by auto
  ultimately show "\<exists>ws. readValue f st p = Inr (consumed st r (length (print_val (JNum x))) ws)
      \<and> (ws = [] \<longleftrightarrow> admissible (JNum x))"
    by (auto simp: consumed_def)
qed

lemma reads_string: "reads (JStr s)"
  unfolding reads_def
proof (intro allI impI)
  fix f :: nat and st :: ScanState and p r
  assume st: "rest st = print_val (JStr s) @ r" "delimited r" "2 * length (rest st) + 1 \<le> f"
  obtain g where f: "f = Suc g" using st(3) by (cases f) auto
  have "rest st = 34 # tl (rest st)" using st(1) by (simp add: stringify_string_def)
  then have sk: "skipWhitespace st = st" "peek st = Some 34"
    using reads_skip [of st 34] by (auto simp: isWhitespace_def)
  have "readString st = Inr (s, consumed st r (length (stringify_string s)) [])"
    using readString_printed [of st s r] st(1) by (simp add: consumed_def)
  then show "\<exists>ws. readValue f st p = Inr (consumed st r (length (print_val (JStr s))) ws)
      \<and> (ws = [] \<longleftrightarrow> admissible (JStr s))"
    by (simp add: f sk Let_def)
qed

lemma print_val_start:
  assumes "json_tree v"
  shows "\<exists>c t. print_val v = c # t \<and> \<not> isWhitespace c \<and> c \<noteq> 93"
  using assms print_num_start
  by (cases v) (auto simp: stringify_string_def isWhitespace_def literal_units is_digit_def, force+)

lemma joinWith_start:
  "x = c # t \<Longrightarrow> \<exists>t'. joinWith sep (x # xs) @ r = c # t'"
  by (cases xs) auto

lemma reads_array:
  assumes "\<And>v. v \<in> set xs \<Longrightarrow> reads v \<and> json_tree v"
  shows "reads (JArr (map Some xs))"
  unfolding reads_def
proof (intro allI impI)
  fix f :: nat and st :: ScanState and p r
  let ?v = "JArr (map Some xs)" and ?J = "joinWith [44] (map print_val xs)"
  assume st: "rest st = print_val ?v @ r" "delimited r" "2 * length (rest st) + 1 \<le> f"
  obtain g where f: "f = Suc g" using st(3) by (cases f) auto
  have full: "rest st = 91 # ?J @ 93 # r" using st(1) by (simp add: comp_def)
  have sk: "skipWhitespace st = st" "peek st = Some 91"
    using reads_skip [OF full] by (auto simp: isWhitespace_def)
  let ?st1 = "consumed st (?J @ 93 # r) (Suc 0) []"
  have adv: "advance (Suc 0) st = ?st1" using full by (simp add: advance_def consumed_def)
  have adm: "admissible ?v \<longleftrightarrow> list_all admissible xs" by (auto simp: list_all_iff)
  show "\<exists>ws. readValue f st p = Inr (consumed st r (length (print_val ?v)) ws) \<and> (ws = [] \<longleftrightarrow> admissible ?v)"
  proof (cases xs)
    case Nil
    have "skipWhitespace ?st1 = ?st1" "peek ?st1 = Some 93"
      using Nil reads_skip [of ?st1 93] by (auto simp: isWhitespace_def)
    then show ?thesis using Nil adv by (auto simp: f sk Let_def)
  next
    case (Cons y ys)
    obtain c t where c: "print_val y = c # t" "\<not> isWhitespace c" "c \<noteq> 93"
      using assms [of y] print_val_start [of y] Cons by auto
    then obtain t' where t': "?J @ 93 # r = c # t'"
      using joinWith_start [OF c(1), of "[44]" "map print_val ys"] Cons by auto
    have sk1: "skipWhitespace ?st1 = ?st1" "peek ?st1 = Some c"
      using reads_skip [of ?st1 c t'] t' c(2) by auto
    obtain ws where "readElements g 0 ?st1 p = Inr (consumed ?st1 r (length ?J + 1) ws)"
      "ws = [] \<longleftrightarrow> list_all admissible xs"
      using read_elements_printed [of xs ?st1 r g 0 p] assms Cons st(3) full f by auto
    then show ?thesis
      using adv c(3) adm by (intro exI [of _ ws]) (auto simp: f sk sk1 Let_def comp_def)
  qed
qed

lemma reads_lit: "v \<in> {JNull, JBool True, JBool False} \<Longrightarrow> reads v"
  unfolding reads_def
proof (intro allI impI)
  fix f :: nat and st :: ScanState and p r
  assume v: "v \<in> {JNull, JBool True, JBool False}" and st: "rest st = print_val v @ r" "2 * length (rest st) + 1 \<le> f"
  then obtain g where "f = Suc g" by (cases f) auto
  then show "\<exists>ws. readValue f st p = Inr (consumed st r (length (print_val v)) ws) \<and> (ws = [] \<longleftrightarrow> admissible v)"
    using reads_literal [OF st(1) v, of g p] v by (auto simp del: readValue.simps)
qed

lemma reads_object:
  assumes "\<And>e. e \<in> set es \<Longrightarrow> reads (snd e)"
  shows "reads (JObj es)"
  unfolding reads_def
proof (intro allI impI)
  fix f :: nat and st :: ScanState and p r
  define J where "J = joinWith [44] (map (\<lambda>(k, v). stringify_string k @ [58] @ print_val v) es)"
  assume st: "rest st = print_val (JObj es) @ r" "delimited r" "2 * length (rest st) + 1 \<le> f"
  obtain g where f: "f = Suc g" using st(3) by (cases f) auto
  have full: "rest st = 123 # J @ 125 # r" and len: "length (print_val (JObj es)) = Suc (Suc (length J))"
    using st(1) by (simp_all add: J_def)
  have sk: "skipWhitespace st = st" "peek st = Some 123"
    using reads_skip [OF full] by (auto simp: isWhitespace_def)
  let ?st1 = "consumed st (J @ 125 # r) (Suc 0) []"
  have adv: "advance (Suc 0) st = ?st1" using full by (simp add: advance_def consumed_def)
  show "\<exists>ws. readValue f st p = Inr (consumed st r (length (print_val (JObj es))) ws) \<and> (ws = [] \<longleftrightarrow> admissible (JObj es))"
  proof (cases es)
    case Nil
    have J: "J = []" by (simp add: J_def Nil)
    have "skipWhitespace ?st1 = ?st1" "peek ?st1 = Some 125"
      using J reads_skip [of ?st1 125] by (auto simp: isWhitespace_def)
    then show ?thesis using Nil adv J by (auto simp: f sk Let_def)
  next
    case (Cons e es')
    obtain k v where e: "e = (k, v)" by (cases e)
    obtain t' where t': "J @ 125 # r = 34 # t'"
      using joinWith_start [of "stringify_string k @ [58] @ print_val v" 34 _ "[44]"] Cons e
      by (force simp: stringify_string_def J_def)
    have sk1: "skipWhitespace ?st1 = ?st1" "peek ?st1 = Some 34"
      using reads_skip [of ?st1 34 t'] t' by (auto simp: isWhitespace_def)
    have room: "2 * length (rest ?st1) + 2 \<le> g" using st(3) f unfolding full by simp
    obtain ws where "readMembers g {} ?st1 p = Inr (consumed ?st1 r (length J + 1) ws)"
      "ws = [] \<longleftrightarrow> distinct (map fst es) \<and> list_all (\<lambda>(k, v). admissible v) es"
      using read_members_printed [of es ?st1 r g "{}" p, folded J_def] assms Cons room by auto
    then show ?thesis
      using adv by (intro exI [of _ ws]) (simp add: f sk sk1 Let_def len del: print_val.simps)
  qed
qed

lemma reads_tree: "json_tree v \<Longrightarrow> reads v"
proof (induction v rule: json_tree.induct)
  case 1
  show ?case by (simp add: reads_lit)
next
  case (2 b)
  show ?case by (cases b) (simp_all add: reads_lit)
next
  case (3 s)
  show ?case by (rule reads_string)
next
  case (4 x)
  then show ?case by (simp add: reads_number)
next
  case (5 xs)
  then have "list_all (\<lambda>i. i \<noteq> None) xs" by (auto simp: list_all_iff split: option.splits)
  then have "xs = map Some (map the xs)" by (auto simp: list_all_iff intro!: map_idI [symmetric])
  moreover have "reads v \<and> json_tree v" if "v \<in> set (map the xs)" for v
    using 5 that by (force simp: list_all_iff split: option.splits)
  ultimately show ?case using reads_array [of "map the xs"] by metis
next
  case (6 es)
  then show ?case by (intro reads_object) (auto simp: list_all_iff)
qed auto



subsection \<open>The serializer is injective\<close>

lemma split_at_stop:
  assumes "list_all P a" and "list_all P a'" and "t = [] \<or> \<not> P (hd t)" and "t' = [] \<or> \<not> P (hd t')"
    and "a @ t = a' @ t'"
  shows "a = a' \<and> t = t'"
proof -
  have tw: "takeWhile P (x @ y) = x" if "list_all P x" "y = [] \<or> \<not> P (hd y)" for x y
    using that by (cases y) (auto simp: list_all_iff takeWhile_append1 takeWhile_append2)
  have "a = a'" using tw [OF assms(1,3)] tw [OF assms(2,4)] assms(5) by simp
  then show ?thesis using assms(5) by simp
qed

lemma digit_units_all: "\<forall>d\<in>set ds. d < 10 \<Longrightarrow> list_all is_digit (map digit_unit ds)"
  by (auto simp: list_all_iff)

lemma digits_then:
  assumes "map digit_unit a @ t = map digit_unit a' @ t'" and "\<forall>d\<in>set a. d < 10" and "\<forall>d\<in>set a'. d < 10"
    and "t = [] \<or> \<not> is_digit (hd t)" and "t' = [] \<or> \<not> is_digit (hd t')"
  shows "a = a' \<and> t = t'"
  using split_at_stop [OF digit_units_all digit_units_all assms(4,5,1)] assms(2,3) map_digit_unit_eq by blast

lemma num_text_inject:
  assumes "wf_parts (a, b, e)" and "wf_parts (a', b', e')" and "num_text (a, b, e) = num_text (a', b', e')"
  shows "(a, b, e) = (a', b', e')"
proof -
  define E where "E e = (case e of None \<Rightarrow> [] | Some (n, ds) \<Rightarrow> 101 # (if n then 45 else 43) # map digit_unit ds)"
    for e :: "(bool \<times> nat list) option"
  define B where "B b = (case b of None \<Rightarrow> [] | Some ds \<Rightarrow> 46 # map digit_unit ds)" for b :: "nat list option"
  have stopE: "E x = [] \<or> \<not> is_digit (hd (E x))" for x by (auto simp: E_def split: option.splits)
  have stopB: "B y @ E x = [] \<or> \<not> is_digit (hd (B y @ E x))" for x y
    using stopE [of x] by (auto simp: B_def split: option.splits)
  have aB: "a = a' \<and> B b @ E e = B b' @ E e'"
    using assms by (intro digits_then stopB) (auto simp: B_def E_def)
  have bE: "b = b' \<and> E e = E e'"
  proof (cases b; cases b')
    fix x y assume xy: "b = Some x" "b' = Some y"
    have "x = y \<and> E e = E e'"
      using aB xy assms(1,2) by (intro digits_then stopE) (auto simp: B_def)
    with xy show ?thesis by simp
  qed (use aB in \<open>auto simp: B_def E_def split: option.splits\<close>)
  have "e = e'"
  proof (cases e; cases e')
    fix x y assume xy: "e = Some x" "e' = Some y"
    obtain n ds n' ds' where p: "x = (n, ds)" "y = (n', ds')" by (cases x; cases y)
    have "ds = ds' \<and> ([] :: jstr) = []"
      using bE xy p assms(1,2) by (intro digits_then) (auto simp: E_def)
    then show ?thesis using bE xy p by (auto simp: E_def split: if_splits)
  qed (use bE in \<open>auto simp: E_def\<close>)
  then show ?thesis using aB bE by simp
qed

lemma strip_zeros_inject:
  assumes "ds @ replicate m 0 = es @ replicate n 0" and "ds \<noteq> []" and "es \<noteq> []" and "last ds \<noteq> 0" and "last es \<noteq> (0::nat)"
  shows "ds = es"
proof -
  have *: "rev (dropWhile (\<lambda>d. d = 0) (rev (xs @ replicate k 0))) = xs"
    if "xs \<noteq> []" "last xs \<noteq> 0" for xs :: "nat list" and k
  proof -
    have "dropWhile (\<lambda>d. d = 0) (replicate k 0 @ rev xs) = rev xs"
      using that by (induction k) (cases "rev xs"; simp add: last_rev hd_rev [symmetric])+
    then show ?thesis by simp
  qed
  show ?thesis using * [of ds m] * [of es n] assms by simp
qed

lemma parts_of_inject:
  assumes "wf_num (Finite s ds n)" and "wf_num (Finite s' es m)" and "parts_of ds n = parts_of es m"
  shows "ds = es \<and> n = m"
proof -
  have wf: "ds \<noteq> []" "hd ds \<noteq> 0" "last ds \<noteq> 0" "es \<noteq> []" "hd es \<noteq> 0" "last es \<noteq> 0" using assms(1,2) by auto
  have nz: "take k xs \<noteq> [0]" if "hd xs \<noteq> 0" for k and xs :: "nat list"
    using that by (cases xs; cases k) auto
  note hds = nz [OF wf(2)] nz [OF wf(5)]
  have z: "replicate i 0 @ ds = replicate j 0 @ es \<Longrightarrow> i = j \<and> ds = es" for i j
  proof -
    assume eq: "replicate i 0 @ ds = replicate j 0 @ es"
    have d: "dropWhile (\<lambda>d. d = 0) (replicate k 0 @ xs) = xs" if "xs \<noteq> []" "hd xs \<noteq> 0" for k and xs :: "nat list"
      using dropWhile_zeros_pad [OF that, of k "[]"] by simp
    have "ds = es" using d [of ds i] d [of es j] wf eq by metis
    then show ?thesis using eq by (metis append_same_eq length_replicate)
  qed
  consider (A) "int (length ds) \<le> n \<and> n \<le> 21"
    | (B) "\<not> (int (length ds) \<le> n \<and> n \<le> 21)" "0 < n \<and> n \<le> 21"
    | (C) "- 6 < n \<and> n \<le> 0" | (D) "\<not> (0 < n \<and> n \<le> 21)" "\<not> (- 6 < n \<and> n \<le> 0)"
    by linarith
  then show ?thesis
  proof cases
    case A
    then have "int (length es) \<le> m \<and> m \<le> 21" and "ds @ replicate (nat n - length ds) 0 = es @ replicate (nat m - length es) 0"
      using assms(3) by (auto simp: parts_of_def split: if_splits)
    moreover from this have "ds = es" using strip_zeros_inject wf by blast
    ultimately show ?thesis using A by auto
  next
    case B
    then have m: "0 < m" "\<not> (int (length es) \<le> m \<and> m \<le> 21)" and "take (nat n) ds = take (nat m) es" "drop (nat n) ds = drop (nat m) es"
      using assms(3) hds by (auto simp: parts_of_def split: if_splits)
    moreover from this have "ds = es" by (metis append_take_drop_id)
    moreover have "length (take (nat n) ds) = nat n" using B by auto
    moreover have "length (take (nat m) es) = nat m \<or> 21 < m" using m by auto
    ultimately show ?thesis using B assms(3) by (auto simp: parts_of_def split: if_splits)
  next
    case C
    then have "parts_of ds n = ([0], Some (replicate (nat (- n)) 0 @ ds), None)"
      using wf(1) by (cases ds) (auto simp: parts_of_def)
    then have "- 6 < m \<and> m \<le> 0" and "replicate (nat (- n)) 0 @ ds = replicate (nat (- m)) 0 @ es"
      using assms(3) hds(2) [of "nat m"] by (simp_all add: parts_of_def split: if_splits)
    then show ?thesis using z [of "nat (- n)" "nat (- m)"] C by auto
  next
    case D
    then have e: "\<not> (0 < m \<and> m \<le> 21)" "\<not> (- 6 < m \<and> m \<le> 0)" "(n - 1 < 0) = (m - 1 < 0)" "nat \<bar>n - 1\<bar> = nat \<bar>m - 1\<bar>"
      and t: "take 1 ds = take 1 es" "(if length ds = 1 then None else Some (drop 1 ds)) = (if length es = 1 then None else Some (drop 1 es))"
      using assms(3) wf by (auto simp: parts_of_def split: if_splits)
    have "drop 1 ds = drop 1 es" using t(2) by (auto split: if_splits)
    then have "ds = es" using t(1) by (metis append_take_drop_id)
    moreover have "n = m" using e(3,4) by linarith
    ultimately show ?thesis by simp
  qed
qed

lemma print_num_inject:
  assumes "wf_num x" and "wf_num y" and "print_num x = print_num y"
  shows "norm_num x = norm_num y"
proof -
  have zero: "is_digit 48" by (simp add: is_digit_def)
  have fin: "\<exists>c t. finite_magnitude ds n = c # t \<and> is_digit c \<and> (t = [] \<longrightarrow> c \<noteq> 48)"
    if wf: "wf_num (Finite s ds n)" for s ds n
    using wf digit_unit_eq [of "hd ds" 0]
    by (cases ds; cases "nat n") (auto simp: finite_magnitude_text parts_of_def zero split: if_splits)
  show ?thesis
  proof (cases x; cases y)
    fix s s' ds es n m assume xy: "x = Finite s ds n" "y = Finite s' es m"
    obtain c t c' t' where c: "finite_magnitude ds n = c # t" "is_digit c" "finite_magnitude es m = c' # t'" "is_digit c'"
      using fin assms(1,2) xy by metis
    then have mag: "s = s'" "finite_magnitude ds n = finite_magnitude es m"
      using assms(3) xy by (auto simp: stringify_finite_def is_digit_def split: if_splits)
    have wf: "wf_parts (parts_of ds n)" "wf_parts (parts_of es m)" using assms(1,2) xy wf_parts_of by auto
    have "parts_of ds n = parts_of es m"
      using num_text_inject wf mag(2) unfolding finite_magnitude_text by (metis prod.collapse)
    then show ?thesis using parts_of_inject assms(1,2) xy mag(1) by auto
  next
    fix s s' ds n assume xy: "x = Finite s ds n" "y = Zero s'"
    then show ?thesis using fin [of s ds n] assms by (auto simp: stringify_finite_def split: if_splits)
  next
    fix s s' ds n assume xy: "x = Zero s'" "y = Finite s ds n"
    then show ?thesis using fin [of s ds n] assms by (auto simp: stringify_finite_def split: if_splits)
  qed (use assms in auto)
qed

definition number_unit :: "code_unit \<Rightarrow> bool" where
  "number_unit c \<longleftrightarrow> is_digit c \<or> c \<in> {43, 45, 46, 101}"

lemma print_num_units: "wf_num x \<Longrightarrow> list_all number_unit (print_num x)"
proof (cases x)
  case (Finite s ds n)
  assume "wf_num x"
  then have "wf_parts (parts_of ds n)" using Finite wf_parts_of by auto
  moreover obtain a b e where "parts_of ds n = (a, b, e)" by (cases "parts_of ds n")
  ultimately show ?thesis
    using Finite by (cases b; cases e)
      (auto simp: stringify_finite_def finite_magnitude_text number_unit_def list_all_iff)
qed (auto simp: number_unit_def is_digit_def)

lemma delimited_stop: "delimited r \<Longrightarrow> r = [] \<or> \<not> number_unit (hd r)"
  by (auto simp: delimited_def number_unit_def is_digit_def)

lemma print_num_prefix:
  assumes "wf_num x" and "wf_num y" and "print_num x @ r = print_num y @ r'" and "delimited r" and "delimited r'"
  shows "norm_num x = norm_num y \<and> r = r'"
proof -
  have "print_num x = print_num y \<and> r = r'"
    by (rule split_at_stop [OF print_num_units [OF assms(1)] print_num_units [OF assms(2)]
          delimited_stop [OF assms(4)] delimited_stop [OF assms(5)] assms(3)])
  then show ?thesis using print_num_inject [OF assms(1,2)] by simp
qed

lemma stringify_string_prefix:
  assumes "stringify_string s @ r = stringify_string s' @ r'"
  shows "s = s' \<and> r = r'"
proof -
  have "quote_units s @ 34 # r = quote_units s' @ 34 # r'" using assms by (simp add: stringify_string_def)
  then have "readStringLoop (quote_units s @ 34 # r) 0 [] = readStringLoop (quote_units s' @ 34 # r') 0 []"
    by (rule arg_cong)
  then show ?thesis by (simp add: readStringLoop_quoted)
qed

text \<open>
  \<open>separates v\<close>: the printed value is determined, up to normal form, by any text that starts with
  it and goes on with a delimiter, and so is the rest of that text.
\<close>

definition separates :: "jsval \<Rightarrow> bool" where
  "separates v \<longleftrightarrow> (\<forall>w r r'. json_tree w \<longrightarrow> delimited r \<longrightarrow> delimited r' \<longrightarrow>
     print_val v @ r = print_val w @ r' \<longrightarrow> norm_val v = norm_val w \<and> r = r')"

lemma separatesD:
  "separates v \<Longrightarrow> json_tree w \<Longrightarrow> delimited r \<Longrightarrow> delimited r' \<Longrightarrow> print_val v @ r = print_val w @ r' \<Longrightarrow>
     norm_val v = norm_val w \<and> r = r'"
  unfolding separates_def by blast

text \<open>The first code unit of a printed value tells its kind.\<close>

fun kind :: "jsval \<Rightarrow> nat" where
  "kind (JStr _) = 1"
| "kind (JArr _) = 2"
| "kind (JObj _) = 3"
| "kind (JBool b) = (if b then 4 else 5)"
| "kind (JNum _) = 6"
| "kind _ = 0"

definition unit_kind :: "code_unit \<Rightarrow> nat" where
  "unit_kind c =
     (if c = 34 then 1 else if c = 91 then 2 else if c = 123 then 3
      else if c = 116 then 4 else if c = 102 then 5 else if is_digit c \<or> c = 45 then 6 else 0)"

lemma kind_of_start: "json_tree v \<Longrightarrow> print_val v \<noteq> [] \<and> unit_kind (hd (print_val v)) = kind v"
proof (cases v)
  case (JNum x)
  assume "json_tree v"
  then obtain c t where "print_num x = c # t" "is_digit c \<or> c = 45" using print_num_start [of x] JNum by auto
  then show ?thesis using JNum by (auto simp: unit_kind_def is_digit_def)
qed (auto simp: unit_kind_def stringify_string_def literal_units is_digit_def)

lemma same_kind:
  assumes "json_tree v" and "json_tree w" and "print_val v @ r = print_val w @ r'"
  shows "kind v = kind w"
  using kind_of_start [OF assms(1)] kind_of_start [OF assms(2)] arg_cong [OF assms(3), of hd] by simp

lemma print_val_not_close:
  assumes "json_tree v"
  shows "print_val v \<noteq> [] \<and> hd (print_val v) \<noteq> 93"
proof -
  have u: "unit_kind (hd (print_val v)) = kind v" and ne: "print_val v \<noteq> []" using kind_of_start [OF assms] by auto
  have "hd (print_val v) = 110" if "kind v = 0"
    using assms that by (cases v) (auto simp: literal_units split: if_splits)
  moreover have "unit_kind 93 = 0" by (simp add: unit_kind_def is_digit_def)
  ultimately show ?thesis using u ne by fastforce
qed

lemma join_Cons:
  "joinWith [44] (map pr (x # xs)) @ c # r =
     pr x @ (if xs = [] then c # r else 44 # joinWith [44] (map pr xs) @ c # r)"
  by (cases xs) auto

lemma join_separate:
  assumes "c \<in> {93, 125}"
  shows "(\<And>x y t t'. x \<in> set xs \<Longrightarrow> y \<in> set ys \<Longrightarrow> delimited t \<Longrightarrow> delimited t' \<Longrightarrow>
      pr x @ t = pr y @ t' \<Longrightarrow> nf x = nf y \<and> t = t') \<Longrightarrow>
    (\<And>x. x \<in> set xs \<union> set ys \<Longrightarrow> pr x \<noteq> [] \<and> hd (pr x) \<noteq> c) \<Longrightarrow>
    joinWith [44] (map pr xs) @ c # r = joinWith [44] (map pr ys) @ c # r' \<Longrightarrow>
    map nf xs = map nf ys \<and> r = r'"
proof (induction xs arbitrary: ys)
  case Nil
  show ?case
  proof (cases ys)
    case (Cons y ys')
    with Nil.prems(3) have "c # r = pr y @ (if ys' = [] then c # r' else 44 # joinWith [44] (map pr ys') @ c # r')"
      using join_Cons [of pr y ys' c r'] by simp
    then have "hd (pr y) = c" using Nil.prems(2) [of y] Cons by (metis UnCI hd_append2 list.sel(1) list.set_intros(1))
    then show ?thesis using Nil.prems(2) [of y] Cons by simp
  qed (use Nil.prems in simp)
next
  case (Cons x xs)
  let ?t = "if xs = [] then c # r else 44 # joinWith [44] (map pr xs) @ c # r"
  show ?case
  proof (cases ys)
    case Nil
    with Cons.prems(3) have "pr x @ ?t = c # r'" using join_Cons [of pr x xs c r] by simp
    then have "hd (pr x) = c" using Cons.prems(2) [of x] by (metis UnCI hd_append2 list.sel(1) list.set_intros(1))
    then show ?thesis using Cons.prems(2) [of x] by simp
  next
    case (Cons y ys')
    let ?t' = "if ys' = [] then c # r' else 44 # joinWith [44] (map pr ys') @ c # r'"
    have "delimited ?t" "delimited ?t'" using assms by auto
    moreover have "pr x @ ?t = pr y @ ?t'"
      using Cons.prems(3) unfolding Cons join_Cons by simp
    ultimately have eq: "nf x = nf y" "?t = ?t'" using Cons.prems(1) [of x y ?t ?t'] Cons by auto
    show ?thesis
    proof (cases "xs = [] \<or> ys' = []")
      case True
      then have "xs = [] \<and> ys' = [] \<and> r = r'" using eq(2) assms by (auto split: if_splits)
      then show ?thesis using eq(1) Cons by simp
    next
      case False
      then have "joinWith [44] (map pr xs) @ c # r = joinWith [44] (map pr ys') @ c # r'" using eq(2) by simp
      then have "map nf xs = map nf ys' \<and> r = r'"
        using Cons.prems(1,2) \<open>ys = y # ys'\<close> by (intro Cons.IH) auto
      then show ?thesis using eq(1) Cons by simp
    qed
  qed
qed

definition print_member :: "jstr \<times> jsval \<Rightarrow> jstr" where
  "print_member e = stringify_string (fst e) @ [58] @ print_val (snd e)"

definition norm_member :: "jstr \<times> jsval \<Rightarrow> jstr \<times> jsval" where
  "norm_member e = (fst e, norm_val (snd e))"

lemma member_separate:
  assumes "separates (snd e)" and "json_tree (snd e')" and "delimited t" and "delimited t'"
    and "print_member e @ t = print_member e' @ t'"
  shows "norm_member e = norm_member e' \<and> t = t'"
proof -
  have "fst e = fst e' \<and> 58 # print_val (snd e) @ t = 58 # print_val (snd e') @ t'"
    using assms(5) by (intro stringify_string_prefix) (simp add: print_member_def)
  then show ?thesis using separatesD [OF assms(1-4)] by (simp add: norm_member_def)
qed

lemma separates_array:
  assumes "\<And>v. v \<in> set xs \<Longrightarrow> separates v \<and> json_tree v"
  shows "separates (JArr (map Some xs))"
  unfolding separates_def
proof (intro allI impI)
  fix w r r'
  assume w: "json_tree w" "delimited r" "delimited r'" and eq: "print_val (JArr (map Some xs)) @ r = print_val w @ r'"
  have v: "json_tree (JArr (map Some xs))" using assms by (simp add: list_all_iff)
  obtain zs where zs: "w = JArr zs" using same_kind [OF v w(1) eq] by (cases w) (auto split: if_splits)
  have some: "\<forall>z\<in>set zs. \<exists>y. z = Some y \<and> json_tree y"
    using w(1) by (auto simp: zs list_all_iff split: option.splits)
  define ys where "ys = map the zs"
  have ys: "zs = map Some ys" "\<And>y. y \<in> set ys \<Longrightarrow> json_tree y"
    using some by (auto simp: ys_def intro!: map_idI [symmetric])
  have "map norm_val xs = map norm_val ys \<and> r = r'"
    using eq ys assms print_val_not_close
    by (intro join_separate [where c = 93 and pr = print_val]) (auto simp: zs comp_def dest: separatesD)
  moreover have "norm_val (JArr (map Some vs)) = JArr (map Some (map norm_val vs))" for vs by simp
  ultimately show "norm_val (JArr (map Some xs)) = norm_val w \<and> r = r'" by (simp only: zs ys)
qed

lemma separates_object:
  assumes "\<And>e. e \<in> set es \<Longrightarrow> separates (snd e) \<and> json_tree (snd e)"
  shows "separates (JObj es)"
  unfolding separates_def
proof (intro allI impI)
  fix w r r'
  assume w: "json_tree w" "delimited r" "delimited r'" and eq: "print_val (JObj es) @ r = print_val w @ r'"
  have v: "json_tree (JObj es)" using assms by (auto simp: list_all_iff)
  obtain es' where es': "w = JObj es'" using same_kind [OF v w(1) eq] by (cases w) (auto split: if_splits)
  have pm: "(\<lambda>(k, v). stringify_string k @ 58 # print_val v) = print_member"
    "(\<lambda>(k, v). (k, norm_val v)) = norm_member"
    by (auto simp: print_member_def norm_member_def)
  have trees: "json_tree (snd e)" if "e \<in> set es'" for e using w(1) that by (auto simp: es' list_all_iff)
  have joined: "joinWith [44] (map print_member es) @ 125 # r = joinWith [44] (map print_member es') @ 125 # r'"
    using eq by (simp add: es' pm)
  have start: "print_member e \<noteq> [] \<and> hd (print_member e) \<noteq> 125" for e
    by (simp add: print_member_def stringify_string_def)
  have "map norm_member es = map norm_member es' \<and> r = r'"
    using assms trees joined start
    by (intro join_separate [where c = 125 and pr = print_member] member_separate) auto
  then show "norm_val (JObj es) = norm_val w \<and> r = r'" by (simp add: es' pm)
qed

lemma separates_tree: "json_tree v \<Longrightarrow> separates v"
proof (induction v rule: json_tree.induct)
  case 1
  have t: "json_tree JNull" by simp
  show ?case unfolding separates_def
  proof (intro allI impI)
    fix w r r'
    assume w: "json_tree w" and eq: "print_val JNull @ r = print_val w @ r'"
    then have "w = JNull" using same_kind [OF t w eq] by (cases w) (auto split: if_splits)
    then show "norm_val JNull = norm_val w \<and> r = r'" using eq by simp
  qed
next
  case (2 b)
  have t: "json_tree (JBool b)" by simp
  show ?case unfolding separates_def
  proof (intro allI impI)
    fix w r r'
    assume w: "json_tree w" and eq: "print_val (JBool b) @ r = print_val w @ r'"
    then have "w = JBool b" using same_kind [OF t w eq] by (cases w) (auto split: if_splits)
    then show "norm_val (JBool b) = norm_val w \<and> r = r'" using eq by simp
  qed
next
  case (3 s)
  have t: "json_tree (JStr s)" by simp
  show ?case unfolding separates_def
  proof (intro allI impI)
    fix w r r'
    assume w: "json_tree w" and eq: "print_val (JStr s) @ r = print_val w @ r'"
    then obtain s' where w': "w = JStr s'" using same_kind [OF t w eq] by (cases w) (auto split: if_splits)
    then show "norm_val (JStr s) = norm_val w \<and> r = r'"
      using eq stringify_string_prefix [of s r s' r'] by simp
  qed
next
  case (4 x)
  show ?case unfolding separates_def
  proof (intro allI impI)
    fix w r r'
    assume w: "json_tree w" "delimited r" "delimited r'" and eq: "print_val (JNum x) @ r = print_val w @ r'"
    then obtain y where w': "w = JNum y" using same_kind [OF "4.prems" w(1) eq] by (cases w) (auto split: if_splits)
    then show "norm_val (JNum x) = norm_val w \<and> r = r'"
      using eq print_num_prefix [of x y r r'] "4.prems" w by simp
  qed
next
  case (5 xs)
  then have "list_all (\<lambda>i. i \<noteq> None) xs" by (auto simp: list_all_iff split: option.splits)
  then have "xs = map Some (map the xs)" by (auto simp: list_all_iff intro!: map_idI [symmetric])
  moreover have "separates v \<and> json_tree v" if "v \<in> set (map the xs)" for v
    using 5 that by (force simp: list_all_iff split: option.splits)
  ultimately show ?case using separates_array [of "map the xs"] by metis
next
  case (6 es)
  then show ?case by (intro separates_object) (auto simp: list_all_iff)
qed auto

lemma json_shaped_tree: "json_shaped v \<Longrightarrow> json_tree v"
  by (induction v rule: json_shaped.induct) (auto simp: list_all_iff split: option.splits)

lemma norm_val_idem: "json_shaped v \<Longrightarrow> norm_val (norm_val v) = norm_val v"
proof (induction v rule: json_shaped.induct)
  case (4 x)
  then show ?case by (cases x) auto
next
  case (5 xs)
  then show ?case by (auto simp: list_all_iff split: option.splits)
next
  case (6 es)
  have pm: "(\<lambda>(k, v). (k, norm_val v)) = norm_member" by (auto simp: norm_member_def)
  have out: "sort_by key_le (map norm_member xs) = map norm_member (sort_by key_le xs)" for xs
    by (rule sort_by_map) (simp add: key_le_def norm_member_def)
  have idem: "norm_member (norm_member e) = norm_member e" if "e \<in> set es" for e
    using 6 that by (auto simp: norm_member_def list_all_iff)
  have "sorted_wrt key_le (sort_by key_le es)"
    by (rule sorted_wrt_sort_by) (auto simp: key_le_iff)
  then have "sort_by key_le (sort_by key_le es) = sort_by key_le es" by (rule sort_by_sorted)
  moreover have "map norm_member (map norm_member (sort_by key_le es)) = map norm_member (sort_by key_le es)"
    using idem by simp
  ultimately show ?case by (simp only: norm_val.simps pm out)
qed auto

lemma canonicalize_inject:
  assumes "json_shaped v" and "json_shaped w" and "canonicalize v = canonicalize w"
  shows "norm_val v = norm_val w"
proof -
  let ?v = "norm_val v" and ?w = "norm_val w"
  have shaped: "json_shaped ?v" "json_shaped ?w" using assms json_shaped_norm by auto
  have "print_val ?v = print_val ?w" using assms canonicalize_norm by simp
  then show ?thesis
    using separatesD [OF separates_tree [OF json_shaped_tree [OF shaped(1)]] json_shaped_tree [OF shaped(2)], of "[]" "[]"]
      norm_val_idem assms by simp
qed

text \<open>
  Claim C21. The canonical serializer has exactly its intended kernel: on JSON-shaped values it always
  succeeds, and two values get the same text if and only if they agree up to the order of object
  keys and the sign of zero.
\<close>

theorem canonicalize_kernel:
  assumes "json_shaped v" and "json_shaped w"
  shows "\<exists>t u. canonicalize v = Inr t \<and> canonicalize w = Inr u \<and> (t = u \<longleftrightarrow> norm_val v = norm_val w)"
  using canonicalize_norm [OF assms(1)] canonicalize_norm [OF assms(2)] canonicalize_inject [OF assms] by auto

theorem canonicalize_kernel_witness:
  "\<exists>t u. canonicalize (JObj [(js ''b'', JNum (Zero True)), (js ''a'', JNull)]) = Inr t
    \<and> canonicalize (JObj [(js ''a'', JNull), (js ''b'', JNum (Zero False))]) = Inr u \<and> t = u"
proof -
  have "norm_val (JObj [(js ''b'', JNum (Zero True)), (js ''a'', JNull)]) =
      norm_val (JObj [(js ''a'', JNull), (js ''b'', JNum (Zero False))])"
    by code_simp
  then show ?thesis
    using canonicalize_kernel [of "JObj [(js ''b'', JNum (Zero True)), (js ''a'', JNull)]"
        "JObj [(js ''a'', JNull), (js ''b'', JNum (Zero False))]"] by simp
qed

end
