(* ===== verification/Receipts.thy ===== *)
theory Receipts
  imports Policy Strict_Admission "HOL-Library.Monad_Syntax"
begin

text \<open>
  Decision receipts: their schema (\<open>receipts/schema.ts\<close>), canonical form, identifiers and digests
  (\<open>receipts/canonical.ts\<close>) of \<open>packages/enforcement-runtime/src\<close>. The repository errors of \<open>receipts/repository.ts\<close> are
  constructors of the same error type.

  What the code takes from outside is a record of parameters: the SHA-256 hex digest, the keyed
  digest, the date-time format check of the schema library and \<open>Date.parse\<close>. A receipt is a record,
  the signed one extending the unsigned one; \<open>unknown\<close> inputs are \<open>jsval\<close>s, decoded strictly.
\<close>

subsection \<open>Schema\<close>

record receipt_env =
  sha256 :: "jstr \<Rightarrow> jstr"
  hmac :: "jstr \<Rightarrow> jstr \<Rightarrow> jstr"
  zod_datetime :: "jstr \<Rightarrow> bool"
  date_parse :: "jstr \<Rightarrow> int option"

datatype SignatureAlg = LOCAL_HMAC_SHA256_DEV_ONLY | KMS_SIGN_RSASSA_PSS_SHA_256

fun alg_name :: "SignatureAlg \<Rightarrow> jstr" where
  "alg_name LOCAL_HMAC_SHA256_DEV_ONLY = js ''LOCAL_HMAC_SHA256_DEV_ONLY''"
| "alg_name KMS_SIGN_RSASSA_PSS_SHA_256 = js ''KMS_SIGN_RSASSA_PSS_SHA_256''"

record UnsignedDecisionReceipt =
  r_receipt_id :: jstr
  r_request_id :: jstr
  r_tenant_id_hash :: jstr
  r_user_id_hash :: jstr
  r_session_id_hash :: jstr
  r_timestamp :: jstr
  r_model_id :: jstr
  r_policy_version :: jstr
  r_policy_hash :: jstr
  r_input_digest :: jstr
  r_retrieved_context_digests :: "jstr list"
  r_execution_context_hash :: jstr
  r_execution_nonce :: jstr
  r_decision_pre :: DecisionKind
  r_decision_post :: DecisionKind
  r_action_taken :: "jstr list"
  r_risk_score :: jnum
  r_consent_state :: ConsentState
  r_memory_written :: bool
  r_latency_ms :: jnum
  r_cost_estimate_usd :: jnum
  r_prev_receipt_hash :: "jstr option"
  r_signature_alg :: SignatureAlg

record SignedDecisionReceipt = UnsignedDecisionReceipt +
  r_receipt_signature :: jstr

definition grct_shape :: "jstr \<Rightarrow> bool" where
  "grct_shape s \<longleftrightarrow> startsWith s (js ''grct_'') \<and> hex64 (drop 5 s)"

definition digest_shape :: "jstr \<Rightarrow> bool" where
  "digest_shape s \<longleftrightarrow> sha256_shape s \<or> hmac_shape s"

definition valid_unsigned :: "receipt_env \<Rightarrow> ('a) UnsignedDecisionReceipt_scheme \<Rightarrow> bool" where
  "valid_unsigned env r \<longleftrightarrow>
     grct_shape (r_receipt_id r) \<and> r_request_id r \<noteq> []
     \<and> digest_shape (r_tenant_id_hash r) \<and> digest_shape (r_user_id_hash r) \<and> digest_shape (r_session_id_hash r)
     \<and> zod_datetime env (r_timestamp r) \<and> r_model_id r \<noteq> [] \<and> r_policy_version r \<noteq> []
     \<and> hex64 (r_policy_hash r) \<and> digest_shape (r_input_digest r)
     \<and> list_all digest_shape (r_retrieved_context_digests r)
     \<and> digest_shape (r_execution_context_hash r) \<and> url_safe_between 8 256 (r_execution_nonce r)
     \<and> list_all (\<lambda>a. a \<noteq> []) (r_action_taken r)
     \<and> zod_unit_interval (r_risk_score r) \<and> zod_nonnegative_int (r_latency_ms r)
     \<and> zod_nonnegative (r_cost_estimate_usd r)
     \<and> (case r_prev_receipt_hash r of None \<Rightarrow> True | Some p \<Rightarrow> sha256_shape p)"

definition valid_signed :: "receipt_env \<Rightarrow> SignedDecisionReceipt \<Rightarrow> bool" where
  "valid_signed env r \<longleftrightarrow> valid_unsigned env r \<and> r_receipt_signature r \<noteq> []"

subsection \<open>Receipts as JSON objects\<close>

definition body_entries :: "('a) UnsignedDecisionReceipt_scheme \<Rightarrow> (jstr \<times> jsval) list" where
  "body_entries r =
     [(js ''schema_version'', JStr (js ''ghost.receipt.v1'')),
      (js ''request_id'', JStr (r_request_id r)),
      (js ''tenant_id_hash'', JStr (r_tenant_id_hash r)),
      (js ''user_id_hash'', JStr (r_user_id_hash r)),
      (js ''session_id_hash'', JStr (r_session_id_hash r)),
      (js ''timestamp'', JStr (r_timestamp r)),
      (js ''model_id'', JStr (r_model_id r)),
      (js ''policy_version'', JStr (r_policy_version r)),
      (js ''policy_hash'', JStr (r_policy_hash r)),
      (js ''input_digest'', JStr (r_input_digest r)),
      (js ''retrieved_context_digests'', json_list JStr (r_retrieved_context_digests r)),
      (js ''execution_context_hash'', JStr (r_execution_context_hash r)),
      (js ''execution_nonce'', JStr (r_execution_nonce r)),
      (js ''decision_pre'', JStr (decision_name (r_decision_pre r))),
      (js ''decision_post'', JStr (decision_name (r_decision_post r))),
      (js ''action_taken'', json_list JStr (r_action_taken r)),
      (js ''risk_score'', JNum (r_risk_score r)),
      (js ''consent_state'', JStr (consent_name (r_consent_state r))),
      (js ''memory_written'', JBool (r_memory_written r)),
      (js ''latency_ms'', JNum (r_latency_ms r)),
      (js ''cost_estimate_usd'', JNum (r_cost_estimate_usd r)),
      (js ''signature_alg'', JStr (alg_name (r_signature_alg r)))]"

definition prev_entry :: "('a) UnsignedDecisionReceipt_scheme \<Rightarrow> jstr \<times> jsval" where
  "prev_entry r = (js ''prev_receipt_hash'', case r_prev_receipt_hash r of None \<Rightarrow> JNull | Some p \<Rightarrow> JStr p)"

definition id_entry :: "('a) UnsignedDecisionReceipt_scheme \<Rightarrow> jstr \<times> jsval" where
  "id_entry r = (js ''receipt_id'', JStr (r_receipt_id r))"

definition without_id_json :: "('a) UnsignedDecisionReceipt_scheme \<Rightarrow> jsval" where
  "without_id_json r = JObj (prev_entry r # body_entries r)"

definition unsigned_json :: "('a) UnsignedDecisionReceipt_scheme \<Rightarrow> jsval" where
  "unsigned_json r = JObj (id_entry r # prev_entry r # body_entries r)"

definition signed_json :: "SignedDecisionReceipt \<Rightarrow> jsval" where
  "signed_json r =
     JObj ((js ''receipt_signature'', JStr (r_receipt_signature r)) # id_entry r # prev_entry r # body_entries r)"

text \<open>Strict decoding of an unknown value: unknown keys and values of other types are rejected.\<close>

definition get_string :: "(jstr \<times> jsval) list \<Rightarrow> string \<Rightarrow> jstr option" where
  "get_string es k = (case map_of es (js k) of Some (JStr s) \<Rightarrow> Some s | _ \<Rightarrow> None)"

definition get_number :: "(jstr \<times> jsval) list \<Rightarrow> string \<Rightarrow> jnum option" where
  "get_number es k = (case map_of es (js k) of Some (JNum x) \<Rightarrow> Some x | _ \<Rightarrow> None)"

definition get_bool :: "(jstr \<times> jsval) list \<Rightarrow> string \<Rightarrow> bool option" where
  "get_bool es k = (case map_of es (js k) of Some (JBool b) \<Rightarrow> Some b | _ \<Rightarrow> None)"

fun strings_of :: "jsval option list \<Rightarrow> jstr list option" where
  "strings_of [] = Some []"
| "strings_of (Some (JStr s) # xs) = map_option ((#) s) (strings_of xs)"
| "strings_of _ = None"

definition get_strings :: "(jstr \<times> jsval) list \<Rightarrow> string \<Rightarrow> jstr list option" where
  "get_strings es k =
     (case map_of es (js k) of
        None \<Rightarrow> Some []
      | Some JUndefined \<Rightarrow> Some []
      | Some (JArr xs) \<Rightarrow> strings_of xs
      | _ \<Rightarrow> None)"

definition get_nullable :: "(jstr \<times> jsval) list \<Rightarrow> string \<Rightarrow> jstr option option" where
  "get_nullable es k =
     (case map_of es (js k) of
        None \<Rightarrow> Some None
      | Some JUndefined \<Rightarrow> Some None
      | Some JNull \<Rightarrow> Some None
      | Some (JStr s) \<Rightarrow> Some (Some s)
      | _ \<Rightarrow> None)"

definition get_enum :: "('a \<Rightarrow> jstr) \<Rightarrow> 'a list \<Rightarrow> (jstr \<times> jsval) list \<Rightarrow> string \<Rightarrow> 'a option" where
  "get_enum name all es k = Option.bind (get_string es k) (\<lambda>s. find (\<lambda>x. name x = s) all)"

definition all_decisions :: "DecisionKind list" where
  "all_decisions = [ALLOW, MODIFY, REDACT, REFUSE, SILENCE, ESCALATE, REQUIRE_CONSENT, MEMORY_SUPPRESS,
     RECEIPT_ONLY, HUMAN_REVIEW]"

definition all_consents :: "ConsentState list" where
  "all_consents = [Granted, Denied, Missing, Not_required]"

definition all_algs :: "SignatureAlg list" where
  "all_algs = [LOCAL_HMAC_SHA256_DEV_ONLY, KMS_SIGN_RSASSA_PSS_SHA_256]"

definition unsigned_keys :: "string list" where
  "unsigned_keys = [''schema_version'', ''receipt_id'', ''request_id'', ''tenant_id_hash'', ''user_id_hash'',
     ''session_id_hash'', ''timestamp'', ''model_id'', ''policy_version'', ''policy_hash'', ''input_digest'',
     ''retrieved_context_digests'', ''execution_context_hash'', ''execution_nonce'', ''decision_pre'',
     ''decision_post'', ''action_taken'', ''risk_score'', ''consent_state'', ''memory_written'', ''latency_ms'',
     ''cost_estimate_usd'', ''prev_receipt_hash'', ''signature_alg'']"

definition decode_unsigned :: "(jstr \<times> jsval) list \<Rightarrow> UnsignedDecisionReceipt option" where
  "decode_unsigned es = do {
     ver \<leftarrow> get_string es ''schema_version'';
     rid \<leftarrow> get_string es ''receipt_id'';
     req \<leftarrow> get_string es ''request_id'';
     ten \<leftarrow> get_string es ''tenant_id_hash'';
     usr \<leftarrow> get_string es ''user_id_hash'';
     ses \<leftarrow> get_string es ''session_id_hash'';
     ts \<leftarrow> get_string es ''timestamp'';
     mdl \<leftarrow> get_string es ''model_id'';
     pv \<leftarrow> get_string es ''policy_version'';
     ph \<leftarrow> get_string es ''policy_hash'';
     inp \<leftarrow> get_string es ''input_digest'';
     rcd \<leftarrow> get_strings es ''retrieved_context_digests'';
     ech \<leftarrow> get_string es ''execution_context_hash'';
     nonce \<leftarrow> get_string es ''execution_nonce'';
     dpre \<leftarrow> get_enum decision_name all_decisions es ''decision_pre'';
     dpost \<leftarrow> get_enum decision_name all_decisions es ''decision_post'';
     act \<leftarrow> get_strings es ''action_taken'';
     risk \<leftarrow> get_number es ''risk_score'';
     cons \<leftarrow> get_enum consent_name all_consents es ''consent_state'';
     mem \<leftarrow> get_bool es ''memory_written'';
     lat \<leftarrow> get_number es ''latency_ms'';
     cost \<leftarrow> get_number es ''cost_estimate_usd'';
     prev \<leftarrow> get_nullable es ''prev_receipt_hash'';
     alg \<leftarrow> get_enum alg_name all_algs es ''signature_alg'';
     if ver = js ''ghost.receipt.v1''
     then Some \<lparr>r_receipt_id = rid, r_request_id = req, r_tenant_id_hash = ten, r_user_id_hash = usr,
       r_session_id_hash = ses, r_timestamp = ts, r_model_id = mdl, r_policy_version = pv, r_policy_hash = ph,
       r_input_digest = inp, r_retrieved_context_digests = rcd, r_execution_context_hash = ech,
       r_execution_nonce = nonce, r_decision_pre = dpre, r_decision_post = dpost, r_action_taken = act,
       r_risk_score = risk, r_consent_state = cons, r_memory_written = mem, r_latency_ms = lat,
       r_cost_estimate_usd = cost, r_prev_receipt_hash = prev, r_signature_alg = alg\<rparr>
     else None
   }"

datatype receipt_error =
    SchemaInvalid
  | ReceiptNotCanonical canonical_error
  | BadDigestShape
  | BadNonceShape
  | BadNonceLength
  | EmptySecret
  | DefaultContextHash
  | DefaultNonce
  | UriMalformed
  | RequestReplayMismatch
  | MarkerWithoutReceipt
  | ReceiptKeyCollision
  | ChainHeadConflict

definition parseUnsigned :: "receipt_env \<Rightarrow> jsval \<Rightarrow> receipt_error + UnsignedDecisionReceipt" where
  "parseUnsigned env v =
     (case v of
        JObj es \<Rightarrow>
          if fst ` set es \<subseteq> set (map js unsigned_keys) then
            (case decode_unsigned es of
               None \<Rightarrow> Inl SchemaInvalid
             | Some r \<Rightarrow> if valid_unsigned env r then Inr r else Inl SchemaInvalid)
          else Inl SchemaInvalid
      | _ \<Rightarrow> Inl SchemaInvalid)"

definition parseSigned :: "receipt_env \<Rightarrow> jsval \<Rightarrow> receipt_error + SignedDecisionReceipt" where
  "parseSigned env v =
     (case v of
        JObj es \<Rightarrow>
          if fst ` set es \<subseteq> set (map js (''receipt_signature'' # unsigned_keys)) then
            (case (decode_unsigned es, get_string es ''receipt_signature'') of
               (Some r, Some s) \<Rightarrow>
                 let signed = UnsignedDecisionReceipt.extend r \<lparr>r_receipt_signature = s\<rparr> in
                 if valid_signed env signed then Inr signed else Inl SchemaInvalid
             | _ \<Rightarrow> Inl SchemaInvalid)
          else Inl SchemaInvalid
      | _ \<Rightarrow> Inl SchemaInvalid)"

text \<open>The same validation on values that are receipts already.\<close>

definition validateUnsignedDecisionReceipt ::
  "receipt_env \<Rightarrow> UnsignedDecisionReceipt \<Rightarrow> receipt_error + UnsignedDecisionReceipt" where
  "validateUnsignedDecisionReceipt env r = (if valid_unsigned env r then Inr r else Inl SchemaInvalid)"

definition validateSignedDecisionReceipt ::
  "receipt_env \<Rightarrow> SignedDecisionReceipt \<Rightarrow> receipt_error + SignedDecisionReceipt" where
  "validateSignedDecisionReceipt env r = (if valid_signed env r then Inr r else Inl SchemaInvalid)"

subsection \<open>Canonical form, identifiers and digests\<close>

definition DEFAULT_EXECUTION_CONTEXT_HASH :: jstr where
  "DEFAULT_EXECUTION_CONTEXT_HASH = js ''sha256:'' @ replicate 64 48"

definition DEFAULT_EXECUTION_NONCE :: jstr where
  "DEFAULT_EXECUTION_NONCE = js ''local-dev-execution-nonce''"

definition createExecutionNonce :: "(nat \<Rightarrow> jstr) \<Rightarrow> int \<Rightarrow> receipt_error + jstr" where
  "createExecutionNonce random_base64url bytes =
     (if \<not> is_safe_integer bytes \<or> bytes < 18 \<or> bytes > 96 then Inl BadNonceLength
      else Inr (random_base64url (nat bytes)))"

definition publicSha256Digest :: "receipt_env \<Rightarrow> jstr \<Rightarrow> jstr" where
  "publicSha256Digest env v = js ''sha256:'' @ sha256 env v"

definition privateHmacDigest :: "receipt_env \<Rightarrow> jstr \<Rightarrow> jstr \<Rightarrow> receipt_error + jstr" where
  "privateHmacDigest env secret v =
     (if secret = [] then Inl EmptySecret else Inr (js ''hmac-sha256:'' @ hmac env secret v))"

definition unsignedReceiptForSigning ::
  "receipt_env \<Rightarrow> ('a) UnsignedDecisionReceipt_scheme \<Rightarrow> receipt_error + UnsignedDecisionReceipt" where
  "unsignedReceiptForSigning env r = validateUnsignedDecisionReceipt env (UnsignedDecisionReceipt.truncate r)"

definition isDefaultExecutionBoundary :: "('a) UnsignedDecisionReceipt_scheme \<Rightarrow> bool" where
  "isDefaultExecutionBoundary r \<longleftrightarrow>
     r_execution_context_hash r = DEFAULT_EXECUTION_CONTEXT_HASH \<or> r_execution_nonce r = DEFAULT_EXECUTION_NONCE"

definition assertNonDefaultExecutionBoundary ::
  "receipt_env \<Rightarrow> ('a) UnsignedDecisionReceipt_scheme \<Rightarrow> receipt_error + unit" where
  "assertNonDefaultExecutionBoundary env r =
     (case unsignedReceiptForSigning env r of
        Inl e \<Rightarrow> Inl e
      | Inr u \<Rightarrow>
          if r_execution_context_hash u = DEFAULT_EXECUTION_CONTEXT_HASH then Inl DefaultContextHash
          else if r_execution_nonce u = DEFAULT_EXECUTION_NONCE then Inl DefaultNonce
          else Inr ())"

definition canonical_text :: "jsval \<Rightarrow> receipt_error + jstr" where
  "canonical_text v = (case canonicalize v of Inl e \<Rightarrow> Inl (ReceiptNotCanonical e) | Inr t \<Rightarrow> Inr t)"

definition canonical_digest :: "receipt_env \<Rightarrow> jsval \<Rightarrow> receipt_error + jstr" where
  "canonical_digest env v = (case canonical_text v of Inl e \<Rightarrow> Inl e | Inr t \<Rightarrow> Inr (sha256 env t))"

definition receiptIdFromUnsignedDecisionReceipt ::
  "receipt_env \<Rightarrow> ('a) UnsignedDecisionReceipt_scheme \<Rightarrow> receipt_error + jstr" where
  "receiptIdFromUnsignedDecisionReceipt env r =
     (case canonical_digest env (without_id_json r) of Inl e \<Rightarrow> Inl e | Inr d \<Rightarrow> Inr (js ''grct_'' @ d))"

definition canonicalUnsignedDecisionReceipt ::
  "receipt_env \<Rightarrow> ('a) UnsignedDecisionReceipt_scheme \<Rightarrow> receipt_error + jstr" where
  "canonicalUnsignedDecisionReceipt env r =
     (case unsignedReceiptForSigning env r of Inl e \<Rightarrow> Inl e | Inr u \<Rightarrow> canonical_text (unsigned_json u))"

definition decisionReceiptDigest :: "receipt_env \<Rightarrow> ('a) UnsignedDecisionReceipt_scheme \<Rightarrow> receipt_error + jstr" where
  "decisionReceiptDigest env r =
     (case canonicalUnsignedDecisionReceipt env r of Inl e \<Rightarrow> Inl e | Inr t \<Rightarrow> Inr (sha256 env t))"

definition decisionReceiptRequestDigest ::
  "receipt_env \<Rightarrow> ('a) UnsignedDecisionReceipt_scheme \<Rightarrow> receipt_error + jstr" where
  "decisionReceiptRequestDigest env r =
     (case unsignedReceiptForSigning env r of
        Inl e \<Rightarrow> Inl e
      | Inr u \<Rightarrow> canonical_digest env (JObj (body_entries u)))"

definition signedDecisionReceiptHash :: "receipt_env \<Rightarrow> SignedDecisionReceipt \<Rightarrow> receipt_error + jstr" where
  "signedDecisionReceiptHash env r =
     (case validateSignedDecisionReceipt env r of
        Inl e \<Rightarrow> Inl e
      | Inr s \<Rightarrow> (case canonical_digest env (signed_json s) of Inl e \<Rightarrow> Inl e | Inr d \<Rightarrow> Inr (js ''sha256:'' @ d)))"

text \<open>
  The input of \<open>buildUnsignedDecisionReceipt\<close>: a receipt whose identifier, execution context hash
  and nonce may be absent.
\<close>

record DecisionReceiptBuildInput =
  b_receipt :: UnsignedDecisionReceipt
  b_receipt_id :: "jstr option"
  b_execution_context_hash :: "jstr option"
  b_execution_nonce :: "jstr option"

definition input_digest_ok :: "jstr \<Rightarrow> bool" where
  "input_digest_ok d = (if startsWith d (js ''hmac-sha256:'') then hmac_shape d else sha256_shape d)"

definition buildUnsignedDecisionReceipt ::
  "receipt_env \<Rightarrow> DecisionReceiptBuildInput \<Rightarrow> receipt_error + UnsignedDecisionReceipt" where
  "buildUnsignedDecisionReceipt env inp =
     (let r = b_receipt inp;
          nonce = or_default DEFAULT_EXECUTION_NONCE (b_execution_nonce inp)
      in if (case b_execution_context_hash inp of None \<Rightarrow> False | Some c \<Rightarrow> \<not> sha256_shape c) then Inl BadDigestShape
         else if \<not> input_digest_ok (r_input_digest r) then Inl BadDigestShape
         else if \<not> url_safe_between 8 256 nonce then Inl BadNonceShape
         else
           (let withoutId = r\<lparr>r_retrieved_context_digests := sort_by (\<le>) (r_retrieved_context_digests r),
                  r_execution_context_hash := or_default DEFAULT_EXECUTION_CONTEXT_HASH (b_execution_context_hash inp),
                  r_execution_nonce := nonce,
                  r_action_taken := sort_by (\<le>) (r_action_taken r)\<rparr>
            in case (case b_receipt_id inp of
                       Some i \<Rightarrow> Inr i
                     | None \<Rightarrow> receiptIdFromUnsignedDecisionReceipt env withoutId) of
                 Inl e \<Rightarrow> Inl e
               | Inr i \<Rightarrow> validateUnsignedDecisionReceipt env (withoutId\<lparr>r_receipt_id := i\<rparr>)))"

subsection \<open>Lemmas on the JSON form\<close>

lemmas receipt_json_defs = without_id_json_def unsigned_json_def signed_json_def id_entry_def prev_entry_def body_entries_def

text \<open>The numbers of a receipt are in shortest-decimal form, as those of every JavaScript number are.\<close>

definition wf_receipt_numbers :: "('a) UnsignedDecisionReceipt_scheme \<Rightarrow> bool" where
  "wf_receipt_numbers r \<longleftrightarrow> wf_num (r_risk_score r) \<and> wf_num (r_latency_ms r) \<and> wf_num (r_cost_estimate_usd r)"

text \<open>The receipt with positive zeros, which is what the canonical text determines.\<close>

definition unsigned_zero :: "('a) UnsignedDecisionReceipt_scheme \<Rightarrow> ('a) UnsignedDecisionReceipt_scheme" where
  "unsigned_zero r = r\<lparr>r_risk_score := norm_num (r_risk_score r), r_latency_ms := norm_num (r_latency_ms r),
     r_cost_estimate_usd := norm_num (r_cost_estimate_usd r)\<rparr>"

lemma json_shaped_signed: "json_shaped (signed_json r) \<longleftrightarrow> wf_receipt_numbers r"
  by (auto simp: receipt_json_defs wf_receipt_numbers_def split: option.splits)

lemma json_shaped_unsigned: "json_shaped (unsigned_json r) \<longleftrightarrow> wf_receipt_numbers r"
  by (auto simp: receipt_json_defs wf_receipt_numbers_def split: option.splits)

lemma json_shaped_body: "json_shaped (JObj (body_entries r)) \<longleftrightarrow> wf_receipt_numbers r"
  by (auto simp: receipt_json_defs wf_receipt_numbers_def split: option.splits)

lemma decision_name_inject [simp]: "decision_name a = decision_name b \<longleftrightarrow> a = b"
  by (cases a; cases b) simp_all

lemma consent_name_inject [simp]: "consent_name a = consent_name b \<longleftrightarrow> a = b"
  by (cases a; cases b) simp_all

lemma alg_name_inject [simp]: "alg_name a = alg_name b \<longleftrightarrow> a = b"
  by (cases a; cases b) simp_all

lemma norm_val_json_list [simp]: "norm_val (json_list JStr xs) = json_list JStr xs"
  by (simp add: json_list_def)

lemma json_list_inject [simp]: "json_list JStr xs = json_list JStr ys \<longleftrightarrow> xs = ys"
proof -
  have "inj (\<lambda>x. Some (JStr x))" by (simp add: inj_def)
  then show ?thesis by (simp add: json_list_def inj_map_eq_map)
qed

lemma norm_val_object_entry:
  assumes "norm_val (JObj es) = norm_val (JObj fs)" and "distinct (map fst es)" and "distinct (map fst fs)"
  shows "map_option norm_val (map_of es k) = map_option norm_val (map_of fs k)"
proof -
  have sorted: "map_of (sort_by key_le (map (\<lambda>(k, v). (k, norm_val v)) gs)) k = map_option norm_val (map_of gs k)"
    if "distinct (map fst gs)" for gs
  proof -
    let ?gs = "map (\<lambda>(k, v). (k, norm_val v)) gs"
    have d: "distinct (map fst ?gs)" using that by (simp add: comp_def case_prod_beta)
    have keys: "map fst (sort_by key_le ?gs) = sort_by (\<le>) (map fst ?gs)"
      by (rule sort_by_map [symmetric]) (simp add: key_le_iff)
    have "distinct (map fst (sort_by key_le ?gs))" using d by (simp only: keys distinct_sort_by)
    then have "map_of (sort_by key_le ?gs) = map_of ?gs" using d by (simp add: map_of_inject_set)
    then have "map_of (sort_by key_le ?gs) k = map_of ?gs k" by simp
    also have "map_of ?gs k = map_option norm_val (map_of gs k)" by (simp add: map_of_map)
    finally show ?thesis .
  qed
  show ?thesis using assms(1) sorted [OF assms(2)] sorted [OF assms(3)] by simp
qed

lemma norm_num_shape [simp]: "norm_num (norm_num x) = norm_num x"
  by (cases x) auto


text \<open>What the request digest covers: everything but the identifier and the previous hash.\<close>

definition request_stable :: "('a) UnsignedDecisionReceipt_scheme \<Rightarrow> UnsignedDecisionReceipt" where
  "request_stable r =
     (unsigned_zero (UnsignedDecisionReceipt.truncate r))\<lparr>r_receipt_id := [], r_prev_receipt_hash := None\<rparr>"

lemma body_entries_inject:
  assumes at: "\<And>k. map_option norm_val (map_of (body_entries r) k) = map_option norm_val (map_of (body_entries s) k)"
  shows "request_stable r = request_stable s"
proof -
  have ids: "r_request_id r = r_request_id s" "r_tenant_id_hash r = r_tenant_id_hash s"
      "r_user_id_hash r = r_user_id_hash s" "r_session_id_hash r = r_session_id_hash s"
    using at [of "js ''request_id''"] at [of "js ''tenant_id_hash''"] at [of "js ''user_id_hash''"]
      at [of "js ''session_id_hash''"] by (simp_all add: body_entries_def)
  have meta: "r_timestamp r = r_timestamp s" "r_model_id r = r_model_id s" "r_policy_version r = r_policy_version s"
      "r_policy_hash r = r_policy_hash s" "r_input_digest r = r_input_digest s"
    using at [of "js ''timestamp''"] at [of "js ''model_id''"] at [of "js ''policy_version''"]
      at [of "js ''policy_hash''"] at [of "js ''input_digest''"] by (simp_all add: body_entries_def)
  have exec: "r_retrieved_context_digests r = r_retrieved_context_digests s"
      "r_execution_context_hash r = r_execution_context_hash s" "r_execution_nonce r = r_execution_nonce s"
      "r_decision_pre r = r_decision_pre s" "r_decision_post r = r_decision_post s" "r_action_taken r = r_action_taken s"
    using at [of "js ''retrieved_context_digests''"] at [of "js ''execution_context_hash''"]
      at [of "js ''execution_nonce''"] at [of "js ''decision_pre''"] at [of "js ''decision_post''"]
      at [of "js ''action_taken''"] by (simp_all add: body_entries_def)
  have nums: "norm_num (r_risk_score r) = norm_num (r_risk_score s)" "norm_num (r_latency_ms r) = norm_num (r_latency_ms s)"
      "norm_num (r_cost_estimate_usd r) = norm_num (r_cost_estimate_usd s)"
    using at [of "js ''risk_score''"] at [of "js ''latency_ms''"] at [of "js ''cost_estimate_usd''"]
    by (simp_all add: body_entries_def)
  have flags: "r_consent_state r = r_consent_state s" "r_memory_written r = r_memory_written s"
      "r_signature_alg r = r_signature_alg s"
    using at [of "js ''consent_state''"] at [of "js ''memory_written''"] at [of "js ''signature_alg''"]
    by (simp_all add: body_entries_def)
  show ?thesis
    using ids meta exec nums flags by (simp add: request_stable_def unsigned_zero_def UnsignedDecisionReceipt.defs)
qed

lemma distinct_body [simp]: "distinct (map fst (body_entries r))"
  by (simp add: body_entries_def)

lemma body_key_fresh [simp]:
  "map_of (body_entries r) (js ''receipt_signature'') = None"
  "map_of (body_entries r) (js ''receipt_id'') = None"
  "map_of (body_entries r) (js ''prev_receipt_hash'') = None"
  by (simp_all add: body_entries_def)

lemma unsigned_zero_cong:
  assumes "request_stable r = request_stable s" and "r_receipt_id r = r_receipt_id s"
    and "r_prev_receipt_hash r = r_prev_receipt_hash s" and "UnsignedDecisionReceipt.more r = UnsignedDecisionReceipt.more s"
  shows "unsigned_zero r = unsigned_zero s"
  using assms
  by (cases r; cases s) (simp add: request_stable_def unsigned_zero_def UnsignedDecisionReceipt.defs)

lemma signed_json_inject:
  assumes "norm_val (signed_json r) = norm_val (signed_json s)"
  shows "unsigned_zero r = unsigned_zero s"
proof -
  let ?E = "\<lambda>r. (js ''receipt_signature'', JStr (r_receipt_signature r)) # id_entry r # prev_entry r # body_entries r"
  have d: "distinct (map fst (?E r))" for r by (simp add: receipt_json_defs)
  have at: "map_option norm_val (map_of (?E r) k) = map_option norm_val (map_of (?E s) k)" for k
    using assms unfolding signed_json_def by (rule norm_val_object_entry [OF _ d d])
  have "map_option norm_val (map_of (body_entries r) k) = map_option norm_val (map_of (body_entries s) k)" for k
    using at [of k] by (simp add: id_entry_def prev_entry_def split: if_splits)
  then have "request_stable r = request_stable s" by (rule body_entries_inject)
  moreover have "r_receipt_signature r = r_receipt_signature s" "r_receipt_id r = r_receipt_id s"
    using at [of "js ''receipt_signature''"] at [of "js ''receipt_id''"] by (simp_all add: id_entry_def prev_entry_def)
  moreover have "r_prev_receipt_hash r = r_prev_receipt_hash s"
    using at [of "js ''prev_receipt_hash''"] by (simp add: id_entry_def prev_entry_def split: option.splits)
  moreover have "UnsignedDecisionReceipt.more r = UnsignedDecisionReceipt.more s"
    using calculation by (cases r; cases s) simp
  ultimately show ?thesis by (intro unsigned_zero_cong)
qed

subsection \<open>Strict decoding inverts the encoding\<close>

lemma strings_of_map [simp]: "strings_of (map (\<lambda>x. Some (JStr x)) xs) = Some xs"
  by (induction xs) auto

lemma find_decision [simp]: "find (\<lambda>x. x = d) all_decisions = Some d"
  by (cases d) (simp_all add: all_decisions_def)

lemma find_consent [simp]: "find (\<lambda>x. x = d) all_consents = Some d"
  by (cases d) (simp_all add: all_consents_def)

lemma find_alg [simp]: "find (\<lambda>x. x = d) all_algs = Some d"
  by (cases d) (simp_all add: all_algs_def)

lemmas get_defs = get_string_def get_number_def get_bool_def get_strings_def get_nullable_def get_enum_def

text \<open>The fields of a receipt, read back from any list of entries that holds its entries.\<close>

lemma decode_unsigned_entries:
  assumes "\<And>k. k \<in> set unsigned_keys \<Longrightarrow> map_of es (js k) = map_of (id_entry r # prev_entry r # body_entries r) (js k)"
  shows "decode_unsigned es = Some (UnsignedDecisionReceipt.truncate r)"
proof -
  have at: "map_of es (js k) = map_of (id_entry r # prev_entry r # body_entries r) (js k)" if "k \<in> set unsigned_keys" for k
    using assms that .
  have str: "get_string es ''schema_version'' = Some (js ''ghost.receipt.v1'')"
      "get_string es ''receipt_id'' = Some (r_receipt_id r)" "get_string es ''request_id'' = Some (r_request_id r)"
      "get_string es ''tenant_id_hash'' = Some (r_tenant_id_hash r)" "get_string es ''user_id_hash'' = Some (r_user_id_hash r)"
      "get_string es ''session_id_hash'' = Some (r_session_id_hash r)" "get_string es ''timestamp'' = Some (r_timestamp r)"
      "get_string es ''model_id'' = Some (r_model_id r)" "get_string es ''policy_version'' = Some (r_policy_version r)"
      "get_string es ''policy_hash'' = Some (r_policy_hash r)" "get_string es ''input_digest'' = Some (r_input_digest r)"
      "get_string es ''execution_context_hash'' = Some (r_execution_context_hash r)"
      "get_string es ''execution_nonce'' = Some (r_execution_nonce r)"
    by (simp_all add: get_string_def at unsigned_keys_def receipt_json_defs)
  have other: "get_strings es ''retrieved_context_digests'' = Some (r_retrieved_context_digests r)"
      "get_strings es ''action_taken'' = Some (r_action_taken r)"
      "get_enum decision_name all_decisions es ''decision_pre'' = Some (r_decision_pre r)"
      "get_enum decision_name all_decisions es ''decision_post'' = Some (r_decision_post r)"
      "get_number es ''risk_score'' = Some (r_risk_score r)" "get_number es ''latency_ms'' = Some (r_latency_ms r)"
      "get_number es ''cost_estimate_usd'' = Some (r_cost_estimate_usd r)"
      "get_enum consent_name all_consents es ''consent_state'' = Some (r_consent_state r)"
      "get_bool es ''memory_written'' = Some (r_memory_written r)"
      "get_nullable es ''prev_receipt_hash'' = Some (r_prev_receipt_hash r)"
      "get_enum alg_name all_algs es ''signature_alg'' = Some (r_signature_alg r)"
    by (simp_all add: get_defs at unsigned_keys_def receipt_json_defs json_list_def split: option.splits)
  show ?thesis by (simp add: decode_unsigned_def str other UnsignedDecisionReceipt.defs)
qed

lemma parseSigned_signed_json:
  assumes "valid_signed env r"
  shows "parseSigned env (signed_json r) = Inr r"
proof -
  let ?es = "(js ''receipt_signature'', JStr (r_receipt_signature r)) # id_entry r # prev_entry r # body_entries r"
  have "map_of ?es (js k) = map_of (id_entry r # prev_entry r # body_entries r) (js k)" if "k \<in> set unsigned_keys" for k
    using that by (auto simp: unsigned_keys_def)
  then have "decode_unsigned ?es = Some (UnsignedDecisionReceipt.truncate r)" by (rule decode_unsigned_entries)
  moreover have "get_string ?es ''receipt_signature'' = Some (r_receipt_signature r)" by (simp add: get_string_def)
  moreover have "fst ` set ?es \<subseteq> set (map js (''receipt_signature'' # unsigned_keys))"
    by (simp add: unsigned_keys_def receipt_json_defs)
  moreover have "UnsignedDecisionReceipt.extend (UnsignedDecisionReceipt.truncate r)
      \<lparr>r_receipt_signature = r_receipt_signature r\<rparr> = r"
    by (cases r) (simp add: UnsignedDecisionReceipt.defs)
  ultimately show ?thesis using assms by (simp add: parseSigned_def signed_json_def)
qed

lemma strings_of_inverse: "strings_of xs = Some ss \<Longrightarrow> xs = map (\<lambda>x. Some (JStr x)) ss"
  by (induction xs arbitrary: ss rule: strings_of.induct) auto

lemma get_stringD: "get_string es k = Some s \<Longrightarrow> map_of es (js k) = Some (JStr s)"
  by (simp add: get_string_def split: option.splits jsval.splits)

lemma get_numberD: "get_number es k = Some s \<Longrightarrow> map_of es (js k) = Some (JNum s)"
  by (simp add: get_number_def split: option.splits jsval.splits)

lemma get_boolD: "get_bool es k = Some s \<Longrightarrow> map_of es (js k) = Some (JBool s)"
  by (simp add: get_bool_def split: option.splits jsval.splits)

lemma get_enumD: "get_enum name alls es k = Some s \<Longrightarrow> map_of es (js k) = Some (JStr (name s))"
  by (auto simp: get_enum_def bind_eq_Some_conv find_Some_iff dest!: get_stringD)

lemma get_stringsD:
  "get_strings es k = Some ss \<Longrightarrow> map_of es (js k) \<in> {None, Some JUndefined, Some (json_list JStr ss)}"
  by (auto simp: get_strings_def json_list_def dest: strings_of_inverse split: option.splits jsval.splits)

lemma get_nullableD:
  "get_nullable es k = Some p \<Longrightarrow>
     map_of es (js k) \<in> {None, Some JUndefined, Some (case p of None \<Rightarrow> JNull | Some s \<Rightarrow> JStr s)}"
  by (auto simp: get_nullable_def split: option.splits jsval.splits)

lemmas getD = get_stringD get_numberD get_boolD get_enumD get_stringsD get_nullableD

lemma decode_unsignedD:
  assumes "decode_unsigned es = Some r"
  shows "get_string es ''schema_version'' = Some (js ''ghost.receipt.v1'')"
      "get_string es ''receipt_id'' = Some (r_receipt_id r)" "get_string es ''request_id'' = Some (r_request_id r)"
      "get_string es ''tenant_id_hash'' = Some (r_tenant_id_hash r)" "get_string es ''user_id_hash'' = Some (r_user_id_hash r)"
      "get_string es ''session_id_hash'' = Some (r_session_id_hash r)" "get_string es ''timestamp'' = Some (r_timestamp r)"
      "get_string es ''model_id'' = Some (r_model_id r)" "get_string es ''policy_version'' = Some (r_policy_version r)"
      "get_string es ''policy_hash'' = Some (r_policy_hash r)" "get_string es ''input_digest'' = Some (r_input_digest r)"
      "get_string es ''execution_context_hash'' = Some (r_execution_context_hash r)"
      "get_string es ''execution_nonce'' = Some (r_execution_nonce r)"
      "get_strings es ''retrieved_context_digests'' = Some (r_retrieved_context_digests r)"
      "get_strings es ''action_taken'' = Some (r_action_taken r)"
      "get_enum decision_name all_decisions es ''decision_pre'' = Some (r_decision_pre r)"
      "get_enum decision_name all_decisions es ''decision_post'' = Some (r_decision_post r)"
      "get_number es ''risk_score'' = Some (r_risk_score r)" "get_number es ''latency_ms'' = Some (r_latency_ms r)"
      "get_number es ''cost_estimate_usd'' = Some (r_cost_estimate_usd r)"
      "get_enum consent_name all_consents es ''consent_state'' = Some (r_consent_state r)"
      "get_bool es ''memory_written'' = Some (r_memory_written r)"
      "get_nullable es ''prev_receipt_hash'' = Some (r_prev_receipt_hash r)"
      "get_enum alg_name all_algs es ''signature_alg'' = Some (r_signature_alg r)"
  using assms unfolding decode_unsigned_def bind_eq_Some_conv
  by (elim exE conjE; clarsimp split: if_splits)+

lemma decode_unsigned_covers:
  assumes "decode_unsigned es = Some r" and "k \<in> set unsigned_keys"
  shows "map_of es (js k) \<in> {None, Some JUndefined, map_of (id_entry r # prev_entry r # body_entries r) (js k)}"
proof -
  note D = decode_unsignedD [OF assms(1)]
  note vals = D(1-13) [THEN get_stringD] D(16,17,21,24) [THEN get_enumD] D(18-20) [THEN get_numberD] D(22) [THEN get_boolD]
  note defaulted = D(14,15) [THEN get_stringsD] D(23) [THEN get_nullableD]
  have "\<forall>k\<in>set unsigned_keys.
      map_of es (js k) \<in> {None, Some JUndefined, map_of (id_entry r # prev_entry r # body_entries r) (js k)}"
    using defaulted by (simp add: unsigned_keys_def receipt_json_defs vals)
  then show ?thesis using assms(2) by blast
qed

subsection \<open>Receipt properties\<close>

lemma parseSigned_eq_Inr:
  assumes "parseSigned env v = Inr r"
  obtains es u s where "v = JObj es" "fst ` set es \<subseteq> set (map js (''receipt_signature'' # unsigned_keys))"
    "decode_unsigned es = Some u" "get_string es ''receipt_signature'' = Some s"
    "r = UnsignedDecisionReceipt.extend u \<lparr>r_receipt_signature = s\<rparr>" "valid_signed env r"
  using assms by (auto simp: parseSigned_def Let_def split: jsval.splits if_splits option.splits)

lemma extend_entries [simp]:
  "id_entry (UnsignedDecisionReceipt.extend u x) = id_entry u"
  "prev_entry (UnsignedDecisionReceipt.extend u x) = prev_entry u"
  "body_entries (UnsignedDecisionReceipt.extend u x) = body_entries u"
  by (simp_all add: id_entry_def prev_entry_def body_entries_def UnsignedDecisionReceipt.defs)

text \<open>
  Claim C40. Strict parsing of an unknown value. A value that \<open>validateSignedDecisionReceipt\<close> accepts is an
  object each of whose fields is, unless it is \<open>undefined\<close>, a field of the returned receipt with the
  same value, so that no field can accompany a signed receipt without being covered by it. The
  returned receipt satisfies the schema and parses to itself.
\<close>

theorem strict_parse_covers_input:
  assumes "parseSigned env v = Inr r"
  shows "valid_signed env r \<and> parseSigned env (signed_json r) = Inr r \<and>
    (\<exists>es fs. v = JObj es \<and> signed_json r = JObj fs \<and>
      (\<forall>k w. map_of es k = Some w \<longrightarrow> w = JUndefined \<or> map_of fs k = Some w))"
proof -
  obtain es u s where v: "v = JObj es" and keys: "fst ` set es \<subseteq> set (map js (''receipt_signature'' # unsigned_keys))"
    and u: "decode_unsigned es = Some u" and s: "get_string es ''receipt_signature'' = Some s"
    and r: "r = UnsignedDecisionReceipt.extend u \<lparr>r_receipt_signature = s\<rparr>" and valid: "valid_signed env r"
    using assms by (rule parseSigned_eq_Inr)
  let ?fs = "(js ''receipt_signature'', JStr s) # id_entry u # prev_entry u # body_entries u"
  have fs: "signed_json r = JObj ?fs" by (simp add: r signed_json_def) (simp add: UnsignedDecisionReceipt.defs)
  have "w = JUndefined \<or> map_of ?fs k = Some w" if w: "map_of es k = Some w" for k w
  proof (cases "k = js ''receipt_signature''")
    case True
    then show ?thesis using get_stringD [OF s] w by simp
  next
    case False
    have "k \<in> fst ` set es" using w by (metis domI dom_map_of_conv_image_fst)
    then obtain n where n: "k = js n" "n \<in> set unsigned_keys" using keys False by auto
    show ?thesis using decode_unsigned_covers [OF u n(2)] w False n(1) by auto
  qed
  then show ?thesis using valid parseSigned_signed_json [OF valid] v fs by blast
qed

subsection \<open>Sample receipts\<close>

text \<open>Receipts in an environment with a checksum for the digests, at which hypotheses are instantiated.\<close>

definition sample_env :: receipt_env where
  "sample_env = \<lparr>sha256 = sample_digest, hmac = (\<lambda>secret v. sample_digest (secret @ v)),
     zod_datetime = (\<lambda>s. startsWith s (js ''2026-'')), date_parse = (\<lambda>s. Some (int (length s)))\<rparr>"

definition zero_digest :: jstr where
  "zero_digest = js ''sha256:'' @ replicate 64 48"

definition sample_receipt :: "jstr \<Rightarrow> jstr option \<Rightarrow> SignedDecisionReceipt" where
  "sample_receipt request prev = \<lparr>r_receipt_id = js ''grct_'' @ sample_digest request, r_request_id = request,
     r_tenant_id_hash = zero_digest, r_user_id_hash = zero_digest, r_session_id_hash = zero_digest,
     r_timestamp = js ''2026-01-01T00:00:00Z'', r_model_id = js ''m'', r_policy_version = js ''v'',
     r_policy_hash = replicate 64 48, r_input_digest = zero_digest, r_retrieved_context_digests = [zero_digest],
     r_execution_context_hash = zero_digest, r_execution_nonce = js ''nonce-01'', r_decision_pre = ALLOW,
     r_decision_post = REDACT, r_action_taken = [js ''a''], r_risk_score = Finite False [5] 0,
     r_consent_state = Granted, r_memory_written = False, r_latency_ms = Zero False,
     r_cost_estimate_usd = Zero False, r_prev_receipt_hash = prev,
     r_signature_alg = LOCAL_HMAC_SHA256_DEV_ONLY, r_receipt_signature = js ''s''\<rparr>"

lemma hex64_zeros: "hex64 (replicate 64 48)"
  by (simp add: hex64_def list_all_replicate is_lower_hex_def is_digit_def)

lemma valid_sample_receipt:
  assumes "request \<noteq> []" and "\<And>p. prev = Some p \<Longrightarrow> sha256_shape p"
  shows "valid_signed sample_env (sample_receipt request prev)"
proof -
  have "digest_shape zero_digest" by (simp only: digest_shape_def zero_digest_def sha256_shape_prefixed hex64_zeros simp_thms)
  moreover have "grct_shape (js ''grct_'' @ sample_digest request)"
    using hex_digests_sample by (simp add: grct_shape_def hex_digests_def)
  moreover have "url_safe_between 8 256 (js ''nonce-01'')" by code_simp
  moreover have "zod_unit_interval (Finite False [5] 0)" by code_simp
  moreover have "zod_nonnegative_int (Zero False)" "zod_nonnegative (Zero False)" by code_simp+
  moreover have "zod_datetime sample_env (js ''2026-01-01T00:00:00Z'')" by (simp add: sample_env_def startsWith_def js_def)
  ultimately show ?thesis
    using assms by (simp add: valid_signed_def valid_unsigned_def sample_receipt_def hex64_zeros split: option.splits)
qed

theorem strict_parse_covers_input_witness:
  "\<exists>es fs. signed_json (sample_receipt (js ''q'') None) = JObj es
    \<and> signed_json (sample_receipt (js ''q'') None) = JObj fs \<and> fs \<noteq> []
    \<and> (\<forall>k w. map_of es k = Some w \<longrightarrow> w = JUndefined \<or> map_of fs k = Some w)"
proof -
  have "parseSigned sample_env (signed_json (sample_receipt (js ''q'') None)) = Inr (sample_receipt (js ''q'') None)"
    by (rule parseSigned_signed_json [OF valid_sample_receipt]) simp_all
  from strict_parse_covers_input [OF this] show ?thesis by (auto simp: signed_json_def)
qed

subsection \<open>What the hashes commit to\<close>

definition receipt_text :: "SignedDecisionReceipt \<Rightarrow> jstr" where
  "receipt_text r = print_val (norm_val (signed_json r))"

lemma signedDecisionReceiptHash_ok:
  assumes "valid_signed env r" and "wf_receipt_numbers r"
  shows "signedDecisionReceiptHash env r = Inr (js ''sha256:'' @ sha256 env (receipt_text r))"
  using assms canonicalize_norm [of "signed_json r"]
  by (simp add: signedDecisionReceiptHash_def validateSignedDecisionReceipt_def canonical_digest_def canonical_text_def
      json_shaped_signed receipt_text_def)

lemma receipt_text_inject:
  assumes "receipt_text r = receipt_text s" and "wf_receipt_numbers r" and "wf_receipt_numbers s"
  shows "unsigned_zero r = unsigned_zero s"
proof -
  have "json_shaped (signed_json r)" "json_shaped (signed_json s)" using assms by (simp_all add: json_shaped_signed)
  moreover from this have "canonicalize (signed_json r) = canonicalize (signed_json s)"
    using assms(1) by (simp add: canonicalize_norm receipt_text_def)
  ultimately show ?thesis by (intro signed_json_inject canonicalize_inject)
qed

lemma signedDecisionReceiptHash_inject:
  assumes "signedDecisionReceiptHash env r = Inr h" and "signedDecisionReceiptHash env s = Inr h"
    and "valid_signed env r" "valid_signed env s" "wf_receipt_numbers r" "wf_receipt_numbers s"
    and "collision_free (sha256 env) ts" and "receipt_text r \<in> set ts" "receipt_text s \<in> set ts"
  shows "unsigned_zero r = unsigned_zero s"
proof -
  have "sha256 env (receipt_text r) = sha256 env (receipt_text s)"
    using assms(1,2) signedDecisionReceiptHash_ok assms(3-6) by (metis append_same_eq same_append_eq sum.inject(2))
  then have "receipt_text r = receipt_text s" by (rule collision_freeD [OF assms(7-9)])
  then show ?thesis using assms(5,6) by (rule receipt_text_inject)
qed

definition identity_text :: "('a) UnsignedDecisionReceipt_scheme \<Rightarrow> jstr" where
  "identity_text r = print_val (norm_val (without_id_json r))"

lemma json_shaped_without_id: "json_shaped (without_id_json r) \<longleftrightarrow> wf_receipt_numbers r"
  by (auto simp: receipt_json_defs wf_receipt_numbers_def split: option.splits)

lemma receiptId_ok:
  "wf_receipt_numbers r \<Longrightarrow>
     receiptIdFromUnsignedDecisionReceipt env r = Inr (js ''grct_'' @ sha256 env (identity_text r))"
  using canonicalize_norm [of "without_id_json r"]
  by (simp add: receiptIdFromUnsignedDecisionReceipt_def canonical_digest_def canonical_text_def
      json_shaped_without_id identity_text_def)

lemma without_id_json_inject:
  fixes r s :: "('a) UnsignedDecisionReceipt_scheme"
  assumes "norm_val (without_id_json r) = norm_val (without_id_json s)"
  shows "request_stable r = request_stable s \<and> r_prev_receipt_hash r = r_prev_receipt_hash s"
proof -
  have d: "distinct (map fst (prev_entry r # body_entries r))" for r :: "('a) UnsignedDecisionReceipt_scheme"
    by (simp add: receipt_json_defs)
  have at: "map_option norm_val (map_of (prev_entry r # body_entries r) k) =
      map_option norm_val (map_of (prev_entry s # body_entries s) k)" for k
    using assms unfolding without_id_json_def by (rule norm_val_object_entry [OF _ d d])
  have "map_option norm_val (map_of (body_entries r) k) = map_option norm_val (map_of (body_entries s) k)" for k
    using at [of k] by (simp add: prev_entry_def split: if_splits)
  then have "request_stable r = request_stable s" by (rule body_entries_inject)
  then show ?thesis using at [of "js ''prev_receipt_hash''"] by (simp add: prev_entry_def split: option.splits)
qed

text \<open>The receipt that \<open>buildUnsignedDecisionReceipt\<close> completes and validates.\<close>

definition without_id :: "DecisionReceiptBuildInput \<Rightarrow> UnsignedDecisionReceipt" where
  "without_id inp = (b_receipt inp)
     \<lparr>r_retrieved_context_digests := sort_by (\<le>) (r_retrieved_context_digests (b_receipt inp)),
      r_execution_context_hash := or_default DEFAULT_EXECUTION_CONTEXT_HASH (b_execution_context_hash inp),
      r_execution_nonce := or_default DEFAULT_EXECUTION_NONCE (b_execution_nonce inp),
      r_action_taken := sort_by (\<le>) (r_action_taken (b_receipt inp))\<rparr>"

lemma build_eq_Inr:
  assumes "buildUnsignedDecisionReceipt env inp = Inr u" and "b_receipt_id inp = None"
  shows "\<exists>i. receiptIdFromUnsignedDecisionReceipt env (without_id inp) = Inr i \<and> u = (without_id inp)\<lparr>r_receipt_id := i\<rparr>
    \<and> valid_unsigned env u"
  using assms
  by (auto simp: buildUnsignedDecisionReceipt_def Let_def without_id_def validateUnsignedDecisionReceipt_def
      split: if_splits sum.splits)

lemma identity_text_id [simp]: "identity_text (r\<lparr>r_receipt_id := i\<rparr>) = identity_text r"
  by (simp add: identity_text_def without_id_json_def prev_entry_def body_entries_def)

text \<open>
  The identifier that \<open>buildUnsignedDecisionReceipt\<close> computes commits to the receipt: two built
  receipts with the same identifier are equal, up to the sign of a zero, when the hash does not
  collide on the two payloads. Each of them satisfies the schema and has sorted digests and actions.
\<close>

theorem built_receipt_id_commits:
  assumes "buildUnsignedDecisionReceipt env a = Inr u" and "buildUnsignedDecisionReceipt env b = Inr v"
    and "b_receipt_id a = None" and "b_receipt_id b = None"
    and "wf_receipt_numbers u" and "wf_receipt_numbers v"
    and "collision_free (sha256 env) [identity_text u, identity_text v]"
  shows "valid_unsigned env u \<and> sorted (r_retrieved_context_digests u) \<and> sorted (r_action_taken u)
    \<and> r_receipt_id u = js ''grct_'' @ sha256 env (identity_text u)
    \<and> (r_receipt_id u = r_receipt_id v \<longrightarrow> unsigned_zero u = unsigned_zero v)"
proof -
  have built: "r_receipt_id w = js ''grct_'' @ sha256 env (identity_text w) \<and> valid_unsigned env w
      \<and> sorted (r_retrieved_context_digests w) \<and> sorted (r_action_taken w)"
    if w: "buildUnsignedDecisionReceipt env c = Inr w" "b_receipt_id c = None" "wf_receipt_numbers w" for c w
  proof -
    obtain i where i: "receiptIdFromUnsignedDecisionReceipt env (without_id c) = Inr i"
        "w = (without_id c)\<lparr>r_receipt_id := i\<rparr>" "valid_unsigned env w"
      using build_eq_Inr [OF w(1,2)] by blast
    then have "wf_receipt_numbers (without_id c)" using w(3) by (simp add: wf_receipt_numbers_def)
    then have "i = js ''grct_'' @ sha256 env (identity_text (without_id c))" using i(1) receiptId_ok [of "without_id c" env] by simp
    then show ?thesis using i by (simp add: without_id_def sorted_sort_by)
  qed
  have "unsigned_zero u = unsigned_zero v" if "r_receipt_id u = r_receipt_id v"
  proof -
    have "sha256 env (identity_text u) = sha256 env (identity_text v)"
      using that built [OF assms(1,3,5)] built [OF assms(2,4,6)] by simp
    then have "identity_text u = identity_text v" by (rule collision_freeD [OF assms(7), rotated 2]) simp_all
    moreover have shaped: "json_shaped (without_id_json u)" "json_shaped (without_id_json v)"
      using assms(5,6) by (simp_all only: json_shaped_without_id)
    ultimately have "canonicalize (without_id_json u) = canonicalize (without_id_json v)"
      by (simp only: canonicalize_norm identity_text_def)
    then have "norm_val (without_id_json u) = norm_val (without_id_json v)" by (rule canonicalize_inject [OF shaped])
    from without_id_json_inject [OF this] that show ?thesis by (intro unsigned_zero_cong) simp_all
  qed
  then show ?thesis using built [OF assms(1,3,5)] by blast
qed

definition sample_build :: "jstr list \<Rightarrow> DecisionReceiptBuildInput" where
  "sample_build actions =
     \<lparr>b_receipt = UnsignedDecisionReceipt.truncate (sample_receipt (js ''q'') None)\<lparr>r_action_taken := actions\<rparr>,
      b_receipt_id = None, b_execution_context_hash = Some zero_digest, b_execution_nonce = Some (js ''nonce-01'')\<rparr>"

lemma valid_unsigned_update:
  "valid_unsigned env r \<Longrightarrow> grct_shape i \<Longrightarrow> list_all (\<lambda>a. a \<noteq> []) as \<Longrightarrow>
     valid_unsigned env (r\<lparr>r_action_taken := as, r_receipt_id := i\<rparr>)"
  by (simp add: valid_unsigned_def)

definition built_sample :: "jstr list \<Rightarrow> UnsignedDecisionReceipt" where
  "built_sample as = (without_id (sample_build as))
     \<lparr>r_receipt_id := js ''grct_'' @ sample_digest (identity_text (without_id (sample_build as)))\<rparr>"

lemma build_sample:
  assumes "list_all (\<lambda>a. a \<noteq> []) as"
  shows "buildUnsignedDecisionReceipt sample_env (sample_build as) = Inr (built_sample as)"
    and "wf_receipt_numbers (built_sample as)"
proof -
  let ?w = "without_id (sample_build as)" and ?u = "built_sample as"
  have u: "?u = ?w\<lparr>r_receipt_id := js ''grct_'' @ sample_digest (identity_text ?w)\<rparr>" by (simp add: built_sample_def)
  have w: "?w = (UnsignedDecisionReceipt.truncate (sample_receipt (js ''q'') None))\<lparr>r_action_taken := sort_by (\<le>) as\<rparr>"
    by (simp add: without_id_def sample_build_def sample_receipt_def or_default_def UnsignedDecisionReceipt.defs sort_by_def)
  have "wf_receipt_numbers ?w" by (simp add: w wf_receipt_numbers_def sample_receipt_def UnsignedDecisionReceipt.defs)
  then show wf: "wf_receipt_numbers ?u" by (simp add: u wf_receipt_numbers_def)
  have "valid_signed sample_env (sample_receipt (js ''q'') None)" by (rule valid_sample_receipt) simp_all
  then have "valid_unsigned sample_env (UnsignedDecisionReceipt.truncate (sample_receipt (js ''q'') None))"
    by (simp add: valid_signed_def valid_unsigned_def UnsignedDecisionReceipt.defs)
  moreover have "grct_shape (js ''grct_'' @ sample_digest t)" for t
    using hex_digests_sample by (simp add: grct_shape_def hex_digests_def)
  ultimately have valid: "valid_unsigned sample_env ?u"
    unfolding u w using assms by (intro valid_unsigned_update) (auto simp: list_all_iff)
  have "receiptIdFromUnsignedDecisionReceipt sample_env ?w = Inr (js ''grct_'' @ sample_digest (identity_text ?w))"
    using receiptId_ok [of ?w sample_env] \<open>wf_receipt_numbers ?w\<close> by (simp add: sample_env_def)
  moreover have "sha256_shape zero_digest" by (simp only: zero_digest_def sha256_shape_prefixed hex64_zeros)
  moreover have "url_safe_between 8 256 (js ''nonce-01'')" by code_simp
  moreover have "input_digest_ok zero_digest"
    using \<open>sha256_shape zero_digest\<close> by (simp add: input_digest_ok_def zero_digest_def startsWith_def js_def cu_def)
  ultimately show "buildUnsignedDecisionReceipt sample_env (sample_build as) = Inr ?u"
    using valid unfolding u buildUnsignedDecisionReceipt_def without_id_def
    by (simp add: Let_def sample_build_def or_default_def sample_receipt_def UnsignedDecisionReceipt.defs
        validateUnsignedDecisionReceipt_def)
qed

theorem built_receipt_id_commits_witness:
  "\<exists>u v. buildUnsignedDecisionReceipt sample_env (sample_build [js ''a'', js ''b'']) = Inr u
    \<and> buildUnsignedDecisionReceipt sample_env (sample_build [js ''b'', js ''a'']) = Inr v
    \<and> r_receipt_id u = r_receipt_id v \<and> unsigned_zero u = unsigned_zero v"
proof -
  have sorted: "sort_by (\<le>) [js ''b'', js ''a''] = [js ''a'', js ''b'']" "sort_by (\<le>) [js ''a'', js ''b''] = [js ''a'', js ''b'']"
    by code_simp+
  have same: "built_sample [js ''b'', js ''a''] = built_sample [js ''a'', js ''b'']"
    by (simp add: built_sample_def without_id_def sample_build_def sorted)
  have free: "collision_free (sha256 sample_env) [x, x]" for x by (simp add: collision_free_def)
  note a = build_sample [of "[js ''a'', js ''b'']", simplified]
  note b = build_sample [of "[js ''b'', js ''a'']", simplified, unfolded same]
  have none: "b_receipt_id (sample_build as) = None" for as by (simp add: sample_build_def)
  show ?thesis
    using built_receipt_id_commits [OF a(1) b(1) none none a(2) b(2) free] a(1) b(1) by blast
qed

end
