(* ===== verification/Receipt_Chain.thy ===== *)
theory Receipt_Chain
  imports Receipts
begin

text \<open>
  The hash-chain check over a list of receipts, \<open>receipts/chain.ts\<close> of
  \<open>packages/enforcement-runtime/src\<close>: when it accepts, and what an accepted chain commits to.
\<close>

subsection \<open>The hash chain\<close>

datatype chain_detail =
    NotAnArray | EmptyChain | SchemaFailed | TenantBreak | DuplicateHash | FirstHasNoPrevious
  | FirstDeclaresPrevious | PriorInvalid | TimestampRegression | PreviousMatches | HashChainBreak

record ReceiptChainCheck =
  chk_index :: int
  chk_passed :: bool
  chk_detail :: chain_detail

text \<open>\<open>Date.parse(a) < Date.parse(b)\<close>, which is false when either is \<open>NaN\<close>.\<close>

definition date_less :: "receipt_env \<Rightarrow> jstr \<Rightarrow> jstr \<Rightarrow> bool" where
  "date_less env a b = (case (date_parse env a, date_parse env b) of (Some x, Some y) \<Rightarrow> x < y | _ \<Rightarrow> False)"

text \<open>
  The callback of the second \<open>map\<close>, run over the entries with the index, the prior entry and the set
  of hashes seen so far.
\<close>

fun chain_checks ::
  "receipt_env \<Rightarrow> jstr option \<Rightarrow> int \<Rightarrow> (receipt_error + SignedDecisionReceipt) option \<Rightarrow> jstr set \<Rightarrow>
     (receipt_error + SignedDecisionReceipt) list \<Rightarrow> receipt_error + ReceiptChainCheck list" where
  "chain_checks env firstTenant i prior seen [] = Inr []"
| "chain_checks env firstTenant i prior seen (entry # entries) =
     (let go = (\<lambda>passed detail seen'.
            case chain_checks env firstTenant (i + 1) (Some entry) seen' entries of
              Inl e \<Rightarrow> Inl e
            | Inr cs \<Rightarrow> Inr (\<lparr>chk_index = i, chk_passed = passed, chk_detail = detail\<rparr> # cs))
      in case entry of
           Inl _ \<Rightarrow> go False SchemaFailed seen
         | Inr r \<Rightarrow>
             if firstTenant \<noteq> None \<and> firstTenant \<noteq> Some (r_tenant_id_hash r) then go False TenantBreak seen
             else
               (case signedDecisionReceiptHash env r of
                  Inl e \<Rightarrow> Inl e
                | Inr currentHash \<Rightarrow>
                    if currentHash \<in> seen then go False DuplicateHash seen
                    else if i = 0 then
                      (if r_prev_receipt_hash r = None then go True FirstHasNoPrevious (insert currentHash seen)
                       else go False FirstDeclaresPrevious (insert currentHash seen))
                    else
                      (case prior of
                         Some (Inr previous) \<Rightarrow>
                           if date_less env (r_timestamp r) (r_timestamp previous)
                           then go False TimestampRegression (insert currentHash seen)
                           else
                             (case signedDecisionReceiptHash env previous of
                                Inl e \<Rightarrow> Inl e
                              | Inr expected \<Rightarrow>
                                  if r_prev_receipt_hash r = Some expected
                                  then go True PreviousMatches (insert currentHash seen)
                                  else go False HashChainBreak (insert currentHash seen))
                       | _ \<Rightarrow> go False PriorInvalid (insert currentHash seen))))"

definition verifyDecisionReceiptChain ::
  "receipt_env \<Rightarrow> jsval list option \<Rightarrow> receipt_error + ReceiptChainCheck list" where
  "verifyDecisionReceiptChain env receipts =
     (case receipts of
        None \<Rightarrow> Inr [\<lparr>chk_index = - 1, chk_passed = False, chk_detail = NotAnArray\<rparr>]
      | Some [] \<Rightarrow> Inr [\<lparr>chk_index = - 1, chk_passed = False, chk_detail = EmptyChain\<rparr>]
      | Some (v # vs) \<Rightarrow>
          let validated = map (parseSigned env) (v # vs);
              firstTenant = (case hd validated of Inl _ \<Rightarrow> None | Inr r \<Rightarrow> Some (r_tenant_id_hash r))
          in chain_checks env firstTenant 0 None {} validated)"

subsection \<open>Specification of a chain\<close>

fun linked_from :: "receipt_env \<Rightarrow> SignedDecisionReceipt \<Rightarrow> SignedDecisionReceipt list \<Rightarrow> bool" where
  "linked_from env p [] = True"
| "linked_from env p (r # rs) =
     (\<not> date_less env (r_timestamp r) (r_timestamp p)
      \<and> map_option Inr (r_prev_receipt_hash r) = Some (signedDecisionReceiptHash env p)
      \<and> linked_from env r rs)"

definition receipt_chain :: "receipt_env \<Rightarrow> SignedDecisionReceipt list \<Rightarrow> bool" where
  "receipt_chain env rs =
     (case rs of
        [] \<Rightarrow> False
      | r # rs' \<Rightarrow>
          r_prev_receipt_hash r = None \<and> linked_from env r rs'
          \<and> list_all (\<lambda>s. r_tenant_id_hash s = r_tenant_id_hash r) rs'
          \<and> (case sequence (map (signedDecisionReceiptHash env) rs) of Inl _ \<Rightarrow> False | Inr hs \<Rightarrow> distinct hs))"

definition all_passed :: "receipt_error + ReceiptChainCheck list \<Rightarrow> bool" where
  "all_passed res = (case res of Inl _ \<Rightarrow> False | Inr cs \<Rightarrow> list_all chk_passed cs)"

lemma all_passed_simps [simp]: "all_passed (Inr cs) = list_all chk_passed cs" "\<not> all_passed (Inl e)"
  by (simp_all add: all_passed_def)

lemma all_passed_cons:
  "all_passed (case res of Inl e \<Rightarrow> Inl e | Inr cs \<Rightarrow> Inr (c # cs)) \<longleftrightarrow> chk_passed c \<and> all_passed res"
  by (cases res) auto

definition fresh_hashes :: "receipt_env \<Rightarrow> jstr set \<Rightarrow> SignedDecisionReceipt list \<Rightarrow> bool" where
  "fresh_hashes env seen rs =
     (case sequence (map (signedDecisionReceiptHash env) rs) of
        Inl _ \<Rightarrow> False
      | Inr hs \<Rightarrow> distinct hs \<and> set hs \<inter> seen = {})"

lemma fresh_hashes_Nil [simp]: "fresh_hashes env seen []"
  by (simp add: fresh_hashes_def)

lemma fresh_hashes_Cons [simp]:
  "fresh_hashes env seen (r # rs) =
     (case signedDecisionReceiptHash env r of
        Inl _ \<Rightarrow> False
      | Inr h \<Rightarrow> h \<notin> seen \<and> fresh_hashes env (insert h seen) rs)"
  by (auto simp: fresh_hashes_def split: sum.splits)

lemma receipt_chain_Cons:
  "receipt_chain env (r # rs) \<longleftrightarrow>
     r_prev_receipt_hash r = None \<and> linked_from env r rs
     \<and> list_all (\<lambda>s. r_tenant_id_hash s = r_tenant_id_hash r) rs \<and> fresh_hashes env {} (r # rs)"
  by (simp add: receipt_chain_def fresh_hashes_def del: fresh_hashes_Cons split: sum.split)

lemma chain_checks_passed_iff:
  assumes "0 < i"
  shows "all_passed (chain_checks env (Some t) i (Some (Inr p)) seen entries) \<longleftrightarrow>
    (\<exists>rs. entries = map Inr rs \<and> fresh_hashes env seen rs \<and> list_all (\<lambda>s. r_tenant_id_hash s = t) rs
       \<and> linked_from env p rs)"
  using assms
proof (induction entries arbitrary: i p seen)
  case Nil
  show ?case by auto
next
  case (Cons entry entries)
  have pos: "0 < i + 1" using Cons.prems by simp
  show ?case
  proof (cases entry)
    case (Inl e)
    then show ?thesis by (auto simp: all_passed_cons)
  next
    case (Inr r)
    have split: "(\<exists>rs. Inr r # entries = map Inr rs \<and> P rs) \<longleftrightarrow> (\<exists>rs. entries = map Inr rs \<and> P (r # rs))" for P
      by (auto simp: Cons_eq_map_conv)
    show ?thesis
      using Cons.prems unfolding Inr split
      by (simp add: Let_def all_passed_cons split: sum.split) (use Cons.IH [OF pos] in blast)
  qed
qed

lemma chain_checks_first:
  "all_passed (chain_checks env (Some (r_tenant_id_hash r)) 0 None {} (Inr r # entries)) \<longleftrightarrow>
     (\<exists>rs. entries = map Inr rs \<and> receipt_chain env (r # rs))"
  by (simp add: Let_def all_passed_cons chain_checks_passed_iff receipt_chain_Cons split: sum.split) blast

lemma verify_chain_parsed:
  assumes "map (parseSigned env) vs = map Inr rs"
  shows "all_passed (verifyDecisionReceiptChain env (Some vs)) \<longleftrightarrow> receipt_chain env rs"
proof (cases vs)
  case Nil
  then show ?thesis using assms by (simp add: verifyDecisionReceiptChain_def receipt_chain_def)
next
  case (Cons v vs')
  then obtain r rs' where rs: "rs = r # rs'" "parseSigned env v = Inr r" "map (parseSigned env) vs' = map Inr rs'"
    using assms by (auto simp: Cons_eq_map_conv)
  then show ?thesis
    by (simp only: Cons verifyDecisionReceiptChain_def Let_def list.map option.case list.case sum.case
        list.sel chain_checks_first) (auto simp: inj_map_eq_map)
qed

lemma chain_checks_invalid:
  "Inl e \<in> set entries \<Longrightarrow> \<not> all_passed (chain_checks env t i prior seen entries)"
proof (induction entries arbitrary: t i prior seen)
  case (Cons entry entries)
  show ?case
  proof (cases entry)
    case (Inl x)
    then show ?thesis by (simp add: all_passed_cons)
  next
    case (Inr r)
    then have no: "\<not> all_passed (chain_checks env t j q s entries)" for t j q s
      using Cons.IH [of t j q s] Cons.prems by auto
    have go: "chain_checks env t j q s entries = Inr cs \<Longrightarrow> \<not> list_all chk_passed cs" for t j q s cs
      using no [of t j q s] by simp
    show ?thesis by (auto simp: Inr Let_def all_passed_cons no split: sum.split option.split dest: go)
  qed
qed simp

text \<open>
  \<open>verifyDecisionReceiptChain\<close> passes every entry exactly when the values parse to receipts of one
  tenant that form a chain: the first names no previous hash, each later one names the hash of its
  predecessor and is not dated before it, and no two have the same hash.
\<close>

theorem chain_accepted_iff:
  "all_passed (verifyDecisionReceiptChain env (Some vs)) \<longleftrightarrow>
     (\<exists>rs. map (parseSigned env) vs = map Inr rs \<and> receipt_chain env rs)"
proof (cases "\<exists>rs. map (parseSigned env) vs = map Inr rs")
  case True
  then show ?thesis using verify_chain_parsed by (auto simp: inj_map_eq_map)
next
  case False
  have "\<exists>e. Inl e \<in> set (map (parseSigned env) vs)"
  proof (rule ccontr)
    assume "\<nexists>e. Inl e \<in> set (map (parseSigned env) vs)"
    then have "map (parseSigned env) vs = map Inr (map (projr \<circ> parseSigned env) vs)"
      by (auto simp: image_iff) (metis obj_sumE sum.sel(2))
    then show False using False by blast
  qed
  then obtain e where e: "Inl e \<in> set (map (parseSigned env) vs)" by blast
  then have "\<not> all_passed (verifyDecisionReceiptChain env (Some vs))"
    using chain_checks_invalid [OF e] by (cases vs) (simp_all add: verifyDecisionReceiptChain_def Let_def del: chain_checks.simps)
  then show ?thesis using False by blast
qed

subsection \<open>The head hash commits to the history\<close>

lemma linked_from_snoc:
  "linked_from env p (rs @ [r]) \<longleftrightarrow>
     linked_from env p rs \<and> \<not> date_less env (r_timestamp r) (r_timestamp (last (p # rs)))
     \<and> map_option Inr (r_prev_receipt_hash r) = Some (signedDecisionReceiptHash env (last (p # rs)))"
  by (induction rs arbitrary: p) auto

lemma fresh_hashes_append: "fresh_hashes env seen (rs @ ss) \<Longrightarrow> fresh_hashes env seen rs"
  by (induction rs arbitrary: seen) (auto split: sum.splits)

lemma receipt_chain_snoc:
  assumes "receipt_chain env (rs @ [r])" and "rs \<noteq> []"
  shows "receipt_chain env rs" and "map_option Inr (r_prev_receipt_hash r) = Some (signedDecisionReceiptHash env (last rs))"
proof -
  obtain q qs where rs: "rs = q # qs" using assms(2) by (cases rs) auto
  have chain: "receipt_chain env (q # qs @ [r])" using assms(1) rs by simp
  then have "fresh_hashes env {} ((q # qs) @ [r])" by (simp only: receipt_chain_Cons append_Cons)
  then have "fresh_hashes env {} (q # qs)" by (rule fresh_hashes_append)
  then show "receipt_chain env rs" "map_option Inr (r_prev_receipt_hash r) = Some (signedDecisionReceiptHash env (last rs))"
    using chain unfolding rs receipt_chain_Cons linked_from_snoc by auto
qed

lemma receipt_chain_single: "receipt_chain env [r] \<Longrightarrow> r_prev_receipt_hash r = None"
  by (simp add: receipt_chain_Cons)

definition hashable :: "receipt_env \<Rightarrow> SignedDecisionReceipt \<Rightarrow> bool" where
  "hashable env r \<longleftrightarrow> valid_signed env r \<and> wf_receipt_numbers r"

lemma unsigned_zero_prev: "r_prev_receipt_hash (unsigned_zero r) = r_prev_receipt_hash r"
  by (simp add: unsigned_zero_def)

lemma same_hash_same_receipt:
  assumes "signedDecisionReceiptHash env r = signedDecisionReceiptHash env s" and "hashable env r" and "hashable env s"
    and "collision_free (sha256 env) ts" and "receipt_text r \<in> set ts" and "receipt_text s \<in> set ts"
  shows "unsigned_zero r = unsigned_zero s"
proof -
  have r: "valid_signed env r" "wf_receipt_numbers r" and s: "valid_signed env s" "wf_receipt_numbers s"
    using assms(2,3) by (simp_all add: hashable_def)
  note h = signedDecisionReceiptHash_ok [OF r]
  show ?thesis
    using signedDecisionReceiptHash_inject [OF h _ r(1) s(1) r(2) s(2) assms(4-6)] assms(1) h by simp
qed

lemma head_commits_aux:
  assumes "receipt_chain env rs" and "receipt_chain env ss"
    and "signedDecisionReceiptHash env (last rs) = signedDecisionReceiptHash env (last ss)"
    and "list_all (hashable env) (rs @ ss)" and "set (map receipt_text (rs @ ss)) \<subseteq> set ts"
    and free: "collision_free (sha256 env) ts"
  shows "map unsigned_zero rs = map unsigned_zero ss"
  using assms(1-5)
proof (induction rs arbitrary: ss rule: rev_induct)
  case Nil
  then show ?case by (simp add: receipt_chain_def)
next
  case (snoc r rs)
  obtain ss' s where ss: "ss = ss' @ [s]"
    using snoc.prems(2) by (cases ss rule: rev_cases) (auto simp: receipt_chain_def)
  have hash: "signedDecisionReceiptHash env r = signedDecisionReceiptHash env s"
    and texts: "receipt_text r \<in> set ts" "receipt_text s \<in> set ts" and ok: "hashable env r" "hashable env s"
    using snoc.prems(3-5) ss by simp_all
  have same: "unsigned_zero r = unsigned_zero s" using same_hash_same_receipt [OF hash ok free texts] .
  then have prev: "r_prev_receipt_hash r = r_prev_receipt_hash s" by (metis unsigned_zero_prev)
  show ?case
  proof (cases "rs = []")
    case True
    then have "r_prev_receipt_hash s = None" using snoc.prems(1) prev receipt_chain_single by fastforce
    then have "ss' = []" using receipt_chain_snoc(2) [of env ss' s] snoc.prems(2) ss by fastforce
    then show ?thesis using True ss same by simp
  next
    case False
    have link: "map_option Inr (r_prev_receipt_hash r) = Some (signedDecisionReceiptHash env (last rs))"
      using receipt_chain_snoc(2) [OF snoc.prems(1) False] .
    then have "ss' \<noteq> []" using snoc.prems(2) ss prev receipt_chain_single [of env s] by auto
    moreover from this have "map_option Inr (r_prev_receipt_hash s) = Some (signedDecisionReceiptHash env (last ss'))"
      using receipt_chain_snoc(2) snoc.prems(2) ss by blast
    ultimately have "map unsigned_zero rs = map unsigned_zero ss'"
      using receipt_chain_snoc(1) snoc.prems ss False link prev by (intro snoc.IH) auto
    then show ?thesis using ss same by simp
  qed
qed

text \<open>
  Claim C39. The hash of the last receipt commits to the whole chain: two accepted chains whose last receipts
  have the same hash consist of the same receipts in the same order, up to the sign of zeros, when
  the hash does not collide on their canonical texts. No receipt can be altered, dropped, inserted
  or reordered under an unchanged head.
\<close>

theorem chain_head_commits_to_history:
  assumes "all_passed (verifyDecisionReceiptChain env (Some vs))" and "all_passed (verifyDecisionReceiptChain env (Some ws))"
    and "map (parseSigned env) vs = map Inr rs" and "map (parseSigned env) ws = map Inr ss"
    and "list_all wf_receipt_numbers (rs @ ss)"
    and "collision_free (sha256 env) (map receipt_text (rs @ ss))"
    and "signedDecisionReceiptHash env (last rs) = signedDecisionReceiptHash env (last ss)"
  shows "map unsigned_zero rs = map unsigned_zero ss"
proof -
  have "receipt_chain env rs" "receipt_chain env ss"
    using assms(1,2) verify_chain_parsed [OF assms(3)] verify_chain_parsed [OF assms(4)] by simp_all
  moreover have "valid_signed env r" if "r \<in> set (rs @ ss)" for r
  proof -
    have "Inr r \<in> set (map (parseSigned env) (vs @ ws))" using that assms(3,4) by auto
    then show ?thesis by (auto elim!: parseSigned_eq_Inr [OF sym])
  qed
  then have "list_all (hashable env) (rs @ ss)" using assms(5) by (auto simp: hashable_def list_all_iff)
  ultimately show ?thesis using assms(6,7) by (intro head_commits_aux [of env _ _ "map receipt_text (rs @ ss)"]) simp_all
qed

text \<open>An environment whose hash separates one text from all others.\<close>

definition two_point_env :: "jstr \<Rightarrow> receipt_env" where
  "two_point_env x = sample_env\<lparr>sha256 := (\<lambda>t. if t = x then replicate 64 49 else replicate 64 48)\<rparr>"

lemma valid_signed_two_point [simp]: "valid_signed (two_point_env x) r = valid_signed sample_env r"
  by (simp add: valid_signed_def valid_unsigned_def two_point_env_def)

lemma hashable_sample:
  "request \<noteq> [] \<Longrightarrow> (\<And>p. prev = Some p \<Longrightarrow> sha256_shape p) \<Longrightarrow> hashable (two_point_env x) (sample_receipt request prev)"
  using valid_sample_receipt [of request prev]
  by (simp add: hashable_def wf_receipt_numbers_def sample_receipt_def)

definition genesis :: SignedDecisionReceipt where
  "genesis = sample_receipt (js ''q'') None"

definition chain_env :: receipt_env where
  "chain_env = two_point_env (receipt_text genesis)"

definition genesis_hash :: jstr where
  "genesis_hash = js ''sha256:'' @ replicate 64 49"

definition second :: SignedDecisionReceipt where
  "second = sample_receipt (js ''p'') (Some genesis_hash)"

lemma sha256_shape_genesis: "sha256_shape genesis_hash"
  by (simp only: genesis_hash_def sha256_shape_prefixed) (simp add: hex64_def list_all_replicate is_lower_hex_def is_digit_def)

lemma hashable_chain: "hashable chain_env genesis" "hashable chain_env second"
  unfolding chain_env_def genesis_def second_def by (rule hashable_sample; simp add: sha256_shape_genesis)+

lemma text_second: "receipt_text second \<noteq> receipt_text genesis"
proof
  assume "receipt_text second = receipt_text genesis"
  then have "unsigned_zero second = unsigned_zero genesis"
    using hashable_chain by (intro receipt_text_inject) (simp_all add: hashable_def)
  then have "r_prev_receipt_hash second = r_prev_receipt_hash genesis" by (metis unsigned_zero_prev)
  then show False by (simp add: second_def genesis_def sample_receipt_def)
qed

lemma hash_genesis: "signedDecisionReceiptHash chain_env genesis = Inr genesis_hash"
  and hash_second: "signedDecisionReceiptHash chain_env second = Inr zero_digest"
  using hashable_chain text_second
  by (simp_all add: hashable_def signedDecisionReceiptHash_ok)
    (simp_all add: chain_env_def two_point_env_def genesis_hash_def zero_digest_def)

lemma sample_chain: "receipt_chain chain_env [genesis, second]"
proof -
  have "genesis_hash \<noteq> zero_digest" by (simp add: genesis_hash_def zero_digest_def)
  moreover have "r_prev_receipt_hash genesis = None" "r_prev_receipt_hash second = Some genesis_hash"
      "r_tenant_id_hash second = r_tenant_id_hash genesis" "r_timestamp second = r_timestamp genesis"
    by (simp_all add: genesis_def second_def sample_receipt_def)
  moreover have "\<not> date_less chain_env t t" for t by (simp add: date_less_def split: option.split)
  ultimately show ?thesis by (simp add: receipt_chain_Cons hash_genesis hash_second)
qed

lemma parse_sample_chain:
  "map (parseSigned chain_env) (map signed_json [genesis, second]) = map Inr [genesis, second]"
  using hashable_chain by (simp add: hashable_def parseSigned_signed_json)

theorem chain_head_commits_to_history_witness:
  "\<exists>env rs ss. all_passed (verifyDecisionReceiptChain env (Some (map signed_json rs)))
    \<and> all_passed (verifyDecisionReceiptChain env (Some (map signed_json ss)))
    \<and> signedDecisionReceiptHash env (last rs) = signedDecisionReceiptHash env (last ss)
    \<and> length rs = 2 \<and> map unsigned_zero rs = map unsigned_zero ss"
proof -
  have passed: "all_passed (verifyDecisionReceiptChain chain_env (Some (map signed_json [genesis, second])))"
    using verify_chain_parsed [OF parse_sample_chain] sample_chain by simp
  have "list_all wf_receipt_numbers ([genesis, second] @ [genesis, second])"
    using hashable_chain by (simp add: hashable_def)
  moreover have "collision_free (sha256 chain_env) (map receipt_text ([genesis, second] @ [genesis, second]))"
    using text_second by (simp add: collision_free_def chain_env_def two_point_env_def)
  ultimately have "map unsigned_zero [genesis, second] = map unsigned_zero [genesis, second]"
    using chain_head_commits_to_history [OF passed passed parse_sample_chain parse_sample_chain] by blast
  then show ?thesis using passed by (intro exI [of _ chain_env] exI [of _ "[genesis, second]"]) simp
qed

end
