(* ===== verification/Receipt_Repository.thy ===== *)
theory Receipt_Repository
  imports Receipt_Chain
begin

text \<open>
  The in-memory receipt repository, \<open>receipts/inMemoryReceiptRepository.ts\<close> of
  \<open>packages/enforcement-runtime/src\<close>: three maps kept as association lists in insertion order, the
  order in which a JavaScript \<open>Map\<close> iterates.
\<close>

subsection \<open>The in-memory repository\<close>

record RequestMarker =
  m_receiptId :: jstr
  m_requestDigest :: jstr
  m_persistedAt :: jstr

record ChainHead =
  h_receiptId :: jstr
  h_headHash :: jstr
  h_updatedAt :: jstr

record InMemoryDecisionReceiptRepository =
  receipts :: "(jstr \<times> SignedDecisionReceipt) list"
  requestMarkers :: "(jstr \<times> RequestMarker) list"
  chainHeads :: "(jstr \<times> ChainHead) list"

definition empty_repository :: InMemoryDecisionReceiptRepository where
  "empty_repository = \<lparr>receipts = [], requestMarkers = [], chainHeads = []\<rparr>"

datatype PersistenceStatus = CREATED | IDEMPOTENT_EXISTING

record DecisionReceiptPersistenceResult =
  p_status :: PersistenceStatus
  p_receipt :: SignedDecisionReceipt
  p_persistedAt :: jstr

text \<open>\<open>encodeURIComponent\<close>: UTF-8 bytes, percent-encoded but for the unreserved characters.\<close>

definition percent_byte :: "int \<Rightarrow> jstr" where
  "percent_byte b =
     (let up = (\<lambda>d. if d < 10 then of_int (48 + d) else of_int (55 + d)) in [37, up (b div 16), up (b mod 16)])"

definition utf8_bytes :: "int \<Rightarrow> int list" where
  "utf8_bytes c =
     (if c < 128 then [c]
      else if c < 2048 then [192 + c div 64, 128 + c mod 64]
      else if c < 65536 then [224 + c div 4096, 128 + c div 64 mod 64, 128 + c mod 64]
      else [240 + c div 262144, 128 + c div 4096 mod 64, 128 + c div 64 mod 64, 128 + c mod 64])"

definition uri_unreserved :: "code_unit \<Rightarrow> bool" where
  "uri_unreserved c \<longleftrightarrow> is_upper c \<or> is_lower c \<or> is_digit c \<or> c \<in> {45, 95, 46, 33, 126, 42, 39, 40, 41}"

fun encodeURIComponent :: "jstr \<Rightarrow> jstr option" where
  "encodeURIComponent [] = Some []"
| "encodeURIComponent (c # s) =
     (if uri_unreserved c then map_option ((#) c) (encodeURIComponent s)
      else if is_low_surrogate c then None
      else if is_high_surrogate c then
        (case s of
           d # s' \<Rightarrow>
             if is_low_surrogate d
             then map_option ((@) (concat (map percent_byte
                    (utf8_bytes (65536 + (uint c - 0xD800) * 1024 + (uint d - 0xDC00)))))) (encodeURIComponent s')
             else None
         | [] \<Rightarrow> None)
      else map_option ((@) (concat (map percent_byte (utf8_bytes (uint c))))) (encodeURIComponent s))"

definition repo_key :: "jstr \<Rightarrow> jstr \<Rightarrow> jstr" where
  "repo_key tenantIdHash receiptId = tenantIdHash @ js '':'' @ receiptId"

definition requestMarkerReceiptId :: "jstr \<Rightarrow> receipt_error + jstr" where
  "requestMarkerReceiptId requestId =
     (case encodeURIComponent requestId of
        None \<Rightarrow> Inl UriMalformed
      | Some e \<Rightarrow> Inr (js ''__request__#'' @ e))"

text \<open>
  \<open>put\<close> returns its result, or the exception, together with the state it leaves behind. The last step
  computes the head hash after the first two maps were written, as the code does.
\<close>

definition put_new ::
  "receipt_env \<Rightarrow> SignedDecisionReceipt \<Rightarrow> jstr \<Rightarrow> jstr \<Rightarrow> InMemoryDecisionReceiptRepository \<Rightarrow>
     (receipt_error + DecisionReceiptPersistenceResult) \<times> InMemoryDecisionReceiptRepository" where
  "put_new env r markerKey requestDigest repo =
     (let currentHead = map_option h_headHash (map_of (chainHeads repo) (r_tenant_id_hash r)) in
      if r_prev_receipt_hash r \<noteq> currentHead then (Inl ChainHeadConflict, repo)
      else
        (let repo1 = repo\<lparr>receipts := AList.update (repo_key (r_tenant_id_hash r) (r_receipt_id r)) r (receipts repo),
               requestMarkers := AList.update markerKey
                 \<lparr>m_receiptId = r_receipt_id r, m_requestDigest = requestDigest, m_persistedAt = r_timestamp r\<rparr>
                 (requestMarkers repo)\<rparr>
         in case signedDecisionReceiptHash env r of
              Inl e \<Rightarrow> (Inl e, repo1)
            | Inr hash \<Rightarrow>
                (Inr \<lparr>p_status = CREATED, p_receipt = r, p_persistedAt = r_timestamp r\<rparr>,
                 repo1\<lparr>chainHeads := AList.update (r_tenant_id_hash r)
                   \<lparr>h_receiptId = r_receipt_id r, h_headHash = hash, h_updatedAt = r_timestamp r\<rparr>
                   (chainHeads repo1)\<rparr>)))"

definition put ::
  "receipt_env \<Rightarrow> SignedDecisionReceipt \<Rightarrow> InMemoryDecisionReceiptRepository \<Rightarrow>
     (receipt_error + DecisionReceiptPersistenceResult) \<times> InMemoryDecisionReceiptRepository" where
  "put env receipt repo =
     (case validateSignedDecisionReceipt env receipt of
        Inl e \<Rightarrow> (Inl e, repo)
      | Inr r \<Rightarrow>
          (case requestMarkerReceiptId (r_request_id r) of
             Inl e \<Rightarrow> (Inl e, repo)
           | Inr markerId \<Rightarrow>
               (case decisionReceiptRequestDigest env r of
                  Inl e \<Rightarrow> (Inl e, repo)
                | Inr requestDigest \<Rightarrow>
                    let markerKey = repo_key (r_tenant_id_hash r) markerId in
                    (case map_of (requestMarkers repo) markerKey of
                       Some m \<Rightarrow>
                         if m_requestDigest m \<noteq> requestDigest then (Inl RequestReplayMismatch, repo)
                         else
                           (case map_of (receipts repo) (repo_key (r_tenant_id_hash r) (m_receiptId m)) of
                              None \<Rightarrow> (Inl MarkerWithoutReceipt, repo)
                            | Some existing \<Rightarrow>
                                (Inr \<lparr>p_status = IDEMPOTENT_EXISTING, p_receipt = existing,
                                      p_persistedAt = m_persistedAt m\<rparr>, repo))
                     | None \<Rightarrow>
                         (case map_of (receipts repo) (repo_key (r_tenant_id_hash r) (r_receipt_id r)) of
                            Some existing \<Rightarrow>
                              (case (decisionReceiptDigest env r, decisionReceiptDigest env existing) of
                                 (Inl e, _) \<Rightarrow> (Inl e, repo)
                               | (_, Inl e) \<Rightarrow> (Inl e, repo)
                               | (Inr incoming, Inr stored) \<Rightarrow>
                                   if incoming \<noteq> stored then (Inl ReceiptKeyCollision, repo)
                                   else (Inr \<lparr>p_status = IDEMPOTENT_EXISTING, p_receipt = existing,
                                              p_persistedAt = r_timestamp existing\<rparr>, repo))
                          | None \<Rightarrow> put_new env r markerKey requestDigest repo)))))"

definition repo_get :: "jstr \<Rightarrow> jstr \<Rightarrow> InMemoryDecisionReceiptRepository \<Rightarrow> SignedDecisionReceipt option" where
  "repo_get tenantId receiptId repo = map_of (receipts repo) (repo_key tenantId receiptId)"

definition latestHashForTenant :: "jstr \<Rightarrow> InMemoryDecisionReceiptRepository \<Rightarrow> jstr option" where
  "latestHashForTenant tenantId repo = map_option h_headHash (map_of (chainHeads repo) tenantId)"

record DecisionReceiptChainHead = ChainHead +
  h_tenantId :: jstr

definition listChainHeads ::
  "(jstr \<Rightarrow> jstr \<Rightarrow> int) \<Rightarrow> InMemoryDecisionReceiptRepository \<Rightarrow> DecisionReceiptChainHead list" where
  "listChainHeads localeCompare repo =
     sort_by (\<lambda>a b. localeCompare (h_tenantId a) (h_tenantId b) \<le> 0)
       (map (\<lambda>(t, hd). ChainHead.extend hd \<lparr>h_tenantId = t\<rparr>) (chainHeads repo))"

definition all_receipts ::
  "(jstr \<Rightarrow> jstr \<Rightarrow> int) \<Rightarrow> InMemoryDecisionReceiptRepository \<Rightarrow> SignedDecisionReceipt list" where
  "all_receipts localeCompare repo =
     sort_by (\<lambda>a b. (let t = localeCompare (r_timestamp a) (r_timestamp b) in
                     if t = 0 then localeCompare (r_receipt_id a) (r_receipt_id b) else t) \<le> 0)
       (map snd (receipts repo))"

subsection \<open>Per-tenant logs\<close>

text \<open>
  A path of receipts from one head to another: each receipt names the head before it and its hash
  is the head after it.
\<close>

fun log_linked :: "(SignedDecisionReceipt \<Rightarrow> receipt_error + jstr) \<Rightarrow> jstr option \<Rightarrow> SignedDecisionReceipt list \<Rightarrow>
     jstr option \<Rightarrow> bool" where
  "log_linked hash p [] q = (p = q)"
| "log_linked hash p (r # rs) q =
     (r_prev_receipt_hash r = p \<and> (case hash r of Inl _ \<Rightarrow> False | Inr h \<Rightarrow> log_linked hash (Some h) rs q))"

lemma log_linked_append:
  "log_linked hash p (rs @ ss) q \<longleftrightarrow> (\<exists>m. log_linked hash p rs m \<and> log_linked hash m ss q)"
  by (induction rs arbitrary: p) (auto split: sum.splits)

lemma log_linked_snoc:
  "log_linked hash p (rs @ [r]) q \<longleftrightarrow> log_linked hash p rs (r_prev_receipt_hash r) \<and> (\<exists>h. hash r = Inr h \<and> q = Some h)"
  by (auto simp: log_linked_append split: sum.splits)

text \<open>
  What the callers of a \<open>DecisionReceiptRepository\<close> rely on: a receipt is either appended to the log of
  its tenant, when it names the head, or the state does not change.
\<close>

locale receipt_store =
  fixes store_put :: "SignedDecisionReceipt \<Rightarrow> 's \<Rightarrow> (receipt_error + DecisionReceiptPersistenceResult) \<times> 's"
    and store_latest :: "jstr \<Rightarrow> 's \<Rightarrow> jstr option"
    and store_log :: "jstr \<Rightarrow> 's \<Rightarrow> SignedDecisionReceipt list"
    and store_hash :: "SignedDecisionReceipt \<Rightarrow> receipt_error + jstr"
    and store_inv :: "'s \<Rightarrow> bool"
  assumes put_inv: "store_inv s \<Longrightarrow> store_inv (snd (store_put r s))"
    and put_created: "store_inv s \<Longrightarrow> store_put r s = (Inr p, s') \<Longrightarrow> p_status p = CREATED \<Longrightarrow>
      p_receipt p = r \<and> store_log t s' = (if t = r_tenant_id_hash r then store_log t s @ [r] else store_log t s)"
    and put_unchanged: "store_inv s \<Longrightarrow> store_put r s = (res, s') \<Longrightarrow>
      (\<forall>p. res = Inr p \<longrightarrow> p_status p = IDEMPOTENT_EXISTING) \<Longrightarrow> s' = s"
    and log_to_latest: "store_inv s \<Longrightarrow> log_linked store_hash None (store_log t s) (store_latest t s)"
begin

definition run :: "SignedDecisionReceipt list \<Rightarrow> 's \<Rightarrow> 's" where
  "run rs s = fold (\<lambda>r s. snd (store_put r s)) rs s"

lemma run_inv: "store_inv s \<Longrightarrow> store_inv (run rs s)"
  unfolding run_def by (induction rs arbitrary: s) (simp_all add: put_inv)

lemma put_cases:
  assumes "store_inv s"
  shows "store_log t (snd (store_put r s)) = store_log t s \<and> snd (store_put r s) = s \<or>
    t = r_tenant_id_hash r \<and> store_log t (snd (store_put r s)) = store_log t s @ [r] \<or>
    t \<noteq> r_tenant_id_hash r \<and> store_log t (snd (store_put r s)) = store_log t s"
proof -
  obtain res s' where put: "store_put r s = (res, s')" by fastforce
  show ?thesis
  proof (cases "\<forall>p. res = Inr p \<longrightarrow> p_status p = IDEMPOTENT_EXISTING")
    case True
    then show ?thesis using put_unchanged [OF assms put] put by simp
  next
    case False
    then obtain p where "res = Inr p" "p_status p = CREATED" using PersistenceStatus.exhaust by blast
    then show ?thesis using put_created [OF assms, of r p s' t] put by simp
  qed
qed

lemma run_append_only:
  assumes "store_inv s"
  shows "\<exists>rs'. store_log t (run rs s) = store_log t s @ rs' \<and> set rs' \<subseteq> set rs"
  using assms
proof (induction rs arbitrary: s)
  case Nil
  show ?case by (simp add: run_def)
next
  case (Cons r rs)
  let ?s = "snd (store_put r s)"
  obtain rs' where rs': "store_log t (run rs ?s) = store_log t ?s @ rs'" "set rs' \<subseteq> set rs"
    using Cons.IH [OF put_inv [OF Cons.prems]] by blast
  have step: "store_log t ?s = store_log t s \<or> store_log t ?s = store_log t s @ [r]"
    using put_cases [OF Cons.prems, of t r] by blast
  have run: "run (r # rs) s = run rs ?s" by (simp add: run_def)
  from step show ?case
  proof
    assume "store_log t ?s = store_log t s"
    then show ?thesis using rs' run by (intro exI [of _ rs']) auto
  next
    assume "store_log t ?s = store_log t s @ [r]"
    then show ?thesis using rs' run by (intro exI [of _ "r # rs'"]) auto
  qed
qed

lemma run_linked: "store_inv s \<Longrightarrow> log_linked store_hash None (store_log t (run rs s)) (store_latest t (run rs s))"
  using log_to_latest run_inv by blast

text \<open>The head only moves forward: what was reachable from it stays a prefix of the log.\<close>

lemma run_heads:
  assumes "store_inv s"
  obtains rs' where "log_linked store_hash (store_latest t s) rs' (store_latest t (run rs s))" "set rs' \<subseteq> set rs"
proof -
  obtain rs' where rs': "store_log t (run rs s) = store_log t s @ rs'" "set rs' \<subseteq> set rs"
    using run_append_only [OF assms] by blast
  then obtain m where "log_linked store_hash None (store_log t s) m" "log_linked store_hash m rs' (store_latest t (run rs s))"
    using run_linked [OF assms, of t rs] by (auto simp: log_linked_append)
  moreover have "log_linked hash p xs a \<Longrightarrow> log_linked hash p xs b \<Longrightarrow> a = b" for hash p xs a b
    by (induction xs arbitrary: p) (auto split: sum.splits)
  ultimately show ?thesis using that rs'(2) log_to_latest [OF assms, of t] by metis
qed

end

subsection \<open>A receipt with a request digest has a hash\<close>

lemma sequence_ok_iff: "(\<exists>ys. sequence rs = Inr ys) \<longleftrightarrow> (\<forall>r\<in>set rs. \<exists>y. r = Inr y)"
proof
  assume "\<forall>r\<in>set rs. \<exists>y. r = Inr y"
  then have "rs = map Inr (map projr rs)" by (induction rs) auto
  then show "\<exists>ys. sequence rs = Inr ys" using sequence_eq_Inr by blast
qed (auto simp: sequence_eq_Inr)

lemma canonicalize_object_ok:
  "(\<exists>t. canonicalize (JObj es) = Inr t) \<longleftrightarrow> (\<forall>v\<in>snd ` set es. \<exists>t. canonicalize v = Inr t)"
proof -
  let ?xs = "map print_entry (sort_by key_le (map (\<lambda>(k, v). (k, canonicalize v)) es))"
  have "(\<exists>t. canonicalize (JObj es) = Inr t) \<longleftrightarrow> JUndefined \<notin> snd ` set es \<and> (\<exists>ys. sequence ?xs = Inr ys)"
    by (auto simp: brackets_def split: sum.splits)
  also have "\<dots> \<longleftrightarrow> JUndefined \<notin> snd ` set es \<and> (\<forall>v\<in>snd ` set es. \<exists>t. canonicalize v = Inr t)"
  proof -
    have "print_entry (k, res) = Inr y \<longleftrightarrow> (\<exists>t. res = Inr t \<and> y = stringify_string k @ [58] @ t)" for k res y
      by (auto simp: print_entry_def split: sum.splits)
    then show ?thesis unfolding sequence_ok_iff by (simp add: case_prod_beta)
  qed
  also have "\<dots> \<longleftrightarrow> (\<forall>v\<in>snd ` set es. \<exists>t. canonicalize v = Inr t)" by force
  finally show ?thesis .
qed

lemma request_digest_hash_ok:
  assumes "decisionReceiptRequestDigest env r = Inr d" and "valid_signed env r"
  shows "\<exists>h. signedDecisionReceiptHash env r = Inr h"
proof -
  have "body_entries (UnsignedDecisionReceipt.truncate r) = body_entries r"
    by (simp add: body_entries_def UnsignedDecisionReceipt.defs)
  then have "\<exists>t. canonicalize (JObj (body_entries r)) = Inr t"
    using assms(1) by (auto simp: decisionReceiptRequestDigest_def unsignedReceiptForSigning_def
        validateUnsignedDecisionReceipt_def canonical_digest_def canonical_text_def split: sum.splits if_splits)
  then have "\<exists>t. canonicalize (signed_json r) = Inr t"
    unfolding signed_json_def canonicalize_object_ok by (simp add: id_entry_def prev_entry_def split: option.split)
  then show ?thesis
    using assms(2) by (auto simp: signedDecisionReceiptHash_def validateSignedDecisionReceipt_def canonical_digest_def
        canonical_text_def)
qed

subsection \<open>The repository invariant\<close>

definition tenant_log :: "jstr \<Rightarrow> InMemoryDecisionReceiptRepository \<Rightarrow> SignedDecisionReceipt list" where
  "tenant_log t repo = filter (\<lambda>r. r_tenant_id_hash r = t) (map snd (receipts repo))"

definition marker_key :: "SignedDecisionReceipt \<Rightarrow> receipt_error + jstr" where
  "marker_key r = (case requestMarkerReceiptId (r_request_id r) of Inl e \<Rightarrow> Inl e | Inr i \<Rightarrow> Inr (repo_key (r_tenant_id_hash r) i))"

definition marked :: "receipt_env \<Rightarrow> InMemoryDecisionReceiptRepository \<Rightarrow> SignedDecisionReceipt \<Rightarrow> bool" where
  "marked env repo r \<longleftrightarrow>
     (\<exists>k d. marker_key r = Inr k \<and> decisionReceiptRequestDigest env r = Inr d
        \<and> map_of (requestMarkers repo) k =
            Some \<lparr>m_receiptId = r_receipt_id r, m_requestDigest = d, m_persistedAt = r_timestamp r\<rparr>)"

definition repo_inv :: "receipt_env \<Rightarrow> InMemoryDecisionReceiptRepository \<Rightarrow> bool" where
  "repo_inv env repo \<longleftrightarrow>
     distinct (map fst (receipts repo))
     \<and> (\<forall>(k, r)\<in>set (receipts repo). k = repo_key (r_tenant_id_hash r) (r_receipt_id r) \<and> valid_signed env r \<and> marked env repo r)
     \<and> (\<forall>k m. map_of (requestMarkers repo) k = Some m \<longrightarrow> (\<exists>r\<in>snd ` set (receipts repo). marker_key r = Inr k))
     \<and> (\<forall>t. log_linked (signedDecisionReceiptHash env) None (tenant_log t repo) (latestHashForTenant t repo))"

lemma update_absent: "map_of al k = None \<Longrightarrow> AList.update k v al = al @ [(k, v)]"
  by (induction al) (auto split: if_splits)

lemma repo_inv_empty: "repo_inv env empty_repository"
  by (simp add: repo_inv_def empty_repository_def tenant_log_def latestHashForTenant_def)

text \<open>The state after a receipt is created.\<close>

definition created :: "SignedDecisionReceipt \<Rightarrow> jstr \<Rightarrow> jstr \<Rightarrow> jstr \<Rightarrow> InMemoryDecisionReceiptRepository \<Rightarrow>
     InMemoryDecisionReceiptRepository" where
  "created r k d h repo =
     \<lparr>receipts = receipts repo @ [(repo_key (r_tenant_id_hash r) (r_receipt_id r), r)],
      requestMarkers = requestMarkers repo @ [(k, \<lparr>m_receiptId = r_receipt_id r, m_requestDigest = d, m_persistedAt = r_timestamp r\<rparr>)],
      chainHeads = AList.update (r_tenant_id_hash r)
        \<lparr>h_receiptId = r_receipt_id r, h_headHash = h, h_updatedAt = r_timestamp r\<rparr> (chainHeads repo)\<rparr>"

lemma put_result:
  obtains (created) k d h where "marker_key r = Inr k" "decisionReceiptRequestDigest env r = Inr d"
      "signedDecisionReceiptHash env r = Inr h" "valid_signed env r" "map_of (requestMarkers repo) k = None"
      "repo_get (r_tenant_id_hash r) (r_receipt_id r) repo = None"
      "r_prev_receipt_hash r = latestHashForTenant (r_tenant_id_hash r) repo"
      "put env r repo = (Inr \<lparr>p_status = CREATED, p_receipt = r, p_persistedAt = r_timestamp r\<rparr>, created r k d h repo)"
  | (existing) p where "put env r repo = (Inr p, repo)" "p_status p = IDEMPOTENT_EXISTING"
  | (failed) e where "put env r repo = (Inl e, repo)"
proof (cases "\<exists>e. put env r repo = (Inl e, repo)")
  case True
  then show ?thesis using failed by blast
next
  case nofail: False
  show ?thesis
  proof (cases "\<exists>p. put env r repo = (Inr p, repo) \<and> p_status p = IDEMPOTENT_EXISTING")
    case True
    then show ?thesis using existing by blast
  next
    case False
    obtain i d where pre: "valid_signed env r" "requestMarkerReceiptId (r_request_id r) = Inr i"
        "decisionReceiptRequestDigest env r = Inr d"
      using nofail by (auto simp: put_def validateSignedDecisionReceipt_def Let_def split: if_splits sum.splits)
    let ?k = "repo_key (r_tenant_id_hash r) i"
    have new: "map_of (requestMarkers repo) ?k = None" "repo_get (r_tenant_id_hash r) (r_receipt_id r) repo = None"
      using nofail False pre
      by (auto simp: put_def validateSignedDecisionReceipt_def Let_def repo_get_def split: if_splits sum.splits option.splits)
    then have put: "put env r repo = put_new env r ?k d repo"
      using pre by (simp add: put_def validateSignedDecisionReceipt_def Let_def repo_get_def)
    obtain h where h: "signedDecisionReceiptHash env r = Inr h" using request_digest_hash_ok pre by blast
    have head: "r_prev_receipt_hash r = latestHashForTenant (r_tenant_id_hash r) repo"
    proof (rule ccontr)
      assume "r_prev_receipt_hash r \<noteq> latestHashForTenant (r_tenant_id_hash r) repo"
      then show False using nofail unfolding put by (simp add: put_new_def Let_def latestHashForTenant_def)
    qed
    show ?thesis
      using created [of ?k d h] pre new h head put
      by (simp add: marker_key_def put_new_def created_def Let_def latestHashForTenant_def update_absent repo_get_def)
  qed
qed

lemma receipts_created [simp]:
  "receipts (created r k d h repo) = receipts repo @ [(repo_key (r_tenant_id_hash r) (r_receipt_id r), r)]"
  by (simp add: created_def)

lemma tenant_log_created [simp]:
  "tenant_log t (created r k d h repo) = (if t = r_tenant_id_hash r then tenant_log t repo @ [r] else tenant_log t repo)"
  by (auto simp: tenant_log_def created_def)

lemma latest_created [simp]:
  "latestHashForTenant t (created r k d h repo) = (if t = r_tenant_id_hash r then Some h else latestHashForTenant t repo)"
  by (simp add: latestHashForTenant_def created_def update_conv')

lemma marked_created:
  assumes "map_of (requestMarkers repo) k = None" and "marked env repo s"
  shows "marked env (created r k d h repo) s"
proof -
  have "map_of (requestMarkers (created r k d h repo)) j = Some m" if "map_of (requestMarkers repo) j = Some m" for j m
    using that by (simp add: created_def map_add_def)
  then show ?thesis using assms(2) unfolding marked_def by blast
qed

lemma repo_inv_created:
  assumes inv: "repo_inv env repo" and r: "marker_key r = Inr k" "decisionReceiptRequestDigest env r = Inr d"
      "signedDecisionReceiptHash env r = Inr h" "valid_signed env r"
    and new: "map_of (requestMarkers repo) k = None" "repo_get (r_tenant_id_hash r) (r_receipt_id r) repo = None"
    and head: "r_prev_receipt_hash r = latestHashForTenant (r_tenant_id_hash r) repo"
  shows "repo_inv env (created r k d h repo)"
proof -
  let ?repo = "created r k d h repo"
  have "marked env ?repo r" using r new(1) by (simp add: marked_def created_def map_add_def)
  then have entries: "\<forall>(key, s)\<in>set (receipts ?repo).
      key = repo_key (r_tenant_id_hash s) (r_receipt_id s) \<and> valid_signed env s \<and> marked env ?repo s"
    using inv r(4) marked_created [OF new(1)] by (fastforce simp: repo_inv_def)
  have "distinct (map fst (receipts ?repo))"
    using inv new(2) by (auto simp: repo_inv_def created_def repo_get_def map_of_eq_None_iff)
  moreover have "\<exists>s\<in>snd ` set (receipts ?repo). marker_key s = Inr k'" if "map_of (requestMarkers ?repo) k' = Some m" for k' m
  proof (cases "map_of (requestMarkers repo) k'")
    case None
    then have "k' = k" using that by (simp add: created_def map_add_def split: if_splits)
    then show ?thesis using r(1) by (simp add: created_def)
  next
    case (Some m')
    then have "\<exists>s\<in>snd ` set (receipts repo). marker_key s = Inr k'" using inv by (simp add: repo_inv_def)
    then show ?thesis by (auto simp: created_def)
  qed
  moreover have "log_linked (signedDecisionReceiptHash env) None (tenant_log t ?repo) (latestHashForTenant t ?repo)" for t
    using inv r(3) head by (simp add: repo_inv_def log_linked_snoc)
  ultimately show ?thesis using entries by (simp add: repo_inv_def)
qed

lemma repo_inv_put: "repo_inv env repo \<Longrightarrow> repo_inv env (snd (put env r repo))"
  by (cases rule: put_result [of r env repo]) (simp_all add: repo_inv_created)

interpretation mem: receipt_store "put env" latestHashForTenant tenant_log "signedDecisionReceiptHash env" "repo_inv env" for env
proof (unfold_locales, goal_cases)
  case (1 s r)
  then show ?case by (rule repo_inv_put)
next
  case (2 s r p s' t)
  then show ?case by (cases rule: put_result [of r env s]) auto
next
  case (3 s r res s')
  then show ?case by (cases rule: put_result [of r env s]) auto
next
  case (4 s t)
  then show ?case by (simp add: repo_inv_def)
qed

text \<open>The states of a repository that starts empty.\<close>

inductive reachable_repo :: "receipt_env \<Rightarrow> InMemoryDecisionReceiptRepository \<Rightarrow> bool" for env where
  start: "reachable_repo env empty_repository"
| put: "reachable_repo env repo \<Longrightarrow> reachable_repo env (snd (put env r repo))"

lemma reachable_repo_inv: "reachable_repo env repo \<Longrightarrow> repo_inv env repo"
  by (induction rule: reachable_repo.induct) (simp_all add: repo_inv_empty repo_inv_put)

text \<open>
  Claim C4. \<open>put\<close> refines an append-only log per tenant. Either the receipt was valid, named the current head of its
  tenant and became the last entry of that tenant's log and its hash the new head; or the call
  returned an existing receipt or an error and the repository is unchanged. In particular a failed
  \<open>put\<close> leaves no partial write behind.
\<close>

theorem put_refines_tenant_log:
  "(\<exists>h. put env r repo = (Inr \<lparr>p_status = CREATED, p_receipt = r, p_persistedAt = r_timestamp r\<rparr>, snd (put env r repo))
      \<and> valid_signed env r \<and> signedDecisionReceiptHash env r = Inr h
      \<and> r_prev_receipt_hash r = latestHashForTenant (r_tenant_id_hash r) repo
      \<and> (\<lambda>t. tenant_log t (snd (put env r repo))) =
          (\<lambda>t. tenant_log t repo)(r_tenant_id_hash r := tenant_log (r_tenant_id_hash r) repo @ [r])
      \<and> (\<lambda>t. latestHashForTenant t (snd (put env r repo))) =
          (\<lambda>t. latestHashForTenant t repo)(r_tenant_id_hash r := Some h))
   \<or> snd (put env r repo) = repo
      \<and> (case fst (put env r repo) of Inl _ \<Rightarrow> True | Inr p \<Rightarrow> p_status p = IDEMPOTENT_EXISTING)"
proof (cases rule: put_result [of r env repo])
  case (created k d h)
  then have "(\<lambda>t. tenant_log t (snd (put env r repo))) =
          (\<lambda>t. tenant_log t repo)(r_tenant_id_hash r := tenant_log (r_tenant_id_hash r) repo @ [r])"
      "(\<lambda>t. latestHashForTenant t (snd (put env r repo))) =
          (\<lambda>t. latestHashForTenant t repo)(r_tenant_id_hash r := Some h)"
    by auto
  then show ?thesis using created by simp
qed simp_all

text \<open>
  Claim C18. In every reachable repository and for every tenant, the stored receipts form an unbroken hash chain,
  in insertion order, from no previous hash to the head that \<open>latestHashForTenant\<close> reports; and however
  many further receipts are put, the log is only extended.
\<close>

theorem repository_chain_invariant:
  assumes "reachable_repo env repo"
  shows "log_linked (signedDecisionReceiptHash env) None (tenant_log t repo) (latestHashForTenant t repo)
    \<and> (\<exists>rs'. tenant_log t (mem.run env rs repo) = tenant_log t repo @ rs' \<and> set rs' \<subseteq> set rs)"
  using mem.log_to_latest mem.run_append_only reachable_repo_inv [OF assms] by blast

lemma put_created:
  assumes "valid_signed env r" "marker_key r = Inr k" "decisionReceiptRequestDigest env r = Inr d"
      "signedDecisionReceiptHash env r = Inr h" "map_of (requestMarkers repo) k = None"
      "repo_get (r_tenant_id_hash r) (r_receipt_id r) repo = None"
      "r_prev_receipt_hash r = latestHashForTenant (r_tenant_id_hash r) repo"
  shows "put env r repo = (Inr \<lparr>p_status = CREATED, p_receipt = r, p_persistedAt = r_timestamp r\<rparr>, created r k d h repo)"
proof -
  obtain i where i: "requestMarkerReceiptId (r_request_id r) = Inr i" "k = repo_key (r_tenant_id_hash r) i"
    using assms(2) by (auto simp: marker_key_def split: sum.splits)
  show ?thesis
    using assms i by (simp add: put_def validateSignedDecisionReceipt_def put_new_def created_def Let_def
        latestHashForTenant_def update_absent repo_get_def)
qed

lemma stored_lookup:
  assumes "repo_inv env repo" and "r \<in> snd ` set (receipts repo)"
  shows "repo_get (r_tenant_id_hash r) (r_receipt_id r) repo = Some r" and "marked env repo r" and "valid_signed env r"
proof -
  obtain k where "(k, r) \<in> set (receipts repo)" using assms(2) by auto
  then show "repo_get (r_tenant_id_hash r) (r_receipt_id r) repo = Some r" "marked env repo r" "valid_signed env r"
    using assms(1) by (auto simp: repo_inv_def repo_get_def)
qed

text \<open>
  A request is recorded at most once. Once a receipt of a tenant is stored, a \<open>put\<close> of any valid receipt of
  the same tenant and request leaves the repository unchanged: it returns the stored receipt when
  the request digests agree, so that retries are idempotent, and reports a replay mismatch
  otherwise.
\<close>

theorem request_recorded_once:
  assumes "reachable_repo env repo" and "r \<in> snd ` set (receipts repo)" and "valid_signed env s"
    and "r_tenant_id_hash s = r_tenant_id_hash r" and "r_request_id s = r_request_id r"
    and "decisionReceiptRequestDigest env s = Inr d"
  shows "put env s repo =
    (if decisionReceiptRequestDigest env r = Inr d
     then Inr \<lparr>p_status = IDEMPOTENT_EXISTING, p_receipt = r, p_persistedAt = r_timestamp r\<rparr>
     else Inl RequestReplayMismatch, repo)"
proof -
  note inv = reachable_repo_inv [OF assms(1)]
  obtain i e where i: "requestMarkerReceiptId (r_request_id r) = Inr i" "decisionReceiptRequestDigest env r = Inr e"
      "map_of (requestMarkers repo) (repo_key (r_tenant_id_hash r) i) =
         Some \<lparr>m_receiptId = r_receipt_id r, m_requestDigest = e, m_persistedAt = r_timestamp r\<rparr>"
    using stored_lookup(2) [OF inv assms(2)] by (auto simp: marked_def marker_key_def split: sum.splits)
  show ?thesis
    using stored_lookup(1) [OF inv assms(2)] assms(3-6) i
    by (simp add: put_def validateSignedDecisionReceipt_def Let_def repo_get_def)
qed

subsection \<open>The log of a tenant passes the chain check\<close>

definition timestamps_in_order :: "receipt_env \<Rightarrow> SignedDecisionReceipt list \<Rightarrow> bool" where
  "timestamps_in_order env = successively (\<lambda>a b. \<not> date_less env (r_timestamp b) (r_timestamp a))"

lemma log_linked_from:
  assumes "log_linked (signedDecisionReceiptHash env) p (r # rs) q" and "timestamps_in_order env (r # rs)"
  shows "linked_from env r rs"
  using assms
proof (induction rs arbitrary: p r)
  case Nil
  show ?case by simp
next
  case (Cons s rs)
  then show ?case by (auto simp: timestamps_in_order_def split: sum.splits)
qed

lemma log_linked_hashes:
  "log_linked hash p rs q \<Longrightarrow> \<exists>hs. sequence (map hash rs) = Inr hs \<and> map hash rs = map Inr hs"
  by (induction rs arbitrary: p) (auto split: sum.splits)

lemma distinct_log_hashes:
  assumes "log_linked (signedDecisionReceiptHash env) p rs q" and "list_all (hashable env) rs"
    and "collision_free (sha256 env) (map receipt_text rs)" and "distinct (map r_receipt_id rs)"
  shows "fresh_hashes env {} rs"
proof -
  obtain hs where hs: "sequence (map (signedDecisionReceiptHash env) rs) = Inr hs" "map (signedDecisionReceiptHash env) rs = map Inr hs"
    using log_linked_hashes [OF assms(1)] by blast
  have "inj_on (signedDecisionReceiptHash env) (set rs)"
  proof (rule inj_onI)
    fix r s assume rs: "r \<in> set rs" "s \<in> set rs" "signedDecisionReceiptHash env r = signedDecisionReceiptHash env s"
    then have "unsigned_zero r = unsigned_zero s"
      using same_hash_same_receipt [OF rs(3) _ _ assms(3)] assms(2) by (simp add: list_all_iff)
    then have "r_receipt_id (unsigned_zero r) = r_receipt_id (unsigned_zero s)" by simp
    then have "r_receipt_id r = r_receipt_id s" by (simp add: unsigned_zero_def)
    then show "r = s" using rs(1,2) assms(4) by (meson distinct_map inj_onD)
  qed
  moreover have "distinct rs" using assms(4) by (simp add: distinct_map)
  ultimately have "distinct (map (signedDecisionReceiptHash env) rs)" by (simp add: distinct_map)
  then have "distinct hs" unfolding hs(2) by (simp add: distinct_map)
  then show ?thesis using hs(1) by (simp add: fresh_hashes_def)
qed

lemma tenant_log_ids:
  assumes "repo_inv env repo"
  shows "distinct (map r_receipt_id (tenant_log t repo))"
proof -
  let ?es = "filter (\<lambda>e. r_tenant_id_hash (snd e) = t) (receipts repo)"
  have keys: "map fst ?es = map (\<lambda>r. repo_key t (r_receipt_id r)) (map snd ?es)"
    using assms by (auto simp: repo_inv_def)
  have "distinct (map fst ?es)" using assms by (simp add: repo_inv_def distinct_map_filter)
  then have "distinct (map (repo_key t) (map r_receipt_id (map snd ?es)))" using keys by (simp add: comp_def)
  moreover have "map snd ?es = tenant_log t repo" by (simp add: tenant_log_def filter_map comp_def)
  ultimately show ?thesis by (simp only: distinct_map)
qed

text \<open>
  Repository and chain verifier fit together: in every reachable repository, the log of a tenant,
  encoded as JSON, passes every check of \<open>verifyDecisionReceiptChain\<close> when its timestamps do not go
  back and the hash does not collide on its receipts.
\<close>

theorem tenant_log_verifies:
  assumes "reachable_repo env repo" and "tenant_log t repo \<noteq> []"
    and "list_all wf_receipt_numbers (tenant_log t repo)" and "timestamps_in_order env (tenant_log t repo)"
    and "collision_free (sha256 env) (map receipt_text (tenant_log t repo))"
  shows "all_passed (verifyDecisionReceiptChain env (Some (map signed_json (tenant_log t repo))))"
proof -
  note inv = reachable_repo_inv [OF assms(1)]
  obtain r rs where log: "tenant_log t repo = r # rs" using assms(2) by (cases "tenant_log t repo") auto
  have mem: "s \<in> snd ` set (receipts repo) \<and> r_tenant_id_hash s = t" if "s \<in> set (r # rs)" for s
    using that unfolding log [symmetric] by (auto simp: tenant_log_def)
  then have valid: "valid_signed env s" if "s \<in> set (r # rs)" for s using stored_lookup(3) [OF inv] that by blast
  have linked: "log_linked (signedDecisionReceiptHash env) None (r # rs) (latestHashForTenant t repo)"
    using inv log by (metis repo_inv_def)
  have ok: "list_all (hashable env) (r # rs)"
    using valid assms(3) unfolding log by (auto simp: hashable_def list_all_iff)
  have "fresh_hashes env {} (r # rs)"
    using distinct_log_hashes [OF linked ok] assms(5) tenant_log_ids [OF inv, of t] unfolding log by blast
  moreover have "linked_from env r rs" using log_linked_from [OF linked] assms(4) unfolding log by blast
  moreover have "list_all (\<lambda>s. r_tenant_id_hash s = r_tenant_id_hash r) rs"
    using mem by (simp add: list_all_iff)
  ultimately have "receipt_chain env (r # rs)" using linked unfolding receipt_chain_Cons by simp
  moreover have "map (parseSigned env) (map signed_json (r # rs)) = map Inr (r # rs)"
    using valid parseSigned_signed_json by simp
  ultimately show ?thesis using verify_chain_parsed [of env "map signed_json (r # rs)" "r # rs"] unfolding log by simp
qed

subsection \<open>A repository with two receipts\<close>

lemma request_digest_ok:
  assumes "valid_signed env r" and "wf_receipt_numbers r"
  shows "\<exists>d. decisionReceiptRequestDigest env r = Inr d"
proof -
  have "valid_unsigned env (UnsignedDecisionReceipt.truncate r)"
    using assms(1) by (simp add: valid_signed_def valid_unsigned_def UnsignedDecisionReceipt.defs)
  moreover have "json_shaped (JObj (body_entries (UnsignedDecisionReceipt.truncate r)))"
    using assms(2) by (simp only: json_shaped_body) (simp add: wf_receipt_numbers_def UnsignedDecisionReceipt.defs)
  ultimately show ?thesis
    using canonicalize_norm [of "JObj (body_entries (UnsignedDecisionReceipt.truncate r))"]
    by (simp add: decisionReceiptRequestDigest_def unsignedReceiptForSigning_def validateUnsignedDecisionReceipt_def
        canonical_digest_def canonical_text_def del: canonicalize.simps)
qed

definition repo1 :: InMemoryDecisionReceiptRepository where
  "repo1 = snd (put chain_env genesis empty_repository)"

definition repo2 :: InMemoryDecisionReceiptRepository where
  "repo2 = snd (put chain_env second repo1)"

lemma reachable_samples: "reachable_repo chain_env repo1" "reachable_repo chain_env repo2"
  unfolding repo1_def repo2_def by (intro reachable_repo.intros)+

lemma sample_fields:
  "r_request_id genesis = js ''q''" "r_request_id second = js ''p''"
  "r_tenant_id_hash genesis = zero_digest" "r_tenant_id_hash second = zero_digest"
  "r_prev_receipt_hash genesis = None" "r_prev_receipt_hash second = Some genesis_hash"
  "r_receipt_id genesis = js ''grct_'' @ sample_digest (js ''q'')"
  "r_receipt_id second = js ''grct_'' @ sample_digest (js ''p'')"
  "r_timestamp genesis = js ''2026-01-01T00:00:00Z''" "r_timestamp second = js ''2026-01-01T00:00:00Z''"
  by (simp_all add: genesis_def second_def sample_receipt_def)

lemma sample_marker_keys:
  "marker_key genesis = Inr (repo_key zero_digest (js ''__request__#q''))"
  "marker_key second = Inr (repo_key zero_digest (js ''__request__#p''))"
proof -
  have "requestMarkerReceiptId (js ''q'') = Inr (js ''__request__#q'')" "requestMarkerReceiptId (js ''p'') = Inr (js ''__request__#p'')"
    by code_simp+
  then show "marker_key genesis = Inr (repo_key zero_digest (js ''__request__#q''))"
      "marker_key second = Inr (repo_key zero_digest (js ''__request__#p''))"
    by (simp_all add: marker_key_def sample_fields)
qed

lemma sample_logs: "tenant_log zero_digest repo1 = [genesis]" "tenant_log zero_digest repo2 = [genesis, second]"
proof -
  have ok: "valid_signed chain_env genesis" "valid_signed chain_env second"
      "wf_receipt_numbers genesis" "wf_receipt_numbers second"
    using hashable_chain by (simp_all add: hashable_def)
  obtain d e where d: "decisionReceiptRequestDigest chain_env genesis = Inr d" "decisionReceiptRequestDigest chain_env second = Inr e"
    using request_digest_ok ok by metis
  have "put chain_env genesis empty_repository = (Inr \<lparr>p_status = CREATED, p_receipt = genesis, p_persistedAt = r_timestamp genesis\<rparr>,
      created genesis (repo_key zero_digest (js ''__request__#q'')) d genesis_hash empty_repository)"
    by (rule put_created [OF ok(1) sample_marker_keys(1) d(1) hash_genesis])
      (simp_all add: empty_repository_def repo_get_def latestHashForTenant_def sample_fields)
  then have repo1: "repo1 = created genesis (repo_key zero_digest (js ''__request__#q'')) d genesis_hash empty_repository"
    by (simp add: repo1_def)
  have "tenant_log zero_digest empty_repository = []" by (simp add: tenant_log_def empty_repository_def)
  then show log1: "tenant_log zero_digest repo1 = [genesis]" unfolding repo1 tenant_log_created by (simp add: sample_fields)
  have "sample_digest (js ''q'') \<noteq> sample_digest (js ''p'')" by code_simp
  then have "put chain_env second repo1 = (Inr \<lparr>p_status = CREATED, p_receipt = second, p_persistedAt = r_timestamp second\<rparr>,
      created second (repo_key zero_digest (js ''__request__#p'')) e zero_digest repo1)"
    by (intro put_created [OF ok(2) sample_marker_keys(2) d(2) hash_second])
      (simp_all add: repo1 sample_fields repo_get_def empty_repository_def, simp_all add: created_def repo_key_def sample_fields)
  then have repo2: "repo2 = created second (repo_key zero_digest (js ''__request__#p'')) e zero_digest repo1"
    by (simp add: repo2_def)
  show "tenant_log zero_digest repo2 = [genesis, second]"
    unfolding repo2 tenant_log_created by (simp add: sample_fields log1)
qed

theorem repository_chain_invariant_witness:
  "tenant_log zero_digest repo2 = [genesis, second]
   \<and> log_linked (signedDecisionReceiptHash chain_env) None (tenant_log zero_digest repo2) (latestHashForTenant zero_digest repo2)"
  using repository_chain_invariant [OF reachable_samples(2)] sample_logs(2) by blast

theorem request_recorded_once_witness:
  "\<exists>d. decisionReceiptRequestDigest chain_env genesis = Inr d
    \<and> put chain_env genesis repo2 = (Inr \<lparr>p_status = IDEMPOTENT_EXISTING, p_receipt = genesis, p_persistedAt = r_timestamp genesis\<rparr>, repo2)"
proof -
  have valid: "valid_signed chain_env genesis" using hashable_chain by (simp add: hashable_def)
  obtain d where d: "decisionReceiptRequestDigest chain_env genesis = Inr d"
    using request_digest_ok hashable_chain unfolding hashable_def by blast
  have "genesis \<in> set (tenant_log zero_digest repo2)" by (simp add: sample_logs)
  then have "genesis \<in> snd ` set (receipts repo2)" by (auto simp: tenant_log_def)
  from request_recorded_once [OF reachable_samples(2) this valid _ _ d] show ?thesis using d by simp
qed

theorem tenant_log_verifies_witness:
  "all_passed (verifyDecisionReceiptChain chain_env (Some (map signed_json [genesis, second])))"
proof -
  have "list_all wf_receipt_numbers [genesis, second]" using hashable_chain by (simp add: hashable_def)
  moreover have "timestamps_in_order chain_env [genesis, second]"
    by (simp add: timestamps_in_order_def date_less_def sample_fields split: option.split)
  moreover have "collision_free (sha256 chain_env) (map receipt_text [genesis, second])"
    using text_second by (simp add: collision_free_def chain_env_def two_point_env_def)
  ultimately show ?thesis
    using tenant_log_verifies [OF reachable_samples(2), of zero_digest] unfolding sample_logs by blast
qed

end
