(* ===== verification/Js_Text.thy ===== *)
theory Js_Text
  imports Prelude
begin

text \<open>
  The string methods of the JavaScript library that the runtime uses beyond those of the prelude:
  \<open>trim\<close>, \<open>split\<close> on one character, and \<open>replace\<close> with a global regular expression. The expressions
  that occur repeat character classes only, so a pattern lists the ends of its matches from a
  position in the order in which backtracking tries them; the first is the match.
\<close>

subsection \<open>White space and splitting\<close>

definition is_js_space :: "code_unit \<Rightarrow> bool" where
  "is_js_space c \<longleftrightarrow> (9 \<le> c \<and> c \<le> 13) \<or> (0x2000 \<le> c \<and> c \<le> 0x200A)
     \<or> c \<in> {32, 160, 0x1680, 0x2028, 0x2029, 0x202F, 0x205F, 0x3000, 0xFEFF}"

definition js_trim :: "jstr \<Rightarrow> jstr" where
  "js_trim s = rev (dropWhile is_js_space (rev (dropWhile is_js_space s)))"

fun split_on :: "code_unit \<Rightarrow> jstr \<Rightarrow> jstr list" where
  "split_on c [] = [[]]"
| "split_on c (d # s) =
     (if d = c then [] # split_on c s
      else case split_on c s of [] \<Rightarrow> [[d]] | x # xs \<Rightarrow> (d # x) # xs)"

lemma split_on_nonempty [simp]: "split_on c s \<noteq> []"
  by (induction s) (auto split: list.splits)

lemma join_split_on: "joinWith [c] (split_on c s) = s"
proof (induction s)
  case (Cons d s)
  then show ?case by (cases "split_on c s"; cases "tl (split_on c s)") auto
qed simp

lemma split_on_no_separator: "x \<in> set (split_on c s) \<Longrightarrow> c \<notin> set x"
  by (induction s arbitrary: x) (auto split: if_splits list.splits)

subsection \<open>Patterns\<close>

datatype pattern =
    Cls "code_unit \<Rightarrow> bool"
  | Rep "code_unit \<Rightarrow> bool" nat "nat option"
  | Seqp pattern pattern
  | Altp pattern pattern
  | Optp pattern
  | Boundary "code_unit \<Rightarrow> bool"

definition rep_max :: "(code_unit \<Rightarrow> bool) \<Rightarrow> nat option \<Rightarrow> jstr \<Rightarrow> nat" where
  "rep_max p n s = (let k = length (takeWhile p s) in case n of None \<Rightarrow> k | Some m \<Rightarrow> min k m)"

definition word_at :: "(code_unit \<Rightarrow> bool) \<Rightarrow> jstr \<Rightarrow> bool" where
  "word_at w s = (case s of [] \<Rightarrow> False | c # _ \<Rightarrow> w c)"

text \<open>A position is the text before it, reversed, and the text after it.\<close>

fun match_ends :: "pattern \<Rightarrow> jstr \<times> jstr \<Rightarrow> (jstr \<times> jstr) list" where
  "match_ends (Cls p) (b, s) = (case s of [] \<Rightarrow> [] | c # s' \<Rightarrow> if p c then [(c # b, s')] else [])"
| "match_ends (Rep p m n) (b, s) =
     map (\<lambda>j. (rev (take j s) @ b, drop j s)) (rev [m ..< Suc (rep_max p n s)])"
| "match_ends (Seqp r q) bs = concat (map (match_ends q) (match_ends r bs))"
| "match_ends (Altp r q) bs = match_ends r bs @ match_ends q bs"
| "match_ends (Optp r) bs = match_ends r bs @ [bs]"
| "match_ends (Boundary w) (b, s) = (if word_at w b \<noteq> word_at w s then [(b, s)] else [])"

text \<open>\<open>String.prototype.replace\<close> with a global pattern; after an empty match the scan moves by one.\<close>

function replace_from :: "pattern \<Rightarrow> jstr \<Rightarrow> jstr \<Rightarrow> jstr \<Rightarrow> jstr" where
  "replace_from r rep b s =
     (let step = (case s of [] \<Rightarrow> [] | c # s' \<Rightarrow> c # replace_from r rep (c # b) s') in
      case match_ends r (b, s) of
        [] \<Rightarrow> step
      | (b', s') # _ \<Rightarrow> if length s' < length s then rep @ replace_from r rep b' s' else rep @ step)"
  by pat_completeness auto
termination by (relation "measure (\<lambda>(r, rep, b, s). length s)") auto

declare replace_from.simps [simp del]

definition replace_all :: "pattern \<Rightarrow> jstr \<Rightarrow> jstr \<Rightarrow> jstr" where
  "replace_all r rep s = replace_from r rep [] s"

lemma replace_from_no_match:
  assumes "\<And>b' s'. match_ends r (b', s') \<noteq> [] \<Longrightarrow> \<exists>c\<in>set s'. P c" and "\<forall>c\<in>set s. \<not> P c"
  shows "replace_from r rep b s = s"
  using assms(2)
proof (induction s arbitrary: b)
  case Nil
  have "match_ends r (b, []) = []" using assms(1) [of b "[]"] by auto
  then show ?case by (simp add: replace_from.simps [of r rep b "[]"])
next
  case (Cons c s)
  have "match_ends r (b, c # s) = []" using assms(1) [of b "c # s"] Cons.prems by auto
  then show ?case using Cons by (simp add: replace_from.simps [of r rep b "c # s"])
qed

definition literal :: "(code_unit \<Rightarrow> code_unit \<Rightarrow> bool) \<Rightarrow> jstr \<Rightarrow> pattern" where
  "literal eq s = foldr (\<lambda>c r. Seqp (Cls (eq c)) r) s (Rep (\<lambda>_. True) 0 (Some 0))"

text \<open>Simple case folding, restricted to the characters that fold to ASCII letters.\<close>

definition fold_unit :: "code_unit \<Rightarrow> code_unit" where
  "fold_unit c = (if is_upper c then c + 32 else if c = 0x17F then 115 else if c = 0x212A then 107 else c)"

definition ci_eq :: "code_unit \<Rightarrow> code_unit \<Rightarrow> bool" where
  "ci_eq c d \<longleftrightarrow> fold_unit c = fold_unit d"

definition ci_letter :: "code_unit \<Rightarrow> bool" where
  "ci_letter c \<longleftrightarrow> is_lower (fold_unit c)"

definition word_unit :: "code_unit \<Rightarrow> bool" where
  "word_unit c \<longleftrightarrow> is_upper c \<or> is_lower c \<or> is_digit c \<or> c = 95"

definition ci_word_unit :: "code_unit \<Rightarrow> bool" where
  "ci_word_unit c \<longleftrightarrow> word_unit (fold_unit c)"

end
