(* ===== verification/Identity.thy ===== *)
theory Identity
  imports Policy Js_Text
begin

text \<open>
  Who is calling, and which model may be called: \<open>identity/context.ts\<close> and
  \<open>bedrock/modelAllowlist.ts\<close> of \<open>packages/enforcement-runtime/src\<close>. Request bodies are \<open>jsval\<close>s; the
  host objects among them have no entries of their own in the model. \<open>JSON.parse\<close> is a parameter of
  \<open>parseModelAllowlist\<close>.
\<close>

subsection \<open>Verified identities\<close>

datatype IdentitySource = Jwt | Authorizer | Lambda_authorizer | Cognito

record VerifiedIdentityContext =
  id_tenantId :: jstr
  id_userId :: jstr
  id_role :: jstr
  id_sessionId :: jstr
  id_requestId :: jstr
  id_source :: IdentitySource

record AuthorizerClaims =
  a_tenantId :: "jstr option"
  a_userId :: "jstr option"
  a_role :: "jstr option"
  a_sessionId :: "jstr option"
  a_requestId :: "jstr option"
  a_source :: "IdentitySource option"

datatype identity_error =
    IdentityRequired
  | ClientDeclaredIdentity "jstr list"
  | TenantMismatch jstr jstr

definition clientIdentityKeys :: "jstr list" where
  "clientIdentityKeys = map js [''tenant_id'', ''tenantId'', ''tenantSlug'', ''tenant_slug'', ''user_id'', ''userId'',
     ''session_id'', ''sessionId'']"

definition resolveVerifiedIdentity ::
  "AuthorizerClaims \<Rightarrow> jstr option \<Rightarrow> identity_error + VerifiedIdentityContext" where
  "resolveVerifiedIdentity a requestId =
     (if or_default [] (a_tenantId a) = [] \<or> or_default [] (a_userId a) = [] then Inl IdentityRequired
      else Inr \<lparr>id_tenantId = or_default [] (a_tenantId a), id_userId = or_default [] (a_userId a),
        id_role = or_default (js ''user'') (a_role a), id_sessionId = or_default (js ''session-unknown'') (a_sessionId a),
        id_requestId = or_default (or_default (js ''request-unknown'') requestId) (a_requestId a),
        id_source = or_default Lambda_authorizer (a_source a)\<rparr>)"

subsection \<open>Client-declared identity\<close>

definition key_path :: "jstr \<Rightarrow> jstr \<Rightarrow> jstr" where
  "key_path path key = (if path = [] then key else path @ js ''.'' @ key)"

lemma size_enumerated_item [termination_simp]:
  "(i, Some w) \<in> set (enumerate n xs) \<Longrightarrow> (k, JArr xs) \<in> set es \<Longrightarrow>
     size w < Suc (size_list (size_prod (\<lambda>_. 0) size) es)"
proof -
  assume item: "(i, Some w) \<in> set (enumerate n xs)" and entry: "(k, JArr xs) \<in> set es"
  have "Some w \<in> set xs" using item by (metis in_set_enumerate_eq nth_mem snd_conv fst_conv in_set_zipE enumerate_eq_zip)
  then have "size w < size (JArr xs)" using size_array_item by simp
  moreover have "size (JArr xs) < Suc (size_list (size_prod (\<lambda>_. 0) size) es)" using size_object_entry [OF entry] .
  ultimately show ?thesis by simp
qed

function (sequential) declaredIdentityKeys :: "bool \<Rightarrow> jstr \<Rightarrow> jsval \<Rightarrow> jstr list" where
  "declaredIdentityKeys recursive path (JObj es) =
     (let declared = map (\<lambda>(k, _). key_path path k) (filter (\<lambda>(k, _). k \<in> set clientIdentityKeys) es) in
      if \<not> recursive then declared
      else declared @ concat (map (\<lambda>(k, v).
        case v of
          JArr xs \<Rightarrow> concat (map (\<lambda>(i, item).
            case item of
              None \<Rightarrow> []
            | Some w \<Rightarrow> declaredIdentityKeys True (key_path (key_path path k) (nat_str i)) w) (enumerate 0 xs))
        | _ \<Rightarrow> declaredIdentityKeys True (key_path path k) v) es))"
| "declaredIdentityKeys recursive path _ = []"
  by pat_completeness auto
termination
  by (relation "measure (\<lambda>(r, p, v). size v)") (auto simp: size_enumerated_item dest: size_object_entry)

definition assertNoClientDeclaredIdentity :: "bool \<Rightarrow> jsval \<Rightarrow> identity_error + unit" where
  "assertNoClientDeclaredIdentity recursive v =
     (let declared = declaredIdentityKeys recursive [] v in
      if declared = [] then Inr () else Inl (ClientDeclaredIdentity (sort_by (\<le>) declared)))"

subsection \<open>The model allowlist\<close>

datatype allowlist_error = AllowlistNotJson | AllowlistShape | ModelNotAllowed jstr

fun allowlist_entry :: "jsval option \<Rightarrow> jstr option" where
  "allowlist_entry (Some (JStr s)) = (if js_trim s = [] then None else Some (js_trim s))"
| "allowlist_entry _ = None"

definition parseModelAllowlist :: "(jstr \<Rightarrow> jsval option) \<Rightarrow> jstr option \<Rightarrow> allowlist_error + jstr list" where
  "parseModelAllowlist json_parse value =
     (case value of
        None \<Rightarrow> Inr []
      | Some v \<Rightarrow>
          if js_trim v = [] then Inr []
          else if startsWith (js_trim v) (js ''['') then
            (case json_parse (js_trim v) of
               None \<Rightarrow> Inl AllowlistNotJson
             | Some (JArr xs) \<Rightarrow>
                 if None \<in> set (map allowlist_entry xs) then Inl AllowlistShape
                 else Inr (map (the \<circ> allowlist_entry) xs)
             | Some _ \<Rightarrow> Inl AllowlistShape)
          else Inr (filter (\<lambda>p. p \<noteq> []) (map js_trim (split_on 44 (js_trim v)))))"

definition isModelAllowed :: "jstr \<Rightarrow> jstr list \<Rightarrow> bool" where
  "isModelAllowed modelId allowlist \<longleftrightarrow> modelId \<in> set allowlist"

definition assertModelAllowed :: "jstr \<Rightarrow> jstr list \<Rightarrow> allowlist_error + unit" where
  "assertModelAllowed modelId allowlist =
     (if isModelAllowed modelId allowlist then Inr () else Inl (ModelNotAllowed modelId))"

subsection \<open>What the recursive check detects\<close>

text \<open>An identity key at any depth of a value, and values in which no array is an element of an array.\<close>

fun holds_identity :: "jsval \<Rightarrow> bool" where
  "holds_identity (JObj es) = list_ex (\<lambda>(k, v). k \<in> set clientIdentityKeys \<or> holds_identity v) es"
| "holds_identity (JArr xs) = list_ex (\<lambda>item. case item of None \<Rightarrow> False | Some v \<Rightarrow> holds_identity v) xs"
| "holds_identity _ = False"

fun is_array :: "jsval \<Rightarrow> bool" where
  "is_array (JArr _) = True"
| "is_array _ = False"

fun flat_arrays :: "jsval \<Rightarrow> bool" where
  "flat_arrays (JObj es) = list_all (\<lambda>(k, v). flat_arrays v) es"
| "flat_arrays (JArr xs) =
     list_all (\<lambda>item. case item of None \<Rightarrow> True | Some v \<Rightarrow> \<not> is_array v \<and> flat_arrays v) xs"
| "flat_arrays _ = True"

lemma set_enumerate_items: "snd ` set (enumerate n xs) = set xs"
  by (metis list.set_map map_snd_enumerate)

definition detects :: "jsval \<Rightarrow> bool" where
  "detects v \<longleftrightarrow> (\<forall>path. declaredIdentityKeys True path v = [] \<longleftrightarrow> \<not> holds_identity v)"

lemma detects_object:
  assumes "\<And>k v. (k, v) \<in> set es \<Longrightarrow>
    (case v of JArr xs \<Rightarrow> \<forall>w. Some w \<in> set xs \<longrightarrow> detects w | _ \<Rightarrow> detects v)"
  shows "detects (JObj es)"
proof -
  define G where "G q v = (case v of
          JArr xs \<Rightarrow> concat (map (\<lambda>(i, item).
            case item of None \<Rightarrow> [] | Some w \<Rightarrow> declaredIdentityKeys True (key_path q (nat_str i)) w) (enumerate 0 xs))
        | _ \<Rightarrow> declaredIdentityKeys True q v)" for q v
  have keys: "declaredIdentityKeys True path (JObj es) =
      map (\<lambda>e. key_path path (fst e)) (filter (\<lambda>e. fst e \<in> set clientIdentityKeys) es) @
      concat (map (\<lambda>e. G (key_path path (fst e)) (snd e)) es)" for path
    by (simp add: G_def case_prod_unfold)
  have entry: "G q v = [] \<longleftrightarrow> \<not> holds_identity v" if "(k, v) \<in> set es" for k v q
  proof (cases "is_array v")
    case True
    then obtain xs where xs: "v = JArr xs" by (cases v) auto
    have items: "declaredIdentityKeys True p w = [] \<longleftrightarrow> \<not> holds_identity w" if "Some w \<in> set xs" for w p
      using assms [OF \<open>(k, v) \<in> set es\<close>] that xs by (simp add: detects_def)
    have "(\<forall>(i, item)\<in>set (enumerate 0 xs).
        (case item of None \<Rightarrow> [] | Some w \<Rightarrow> declaredIdentityKeys True (key_path q (nat_str i)) w) = []) \<longleftrightarrow>
        (\<forall>e\<in>set (enumerate 0 xs). \<not> (case snd e of None \<Rightarrow> False | Some w \<Rightarrow> holds_identity w))"
    proof (intro ball_cong refl)
      fix e assume e: "e \<in> set (enumerate 0 xs)"
      then have "snd e \<in> set xs" using set_enumerate_items by (metis image_eqI)
      then show "(case e of (i, item) \<Rightarrow> (case item of None \<Rightarrow> [] | Some w \<Rightarrow>
          declaredIdentityKeys True (key_path q (nat_str i)) w) = []) \<longleftrightarrow>
          \<not> (case snd e of None \<Rightarrow> False | Some w \<Rightarrow> holds_identity w)"
        using items by (cases e) (auto split: option.splits)
    qed
    also have "\<dots> \<longleftrightarrow> \<not> holds_identity v"
      using set_enumerate_items [of 0 xs] by (simp add: xs list_ex_iff) (metis (no_types, lifting) image_iff)
    finally show ?thesis using xs by (auto simp: G_def split_beta)
  next
    case False
    then have "detects v" using assms [OF that] by (cases v) auto
    then show ?thesis using False by (cases v) (auto simp: G_def detects_def)
  qed
  then show ?thesis
    unfolding detects_def keys holds_identity.simps list_ex_iff by (force simp: filter_empty_conv)
qed

lemma flat_arrays_detects:
  "flat_arrays v \<Longrightarrow> (case v of JArr xs \<Rightarrow> \<forall>w. Some w \<in> set xs \<longrightarrow> detects w | _ \<Rightarrow> detects v)"
proof (induction v rule: holds_identity.induct)
  case (1 es)
  have "detects (JObj es)"
    by (rule detects_object) (use 1 in \<open>fastforce simp: list_all_iff\<close>)
  then show ?case by simp
next
  case (2 xs)
  have "detects w" if w: "Some w \<in> set xs" for w
  proof -
    have "flat_arrays w" "\<not> is_array w" using 2(2) w by (auto simp: list_all_iff)
    then show ?thesis using 2(1) [OF w, of w] by (cases w) auto
  qed
  then show ?case by simp
qed (simp_all add: detects_def)

text \<open>
  \<open>assertNoClientDeclaredIdentity\<close>, applied recursively as \<open>governedInvoke\<close> does, rejects a body
  exactly when an identity key occurs in it at any depth, for every body that is not an array and
  in which no array is an element of an array.
\<close>

theorem declared_identity_rejected:
  assumes "flat_arrays v" and "\<not> is_array v"
  shows "assertNoClientDeclaredIdentity True v = Inr () \<longleftrightarrow> \<not> holds_identity v"
proof -
  have "detects v" using flat_arrays_detects [OF assms(1)] assms(2) by (cases v) auto
  then show ?thesis by (simp add: assertNoClientDeclaredIdentity_def detects_def Let_def)
qed

theorem declared_identity_rejected_witness:
  "assertNoClientDeclaredIdentity True (JObj [(js ''a'', JArr [Some (JObj [(js ''userId'', JNull)])])]) \<noteq> Inr ()"
proof -
  let ?v = "JObj [(js ''a'', JArr [Some (JObj [(js ''userId'', JNull)])])]"
  have "holds_identity ?v" by (simp add: clientIdentityKeys_def)
  then show ?thesis using declared_identity_rejected [of ?v] by simp
qed

text \<open>
  The check does not descend into an array that is an element of an array: a body that declares a
  tenant inside two nested arrays is accepted.
\<close>

theorem nested_array_hides_identity:
  "assertNoClientDeclaredIdentity True
     (JObj [(js ''a'', JArr [Some (JArr [Some (JObj [(js ''tenantId'', JStr t)])])])]) = Inr ()
   \<and> holds_identity (JObj [(js ''a'', JArr [Some (JArr [Some (JObj [(js ''tenantId'', JStr t)])])])])"
  by (simp add: assertNoClientDeclaredIdentity_def clientIdentityKeys_def)

text \<open>Only listed models pass, and no entry of a comma-separated list is blank or contains a comma.\<close>

lemma parse_allowlist_entries:
  assumes "parseModelAllowlist json_parse (Some v) = Inr ms" and "\<not> startsWith (js_trim v) (js ''['')" and "m \<in> set ms"
  shows "m \<noteq> [] \<and> 44 \<notin> set m"
proof -
  have "m \<noteq> []" "\<exists>p\<in>set (split_on 44 (js_trim v)). m = js_trim p"
    using assms by (auto simp: parseModelAllowlist_def split: if_splits)
  moreover have "set (js_trim p) \<subseteq> set p" for p
    by (auto simp: js_trim_def dest!: set_dropWhileD)
  ultimately show ?thesis using split_on_no_separator by blast
qed

end
