(* ===== verification/Vault.thy ===== *)
theory Vault
  imports Receipts
begin

text \<open>
  The in-memory memory vault: \<open>vault/tiers.ts\<close>, \<open>vault/consent.ts\<close>, \<open>vault/store.ts\<close> and
  \<open>vault/deletion.ts\<close> of \<open>packages/enforcement-runtime/src\<close>. The store is the association list of its
  \<open>Map\<close> in insertion order. The clock read when a request carries no \<open>now\<close> is a parameter of each
  operation, as are \<open>localeCompare\<close> and the digest; time stamps are compared as strings.
\<close>

subsection \<open>Records and consent\<close>

record MemoryRecord =
  mr_id :: jstr
  mr_tenantId :: jstr
  mr_userId :: jstr
  mr_sessionId :: "jstr option"
  mr_tier :: PolicyMemoryTier
  mr_contentDigest :: jstr
  mr_classificationTags :: "jstr list"
  mr_createdAt :: jstr
  mr_expiresAt :: "jstr option"
  mr_tombstonedAt :: "jstr option"

record VaultIdentity =
  v_tenantId :: jstr
  v_userId :: jstr
  v_sessionId :: "jstr option"

record MemoryWriteRequest = VaultIdentity +
  w_tier :: PolicyMemoryTier
  w_contentDigest :: jstr
  w_classificationTags :: "jstr list option"
  w_expiresAt :: "jstr option"
  w_now :: "jstr option"

record MemoryWriteResult =
  mw_written :: bool
  mw_reason :: jstr
  mw_record :: "MemoryRecord option"

datatype vault_error = SessionNeedsExpiry | MemoryUnavailable | MemoryAccessDenied jstr | MemoryNotCanonical canonical_error

definition hasRestrictedMemoryConsent :: "PolicyMemoryTier \<Rightarrow> ConsentState \<Rightarrow> bool" where
  "hasRestrictedMemoryConsent tier consent \<longleftrightarrow> tier \<noteq> RESTRICTED \<or> consent = Granted"

definition restrictedConsentReason :: "PolicyMemoryTier \<Rightarrow> ConsentState \<Rightarrow> jstr option" where
  "restrictedConsentReason tier consent =
     (if hasRestrictedMemoryConsent tier consent then None
      else Some (js ''restricted memory requires explicit consent; observed consent state '' @ consent_name consent))"

subsection \<open>The store\<close>

type_synonym InMemoryVaultStore = "(jstr \<times> MemoryRecord) list"

definition truthy :: "jstr option \<Rightarrow> bool" where
  "truthy t = (case t of None \<Rightarrow> False | Some s \<Rightarrow> s \<noteq> [])"

definition isExpired :: "MemoryRecord \<Rightarrow> jstr \<Rightarrow> bool" where
  "isExpired r now \<longleftrightarrow> truthy (mr_expiresAt r) \<and> or_default [] (mr_expiresAt r) \<le> now"

definition owner_json :: "MemoryWriteRequest \<Rightarrow> jsval" where
  "owner_json r =
     JObj ([(js ''tenantId'', JStr (v_tenantId r)), (js ''userId'', JStr (v_userId r))]
       @ opt_entry (js ''sessionId'') JStr (v_sessionId r)
       @ [(js ''tier'', JStr (tier_name (w_tier r))), (js ''contentDigest'', JStr (w_contentDigest r))])"

definition recordId :: "(jstr \<Rightarrow> jstr) \<Rightarrow> MemoryWriteRequest \<Rightarrow> vault_error + jstr" where
  "recordId h r =
     (case canonicalSha256Hex h (owner_json r) of Inl e \<Rightarrow> Inl (MemoryNotCanonical e) | Inr d \<Rightarrow> Inr (js ''mem_'' @ d))"

definition vault_write ::
  "(jstr \<Rightarrow> jstr) \<Rightarrow> jstr \<Rightarrow> MemoryWriteRequest \<Rightarrow> PolicyDecision \<Rightarrow> ConsentState option \<Rightarrow> InMemoryVaultStore \<Rightarrow>
     (vault_error + MemoryWriteResult) \<times> InMemoryVaultStore" where
  "vault_write h clock r d consent store =
     (let refused = (\<lambda>why. (Inr \<lparr>mw_written = False, mw_reason = why, mw_record = None\<rparr>, store));
          consentState = or_default Missing consent
      in if decision d = MEMORY_SUPPRESS then refused (js ''policy decision MEMORY_SUPPRESS prevented persistence'')
         else if w_tier r = KAPPA then refused (js ''KAPPA memory is invocation-only and is never persisted'')
         else if w_tier r = SESSION \<and> \<not> truthy (w_expiresAt r) then (Inl SessionNeedsExpiry, store)
         else if \<not> hasRestrictedMemoryConsent (w_tier r) consentState then
           refused (or_default (js ''restricted memory consent missing'') (restrictedConsentReason (w_tier r) consentState))
         else
           (case recordId h r of
              Inl e \<Rightarrow> (Inl e, store)
            | Inr i \<Rightarrow>
                let rec = \<lparr>mr_id = i, mr_tenantId = v_tenantId r, mr_userId = v_userId r, mr_sessionId = v_sessionId r,
                      mr_tier = w_tier r, mr_contentDigest = w_contentDigest r,
                      mr_classificationTags = sort_by (\<le>) (or_default [] (w_classificationTags r)),
                      mr_createdAt = or_default clock (w_now r), mr_expiresAt = w_expiresAt r, mr_tombstonedAt = None\<rparr>
                in (Inr \<lparr>mw_written = True, mw_reason = js ''memory persisted'', mw_record = Some rec\<rparr>,
                    AList.update i rec store)))"

definition visible :: "VaultIdentity \<Rightarrow> PolicyMemoryTier list \<Rightarrow> jstr \<Rightarrow> MemoryRecord \<Rightarrow> bool" where
  "visible who tiers now r \<longleftrightarrow>
     mr_tenantId r = v_tenantId who \<and> mr_userId r = v_userId who
     \<and> (\<not> truthy (v_sessionId who) \<or> mr_sessionId r = v_sessionId who)
     \<and> mr_tier r \<in> set tiers \<and> \<not> truthy (mr_tombstonedAt r) \<and> \<not> isExpired r now"

definition vault_list ::
  "(jstr \<Rightarrow> jstr \<Rightarrow> int) \<Rightarrow> jstr \<Rightarrow> VaultIdentity \<Rightarrow> PolicyMemoryTier list option \<Rightarrow> jstr option \<Rightarrow> InMemoryVaultStore \<Rightarrow>
     MemoryRecord list" where
  "vault_list localeCompare clock who includeTiers now store =
     sort_by (\<lambda>a b. localeCompare (mr_id a) (mr_id b) \<le> 0)
       (filter (visible who (or_default [SESSION, CONSTITUTION, AUDIT, RESTRICTED] includeTiers) (or_default clock now))
          (map snd store))"

definition vault_get ::
  "jstr \<Rightarrow> VaultIdentity \<Rightarrow> jstr \<Rightarrow> jstr option \<Rightarrow> InMemoryVaultStore \<Rightarrow> vault_error + MemoryRecord" where
  "vault_get clock who i now store =
     (case map_of store i of
        None \<Rightarrow> Inl MemoryUnavailable
      | Some r \<Rightarrow>
          if truthy (mr_tombstonedAt r) \<or> isExpired r (or_default clock now) then Inl MemoryUnavailable
          else if mr_tenantId r \<noteq> v_tenantId who \<or> mr_userId r \<noteq> v_userId who then Inl (MemoryAccessDenied i)
          else Inr r)"

definition vault_tombstone ::
  "jstr \<Rightarrow> VaultIdentity \<Rightarrow> jstr \<Rightarrow> jstr option \<Rightarrow> InMemoryVaultStore \<Rightarrow>
     (vault_error + MemoryRecord) \<times> InMemoryVaultStore" where
  "vault_tombstone clock who i now store =
     (case vault_get clock who i now store of
        Inl e \<Rightarrow> (Inl e, store)
      | Inr r \<Rightarrow>
          let r' = r\<lparr>mr_tombstonedAt := Some (or_default clock now)\<rparr>
          in (Inr r', AList.update (mr_id r) r' store))"

definition deleteErasable ::
  "jstr \<Rightarrow> VaultIdentity \<Rightarrow> jstr \<Rightarrow> jstr option \<Rightarrow> InMemoryVaultStore \<Rightarrow>
     (vault_error + unit) \<times> InMemoryVaultStore" where
  "deleteErasable clock who i now store =
     (case vault_get clock who i now store of
        Inl e \<Rightarrow> (Inl e, store)
      | Inr r \<Rightarrow>
          if mr_tier r = AUDIT then
            (case vault_tombstone clock who i now store of (Inl e, s) \<Rightarrow> (Inl e, s) | (Inr _, s) \<Rightarrow> (Inr (), s))
          else (Inr (), AList.delete (mr_id r) store))"

definition exportUserMemory ::
  "(jstr \<Rightarrow> jstr \<Rightarrow> int) \<Rightarrow> jstr \<Rightarrow> VaultIdentity \<Rightarrow> jstr option \<Rightarrow> InMemoryVaultStore \<Rightarrow> MemoryRecord list" where
  "exportUserMemory localeCompare clock who now store =
     vault_list localeCompare clock who (Some [SESSION, CONSTITUTION, RESTRICTED]) now store"

record DeleteMemoryResult =
  del_deleted :: bool
  del_tombstoned :: bool

definition deleteOrTombstoneMemory ::
  "jstr \<Rightarrow> VaultIdentity \<Rightarrow> jstr \<Rightarrow> jstr option \<Rightarrow> InMemoryVaultStore \<Rightarrow>
     (vault_error + DeleteMemoryResult) \<times> InMemoryVaultStore" where
  "deleteOrTombstoneMemory clock who i now store =
     (case vault_get clock who i now store of
        Inl e \<Rightarrow> (Inl e, store)
      | Inr r \<Rightarrow>
          (case deleteErasable clock who i now store of
             (Inl e, s) \<Rightarrow> (Inl e, s)
           | (Inr _, s) \<Rightarrow> (Inr \<lparr>del_deleted = mr_tier r \<noteq> AUDIT, del_tombstoned = mr_tier r = AUDIT\<rparr>, s)))"

definition exportErasableMemory ::
  "(jstr \<Rightarrow> jstr \<Rightarrow> int) \<Rightarrow> jstr \<Rightarrow> VaultIdentity \<Rightarrow> jstr option \<Rightarrow> InMemoryVaultStore \<Rightarrow> MemoryRecord list" where
  "exportErasableMemory = exportUserMemory"

subsection \<open>Steps and the invariant\<close>

text \<open>
  The operations of callers, in any order. Each request comes with its clock reading; a write also
  with the policy decision and the consent state the runtime passes.
\<close>

datatype vault_op =
    Write jstr MemoryWriteRequest PolicyDecision "ConsentState option"
  | Tombstone jstr VaultIdentity jstr "jstr option"
  | Delete jstr VaultIdentity jstr "jstr option"

fun vault_step :: "(jstr \<Rightarrow> jstr) \<Rightarrow> vault_op \<Rightarrow> InMemoryVaultStore \<Rightarrow> InMemoryVaultStore" where
  "vault_step h (Write clock r d c) s = snd (vault_write h clock r d c s)"
| "vault_step h (Tombstone clock who i now) s = snd (vault_tombstone clock who i now s)"
| "vault_step h (Delete clock who i now) s = snd (deleteErasable clock who i now s)"

fun op_owner :: "vault_op \<Rightarrow> jstr \<times> jstr" where
  "op_owner (Write clock r d c) = (v_tenantId r, v_userId r)"
| "op_owner (Tombstone clock who i now) = (v_tenantId who, v_userId who)"
| "op_owner (Delete clock who i now) = (v_tenantId who, v_userId who)"

definition owner :: "MemoryRecord \<Rightarrow> jstr \<times> jstr" where
  "owner r = (mr_tenantId r, mr_userId r)"

definition owner_text :: "MemoryWriteRequest \<Rightarrow> jstr" where
  "owner_text r = print_val (norm_val (owner_json r))"

fun op_texts :: "vault_op \<Rightarrow> jstr list" where
  "op_texts (Write clock r d c) = [owner_text r]"
| "op_texts _ = []"

text \<open>The request that a stored record answers, as far as its identifier depends on it.\<close>

definition request_of :: "MemoryRecord \<Rightarrow> MemoryWriteRequest" where
  "request_of r = \<lparr>v_tenantId = mr_tenantId r, v_userId = mr_userId r, v_sessionId = mr_sessionId r, w_tier = mr_tier r,
     w_contentDigest = mr_contentDigest r, w_classificationTags = None, w_expiresAt = None, w_now = None\<rparr>"

definition record_ok :: "(jstr \<Rightarrow> jstr) \<Rightarrow> jstr list \<Rightarrow> MemoryRecord \<Rightarrow> bool" where
  "record_ok h ts r \<longleftrightarrow> mr_id r = js ''mem_'' @ h (owner_text (request_of r)) \<and> owner_text (request_of r) \<in> set ts
     \<and> mr_tier r \<noteq> KAPPA \<and> (mr_tier r = SESSION \<longrightarrow> truthy (mr_expiresAt r))"

definition vault_inv :: "(jstr \<Rightarrow> jstr) \<Rightarrow> jstr list \<Rightarrow> InMemoryVaultStore \<Rightarrow> bool" where
  "vault_inv h ts s \<longleftrightarrow> distinct (map fst s) \<and> list_all (\<lambda>(k, r). mr_id r = k \<and> record_ok h ts r) s"

lemma json_shaped_owner: "json_shaped (owner_json r)"
  by (simp add: owner_json_def opt_entry_def split: option.split)

lemma recordId_ok: "recordId h r = Inr (js ''mem_'' @ h (owner_text r))"
  using canonicalize_norm [OF json_shaped_owner, of r]
  by (simp add: recordId_def canonicalSha256Hex_def owner_text_def)

lemma tier_name_inject [simp]: "tier_name a = tier_name b \<longleftrightarrow> a = b"
  by (cases a; cases b) simp_all

lemma owner_text_inject:
  assumes "owner_text a = owner_text b"
  shows "v_tenantId a = v_tenantId b" and "v_userId a = v_userId b" and "w_tier a = w_tier b"
proof -
  let ?E = "\<lambda>r. [(js ''tenantId'', JStr (v_tenantId r)), (js ''userId'', JStr (v_userId r))]
       @ opt_entry (js ''sessionId'') JStr (v_sessionId r)
       @ [(js ''tier'', JStr (tier_name (w_tier r))), (js ''contentDigest'', JStr (w_contentDigest r))]"
  have d: "distinct (map fst (?E r))" for r :: MemoryWriteRequest by (simp add: opt_entry_def split: option.split)
  have "canonicalize (owner_json r) = Inr (owner_text r)" for r
    by (simp only: owner_text_def canonicalize_norm [OF json_shaped_owner])
  then have "canonicalize (owner_json a) = canonicalize (owner_json b)" using assms by simp
  then have "norm_val (owner_json a) = norm_val (owner_json b)"
    by (rule canonicalize_inject [OF json_shaped_owner json_shaped_owner])
  then have "norm_val (JObj (?E a)) = norm_val (JObj (?E b))" unfolding owner_json_def .
  then have at: "map_option norm_val (map_of (?E a) k) = map_option norm_val (map_of (?E b) k)" for k
    by (rule norm_val_object_entry [OF _ d d])
  show "v_tenantId a = v_tenantId b" using at [of "js ''tenantId''"] by simp
  show "v_userId a = v_userId b" using at [of "js ''userId''"] by simp
  show "w_tier a = w_tier b" using at [of "js ''tier''"] by (simp add: opt_entry_def split: option.splits)
qed

lemma vault_get_Inr:
  "vault_get clock who i now s = Inr r \<Longrightarrow>
     map_of s i = Some r \<and> owner r = (v_tenantId who, v_userId who) \<and> \<not> truthy (mr_tombstonedAt r)"
  by (auto simp: vault_get_def owner_def split: option.splits if_splits)

lemma list_all_update:
  assumes "list_all (\<lambda>(k, r). P k r) s" and "P k v"
  shows "list_all (\<lambda>(k, r). P k r) (AList.update k v s)"
  using assms by (induction s) auto

lemma vault_inv_update:
  "vault_inv h ts s \<Longrightarrow> record_ok h ts r \<Longrightarrow> k = mr_id r \<Longrightarrow> vault_inv h ts (AList.update k r s)"
  by (auto simp: vault_inv_def distinct_update intro: list_all_update)

lemma vault_inv_lookup: "vault_inv h ts s \<Longrightarrow> map_of s i = Some r \<Longrightarrow> mr_id r = i \<and> record_ok h ts r"
  by (auto simp: vault_inv_def list_all_iff dest: map_of_SomeD)

lemma record_ok_tombstoned: "record_ok h ts r \<Longrightarrow> record_ok h ts (r\<lparr>mr_tombstonedAt := t\<rparr>)"
  by (simp add: record_ok_def request_of_def)

lemma vault_inv_delete: "vault_inv h ts s \<Longrightarrow> vault_inv h ts (AList.delete k s)"
  using distinct_delete [of s k] by (auto simp: vault_inv_def list_all_iff AList.delete_eq)

text \<open>What a single step does to the store.\<close>

lemma vault_step_cases:
  obtains (same) "vault_step h op s = s"
  | (written) clock r d c rec where "op = Write clock r d c" "vault_step h op s = AList.update (mr_id rec) rec s"
      "mr_id rec = js ''mem_'' @ h (owner_text r)" "owner rec = (v_tenantId r, v_userId r)"
      "owner_text (request_of rec) = owner_text r" "mr_tier rec = w_tier r" "w_tier r \<noteq> KAPPA"
      "w_tier r = SESSION \<longrightarrow> truthy (mr_expiresAt rec)" "w_tier r = RESTRICTED \<longrightarrow> c = Some Granted" "decision d \<noteq> MEMORY_SUPPRESS"
  | (tombstoned) rec t i where "map_of s i = Some rec" "vault_step h op s = AList.update (mr_id rec) (rec\<lparr>mr_tombstonedAt := Some t\<rparr>) s"
      "owner rec = op_owner op"
  | (deleted) rec i where "map_of s i = Some rec" "vault_step h op s = AList.delete (mr_id rec) s" "owner rec = op_owner op" "mr_tier rec \<noteq> AUDIT"
proof (cases op)
  case (Write clock r d c)
  show ?thesis
  proof (cases "vault_step h op s = s")
    case False
    let ?rec = "\<lparr>mr_id = js ''mem_'' @ h (owner_text r), mr_tenantId = v_tenantId r, mr_userId = v_userId r, mr_sessionId = v_sessionId r,
        mr_tier = w_tier r, mr_contentDigest = w_contentDigest r,
        mr_classificationTags = sort_by (\<le>) (or_default [] (w_classificationTags r)),
        mr_createdAt = or_default clock (w_now r), mr_expiresAt = w_expiresAt r, mr_tombstonedAt = None\<rparr>"
    have "owner_text (request_of ?rec) = owner_text r"
      by (simp add: owner_text_def owner_json_def request_of_def)
    then show ?thesis
      using False Write written [of clock r d c ?rec]
      by (auto simp: vault_write_def Let_def recordId_ok hasRestrictedMemoryConsent_def owner_def or_default_def
          split: if_splits option.splits)
  qed (use same in simp)
next
  case (Tombstone clock who i now)
  show ?thesis
  proof (cases "vault_get clock who i now s")
    case (Inl e)
    then show ?thesis using same Tombstone by (simp add: vault_tombstone_def)
  next
    case (Inr r)
    then show ?thesis using tombstoned [of i r] vault_get_Inr [OF Inr] Tombstone by (simp add: vault_tombstone_def Let_def)
  qed
next
  case (Delete clock who i now)
  show ?thesis
  proof (cases "vault_get clock who i now s")
    case (Inl e)
    then show ?thesis using same Delete by (simp add: deleteErasable_def)
  next
    case (Inr r)
    then show ?thesis
      using tombstoned [of i r] deleted [of i r] vault_get_Inr [OF Inr] Delete
      by (cases "mr_tier r = AUDIT") (simp_all add: deleteErasable_def vault_tombstone_def Let_def)
  qed
qed

subsection \<open>Isolation and retention\<close>

lemma filter_update:
  assumes "\<And>v. map_of s k = Some v \<Longrightarrow> \<not> P v" and "\<not> P rec"
  shows "filter (\<lambda>e. P (snd e)) (AList.update k rec s) = filter (\<lambda>e. P (snd e)) s"
  using assms
proof (induction s)
  case (Cons e s)
  then show ?case by (cases e; cases "fst e = k") auto
qed simp

lemma filter_delete:
  assumes "\<And>v. (k, v) \<in> set s \<Longrightarrow> \<not> P v"
  shows "filter (\<lambda>e. P (snd e)) (AList.delete k s) = filter (\<lambda>e. P (snd e)) s"
  using assms by (induction s) auto

lemma written_same_owner:
  assumes "vault_inv h ts s" and "collision_free h ts" and "owner_text r \<in> set ts"
    and "map_of s (js ''mem_'' @ h (owner_text r)) = Some old"
  shows "owner old = (v_tenantId r, v_userId r)" and "mr_tier old = w_tier r"
proof -
  have "record_ok h ts old" "mr_id old = js ''mem_'' @ h (owner_text r)" using vault_inv_lookup [OF assms(1,4)] by simp_all
  then have "owner_text (request_of old) = owner_text r"
    using collision_freeD [OF assms(2) _ assms(3)] by (simp add: record_ok_def)
  from owner_text_inject [OF this] show "owner old = (v_tenantId r, v_userId r)" "mr_tier old = w_tier r"
    by (simp_all add: request_of_def owner_def)
qed

lemma vault_inv_step:
  assumes "vault_inv h ts s" and "set (op_texts op) \<subseteq> set ts"
  shows "vault_inv h ts (vault_step h op s)"
proof (cases rule: vault_step_cases [of h op s])
  case (written clock r d c rec)
  then have "record_ok h ts rec" using assms(2) by (simp add: record_ok_def)
  then show ?thesis using written(2) vault_inv_update [OF assms(1)] by simp
next
  case (tombstoned rec t i)
  then show ?thesis
    using vault_inv_lookup [OF assms(1) tombstoned(1)] record_ok_tombstoned
      vault_inv_update [OF assms(1), of "rec\<lparr>mr_tombstonedAt := Some t\<rparr>" "mr_id rec"] by simp
qed (use assms(1) vault_inv_delete in simp_all)

lemma vault_step_isolated:
  assumes inv: "vault_inv h ts s" and free: "collision_free h ts" and "set (op_texts op) \<subseteq> set ts" and other: "op_owner op \<noteq> own"
  shows "filter (\<lambda>e. owner (snd e) = own) (vault_step h op s) = filter (\<lambda>e. owner (snd e) = own) s"
proof (cases rule: vault_step_cases [of h op s])
  case (written clock r d c rec)
  then have t: "owner_text r \<in> set ts" and o: "(v_tenantId r, v_userId r) \<noteq> own" using assms(3) other by simp_all
  show ?thesis
    unfolding written(2) by (rule filter_update) (use written_same_owner(1) [OF inv free t] written(3,4) o in auto)
next
  case (tombstoned rec t i)
  have "mr_id rec = i" using vault_inv_lookup [OF inv tombstoned(1)] by simp
  then show ?thesis
    unfolding tombstoned(2) using tombstoned(1,3) other by (intro filter_update) (auto simp: owner_def)
next
  case (deleted rec i)
  have "mr_id rec = i" "distinct (map fst s)" using vault_inv_lookup [OF inv deleted(1)] inv by (simp_all add: vault_inv_def)
  then show ?thesis
    unfolding deleted(2) using deleted(1,3) other by (intro filter_delete) (metis map_of_is_SomeI option.inject)
qed simp


lemma vault_inv_run:
  "vault_inv h ts s \<Longrightarrow> set (concat (map op_texts ops)) \<subseteq> set ts \<Longrightarrow> vault_inv h ts (fold (vault_step h) ops s)"
  by (induction ops arbitrary: s) (simp_all add: vault_inv_step)

definition audit_at :: "InMemoryVaultStore \<Rightarrow> jstr \<Rightarrow> jstr \<times> jstr \<Rightarrow> bool" where
  "audit_at s i own \<longleftrightarrow> (case map_of s i of None \<Rightarrow> False | Some r \<Rightarrow> mr_tier r = AUDIT \<and> owner r = own)"

lemma audit_at_step:
  assumes inv: "vault_inv h ts s" and free: "collision_free h ts" and "set (op_texts op) \<subseteq> set ts" and at: "audit_at s i own"
  shows "audit_at (vault_step h op s) i own"
proof -
  obtain r where r: "map_of s i = Some r" "mr_tier r = AUDIT" "owner r = own"
    using at by (auto simp: audit_at_def split: option.splits)
  show ?thesis
  proof (cases rule: vault_step_cases [of h op s])
    case (written clock q d c rec)
    then have "owner_text q \<in> set ts" using assms(3) by simp
    then show ?thesis
      using written r written_same_owner [OF inv free, of q r] by (auto simp: audit_at_def update_conv')
  next
    case (tombstoned rec t j)
    then show ?thesis using r vault_inv_lookup [OF inv tombstoned(1)] by (auto simp: audit_at_def update_conv' owner_def)
  next
    case (deleted rec j)
    then have "mr_id rec \<noteq> i" using r vault_inv_lookup [OF inv deleted(1)] by auto
    then show ?thesis using deleted(2) r by (simp add: audit_at_def delete_conv')
  qed (use at in simp)
qed


definition sample_write :: "jstr \<Rightarrow> vault_op" where
  "sample_write user = Write (js ''now'')
     \<lparr>v_tenantId = js ''t'', v_userId = user, v_sessionId = None, w_tier = AUDIT, w_contentDigest = js ''d'',
      w_classificationTags = None, w_expiresAt = None, w_now = None\<rparr>
     \<lparr>decision_phase = Memory_write, decision = ALLOW, decision_policyVersion = [], decision_policyHash = [],
      matchedRuleIds = [], matchedLayers = [], actionTaken = [], riskScore = Zero False, reasons = []\<rparr> None"

definition sample_delete :: "jstr \<Rightarrow> jstr \<Rightarrow> vault_op" where
  "sample_delete user i = Delete (js ''now'') \<lparr>v_tenantId = js ''t'', v_userId = user, v_sessionId = None\<rparr> i None"



end
