(* ===== verification/Runtime_State.thy ===== *)
theory Runtime_State
  imports Receipts
begin

text \<open>
  The small stateful guards of the runtime: the in-memory execution nonce store
  (\<open>runtime/nonceStore.ts\<close>), the transit ledger (\<open>runtime/transitLedger.ts\<close>) and the optimistic
  concurrency gate (\<open>gateway/occGate.ts\<close>) of \<open>packages/enforcement-runtime/src\<close>.
\<close>

subsection \<open>The execution nonce store\<close>

record ExecutionNonceReservation =
  n_tenantIdHash :: jstr
  n_nonce :: jstr
  n_executionContextHash :: jstr
  n_requestId :: jstr
  n_now :: jstr
  n_ttlSeconds :: "int option"

datatype ReservationOutcome = RESERVED | IDEMPOTENT_REPLAY

datatype nonce_error = ExecutionNonceReplayError | NonceNotCanonical canonical_error

type_synonym InMemoryExecutionNonceStore = "(jstr \<times> ExecutionNonceReservation) list"

definition nonceHash :: "(jstr \<Rightarrow> jstr) \<Rightarrow> jstr \<Rightarrow> nonce_error + jstr" where
  "nonceHash h nonce =
     (case canonicalSha256Hex h (JObj [(js ''nonce'', JStr nonce)]) of
        Inl e \<Rightarrow> Inl (NonceNotCanonical e)
      | Inr d \<Rightarrow> Inr (js ''sha256:'' @ d))"

definition reservationKey :: "(jstr \<Rightarrow> jstr) \<Rightarrow> jstr \<Rightarrow> jstr \<Rightarrow> nonce_error + jstr" where
  "reservationKey h tenantIdHash nonce =
     (case nonceHash h nonce of Inl e \<Rightarrow> Inl e | Inr n \<Rightarrow> Inr (tenantIdHash @ js ''#'' @ n))"

definition reserve ::
  "(jstr \<Rightarrow> jstr) \<Rightarrow> ExecutionNonceReservation \<Rightarrow> InMemoryExecutionNonceStore \<Rightarrow>
     (nonce_error + ReservationOutcome) \<times> InMemoryExecutionNonceStore" where
  "reserve h inp store =
     (case reservationKey h (n_tenantIdHash inp) (n_nonce inp) of
        Inl e \<Rightarrow> (Inl e, store)
      | Inr key \<Rightarrow>
          (case map_of store key of
             None \<Rightarrow> (Inr RESERVED, AList.update key inp store)
           | Some existing \<Rightarrow>
               if n_executionContextHash existing \<noteq> n_executionContextHash inp
               then (Inl ExecutionNonceReplayError, store)
               else (Inr IDEMPOTENT_REPLAY, store)))"

subsection \<open>The transit ledger\<close>

text \<open>
  A transit record of \<open>gateway/sidecarProxy.ts\<close>, without the raw body; of its evidence the provenance
  class is kept.
\<close>

record TransitRecord =
  t_schemaVersion :: jstr
  t_statusCode :: int
  t_toolName :: jstr
  t_sequenceNum :: int
  t_requestDigest :: jstr
  t_responseDigest :: jstr
  t_provenanceClass :: jstr

record TransitLedger =
  allocatedSequenceCount :: int
  lastRecordedSequenceNum :: int
  transits :: "TransitRecord list"

datatype ledger_error =
  TransitSchema | TransitSequenceShape | TransitNotAllocated | TransitNotIncreasing | TransitRequestDigest | TransitResponseDigest

definition new_ledger :: TransitLedger where
  "new_ledger = \<lparr>allocatedSequenceCount = 0, lastRecordedSequenceNum = - 1, transits = []\<rparr>"

definition nextSequenceNum :: "TransitLedger \<Rightarrow> int \<times> TransitLedger" where
  "nextSequenceNum l = (allocatedSequenceCount l, l\<lparr>allocatedSequenceCount := allocatedSequenceCount l + 1\<rparr>)"

definition record_transit :: "TransitRecord \<Rightarrow> TransitLedger \<Rightarrow> (ledger_error + unit) \<times> TransitLedger" where
  "record_transit r l =
     (if t_schemaVersion r \<noteq> js ''ghost.gateway_transit.v1'' then (Inl TransitSchema, l)
      else if \<not> is_safe_integer (t_sequenceNum r) \<or> t_sequenceNum r < 0 then (Inl TransitSequenceShape, l)
      else if t_sequenceNum r \<ge> allocatedSequenceCount l then (Inl TransitNotAllocated, l)
      else if t_sequenceNum r \<le> lastRecordedSequenceNum l then (Inl TransitNotIncreasing, l)
      else if \<not> sha256_shape (t_requestDigest r) then (Inl TransitRequestDigest, l)
      else if \<not> sha256_shape (t_responseDigest r) then (Inl TransitResponseDigest, l)
      else (Inr (), l\<lparr>lastRecordedSequenceNum := t_sequenceNum r, transits := transits l @ [r]\<rparr>))"

definition ledger_records :: "TransitLedger \<Rightarrow> TransitRecord list" where
  "ledger_records l = transits l"

definition ledger_count :: "TransitLedger \<Rightarrow> nat" where
  "ledger_count l = length (transits l)"

text \<open>The trace of a v2 receipt, \<open>receipts/v2/emission.ts\<close>.\<close>

record DecisionReceiptV2TraceEntry =
  sequence_num :: int
  tool_name :: jstr
  request_payload_digest :: jstr
  response_payload_digest :: jstr
  provenance_class :: jstr

definition executionTraceFromTransitRecords :: "TransitRecord list \<Rightarrow> DecisionReceiptV2TraceEntry list" where
  "executionTraceFromTransitRecords rs =
     map (\<lambda>r. \<lparr>sequence_num = t_sequenceNum r, tool_name = t_toolName r, request_payload_digest = t_requestDigest r,
            response_payload_digest = t_responseDigest r, provenance_class = t_provenanceClass r\<rparr>)
       (sort_by (\<lambda>a b. t_sequenceNum a - t_sequenceNum b \<le> 0) rs)"

subsection \<open>The optimistic concurrency gate\<close>

text \<open>A read set is an object: its own keys with their values, in the order \<open>Object.keys\<close> lists them.\<close>

type_synonym ReadSet = "(jstr \<times> jstr) list"

record OCCGateResult =
  occ_admitted :: bool
  forkProjectionHash :: jstr
  commitProjectionHash :: jstr
  conflictingKeys :: "jstr list"
  occ_reason :: "jstr option"

definition projection_text :: "ReadSet \<Rightarrow> jstr" where
  "projection_text rs =
     joinWith (js '';'') (map (\<lambda>k. k @ js '':'' @ or_default (js ''undefined'') (map_of rs k)) (sort_by (\<le>) (map fst rs)))"

definition computeReadSetProjectionHash :: "(jstr \<Rightarrow> jstr) \<Rightarrow> ReadSet \<Rightarrow> jstr" where
  "computeReadSetProjectionHash h rs = h (projection_text rs)"

definition evaluateOCCGate :: "(jstr \<Rightarrow> jstr) \<Rightarrow> ReadSet \<Rightarrow> ReadSet \<Rightarrow> OCCGateResult" where
  "evaluateOCCGate h fork commit =
     (let f = computeReadSetProjectionHash h fork;
          c = computeReadSetProjectionHash h commit;
          conflicts = filter (\<lambda>k. map_of fork k \<noteq> map_of commit k) (js_set (map fst fork @ map fst commit))
      in \<lparr>occ_admitted = (f = c), forkProjectionHash = f, commitProjectionHash = c, conflictingKeys = conflicts,
          occ_reason = (if f = c then None
            else Some (js ''OCC read-set projection conflict on keys: '' @ joinWith (js '', '') conflicts))\<rparr>)"

subsection \<open>Nonces are used once\<close>

text \<open>What a caller relies on: a pair of tenant and nonce is reserved at most once.\<close>

locale nonce_store =
  fixes store_reserve :: "ExecutionNonceReservation \<Rightarrow> 's \<Rightarrow> (nonce_error + ReservationOutcome) \<times> 's"
    and used :: "jstr \<Rightarrow> jstr \<Rightarrow> 's \<Rightarrow> bool"
  assumes reserved_marks: "store_reserve r s = (Inr RESERVED, s') \<Longrightarrow> used (n_tenantIdHash r) (n_nonce r) s'"
    and used_persists: "used t n s \<Longrightarrow> used t n (snd (store_reserve r s))"
    and used_refused: "used (n_tenantIdHash r) (n_nonce r) s \<Longrightarrow> fst (store_reserve r s) \<noteq> Inr RESERVED"
begin

fun outcomes :: "ExecutionNonceReservation list \<Rightarrow> 's \<Rightarrow> (ExecutionNonceReservation \<times> (nonce_error + ReservationOutcome)) list" where
  "outcomes [] s = []"
| "outcomes (r # rs) s = (r, fst (store_reserve r s)) # outcomes rs (snd (store_reserve r s))"

definition reserved_for :: "jstr \<Rightarrow> jstr \<Rightarrow> (ExecutionNonceReservation \<times> (nonce_error + ReservationOutcome)) list \<Rightarrow> nat" where
  "reserved_for t n os =
     length (filter (\<lambda>(r, res). n_tenantIdHash r = t \<and> n_nonce r = n \<and> res = Inr RESERVED) os)"

lemma none_after_used: "used t n s \<Longrightarrow> reserved_for t n (outcomes rs s) = 0"
  by (induction rs arbitrary: s) (auto simp: reserved_for_def used_persists dest: used_refused)

lemma at_most_once: "reserved_for t n (outcomes rs s) \<le> 1"
proof (induction rs arbitrary: s)
  case Nil
  show ?case by (simp add: reserved_for_def)
next
  case (Cons r rs)
  let ?s = "snd (store_reserve r s)"
  show ?case
  proof (cases "n_tenantIdHash r = t \<and> n_nonce r = n \<and> fst (store_reserve r s) = Inr RESERVED")
    case True
    then have "used t n ?s" using reserved_marks [of r s ?s] by (metis prod.collapse)
    from none_after_used [OF this] show ?thesis by (simp add: reserved_for_def)
  next
    case False
    then show ?thesis using Cons.IH [of ?s] by (auto simp: reserved_for_def)
  qed
qed

end

definition nonce_used :: "(jstr \<Rightarrow> jstr) \<Rightarrow> jstr \<Rightarrow> jstr \<Rightarrow> InMemoryExecutionNonceStore \<Rightarrow> bool" where
  "nonce_used h t n s = (case reservationKey h t n of Inl _ \<Rightarrow> False | Inr k \<Rightarrow> map_of s k \<noteq> None)"

interpretation nonces: nonce_store "reserve h" "nonce_used h" for h
proof (unfold_locales, goal_cases)
  case (1 r s s')
  then show ?case
    by (auto simp: reserve_def nonce_used_def update_conv' split: sum.splits option.splits if_splits)
next
  case (2 t n s r)
  then show ?case
    by (auto simp: reserve_def nonce_used_def update_conv' split: sum.splits option.splits if_splits)
next
  case (3 r s)
  then show ?case
    by (auto simp: reserve_def nonce_used_def split: sum.splits option.splits if_splits)
qed

text \<open>
  In any sequence of requests to the in-memory nonce store, in any state of it, a pair of tenant and nonce
  is answered with \<open>RESERVED\<close> at most once.
\<close>

theorem nonce_reserved_at_most_once: "nonces.reserved_for t n (nonces.outcomes h rs s) \<le> 1"
  by (rule nonces.at_most_once)

subsection \<open>The ledger keeps an ordered trace\<close>

datatype ledger_op = Allocate | Record TransitRecord

fun ledger_step :: "ledger_op \<Rightarrow> TransitLedger \<Rightarrow> TransitLedger" where
  "ledger_step Allocate l = snd (nextSequenceNum l)"
| "ledger_step (Record r) l = snd (record_transit r l)"

definition ledger_inv :: "TransitLedger \<Rightarrow> bool" where
  "ledger_inv l \<longleftrightarrow>
     sorted_wrt (<) (map t_sequenceNum (transits l))
     \<and> list_all (\<lambda>r. 0 \<le> t_sequenceNum r \<and> t_sequenceNum r \<le> lastRecordedSequenceNum l
          \<and> sha256_shape (t_requestDigest r) \<and> sha256_shape (t_responseDigest r)) (transits l)
     \<and> - 1 \<le> lastRecordedSequenceNum l \<and> lastRecordedSequenceNum l < allocatedSequenceCount l"

lemma ledger_inv_step: "ledger_inv l \<Longrightarrow> ledger_inv (ledger_step op l)"
proof (cases op)
  case (Record r)
  assume "ledger_inv l"
  then show ?thesis
    by (auto simp: Record record_transit_def ledger_inv_def sorted_wrt_append list_all_iff)
qed (auto simp: nextSequenceNum_def ledger_inv_def list_all_iff)

lemma ledger_inv_run: "ledger_inv l \<Longrightarrow> ledger_inv (fold ledger_step ops l)"
  by (induction ops arbitrary: l) (simp_all add: ledger_inv_step)

lemma ledger_inv_new: "ledger_inv new_ledger"
  by (simp add: ledger_inv_def new_ledger_def)

text \<open>
  The transit ledger, whatever numbers are allocated and whatever records are offered to it: the recorded
  sequence numbers are strictly increasing, non-negative and below the number allocated, the
  digests are well formed, and the execution trace built for a receipt lists the records in exactly
  the order in which they were recorded.
\<close>

theorem ledger_trace_is_ordered:
  "sorted_wrt (<) (map sequence_num (executionTraceFromTransitRecords (ledger_records (fold ledger_step ops new_ledger))))
   \<and> map sequence_num (executionTraceFromTransitRecords (ledger_records (fold ledger_step ops new_ledger))) =
       map t_sequenceNum (ledger_records (fold ledger_step ops new_ledger))
   \<and> list_all (\<lambda>r. 0 \<le> t_sequenceNum r \<and> t_sequenceNum r < allocatedSequenceCount (fold ledger_step ops new_ledger)
          \<and> sha256_shape (t_requestDigest r) \<and> sha256_shape (t_responseDigest r))
        (ledger_records (fold ledger_step ops new_ledger))"
proof -
  let ?l = "fold ledger_step ops new_ledger"
  have inv: "ledger_inv ?l" by (rule ledger_inv_run [OF ledger_inv_new])
  then have less: "sorted_wrt (<) (map t_sequenceNum (ledger_records ?l))"
    by (simp add: ledger_inv_def ledger_records_def)
  then have "sorted_wrt (\<lambda>a b. t_sequenceNum a - t_sequenceNum b \<le> 0) (ledger_records ?l)"
    by (simp add: sorted_wrt_map) (rule sorted_wrt_mono_rel [rotated], assumption, simp)
  then have "map sequence_num (executionTraceFromTransitRecords (ledger_records ?l)) = map t_sequenceNum (ledger_records ?l)"
    by (simp add: executionTraceFromTransitRecords_def sort_by_sorted comp_def)
  then show ?thesis using inv less by (auto simp: ledger_inv_def ledger_records_def list_all_iff)
qed

subsection \<open>The gate and its projection\<close>

lemma joinWith_projection:
  assumes "map_of a = map_of b" and "distinct (map fst a)" and "distinct (map fst b)"
  shows "projection_text a = projection_text b"
proof -
  have "set (map fst a) = set (map fst b)" using assms(1) by (metis dom_map_of_conv_image_fst list.set_map)
  then have "sort_by (\<le>) (map fst a) = sort_by (\<le>) (map fst b)"
    using assms(2,3) by (intro sorted_distinct_set_unique) (simp_all add: sorted_sort_by)
  then show ?thesis using assms(1) by (simp add: projection_text_def)
qed

lemma occ_gate_admits_unchanged:
  "map_of a = map_of b \<Longrightarrow> distinct (map fst a) \<Longrightarrow> distinct (map fst b) \<Longrightarrow> occ_admitted (evaluateOCCGate h a b)"
  using joinWith_projection [of a b] by (simp add: evaluateOCCGate_def computeReadSetProjectionHash_def Let_def)

text \<open>
  \<open>evaluateOCCGate\<close> joins keys and values without escaping them, so that whatever the hash is, it admits a
  commit whose read set disagrees with that of the fork, while listing the conflicting keys.
\<close>

theorem occ_gate_admits_conflict:
  "occ_admitted (evaluateOCCGate h [(js ''a'', js ''1;b:2'')] [(js ''a'', js ''1''), (js ''b'', js ''2'')])
   \<and> conflictingKeys (evaluateOCCGate h [(js ''a'', js ''1;b:2'')] [(js ''a'', js ''1''), (js ''b'', js ''2'')]) = [js ''a'', js ''b'']"
proof -
  have sorted: "sort_by (\<le>) [js ''a'', js ''b''] = [js ''a'', js ''b'']" "sort_by (\<le>) [js ''a''] = [js ''a'']"
      "js_set [js ''a'', js ''a'', js ''b''] = [js ''a'', js ''b'']"
    by code_simp+
  have "projection_text [(js ''a'', js ''1;b:2'')] = js ''a:1;b:2''"
      "projection_text [(js ''a'', js ''1''), (js ''b'', js ''2'')] = js ''a:1;b:2''"
    by (simp_all add: projection_text_def sorted or_default_def) (simp_all add: js_Cons)
  then show ?thesis by (simp add: evaluateOCCGate_def computeReadSetProjectionHash_def Let_def sorted)
qed

end
