(* ===== verification/Lifecycle.thy ===== *)
theory Lifecycle
  imports Identity Retrieval Vault Runtime_State
begin

text \<open>
  The vocabulary of a governed invocation: requests, results and the decision predicates of
  \<open>runtime/lifecycle.ts\<close> and \<open>runtime/result.ts\<close>, the execution context hash of
  \<open>runtime/executionContext.ts\<close> and the metric names of \<open>runtime/metrics.ts\<close>, all of
  \<open>packages/enforcement-runtime/src\<close>. Regular expressions are the patterns of \<open>Js_Text\<close>.
\<close>

subsection \<open>Requests and results\<close>

record RequestMemoryWrite =
  rm_tier :: PolicyMemoryTier
  rm_contentDigest :: jstr
  rm_classificationTags :: "jstr list"
  rm_expiresAt :: "jstr option"

record GovernedInvokeRequest =
  q_pathTenantId :: jstr
  q_body :: jsval
  q_tenantId :: jstr
  q_userId :: jstr
  q_role :: "jstr option"
  q_sessionId :: "jstr option"
  q_requestId :: "jstr option"
  q_source :: IdentitySource
  q_modelId :: jstr
  q_temperature :: "jnum option"
  q_maxTokens :: "jnum option"
  q_text :: jstr
  q_contentDigest :: "jstr option"
  q_retrievalEnabled :: bool
  q_contexts :: "RetrievedContextCandidate list option"
  q_memoryWrite :: "RequestMemoryWrite option"
  q_consentState :: "ConsentState option"
  q_executionNonce :: "jstr option"
  q_now :: "jstr option"

datatype GovernedInvokeStatus =
    Completed | Refused_pre_model | Refused_post_model | Requires_consent | Escalated | Human_review_status | Failed_closed

record DecisionSummary =
  ds_preRetrieval :: "PolicyDecision option"
  ds_preModel :: PolicyDecision
  ds_postModel :: "PolicyDecision option"
  ds_memoryWrite :: "PolicyDecision option"

record MemorySummary =
  ms_attempted :: bool
  ms_written :: bool
  ms_reason :: jstr

record ReceiptSummary =
  rs_attempted :: bool
  rs_emitted :: bool
  rs_receiptId :: "jstr option"
  rs_failureReason :: "jstr option"

record GovernedInvokeResult =
  g_requestId :: jstr
  g_tenantIdHash :: jstr
  g_userIdHash :: jstr
  g_modelId :: jstr
  g_status :: GovernedInvokeStatus
  g_responseText :: "jstr option"
  g_redacted :: "bool option"
  g_decisionSummary :: DecisionSummary
  g_memory :: MemorySummary
  g_receipt :: ReceiptSummary
  g_receiptV2 :: "ReceiptSummary option"
  g_errors :: "jstr list"

subsection \<open>Decisions\<close>

definition isModelInvocationAllowed :: "PolicyDecision \<Rightarrow> bool" where
  "isModelInvocationAllowed d \<longleftrightarrow> decision d \<in> {ALLOW, RECEIPT_ONLY, MODIFY}"

definition isMemoryWriteAllowed :: "PolicyDecision \<Rightarrow> bool" where
  "isMemoryWriteAllowed d \<longleftrightarrow> decision d \<in> {ALLOW, RECEIPT_ONLY, MODIFY, REDACT}"

definition statusForBlockingDecision :: "DecisionKind \<Rightarrow> GovernedInvokeStatus \<Rightarrow> GovernedInvokeStatus" where
  "statusForBlockingDecision d fallback =
     (if d = REQUIRE_CONSENT then Requires_consent
      else if d = ESCALATE then Escalated
      else if d = HUMAN_REVIEW then Human_review_status
      else if d = REFUSE \<or> d = SILENCE then fallback
      else Failed_closed)"

definition syntheticDecision ::
  "EnforcementPhase \<Rightarrow> DecisionKind \<Rightarrow> jstr \<Rightarrow> jstr \<Rightarrow> jstr \<Rightarrow> jstr list option \<Rightarrow> jnum option \<Rightarrow> PolicyDecision" where
  "syntheticDecision phase d version hash reason actions risk =
     \<lparr>decision_phase = phase, decision = d, decision_policyVersion = version, decision_policyHash = hash,
      matchedRuleIds = [], matchedLayers = [], actionTaken = or_default [] actions,
      riskScore = or_default num_one risk, reasons = [reason]\<rparr>"

subsection \<open>Redaction\<close>

definition digits :: "nat \<Rightarrow> pattern" where
  "digits n = Rep is_digit n (Some n)"

definition phone_separator :: pattern where
  "phone_separator = Optp (Cls (\<lambda>c. c \<in> set (js ''-.'') \<or> is_js_space c))"

text \<open>\<open>[A-Z0-9._%+-]+@[A-Z0-9.-]+\.[A-Z]{2,}\<close>, ignoring case.\<close>

definition email_pattern :: pattern where
  "email_pattern =
     Seqp (Rep (\<lambda>c. ci_letter c \<or> is_digit c \<or> c \<in> set (js ''._%+-'')) 1 None)
     (Seqp (Cls (\<lambda>c. c = 64))
     (Seqp (Rep (\<lambda>c. ci_letter c \<or> is_digit c \<or> c \<in> set (js ''.-'')) 1 None)
     (Seqp (Cls (\<lambda>c. c = 46)) (Rep ci_letter 2 None))))"

text \<open>\<open>\b(?:\+?1[-.\s]?)?(?:\(?\d{3}\)?[-.\s]?)\d{3}[-.\s]?\d{4}\b\<close>\<close>

definition phone_pattern :: pattern where
  "phone_pattern =
     Seqp (Boundary word_unit)
     (Seqp (Optp (Seqp (Optp (Cls (\<lambda>c. c = 43))) (Seqp (Cls (\<lambda>c. c = 49)) phone_separator)))
     (Seqp (Seqp (Optp (Cls (\<lambda>c. c = 40))) (Seqp (digits 3) (Seqp (Optp (Cls (\<lambda>c. c = 41))) phone_separator)))
     (Seqp (digits 3) (Seqp phone_separator (Seqp (digits 4) (Boundary word_unit))))))"

text \<open>\<open>\b(?:api[_-]?key|secret|password|token)\s*[:=]\s*["']?[^"'\s]+\<close>, ignoring case.\<close>

definition secret_pattern :: pattern where
  "secret_pattern =
     Seqp (Boundary ci_word_unit)
     (Seqp (Altp (Seqp (literal ci_eq (js ''api'')) (Seqp (Optp (Cls (\<lambda>c. c \<in> set (js ''_-'')))) (literal ci_eq (js ''key''))))
           (Altp (literal ci_eq (js ''secret'')) (Altp (literal ci_eq (js ''password'')) (literal ci_eq (js ''token'')))))
     (Seqp (Rep is_js_space 0 None)
     (Seqp (Cls (\<lambda>c. c = 58 \<or> c = 61))
     (Seqp (Rep is_js_space 0 None)
     (Seqp (Optp (Cls (\<lambda>c. c = 34 \<or> c = 39)))
     (Rep (\<lambda>c. c \<noteq> 34 \<and> c \<noteq> 39 \<and> \<not> is_js_space c) 1 None))))))"

definition redactModelOutput :: "jstr \<Rightarrow> jstr" where
  "redactModelOutput output =
     replace_all secret_pattern (js ''[REDACTED_SECRET]'')
       (replace_all phone_pattern (js ''[REDACTED_PHONE]'')
         (replace_all email_pattern (js ''[REDACTED_EMAIL]'') output))"

subsection \<open>The execution context\<close>

record PreDecisionSnapshot =
  pd_phase :: EnforcementPhase
  pd_decision :: DecisionKind
  pd_policyVersion :: jstr
  pd_policyHash :: jstr
  pd_riskScore :: jnum

record ExecutionContextSnapshot =
  x_requestId :: jstr
  x_tenantIdHash :: jstr
  x_userIdHash :: jstr
  x_sessionIdHash :: jstr
  x_modelId :: jstr
  x_policyVersion :: jstr
  x_policyHash :: jstr
  x_inputDigest :: jstr
  x_retrievedContextDigests :: "jstr list"
  x_consentState :: ConsentState
  x_executionNonce :: jstr
  x_preDecision :: "PreDecisionSnapshot option"
  x_memoryWrite :: "RequestMemoryWrite option"

definition normalizeExecutionNonce :: "jstr option \<Rightarrow> jstr \<Rightarrow> receipt_error + jstr" where
  "normalizeExecutionNonce value requestId =
     (let nonce = js_trim (or_default requestId value) in
      if url_safe_between 8 256 nonce then Inr nonce else Inl BadNonceShape)"

definition pre_decision_json :: "PreDecisionSnapshot \<Rightarrow> jsval" where
  "pre_decision_json d =
     JObj [(js ''phase'', JStr (phase_name (pd_phase d))), (js ''decision'', JStr (decision_name (pd_decision d))),
           (js ''policyVersion'', JStr (pd_policyVersion d)), (js ''policyHash'', JStr (pd_policyHash d)),
           (js ''riskScore'', JNum (pd_riskScore d))]"

definition memory_write_json :: "RequestMemoryWrite \<Rightarrow> jsval" where
  "memory_write_json m =
     JObj ([(js ''tier'', JStr (tier_name (rm_tier m))), (js ''contentDigest'', JStr (rm_contentDigest m)),
            (js ''classificationTags'', json_list JStr (sort_by (\<le>) (rm_classificationTags m)))]
           @ (if truthy (rm_expiresAt m) then opt_entry (js ''expiresAt'') JStr (rm_expiresAt m) else []))"

definition snapshot_json :: "ExecutionContextSnapshot \<Rightarrow> jsval" where
  "snapshot_json x =
     JObj ([(js ''schemaVersion'', JStr (js ''ghost.execution_context.v1'')),
            (js ''requestId'', JStr (x_requestId x)),
            (js ''tenantIdHash'', JStr (x_tenantIdHash x)),
            (js ''userIdHash'', JStr (x_userIdHash x)),
            (js ''sessionIdHash'', JStr (x_sessionIdHash x)),
            (js ''modelId'', JStr (x_modelId x)),
            (js ''policyVersion'', JStr (x_policyVersion x)),
            (js ''policyHash'', JStr (x_policyHash x)),
            (js ''inputDigest'', JStr (x_inputDigest x)),
            (js ''retrievedContextDigests'', json_list JStr (sort_by (\<le>) (x_retrievedContextDigests x))),
            (js ''consentState'', JStr (consent_name (x_consentState x))),
            (js ''executionNonce'', JStr (x_executionNonce x))]
           @ opt_entry (js ''preDecision'') pre_decision_json (x_preDecision x)
           @ opt_entry (js ''memoryWrite'') memory_write_json (x_memoryWrite x))"

definition executionContextHash :: "receipt_env \<Rightarrow> ExecutionContextSnapshot \<Rightarrow> receipt_error + jstr" where
  "executionContextHash env x =
     (case canonical_digest env (snapshot_json x) of Inl e \<Rightarrow> Inl e | Inr d \<Rightarrow> Inr (js ''sha256:'' @ d))"

subsection \<open>Metrics\<close>

datatype GovernedInvokeMetricName =
    GovernedInvokeCompleted
  | GovernedInvokeFailedClosed
  | GovernedInvokeReceiptEmissionFailed
  | GovernedInvokePolicyLoadFailed
  | GovernedInvokeKmsSigningFailed
  | GovernedInvokeCrossTenantRetrievalBlocked
  | GovernedInvokeBedrockFailed
  | GovernedInvokeMemorySuppressed

record GovernedInvokeMetric =
  metric_name :: GovernedInvokeMetricName
  metric_stage :: jstr
  metric_status :: GovernedInvokeStatus
  metric_modelId :: "jstr option"

text \<open>With the unicode flag a surrogate pair is one character, replaced by one underscore.\<close>

definition metric_unsafe :: pattern where
  "metric_unsafe =
     Altp (Seqp (Cls is_high_surrogate) (Cls is_low_surrogate))
          (Cls (\<lambda>c. \<not> (is_upper c \<or> is_lower c \<or> is_digit c \<or> c \<in> set (js ''_.:-''))))"

definition normalizeModelIdForMetric :: "jstr option \<Rightarrow> jstr option" where
  "normalizeModelIdForMetric modelId =
     (if truthy modelId then Some (take 128 (replace_all metric_unsafe (js ''_'') (or_default [] modelId))) else None)"

end
