(* ===== verification/Governed_Invoke.thy ===== *)
theory Governed_Invoke
  imports Lifecycle
begin

text \<open>
  The governed invocation pipeline, \<open>runtime/governedInvoke.ts\<close> of
  \<open>packages/enforcement-runtime/src\<close>, in full: identity, nonce, allowlist and policy; pre-retrieval
  decision; retrieval and its filter; pre-model decision; nonce reservation; model invocation;
  post-model decision; memory write; receipts. Each early return of the source is a branch, and the
  code between two of them is one definition, which calls the definition of what follows.

  The dependencies are functions on a world of arbitrary type: each returns its answer, or the
  message of the exception it raises, and the next world. Beside the world a session records the
  calls made, in order; the record is read by the theorems only. Logging is not modelled.
\<close>

subsection \<open>Dependencies\<close>

record ModelInvokeInput =
  mi_modelId :: jstr
  mi_prompt :: jstr
  mi_temperature :: "jnum option"
  mi_maxTokens :: "jnum option"
  mi_requestId :: jstr

record ModelInvokeOutput =
  mo_outputText :: jstr
  mo_latencyMs :: jnum
  mo_costEstimateUsd :: "jnum option"

record ReceiptEmissionInput =
  e_identity :: VerifiedIdentityContext
  e_modelId :: jstr
  e_policyVersion :: jstr
  e_policyHash :: jstr
  e_inputDigest :: jstr
  e_retrievedContextDigests :: "jstr list"
  e_preDecision :: PolicyDecision
  e_postDecision :: PolicyDecision
  e_memoryWritten :: bool
  e_consentState :: ConsentState
  e_latencyMs :: jnum
  e_costEstimateUsd :: "jnum option"
  e_executionContextHash :: jstr
  e_executionNonce :: jstr
  e_timestamp :: jstr

text \<open>The message of a failed reservation, and whether it is an \<open>ExecutionNonceReplayError\<close>.\<close>

record ReservationFailure =
  rf_replay :: bool
  rf_message :: jstr

record 'w GovernedInvokeDependencies =
  d_loadPolicies :: "jstr \<Rightarrow> jstr \<Rightarrow> jstr \<Rightarrow> 'w \<Rightarrow> (jstr + PolicySource list) \<times> 'w"
  d_invoke :: "ModelInvokeInput \<Rightarrow> 'w \<Rightarrow> (jstr + ModelInvokeOutput) \<times> 'w"
  d_vaultWrite :: "MemoryWriteRequest \<Rightarrow> PolicyDecision \<Rightarrow> ConsentState \<Rightarrow> 'w \<Rightarrow> (jstr + MemoryWriteResult) \<times> 'w"
  d_emit :: "ReceiptEmissionInput \<Rightarrow> 'w \<Rightarrow> (jstr + jstr) \<times> 'w"
  d_identityDigestSecret :: "jstr option"
  d_modelAllowlist :: "jstr list option"
  d_retrieve :: "(jstr \<Rightarrow> jstr \<Rightarrow> jstr \<Rightarrow> jstr \<Rightarrow> 'w \<Rightarrow> (jstr + RetrievedContextCandidate list) \<times> 'w) option"
  d_rejectCallerSuppliedContexts :: bool
  d_requireProviderWhenEnabled :: bool
  d_allowTaintedDigestOnly :: bool
  d_metrics :: "(GovernedInvokeMetric \<Rightarrow> 'w \<Rightarrow> 'w) option"
  d_stage :: "jstr option"
  d_reserve :: "(ExecutionNonceReservation \<Rightarrow> 'w \<Rightarrow> (ReservationFailure + ReservationOutcome) \<times> 'w) option"
  d_emitV2 :: "(ReceiptEmissionInput \<Rightarrow> DecisionReceiptV2TraceEntry list \<Rightarrow> 'w \<Rightarrow> (jstr + jstr) \<times> 'w) option"
  d_transitRecords :: "('w \<Rightarrow> TransitRecord list) option"

text \<open>The library functions the pipeline uses, and the messages of policy errors.\<close>

record runtime_env =
  rt_env :: receipt_env
  rt_lower :: "jstr \<Rightarrow> jstr"
  rt_toFixed4 :: "jnum \<Rightarrow> jnum"
  rt_policyMessage :: "policy_error \<Rightarrow> jstr"

datatype call =
    CallLoadPolicies jstr jstr jstr
  | CallRetrieve jstr jstr jstr jstr
  | CallReserve ExecutionNonceReservation
  | CallInvoke ModelInvokeInput
  | CallVaultWrite MemoryWriteRequest PolicyDecision ConsentState
  | CallEmit ReceiptEmissionInput
  | CallEmitV2 ReceiptEmissionInput "DecisionReceiptV2TraceEntry list"
  | CallMetric GovernedInvokeMetric

record 'w session =
  s_world :: 'w
  s_calls :: "call list"

definition perform :: "call \<Rightarrow> ('w \<Rightarrow> 'a \<times> 'w) \<Rightarrow> 'w session \<Rightarrow> 'a \<times> 'w session" where
  "perform c f s = (let (a, w) = f (s_world s) in (a, \<lparr>s_world = w, s_calls = s_calls s @ [c]\<rparr>))"

subsection \<open>Building results\<close>

definition UNAVAILABLE_HASH :: jstr where
  "UNAVAILABLE_HASH = replicate 64 48"

definition emptyDecision :: "EnforcementPhase \<Rightarrow> PolicyDecision" where
  "emptyDecision phase = syntheticDecision phase REFUSE (js ''unavailable'') UNAVAILABLE_HASH
     (js ''runtime failed before policy decision'') (Some [js ''fail_closed'']) (Some num_one)"

text \<open>\<open>baseResult\<close> with its optional fields at their defaults.\<close>

definition baseResult ::
  "jstr \<Rightarrow> jstr \<Rightarrow> jstr \<Rightarrow> jstr \<Rightarrow> GovernedInvokeStatus \<Rightarrow> PolicyDecision \<Rightarrow> GovernedInvokeResult" where
  "baseResult requestId tenantIdHash userIdHash modelId status preModel =
     \<lparr>g_requestId = requestId, g_tenantIdHash = tenantIdHash, g_userIdHash = userIdHash, g_modelId = modelId,
      g_status = status, g_responseText = None, g_redacted = None,
      g_decisionSummary = \<lparr>ds_preRetrieval = None, ds_preModel = preModel, ds_postModel = None, ds_memoryWrite = None\<rparr>,
      g_memory = \<lparr>ms_attempted = False, ms_written = False, ms_reason = js ''no memory write requested''\<rparr>,
      g_receipt = \<lparr>rs_attempted = False, rs_emitted = False, rs_receiptId = None, rs_failureReason = None\<rparr>,
      g_receiptV2 = None, g_errors = []\<rparr>"

definition identity_message :: "identity_error \<Rightarrow> jstr" where
  "identity_message e =
     (case e of
        IdentityRequired \<Rightarrow> js ''Verified tenant and user identity are required''
      | ClientDeclaredIdentity _ \<Rightarrow> js ''Client-declared tenant, user, or session identity is not accepted''
      | TenantMismatch _ _ \<Rightarrow> js ''Path tenant does not match authenticated tenant'')"

definition resolveIdentity :: "GovernedInvokeRequest \<Rightarrow> identity_error + VerifiedIdentityContext" where
  "resolveIdentity q =
     (case resolveVerifiedIdentity
          \<lparr>a_tenantId = Some (q_tenantId q), a_userId = Some (q_userId q), a_role = q_role q, a_sessionId = q_sessionId q,
           a_requestId = q_requestId q, a_source = Some (q_source q)\<rparr> (q_requestId q) of
        Inl e \<Rightarrow> Inl e
      | Inr i \<Rightarrow> if id_tenantId i \<noteq> q_pathTenantId q then Inl (TenantMismatch (q_pathTenantId q) (id_tenantId i)) else Inr i)"

definition allowedCandidates :: "RetrievedContextCandidate list \<Rightarrow> jstr list \<Rightarrow> RetrievedContextCandidate list" where
  "allowedCandidates cs digests = filter (\<lambda>c. c_digest c \<in> set digests) cs"

definition emitMetric ::
  "'w GovernedInvokeDependencies \<Rightarrow> GovernedInvokeMetricName \<Rightarrow> GovernedInvokeStatus \<Rightarrow> jstr \<Rightarrow> 'w session \<Rightarrow> 'w session" where
  "emitMetric deps name status modelId s =
     (case d_metrics deps of
        None \<Rightarrow> s
      | Some emit \<Rightarrow>
          let m = \<lparr>metric_name = name, metric_stage = or_default (js ''unknown'') (d_stage deps), metric_status = status,
                metric_modelId = normalizeModelIdForMetric (Some modelId)\<rparr>
          in snd (perform (CallMetric m) (\<lambda>w. ((), emit m w)) s))"

definition finalizeResult ::
  "'w GovernedInvokeDependencies \<Rightarrow> GovernedInvokeResult \<Rightarrow> GovernedInvokeMetricName list \<Rightarrow> 'w session \<Rightarrow>
     (receipt_error + GovernedInvokeResult) \<times> 'w session" where
  "finalizeResult deps r extraMetrics s =
     (let s1 = fold (\<lambda>m. emitMetric deps m (g_status r) (g_modelId r)) extraMetrics s;
          s2 = (if g_status r = Completed then emitMetric deps GovernedInvokeCompleted (g_status r) (g_modelId r) s1 else s1);
          s3 = (if g_status r = Failed_closed then emitMetric deps GovernedInvokeFailedClosed (g_status r) (g_modelId r) s2 else s2)
      in (Inr r, s3))"

text \<open>\<open>/kms|sign/iu\<close>\<close>

definition mentions_signing :: "jstr \<Rightarrow> bool" where
  "mentions_signing s \<longleftrightarrow> js_includes (map fold_unit s) (js ''kms'') \<or> js_includes (map fold_unit s) (js ''sign'')"

definition receiptFailureMetrics :: "jstr + jstr \<Rightarrow> GovernedInvokeMetricName list" where
  "receiptFailureMetrics receipt =
     (case receipt of
        Inr _ \<Rightarrow> []
      | Inl why \<Rightarrow> GovernedInvokeReceiptEmissionFailed # (if mentions_signing why then [GovernedInvokeKmsSigningFailed] else []))"

definition strictRetrievalTaintBlockingEnabled :: "'w GovernedInvokeDependencies \<Rightarrow> bool" where
  "strictRetrievalTaintBlockingEnabled deps \<longleftrightarrow>
     \<not> d_allowTaintedDigestOnly deps \<and> (d_rejectCallerSuppliedContexts deps \<or> d_requireProviderWhenEnabled deps)"

subsection \<open>Receipts\<close>

definition emitReceiptV2Layer ::
  "'w GovernedInvokeDependencies \<Rightarrow> bool \<Rightarrow> ReceiptEmissionInput \<Rightarrow> 'w session \<Rightarrow> ReceiptSummary option \<times> 'w session" where
  "emitReceiptV2Layer deps modelInvocationSucceeded e s =
     (case d_emitV2 deps of
        None \<Rightarrow> (None, s)
      | Some emitV2 \<Rightarrow>
          let records = (case d_transitRecords deps of None \<Rightarrow> [] | Some f \<Rightarrow> f (s_world s)) in
          if modelInvocationSucceeded \<and> records = [] then
            (Some \<lparr>rs_attempted = True, rs_emitted = False, rs_receiptId = None, rs_failureReason = Some
               (js ''model egress completed outside gateway custody; refusing to emit a v2 receipt attesting an empty execution trace'')\<rparr>, s)
          else
            let trace = executionTraceFromTransitRecords records in
            (case perform (CallEmitV2 e trace) (emitV2 e trace) s of
               (Inr i, s') \<Rightarrow> (Some \<lparr>rs_attempted = True, rs_emitted = True, rs_receiptId = Some i, rs_failureReason = None\<rparr>, s')
             | (Inl why, s') \<Rightarrow> (Some \<lparr>rs_attempted = True, rs_emitted = False, rs_receiptId = None, rs_failureReason = Some why\<rparr>, s')))"

text \<open>The receipt identifier or the reason of the failure, and the outcome of the v2 layer.\<close>

definition emitReceipt ::
  "'w GovernedInvokeDependencies \<Rightarrow> bool \<Rightarrow> ReceiptEmissionInput \<Rightarrow> 'w session \<Rightarrow>
     ((jstr + jstr) \<times> ReceiptSummary option) \<times> 'w session" where
  "emitReceipt deps modelInvocationSucceeded e s =
     (case perform (CallEmit e) (d_emit deps e) s of
        (Inl why, s1) \<Rightarrow>
          ((Inl why, if d_emitV2 deps = None then None
             else Some \<lparr>rs_attempted = False, rs_emitted = False, rs_receiptId = None,
                    rs_failureReason = Some (js ''v1 receipt emission failed before the v2 layer was attempted'')\<rparr>), s1)
      | (Inr i, s1) \<Rightarrow>
          (case emitReceiptV2Layer deps modelInvocationSucceeded e s1 of
             (None, s2) \<Rightarrow> ((Inr i, None), s2)
           | (Some v2, s2) \<Rightarrow>
               if rs_emitted v2 then ((Inr i, Some v2), s2)
               else ((Inl (or_default (js ''v2 receipt emission failed'') (rs_failureReason v2)), Some v2), s2)))"

definition receipt_summary :: "jstr + jstr \<Rightarrow> ReceiptSummary" where
  "receipt_summary receipt =
     \<lparr>rs_attempted = True,
      rs_emitted = (case receipt of Inr _ \<Rightarrow> True | Inl _ \<Rightarrow> False),
      rs_receiptId = (case receipt of Inr i \<Rightarrow> Some i | Inl _ \<Rightarrow> None),
      rs_failureReason = (case receipt of Inr _ \<Rightarrow> None | Inl why \<Rightarrow> Some why)\<rparr>"

definition receipt_errors :: "jstr + jstr \<Rightarrow> jstr list" where
  "receipt_errors receipt = (case receipt of Inr _ \<Rightarrow> [] | Inl why \<Rightarrow> [why])"

subsection \<open>What an invocation has established\<close>

record invocation =
  i_now :: jstr
  i_tenantIdHash :: jstr
  i_userIdHash :: jstr
  i_sessionIdHash :: jstr
  i_inputDigest :: jstr
  i_identity :: VerifiedIdentityContext
  i_nonce :: jstr
  i_policy :: CompiledPolicy

definition consent_of :: "GovernedInvokeRequest \<Rightarrow> ConsentState" where
  "consent_of q = or_default Missing (q_consentState q)"

definition executionHashFor ::
  "runtime_env \<Rightarrow> GovernedInvokeRequest \<Rightarrow> invocation \<Rightarrow> jstr list \<Rightarrow> PolicyDecision \<Rightarrow> receipt_error + jstr" where
  "executionHashFor rt q iv digests preDecision =
     executionContextHash (rt_env rt)
       \<lparr>x_requestId = id_requestId (i_identity iv), x_tenantIdHash = i_tenantIdHash iv, x_userIdHash = i_userIdHash iv,
        x_sessionIdHash = i_sessionIdHash iv, x_modelId = q_modelId q, x_policyVersion = policyVersion (i_policy iv),
        x_policyHash = policyHash (i_policy iv), x_inputDigest = i_inputDigest iv, x_retrievedContextDigests = digests,
        x_consentState = consent_of q, x_executionNonce = i_nonce iv,
        x_preDecision = Some \<lparr>pd_phase = decision_phase preDecision, pd_decision = decision preDecision,
          pd_policyVersion = decision_policyVersion preDecision, pd_policyHash = decision_policyHash preDecision,
          pd_riskScore = riskScore preDecision\<rparr>,
        x_memoryWrite = q_memoryWrite q\<rparr>"

definition emission ::
  "GovernedInvokeRequest \<Rightarrow> invocation \<Rightarrow> jstr list \<Rightarrow> PolicyDecision \<Rightarrow> PolicyDecision \<Rightarrow> bool \<Rightarrow> jnum \<Rightarrow> jnum option \<Rightarrow> jstr \<Rightarrow>
     ReceiptEmissionInput" where
  "emission q iv digests pre post memoryWritten latencyMs cost contextHash =
     \<lparr>e_identity = i_identity iv, e_modelId = q_modelId q, e_policyVersion = decision_policyVersion pre,
      e_policyHash = decision_policyHash pre, e_inputDigest = i_inputDigest iv, e_retrievedContextDigests = digests,
      e_preDecision = pre, e_postDecision = post, e_memoryWritten = memoryWritten, e_consentState = consent_of q,
      e_latencyMs = latencyMs, e_costEstimateUsd = cost, e_executionContextHash = contextHash,
      e_executionNonce = i_nonce iv, e_timestamp = i_now iv\<rparr>"

definition result_for :: "GovernedInvokeRequest \<Rightarrow> invocation \<Rightarrow> GovernedInvokeStatus \<Rightarrow> PolicyDecision \<Rightarrow> GovernedInvokeResult" where
  "result_for q iv status preModel =
     baseResult (id_requestId (i_identity iv)) (i_tenantIdHash iv) (i_userIdHash iv) (q_modelId q) status preModel"

definition refusal :: "invocation \<Rightarrow> DecisionKind \<Rightarrow> jstr \<Rightarrow> jstr list \<Rightarrow> PolicyDecision" where
  "refusal iv d reason actions =
     syntheticDecision Pre_model d (policyVersion (i_policy iv)) (policyHash (i_policy iv)) reason (Some actions) (Some num_one)"

definition status_if_emitted :: "jstr + jstr \<Rightarrow> GovernedInvokeStatus \<Rightarrow> GovernedInvokeStatus" where
  "status_if_emitted receipt status = (case receipt of Inr _ \<Rightarrow> status | Inl _ \<Rightarrow> Failed_closed)"

text \<open>
  The block that ends an invocation before the model is called: a receipt whose two decisions are
  the blocking one, and a result without response.
\<close>

definition block_before_model ::
  "'w GovernedInvokeDependencies \<Rightarrow> GovernedInvokeRequest \<Rightarrow> invocation \<Rightarrow> PolicyDecision \<Rightarrow> PolicyDecision \<Rightarrow> jstr list \<Rightarrow>
     receipt_error + jstr \<Rightarrow> GovernedInvokeStatus \<Rightarrow> jstr list \<Rightarrow> GovernedInvokeMetricName list \<Rightarrow> 'w session \<Rightarrow>
     (receipt_error + GovernedInvokeResult) \<times> 'w session" where
  "block_before_model deps q iv preRetrieval preModel digests contextHash status errors metrics s =
     (case contextHash of
        Inl e \<Rightarrow> (Inl e, s)
      | Inr ch \<Rightarrow>
          (case emitReceipt deps False (emission q iv digests preModel preModel False (Zero False) None ch) s of
             ((receipt, v2), s1) \<Rightarrow>
               finalizeResult deps
                 ((result_for q iv (status_if_emitted receipt status) preModel)
                    \<lparr>g_decisionSummary := \<lparr>ds_preRetrieval = Some preRetrieval, ds_preModel = preModel,
                       ds_postModel = Some preModel, ds_memoryWrite = None\<rparr>,
                     g_receipt := receipt_summary receipt, g_receiptV2 := v2, g_errors := errors @ receipt_errors receipt\<rparr>)
                 (metrics @ receiptFailureMetrics receipt) s1))"

subsection \<open>After the model\<close>

definition suppressed_metric :: "PolicyDecision option \<Rightarrow> GovernedInvokeMetricName list" where
  "suppressed_metric memoryDecision =
     (case memoryDecision of
        None \<Rightarrow> []
      | Some d \<Rightarrow> if decision d = MEMORY_SUPPRESS then [GovernedInvokeMemorySuppressed] else [])"

definition finish ::
  "'w GovernedInvokeDependencies \<Rightarrow> GovernedInvokeRequest \<Rightarrow> invocation \<Rightarrow> PolicyDecision \<Rightarrow> jstr list \<Rightarrow> jstr \<Rightarrow>
     PolicyDecision \<Rightarrow> PolicyDecision \<Rightarrow> jnum \<Rightarrow> jnum \<Rightarrow> GovernedInvokeStatus \<Rightarrow> jstr option \<Rightarrow> bool \<Rightarrow>
     PolicyDecision option \<Rightarrow> MemoryWriteResult \<Rightarrow> 'w session \<Rightarrow> (receipt_error + GovernedInvokeResult) \<times> 'w session" where
  "finish deps q iv preRetrieval digests contextHash preModel postModel latencyMs cost status responseText redacted
     memoryDecision memoryResult s =
     (case emitReceipt deps True
         (emission q iv digests preModel postModel (mw_written memoryResult) latencyMs (Some cost) contextHash) s of
        ((receipt, v2), s1) \<Rightarrow>
          (let summary = \<lparr>ds_preRetrieval = Some preRetrieval, ds_preModel = preModel, ds_postModel = Some postModel,
                 ds_memoryWrite = memoryDecision\<rparr>;
               memory = \<lparr>ms_attempted = (q_memoryWrite q \<noteq> None), ms_written = mw_written memoryResult,
                 ms_reason = mw_reason memoryResult\<rparr>
           in case receipt of
                Inl why \<Rightarrow>
                  finalizeResult deps
                    ((result_for q iv Failed_closed preModel)\<lparr>g_decisionSummary := summary, g_memory := memory,
                       g_receipt := receipt_summary receipt, g_receiptV2 := v2, g_errors := [why]\<rparr>)
                    (receiptFailureMetrics receipt @ suppressed_metric memoryDecision) s1
              | Inr i \<Rightarrow>
                  finalizeResult deps
                    ((result_for q iv status preModel)\<lparr>g_responseText := responseText, g_redacted := Some redacted,
                       g_decisionSummary := summary, g_memory := memory, g_receipt := receipt_summary receipt, g_receiptV2 := v2\<rparr>)
                    (suppressed_metric memoryDecision) s1))"

definition eval_context ::
  "EnforcementPhase \<Rightarrow> GovernedInvokeRequest \<Rightarrow> jstr option \<Rightarrow> RetrievalFilterResult option \<Rightarrow> MemoryWriteForPolicy option \<Rightarrow>
     PolicyEvaluationContext" where
  "eval_context phase q output retrieval mem =
     \<lparr>eval_phase = phase, requestText = Some (q_text q), outputText = output,
      riskTags = map_option f_riskTags retrieval, retrievedContext = map_option f_allowed retrieval,
      memoryWrite = mem, consentState = Some (consent_of q), ctx_bodyDeclaredTenant = None\<rparr>"

definition memoryDecisionFor ::
  "runtime_env \<Rightarrow> GovernedInvokeRequest \<Rightarrow> invocation \<Rightarrow> RetrievalFilterResult \<Rightarrow> PolicyDecision \<Rightarrow> jstr \<Rightarrow> RequestMemoryWrite \<Rightarrow>
     PolicyDecision" where
  "memoryDecisionFor rt q iv retrieval postModel output m =
     (let d = evaluatePolicy (rt_lower rt) (rt_toFixed4 rt) (i_policy iv)
            (eval_context Memory_write q (Some output) (Some retrieval)
               (Some \<lparr>mw_tier = rm_tier m, mw_classificationTags = rm_classificationTags m\<rparr>))
      in if decision postModel = MEMORY_SUPPRESS
         then syntheticDecision Memory_write MEMORY_SUPPRESS (policyVersion (i_policy iv)) (policyHash (i_policy iv))
           (js ''post-model decision suppressed memory persistence'') (Some [js ''drop_memory_write''])
           (Some (num_max (riskScore postModel) (riskScore d)))
         else d)"

definition vault_request :: "invocation \<Rightarrow> RequestMemoryWrite \<Rightarrow> MemoryWriteRequest" where
  "vault_request iv m =
     \<lparr>v_tenantId = id_tenantId (i_identity iv), v_userId = id_userId (i_identity iv),
      v_sessionId = Some (id_sessionId (i_identity iv)), w_tier = rm_tier m, w_contentDigest = rm_contentDigest m,
      w_classificationTags = Some (rm_classificationTags m), w_expiresAt = rm_expiresAt m, w_now = Some (i_now iv)\<rparr>"

definition remember ::
  "'w GovernedInvokeDependencies \<Rightarrow> runtime_env \<Rightarrow> GovernedInvokeRequest \<Rightarrow> invocation \<Rightarrow> PolicyDecision \<Rightarrow> RetrievalFilterResult \<Rightarrow>
     jstr list \<Rightarrow> jstr \<Rightarrow> PolicyDecision \<Rightarrow> PolicyDecision \<Rightarrow> jstr \<Rightarrow> jnum \<Rightarrow> jnum \<Rightarrow> GovernedInvokeStatus \<Rightarrow> jstr option \<Rightarrow>
     bool \<Rightarrow> 'w session \<Rightarrow> (receipt_error + GovernedInvokeResult) \<times> 'w session" where
  "remember deps rt q iv preRetrieval retrieval digests contextHash preModel postModel output latencyMs cost status
     responseText redacted s =
     (let go = finish deps q iv preRetrieval digests contextHash preModel postModel latencyMs cost status responseText redacted in
      case q_memoryWrite q of
        None \<Rightarrow> go None \<lparr>mw_written = False, mw_reason = js ''no memory write requested'', mw_record = None\<rparr> s
      | Some m \<Rightarrow>
          (let d = memoryDecisionFor rt q iv retrieval postModel output m in
           if \<not> isMemoryWriteAllowed d then
             go (Some d) \<lparr>mw_written = False,
               mw_reason = js ''policy decision '' @ decision_name (decision d) @ js '' prevented persistence'', mw_record = None\<rparr> s
           else
             (case perform (CallVaultWrite (vault_request iv m) d (consent_of q))
                     (d_vaultWrite deps (vault_request iv m) d (consent_of q)) s of
                (Inr r, s1) \<Rightarrow> go (Some d) r s1
              | (Inl why, s1) \<Rightarrow>
                  (case emitReceipt deps True (emission q iv digests preModel postModel False latencyMs (Some cost) contextHash) s1 of
                     ((receipt, v2), s2) \<Rightarrow>
                       finalizeResult deps
                         ((result_for q iv Failed_closed preModel)
                            \<lparr>g_decisionSummary := \<lparr>ds_preRetrieval = Some preRetrieval, ds_preModel = preModel,
                               ds_postModel = Some postModel, ds_memoryWrite = Some d\<rparr>,
                             g_memory := \<lparr>ms_attempted = True, ms_written = False, ms_reason = why\<rparr>,
                             g_receipt := receipt_summary receipt, g_receiptV2 := v2, g_errors := why # receipt_errors receipt\<rparr>)
                         (receiptFailureMetrics receipt) s2))))"

text \<open>Status, response and redaction flag of the post-model decision.\<close>

definition release :: "DecisionKind \<Rightarrow> jstr \<Rightarrow> GovernedInvokeStatus \<times> jstr option \<times> bool" where
  "release d output =
     (if d = REDACT then (Completed, Some (redactModelOutput output), True)
      else if d = REFUSE then (Refused_post_model, Some (js ''The governed runtime refused this model output.''), False)
      else if d = SILENCE then (Refused_post_model, None, False)
      else if d \<in> {ESCALATE, HUMAN_REVIEW, REQUIRE_CONSENT}
      then (statusForBlockingDecision d Refused_post_model, None, False)
      else (Completed, Some output, False))"

definition after_model ::
  "'w GovernedInvokeDependencies \<Rightarrow> runtime_env \<Rightarrow> GovernedInvokeRequest \<Rightarrow> invocation \<Rightarrow> PolicyDecision \<Rightarrow> RetrievalFilterResult \<Rightarrow>
     jstr list \<Rightarrow> jstr \<Rightarrow> PolicyDecision \<Rightarrow> ModelInvokeOutput \<Rightarrow> 'w session \<Rightarrow>
     (receipt_error + GovernedInvokeResult) \<times> 'w session" where
  "after_model deps rt q iv preRetrieval retrieval digests contextHash preModel output s =
     (let postModel = evaluatePolicy (rt_lower rt) (rt_toFixed4 rt) (i_policy iv)
            (eval_context Post_model q (Some (mo_outputText output)) (Some retrieval) None);
          (status, responseText, redacted) = release (decision postModel) (mo_outputText output)
      in remember deps rt q iv preRetrieval retrieval digests contextHash preModel postModel (mo_outputText output)
           (mo_latencyMs output) (or_default (Zero False) (mo_costEstimateUsd output)) status responseText redacted s)"

subsection \<open>The model call and the nonce reservation\<close>

definition model_input :: "GovernedInvokeRequest \<Rightarrow> invocation \<Rightarrow> RetrievalFilterResult \<Rightarrow> jstr list \<Rightarrow> ModelInvokeInput" where
  "model_input q iv retrieval digests =
     \<lparr>mi_modelId = q_modelId q,
      mi_prompt = buildPromptContext (q_text q) (allowedCandidates (f_sanitized retrieval) digests),
      mi_temperature = q_temperature q, mi_maxTokens = q_maxTokens q, mi_requestId = id_requestId (i_identity iv)\<rparr>"

definition call_model ::
  "'w GovernedInvokeDependencies \<Rightarrow> runtime_env \<Rightarrow> GovernedInvokeRequest \<Rightarrow> invocation \<Rightarrow> PolicyDecision \<Rightarrow> RetrievalFilterResult \<Rightarrow>
     jstr list \<Rightarrow> jstr \<Rightarrow> PolicyDecision \<Rightarrow> 'w session \<Rightarrow> (receipt_error + GovernedInvokeResult) \<times> 'w session" where
  "call_model deps rt q iv preRetrieval retrieval digests contextHash preModel s =
     (let inp = model_input q iv retrieval digests in
      case perform (CallInvoke inp) (d_invoke deps inp) s of
        (Inr output, s1) \<Rightarrow> after_model deps rt q iv preRetrieval retrieval digests contextHash preModel output s1
      | (Inl why, s1) \<Rightarrow>
          (let postModel = syntheticDecision Post_model REFUSE (policyVersion (i_policy iv)) (policyHash (i_policy iv))
                 (js ''model invocation failed'') (Some [js ''fail_closed'']) (Some num_one)
           in case emitReceipt deps False (emission q iv digests preModel postModel False (Zero False) None contextHash) s1 of
                ((receipt, v2), s2) \<Rightarrow>
                  finalizeResult deps
                    ((result_for q iv Failed_closed preModel)
                       \<lparr>g_decisionSummary := \<lparr>ds_preRetrieval = Some preRetrieval, ds_preModel = preModel,
                          ds_postModel = Some postModel, ds_memoryWrite = None\<rparr>,
                        g_receipt := receipt_summary receipt, g_receiptV2 := v2, g_errors := why # receipt_errors receipt\<rparr>)
                    (GovernedInvokeBedrockFailed # receiptFailureMetrics receipt) s2))"

definition reserve_nonce ::
  "'w GovernedInvokeDependencies \<Rightarrow> runtime_env \<Rightarrow> GovernedInvokeRequest \<Rightarrow> invocation \<Rightarrow> PolicyDecision \<Rightarrow> RetrievalFilterResult \<Rightarrow>
     jstr list \<Rightarrow> PolicyDecision \<Rightarrow> 'w session \<Rightarrow> (receipt_error + GovernedInvokeResult) \<times> 'w session" where
  "reserve_nonce deps rt q iv preRetrieval retrieval digests preModel s =
     (case executionHashFor rt q iv digests preModel of
        Inl e \<Rightarrow> (Inl e, s)
      | Inr contextHash \<Rightarrow>
          (case d_reserve deps of
             None \<Rightarrow> call_model deps rt q iv preRetrieval retrieval digests contextHash preModel s
           | Some res \<Rightarrow>
               (let r = \<lparr>n_tenantIdHash = i_tenantIdHash iv, n_nonce = i_nonce iv, n_executionContextHash = contextHash,
                      n_requestId = id_requestId (i_identity iv), n_now = i_now iv, n_ttlSeconds = Some (24 * 60 * 60)\<rparr>;
                    block = (\<lambda>reason error. block_before_model deps q iv preRetrieval
                      (refusal iv REFUSE reason [js ''block_replay'', js ''fail_closed'']) digests (Inr contextHash) Failed_closed [error] [])
                in case perform (CallReserve r) (res r) s of
                     (Inr RESERVED, s1) \<Rightarrow> call_model deps rt q iv preRetrieval retrieval digests contextHash preModel s1
                   | (Inr IDEMPOTENT_REPLAY, s1) \<Rightarrow>
                       block (js ''execution nonce has already been used for this context'') (js ''execution nonce replay detected'') s1
                   | (Inl f, s1) \<Rightarrow>
                       block (if rf_replay f then js ''execution nonce replay detected'' else js ''execution nonce reservation failed'')
                         (rf_message f) s1)))"

subsection \<open>The decision before the model\<close>

definition decide_model ::
  "'w GovernedInvokeDependencies \<Rightarrow> runtime_env \<Rightarrow> GovernedInvokeRequest \<Rightarrow> invocation \<Rightarrow> PolicyDecision \<Rightarrow> RetrievalFilterResult \<Rightarrow>
     jstr list \<Rightarrow> 'w session \<Rightarrow> (receipt_error + GovernedInvokeResult) \<times> 'w session" where
  "decide_model deps rt q iv preRetrieval retrieval digests s =
     (let preModel = evaluatePolicy (rt_lower rt) (rt_toFixed4 rt) (i_policy iv) (eval_context Pre_model q None (Some retrieval) None) in
      if js ''retrieval_untrusted_instruction'' \<in> set (f_riskTags retrieval) \<and> strictRetrievalTaintBlockingEnabled deps
         \<and> isModelInvocationAllowed preModel then
        (let d = refusal iv ESCALATE (js ''untrusted retrieval instructions detected before prompt construction'')
               [js ''block_model_invocation'', js ''quarantine_retrieval'', js ''digest_only_receipt'']
         in block_before_model deps q iv preRetrieval d digests (executionHashFor rt q iv digests d)
              (statusForBlockingDecision (decision d) Refused_pre_model)
              [js ''untrusted retrieval instructions detected before prompt construction''] [] s)
      else if \<not> isModelInvocationAllowed preModel then
        block_before_model deps q iv preRetrieval preModel digests (executionHashFor rt q iv digests preModel)
          (statusForBlockingDecision (decision preModel) Refused_pre_model) [] [] s
      else reserve_nonce deps rt q iv preRetrieval retrieval digests preModel s)"

definition filter_context ::
  "'w GovernedInvokeDependencies \<Rightarrow> runtime_env \<Rightarrow> GovernedInvokeRequest \<Rightarrow> invocation \<Rightarrow> PolicyDecision \<Rightarrow>
     RetrievedContextCandidate list \<Rightarrow> 'w session \<Rightarrow> (receipt_error + GovernedInvokeResult) \<times> 'w session" where
  "filter_context deps rt q iv preRetrieval requested s =
     (let retrieval = filterRetrievedContext (rt_lower rt) (id_tenantId (i_identity iv)) requested (Some preRetrieval);
          digests = sort_by (\<le>) (map ctx_digest (f_allowed retrieval))
      in if js ''retrieval_cross_tenant'' \<in> set (f_riskTags retrieval) then
           (let d = refusal iv REFUSE (js ''cross-tenant retrieval contamination detected'')
                  [js ''block_model_invocation'', js ''quarantine_retrieval'']
            in block_before_model deps q iv preRetrieval d digests (executionHashFor rt q iv digests d) Failed_closed
                 [js ''cross-tenant retrieval contamination detected''] [GovernedInvokeCrossTenantRetrievalBlocked] s)
         else decide_model deps rt q iv preRetrieval retrieval digests s)"

subsection \<open>Retrieval\<close>

definition block_retrieval ::
  "'w GovernedInvokeDependencies \<Rightarrow> runtime_env \<Rightarrow> GovernedInvokeRequest \<Rightarrow> invocation \<Rightarrow> PolicyDecision \<Rightarrow> jstr \<Rightarrow> jstr list \<Rightarrow>
     jstr \<Rightarrow> 'w session \<Rightarrow> (receipt_error + GovernedInvokeResult) \<times> 'w session" where
  "block_retrieval deps rt q iv preRetrieval reason actions error s =
     (let d = refusal iv REFUSE reason actions
      in block_before_model deps q iv preRetrieval d [] (executionHashFor rt q iv [] d) Failed_closed [error] [] s)"

definition ask_provider ::
  "'w GovernedInvokeDependencies \<Rightarrow> runtime_env \<Rightarrow> GovernedInvokeRequest \<Rightarrow> invocation \<Rightarrow> PolicyDecision \<Rightarrow>
     RetrievedContextCandidate list \<Rightarrow> 'w session \<Rightarrow> (receipt_error + GovernedInvokeResult) \<times> 'w session" where
  "ask_provider deps rt q iv preRetrieval supplied s =
     (case d_retrieve deps of
        Some retrieve \<Rightarrow>
          (case perform (CallRetrieve (id_tenantId (i_identity iv)) (id_userId (i_identity iv)) (q_text q) (id_requestId (i_identity iv)))
                  (retrieve (id_tenantId (i_identity iv)) (id_userId (i_identity iv)) (q_text q) (id_requestId (i_identity iv))) s of
             (Inr cs, s1) \<Rightarrow>
               filter_context deps rt q iv preRetrieval (if d_rejectCallerSuppliedContexts deps then cs else cs @ supplied) s1
           | (Inl why, s1) \<Rightarrow>
               block_retrieval deps rt q iv preRetrieval (js ''server-side retrieval provider failed'') [js ''fail_closed''] why s1)
      | None \<Rightarrow>
          if d_requireProviderWhenEnabled deps then
            block_retrieval deps rt q iv preRetrieval
              (js ''server-side retrieval provider is required when retrieval is enabled'') [js ''block_model_invocation'']
              (js ''server-side retrieval provider is required when retrieval is enabled'') s
          else filter_context deps rt q iv preRetrieval supplied s)"

definition retrieve_context ::
  "'w GovernedInvokeDependencies \<Rightarrow> runtime_env \<Rightarrow> GovernedInvokeRequest \<Rightarrow> invocation \<Rightarrow> PolicyDecision \<Rightarrow> 'w session \<Rightarrow>
     (receipt_error + GovernedInvokeResult) \<times> 'w session" where
  "retrieve_context deps rt q iv preRetrieval s =
     (let supplied = (if q_retrievalEnabled q then or_default [] (q_contexts q) else []) in
      if \<not> q_retrievalEnabled q then filter_context deps rt q iv preRetrieval [] s
      else if d_rejectCallerSuppliedContexts deps \<and> supplied \<noteq> [] then
        block_retrieval deps rt q iv preRetrieval
          (js ''caller-supplied retrieval context is not trusted in this runtime mode'')
          [js ''block_model_invocation'', js ''quarantine_retrieval'']
          (js ''caller-supplied retrieval context is not trusted in this runtime mode'') s
      else ask_provider deps rt q iv preRetrieval supplied s)"

definition decide_retrieval ::
  "'w GovernedInvokeDependencies \<Rightarrow> runtime_env \<Rightarrow> GovernedInvokeRequest \<Rightarrow> invocation \<Rightarrow> 'w session \<Rightarrow>
     (receipt_error + GovernedInvokeResult) \<times> 'w session" where
  "decide_retrieval deps rt q iv s =
     (let preRetrieval = evaluatePolicy (rt_lower rt) (rt_toFixed4 rt) (i_policy iv) (eval_context Pre_retrieval q None None None) in
      if decision preRetrieval \<notin> {ALLOW, RECEIPT_ONLY, MODIFY, REDACT} then
        (let preModel = syntheticDecision Pre_model (decision preRetrieval) (policyVersion (i_policy iv)) (policyHash (i_policy iv))
               (js ''pre-retrieval decision blocked model invocation'') (Some (actionTaken preRetrieval)) (Some (riskScore preRetrieval))
         in block_before_model deps q iv preRetrieval preModel [] (executionHashFor rt q iv [] preModel)
              (statusForBlockingDecision (decision preRetrieval) Refused_pre_model) [] [] s)
      else retrieve_context deps rt q iv preRetrieval s)"

subsection \<open>Admission\<close>

definition DEFAULT_DECISION_RECEIPT_HMAC_SECRET :: jstr where
  "DEFAULT_DECISION_RECEIPT_HMAC_SECRET = js ''ghost-ark-local-decision-receipt-secret''"

definition identity_digest :: "receipt_env \<Rightarrow> jstr \<Rightarrow> jstr \<Rightarrow> receipt_error + jstr" where
  "identity_digest env secret v = (if v = [] then Inr (publicSha256Digest env []) else privateHmacDigest env secret v)"

text \<open>A result that fails before a policy is in force.\<close>

definition reject_early ::
  "'w GovernedInvokeDependencies \<Rightarrow> jstr \<Rightarrow> jstr \<Rightarrow> jstr \<Rightarrow> GovernedInvokeRequest \<Rightarrow> PolicyDecision \<Rightarrow> jstr \<Rightarrow>
     GovernedInvokeMetricName list \<Rightarrow> 'w session \<Rightarrow> (receipt_error + GovernedInvokeResult) \<times> 'w session" where
  "reject_early deps requestId tenantIdHash userIdHash q preModel error metrics s =
     finalizeResult deps
       ((baseResult requestId tenantIdHash userIdHash (q_modelId q) Failed_closed preModel)\<lparr>g_errors := [error]\<rparr>) metrics s"

definition admit ::
  "'w GovernedInvokeDependencies \<Rightarrow> runtime_env \<Rightarrow> GovernedInvokeRequest \<Rightarrow> jstr \<Rightarrow> jstr \<Rightarrow> jstr \<Rightarrow> jstr \<Rightarrow> jstr \<Rightarrow>
     VerifiedIdentityContext \<Rightarrow> 'w session \<Rightarrow> (receipt_error + GovernedInvokeResult) \<times> 'w session" where
  "admit deps rt q now tenantIdHash userIdHash sessionIdHash inputDigest identity s =
     (let reject = reject_early deps (id_requestId identity) tenantIdHash userIdHash q in
      case normalizeExecutionNonce (q_executionNonce q) (id_requestId identity) of
        Inl _ \<Rightarrow> reject (emptyDecision Pre_model) (js ''Execution nonce must be 8-256 characters of URL-safe text'') [] s
      | Inr nonce \<Rightarrow>
          if (case d_modelAllowlist deps of None \<Rightarrow> False | Some l \<Rightarrow> assertModelAllowed (q_modelId q) l \<noteq> Inr ()) then
            reject (syntheticDecision Pre_model REFUSE (js ''unavailable'') UNAVAILABLE_HASH
                (js ''model id is not in governed invoke allowlist'') (Some [js ''block_model_invocation'']) (Some num_one))
              (js ''Requested Bedrock model is not in the governed invoke allowlist'') [] s
          else
            (case perform (CallLoadPolicies (id_tenantId identity) (id_userId identity) (id_role identity))
                    (d_loadPolicies deps (id_tenantId identity) (id_userId identity) (id_role identity)) s of
               (Inl why, s1) \<Rightarrow> reject (emptyDecision Pre_model) why [GovernedInvokePolicyLoadFailed] s1
             | (Inr policies, s1) \<Rightarrow>
                 (case compilePolicySet (sha256 (rt_env rt)) policies of
                    Inl e \<Rightarrow> reject (emptyDecision Pre_model) (rt_policyMessage rt e) [GovernedInvokePolicyLoadFailed] s1
                  | Inr policy \<Rightarrow>
                      decide_retrieval deps rt q
                        \<lparr>i_now = now, i_tenantIdHash = tenantIdHash, i_userIdHash = userIdHash, i_sessionIdHash = sessionIdHash,
                         i_inputDigest = inputDigest, i_identity = identity, i_nonce = nonce, i_policy = policy\<rparr> s1)))"

definition check_identity :: "GovernedInvokeRequest \<Rightarrow> identity_error + VerifiedIdentityContext" where
  "check_identity q =
     (case assertNoClientDeclaredIdentity True (q_body q) of Inl e \<Rightarrow> Inl e | Inr _ \<Rightarrow> resolveIdentity q)"

definition governedInvoke ::
  "'w GovernedInvokeDependencies \<Rightarrow> runtime_env \<Rightarrow> jstr \<Rightarrow> GovernedInvokeRequest \<Rightarrow> 'w session \<Rightarrow>
     (receipt_error + GovernedInvokeResult) \<times> 'w session" where
  "governedInvoke deps rt clock q s =
     (let now = or_default clock (q_now q);
          secret = or_default DEFAULT_DECISION_RECEIPT_HMAC_SECRET (d_identityDigestSecret deps);
          inputDigest = or_default (publicSha256Digest (rt_env rt) (q_text q)) (q_contentDigest q)
      in case identity_digest (rt_env rt) secret (q_tenantId q) of
           Inl e \<Rightarrow> (Inl e, s)
         | Inr tenantIdHash \<Rightarrow>
             (case identity_digest (rt_env rt) secret (q_userId q) of
                Inl e \<Rightarrow> (Inl e, s)
              | Inr userIdHash \<Rightarrow>
                  (case identity_digest (rt_env rt) secret (or_default [] (q_sessionId q)) of
                     Inl e \<Rightarrow> (Inl e, s)
                   | Inr sessionIdHash \<Rightarrow>
                       (case check_identity q of
                          Inl e \<Rightarrow>
                            reject_early deps (or_default (js ''request-unknown'') (q_requestId q)) tenantIdHash userIdHash q
                              (emptyDecision Pre_model) (identity_message e) [] s
                        | Inr identity \<Rightarrow>
                            admit deps rt q now tenantIdHash userIdHash sessionIdHash inputDigest identity s))))"

end
