(* ===== verification/Governed_Worlds.thy ===== *)
theory Governed_Worlds
  imports Governed_Invoke
begin

text \<open>
  The world under the governed invocation pipeline: what every dependency keeps, every step of the
  pipeline keeps.
\<close>

lemma perform_result:
  assumes "perform c f s = (a, s')"
  shows "s_calls s' = s_calls s @ [c]" and "f (s_world s) = (a, s_world s')"
  using assms by (auto simp: perform_def split: prod.splits)

subsection \<open>Invariants every dependency keeps\<close>

definition keeps :: "('w \<Rightarrow> bool) \<Rightarrow> ('w \<Rightarrow> 'a \<times> 'w) \<Rightarrow> bool" where
  "keeps I f \<longleftrightarrow> (\<forall>w. I w \<longrightarrow> I (snd (f w)))"

definition stable_world :: "('w \<Rightarrow> bool) \<Rightarrow> 'w GovernedInvokeDependencies \<Rightarrow> bool" where
  "stable_world I deps \<longleftrightarrow>
     (\<forall>t u r. keeps I (d_loadPolicies deps t u r)) \<and> (\<forall>i. keeps I (d_invoke deps i))
     \<and> (\<forall>r d c. keeps I (d_vaultWrite deps r d c)) \<and> (\<forall>e. keeps I (d_emit deps e))
     \<and> (\<forall>f. d_retrieve deps = Some f \<longrightarrow> (\<forall>t u p r. keeps I (f t u p r)))
     \<and> (\<forall>f. d_metrics deps = Some f \<longrightarrow> (\<forall>m w. I w \<longrightarrow> I (f m w)))
     \<and> (\<forall>f. d_reserve deps = Some f \<longrightarrow> (\<forall>r. keeps I (f r)))
     \<and> (\<forall>f. d_emitV2 deps = Some f \<longrightarrow> (\<forall>e t. keeps I (f e t)))"

lemma stable_perform:
  "perform c f s = (a, s') \<Longrightarrow> keeps I f \<Longrightarrow> I (s_world s) \<Longrightarrow> I (s_world s')"
  using perform_result(2) [of c f s a s'] by (metis keeps_def snd_conv)

lemma stable_keeps:
  assumes "stable_world I deps"
  shows "keeps I (d_loadPolicies deps t u r)" "keeps I (d_invoke deps i)" "keeps I (d_vaultWrite deps mr d c)" "keeps I (d_emit deps e)"
    "d_retrieve deps = Some f1 \<Longrightarrow> keeps I (f1 t u p r)" "d_metrics deps = Some f2 \<Longrightarrow> I w \<Longrightarrow> I (f2 m w)"
    "d_reserve deps = Some f3 \<Longrightarrow> keeps I (f3 x)" "d_emitV2 deps = Some f4 \<Longrightarrow> keeps I (f4 e tr)"
  using assms by (simp_all add: stable_world_def)

lemma stable_emitMetric: "stable_world I deps \<Longrightarrow> I (s_world s) \<Longrightarrow> I (s_world (emitMetric deps m st i s))"
  by (auto simp: emitMetric_def Let_def perform_def stable_keeps(6) split: option.splits)

lemma stable_finalizeResult: "stable_world I deps \<Longrightarrow> I (s_world s) \<Longrightarrow> I (s_world (snd (finalizeResult deps r ms s)))"
proof -
  assume st: "stable_world I deps" and "I (s_world s)"
  then have "I (s_world (fold (\<lambda>m. emitMetric deps m (g_status r) (g_modelId r)) ms s))"
    by (induction ms arbitrary: s) (simp_all add: stable_emitMetric)
  then show ?thesis using stable_emitMetric [OF st] by (auto simp: finalizeResult_def Let_def)
qed

lemma stable_emitReceiptV2Layer:
  "stable_world I deps \<Longrightarrow> emitReceiptV2Layer deps b e s = (x, s') \<Longrightarrow> I (s_world s) \<Longrightarrow> I (s_world s')"
  by (auto simp: emitReceiptV2Layer_def Let_def split: option.splits if_splits prod.splits sum.splits
      dest: stable_perform [OF _ stable_keeps(8)])

lemma stable_emitReceipt:
  assumes st: "stable_world I deps" and e: "emitReceipt deps b e s = (x, s')" and i: "I (s_world s)"
  shows "I (s_world s')"
proof -
  obtain a s1 where p: "perform (CallEmit e) (d_emit deps e) s = (a, s1)" by fastforce
  have "I (s_world s1)" using stable_perform [OF p stable_keeps(4) [OF st] i] .
  then show ?thesis
    using e p by (cases a) (auto split: prod.splits option.splits if_splits simp: emitReceipt_def dest: stable_emitReceiptV2Layer [OF st])
qed

lemma stable_block: "stable_world I deps \<Longrightarrow> I (s_world s) \<Longrightarrow> I (s_world (snd (block_before_model deps q iv preR d digests ch status errors ms s)))"
  by (auto simp: block_before_model_def stable_finalizeResult stable_emitReceipt split: sum.split prod.split)

lemma stable_finish:
  "stable_world I deps \<Longrightarrow> I (s_world s) \<Longrightarrow> I (s_world (snd (finish deps q iv preR digests ch pre post lat cost status resp red md mr s)))"
  by (auto simp: finish_def Let_def stable_finalizeResult stable_emitReceipt split: sum.split prod.split)

lemma stable_remember:
  assumes st: "stable_world I deps" and i: "I (s_world s)"
  shows "I (s_world (snd (remember deps rt q iv preR ret digests ch pre post otext lat cost status resp red s)))"
  using stable_perform [OF _ stable_keeps(3) [OF st] i]
  by (auto simp: remember_def Let_def i stable_finalizeResult [OF st] stable_finish [OF st] dest!: stable_emitReceipt [OF st]
      split: option.split sum.split prod.split)

lemma stable_call_model:
  assumes st: "stable_world I deps" and i: "I (s_world s)"
  shows "I (s_world (snd (call_model deps rt q iv preR ret digests ch pre s)))"
  using stable_perform [OF _ stable_keeps(2) [OF st] i]
  by (auto simp: call_model_def after_model_def Let_def stable_remember [OF st] stable_finalizeResult [OF st] dest!: stable_emitReceipt [OF st]
      split: sum.split prod.split)

lemma stable_reserve_nonce:
  assumes st: "stable_world I deps" and i: "I (s_world s)"
  shows "I (s_world (snd (reserve_nonce deps rt q iv preR ret digests pre s)))"
  using stable_perform [OF _ stable_keeps(7) [OF st] i]
  by (auto simp: reserve_nonce_def Let_def i stable_call_model [OF st] stable_block [OF st]
      split: option.split sum.split prod.split ReservationOutcome.split)

lemma stable_filter_context:
  assumes st: "stable_world I deps" and i: "I (s_world s)"
  shows "I (s_world (snd (filter_context deps rt q iv preR cs s)))"
  by (simp add: filter_context_def decide_model_def Let_def i stable_block [OF st] stable_reserve_nonce [OF st])

lemma stable_retrieve_context:
  assumes st: "stable_world I deps" and i: "I (s_world s)"
  shows "I (s_world (snd (retrieve_context deps rt q iv preR s)))"
  using stable_perform [OF _ stable_keeps(5) [OF st] i]
  by (auto simp: retrieve_context_def ask_provider_def block_retrieval_def Let_def i stable_block [OF st] stable_filter_context [OF st]
      split: option.split sum.split prod.split)

lemma stable_admit:
  assumes st: "stable_world I deps" and i: "I (s_world s)"
  shows "I (s_world (snd (admit deps rt q now th uh sh dig idn s)))"
  using stable_perform [OF _ stable_keeps(1) [OF st] i]
  by (auto simp: admit_def decide_retrieval_def reject_early_def Let_def i stable_finalizeResult [OF st] stable_block [OF st]
      stable_retrieve_context [OF st] split: option.split sum.split prod.split)

lemma stable_governedInvoke:
  "stable_world I deps \<Longrightarrow> I (s_world s) \<Longrightarrow> I (s_world (snd (governedInvoke deps rt clock q s)))"
  by (auto simp: governedInvoke_def reject_early_def Let_def stable_finalizeResult stable_admit split: sum.split)

text \<open>A part of the world that no dependency changes keeps every property it has.\<close>

lemma keeps_view: "(\<And>st. keeps (\<lambda>w. view w = st) f) \<Longrightarrow> keeps (\<lambda>w. P (view w)) f"
  unfolding keeps_def by metis

lemma stable_view:
  assumes "\<And>st. stable_world (\<lambda>w. view w = st) deps"
  shows "stable_world (\<lambda>w. P (view w)) deps"
  using assms by (simp add: stable_world_def keeps_view)

lemma stable_reserving:
  assumes "stable_world I (deps\<lparr>d_reserve := None\<rparr>)" and "d_reserve deps = Some res" and "\<And>r. keeps I (res r)"
  shows "stable_world I deps"
  using assms by (simp add: stable_world_def)

end
