(* ===== verification/Governed_Properties.thy ===== *)
theory Governed_Properties
  imports Governed_Worlds
begin

text \<open>
  What the governed invocation pipeline guarantees, stated on its result and on the calls it makes:
  when the model is called, what is released, when a receipt exists, what reaches the vault.
\<close>

subsection \<open>Calls made by the building blocks\<close>

definition extends :: "(call \<Rightarrow> bool) \<Rightarrow> 'w session \<Rightarrow> 'w session \<Rightarrow> bool" where
  "extends P s s' \<longleftrightarrow> (\<exists>cs. s_calls s' = s_calls s @ cs \<and> list_all P cs)"

lemma extends_refl [simp, intro]: "extends P s s"
  by (simp add: extends_def)

lemma extends_trans: "extends P s s' \<Longrightarrow> extends P s' s'' \<Longrightarrow> extends P s s''"
  by (auto simp: extends_def)

lemma extends_mono: "extends P s s' \<Longrightarrow> (\<And>c. P c \<Longrightarrow> Q c) \<Longrightarrow> extends Q s s'"
  by (auto simp: extends_def list_all_iff)

lemma extends_call: "extends P s s' \<Longrightarrow> c \<in> set (s_calls s') \<Longrightarrow> c \<in> set (s_calls s) \<or> P c"
  by (auto simp: extends_def list_all_iff)

lemma perform_extends: "perform c f s = (a, s') \<Longrightarrow> P c \<Longrightarrow> extends P s s'"
  using perform_result(1) by (fastforce simp: extends_def)

fun is_metric :: "call \<Rightarrow> bool" where
  "is_metric (CallMetric _) = True"
| "is_metric _ = False"

fun is_receipt :: "call \<Rightarrow> bool" where
  "is_receipt (CallEmit _) = True"
| "is_receipt (CallEmitV2 _ _) = True"
| "is_receipt _ = False"

definition reports :: "call \<Rightarrow> bool" where
  "reports c \<longleftrightarrow> is_metric c \<or> is_receipt c"

lemma emitMetric_extends: "extends is_metric s (emitMetric deps m st i s)"
  by (auto simp: emitMetric_def Let_def perform_def extends_def split: option.splits)

lemma fold_emitMetric_extends: "extends is_metric s (fold (\<lambda>m. emitMetric deps m st i) ms s)"
proof (induction ms arbitrary: s)
  case (Cons m ms)
  show ?case using extends_trans [OF emitMetric_extends Cons.IH] by simp
qed simp

lemma finalizeResult_result:
  shows "fst (finalizeResult deps r ms s) = Inr r" and "extends is_metric s (snd (finalizeResult deps r ms s))"
  by (auto simp: finalizeResult_def Let_def intro: extends_trans [OF fold_emitMetric_extends emitMetric_extends]
      fold_emitMetric_extends)

lemma emitReceiptV2Layer_extends: "extends is_receipt s (snd (emitReceiptV2Layer deps b e s))"
  by (auto simp: emitReceiptV2Layer_def Let_def perform_def extends_def split: option.splits sum.splits prod.splits)

lemma emitReceipt_calls:
  shows "extends is_receipt s (snd (emitReceipt deps b e s))" and "CallEmit e \<in> set (s_calls (snd (emitReceipt deps b e s)))"
proof -
  obtain a s1 where p: "perform (CallEmit e) (d_emit deps e) s = (a, s1)" by fastforce
  have s1: "extends is_receipt s s1" "CallEmit e \<in> set (s_calls s1)"
    using perform_extends [OF p, of is_receipt] perform_result(1) [OF p] by simp_all
  have "extends is_receipt s1 (snd (emitReceipt deps b e s)) "
    using emitReceiptV2Layer_extends [of s1 deps b e]
    by (auto simp: emitReceipt_def p split: sum.splits prod.splits option.splits)
  then show "extends is_receipt s (snd (emitReceipt deps b e s))" "CallEmit e \<in> set (s_calls (snd (emitReceipt deps b e s)))"
    using s1 extends_trans by (auto simp: extends_def)
qed

text \<open>How often v1 receipts are emitted and the model is called.\<close>

definition emits :: "call list \<Rightarrow> nat" where
  "emits cs = length (filter (\<lambda>c. case c of CallEmit _ \<Rightarrow> True | _ \<Rightarrow> False) cs)"

lemma emits_append [simp]: "emits (xs @ ys) = emits xs + emits ys"
  by (simp add: emits_def)

lemma emits_metrics: "list_all is_metric cs \<Longrightarrow> emits cs = 0"
  by (auto simp: emits_def list_all_iff filter_empty_conv split: call.splits)

lemma reports_simps [simp]: "is_metric c \<Longrightarrow> reports c" "is_receipt c \<Longrightarrow> reports c"
  by (simp_all add: reports_def)

lemma emitReceipt_reports: "emitReceipt deps b e s = (x, s1) \<Longrightarrow> extends reports s s1"
  using extends_mono [OF emitReceipt_calls(1) [of s deps b e], of reports] by simp

lemma finalize_after_receipt:
  assumes "emitReceipt deps b e s = (x, s1)"
  shows "extends reports s (snd (finalizeResult deps r ms s1))"
  using extends_trans [OF emitReceipt_reports [OF assms] extends_mono [OF finalizeResult_result(2)]] by simp

lemma finalize_reports: "extends reports s (snd (finalizeResult deps r ms s))"
  by (rule extends_mono [OF finalizeResult_result(2)]) simp

lemma extends_or: "extends P s s' \<Longrightarrow> extends (\<lambda>c. P c \<or> Q c) s s'"
  by (erule extends_mono) simp

subsection \<open>Blocked invocations\<close>

text \<open>A result that releases nothing: no response, not completed, no memory written.\<close>

definition withheld :: "GovernedInvokeResult \<Rightarrow> bool" where
  "withheld r \<longleftrightarrow> g_responseText r = None \<and> g_status r \<noteq> Completed \<and> \<not> ms_written (g_memory r)
     \<and> (g_status r \<noteq> Failed_closed \<longrightarrow> rs_emitted (g_receipt r))"

definition blocked :: "'w session \<Rightarrow> (receipt_error + GovernedInvokeResult) \<times> 'w session \<Rightarrow> bool" where
  "blocked s out \<longleftrightarrow> extends reports s (snd out) \<and> (\<forall>r. fst out = Inr r \<longrightarrow> withheld r)"

lemma result_for_simps [simp]:
  "g_status (result_for q iv st d) = st" "g_responseText (result_for q iv st d) = None"
  "g_memory (result_for q iv st d) = \<lparr>ms_attempted = False, ms_written = False, ms_reason = js ''no memory write requested''\<rparr>"
  by (simp_all add: result_for_def baseResult_def)

lemma receipt_summary_emitted [simp]: "rs_emitted (receipt_summary r) \<longleftrightarrow> \<not> isl r"
  by (cases r) (simp_all add: receipt_summary_def)

lemma status_for_blocking: "statusForBlockingDecision d Refused_pre_model \<noteq> Completed"
    "statusForBlockingDecision d Refused_post_model \<noteq> Completed"
  by (simp_all add: statusForBlockingDecision_def)

lemma block_before_model_blocked:
  assumes "status \<noteq> Completed"
  shows "blocked s (block_before_model deps q iv preR d digests ch status errors ms s)"
proof (cases ch)
  case (Inl e)
  then show ?thesis by (simp add: block_before_model_def blocked_def)
next
  case (Inr h)
  obtain receipt v2 s1 where e: "emitReceipt deps False (emission q iv digests d d False (Zero False) None h) s = ((receipt, v2), s1)"
    by (metis prod.exhaust)
  show ?thesis
    using finalize_after_receipt [OF e] assms
    by (auto simp: blocked_def block_before_model_def Inr e finalizeResult_result(1) withheld_def status_if_emitted_def
        split: sum.splits)
qed

lemma reject_early_blocked: "blocked s (reject_early deps i t u q d e ms s)"
  using finalize_reports
  by (auto simp: blocked_def reject_early_def finalizeResult_result(1) withheld_def baseResult_def)

subsection \<open>From the model to the result\<close>

text \<open>The vault is asked only for the request's own write, under a decision that allows it.\<close>

definition vault_permitted :: "runtime_env \<Rightarrow> GovernedInvokeRequest \<Rightarrow> invocation \<Rightarrow> PolicyDecision \<Rightarrow> call \<Rightarrow> bool" where
  "vault_permitted rt q iv post c \<longleftrightarrow>
     (\<exists>m d. c = CallVaultWrite (vault_request iv m) d (consent_of q) \<and> q_memoryWrite q = Some m
        \<and> isMemoryWriteAllowed d \<and> decision post \<noteq> MEMORY_SUPPRESS)"

definition released :: "PolicyDecision \<Rightarrow> jstr \<Rightarrow> GovernedInvokeResult \<Rightarrow> bool" where
  "released post output r \<longleftrightarrow>
     ds_postModel (g_decisionSummary r) = Some post
     \<and> (if rs_emitted (g_receipt r) \<and> g_status r \<noteq> Failed_closed
        then g_status r = fst (release (decision post) output) \<and> g_responseText r = fst (snd (release (decision post) output))
        else g_status r = Failed_closed \<and> g_responseText r = None)"

lemma release_status: "fst (release d output) \<noteq> Failed_closed"
  by (cases d) (simp_all add: release_def statusForBlockingDecision_def)

lemma finish_released:
  assumes "release (decision post) output = (status, resp, red)"
  shows "extends reports s (snd (finish deps q iv preR digests ch pre post lat cost status resp red md mr s))"
    and "\<exists>r. fst (finish deps q iv preR digests ch pre post lat cost status resp red md mr s) = Inr r \<and> released post output r"
proof -
  obtain receipt v2 s1 where e: "emitReceipt deps True
      (emission q iv digests pre post (mw_written mr) lat (Some cost) ch) s = ((receipt, v2), s1)"
    by (metis prod.exhaust)
  show "extends reports s (snd (finish deps q iv preR digests ch pre post lat cost status resp red md mr s))"
    using finalize_after_receipt [OF e] by (simp add: finish_def e Let_def split: sum.split)
  show "\<exists>r. fst (finish deps q iv preR digests ch pre post lat cost status resp red md mr s) = Inr r \<and> released post output r"
    using release_status [of "decision post" "output"] assms
    by (cases receipt) (simp_all add: finish_def e Let_def finalizeResult_result(1), simp_all add: released_def)
qed

lemma memoryDecision_allowed:
  "isMemoryWriteAllowed (memoryDecisionFor rt q iv ret post out m) \<Longrightarrow> decision post \<noteq> MEMORY_SUPPRESS"
  by (auto simp: memoryDecisionFor_def isMemoryWriteAllowed_def syntheticDecision_def Let_def)

lemma remember_released:
  fixes deps rt q iv preR ret digests ch pre post otext lat cost
  assumes "release (decision post) output = (status, resp, red)"
  defines "out \<equiv> \<lambda>s. remember deps rt q iv preR ret digests ch pre post otext lat cost status resp red s"
  shows "extends (\<lambda>c. reports c \<or> vault_permitted rt q iv post c) s (snd (out s)) \<and> (\<exists>r. fst (out s) = Inr r \<and> released post output r)"
proof -
  note fin = extends_or [OF finish_released(1) [OF assms(1)]] finish_released(2) [OF assms(1)]
  show ?thesis
  proof (cases "q_memoryWrite q")
    case None
    then show ?thesis by (simp add: out_def remember_def Let_def fin)
  next
    case (Some m)
    let ?d = "memoryDecisionFor rt q iv ret post otext m"
    show ?thesis
    proof (cases "isMemoryWriteAllowed ?d")
      case False
      then show ?thesis
        using Some by (simp add: out_def remember_def Let_def fin)
    next
      case True
      obtain a s1 where p: "perform (CallVaultWrite (vault_request iv m) ?d (consent_of q))
          (d_vaultWrite deps (vault_request iv m) ?d (consent_of q)) s = (a, s1)" by fastforce
      have "vault_permitted rt q iv post (CallVaultWrite (vault_request iv m) ?d (consent_of q))"
        using Some True memoryDecision_allowed by (auto simp: vault_permitted_def)
      then have s1: "extends (\<lambda>c. reports c \<or> vault_permitted rt q iv post c) s s1" using perform_extends [OF p] by simp
      show ?thesis
      proof (cases a)
        case (Inr r)
        have "out s = finish deps q iv preR digests ch pre post lat cost status resp red (Some ?d) r s1"
          using Some True p Inr by (simp add: out_def remember_def Let_def)
        then show ?thesis
          using extends_trans [OF s1 fin(1)] fin(2) by simp
      next
        case (Inl why)
        obtain receipt v2 s2 where e: "emitReceipt deps True (emission q iv digests pre post False lat (Some cost) ch) s1 = ((receipt, v2), s2)"
          by (metis prod.exhaust)
        have "extends (\<lambda>c. reports c \<or> vault_permitted rt q iv post c) s1 (snd (out s))"
          using Some True p Inl finalize_after_receipt [OF e] by (simp add: out_def remember_def Let_def e extends_or)
        then show ?thesis
          using Some True p Inl extends_trans [OF s1]
          by (simp add: out_def remember_def Let_def e finalizeResult_result(1)) (simp add: released_def)
      qed
    qed
  qed
qed

subsection \<open>The run of the model\<close>

fun gathers :: "call \<Rightarrow> bool" where
  "gathers (CallInvoke _) = False"
| "gathers (CallVaultWrite _ _ _) = False"
| "gathers _ = True"

lemma reports_gathers: "reports c \<Longrightarrow> gathers c"
  by (cases c) (simp_all add: reports_def)

definition halted :: "'w session \<Rightarrow> (receipt_error + GovernedInvokeResult) \<times> 'w session \<Rightarrow> bool" where
  "halted s out \<longleftrightarrow> extends gathers s (snd out) \<and> (\<forall>r. fst out = Inr r \<longrightarrow> withheld r)"

lemma blocked_halted: "blocked s out \<Longrightarrow> halted s out"
  using extends_mono reports_gathers by (auto simp: blocked_def halted_def)

lemma halted_after: "extends gathers s s1 \<Longrightarrow> halted s1 out \<Longrightarrow> halted s out"
  by (auto simp: halted_def intro: extends_trans)

lemmas block_halted = blocked_halted [OF block_before_model_blocked]

text \<open>The call of the model and everything after it.\<close>

definition model_run ::
  "'w GovernedInvokeDependencies \<Rightarrow> runtime_env \<Rightarrow> GovernedInvokeRequest \<Rightarrow> invocation \<Rightarrow> RetrievalFilterResult \<Rightarrow> jstr list \<Rightarrow>
     'w session \<Rightarrow> (receipt_error + GovernedInvokeResult) \<times> 'w session \<Rightarrow> bool" where
  "model_run deps rt q iv ret digests s out \<longleftrightarrow>
     (\<exists>answer w rest. d_invoke deps (model_input q iv ret digests) (s_world s) = (answer, w)
        \<and> s_calls (snd out) = s_calls s @ CallInvoke (model_input q iv ret digests) # rest
        \<and> (\<forall>I. stable_world I deps \<and> I (s_world s) \<longrightarrow> I (s_world (snd out)))
        \<and> (case answer of
             Inl _ \<Rightarrow> list_all reports rest \<and> (\<exists>r. fst out = Inr r \<and> withheld r)
           | Inr x \<Rightarrow>
               let post = evaluatePolicy (rt_lower rt) (rt_toFixed4 rt) (i_policy iv)
                     (eval_context Post_model q (Some (mo_outputText x)) (Some ret) None)
               in list_all (\<lambda>c. reports c \<or> vault_permitted rt q iv post c) rest
                  \<and> (\<exists>r. fst out = Inr r \<and> released post (mo_outputText x) r)))"

lemma call_model_run: "model_run deps rt q iv ret digests s (call_model deps rt q iv preR ret digests ch pre s)"
proof -
  let ?i = "model_input q iv ret digests"
  obtain a s1 where p: "perform (CallInvoke ?i) (d_invoke deps ?i) s = (a, s1)" by fastforce
  have s1: "s_calls s1 = s_calls s @ [CallInvoke ?i]" and inv: "d_invoke deps ?i (s_world s) = (a, s_world s1)"
    using perform_result [OF p] by simp_all
  have stays: "\<forall>I. stable_world I deps \<and> I (s_world s) \<longrightarrow> I (s_world (snd (call_model deps rt q iv preR ret digests ch pre s)))"
    using stable_call_model by blast
  show ?thesis
  proof (cases a)
    case (Inl why)
    define post where "post = syntheticDecision Post_model REFUSE (policyVersion (i_policy iv)) (policyHash (i_policy iv))
      (js ''model invocation failed'') (Some [js ''fail_closed'']) (Some num_one)"
    obtain receipt v2 s2 where e: "emitReceipt deps False (emission q iv digests pre post False (Zero False) None ch) s1 = ((receipt, v2), s2)"
      by (metis prod.exhaust)
    obtain r ms where out: "call_model deps rt q iv preR ret digests ch pre s = finalizeResult deps r ms s2" and r: "withheld r"
      using p Inl e by (simp add: call_model_def Let_def flip: post_def) (simp add: withheld_def)
    obtain rest where "s_calls (snd (finalizeResult deps r ms s2)) = s_calls s1 @ rest" "list_all reports rest"
      using finalize_after_receipt [OF e, of r ms] by (auto simp: extends_def)
    then show ?thesis
      using Inl inv s1 r out stays by (auto simp: model_run_def finalizeResult_result(1))
  next
    case (Inr x)
    let ?post = "evaluatePolicy (rt_lower rt) (rt_toFixed4 rt) (i_policy iv)
      (eval_context Post_model q (Some (mo_outputText x)) (Some ret) None)"
    obtain st resp red where rel: "release (decision ?post) (mo_outputText x) = (st, resp, red)" by (metis prod.exhaust)
    have "call_model deps rt q iv preR ret digests ch pre s = remember deps rt q iv preR ret digests ch pre ?post (mo_outputText x)
        (mo_latencyMs x) (or_default (Zero False) (mo_costEstimateUsd x)) st resp red s1"
      using p Inr rel by (simp add: call_model_def after_model_def Let_def)
    note call = this
    define post where "post = ?post"
    define result where "result = remember deps rt q iv preR ret digests ch pre post (mo_outputText x)
        (mo_latencyMs x) (or_default (Zero False) (mo_costEstimateUsd x)) st resp red s1"
    have "extends (\<lambda>c. reports c \<or> vault_permitted rt q iv post c) s1 (snd result) \<and> (\<exists>r. fst result = Inr r \<and> released post (mo_outputText x) r)"
      unfolding result_def by (rule remember_released [OF rel, folded post_def])
    then obtain rest where "s_calls (snd result) = s_calls s1 @ rest" "list_all (\<lambda>c. reports c \<or> vault_permitted rt q iv post c) rest"
      "\<exists>r. fst result = Inr r \<and> released post (mo_outputText x) r"
      by (auto simp: extends_def)
    moreover have "call_model deps rt q iv preR ret digests ch pre s = result"
      using call by (simp add: result_def post_def)
    ultimately show ?thesis
      using Inr inv s1 stays by (simp add: model_run_def Let_def flip: post_def)
  qed
qed

subsection \<open>What has been checked when the model runs\<close>

text \<open>A session reached without calling the model or the vault; the dependencies' invariants hold there.\<close>

definition reaches :: "'w GovernedInvokeDependencies \<Rightarrow> 'w session \<Rightarrow> 'w session \<Rightarrow> bool" where
  "reaches deps s s' \<longleftrightarrow> extends gathers s s' \<and> (\<forall>I. stable_world I deps \<and> I (s_world s) \<longrightarrow> I (s_world s'))"

lemma reaches_refl: "reaches deps s s"
  by (simp add: reaches_def)

lemma reaches_trans: "reaches deps s s1 \<Longrightarrow> reaches deps s1 s2 \<Longrightarrow> reaches deps s s2"
  using extends_trans unfolding reaches_def by blast

lemma reaches_perform:
  assumes "perform c f s = (a, s')" and "gathers c" and "\<And>I. stable_world I deps \<Longrightarrow> keeps I f"
  shows "reaches deps s s'"
  using perform_extends [OF assms(1), of gathers] stable_perform [OF assms(1)] assms(2,3) unfolding reaches_def by blast

text \<open>Where a nonce store is configured, the last call before a session reserved the invocation's nonce.\<close>

definition reserved_before :: "'w GovernedInvokeDependencies \<Rightarrow> invocation \<Rightarrow> 'w session \<Rightarrow> 'w session \<Rightarrow> bool" where
  "reserved_before deps iv s s0 \<longleftrightarrow>
     (case d_reserve deps of
        None \<Rightarrow> reaches deps s s0
      | Some res \<Rightarrow>
          (\<exists>r s1. reaches deps s s1 \<and> perform (CallReserve r) (res r) s1 = (Inr RESERVED, s0)
             \<and> n_tenantIdHash r = i_tenantIdHash iv \<and> n_nonce r = i_nonce iv))"

lemma reserved_reaches: "reserved_before deps iv s s0 \<Longrightarrow> reaches deps s s0"
  by (auto simp: reserved_before_def split: option.splits elim!: reaches_trans reaches_perform intro: stable_keeps(7))

lemma reserved_after: "reaches deps s s1 \<Longrightarrow> reserved_before deps iv s1 s0 \<Longrightarrow> reserved_before deps iv s s0"
  using reaches_trans by (fastforce simp: reserved_before_def split: option.splits)

definition model_decided ::
  "'w GovernedInvokeDependencies \<Rightarrow> runtime_env \<Rightarrow> GovernedInvokeRequest \<Rightarrow> invocation \<Rightarrow> RetrievalFilterResult \<Rightarrow> bool" where
  "model_decided deps rt q iv ret \<longleftrightarrow>
     isModelInvocationAllowed
       (evaluatePolicy (rt_lower rt) (rt_toFixed4 rt) (i_policy iv) (eval_context Pre_model q None (Some ret) None))
     \<and> \<not> (js ''retrieval_untrusted_instruction'' \<in> set (f_riskTags ret) \<and> strictRetrievalTaintBlockingEnabled deps)"

definition context_run ::
  "'w GovernedInvokeDependencies \<Rightarrow> runtime_env \<Rightarrow> GovernedInvokeRequest \<Rightarrow> invocation \<Rightarrow> PolicyDecision \<Rightarrow>
     'w session \<Rightarrow> (receipt_error + GovernedInvokeResult) \<times> 'w session \<Rightarrow> bool" where
  "context_run deps rt q iv preR s out \<longleftrightarrow>
     (\<exists>cs s0. let ret = filterRetrievedContext (rt_lower rt) (id_tenantId (i_identity iv)) cs (Some preR);
                  digests = sort_by (\<le>) (map ctx_digest (f_allowed ret))
              in \<not> list_ex (cross_tenant (id_tenantId (i_identity iv))) cs \<and> model_decided deps rt q iv ret
                 \<and> reserved_before deps iv s s0 \<and> model_run deps rt q iv ret digests s0 out)"

lemma reserve_nonce_outcome:
  "halted s (reserve_nonce deps rt q iv preR ret digests pre s) \<or>
   (\<exists>s0. reserved_before deps iv s s0
      \<and> model_run deps rt q iv ret digests s0 (reserve_nonce deps rt q iv preR ret digests pre s))"
proof (cases "executionHashFor rt q iv digests pre")
  case (Inl e)
  then show ?thesis by (simp add: reserve_nonce_def halted_def)
next
  case (Inr ch)
  show ?thesis
  proof (cases "d_reserve deps")
    case None
    then show ?thesis
      using Inr call_model_run by (auto simp: reserve_nonce_def reserved_before_def reaches_refl intro!: exI [of _ s])
  next
    case (Some res)
    let ?r = "\<lparr>n_tenantIdHash = i_tenantIdHash iv, n_nonce = i_nonce iv, n_executionContextHash = ch,
      n_requestId = id_requestId (i_identity iv), n_now = i_now iv, n_ttlSeconds = Some (24 * 60 * 60)\<rparr>"
    obtain a s1 where p: "perform (CallReserve ?r) (res ?r) s = (a, s1)" by fastforce
    have s1: "extends gathers s s1" using perform_extends [OF p] by simp
    consider (ok) "a = Inr RESERVED" | (replay) "a = Inr IDEMPOTENT_REPLAY" | (failed) f where "a = Inl f"
      by (cases a) (auto intro: ReservationOutcome.exhaust)
    then show ?thesis
    proof cases
      case ok
      have "reserved_before deps iv s s1"
        using Some p ok reaches_refl by (fastforce simp: reserved_before_def)
      moreover have "reserve_nonce deps rt q iv preR ret digests pre s = call_model deps rt q iv preR ret digests ch pre s1"
        using Inr Some p ok by (simp add: reserve_nonce_def Let_def)
      ultimately show ?thesis by (metis call_model_run)
    next
      case replay
      then show ?thesis
        using Inr Some p halted_after [OF s1 block_halted] by (simp add: reserve_nonce_def Let_def)
    next
      case failed
      then show ?thesis
        using Inr Some p halted_after [OF s1 block_halted] by (simp add: reserve_nonce_def Let_def)
    qed
  qed
qed

lemma model_run_context:
  fixes deps rt q iv preR s cs
  defines "ret \<equiv> filterRetrievedContext (rt_lower rt) (id_tenantId (i_identity iv)) cs (Some preR)"
  defines "digests \<equiv> sort_by (\<le>) (map ctx_digest (f_allowed ret))"
  assumes "\<not> list_ex (cross_tenant (id_tenantId (i_identity iv))) cs"
  shows "halted s (decide_model deps rt q iv preR ret digests s) \<or> context_run deps rt q iv preR s (decide_model deps rt q iv preR ret digests s)"
proof (cases "model_decided deps rt q iv ret")
  case True
  then have "decide_model deps rt q iv preR ret digests s = reserve_nonce deps rt q iv preR ret digests
      (evaluatePolicy (rt_lower rt) (rt_toFixed4 rt) (i_policy iv) (eval_context Pre_model q None (Some ret) None)) s"
    by (simp only: model_decided_def decide_model_def Let_def) auto
  then show ?thesis
    using reserve_nonce_outcome True assms(3) unfolding context_run_def Let_def ret_def digests_def by metis
next
  case False
  then have "halted s (decide_model deps rt q iv preR ret digests s)"
    by (simp only: model_decided_def decide_model_def Let_def) (simp add: block_halted status_for_blocking)
  then show ?thesis ..
qed

definition governed ::
  "'w GovernedInvokeDependencies \<Rightarrow> runtime_env \<Rightarrow> GovernedInvokeRequest \<Rightarrow> invocation \<Rightarrow> PolicyDecision \<Rightarrow>
     'w session \<Rightarrow> (receipt_error + GovernedInvokeResult) \<times> 'w session \<Rightarrow> bool" where
  "governed deps rt q iv preR s out \<longleftrightarrow> halted s out \<or> context_run deps rt q iv preR s out"

lemma context_run_after:
  "reaches deps s s1 \<Longrightarrow> context_run deps rt q iv preR s1 out \<Longrightarrow> context_run deps rt q iv preR s out"
  using reserved_after unfolding context_run_def Let_def by metis

lemma reaches_halted: "reaches deps s s1 \<Longrightarrow> halted s1 out \<Longrightarrow> halted s out"
  using halted_after unfolding reaches_def by blast

lemma governed_after:
  assumes "reaches deps s s1" and "governed deps rt q iv preR s1 out"
  shows "governed deps rt q iv preR s out"
  using assms reaches_halted context_run_after unfolding governed_def by metis

lemma filter_context_governed: "governed deps rt q iv preR s (filter_context deps rt q iv preR cs s)"
proof (cases "list_ex (cross_tenant (id_tenantId (i_identity iv))) cs")
  case True
  then show ?thesis
    by (auto simp: governed_def filter_context_def Let_def cross_tenant_tag list_ex_iff block_halted)
next
  case False
  then show ?thesis
    using model_run_context [OF False, of s deps rt q preR]
    by (auto simp: governed_def filter_context_def Let_def cross_tenant_tag list_ex_iff)
qed

lemma block_retrieval_governed: "governed deps rt q iv preR s (block_retrieval deps rt q iv preR reason actions error s)"
  by (simp add: governed_def block_retrieval_def Let_def block_halted)

lemma ask_provider_governed: "governed deps rt q iv preR s (ask_provider deps rt q iv preR supplied s)"
proof (cases "d_retrieve deps")
  case None
  then show ?thesis by (simp add: ask_provider_def block_retrieval_governed filter_context_governed)
next
  case (Some retrieve)
  let ?i = "i_identity iv"
  obtain a s1 where p: "perform (CallRetrieve (id_tenantId ?i) (id_userId ?i) (q_text q) (id_requestId ?i))
      (retrieve (id_tenantId ?i) (id_userId ?i) (q_text q) (id_requestId ?i)) s = (a, s1)" by fastforce
  have "reaches deps s s1" by (rule reaches_perform [OF p]) (simp_all add: stable_keeps(5) [OF _ Some])
  note after = governed_after [OF this]
  show ?thesis
    using Some p by (cases a) (simp_all add: ask_provider_def after block_retrieval_governed filter_context_governed)
qed

lemma retrieve_context_governed: "governed deps rt q iv preR s (retrieve_context deps rt q iv preR s)"
  by (simp add: retrieve_context_def Let_def block_retrieval_governed filter_context_governed ask_provider_governed)

text \<open>Everything that holds when the model runs, from the request on.\<close>

definition invocation_run ::
  "'w GovernedInvokeDependencies \<Rightarrow> runtime_env \<Rightarrow> GovernedInvokeRequest \<Rightarrow> invocation \<Rightarrow>
     'w session \<Rightarrow> (receipt_error + GovernedInvokeResult) \<times> 'w session \<Rightarrow> bool" where
  "invocation_run deps rt q iv s out \<longleftrightarrow>
     (let preR = evaluatePolicy (rt_lower rt) (rt_toFixed4 rt) (i_policy iv) (eval_context Pre_retrieval q None None None)
      in decision preR \<in> {ALLOW, RECEIPT_ONLY, MODIFY, REDACT} \<and> context_run deps rt q iv preR s out)"

lemma decide_retrieval_governed:
  "halted s (decide_retrieval deps rt q iv s) \<or> invocation_run deps rt q iv s (decide_retrieval deps rt q iv s)"
proof -
  define preR where "preR = evaluatePolicy (rt_lower rt) (rt_toFixed4 rt) (i_policy iv) (eval_context Pre_retrieval q None None None)"
  show ?thesis
    using retrieve_context_governed [of deps rt q iv preR s]
    by (simp add: decide_retrieval_def invocation_run_def governed_def Let_def block_halted status_for_blocking flip: preR_def)
qed

definition admission :: "'w GovernedInvokeDependencies \<Rightarrow> runtime_env \<Rightarrow> GovernedInvokeRequest \<Rightarrow> invocation \<Rightarrow> 'w session \<Rightarrow> bool" where
  "admission deps rt q iv s \<longleftrightarrow>
     (let i = i_identity iv in
      check_identity q = Inr i
      \<and> normalizeExecutionNonce (q_executionNonce q) (id_requestId i) = Inr (i_nonce iv)
      \<and> (case d_modelAllowlist deps of None \<Rightarrow> True | Some l \<Rightarrow> assertModelAllowed (q_modelId q) l = Inr ())
      \<and> (\<exists>policies. fst (d_loadPolicies deps (id_tenantId i) (id_userId i) (id_role i) (s_world s)) = Inr policies
           \<and> compilePolicySet (sha256 (rt_env rt)) policies = Inr (i_policy iv)))"

lemma invocation_run_after:
  "reaches deps s s1 \<Longrightarrow> invocation_run deps rt q iv s1 out \<Longrightarrow> invocation_run deps rt q iv s out"
  using context_run_after by (simp only: invocation_run_def Let_def) blast

lemma reject_early_halted: "halted s (reject_early deps i t u q d e ms s)"
  by (rule blocked_halted [OF reject_early_blocked])

lemma admit_outcome:
  fixes deps rt q now th uh sh dig i s
  assumes "check_identity q = Inr i"
  defines "out \<equiv> admit deps rt q now th uh sh dig i s"
  shows "halted s out \<or> (\<exists>iv. i_tenantIdHash iv = th \<and> admission deps rt q iv s \<and> invocation_run deps rt q iv s out)"
proof (cases "normalizeExecutionNonce (q_executionNonce q) (id_requestId i)")
  case (Inl e)
  then show ?thesis by (simp add: out_def admit_def Let_def reject_early_halted)
next
  case (Inr nonce)
  show ?thesis
  proof (cases "case d_modelAllowlist deps of None \<Rightarrow> False | Some l \<Rightarrow> assertModelAllowed (q_modelId q) l \<noteq> Inr ()")
    case True
    then show ?thesis using Inr by (simp only: out_def admit_def Let_def sum.case if_True reject_early_halted simp_thms)
  next
    case False
    obtain a s1 where p: "perform (CallLoadPolicies (id_tenantId i) (id_userId i) (id_role i))
        (d_loadPolicies deps (id_tenantId i) (id_userId i) (id_role i)) s = (a, s1)" by fastforce
    have s1: "reaches deps s s1" by (rule reaches_perform [OF p]) (simp_all add: stable_keeps(1))
    note early = reaches_halted [OF s1 reject_early_halted]
    show ?thesis
    proof (cases a)
      case (Inl why)
      then show ?thesis using \<open>normalizeExecutionNonce _ _ = Inr nonce\<close> False p early by (simp add: out_def admit_def Let_def)
    next
      case load: (Inr policies)
      show ?thesis
      proof (cases "compilePolicySet (sha256 (rt_env rt)) policies")
        case (Inl e)
        then show ?thesis using \<open>normalizeExecutionNonce _ _ = Inr nonce\<close> False p early load by (simp add: out_def admit_def Let_def)
      next
        case policy: (Inr pol)
        let ?iv = "\<lparr>i_now = now, i_tenantIdHash = th, i_userIdHash = uh, i_sessionIdHash = sh,
          i_inputDigest = dig, i_identity = i, i_nonce = nonce, i_policy = pol\<rparr>"
        have "out = decide_retrieval deps rt q ?iv s1"
          using Inr False p load policy by (simp add: out_def admit_def Let_def)
        moreover have "admission deps rt q ?iv s"
          using Inr False assms(1) perform_result(2) [OF p] load policy by (auto simp: admission_def Let_def split: option.splits)
        ultimately show ?thesis
          using decide_retrieval_governed [of s1 deps rt q ?iv] reaches_halted [OF s1] invocation_run_after [OF s1, of rt q ?iv]
          by (metis invocation.select_convs(2))
      qed
    qed
  qed
qed

lemma governedInvoke_outcome:
  fixes deps rt clock q s
  defines "out \<equiv> governedInvoke deps rt clock q s"
  shows "halted s out \<or>
    (\<exists>iv. identity_digest (rt_env rt) (or_default DEFAULT_DECISION_RECEIPT_HMAC_SECRET (d_identityDigestSecret deps)) (q_tenantId q)
         = Inr (i_tenantIdHash iv)
       \<and> admission deps rt q iv s \<and> invocation_run deps rt q iv s out)"
proof -
  have halt: "halted s (Inl e, s)" for e by (simp add: halted_def)
  show ?thesis
    unfolding out_def governedInvoke_def Let_def
    by (auto simp: halt reject_early_halted split: sum.split) (metis admit_outcome)
qed

subsection \<open>The guarantees of an invocation\<close>

definition fresh :: "'w \<Rightarrow> 'w session" where
  "fresh w = \<lparr>s_world = w, s_calls = []\<rparr>"

definition calls_of :: "'w GovernedInvokeDependencies \<Rightarrow> runtime_env \<Rightarrow> jstr \<Rightarrow> GovernedInvokeRequest \<Rightarrow> 'w \<Rightarrow> call list" where
  "calls_of deps rt clock q w = s_calls (snd (governedInvoke deps rt clock q (fresh w)))"

text \<open>The contexts an invocation admits, their digests and the decision before retrieval.\<close>

definition pre_retrieval :: "runtime_env \<Rightarrow> GovernedInvokeRequest \<Rightarrow> invocation \<Rightarrow> PolicyDecision" where
  "pre_retrieval rt q iv = evaluatePolicy (rt_lower rt) (rt_toFixed4 rt) (i_policy iv) (eval_context Pre_retrieval q None None None)"

definition admitted_contexts ::
  "runtime_env \<Rightarrow> GovernedInvokeRequest \<Rightarrow> invocation \<Rightarrow> RetrievedContextCandidate list \<Rightarrow> RetrievalFilterResult" where
  "admitted_contexts rt q iv cs = filterRetrievedContext (rt_lower rt) (id_tenantId (i_identity iv)) cs (Some (pre_retrieval rt q iv))"

definition post_model ::
  "runtime_env \<Rightarrow> GovernedInvokeRequest \<Rightarrow> invocation \<Rightarrow> RetrievalFilterResult \<Rightarrow> ModelInvokeOutput \<Rightarrow> PolicyDecision" where
  "post_model rt q iv ret x = evaluatePolicy (rt_lower rt) (rt_toFixed4 rt) (i_policy iv)
     (eval_context Post_model q (Some (mo_outputText x)) (Some ret) None)"

lemma governedInvoke_cases:
  fixes deps rt clock q w
  obtains (halted) "list_all gathers (calls_of deps rt clock q w)"
      "\<And>r. fst (governedInvoke deps rt clock q (fresh w)) = Inr r \<Longrightarrow> withheld r"
  | (ran) iv cs s0 ret digests inp answer w1 rest r where
      "identity_digest (rt_env rt) (or_default DEFAULT_DECISION_RECEIPT_HMAC_SECRET (d_identityDigestSecret deps)) (q_tenantId q)
         = Inr (i_tenantIdHash iv)"
      "admission deps rt q iv (fresh w)" "decision (pre_retrieval rt q iv) \<in> {ALLOW, RECEIPT_ONLY, MODIFY, REDACT}"
      "\<not> list_ex (cross_tenant (id_tenantId (i_identity iv))) cs" "ret = admitted_contexts rt q iv cs"
      "model_decided deps rt q iv ret" "list_all gathers (s_calls s0)" "reserved_before deps iv (fresh w) s0"
      "digests = sort_by (\<le>) (map ctx_digest (f_allowed ret))"
      "inp = model_input q iv ret digests" "d_invoke deps inp (s_world s0) = (answer, w1)"
      "calls_of deps rt clock q w = s_calls s0 @ CallInvoke inp # rest"
      "fst (governedInvoke deps rt clock q (fresh w)) = Inr r"
      "\<And>I. stable_world I deps \<Longrightarrow> I (s_world s0) \<Longrightarrow> I (s_world (snd (governedInvoke deps rt clock q (fresh w))))"
      "case answer of Inl _ \<Rightarrow> list_all reports rest \<and> withheld r
        | Inr x \<Rightarrow> list_all (\<lambda>c. reports c \<or> vault_permitted rt q iv (post_model rt q iv ret x) c) rest
            \<and> released (post_model rt q iv ret x) (mo_outputText x) r"
proof -
  let ?out = "governedInvoke deps rt clock q (fresh w)"
  show thesis
  proof (cases "halted (fresh w) ?out")
    case True
    then show thesis by (intro halted) (auto simp: halted_def extends_def calls_of_def fresh_def)
  next
    case False
    then obtain iv where iv: "identity_digest (rt_env rt)
        (or_default DEFAULT_DECISION_RECEIPT_HMAC_SECRET (d_identityDigestSecret deps)) (q_tenantId q) = Inr (i_tenantIdHash iv)"
      "admission deps rt q iv (fresh w)" and run: "invocation_run deps rt q iv (fresh w) ?out"
      using governedInvoke_outcome by blast
    then obtain cs s0 where dec: "decision (pre_retrieval rt q iv) \<in> {ALLOW, RECEIPT_ONLY, MODIFY, REDACT}"
      "\<not> list_ex (cross_tenant (id_tenantId (i_identity iv))) cs" "model_decided deps rt q iv (admitted_contexts rt q iv cs)"
      and s0: "reserved_before deps iv (fresh w) s0"
      and m: "model_run deps rt q iv (admitted_contexts rt q iv cs)
        (sort_by (\<le>) (map ctx_digest (f_allowed (admitted_contexts rt q iv cs)))) s0 ?out"
      unfolding invocation_run_def context_run_def Let_def pre_retrieval_def [symmetric] admitted_contexts_def [symmetric] by blast
    have g: "list_all gathers (s_calls s0)" using reserved_reaches [OF s0] by (auto simp: reaches_def extends_def fresh_def)
    obtain answer w1 rest where d: "d_invoke deps (model_input q iv (admitted_contexts rt q iv cs)
          (sort_by (\<le>) (map ctx_digest (f_allowed (admitted_contexts rt q iv cs))))) (s_world s0) = (answer, w1)"
      and c: "calls_of deps rt clock q w = s_calls s0 @ CallInvoke (model_input q iv (admitted_contexts rt q iv cs)
          (sort_by (\<le>) (map ctx_digest (f_allowed (admitted_contexts rt q iv cs))))) # rest"
      and i: "\<forall>I. stable_world I deps \<and> I (s_world s0) \<longrightarrow> I (s_world (snd ?out))"
      and r: "case answer of Inl _ \<Rightarrow> list_all reports rest \<and> (\<exists>r. fst ?out = Inr r \<and> withheld r)
        | Inr x \<Rightarrow> list_all (\<lambda>c. reports c \<or> vault_permitted rt q iv (post_model rt q iv (admitted_contexts rt q iv cs) x) c) rest
            \<and> (\<exists>r. fst ?out = Inr r \<and> released (post_model rt q iv (admitted_contexts rt q iv cs) x) (mo_outputText x) r)"
      using m unfolding model_run_def Let_def post_model_def [symmetric] calls_of_def by blast
    obtain res where o: "fst ?out = Inr res" and a: "case answer of Inl _ \<Rightarrow> list_all reports rest \<and> withheld res
        | Inr x \<Rightarrow> list_all (\<lambda>c. reports c \<or> vault_permitted rt q iv (post_model rt q iv (admitted_contexts rt q iv cs) x) c) rest
            \<and> released (post_model rt q iv (admitted_contexts rt q iv cs) x) (mo_outputText x) res"
      using r by (cases answer) auto
    show thesis
      by (rule ran [OF iv dec(1,2) refl dec(3) g s0 refl refl d c o _ a]) (use i in blast)
  qed
qed

lemma check_identity_tenant: "check_identity q = Inr i \<Longrightarrow> id_tenantId i = q_pathTenantId q"
  by (auto simp: check_identity_def resolveIdentity_def split: sum.splits if_splits)

lemma no_model_call:
  shows "list_all gathers cs \<Longrightarrow> CallInvoke inp \<notin> set cs" and "list_all gathers cs \<Longrightarrow> CallVaultWrite m d c \<notin> set cs"
    and "list_all reports cs \<Longrightarrow> CallInvoke inp \<notin> set cs" and "list_all reports cs \<Longrightarrow> CallVaultWrite m d c \<notin> set cs"
    and "list_all (\<lambda>c. reports c \<or> vault_permitted rt q iv post c) cs \<Longrightarrow> CallInvoke inp \<notin> set cs"
  by (auto simp: list_all_iff vault_permitted_def reports_def)

subsection \<open>A complete invocation\<close>

text \<open>
  A request with a memory write, one policy source that allows everything, and dependencies that
  answer at once; the nonce store is the in-memory one.
\<close>

definition permissive_policy :: PolicySource where
  "permissive_policy = \<lparr>policyId = js ''p0'', policy_version = js ''v0'', policy_layer = Default, source_defaultDecision = ALLOW,
     source_unknownRiskDecision = REFUSE, source_rules = []\<rparr>"

definition memory_reserve ::
  "(jstr \<Rightarrow> jstr) \<Rightarrow> ExecutionNonceReservation \<Rightarrow> InMemoryExecutionNonceStore \<Rightarrow>
     (ReservationFailure + ReservationOutcome) \<times> InMemoryExecutionNonceStore" where
  "memory_reserve h r st =
     (case reserve h r st of
        (Inl e, st') \<Rightarrow> (Inl \<lparr>rf_replay = (e = ExecutionNonceReplayError), rf_message = js ''nonce''\<rparr>, st')
      | (Inr x, st') \<Rightarrow> (Inr x, st'))"

definition sample_deps :: "InMemoryExecutionNonceStore GovernedInvokeDependencies" where
  "sample_deps = \<lparr>d_loadPolicies = \<lambda>_ _ _ w. (Inr [permissive_policy], w),
     d_invoke = \<lambda>_ w. (Inr \<lparr>mo_outputText = js ''ok'', mo_latencyMs = Zero False, mo_costEstimateUsd = None\<rparr>, w),
     d_vaultWrite = \<lambda>_ _ _ w. (Inr \<lparr>mw_written = True, mw_reason = [], mw_record = None\<rparr>, w),
     d_emit = \<lambda>_ w. (Inr (js ''r''), w), d_identityDigestSecret = None, d_modelAllowlist = Some [js ''m''],
     d_retrieve = None, d_rejectCallerSuppliedContexts = True, d_requireProviderWhenEnabled = True,
     d_allowTaintedDigestOnly = False, d_metrics = None, d_stage = None,
     d_reserve = Some (memory_reserve sample_digest), d_emitV2 = None, d_transitRecords = None\<rparr>"

definition sample_rt :: runtime_env where
  "sample_rt = \<lparr>rt_env = \<lparr>sha256 = \<lambda>_. js ''h'', hmac = \<lambda>_ _. js ''k'', zod_datetime = \<lambda>_. True, date_parse = \<lambda>_. Some 0\<rparr>,
     rt_lower = id, rt_toFixed4 = id, rt_policyMessage = \<lambda>_. []\<rparr>"

definition sample_request :: GovernedInvokeRequest where
  "sample_request = \<lparr>q_pathTenantId = js ''t'', q_body = JObj [], q_tenantId = js ''t'', q_userId = js ''u'', q_role = None,
     q_sessionId = Some (js ''s''), q_requestId = Some (js ''request-1''), q_source = Jwt, q_modelId = js ''m'', q_temperature = None,
     q_maxTokens = None, q_text = js ''hi'', q_contentDigest = None, q_retrievalEnabled = False, q_contexts = None,
     q_memoryWrite = Some \<lparr>rm_tier = SESSION, rm_contentDigest = js ''c'', rm_classificationTags = [], rm_expiresAt = None\<rparr>, q_consentState = None, q_executionNonce = Some (js ''nonce-0001''), q_now = None\<rparr>"


fun is_model_call :: "call \<Rightarrow> bool" where
  "is_model_call (CallInvoke _) = True"
| "is_model_call _ = False"

fun is_vault_call :: "call \<Rightarrow> bool" where
  "is_vault_call (CallVaultWrite _ _ _) = True"
| "is_vault_call _ = False"

lemma call_kinds: "is_model_call c \<longleftrightarrow> (\<exists>inp. c = CallInvoke inp)" "is_vault_call c \<longleftrightarrow> (\<exists>req d k. c = CallVaultWrite req d k)"
  by (cases c; simp)+

lemma sample_run:
  "case governedInvoke sample_deps sample_rt [] sample_request (fresh []) of
     (Inl _, _) \<Rightarrow> False
   | (Inr r, s) \<Rightarrow> g_status r = Completed \<and> g_responseText r = Some (js ''ok'') \<and> s_world s \<noteq> []
       \<and> list_ex is_model_call (s_calls s)
       \<and> list_ex is_vault_call (s_calls s)"
  by code_simp

lemma sample_calls:
  obtains inp req d c r where "CallInvoke inp \<in> set (calls_of sample_deps sample_rt [] sample_request [])"
    "CallVaultWrite req d c \<in> set (calls_of sample_deps sample_rt [] sample_request [])"
    "fst (governedInvoke sample_deps sample_rt [] sample_request (fresh [])) = Inr r" "g_status r = Completed"
  using sample_run
  by (auto simp: calls_of_def list_ex_iff call_kinds split: prod.splits sum.splits)

subsection \<open>What holds of every invocation\<close>








end
