(* ===== verification/Governed_Replay.thy ===== *)
theory Governed_Replay
  imports Governed_Properties
begin

text \<open>
  Sequences of governed invocations that share an execution nonce store: a nonce lets the model be
  called once.
\<close>

subsection \<open>Sequences of invocations over one nonce store\<close>

text \<open>The tenant hash and the nonce an invocation reserves.\<close>

definition replay_key :: "'w GovernedInvokeDependencies \<Rightarrow> runtime_env \<Rightarrow> GovernedInvokeRequest \<Rightarrow> (jstr \<times> jstr) option" where
  "replay_key deps rt q =
     (case (identity_digest (rt_env rt) (or_default DEFAULT_DECISION_RECEIPT_HMAC_SECRET (d_identityDigestSecret deps)) (q_tenantId q),
            check_identity q) of
        (Inr t, Inr i) \<Rightarrow> (case normalizeExecutionNonce (q_executionNonce q) (id_requestId i) of Inr n \<Rightarrow> Some (t, n) | Inl _ \<Rightarrow> None)
      | _ \<Rightarrow> None)"

text \<open>The calls of each invocation of a sequence, run one after the other.\<close>

fun run_all ::
  "'w GovernedInvokeDependencies \<Rightarrow> runtime_env \<Rightarrow> (jstr \<times> GovernedInvokeRequest) list \<Rightarrow> 'w \<Rightarrow> (GovernedInvokeRequest \<times> call list) list" where
  "run_all deps rt [] w = []"
| "run_all deps rt ((clock, q) # qs) w =
     (q, calls_of deps rt clock q w) # run_all deps rt qs (s_world (snd (governedInvoke deps rt clock q (fresh w))))"

definition model_calls_for ::
  "'w GovernedInvokeDependencies \<Rightarrow> runtime_env \<Rightarrow> jstr \<times> jstr \<Rightarrow> (GovernedInvokeRequest \<times> call list) list \<Rightarrow> nat" where
  "model_calls_for deps rt k runs = length (filter (\<lambda>(q, cs). replay_key deps rt q = Some k \<and> list_ex is_model_call cs) runs)"

lemma replay_key_admission:
  assumes "identity_digest (rt_env rt) (or_default DEFAULT_DECISION_RECEIPT_HMAC_SECRET (d_identityDigestSecret deps)) (q_tenantId q)
      = Inr (i_tenantIdHash iv)" and "admission deps rt q iv s"
  shows "replay_key deps rt q = Some (i_tenantIdHash iv, i_nonce iv)"
  using assms by (simp add: replay_key_def admission_def Let_def)

locale replay_guard = nonce_store store_reserve used
  for store_reserve :: "ExecutionNonceReservation \<Rightarrow> 's \<Rightarrow> (nonce_error + ReservationOutcome) \<times> 's" and used +
  fixes deps :: "'w GovernedInvokeDependencies" and view :: "'w \<Rightarrow> 's"
    and res :: "ExecutionNonceReservation \<Rightarrow> 'w \<Rightarrow> (ReservationFailure + ReservationOutcome) \<times> 'w"
  assumes reserves: "d_reserve deps = Some res"
    and reserved_through: "fst (res r w) = Inr RESERVED \<Longrightarrow> fst (store_reserve r (view w)) = Inr RESERVED"
    and store_after: "view (snd (res r w)) = snd (store_reserve r (view w))"
    and store_private: "stable_world (\<lambda>w. view w = st) (deps\<lparr>d_reserve := None\<rparr>)"
begin

lemma used_stable: "stable_world (\<lambda>w. used t n (view w)) deps"
proof (rule stable_reserving [OF _ reserves])
  show "stable_world (\<lambda>w. used t n (view w)) (deps\<lparr>d_reserve := None\<rparr>)"
    using stable_view [where P = "used t n", OF store_private] .
  show "keeps (\<lambda>w. used t n (view w)) (res r)" for r
    by (simp add: keeps_def store_after used_persists)
qed

lemma used_persists_run:
  "used t n (view w) \<Longrightarrow> used t n (view (s_world (snd (governedInvoke deps rt clock q (fresh w)))))"
  using stable_governedInvoke [OF used_stable, of t n "fresh w"] by (simp add: fresh_def)

lemma model_call_uses:
  assumes "list_ex is_model_call (calls_of deps rt clock q w)"
  obtains t n where "replay_key deps rt q = Some (t, n)" "\<not> used t n (view w)"
    "used t n (view (s_world (snd (governedInvoke deps rt clock q (fresh w)))))"
proof (cases rule: governedInvoke_cases [of deps rt clock q w])
  case halted
  then show thesis using assms no_model_call(1) by (auto simp: list_ex_iff call_kinds)
next
  case (ran iv cs s0 ret digests inp answer w1 rest r)
  obtain rv s1 where rv: "n_tenantIdHash rv = i_tenantIdHash iv" "n_nonce rv = i_nonce iv"
    and s1: "reaches deps (fresh w) s1" and p: "perform (CallReserve rv) (res rv) s1 = (Inr RESERVED, s0)"
    using ran(8) reserves by (auto simp: reserved_before_def)
  define t n where "t = i_tenantIdHash iv" and "n = i_nonce iv"
  have r: "res rv (s_world s1) = (Inr RESERVED, s_world s0)" using perform_result(2) [OF p] .
  then have r': "store_reserve rv (view (s_world s1)) = (Inr RESERVED, view (s_world s0))"
    using reserved_through [of rv "s_world s1"] store_after [of rv "s_world s1"] by (metis fst_conv snd_conv prod.collapse)
  have "\<not> used t n (view (s_world s1))" using used_refused [of rv "view (s_world s1)"] r' rv by (auto simp: t_def n_def)
  then have "\<not> used t n (view w)" using s1 used_stable [of t n] by (auto simp: reaches_def fresh_def)
  moreover have "used t n (view (s_world (snd (governedInvoke deps rt clock q (fresh w)))))"
    using ran(14) [OF used_stable [of t n]] reserved_marks [OF r'] rv by (simp add: t_def n_def)
  ultimately show thesis
    using that replay_key_admission [OF ran(1,2)] by (simp add: t_def n_def)
qed

lemma none_after: "used t n (view w) \<Longrightarrow> model_calls_for deps rt (t, n) (run_all deps rt qs w) = 0"
proof (induction qs arbitrary: w)
  case (Cons cq qs)
  obtain clock q where cq: "cq = (clock, q)" by fastforce
  have "\<not> (replay_key deps rt q = Some (t, n) \<and> list_ex is_model_call (calls_of deps rt clock q w))"
    using model_call_uses [of rt clock q w] Cons.prems by (metis option.inject prod.inject)
  then show ?case
    using Cons.IH [OF used_persists_run [OF Cons.prems]] by (simp add: cq model_calls_for_def)
qed (simp add: model_calls_for_def)

lemma called_at_most_once: "model_calls_for deps rt k (run_all deps rt qs w) \<le> 1"
proof (induction qs arbitrary: w)
  case (Cons cq qs)
  obtain clock q where cq: "cq = (clock, q)" by fastforce
  show ?case
  proof (cases "replay_key deps rt q = Some k \<and> list_ex is_model_call (calls_of deps rt clock q w)")
    case True
    obtain t n where "k = (t, n)" "used t n (view (s_world (snd (governedInvoke deps rt clock q (fresh w)))))"
      using model_call_uses [of rt clock q w] True by (metis option.inject)
    then show ?thesis using none_after by (simp add: cq model_calls_for_def)
  next
    case False
    then show ?thesis using Cons.IH by (auto simp: cq model_calls_for_def)
  qed
qed (simp add: model_calls_for_def)

end

text \<open>
  Any dependencies with the in-memory nonce store: the store is a part of the world of its own, which
  only the reservation reads and writes.
\<close>

definition beside :: "('v \<Rightarrow> 'a \<times> 'v) \<Rightarrow> 's \<times> 'v \<Rightarrow> 'a \<times> 's \<times> 'v" where
  "beside f w = (let (a, v) = f (snd w) in (a, (fst w, v)))"

definition store_reservation ::
  "(jstr \<Rightarrow> jstr) \<Rightarrow> ExecutionNonceReservation \<Rightarrow> InMemoryExecutionNonceStore \<times> 'v \<Rightarrow>
     (ReservationFailure + ReservationOutcome) \<times> InMemoryExecutionNonceStore \<times> 'v" where
  "store_reservation h r w = (let (a, st) = memory_reserve h r (fst w) in (a, (st, snd w)))"

definition with_memory_store ::
  "(jstr \<Rightarrow> jstr) \<Rightarrow> 'v GovernedInvokeDependencies \<Rightarrow> (InMemoryExecutionNonceStore \<times> 'v) GovernedInvokeDependencies" where
  "with_memory_store h deps =
     \<lparr>d_loadPolicies = \<lambda>t u r. beside (d_loadPolicies deps t u r), d_invoke = \<lambda>i. beside (d_invoke deps i),
      d_vaultWrite = \<lambda>r d c. beside (d_vaultWrite deps r d c), d_emit = \<lambda>e. beside (d_emit deps e),
      d_identityDigestSecret = d_identityDigestSecret deps, d_modelAllowlist = d_modelAllowlist deps,
      d_retrieve = map_option (\<lambda>f t u p r. beside (f t u p r)) (d_retrieve deps),
      d_rejectCallerSuppliedContexts = d_rejectCallerSuppliedContexts deps,
      d_requireProviderWhenEnabled = d_requireProviderWhenEnabled deps, d_allowTaintedDigestOnly = d_allowTaintedDigestOnly deps,
      d_metrics = map_option (\<lambda>f m w. (fst w, f m (snd w))) (d_metrics deps), d_stage = d_stage deps,
      d_reserve = Some (store_reservation h), d_emitV2 = map_option (\<lambda>f e t. beside (f e t)) (d_emitV2 deps),
      d_transitRecords = map_option (\<lambda>f w. f (snd w)) (d_transitRecords deps)\<rparr>"

lemma memory_reserve_result:
  "fst (memory_reserve h r st) = Inr RESERVED \<longleftrightarrow> fst (reserve h r st) = Inr RESERVED" "snd (memory_reserve h r st) = snd (reserve h r st)"
  by (auto simp: memory_reserve_def split: prod.splits sum.splits)

lemma beside_keeps: "keeps (\<lambda>w. fst w = st) (beside f)"
  by (simp add: keeps_def beside_def split: prod.split)

interpretation governed_store:
  replay_guard "reserve h" "nonce_used h" "with_memory_store h deps" fst "store_reservation h" for h deps
proof (unfold_locales, goal_cases)
  case 1
  show ?case by (simp add: with_memory_store_def)
next
  case (2 r w)
  then show ?case by (simp add: store_reservation_def memory_reserve_result flip: memory_reserve_result split: prod.splits)
next
  case (3 r w)
  show ?case by (simp add: store_reservation_def flip: memory_reserve_result split: prod.split)
next
  case (4 st)
  show ?case by (auto simp: stable_world_def with_memory_store_def beside_keeps)
qed

text \<open>
  Claim C6. A nonce lets the model be called once: with the in-memory nonce store and any other
  dependencies, in any sequence of invocations and from any state of the store, at most one of those that
  carry the same tenant and execution nonce calls the model.
\<close>

theorem replayed_nonce_never_reaches_model:
  "model_calls_for (with_memory_store h deps) rt k (run_all (with_memory_store h deps) rt qs w) \<le> 1"
  by (rule governed_store.called_at_most_once)

end
