(* ===== verification/Governed_Receipts.thy ===== *)
theory Governed_Receipts
  imports Governed_Properties
begin

text \<open>
  How often an invocation emits a receipt: once exactly when its result says so.
\<close>

definition emitted_once :: "'w session \<Rightarrow> (receipt_error + GovernedInvokeResult) \<times> 'w session \<Rightarrow> bool" where
  "emitted_once s out \<longleftrightarrow>
     emits (s_calls (snd out)) =
       emits (s_calls s) + (case fst out of Inl _ \<Rightarrow> 0 | Inr r \<Rightarrow> if rs_attempted (g_receipt r) then 1 else 0)"

fun emits_receipt :: "call \<Rightarrow> bool" where
  "emits_receipt (CallEmit _) = True"
| "emits_receipt _ = False"

lemma emits_filter: "emits cs = length (filter emits_receipt cs)"
proof -
  have "(\<lambda>c. case c of CallEmit _ \<Rightarrow> True | _ \<Rightarrow> False) = emits_receipt"
    by (auto simp: fun_eq_iff split: call.split)
  then show ?thesis by (simp add: emits_def)
qed

lemma emits_perform:
  "perform c f s = (a, s') \<Longrightarrow> emits (s_calls s') = emits (s_calls s) + (if emits_receipt c then 1 else 0)"
  using perform_result(1) [of c f s a s'] by (simp add: emits_filter)

lemma emits_finalizeResult: "emits (s_calls (snd (finalizeResult deps r ms s))) = emits (s_calls s)"
  using finalizeResult_result(2) [of s deps r ms] emits_metrics by (auto simp: extends_def)

lemma emits_emitReceiptV2Layer:
  "emitReceiptV2Layer deps b e s = (x, s') \<Longrightarrow> emits (s_calls s') = emits (s_calls s)"
  by (auto simp: emitReceiptV2Layer_def Let_def split: option.splits if_splits prod.splits sum.splits dest: emits_perform)

lemma emits_emitReceipt:
  assumes "emitReceipt deps b e s = (x, s')"
  shows "emits (s_calls s') = Suc (emits (s_calls s))"
proof -
  obtain a s1 where p: "perform (CallEmit e) (d_emit deps e) s = (a, s1)" by fastforce
  show ?thesis
    using assms p emits_perform [OF p]
    by (cases a) (auto simp: emitReceipt_def split: prod.splits option.splits if_splits dest: emits_emitReceiptV2Layer)
qed

lemma attempted_simps [simp]:
  "rs_attempted (receipt_summary x)" "\<not> rs_attempted (g_receipt (baseResult i t u m st d))"
  by (simp_all add: receipt_summary_def baseResult_def)

lemma emitted_once_error [simp]: "emitted_once s (Inl e, s)"
  by (simp add: emitted_once_def)

lemma emitted_once_after:
  "emits (s_calls s1) = emits (s_calls s) \<Longrightarrow> emitted_once s1 out \<Longrightarrow> emitted_once s out"
  by (simp add: emitted_once_def)

lemma emitted_once_finalize:
  "emitReceipt deps b e s = (x, s1) \<Longrightarrow> rs_attempted (g_receipt r) \<Longrightarrow> emitted_once s (finalizeResult deps r ms s1)"
  by (simp add: emitted_once_def finalizeResult_result(1) emits_finalizeResult emits_emitReceipt)

lemma emitted_once_early: "emitted_once s (reject_early deps i t u q d e ms s)"
  by (simp add: emitted_once_def reject_early_def finalizeResult_result(1) emits_finalizeResult)

lemma emitted_once_block: "emitted_once s (block_before_model deps q iv preR d digests ch status errors ms s)"
  by (auto simp: block_before_model_def split: sum.split prod.split intro!: emitted_once_finalize)

lemma emitted_once_finish:
  "emitted_once s (finish deps q iv preR digests ch pre post lat cost status resp red md mr s)"
  by (auto simp: finish_def Let_def split: sum.split prod.split intro!: emitted_once_finalize)

lemma emitted_once_perform:
  "perform c f s = (a, s1) \<Longrightarrow> \<not> emits_receipt c \<Longrightarrow> emitted_once s1 out \<Longrightarrow> emitted_once s out"
  by (rule emitted_once_after) (simp_all add: emits_perform)

lemma emitted_once_remember:
  "emitted_once s (remember deps rt q iv preR ret digests ch pre post otext lat cost status resp red s)"
  by (auto simp: remember_def Let_def emitted_once_finish split: option.split sum.split prod.split
      intro!: emitted_once_finalize elim!: emitted_once_perform)

lemma emitted_once_call_model: "emitted_once s (call_model deps rt q iv preR ret digests ch pre s)"
  by (auto simp: call_model_def after_model_def Let_def emitted_once_remember split: sum.split prod.split
      intro!: emitted_once_finalize elim!: emitted_once_perform)

lemma emitted_once_reserve_nonce: "emitted_once s (reserve_nonce deps rt q iv preR ret digests pre s)"
  by (auto simp: reserve_nonce_def Let_def emitted_once_call_model emitted_once_block
      split: option.split sum.split prod.split ReservationOutcome.split elim!: emitted_once_perform)

lemma emitted_once_filter_context: "emitted_once s (filter_context deps rt q iv preR cs s)"
  by (simp add: filter_context_def decide_model_def Let_def emitted_once_block emitted_once_reserve_nonce)

lemma emitted_once_retrieve_context: "emitted_once s (retrieve_context deps rt q iv preR s)"
  by (auto simp: retrieve_context_def ask_provider_def block_retrieval_def Let_def emitted_once_block emitted_once_filter_context
      split: option.split sum.split prod.split elim!: emitted_once_perform)

lemma emitted_once_admit: "emitted_once s (admit deps rt q now th uh sh dig i s)"
  by (auto simp: admit_def decide_retrieval_def Let_def emitted_once_early emitted_once_block emitted_once_retrieve_context
      split: option.split sum.split prod.split elim!: emitted_once_perform)

text \<open>
  Claim C32. An invocation emits one receipt or none, and its result says which: the number of v1 receipt emissions
  is one when the result reports an attempted receipt and none otherwise, also when the execution
  context cannot be hashed and the invocation raises.
\<close>

theorem one_receipt_per_invocation:
  "emits (calls_of deps rt clock q w) =
     (case fst (governedInvoke deps rt clock q (fresh w)) of Inl _ \<Rightarrow> 0 | Inr r \<Rightarrow> if rs_attempted (g_receipt r) then 1 else 0)"
proof -
  have "emitted_once (fresh w) (governedInvoke deps rt clock q (fresh w))"
    by (auto simp: governedInvoke_def Let_def emitted_once_early emitted_once_admit split: sum.split)
  then show ?thesis by (simp add: emitted_once_def calls_of_def fresh_def emits_def)
qed

end
