(* ===== verification/Key_Manifest.thy ===== *)
theory Key_Manifest
  imports Receipt_Chain
begin

text \<open>
  The key manifest, \<open>receipts/keyManifest.ts\<close> of \<open>packages/enforcement-runtime/src\<close>: which key may have signed a
  receipt at its timestamp, and which key may sign now. Reading the manifest from a file is not
  modelled; messages are constructors.
\<close>

datatype KeyStatus = ACTIVE | DEPRECATED | REVOKED

record KeyManifestEntry =
  k_keyId :: jstr
  k_algorithm :: jstr
  k_publicKeyPem :: "jstr option"
  k_validFrom :: jstr
  k_validUntil :: "jstr option"
  k_status :: KeyStatus
  k_revokedAt :: "jstr option"
  k_reason :: "jstr option"

record KeyManifest =
  km_schemaVersion :: jstr
  km_generatedAt :: jstr
  km_keys :: "KeyManifestEntry list"

definition optional :: "('a \<Rightarrow> bool) \<Rightarrow> 'a option \<Rightarrow> bool" where
  "optional p x = (case x of None \<Rightarrow> True | Some v \<Rightarrow> p v)"

definition keyManifestEntrySchema :: "receipt_env \<Rightarrow> KeyManifestEntry \<Rightarrow> bool" where
  "keyManifestEntrySchema env e \<longleftrightarrow>
     k_keyId e \<noteq> [] \<and> k_algorithm e \<noteq> [] \<and> optional (\<lambda>p. p \<noteq> []) (k_publicKeyPem e)
     \<and> zod_datetime env (k_validFrom e) \<and> optional (zod_datetime env) (k_validUntil e) \<and> optional (zod_datetime env) (k_revokedAt e)"

text \<open>A present and non-empty date, as the code's tests of optional dates take it.\<close>

definition given :: "jstr option \<Rightarrow> jstr option" where
  "given d = (case d of Some (c # s) \<Rightarrow> Some (c # s) | _ \<Rightarrow> None)"

definition date_at_least :: "receipt_env \<Rightarrow> jstr \<Rightarrow> jstr \<Rightarrow> bool" where
  "date_at_least env a b = (case (date_parse env a, date_parse env b) of (Some x, Some y) \<Rightarrow> y \<le> x | _ \<Rightarrow> False)"

definition entry_identity :: "KeyManifestEntry \<Rightarrow> jstr" where
  "entry_identity e = k_keyId e @ js '':'' @ k_algorithm e"

definition entry_dates_ok :: "receipt_env \<Rightarrow> KeyManifestEntry \<Rightarrow> bool" where
  "entry_dates_ok env e \<longleftrightarrow>
     optional (\<lambda>u. \<not> date_at_least env (k_validFrom e) u) (given (k_validUntil e))
     \<and> optional (\<lambda>r. \<not> date_less env r (k_validFrom e)) (given (k_revokedAt e))"

definition keyManifestSchema :: "receipt_env \<Rightarrow> KeyManifest \<Rightarrow> bool" where
  "keyManifestSchema env m \<longleftrightarrow>
     km_schemaVersion m = js ''ghost.key_manifest.v1'' \<and> zod_datetime env (km_generatedAt m) \<and> km_keys m \<noteq> []
     \<and> list_all (keyManifestEntrySchema env) (km_keys m)
     \<and> distinct (map entry_identity (km_keys m)) \<and> list_all (entry_dates_ok env) (km_keys m)"

definition validateKeyManifest :: "receipt_env \<Rightarrow> KeyManifest \<Rightarrow> receipt_error + KeyManifest" where
  "validateKeyManifest env m = (if keyManifestSchema env m then Inr m else Inl SchemaInvalid)"

definition findManifestEntryForKey :: "KeyManifest \<Rightarrow> jstr \<Rightarrow> jstr \<Rightarrow> KeyManifestEntry option" where
  "findManifestEntryForKey m keyId algorithm =
     (case find (\<lambda>e. k_keyId e = keyId \<and> k_algorithm e = algorithm) (km_keys m) of
        Some e \<Rightarrow> Some e
      | None \<Rightarrow> find (\<lambda>e. k_keyId e = keyId) (km_keys m))"

datatype manifest_detail =
    ManifestInvalid | NoManifestEntry | ManifestAlgorithmMismatch | TimestampNotParseable | BeforeValidFrom
  | NotBeforeValidUntil | RevokedWithoutTime | AtOrAfterRevocation | RevokedLater | KeyCurrent KeyStatus
  | SigningNotAuthorized manifest_detail | SigningManifestInvalid | SigningNoEntry | KeyNotActive KeyStatus | ActiveForSigning

record KeyManifestCheck =
  mc_name :: jstr
  mc_passed :: bool
  mc_detail :: manifest_detail

definition epoch_check :: "bool \<Rightarrow> manifest_detail \<Rightarrow> KeyManifestCheck" where
  "epoch_check passed detail = \<lparr>mc_name = js ''key_manifest'', mc_passed = passed, mc_detail = detail\<rparr>"

definition verifyKeyManifestEpoch :: "receipt_env \<Rightarrow> KeyManifest \<Rightarrow> jstr \<Rightarrow> jstr \<Rightarrow> jstr \<Rightarrow> KeyManifestCheck" where
  "verifyKeyManifestEpoch env manifest keyId algorithm timestamp =
     (case validateKeyManifest env manifest of
        Inl _ \<Rightarrow> epoch_check False ManifestInvalid
      | Inr m \<Rightarrow>
          (case findManifestEntryForKey m keyId algorithm of
             None \<Rightarrow> epoch_check False NoManifestEntry
           | Some e \<Rightarrow>
               if k_algorithm e \<noteq> algorithm then epoch_check False ManifestAlgorithmMismatch
               else if date_parse env timestamp = None then epoch_check False TimestampNotParseable
               else if date_less env timestamp (k_validFrom e) then epoch_check False BeforeValidFrom
               else if \<not> optional (\<lambda>u. \<not> date_at_least env timestamp u) (given (k_validUntil e)) then epoch_check False NotBeforeValidUntil
               else if k_status e = REVOKED \<and> given (k_revokedAt e) = None then epoch_check False RevokedWithoutTime
               else if \<not> optional (\<lambda>r. \<not> date_at_least env timestamp r) (given (k_revokedAt e)) then epoch_check False AtOrAfterRevocation
               else epoch_check True (if k_status e = REVOKED then RevokedLater else KeyCurrent (k_status e))))"

definition signing_check :: "bool \<Rightarrow> manifest_detail \<Rightarrow> KeyManifestCheck" where
  "signing_check passed detail = \<lparr>mc_name = js ''key_manifest_signing'', mc_passed = passed, mc_detail = detail\<rparr>"

definition verifyKeyManifestSigningAuthorization ::
  "receipt_env \<Rightarrow> KeyManifest \<Rightarrow> jstr \<Rightarrow> jstr \<Rightarrow> jstr \<Rightarrow> KeyManifestCheck" where
  "verifyKeyManifestSigningAuthorization env manifest keyId algorithm signingTime =
     (let epoch = verifyKeyManifestEpoch env manifest keyId algorithm signingTime in
      if \<not> mc_passed epoch then signing_check False (SigningNotAuthorized (mc_detail epoch))
      else
        (case validateKeyManifest env manifest of
           Inl _ \<Rightarrow> signing_check False SigningManifestInvalid
         | Inr m \<Rightarrow>
             (case findManifestEntryForKey m keyId algorithm of
                None \<Rightarrow> signing_check False SigningNoEntry
              | Some e \<Rightarrow>
                  if k_algorithm e \<noteq> algorithm then signing_check False SigningNoEntry
                  else if k_status e \<noteq> ACTIVE then signing_check False (KeyNotActive (k_status e))
                  else signing_check True ActiveForSigning)))"

subsection \<open>The epoch of a key\<close>

text \<open>The time a key may have signed at: from the start of its validity to its end or its revocation.\<close>

definition in_epoch :: "receipt_env \<Rightarrow> KeyManifestEntry \<Rightarrow> int \<Rightarrow> bool" where
  "in_epoch env e t \<longleftrightarrow>
     (\<exists>from. date_parse env (k_validFrom e) = Some from \<and> from \<le> t)
     \<and> (case k_validUntil e of None \<Rightarrow> True | Some u \<Rightarrow> \<exists>till. date_parse env u = Some till \<and> t < till)
     \<and> (case k_revokedAt e of None \<Rightarrow> k_status e \<noteq> REVOKED | Some r \<Rightarrow> \<exists>till. date_parse env r = Some till \<and> t < till)"

text \<open>What the date-time format check promises: the date is parseable, and not the empty string.\<close>

definition datetimes_parse :: "receipt_env \<Rightarrow> bool" where
  "datetimes_parse env \<longleftrightarrow> (\<forall>s. zod_datetime env s \<longrightarrow> s \<noteq> [] \<and> date_parse env s \<noteq> None)"

lemma given_datetime: "datetimes_parse env \<Longrightarrow> optional (zod_datetime env) d \<Longrightarrow> given d = d"
  by (auto simp: given_def optional_def datetimes_parse_def split: option.splits list.splits)

lemma find_entry:
  assumes "distinct (map entry_identity (km_keys m))"
  shows "(\<exists>e. findManifestEntryForKey m keyId algorithm = Some e \<and> k_algorithm e = algorithm \<and> P e)
    \<longleftrightarrow> (\<exists>e\<in>set (km_keys m). k_keyId e = keyId \<and> k_algorithm e = algorithm \<and> P e)"
proof -
  let ?Q = "\<lambda>e. k_keyId e = keyId \<and> k_algorithm e = algorithm"
  have uniq: "e = e'" if "e \<in> set (km_keys m)" "e' \<in> set (km_keys m)" "?Q e" "?Q e'" for e e'
    using assms that by (auto simp: distinct_map inj_on_def entry_identity_def)
  show ?thesis
  proof (cases "find ?Q (km_keys m)")
    case None
    then have no: "\<not> ?Q e" if "e \<in> set (km_keys m)" for e using that by (auto simp: find_None_iff)
    have "k_algorithm e \<noteq> algorithm" if "find (\<lambda>e. k_keyId e = keyId) (km_keys m) = Some e" for e
      using that no [of e] by (force simp: find_Some_iff)
    then have "\<not> (\<exists>e. findManifestEntryForKey m keyId algorithm = Some e \<and> k_algorithm e = algorithm \<and> P e)"
      by (auto simp: findManifestEntryForKey_def None)
    moreover have "\<not> (\<exists>e\<in>set (km_keys m). k_keyId e = keyId \<and> k_algorithm e = algorithm \<and> P e)" using no by blast
    ultimately show ?thesis by blast
  next
    case (Some e)
    then have "e \<in> set (km_keys m)" "?Q e" by (auto simp: find_Some_iff)
    then show ?thesis using Some uniq by (auto simp: findManifestEntryForKey_def)
  qed
qed

lemma entry_in_epoch:
  assumes "datetimes_parse env" and "keyManifestEntrySchema env e" and "date_parse env ts = Some t"
  shows "\<not> date_less env ts (k_validFrom e) \<and> optional (\<lambda>u. \<not> date_at_least env ts u) (given (k_validUntil e))
      \<and> \<not> (k_status e = REVOKED \<and> given (k_revokedAt e) = None) \<and> optional (\<lambda>r. \<not> date_at_least env ts r) (given (k_revokedAt e))
    \<longleftrightarrow> in_epoch env e t"
proof -
  have g: "given (k_validUntil e) = k_validUntil e" "given (k_revokedAt e) = k_revokedAt e"
    using given_datetime assms(1,2) by (auto simp: keyManifestEntrySchema_def)
  have p: "\<exists>x. date_parse env (k_validFrom e) = Some x" "optional (\<lambda>u. \<exists>x. date_parse env u = Some x) (k_validUntil e)"
    "optional (\<lambda>u. \<exists>x. date_parse env u = Some x) (k_revokedAt e)"
    using assms(1,2) by (auto simp: keyManifestEntrySchema_def datetimes_parse_def optional_def split: option.splits)
  show ?thesis
    using p by (auto simp: g in_epoch_def optional_def date_less_def date_at_least_def assms(3) split: option.splits)
qed

lemma found_entry: "findManifestEntryForKey m k a = Some e \<Longrightarrow> e \<in> set (km_keys m)"
  by (auto simp: findManifestEntryForKey_def find_Some_iff split: option.splits)

lemma verify_epoch_iff:
  assumes "datetimes_parse env"
  shows "mc_passed (verifyKeyManifestEpoch env m k a ts) \<longleftrightarrow> keyManifestSchema env m \<and> (\<exists>t. date_parse env ts = Some t
      \<and> (\<exists>e. findManifestEntryForKey m k a = Some e \<and> k_algorithm e = a \<and> in_epoch env e t))"
proof (cases "keyManifestSchema env m")
  case True
  show ?thesis
  proof (cases "findManifestEntryForKey m k a")
    case None
    then show ?thesis using True by (simp add: verifyKeyManifestEpoch_def validateKeyManifest_def epoch_check_def)
  next
    case (Some e)
    have "keyManifestEntrySchema env e" using True found_entry [OF Some] by (auto simp: keyManifestSchema_def list_all_iff)
    note iff = entry_in_epoch [OF assms this]
    show ?thesis
    proof (cases "date_parse env ts")
      case None
      then show ?thesis using True Some by (simp add: verifyKeyManifestEpoch_def validateKeyManifest_def epoch_check_def)
    next
      case t: (Some t)
      show ?thesis
        using True Some t iff [OF t] by (auto simp: verifyKeyManifestEpoch_def validateKeyManifest_def epoch_check_def)
    qed
  qed
qed (simp add: verifyKeyManifestEpoch_def validateKeyManifest_def epoch_check_def)

definition usable_key :: "receipt_env \<Rightarrow> KeyManifest \<Rightarrow> jstr \<Rightarrow> jstr \<Rightarrow> jstr \<Rightarrow> (KeyManifestEntry \<Rightarrow> bool) \<Rightarrow> bool" where
  "usable_key env m k a ts ok \<longleftrightarrow>
     keyManifestSchema env m \<and> (\<exists>t. date_parse env ts = Some t
       \<and> (\<exists>e\<in>set (km_keys m). k_keyId e = k \<and> k_algorithm e = a \<and> in_epoch env e t \<and> ok e))"

text \<open>
  A key may have signed a receipt exactly in its epoch: the manifest check passes if and only if the
  manifest is valid, the timestamp is a date, and the manifest lists the key with the algorithm and with an
  epoch that contains the timestamp; a revocation ends the epoch, and a revoked key without a
  revocation time has none. Signing is authorized if and only if in addition the key is active.
\<close>

theorem key_signs_only_in_epoch:
  assumes "datetimes_parse env"
  shows "(mc_passed (verifyKeyManifestEpoch env m k a ts) \<longleftrightarrow> usable_key env m k a ts (\<lambda>_. True))
    \<and> (mc_passed (verifyKeyManifestSigningAuthorization env m k a ts) \<longleftrightarrow> usable_key env m k a ts (\<lambda>e. k_status e = ACTIVE))"
proof (cases "keyManifestSchema env m")
  case True
  then have d: "distinct (map entry_identity (km_keys m))" by (simp add: keyManifestSchema_def)
  have epoch: "mc_passed (verifyKeyManifestEpoch env m k a ts) \<longleftrightarrow> usable_key env m k a ts (\<lambda>_. True)"
    using True find_entry [OF d, of k a] by (simp add: verify_epoch_iff [OF assms] usable_key_def)
  have "mc_passed (verifyKeyManifestSigningAuthorization env m k a ts) \<longleftrightarrow> mc_passed (verifyKeyManifestEpoch env m k a ts)
      \<and> (\<exists>e. findManifestEntryForKey m k a = Some e \<and> k_algorithm e = a \<and> k_status e = ACTIVE)"
    using True by (auto simp: verifyKeyManifestSigningAuthorization_def validateKeyManifest_def signing_check_def Let_def split: option.splits)
  also have "\<dots> \<longleftrightarrow> (\<exists>t. date_parse env ts = Some t
      \<and> (\<exists>e. findManifestEntryForKey m k a = Some e \<and> k_algorithm e = a \<and> in_epoch env e t \<and> k_status e = ACTIVE))"
    using True by (auto simp: verify_epoch_iff [OF assms])
  also have "\<dots> \<longleftrightarrow> usable_key env m k a ts (\<lambda>e. k_status e = ACTIVE)"
    using True find_entry [OF d, of k a] by (simp add: usable_key_def)
  finally show ?thesis using epoch by simp
next
  case False
  then show ?thesis
    by (simp add: verifyKeyManifestSigningAuthorization_def verify_epoch_iff [OF assms] usable_key_def signing_check_def Let_def)
qed

definition sample_manifest :: KeyManifest where
  "sample_manifest = \<lparr>km_schemaVersion = js ''ghost.key_manifest.v1'', km_generatedAt = js ''d'', km_keys =
     [\<lparr>k_keyId = js ''k'', k_algorithm = js ''a'', k_publicKeyPem = None, k_validFrom = js ''d'', k_validUntil = None,
       k_status = ACTIVE, k_revokedAt = None, k_reason = None\<rparr>]\<rparr>"

definition sample_clock :: receipt_env where
  "sample_clock = \<lparr>sha256 = id, hmac = \<lambda>_. id, zod_datetime = \<lambda>s. s \<noteq> [], date_parse = \<lambda>s. Some (int (length s))\<rparr>"

theorem key_signs_only_in_epoch_witness:
  "datetimes_parse sample_clock
   \<and> mc_passed (verifyKeyManifestSigningAuthorization sample_clock sample_manifest (js ''k'') (js ''a'') (js ''ts''))"
proof -
  have d: "datetimes_parse sample_clock" by (simp add: datetimes_parse_def sample_clock_def)
  have "usable_key sample_clock sample_manifest (js ''k'') (js ''a'') (js ''ts'') (\<lambda>e. k_status e = ACTIVE)"
    by (simp add: usable_key_def sample_clock_def sample_manifest_def keyManifestSchema_def keyManifestEntrySchema_def entry_dates_ok_def
        optional_def given_def in_epoch_def)
  then show ?thesis using d key_signs_only_in_epoch [OF d] by blast
qed

end
