(* ===== verification/Node_Buffer.thy ===== *)
theory Node_Buffer
  imports Prelude
begin

text \<open>
  The parts of Node's \<open>Buffer\<close> the receipt code uses: UTF-8 encoding and decoding of JavaScript
  strings, with lone surrogates and malformed bytes replaced by U+FFFD, and the two base64 alphabets.
\<close>

type_synonym byte = "8 word"

subsection \<open>UTF-8\<close>

definition is_high :: "code_unit \<Rightarrow> bool" where
  "is_high c \<longleftrightarrow> 0xD800 \<le> unat c \<and> unat c < 0xDC00"

definition is_low :: "code_unit \<Rightarrow> bool" where
  "is_low c \<longleftrightarrow> 0xDC00 \<le> unat c \<and> unat c < 0xE000"

fun code_points :: "jstr \<Rightarrow> nat list" where
  "code_points [] = []"
| "code_points [c] = [if is_high c \<or> is_low c then 0xFFFD else unat c]"
| "code_points (c # d # s) =
     (if is_high c \<and> is_low d then (0x10000 + (unat c - 0xD800) * 1024 + (unat d - 0xDC00)) # code_points s
      else (if is_high c \<or> is_low c then 0xFFFD else unat c) # code_points (d # s))"

definition utf8_of :: "nat \<Rightarrow> byte list" where
  "utf8_of p =
     (if p < 0x80 then [of_nat p]
      else if p < 0x800 then [of_nat (0xC0 + p div 64), of_nat (0x80 + p mod 64)]
      else if p < 0x10000 then [of_nat (0xE0 + p div 4096), of_nat (0x80 + p div 64 mod 64), of_nat (0x80 + p mod 64)]
      else [of_nat (0xF0 + p div 262144), of_nat (0x80 + p div 4096 mod 64), of_nat (0x80 + p div 64 mod 64),
            of_nat (0x80 + p mod 64)])"

definition utf8_encode :: "jstr \<Rightarrow> byte list" where
  "utf8_encode s = concat (map utf8_of (code_points s))"

text \<open>The continuation byte of a sequence, when the next byte is in the range.\<close>

definition continuation :: "nat \<Rightarrow> nat \<Rightarrow> byte list \<Rightarrow> (nat \<times> byte list) option" where
  "continuation lo hi bs =
     (case bs of [] \<Rightarrow> None | b # bs' \<Rightarrow> if lo \<le> unat b \<and> unat b \<le> hi then Some (unat b - 0x80, bs') else None)"

lemma continuation_shorter [termination_simp]: "continuation lo hi bs = Some (v, bs') \<Longrightarrow> length bs' < length bs"
  by (auto simp: continuation_def split: list.splits if_splits)

function utf8_points :: "byte list \<Rightarrow> nat list" where
  "utf8_points [] = []"
| "utf8_points (b # bs) =
     (let n = unat b in
      if n < 0x80 then n # utf8_points bs
      else if 0xC2 \<le> n \<and> n \<le> 0xDF then
        (case continuation 0x80 0xBF bs of
           None \<Rightarrow> 0xFFFD # utf8_points bs
         | Some (x, bs1) \<Rightarrow> ((n - 0xC0) * 64 + x) # utf8_points bs1)
      else if 0xE0 \<le> n \<and> n \<le> 0xEF then
        (case continuation (if n = 0xE0 then 0xA0 else 0x80) (if n = 0xED then 0x9F else 0xBF) bs of
           None \<Rightarrow> 0xFFFD # utf8_points bs
         | Some (x, bs1) \<Rightarrow>
             (case continuation 0x80 0xBF bs1 of
                None \<Rightarrow> 0xFFFD # utf8_points bs1
              | Some (y, bs2) \<Rightarrow> ((n - 0xE0) * 4096 + x * 64 + y) # utf8_points bs2))
      else if 0xF0 \<le> n \<and> n \<le> 0xF4 then
        (case continuation (if n = 0xF0 then 0x90 else 0x80) (if n = 0xF4 then 0x8F else 0xBF) bs of
           None \<Rightarrow> 0xFFFD # utf8_points bs
         | Some (x, bs1) \<Rightarrow>
             (case continuation 0x80 0xBF bs1 of
                None \<Rightarrow> 0xFFFD # utf8_points bs1
              | Some (y, bs2) \<Rightarrow>
                  (case continuation 0x80 0xBF bs2 of
                     None \<Rightarrow> 0xFFFD # utf8_points bs2
                   | Some (z, bs3) \<Rightarrow> ((n - 0xF0) * 262144 + x * 4096 + y * 64 + z) # utf8_points bs3)))
      else 0xFFFD # utf8_points bs)"
  by pat_completeness auto
termination
  by (relation "measure length") (auto dest!: continuation_shorter)

definition utf16_of :: "nat \<Rightarrow> jstr" where
  "utf16_of p =
     (if p < 0x10000 then [of_nat p]
      else [of_nat (0xD800 + (p - 0x10000) div 1024), of_nat (0xDC00 + (p - 0x10000) mod 1024)])"

definition utf8_decode :: "byte list \<Rightarrow> jstr" where
  "utf8_decode bs = concat (map utf16_of (utf8_points bs))"

subsection \<open>Base64\<close>

definition b64_unit :: "bool \<Rightarrow> nat \<Rightarrow> code_unit" where
  "b64_unit url n =
     (if n < 26 then of_nat (65 + n) else if n < 52 then of_nat (71 + n) else if n < 62 then of_nat (n - 4)
      else if n = 62 then (if url then 45 else 43) else (if url then 95 else 47))"

definition b64_value :: "code_unit \<Rightarrow> nat option" where
  "b64_value c =
     (if is_upper c then Some (unat c - 65) else if is_lower c then Some (unat c - 71) else if is_digit c then Some (unat c + 4)
      else if c = 43 \<or> c = 45 then Some 62 else if c = 47 \<or> c = 95 then Some 63 else None)"

fun sextets :: "nat list \<Rightarrow> nat list" where
  "sextets (a # b # c # bs) = (a div 4) # (a mod 4 * 16 + b div 16) # (b mod 16 * 4 + c div 64) # (c mod 64) # sextets bs"
| "sextets [a, b] = [a div 4, a mod 4 * 16 + b div 16, b mod 16 * 4]"
| "sextets [a] = [a div 4, a mod 4 * 16]"
| "sextets [] = []"

fun octets :: "nat list \<Rightarrow> nat list" where
  "octets (a # b # c # d # ss) = (a * 4 + b div 16) # (b mod 16 * 16 + c div 4) # (c mod 4 * 64 + d) # octets ss"
| "octets [a, b, c] = [a * 4 + b div 16, b mod 16 * 16 + c div 4]"
| "octets [a, b] = [a * 4 + b div 16]"
| "octets _ = []"

definition base64 :: "byte list \<Rightarrow> jstr" where
  "base64 bs = map (b64_unit False) (sextets (map unat bs)) @ replicate ((3 - length bs mod 3) mod 3) 61"

definition base64url :: "byte list \<Rightarrow> jstr" where
  "base64url bs = map (b64_unit True) (sextets (map unat bs))"

text \<open>Decoding stops at the first padding character and skips units outside both alphabets.\<close>

definition base64_decode :: "jstr \<Rightarrow> byte list" where
  "base64_decode s = map of_nat (octets (List.map_filter b64_value (takeWhile (\<lambda>c. c \<noteq> 61) s)))"

text \<open>
  \<open>/^(?:[A-Za-z0-9+/]{4})*(?:[A-Za-z0-9+/]{2}==|[A-Za-z0-9+/]{3}=)?$/u\<close> and
  \<open>/^[A-Za-z0-9_-]+$/u\<close>.
\<close>

definition standard_base64 :: "jstr \<Rightarrow> bool" where
  "standard_base64 s \<longleftrightarrow>
     (let body = takeWhile (\<lambda>c. c \<noteq> 61) s; pad = dropWhile (\<lambda>c. c \<noteq> 61) s in
      list_all (\<lambda>c. is_upper c \<or> is_lower c \<or> is_digit c \<or> c = 43 \<or> c = 47) body
      \<and> length s mod 4 = 0 \<and> (pad = [] \<or> pad = [61] \<or> pad = [61, 61]))"

definition base64url_text :: "jstr \<Rightarrow> bool" where
  "base64url_text s \<longleftrightarrow> s \<noteq> [] \<and> list_all (\<lambda>c. is_upper c \<or> is_lower c \<or> is_digit c \<or> c = 95 \<or> c = 45) s"

subsection \<open>Round trips\<close>

lemma unat_byte [simp]: "n < 256 \<Longrightarrow> unat (of_nat n :: byte) = n"
  by (simp add: unat_of_nat)

lemma unat_byte_less: "unat (b :: byte) < 256"
  using unsigned_less [of b] by simp

lemma continuation_byte:
  "lo \<le> n \<Longrightarrow> n \<le> hi \<Longrightarrow> n < 256 \<Longrightarrow> continuation lo hi (of_nat n # bs) = Some (n - 0x80, bs)"
  by (simp add: continuation_def)

definition scalar_value :: "nat \<Rightarrow> bool" where
  "scalar_value p \<longleftrightarrow> p < 0x110000 \<and> \<not> (0xD800 \<le> p \<and> p < 0xE000)"

text \<open>Well-formed sequences of two, three and four bytes.\<close>

lemma utf8_points_2:
  assumes "194 \<le> a" "a \<le> 223" "128 \<le> b" "b \<le> 191"
  shows "utf8_points (of_nat a # of_nat b # bs) = ((a - 192) * 64 + (b - 128)) # utf8_points bs"
  using assms by (simp add: continuation_byte Let_def)

lemma utf8_points_3:
  assumes "224 \<le> a" "a \<le> 239" "(if a = 224 then 160 else 128) \<le> b" "b \<le> (if a = 237 then 159 else 191)" "128 \<le> c" "c \<le> 191"
  shows "utf8_points (of_nat a # of_nat b # of_nat c # bs) = ((a - 224) * 4096 + (b - 128) * 64 + (c - 128)) # utf8_points bs"
proof -
  have b: "b < 256" using assms(4) by (auto split: if_splits)
  show ?thesis using assms(1,2,5,6) by (simp add: continuation_byte [OF assms(3,4) b] continuation_byte Let_def)
qed

lemma utf8_points_4:
  assumes "240 \<le> a" "a \<le> 244" "(if a = 240 then 144 else 128) \<le> b" "b \<le> (if a = 244 then 143 else 191)"
    "128 \<le> c" "c \<le> 191" "128 \<le> d" "d \<le> 191"
  shows "utf8_points (of_nat a # of_nat b # of_nat c # of_nat d # bs) =
    ((a - 240) * 262144 + (b - 128) * 4096 + (c - 128) * 64 + (d - 128)) # utf8_points bs"
proof -
  have b: "b < 256" using assms(4) by (auto split: if_splits)
  show ?thesis using assms(1,2,5-8) by (simp add: continuation_byte [OF assms(3,4) b] continuation_byte Let_def)
qed

lemma sixty_four_digits:
  fixes p :: nat
  shows "p div 4096 * 4096 + p div 64 mod 64 * 64 + p mod 64 = p"
    and "p div 262144 * 262144 + p div 4096 mod 64 * 4096 + p div 64 mod 64 * 64 + p mod 64 = p"
proof -
  define a b c where "a = p div 64" and "b = p div 4096" and "c = p div 262144"
  have "p = a * 64 + p mod 64" "a = b * 64 + a mod 64" "b = c * 64 + b mod 64"
    using div_mult2_eq [of p 64 64] div_mult2_eq [of p 4096 64] by (simp_all add: a_def b_def c_def)
  then show "p div 4096 * 4096 + p div 64 mod 64 * 64 + p mod 64 = p"
    "p div 262144 * 262144 + p div 4096 mod 64 * 4096 + p div 64 mod 64 * 64 + p mod 64 = p"
    unfolding a_def [symmetric] b_def [symmetric] c_def [symmetric] by linarith+
qed

lemma mod_64_le: "(n :: nat) mod 64 \<le> 63"
  using mod_less_divisor [of 64 n] by simp

lemma utf8_points_of:
  assumes "scalar_value p"
  shows "utf8_points (utf8_of p @ bs) = p # utf8_points bs"
proof -
  consider "p < 0x80" | "0x80 \<le> p" "p < 0x800" | "0x800 \<le> p" "p < 0x10000" | "0x10000 \<le> p" "p < 0x110000"
    using assms unfolding scalar_value_def by linarith
  then show ?thesis
  proof cases
    case 1
    then show ?thesis by (simp add: utf8_of_def)
  next
    case 2
    have "utf8_of p = [of_nat (192 + p div 64), of_nat (128 + p mod 64)]" using 2 by (simp only: utf8_of_def) simp
    then show ?thesis
      using 2 utf8_points_2 [of "192 + p div 64" "128 + p mod 64" bs] by (simp add: mod_64_le del: utf8_points.simps of_nat_add)
  next
    case 3
    have m: "p div 64 mod 64 \<le> 31" if "p div 4096 = 13"
    proof -
      have "p div 64 < 864" using that 3 assms by (auto simp: scalar_value_def)
      moreover have "p div 64 = 832 + p div 64 mod 64"
        using that div_mult2_eq [of p 64 64] div_mult_mod_eq [of "p div 64" 64] by simp
      ultimately show ?thesis by linarith
    qed
    have "utf8_of p = [of_nat (224 + p div 4096), of_nat (128 + p div 64 mod 64), of_nat (128 + p mod 64)]"
      using 3 by (simp only: utf8_of_def) simp
    moreover from m have "(if 224 + p div 4096 = 224 then 160 else 128) \<le> 128 + p div 64 mod 64"
      "128 + p div 64 mod 64 \<le> (if 224 + p div 4096 = 237 then 159 else 191)"
      using 3 by auto
    moreover have "p div 4096 * 4096 + p div 64 mod 64 * 64 + p mod 64 = p" by (rule sixty_four_digits)
    ultimately show ?thesis
      using 3 utf8_points_3 [of "224 + p div 4096" "128 + p div 64 mod 64" "128 + p mod 64" bs]
      by (simp add: mod_64_le del: utf8_points.simps of_nat_add)
  next
    case 4
    have m: "p div 4096 mod 64 \<le> 15" if "p div 262144 = 4"
    proof -
      have "p div 4096 < 272" using 4 by auto
      moreover have "p div 4096 = 256 + p div 4096 mod 64"
        using that div_mult2_eq [of p 4096 64] div_mult_mod_eq [of "p div 4096" 64] by simp
      ultimately show ?thesis by linarith
    qed
    have "utf8_of p = [of_nat (240 + p div 262144), of_nat (128 + p div 4096 mod 64), of_nat (128 + p div 64 mod 64), of_nat (128 + p mod 64)]"
      using 4 by (simp only: utf8_of_def) simp
    moreover from m have "(if 240 + p div 262144 = 240 then 144 else 128) \<le> 128 + p div 4096 mod 64"
      "128 + p div 4096 mod 64 \<le> (if 240 + p div 262144 = 244 then 143 else 191)"
      using 4 by auto
    moreover have "p div 262144 * 262144 + p div 4096 mod 64 * 4096 + p div 64 mod 64 * 64 + p mod 64 = p" by (rule sixty_four_digits)
    ultimately show ?thesis
      using 4 utf8_points_4 [of "240 + p div 262144" "128 + p div 4096 mod 64" "128 + p div 64 mod 64" "128 + p mod 64" bs]
      by (simp add: mod_64_le del: utf8_points.simps of_nat_add)
  qed
qed

definition well_formed :: "jstr \<Rightarrow> bool" where
  "well_formed s \<longleftrightarrow> list_all scalar_value (code_points s) \<and> concat (map utf16_of (code_points s)) = s"

lemma utf8_points_encode: "list_all scalar_value ps \<Longrightarrow> utf8_points (concat (map utf8_of ps)) = ps"
  by (induction ps) (simp_all add: utf8_points_of del: utf8_points.simps(2))

lemma utf8_round_trip: "well_formed s \<Longrightarrow> utf8_decode (utf8_encode s) = s"
  by (simp add: well_formed_def utf8_decode_def utf8_encode_def utf8_points_encode)

lemma code_points_bmp:
  "list_all (\<lambda>c. \<not> is_high c \<and> \<not> is_low c) s \<Longrightarrow> code_points s = map unat s"
  by (induction s rule: code_points.induct) auto

text \<open>A string without surrogates is well formed; so is every ASCII string.\<close>

lemma unat_unit_less: "unat (c :: code_unit) < 65536"
  using unsigned_less [of c] by simp

lemma well_formed_bmp:
  assumes "list_all (\<lambda>c. \<not> is_high c \<and> \<not> is_low c) s"
  shows "well_formed s"
proof -
  have "scalar_value (unat c)" if "\<not> is_high c" "\<not> is_low c" for c
    using that unat_unit_less [of c] by (simp add: scalar_value_def is_high_def is_low_def) linarith
  then have "list_all scalar_value (map unat s)" using assms by (simp add: list_all_iff)
  moreover have "concat (map utf16_of (map unat s)) = s"
    by (induction s) (simp_all add: utf16_of_def unat_unit_less)
  ultimately show ?thesis using assms by (simp add: well_formed_def code_points_bmp)
qed

lemma octets_sextets: "list_all (\<lambda>b. b < 256) bs \<Longrightarrow> octets (sextets bs) = bs"
proof (induction bs rule: sextets.induct)
  case (1 a b c bs)
  have "b mod 16 * 4 + c div 64 < 64" "a mod 4 * 16 + b div 16 < 64" using 1 by auto
  then show ?case using 1 by auto
qed auto

lemma b64_unit_facts:
  assumes "n < 64"
  shows "b64_value (b64_unit url n) = Some n" and "b64_unit url n \<noteq> 61"
    and "is_upper (b64_unit False n) \<or> is_lower (b64_unit False n) \<or> is_digit (b64_unit False n) \<or> b64_unit False n = 43 \<or> b64_unit False n = 47"
    and "is_upper (b64_unit True n) \<or> is_lower (b64_unit True n) \<or> is_digit (b64_unit True n) \<or> b64_unit True n = 95 \<or> b64_unit True n = 45"
proof -
  have "list_all (\<lambda>n. list_all (\<lambda>u. b64_value (b64_unit u n) = Some n \<and> b64_unit u n \<noteq> 61) [False, True]
      \<and> (is_upper (b64_unit False n) \<or> is_lower (b64_unit False n) \<or> is_digit (b64_unit False n) \<or> b64_unit False n = 43 \<or> b64_unit False n = 47)
      \<and> (is_upper (b64_unit True n) \<or> is_lower (b64_unit True n) \<or> is_digit (b64_unit True n) \<or> b64_unit True n = 95 \<or> b64_unit True n = 45))
    [0..<64]"
    by code_simp
  moreover have mem: "n \<in> set [0..<64]" using assms by simp
  ultimately have "\<forall>u\<in>set [False, True]. b64_value (b64_unit u n) = Some n \<and> b64_unit u n \<noteq> 61"
    and c: "is_upper (b64_unit False n) \<or> is_lower (b64_unit False n) \<or> is_digit (b64_unit False n) \<or> b64_unit False n = 43 \<or> b64_unit False n = 47"
    "is_upper (b64_unit True n) \<or> is_lower (b64_unit True n) \<or> is_digit (b64_unit True n) \<or> b64_unit True n = 95 \<or> b64_unit True n = 45"
    unfolding list_all_iff by (blast dest: bspec [OF _ mem])+
  then show "b64_value (b64_unit url n) = Some n" "b64_unit url n \<noteq> 61" by (cases url; simp)+
  show "is_upper (b64_unit False n) \<or> is_lower (b64_unit False n) \<or> is_digit (b64_unit False n) \<or> b64_unit False n = 43 \<or> b64_unit False n = 47"
    "is_upper (b64_unit True n) \<or> is_lower (b64_unit True n) \<or> is_digit (b64_unit True n) \<or> b64_unit True n = 95 \<or> b64_unit True n = 45"
    by (rule c)+
qed

lemma sextets_less: "list_all (\<lambda>b. b < 256) bs \<Longrightarrow> list_all (\<lambda>s. s < 64) (sextets bs)"
  by (induction bs rule: sextets.induct) auto

lemma length_sextets: "length (sextets bs) = length bs div 3 * 4 + (if length bs mod 3 = 0 then 0 else length bs mod 3 + 1)"
proof (induction bs rule: sextets.induct)
  case (1 a b c bs)
  have "(3 + length bs) div 3 = Suc (length bs div 3)" "(3 + length bs) mod 3 = length bs mod 3" by simp_all
  then show ?case using 1 by simp
qed auto

lemma padded_length: "(length (sextets bs) + (3 - length bs mod 3) mod 3) mod 4 = 0"
proof -
  consider "length bs mod 3 = 0" | "length bs mod 3 = 1" | "length bs mod 3 = 2" by linarith
  then show ?thesis by cases (simp_all add: length_sextets)
qed

lemma replicate_pad: "replicate k (61 :: code_unit) = [] \<or> hd (replicate k (61 :: code_unit)) = 61"
  by (cases k) simp_all

lemma decode_units:
  assumes "list_all (\<lambda>s. s < 64) ss" and "pad = [] \<or> hd pad = 61"
  shows "List.map_filter b64_value (takeWhile (\<lambda>c. c \<noteq> 61) (map (b64_unit url) ss @ pad)) = ss"
  using assms
proof (induction ss)
  case Nil
  then show ?case by (cases pad) (auto simp: map_filter_simps)
next
  case (Cons n ss)
  then show ?case by (simp add: map_filter_simps b64_unit_facts)
qed

lemma bytes_less: "list_all (\<lambda>b. b < 256) (map unat (bs :: byte list))"
  by (simp add: list_all_iff unat_byte_less)

lemma base64_round_trip [simp]: "base64_decode (base64 bs) = bs" "base64_decode (base64url bs) = bs"
proof -
  have s: "list_all (\<lambda>s. s < 64) (sextets (map unat bs))" by (rule sextets_less [OF bytes_less])
  have "octets (sextets (map unat bs)) = map unat bs" by (rule octets_sextets [OF bytes_less])
  moreover have "map of_nat (map unat bs) = bs" by (simp add: comp_def)
  ultimately show "base64_decode (base64 bs) = bs" "base64_decode (base64url bs) = bs"
    using decode_units [OF s replicate_pad, of False] decode_units [OF s, of "[]" True]
    by (simp_all add: base64_decode_def base64_def base64url_def)
qed

lemma standard_base64_base64: "standard_base64 (base64 bs)"
proof -
  let ?ss = "map (b64_unit False) (sextets (map unat bs))"
  have s: "\<forall>n\<in>set (sextets (map unat bs)). n < 64" using sextets_less [OF bytes_less] by (simp add: list_all_iff)
  have ss: "list_all (\<lambda>c. is_upper c \<or> is_lower c \<or> is_digit c \<or> c = 43 \<or> c = 47) ?ss" "61 \<notin> set ?ss"
    using s b64_unit_facts(2,3) by (auto simp: list_all_iff)
  define k where "k = (3 - length bs mod 3) mod 3"
  have b: "base64 bs = ?ss @ replicate k 61" by (simp add: base64_def k_def)
  have t: "takeWhile (\<lambda>c. c \<noteq> 61) (base64 bs) = ?ss" "dropWhile (\<lambda>c. c \<noteq> 61) (base64 bs) = replicate k 61"
    using ss(2) unfolding b by (cases k; fastforce simp: takeWhile_append dropWhile_append)+
  have "k = 0 \<or> k = Suc 0 \<or> k = Suc (Suc 0)" unfolding k_def by arith
  then have p: "replicate k (61 :: code_unit) = [] \<or> replicate k (61 :: code_unit) = [61] \<or> replicate k (61 :: code_unit) = [61, 61]" by auto
  have "length (base64 bs) mod 4 = 0"
    using padded_length [of "map unat bs"] by (simp add: b k_def)
  then show ?thesis unfolding standard_base64_def Let_def t using ss(1) p by blast
qed

lemma base64url_text_base64url: "bs \<noteq> [] \<Longrightarrow> base64url_text (base64url bs)"
  using sextets_less [OF bytes_less [of bs]] b64_unit_facts(4)
  by (auto simp: base64url_text_def base64url_def list_all_iff elim: sextets.elims)

text \<open>Strings whose surrogates come in pairs.\<close>

fun paired :: "jstr \<Rightarrow> bool" where
  "paired [] = True"
| "paired [c] = (\<not> is_high c \<and> \<not> is_low c)"
| "paired (c # d # s) = (if is_high c then is_low d \<and> paired s else \<not> is_low c \<and> paired (d # s))"

lemma paired_append: "paired a \<Longrightarrow> paired b \<Longrightarrow> paired (a @ b)"
proof (induction a rule: paired.induct)
  case (2 c)
  then show ?case by (cases b) auto
qed (auto split: if_splits)

lemma scalar_unit: "\<not> is_high c \<Longrightarrow> \<not> is_low c \<Longrightarrow> scalar_value (unat c) \<and> utf16_of (unat c) = [c]"
  using unat_unit_less [of c] by (simp add: scalar_value_def is_high_def is_low_def utf16_of_def) linarith

lemma scalar_pair:
  assumes "is_high c" and "is_low d"
  defines "p \<equiv> 0x10000 + (unat c - 0xD800) * 1024 + (unat d - 0xDC00)"
  shows "scalar_value p \<and> utf16_of p = [c, d]"
proof -
  define x y where "x = unat c - 0xD800" and "y = unat d - 0xDC00"
  have xy: "x < 1024" "y < 1024" "unat c = 0xD800 + x" "unat d = 0xDC00 + y"
    using assms(1,2) by (auto simp: is_high_def is_low_def x_def y_def)
  have p: "p = 0x10000 + x * 1024 + y" by (simp add: p_def x_def y_def)
  have q: "p - 0x10000 = x * 1024 + y" by (simp add: p)
  have "(p - 0x10000) div 1024 = x" "(p - 0x10000) mod 1024 = y" unfolding q using xy by simp_all
  then have "utf16_of p = [of_nat (unat c), of_nat (unat d)]" by (simp only: utf16_of_def xy p) simp
  moreover have "scalar_value p" using xy unfolding scalar_value_def p by linarith
  ultimately show ?thesis by simp
qed

lemma paired_well_formed: "paired s \<Longrightarrow> well_formed s"
proof (induction s rule: paired.induct)
  case (2 c)
  then show ?case using scalar_unit [of c] by (simp add: well_formed_def)
next
  case (3 c d s)
  show ?case
  proof (cases "is_high c")
    case True
    then show ?thesis using 3 scalar_pair [of c d] by (simp add: well_formed_def)
  next
    case False
    then show ?thesis using 3 scalar_unit [of c] by (simp add: well_formed_def)
  qed
qed (simp add: well_formed_def)

end
