(* ===== verification/Receipt_Signing.thy ===== *)
theory Receipt_Signing
  imports Key_Manifest Node_Buffer Js_Text
begin

text \<open>
  Signature envelopes and their check: \<open>receipts/signer.ts\<close>, \<open>receipts/verifier.ts\<close> and
  \<open>aws/kmsKeyIdentity.ts\<close> of \<open>packages/enforcement-runtime/src\<close>. Beside the functions of a receipt environment the
  code takes \<open>JSON.parse\<close> and the bytes of a keyed digest from outside. A signer is a key
  identifier, an algorithm and a function from payloads to signatures or an error.
\<close>

subsection \<open>Key identifiers\<close>

definition full_match :: "pattern \<Rightarrow> jstr \<Rightarrow> bool" where
  "full_match p s \<longleftrightarrow> list_ex (\<lambda>e. snd e = []) (match_ends p ([], s))"

definition ci_hex :: "code_unit \<Rightarrow> bool" where
  "ci_hex c \<longleftrightarrow> is_lower_hex (fold_unit c)"

definition ci_text :: "string \<Rightarrow> pattern" where
  "ci_text s = literal ci_eq (js s)"

definition hexes :: "nat \<Rightarrow> pattern" where
  "hexes n = Rep ci_hex n (Some n)"

text \<open>\<open>/^[0-9a-f]{8}-[0-9a-f]{4}-[0-9a-f]{4}-[0-9a-f]{4}-[0-9a-f]{12}$/iu\<close>\<close>

definition KMS_KEY_UUID_PATTERN :: pattern where
  "KMS_KEY_UUID_PATTERN =
     Seqp (hexes 8) (Seqp (ci_text ''-'') (Seqp (hexes 4) (Seqp (ci_text ''-'') (Seqp (hexes 4) (Seqp (ci_text ''-'')
       (Seqp (hexes 4) (Seqp (ci_text ''-'') (hexes 12))))))))"

text \<open>\<open>arn:aws(?:-[a-z-]+)?:kms:[a-z0-9-]+:\d{12}:\<close>, ignoring case.\<close>

definition kms_arn_prefix :: pattern where
  "kms_arn_prefix =
     Seqp (ci_text ''arn:aws'')
     (Seqp (Optp (Seqp (ci_text ''-'') (Rep (\<lambda>c. ci_letter c \<or> c = 45) 1 None)))
     (Seqp (ci_text '':kms:'') (Seqp (Rep (\<lambda>c. ci_letter c \<or> is_digit c \<or> c = 45) 1 None)
     (Seqp (ci_text '':'') (Seqp (Rep is_digit 12 (Some 12)) (ci_text '':''))))))"

definition KMS_KEY_ARN_PATTERN :: pattern where
  "KMS_KEY_ARN_PATTERN = Seqp kms_arn_prefix (Seqp (ci_text ''key/'') KMS_KEY_UUID_PATTERN)"

definition KMS_ALIAS_ARN_PATTERN :: pattern where
  "KMS_ALIAS_ARN_PATTERN =
     Seqp kms_arn_prefix (Seqp (ci_text ''alias/'') (Rep (\<lambda>c. c \<notin> {10, 13, 0x2028, 0x2029}) 1 None))"

definition isKmsAliasKeyId :: "jstr \<Rightarrow> bool" where
  "isKmsAliasKeyId keyId \<longleftrightarrow> startsWith keyId (js ''alias/'') \<or> full_match KMS_ALIAS_ARN_PATTERN keyId"

definition isImmutableKmsKeyId :: "jstr \<Rightarrow> bool" where
  "isImmutableKmsKeyId keyId \<longleftrightarrow> full_match KMS_KEY_UUID_PATTERN keyId \<or> full_match KMS_KEY_ARN_PATTERN keyId"

definition keyUuidFromImmutableKeyId :: "jstr \<Rightarrow> jstr" where
  "keyUuidFromImmutableKeyId keyId =
     (if js_includes keyId (js '':key/'') then rev (takeWhile (\<lambda>c. c \<noteq> 47) (rev keyId)) else keyId)"

definition immutableKmsKeyIdsMatch :: "jstr \<Rightarrow> jstr \<Rightarrow> bool" where
  "immutableKmsKeyIdsMatch a b =
     (if \<not> isImmutableKmsKeyId a \<or> \<not> isImmutableKmsKeyId b then False
      else if full_match KMS_KEY_ARN_PATTERN a \<and> full_match KMS_KEY_ARN_PATTERN b then a = b
      else keyUuidFromImmutableKeyId a = keyUuidFromImmutableKeyId b)"

subsection \<open>Signature envelopes\<close>

datatype signing_error =
    EmptyField jstr | EnvelopeFields | EnvelopeVersion | UnknownAlgorithm | EnvelopeKeyId | DigestNotString | DigestNotHex
  | SignatureNotString | SignatureNotBase64 | SignatureEmptyBytes | EnvelopeNotBase64url | EnvelopeNotJson | EnvelopeNotObject
  | AlgorithmMismatch | SignerFailed jstr | ReceiptFailed receipt_error

record DecisionReceiptSignatureEnvelope =
  se_keyId :: jstr
  se_algorithm :: SignatureAlg
  se_digestSha256 :: jstr
  se_signature :: jstr

record DecisionReceiptSigner =
  sg_keyId :: jstr
  sg_algorithm :: SignatureAlg
  sg_sign :: "jstr \<Rightarrow> signing_error + jstr"

definition assertNonEmptyString :: "string \<Rightarrow> jstr \<Rightarrow> signing_error + unit" where
  "assertNonEmptyString name v = (if v = [] then Inl (EmptyField (js name)) else Inr ())"

definition assertStandardBase64Signature :: "jstr \<Rightarrow> signing_error + unit" where
  "assertStandardBase64Signature s =
     (if s = [] then Inl (EmptyField (js ''signature''))
      else if \<not> standard_base64 s then Inl SignatureNotBase64
      else if base64_decode s = [] then Inl SignatureEmptyBytes
      else Inr ())"

definition envelope_keys :: "jstr list" where
  "envelope_keys = map js [''algorithm'', ''digestSha256'', ''keyId'', ''schemaVersion'', ''signature'']"

definition alg_of :: "jstr \<Rightarrow> SignatureAlg option" where
  "alg_of s = find (\<lambda>a. alg_name a = s) all_algs"

text \<open>The shape check of a decoded envelope object, with its entries in order.\<close>

definition assertEnvelopeShape :: "(jstr \<times> jsval) list \<Rightarrow> signing_error + DecisionReceiptSignatureEnvelope" where
  "assertEnvelopeShape es =
     (if sort_by (\<le>) (map fst es) \<noteq> sort_by (\<le>) envelope_keys then Inl EnvelopeFields
      else if map_of es (js ''schemaVersion'') \<noteq> Some (JStr (js ''ghost.decision_receipt_signature.v1'')) then Inl EnvelopeVersion
      else
        (case Option.bind (get_string es ''algorithm'') alg_of of
           None \<Rightarrow> Inl UnknownAlgorithm
         | Some alg \<Rightarrow>
             (case get_string es ''keyId'' of
                None \<Rightarrow> Inl EnvelopeKeyId
              | Some keyId \<Rightarrow>
                  if keyId = [] then Inl EnvelopeKeyId
                  else
                    (case get_string es ''digestSha256'' of
                       None \<Rightarrow> Inl DigestNotString
                     | Some digest \<Rightarrow>
                         if \<not> hex64 digest then Inl DigestNotHex
                         else
                           (case get_string es ''signature'' of
                              None \<Rightarrow> Inl SignatureNotString
                            | Some sig \<Rightarrow>
                                (case assertStandardBase64Signature sig of
                                   Inl e \<Rightarrow> Inl e
                                 | Inr _ \<Rightarrow> Inr \<lparr>se_keyId = keyId, se_algorithm = alg, se_digestSha256 = digest, se_signature = sig\<rparr>))))))"

definition envelope_entries :: "DecisionReceiptSignatureEnvelope \<Rightarrow> (jstr \<times> jsval) list" where
  "envelope_entries v =
     [(js ''schemaVersion'', JStr (js ''ghost.decision_receipt_signature.v1'')), (js ''keyId'', JStr (se_keyId v)),
      (js ''algorithm'', JStr (alg_name (se_algorithm v))), (js ''digestSha256'', JStr (se_digestSha256 v)),
      (js ''signature'', JStr (se_signature v))]"

definition encodeDecisionReceiptSignatureEnvelope :: "DecisionReceiptSignatureEnvelope \<Rightarrow> signing_error + jstr" where
  "encodeDecisionReceiptSignatureEnvelope v =
     (case assertEnvelopeShape (envelope_entries v) of
        Inl e \<Rightarrow> Inl e
      | Inr _ \<Rightarrow>
          (case canonical_text (JObj (envelope_entries v)) of
             Inl e \<Rightarrow> Inl (ReceiptFailed e)
           | Inr t \<Rightarrow> Inr (base64url (utf8_encode t))))"

definition decodeDecisionReceiptSignatureEnvelope ::
  "(jstr \<Rightarrow> jsval option) \<Rightarrow> jstr \<Rightarrow> signing_error + DecisionReceiptSignatureEnvelope" where
  "decodeDecisionReceiptSignatureEnvelope json_parse s =
     (if s = [] then Inl (EmptyField (js ''receipt_signature''))
      else if \<not> base64url_text s then Inl EnvelopeNotBase64url
      else
        (case json_parse (utf8_decode (base64_decode s)) of
           None \<Rightarrow> Inl EnvelopeNotJson
         | Some (JObj es) \<Rightarrow> assertEnvelopeShape es
         | Some _ \<Rightarrow> Inl EnvelopeNotObject))"

subsection \<open>The local signer\<close>

text \<open>\<open>LocalDevHmacReceiptSigner\<close>; the keyed digest is a function to bytes.\<close>

definition LocalDevHmacReceiptSigner ::
  "(jstr \<Rightarrow> jstr \<Rightarrow> byte list) \<Rightarrow> jstr option \<Rightarrow> jstr \<Rightarrow> signing_error + DecisionReceiptSigner" where
  "LocalDevHmacReceiptSigner hmac_bytes keyId secret =
     (if secret = [] then Inl (EmptyField (js ''secret''))
      else if or_default (js ''local-dev-hmac'') keyId = [] then Inl (EmptyField (js ''keyId''))
      else Inr \<lparr>sg_keyId = or_default (js ''local-dev-hmac'') keyId, sg_algorithm = LOCAL_HMAC_SHA256_DEV_ONLY,
        sg_sign = \<lambda>payload. if payload = [] then Inl (EmptyField (js ''canonicalPayload'')) else Inr (base64 (hmac_bytes secret payload))\<rparr>)"

definition localVerifyCanonical :: "(jstr \<Rightarrow> jstr \<Rightarrow> byte list) \<Rightarrow> jstr \<Rightarrow> jstr \<Rightarrow> jstr \<Rightarrow> signing_error + bool" where
  "localVerifyCanonical hmac_bytes secret payload sig =
     (if payload = [] then Inl (EmptyField (js ''canonicalPayload''))
      else
        (case assertStandardBase64Signature sig of
           Inl e \<Rightarrow> Inl e
         | Inr _ \<Rightarrow> Inr (base64_decode (base64 (hmac_bytes secret payload)) = base64_decode sig)))"

definition buildDecisionReceiptSignatureEnvelope ::
  "receipt_env \<Rightarrow> UnsignedDecisionReceipt \<Rightarrow> DecisionReceiptSigner \<Rightarrow> signing_error + DecisionReceiptSignatureEnvelope" where
  "buildDecisionReceiptSignatureEnvelope env receipt signer =
     (if sg_keyId signer = [] then Inl (EmptyField (js ''keyId''))
      else
        (case validateUnsignedDecisionReceipt env receipt of
           Inl e \<Rightarrow> Inl (ReceiptFailed e)
         | Inr u \<Rightarrow>
             if r_signature_alg u \<noteq> sg_algorithm signer then Inl AlgorithmMismatch
             else
               (case (if sg_algorithm signer = KMS_SIGN_RSASSA_PSS_SHA_256 then assertNonDefaultExecutionBoundary env u else Inr ()) of
                  Inl e \<Rightarrow> Inl (ReceiptFailed e)
                | Inr _ \<Rightarrow>
                    (case canonicalUnsignedDecisionReceipt env u of
                       Inl e \<Rightarrow> Inl (ReceiptFailed e)
                     | Inr payload \<Rightarrow>
                         (case sg_sign signer payload of
                            Inl e \<Rightarrow> Inl e
                          | Inr sig \<Rightarrow>
                              (case assertStandardBase64Signature sig of
                                 Inl e \<Rightarrow> Inl e
                               | Inr _ \<Rightarrow>
                                   (case decisionReceiptDigest env u of
                                      Inl e \<Rightarrow> Inl (ReceiptFailed e)
                                    | Inr digest \<Rightarrow>
                                        Inr \<lparr>se_keyId = sg_keyId signer, se_algorithm = sg_algorithm signer,
                                          se_digestSha256 = digest, se_signature = sig\<rparr>)))))))"

definition signDecisionReceipt ::
  "receipt_env \<Rightarrow> UnsignedDecisionReceipt \<Rightarrow> DecisionReceiptSigner \<Rightarrow> signing_error + SignedDecisionReceipt" where
  "signDecisionReceipt env receipt signer =
     (case validateUnsignedDecisionReceipt env receipt of
        Inl e \<Rightarrow> Inl (ReceiptFailed e)
      | Inr u \<Rightarrow>
          (case buildDecisionReceiptSignatureEnvelope env u signer of
             Inl e \<Rightarrow> Inl e
           | Inr v \<Rightarrow>
               (case encodeDecisionReceiptSignatureEnvelope v of
                  Inl e \<Rightarrow> Inl e
                | Inr text_ \<Rightarrow>
                    (case validateSignedDecisionReceipt env (UnsignedDecisionReceipt.extend u \<lparr>r_receipt_signature = text_\<rparr>) of
                       Inl e \<Rightarrow> Inl (ReceiptFailed e)
                     | Inr r \<Rightarrow> Inr r))))"

subsection \<open>Verification\<close>

datatype verify_detail =
    SchemaOk | SchemaBad receipt_error | IdMatches | IdMismatch jstr jstr | AlgorithmExpected | AlgorithmUnexpected
  | EnvelopeStrict | EnvelopeAlgorithm | EnvelopeBad signing_error | NoKeyId | KeyNotImmutable | KeyMismatch | KeyPresent
  | ManifestDetail manifest_detail | DigestMatches | DigestMismatch jstr jstr | PayloadRecomputed | PayloadEmpty
  | NoSignature | SkippedForAlgorithm | SkippedForKey | SignatureChecked | SignatureRaised signing_error

record DecisionReceiptVerificationCheck =
  vc_name :: jstr
  vc_passed :: bool
  vc_detail :: verify_detail

record DecisionReceiptVerificationResult =
  vr_verdict :: bool
  vr_checks :: "DecisionReceiptVerificationCheck list"

record DecisionReceiptCanonicalVerifier =
  cv_algorithm :: SignatureAlg
  cv_keyId :: "jstr option"
  cv_verify :: "jstr \<Rightarrow> jstr \<Rightarrow> SignedDecisionReceipt \<Rightarrow> jsval \<Rightarrow> signing_error + bool"

datatype verify_error = EnvelopeIsNull | VerifyReceipt receipt_error

definition check :: "string \<Rightarrow> bool \<Rightarrow> verify_detail \<Rightarrow> DecisionReceiptVerificationCheck" where
  "check name passed detail = \<lparr>vc_name = js name, vc_passed = passed, vc_detail = detail\<rparr>"

definition parseDecisionReceiptSignatureEnvelope :: "(jstr \<Rightarrow> jsval option) \<Rightarrow> jstr \<Rightarrow> jsval" where
  "parseDecisionReceiptSignatureEnvelope json_parse s = or_default (JObj []) (json_parse (utf8_decode (base64_decode s)))"

text \<open>A property of a parsed envelope when it is a string, and the empty string otherwise.\<close>

definition embedded :: "jsval \<Rightarrow> string \<Rightarrow> jstr" where
  "embedded v k = (case v of JObj es \<Rightarrow> or_default [] (get_string es k) | _ \<Rightarrow> [])"

definition envelope_check :: "(jstr \<Rightarrow> jsval option) \<Rightarrow> SignedDecisionReceipt \<Rightarrow> DecisionReceiptVerificationCheck" where
  "envelope_check json_parse r =
     (case decodeDecisionReceiptSignatureEnvelope json_parse (r_receipt_signature r) of
        Inl e \<Rightarrow> check ''envelope'' False (EnvelopeBad e)
      | Inr v \<Rightarrow>
          if se_algorithm v \<noteq> r_signature_alg r then check ''envelope'' False EnvelopeAlgorithm
          else check ''envelope'' True EnvelopeStrict)"

definition key_id_ok :: "SignatureAlg \<Rightarrow> jstr \<Rightarrow> jstr option \<Rightarrow> bool" where
  "key_id_ok alg keyId expected \<longleftrightarrow>
     (if alg = KMS_SIGN_RSASSA_PSS_SHA_256
      then isImmutableKmsKeyId keyId \<and> (or_default [] expected = [] \<or> immutableKmsKeyIdsMatch keyId (or_default [] expected))
      else keyId \<noteq> [] \<and> (or_default [] expected = [] \<or> keyId = or_default [] expected))"

definition key_id_detail :: "SignatureAlg \<Rightarrow> jstr \<Rightarrow> jstr option \<Rightarrow> verify_detail" where
  "key_id_detail alg keyId expected =
     (if keyId = [] then NoKeyId
      else if alg = KMS_SIGN_RSASSA_PSS_SHA_256 \<and> \<not> isImmutableKmsKeyId keyId then KeyNotImmutable
      else if or_default [] expected \<noteq> [] \<and>
        (if alg = KMS_SIGN_RSASSA_PSS_SHA_256 then \<not> immutableKmsKeyIdsMatch keyId (or_default [] expected) else keyId \<noteq> or_default [] expected)
      then KeyMismatch else KeyPresent)"

definition signature_check ::
  "DecisionReceiptCanonicalVerifier \<Rightarrow> SignedDecisionReceipt \<Rightarrow> jstr \<Rightarrow> jsval \<Rightarrow> DecisionReceiptVerificationCheck" where
  "signature_check verifier r payload envelope =
     (let sig = embedded envelope ''signature'' in
      if sig = [] then check ''signature'' False NoSignature
      else if r_signature_alg r \<noteq> cv_algorithm verifier then check ''signature'' False SkippedForAlgorithm
      else if \<not> key_id_ok (r_signature_alg r) (embedded envelope ''keyId'') (cv_keyId verifier) then check ''signature'' False SkippedForKey
      else
        (case cv_verify verifier payload sig r envelope of
           Inl e \<Rightarrow> check ''signature'' False (SignatureRaised e)
         | Inr ok \<Rightarrow> check ''signature'' ok SignatureChecked))"

text \<open>The checks on a receipt that matches the schema, in the order the code makes them.\<close>

definition receipt_checks ::
  "receipt_env \<Rightarrow> (jstr \<Rightarrow> jsval option) \<Rightarrow> DecisionReceiptCanonicalVerifier \<Rightarrow> KeyManifest option \<Rightarrow> SignedDecisionReceipt \<Rightarrow>
     jstr \<Rightarrow> jstr \<Rightarrow> jstr \<Rightarrow> jsval \<Rightarrow> DecisionReceiptVerificationCheck list" where
  "receipt_checks env json_parse verifier manifest r expectedId payload digest envelope =
     (let keyId = embedded envelope ''keyId''; alg = r_signature_alg r; embeddedDigest = embedded envelope ''digestSha256'' in
      [check ''receipt_id'' (expectedId = r_receipt_id r)
         (if expectedId = r_receipt_id r then IdMatches else IdMismatch expectedId (r_receipt_id r)),
       check ''algorithm'' (alg = cv_algorithm verifier) (if alg = cv_algorithm verifier then AlgorithmExpected else AlgorithmUnexpected),
       envelope_check json_parse r,
       check ''key_id'' (key_id_ok alg keyId (cv_keyId verifier)) (key_id_detail alg keyId (cv_keyId verifier))] @
      (case manifest of
         None \<Rightarrow> []
       | Some m \<Rightarrow>
           let c = verifyKeyManifestEpoch env m keyId (alg_name alg) (r_timestamp r)
           in [\<lparr>vc_name = mc_name c, vc_passed = mc_passed c, vc_detail = ManifestDetail (mc_detail c)\<rparr>]) @
      [check ''digest'' (embeddedDigest = digest) (if embeddedDigest = digest then DigestMatches else DigestMismatch digest embeddedDigest),
       check ''canonical_payload'' (payload \<noteq> []) (if payload \<noteq> [] then PayloadRecomputed else PayloadEmpty),
       signature_check verifier r payload envelope])"

definition verifyDecisionReceipt ::
  "receipt_env \<Rightarrow> (jstr \<Rightarrow> jsval option) \<Rightarrow> jsval \<Rightarrow> DecisionReceiptCanonicalVerifier \<Rightarrow> KeyManifest option \<Rightarrow>
     verify_error + DecisionReceiptVerificationResult" where
  "verifyDecisionReceipt env json_parse value verifier manifest =
     (case parseSigned env value of
        Inl e \<Rightarrow> Inr \<lparr>vr_verdict = False, vr_checks = [check ''schema'' False (SchemaBad e)]\<rparr>
      | Inr r \<Rightarrow>
          (case unsignedReceiptForSigning env r of
             Inl e \<Rightarrow> Inl (VerifyReceipt e)
           | Inr u \<Rightarrow>
               (case (receiptIdFromUnsignedDecisionReceipt env u, canonicalUnsignedDecisionReceipt env r, decisionReceiptDigest env r) of
                  (Inr expectedId, Inr payload, Inr digest) \<Rightarrow>
                    (let envelope = parseDecisionReceiptSignatureEnvelope json_parse (r_receipt_signature r) in
                     if envelope = JNull then Inl EnvelopeIsNull
                     else
                       (let checks = check ''schema'' True SchemaOk
                              # receipt_checks env json_parse verifier manifest r expectedId payload digest envelope
                        in Inr \<lparr>vr_verdict = list_all vc_passed checks, vr_checks = checks\<rparr>))
                | (Inl e, _, _) \<Rightarrow> Inl (VerifyReceipt e)
                | (_, Inl e, _) \<Rightarrow> Inl (VerifyReceipt e)
                | (_, _, Inl e) \<Rightarrow> Inl (VerifyReceipt e))))"

subsection \<open>Envelopes round trip\<close>

text \<open>\<open>JSON.stringify\<close> escapes lone surrogates, so that every canonical text survives UTF-8.\<close>

lemma surrogates_agree: "is_high_surrogate c \<longleftrightarrow> is_high c" "is_low_surrogate c \<longleftrightarrow> is_low c"
  by (auto simp: is_high_surrogate_def is_low_surrogate_def is_high_def is_low_def word_le_nat_alt)

lemma paired_small: "list_all (\<lambda>c. unat c < 0xD800) s \<Longrightarrow> paired s"
  by (induction s rule: paired.induct) (auto simp: is_high_def is_low_def)

lemma hex_small: "is_lower_hex c \<Longrightarrow> unat c < 0xD800"
  by (auto simp: is_lower_hex_def is_digit_def word_le_nat_alt)

lemma paired_hex4: "paired (92 # 117 # hex4 c)"
proof (rule paired_small)
  have "is_lower_hex (hex_digit (x mod 16))" for x by (rule is_lower_hex_hex_digit) simp_all
  then have "unat (hex_digit (x mod 16)) < 0xD800" for x by (rule hex_small)
  then show "list_all (\<lambda>c. unat c < 0xD800) (92 # 117 # hex4 c)" by (simp only: hex4_def list.map list.pred_inject simp_thms) simp
qed

lemma paired_escape: "paired (escape_unit c)"
proof (cases "c < 32 \<or> is_high c \<or> is_low c")
  case True
  have "paired [92, x]" if "unat x < 0xD800" for x using that by (intro paired_small) simp
  then show ?thesis using True paired_hex4 by (simp only: escape_unit_def surrogates_agree) auto
next
  case False
  then show ?thesis by (auto simp: escape_unit_def surrogates_agree is_high_def is_low_def)
qed

lemma paired_quote: "paired (quote_units s)"
proof (induction s rule: quote_units.induct)
  case (3 c d s)
  then show ?case by (auto simp: surrogates_agree intro!: paired_append paired_escape)
qed (simp_all add: paired_escape)

lemma paired_stringify: "paired (stringify_string s)"
proof -
  have "paired ([34] @ quote_units s @ [34])" by (intro paired_append paired_quote) (simp_all add: is_high_def is_low_def)
  then show ?thesis by (simp add: stringify_string_def)
qed

text \<open>What the code relies on of \<open>JSON.parse\<close>: it reads the canonical text of a value back.\<close>

definition parses :: "(jstr \<Rightarrow> jsval option) \<Rightarrow> jsval \<Rightarrow> bool" where
  "parses json_parse v \<longleftrightarrow> (\<forall>t. canonical_text v = Inr t \<longrightarrow> json_parse t = Some (norm_val v))"

definition sorted_entries :: "DecisionReceiptSignatureEnvelope \<Rightarrow> (jstr \<times> jsval) list" where
  "sorted_entries v =
     [(js ''algorithm'', JStr (alg_name (se_algorithm v))), (js ''digestSha256'', JStr (se_digestSha256 v)),
      (js ''keyId'', JStr (se_keyId v)), (js ''schemaVersion'', JStr (js ''ghost.decision_receipt_signature.v1'')),
      (js ''signature'', JStr (se_signature v))]"

lemma envelope_key_order:
  "js ''algorithm'' \<le> js ''digestSha256''" "\<not> js ''digestSha256'' \<le> js ''algorithm''" "js ''algorithm'' \<le> js ''keyId''" "\<not> js ''keyId'' \<le> js ''algorithm''"
  "js ''algorithm'' \<le> js ''schemaVersion''" "\<not> js ''schemaVersion'' \<le> js ''algorithm''" "js ''algorithm'' \<le> js ''signature''" "\<not> js ''signature'' \<le> js ''algorithm''"
  "js ''digestSha256'' \<le> js ''keyId''" "\<not> js ''keyId'' \<le> js ''digestSha256''" "js ''digestSha256'' \<le> js ''schemaVersion''" "\<not> js ''schemaVersion'' \<le> js ''digestSha256''"
  "js ''digestSha256'' \<le> js ''signature''" "\<not> js ''signature'' \<le> js ''digestSha256''" "js ''keyId'' \<le> js ''schemaVersion''" "\<not> js ''schemaVersion'' \<le> js ''keyId''"
  "js ''keyId'' \<le> js ''signature''" "\<not> js ''signature'' \<le> js ''keyId''" "js ''schemaVersion'' \<le> js ''signature''" "\<not> js ''signature'' \<le> js ''schemaVersion''"
  by code_simp+

lemma norm_envelope: "norm_val (JObj (envelope_entries v)) = JObj (sorted_entries v)"
  by (simp add: envelope_entries_def sorted_entries_def sort_by_def key_le_iff envelope_key_order)

lemma envelope_text: "canonical_text (JObj (envelope_entries v)) = Inr (print_val (JObj (sorted_entries v)))"
proof -
  have "json_shaped (JObj (envelope_entries v))" by (simp add: envelope_entries_def)
  from canonicalize_norm [OF this] show ?thesis by (simp only: canonical_text_def norm_envelope sum.case)
qed

lemma paired_envelope: "paired (print_val (JObj (sorted_entries v)))"
proof -
  have one: "paired [c]" if "unat c < 0xD800" for c using that by (simp add: is_high_def is_low_def)
  have entry: "paired (stringify_string k @ [58] @ stringify_string x)" for k x
    by (intro paired_append paired_stringify one) simp
  have "paired ([123] @ (stringify_string (js ''algorithm'') @ [58] @ stringify_string (alg_name (se_algorithm v))) @ [44] @
      (stringify_string (js ''digestSha256'') @ [58] @ stringify_string (se_digestSha256 v)) @ [44] @
      (stringify_string (js ''keyId'') @ [58] @ stringify_string (se_keyId v)) @ [44] @
      (stringify_string (js ''schemaVersion'') @ [58] @ stringify_string (js ''ghost.decision_receipt_signature.v1'')) @ [44] @
      (stringify_string (js ''signature'') @ [58] @ stringify_string (se_signature v)) @ [125])"
    by (intro paired_append entry one) simp_all
  then show ?thesis by (simp add: sorted_entries_def)
qed

lemma sorted_keys: "sort_by (\<le>) (map fst (sorted_entries v)) = sort_by (\<le>) envelope_keys"
    "sort_by (\<le>) (map fst (envelope_entries v)) = sort_by (\<le>) envelope_keys"
  by (simp_all add: sorted_entries_def envelope_entries_def envelope_keys_def sort_by_def envelope_key_order)

lemma entries_lookup:
  "map_of (sorted_entries v) (js ''schemaVersion'') = Some (JStr (js ''ghost.decision_receipt_signature.v1''))"
  "get_string (sorted_entries v) ''algorithm'' = Some (alg_name (se_algorithm v))" "get_string (sorted_entries v) ''keyId'' = Some (se_keyId v)"
  "get_string (sorted_entries v) ''digestSha256'' = Some (se_digestSha256 v)" "get_string (sorted_entries v) ''signature'' = Some (se_signature v)"
  "map_of (envelope_entries v) (js ''schemaVersion'') = Some (JStr (js ''ghost.decision_receipt_signature.v1''))"
  "get_string (envelope_entries v) ''algorithm'' = Some (alg_name (se_algorithm v))" "get_string (envelope_entries v) ''keyId'' = Some (se_keyId v)"
  "get_string (envelope_entries v) ''digestSha256'' = Some (se_digestSha256 v)" "get_string (envelope_entries v) ''signature'' = Some (se_signature v)"
  by (simp_all add: sorted_entries_def envelope_entries_def get_string_def)

lemma alg_of_name [simp]: "alg_of (alg_name a) = Some a"
  by (cases a) (simp_all add: alg_of_def all_algs_def)

definition envelope_ok :: "DecisionReceiptSignatureEnvelope \<Rightarrow> bool" where
  "envelope_ok v \<longleftrightarrow> se_keyId v \<noteq> [] \<and> hex64 (se_digestSha256 v) \<and> assertStandardBase64Signature (se_signature v) = Inr ()"

lemma shape_entries:
  "(\<exists>w. assertEnvelopeShape (envelope_entries v) = Inr w) \<longleftrightarrow> envelope_ok v"
  "envelope_ok v \<Longrightarrow> assertEnvelopeShape (sorted_entries v) = Inr v"
  by (auto simp: assertEnvelopeShape_def sorted_keys entries_lookup envelope_ok_def split: sum.split)

lemma encode_envelope:
  "encodeDecisionReceiptSignatureEnvelope v = Inr t \<longleftrightarrow> envelope_ok v \<and> t = base64url (utf8_encode (print_val (JObj (sorted_entries v))))"
  using shape_entries(1) [of v]
  by (auto simp: encodeDecisionReceiptSignatureEnvelope_def envelope_text split: sum.split)

lemma utf8_encode_Nil [simp]: "utf8_encode s = [] \<longleftrightarrow> s = []"
proof -
  have "utf8_of p \<noteq> []" for p by (simp add: utf8_of_def)
  then show ?thesis by (cases s rule: code_points.cases) (auto simp: utf8_encode_def)
qed

lemma envelope_bytes:
  assumes "parses json_parse (JObj (envelope_entries v))"
  shows "json_parse (utf8_decode (base64_decode (base64url (utf8_encode (print_val (JObj (sorted_entries v))))))) = Some (JObj (sorted_entries v))"
  using assms by (simp only: parses_def envelope_text norm_envelope base64_round_trip utf8_round_trip [OF paired_well_formed [OF paired_envelope]] simp_thms)

lemma envelope_round_trip:
  assumes "encodeDecisionReceiptSignatureEnvelope v = Inr t" and "parses json_parse (JObj (envelope_entries v))"
  shows "decodeDecisionReceiptSignatureEnvelope json_parse t = Inr v"
    and "parseDecisionReceiptSignatureEnvelope json_parse t = JObj (sorted_entries v)"
proof -
  have ok: "envelope_ok v" and t: "t = base64url (utf8_encode (print_val (JObj (sorted_entries v))))"
    using assms(1) by (simp_all only: encode_envelope)
  have "print_val (JObj (sorted_entries v)) \<noteq> []" by simp
  then have "base64url_text t" unfolding t by (intro base64url_text_base64url) (simp only: utf8_encode_Nil not_False_eq_True)
  moreover have bytes: "json_parse (utf8_decode (base64_decode t)) = Some (JObj (sorted_entries v))"
    unfolding t by (rule envelope_bytes [OF assms(2)])
  ultimately show "decodeDecisionReceiptSignatureEnvelope json_parse t = Inr v"
    using shape_entries(2) [OF ok] by (simp add: decodeDecisionReceiptSignatureEnvelope_def base64url_text_def)
  show "parseDecisionReceiptSignatureEnvelope json_parse t = JObj (sorted_entries v)"
    by (simp add: parseDecisionReceiptSignatureEnvelope_def or_default_def bytes)
qed

subsection \<open>Signed receipts verify\<close>

lemma extend_fields [simp]:
  "UnsignedDecisionReceipt.truncate (UnsignedDecisionReceipt.extend u x) = u"
  "r_receipt_id (UnsignedDecisionReceipt.extend u x) = r_receipt_id u"
  "r_signature_alg (UnsignedDecisionReceipt.extend u x) = r_signature_alg u"
  "r_timestamp (UnsignedDecisionReceipt.extend u x) = r_timestamp u"
  "valid_unsigned env (UnsignedDecisionReceipt.extend u x) = valid_unsigned env u"
  "r_receipt_signature (UnsignedDecisionReceipt.extend u \<lparr>r_receipt_signature = s\<rparr>) = s"
  by (simp_all add: UnsignedDecisionReceipt.defs valid_unsigned_def)

lemma truncate_unsigned [simp]: "UnsignedDecisionReceipt.truncate (u :: UnsignedDecisionReceipt) = u"
  by (simp add: UnsignedDecisionReceipt.defs)

lemma signed_canonical [simp]:
  "unsignedReceiptForSigning env (UnsignedDecisionReceipt.extend u x) = unsignedReceiptForSigning env u"
  "canonicalUnsignedDecisionReceipt env (UnsignedDecisionReceipt.extend u x) = canonicalUnsignedDecisionReceipt env u"
  "decisionReceiptDigest env (UnsignedDecisionReceipt.extend u x) = decisionReceiptDigest env u"
proof -
  show "unsignedReceiptForSigning env (UnsignedDecisionReceipt.extend u x) = unsignedReceiptForSigning env u"
    by (simp add: unsignedReceiptForSigning_def)
  then show "canonicalUnsignedDecisionReceipt env (UnsignedDecisionReceipt.extend u x) = canonicalUnsignedDecisionReceipt env u"
    by (simp add: canonicalUnsignedDecisionReceipt_def)
  then show "decisionReceiptDigest env (UnsignedDecisionReceipt.extend u x) = decisionReceiptDigest env u"
    by (simp add: decisionReceiptDigest_def)
qed

lemma payload_nonempty: "canonicalUnsignedDecisionReceipt env r = Inr t \<Longrightarrow> t \<noteq> []"
  by (auto simp: canonicalUnsignedDecisionReceipt_def canonical_text_def unsigned_json_def brackets_def split: sum.splits if_splits)

lemma sign_eq:
  assumes "signDecisionReceipt env u signer = Inr s"
  obtains payload sig digest v t where "sg_keyId signer \<noteq> []" "r_signature_alg u = sg_algorithm signer"
    "canonicalUnsignedDecisionReceipt env u = Inr payload" "sg_sign signer payload = Inr sig"
    "assertStandardBase64Signature sig = Inr ()" "decisionReceiptDigest env u = Inr digest"
    "buildDecisionReceiptSignatureEnvelope env u signer = Inr v"
    "v = \<lparr>se_keyId = sg_keyId signer, se_algorithm = sg_algorithm signer, se_digestSha256 = digest, se_signature = sig\<rparr>"
    "encodeDecisionReceiptSignatureEnvelope v = Inr t" "s = UnsignedDecisionReceipt.extend u \<lparr>r_receipt_signature = t\<rparr>"
    "valid_signed env s" "valid_unsigned env u"
proof -
  have u: "valid_unsigned env u"
    using assms by (auto simp: signDecisionReceipt_def validateUnsignedDecisionReceipt_def split: if_splits)
  then obtain v t where v: "buildDecisionReceiptSignatureEnvelope env u signer = Inr v" "encodeDecisionReceiptSignatureEnvelope v = Inr t"
    "s = UnsignedDecisionReceipt.extend u \<lparr>r_receipt_signature = t\<rparr>" "valid_signed env s"
    using assms by (auto simp: signDecisionReceipt_def validateUnsignedDecisionReceipt_def validateSignedDecisionReceipt_def
        split: sum.splits if_splits)
  from v(1) u obtain payload sig digest where "sg_keyId signer \<noteq> []" "r_signature_alg u = sg_algorithm signer"
    "canonicalUnsignedDecisionReceipt env u = Inr payload" "sg_sign signer payload = Inr sig"
    "assertStandardBase64Signature sig = Inr ()" "decisionReceiptDigest env u = Inr digest"
    "v = \<lparr>se_keyId = sg_keyId signer, se_algorithm = sg_algorithm signer, se_digestSha256 = digest, se_signature = sig\<rparr>"
    by (auto simp: buildDecisionReceiptSignatureEnvelope_def validateUnsignedDecisionReceipt_def split: if_splits sum.splits)
  from that [OF this(1-6) v(1) this(7) v(2-4) u] show thesis .
qed

text \<open>What a signer and a verifier promise each other.\<close>

locale signature_scheme =
  fixes signer :: DecisionReceiptSigner and verifier :: DecisionReceiptCanonicalVerifier
  assumes same_algorithm: "cv_algorithm verifier = sg_algorithm signer"
    and same_key: "sg_keyId signer \<noteq> [] \<Longrightarrow> key_id_ok (sg_algorithm signer) (sg_keyId signer) (cv_keyId verifier)"
    and accepts: "sg_sign signer payload = Inr sig \<Longrightarrow> assertStandardBase64Signature sig = Inr () \<Longrightarrow>
      cv_verify verifier payload sig r envelope = Inr True"
begin

lemma own_signature_verifies:
  assumes signed: "signDecisionReceipt env u signer = Inr s"
    and own_id: "receiptIdFromUnsignedDecisionReceipt env u = Inr (r_receipt_id u)"
    and parse: "\<And>v. buildDecisionReceiptSignatureEnvelope env u signer = Inr v \<Longrightarrow> parses json_parse (JObj (envelope_entries v))"
  shows "\<exists>cs. verifyDecisionReceipt env json_parse (signed_json s) verifier None = Inr \<lparr>vr_verdict = True, vr_checks = cs\<rparr>"
proof (rule sign_eq [OF signed])
  fix payload sig digest v t
  assume a: "sg_keyId signer \<noteq> []" "r_signature_alg u = sg_algorithm signer"
    "canonicalUnsignedDecisionReceipt env u = Inr payload" "sg_sign signer payload = Inr sig"
    "assertStandardBase64Signature sig = Inr ()" "decisionReceiptDigest env u = Inr digest"
    "buildDecisionReceiptSignatureEnvelope env u signer = Inr v"
    and v: "v = \<lparr>se_keyId = sg_keyId signer, se_algorithm = sg_algorithm signer, se_digestSha256 = digest, se_signature = sig\<rparr>"
    and t: "encodeDecisionReceiptSignatureEnvelope v = Inr t" and s: "s = UnsignedDecisionReceipt.extend u \<lparr>r_receipt_signature = t\<rparr>"
    and valid: "valid_signed env s" "valid_unsigned env u"
  note trip = envelope_round_trip [OF t parse [OF a(7)]]
  have emb: "embedded (JObj (sorted_entries v)) ''keyId'' = sg_keyId signer" "embedded (JObj (sorted_entries v)) ''digestSha256'' = digest"
    "embedded (JObj (sorted_entries v)) ''signature'' = sig"
    by (simp_all add: embedded_def entries_lookup or_default_def v)
  have alg: "se_algorithm v = sg_algorithm signer" by (simp add: v)
  have "payload \<noteq> []" using a(3) by (rule payload_nonempty)
  have "sig \<noteq> []" using a(5) by (auto simp: assertStandardBase64Signature_def)
  have "list_all vc_passed (receipt_checks env json_parse verifier None s (r_receipt_id u) payload digest (JObj (sorted_entries v)))"
    using a \<open>payload \<noteq> []\<close> \<open>sig \<noteq> []\<close> trip(1) same_key same_algorithm accepts
    by (simp add: receipt_checks_def Let_def check_def s envelope_check_def alg emb signature_check_def)
  moreover have "unsignedReceiptForSigning env u = Inr u" using valid by (simp add: unsignedReceiptForSigning_def validateUnsignedDecisionReceipt_def)
  ultimately show ?thesis
    using parseSigned_signed_json [OF valid(1)] a(3,6) own_id trip(2)
    by (simp add: verifyDecisionReceipt_def s Let_def check_def)
qed

end

text \<open>The local development signer and its verifier, after their constructor's checks.\<close>

definition local_signer :: "(jstr \<Rightarrow> jstr \<Rightarrow> byte list) \<Rightarrow> jstr \<Rightarrow> jstr \<Rightarrow> DecisionReceiptSigner" where
  "local_signer hmac_bytes keyId secret =
     \<lparr>sg_keyId = keyId, sg_algorithm = LOCAL_HMAC_SHA256_DEV_ONLY,
      sg_sign = \<lambda>payload. if payload = [] then Inl (EmptyField (js ''canonicalPayload'')) else Inr (base64 (hmac_bytes secret payload))\<rparr>"

definition local_verifier :: "(jstr \<Rightarrow> jstr \<Rightarrow> byte list) \<Rightarrow> jstr \<Rightarrow> jstr \<Rightarrow> DecisionReceiptCanonicalVerifier" where
  "local_verifier hmac_bytes keyId secret =
     \<lparr>cv_algorithm = LOCAL_HMAC_SHA256_DEV_ONLY, cv_keyId = Some keyId,
      cv_verify = \<lambda>payload sig _ _. localVerifyCanonical hmac_bytes secret payload sig\<rparr>"

lemma local_constructor:
  "LocalDevHmacReceiptSigner hmac_bytes keyId secret = Inr signer \<Longrightarrow>
     signer = local_signer hmac_bytes (or_default (js ''local-dev-hmac'') keyId) secret"
  by (simp add: LocalDevHmacReceiptSigner_def local_signer_def split: if_splits)

interpretation local_hmac: signature_scheme "local_signer hmac_bytes keyId secret" "local_verifier hmac_bytes keyId secret"
  for hmac_bytes keyId secret
  by unfold_locales
    (auto simp: local_signer_def local_verifier_def key_id_ok_def localVerifyCanonical_def or_default_def split: if_splits)

lemma built_id:
  assumes "buildUnsignedDecisionReceipt env inp = Inr u" and "b_receipt_id inp = None"
  shows "receiptIdFromUnsignedDecisionReceipt env u = Inr (r_receipt_id u)"
proof -
  obtain i where i: "receiptIdFromUnsignedDecisionReceipt env (without_id inp) = Inr i" "u = (without_id inp)\<lparr>r_receipt_id := i\<rparr>"
    using build_eq_Inr [OF assms] by blast
  have "without_id_json u = without_id_json (without_id inp)"
    by (simp add: i(2) without_id_json_def prev_entry_def body_entries_def)
  then show ?thesis using i by (simp add: receiptIdFromUnsignedDecisionReceipt_def)
qed

lemma canonical_ok:
  assumes "valid_unsigned env u" and "wf_receipt_numbers u"
  shows "canonicalUnsignedDecisionReceipt env (u :: UnsignedDecisionReceipt) = Inr (print_val (norm_val (unsigned_json u)))"
    and "decisionReceiptDigest env u = Inr (sha256 env (print_val (norm_val (unsigned_json u))))"
proof -
  show c: "canonicalUnsignedDecisionReceipt env u = Inr (print_val (norm_val (unsigned_json u)))"
    using assms canonicalize_norm [of "unsigned_json u"]
    by (simp add: canonicalUnsignedDecisionReceipt_def unsignedReceiptForSigning_def validateUnsignedDecisionReceipt_def
        canonical_text_def json_shaped_unsigned)
  show "decisionReceiptDigest env u = Inr (sha256 env (print_val (norm_val (unsigned_json u))))"
    by (simp add: decisionReceiptDigest_def c)
qed

lemma base64_Nil [simp]: "base64 bs = [] \<longleftrightarrow> bs = []"
  by (auto simp: base64_def elim: sextets.elims)

lemma base64_signature: "bs \<noteq> [] \<Longrightarrow> assertStandardBase64Signature (base64 bs) = Inr ()"
  by (simp add: assertStandardBase64Signature_def standard_base64_base64)

lemma local_signing_succeeds:
  assumes "valid_unsigned env u" and "wf_receipt_numbers u" and "hex_digests (sha256 env)"
    and "r_signature_alg u = LOCAL_HMAC_SHA256_DEV_ONLY" and "keyId \<noteq> []" and "\<And>p. hmac_bytes secret p \<noteq> []"
  shows "\<exists>s. signDecisionReceipt env u (local_signer hmac_bytes keyId secret) = Inr s"
proof -
  define payload where "payload = print_val (norm_val (unsigned_json u))"
  have c: "canonicalUnsignedDecisionReceipt env u = Inr payload" "decisionReceiptDigest env u = Inr (sha256 env payload)"
    using canonical_ok [OF assms(1,2)] by (simp_all add: payload_def)
  define v where "v = \<lparr>se_keyId = keyId, se_algorithm = LOCAL_HMAC_SHA256_DEV_ONLY, se_digestSha256 = sha256 env payload,
    se_signature = base64 (hmac_bytes secret payload)\<rparr>"
  have sig: "assertStandardBase64Signature (base64 (hmac_bytes secret payload)) = Inr ()" by (rule base64_signature [OF assms(6)])
  have "buildDecisionReceiptSignatureEnvelope env u (local_signer hmac_bytes keyId secret) = Inr v"
    using assms(1,4,5) c payload_nonempty [OF c(1)] sig
    by (simp add: buildDecisionReceiptSignatureEnvelope_def validateUnsignedDecisionReceipt_def local_signer_def v_def)
  moreover have "envelope_ok v" using assms(3,5) sig by (simp add: envelope_ok_def v_def hex_digests_def)
  then obtain t where t: "encodeDecisionReceiptSignatureEnvelope v = Inr t" using encode_envelope by blast
  moreover have "t \<noteq> []"
  proof -
    have "print_val (JObj (sorted_entries v)) \<noteq> []" by simp
    then have "base64url_text t"
      using t base64url_text_base64url utf8_encode_Nil unfolding encode_envelope by blast
    then show ?thesis by (simp add: base64url_text_def)
  qed
  ultimately show ?thesis
    using assms(1) by (simp add: signDecisionReceipt_def validateUnsignedDecisionReceipt_def validateSignedDecisionReceipt_def valid_signed_def)
qed


definition sample_signer :: DecisionReceiptSigner where
  "sample_signer = local_signer (\<lambda>_ _. [1, 2, 3]) (js ''k'') (js ''secret'')"

definition sample_parse :: "jstr \<Rightarrow> jsval option" where
  "sample_parse t =
     (case buildDecisionReceiptSignatureEnvelope sample_env (built_sample [js ''a'']) sample_signer of
        Inl _ \<Rightarrow> None
      | Inr v \<Rightarrow> Some (norm_val (JObj (envelope_entries v))))"

lemma sample_facts:
  shows "buildUnsignedDecisionReceipt sample_env (sample_build [js ''a'']) = Inr (built_sample [js ''a''])"
    and "b_receipt_id (sample_build [js ''a'']) = None" and "wf_receipt_numbers (built_sample [js ''a''])"
    and "r_signature_alg (built_sample [js ''a'']) = LOCAL_HMAC_SHA256_DEV_ONLY" and "hex_digests (sha256 sample_env)"
    and "LocalDevHmacReceiptSigner (\<lambda>_ _. [1, 2, 3]) (Some (js ''k'')) (js ''secret'') = Inr sample_signer"
    and "buildDecisionReceiptSignatureEnvelope sample_env (built_sample [js ''a'']) sample_signer = Inr v \<Longrightarrow>
      parses sample_parse (JObj (envelope_entries v))"
  using build_sample [of "[js ''a'']", simplified]
  by (simp_all add: sample_build_def built_sample_def without_id_def sample_receipt_def UnsignedDecisionReceipt.defs sample_env_def hex_digests_sample
      LocalDevHmacReceiptSigner_def sample_signer_def local_signer_def or_default_def parses_def sample_parse_def del: norm_val.simps)

lemma sample_verifies:
  "\<exists>s cs. signDecisionReceipt sample_env (built_sample [js ''a'']) sample_signer = Inr s
     \<and> verifyDecisionReceipt sample_env sample_parse (signed_json s) (local_verifier (\<lambda>_ _. [1, 2, 3]) (js ''k'') (js ''secret'')) None
       = Inr \<lparr>vr_verdict = True, vr_checks = cs\<rparr>"
proof -
  have "valid_unsigned sample_env (built_sample [js ''a''])" using build_eq_Inr [OF sample_facts(1,2)] by blast
  then obtain s where s: "signDecisionReceipt sample_env (built_sample [js ''a'']) sample_signer = Inr s"
    using local_signing_succeeds [of sample_env "built_sample [js ''a'']" "js ''k''" "\<lambda>_ _. [1, 2, 3]" "js ''secret''"] sample_facts(3-5)
    by (auto simp: sample_signer_def)
  from local_hmac.own_signature_verifies [OF s [unfolded sample_signer_def] built_id [OF sample_facts(1,2)]
      sample_facts(7) [unfolded sample_signer_def]] s
  show ?thesis by blast
qed


subsection \<open>What a verdict means\<close>

lemma strict_envelope:
  assumes "decodeDecisionReceiptSignatureEnvelope json_parse s = Inr v"
  obtains es where "parseDecisionReceiptSignatureEnvelope json_parse s = JObj es" "embedded (JObj es) ''keyId'' = se_keyId v"
    "embedded (JObj es) ''digestSha256'' = se_digestSha256 v" "embedded (JObj es) ''signature'' = se_signature v"
proof -
  obtain es where es: "json_parse (utf8_decode (base64_decode s)) = Some (JObj es)" "assertEnvelopeShape es = Inr v"
    using assms by (auto simp: decodeDecisionReceiptSignatureEnvelope_def split: if_splits option.splits jsval.splits)
  then have "get_string es ''keyId'' = Some (se_keyId v)" "get_string es ''digestSha256'' = Some (se_digestSha256 v)"
    "get_string es ''signature'' = Some (se_signature v)"
    by (auto simp: assertEnvelopeShape_def split: if_splits option.splits sum.splits)
  with es(1) show thesis by (intro that [of es]) (simp_all add: parseDecisionReceiptSignatureEnvelope_def embedded_def or_default_def)
qed

text \<open>
  Claim C19. A verdict is as strong as the signature: if verification gives the verdict true, the
  value is a receipt of the schema whose identifier is the hash of its contents, its signature is a strict envelope of the
  receipt's and the verifier's algorithm that names an accepted key and the digest of the receipt, the key's epoch covers the
  timestamp when a manifest is given, and the verifier accepted the envelope's signature on the receipt's own canonical payload.
\<close>

theorem verdict_is_sound:
  assumes "verifyDecisionReceipt env json_parse value verifier manifest = Inr res" and "vr_verdict res"
  shows "\<exists>r payload v envelope. parseSigned env value = Inr r
    \<and> receiptIdFromUnsignedDecisionReceipt env (UnsignedDecisionReceipt.truncate r) = Inr (r_receipt_id r)
    \<and> canonicalUnsignedDecisionReceipt env r = Inr payload
    \<and> decodeDecisionReceiptSignatureEnvelope json_parse (r_receipt_signature r) = Inr v
    \<and> se_algorithm v = r_signature_alg r \<and> cv_algorithm verifier = r_signature_alg r
    \<and> key_id_ok (r_signature_alg r) (se_keyId v) (cv_keyId verifier)
    \<and> se_digestSha256 v = sha256 env payload
    \<and> (case manifest of None \<Rightarrow> True
        | Some m \<Rightarrow> mc_passed (verifyKeyManifestEpoch env m (se_keyId v) (alg_name (r_signature_alg r)) (r_timestamp r)))
    \<and> cv_verify verifier payload (se_signature v) r envelope = Inr True"
proof -
  obtain r where r: "parseSigned env value = Inr r" using assms by (auto simp: verifyDecisionReceipt_def split: sum.splits)
  then have u: "unsignedReceiptForSigning env r = Inr (UnsignedDecisionReceipt.truncate r)"
    by (rule parseSigned_eq_Inr) (simp add: unsignedReceiptForSigning_def validateUnsignedDecisionReceipt_def valid_signed_def)
  obtain i payload digest where p: "receiptIdFromUnsignedDecisionReceipt env (UnsignedDecisionReceipt.truncate r) = Inr i"
    "canonicalUnsignedDecisionReceipt env r = Inr payload" "decisionReceiptDigest env r = Inr digest"
    using assms r u by (auto simp: verifyDecisionReceipt_def split: sum.splits)
  define envelope where "envelope = parseDecisionReceiptSignatureEnvelope json_parse (r_receipt_signature r)"
  have checks: "list_all vc_passed (receipt_checks env json_parse verifier manifest r i payload digest envelope)"
    using assms r u p by (auto simp: verifyDecisionReceipt_def Let_def envelope_def split: if_splits)
  then obtain v where v: "decodeDecisionReceiptSignatureEnvelope json_parse (r_receipt_signature r) = Inr v" "se_algorithm v = r_signature_alg r"
    by (auto simp: receipt_checks_def Let_def envelope_check_def check_def split: sum.splits if_splits)
  obtain es where "envelope = JObj es" and emb: "embedded envelope ''keyId'' = se_keyId v" "embedded envelope ''digestSha256'' = se_digestSha256 v"
    "embedded envelope ''signature'' = se_signature v"
    using strict_envelope [OF v(1)] by (metis envelope_def)
  have "digest = sha256 env payload" using p(2,3) by (simp add: decisionReceiptDigest_def)
  moreover have "i = r_receipt_id r" "cv_algorithm verifier = r_signature_alg r" "key_id_ok (r_signature_alg r) (se_keyId v) (cv_keyId verifier)"
    "se_digestSha256 v = digest" "vc_passed (signature_check verifier r payload envelope)"
    "case manifest of None \<Rightarrow> True
        | Some m \<Rightarrow> mc_passed (verifyKeyManifestEpoch env m (se_keyId v) (alg_name (r_signature_alg r)) (r_timestamp r))"
    using checks by (auto simp: receipt_checks_def Let_def emb check_def split: option.splits)
  moreover from this have "cv_verify verifier payload (se_signature v) r envelope = Inr True"
    by (auto simp: signature_check_def Let_def emb check_def split: if_splits sum.splits)
  ultimately show ?thesis using r p v by metis
qed

theorem verdict_is_sound_witness:
  "\<exists>s r v. signDecisionReceipt sample_env (built_sample [js ''a'']) sample_signer = Inr s \<and> parseSigned sample_env (signed_json s) = Inr r
     \<and> decodeDecisionReceiptSignatureEnvelope sample_parse (r_receipt_signature r) = Inr v"
proof -
  obtain s cs where s: "signDecisionReceipt sample_env (built_sample [js ''a'']) sample_signer = Inr s"
    "verifyDecisionReceipt sample_env sample_parse (signed_json s) (local_verifier (\<lambda>_ _. [1, 2, 3]) (js ''k'') (js ''secret'')) None
       = Inr \<lparr>vr_verdict = True, vr_checks = cs\<rparr>"
    using sample_verifies by blast
  from verdict_is_sound [OF s(2)] s(1) show ?thesis by auto
qed

text \<open>
  Verification may raise instead of giving a verdict: when the envelope of a receipt of the schema is
  the base64url text of \<open>null\<close>, reading a property of the parsed envelope raises.
\<close>

theorem null_envelope_raises:
  assumes "valid_signed env r" and "wf_receipt_numbers r" and "r_receipt_signature r = js ''bnVsbA''" and "json_parse (js ''null'') = Some JNull"
  shows "verifyDecisionReceipt env json_parse (signed_json r) verifier manifest = Inl EnvelopeIsNull"
proof -
  have units: "js ''null'' = [110, 117, 108, 108]" "js ''bnVsbA'' = [98, 110, 86, 115, 98, 65]" by code_simp+
  have "paired (js ''null'')" unfolding units by (simp add: is_high_def is_low_def)
  moreover have "base64url (utf8_encode (js ''null'')) = js ''bnVsbA''"
    unfolding units by (simp add: utf8_encode_def is_high_def is_low_def utf8_of_def base64url_def b64_unit_def)
  ultimately have "utf8_decode (base64_decode (js ''bnVsbA'')) = js ''null''"
    using utf8_round_trip [OF paired_well_formed] base64_round_trip(2) by metis
  then have "parseDecisionReceiptSignatureEnvelope json_parse (r_receipt_signature r) = JNull"
    using assms(3,4) by (simp add: parseDecisionReceiptSignatureEnvelope_def or_default_def)
  moreover define u where "u = UnsignedDecisionReceipt.truncate r"
  moreover have "valid_unsigned env u" "wf_receipt_numbers u"
    using assms(1,2) by (simp_all add: u_def valid_signed_def valid_unsigned_def wf_receipt_numbers_def UnsignedDecisionReceipt.defs)
  moreover have "unsignedReceiptForSigning env r = Inr u"
    using calculation(3) by (simp add: unsignedReceiptForSigning_def validateUnsignedDecisionReceipt_def u_def)
  moreover have "canonicalUnsignedDecisionReceipt env r = canonicalUnsignedDecisionReceipt env u" "decisionReceiptDigest env r = decisionReceiptDigest env u"
    by (simp_all add: canonicalUnsignedDecisionReceipt_def decisionReceiptDigest_def unsignedReceiptForSigning_def u_def)
  ultimately show ?thesis
    using parseSigned_signed_json [OF assms(1)] canonical_ok [of env u] receiptId_ok [of u env]
    by (simp add: verifyDecisionReceipt_def Let_def)
qed

theorem null_envelope_raises_witness:
  "verifyDecisionReceipt sample_env (\<lambda>_. Some JNull) (signed_json ((sample_receipt (js ''q'') None)\<lparr>r_receipt_signature := js ''bnVsbA''\<rparr>))
     (local_verifier (\<lambda>_ _. []) (js ''k'') (js ''secret'')) None = Inl EnvelopeIsNull"
proof -
  let ?r = "(sample_receipt (js ''q'') None)\<lparr>r_receipt_signature := js ''bnVsbA''\<rparr>"
  have "valid_signed sample_env (sample_receipt (js ''q'') None)" by (rule valid_sample_receipt) simp_all
  then have "valid_signed sample_env ?r" by (simp add: valid_signed_def valid_unsigned_def)
  moreover have "wf_receipt_numbers ?r" by (simp add: wf_receipt_numbers_def sample_receipt_def)
  ultimately show ?thesis by (rule null_envelope_raises) simp_all
qed

end
