(* ===== verification/Receipt_Emission.thy ===== *)
theory Receipt_Emission
  imports Receipt_Repository Receipt_Signing Governed_Invoke
begin

text \<open>
  Emission of decision receipts, \<open>receipts/emission.ts\<close> of \<open>packages/enforcement-runtime/src\<close>. The repository
  is a record of functions on a world, so that what other writers do between two calls is part of the functions; a signer
  answers with a signature and with the key identifier it exposes after signing. The attempts of the
  loop are a counter that the recursion consumes.
\<close>

subsection \<open>Numbers\<close>

text \<open>\<open>Math.max(0, Math.round(x))\<close>. A number with a fractional part is below \<open>2^53\<close>, so its rounding is exact.\<close>

definition round_magnitude :: "nat list \<Rightarrow> int \<Rightarrow> nat" where
  "round_magnitude ds n =
     (if n < 0 then 0 else digits_value (take (nat n) ds) + (if 5 \<le> ds ! nat n then 1 else 0))"

definition rounded_latency :: "jnum \<Rightarrow> jnum" where
  "rounded_latency x =
     (case x of
        NotANumber \<Rightarrow> NotANumber
      | Infinite neg \<Rightarrow> if neg then Zero False else Infinite False
      | Zero _ \<Rightarrow> Zero False
      | Finite neg ds n \<Rightarrow>
          if neg then Zero False
          else if int (length ds) \<le> n then x
          else num_of_nat (round_magnitude ds n))"

subsection \<open>Input, signer and repository\<close>

record DecisionReceiptEmissionInput =
  em_identity :: VerifiedIdentityContext
  em_modelId :: jstr
  em_policyVersion :: jstr
  em_policyHash :: jstr
  em_inputDigest :: jstr
  em_retrievedContextDigests :: "jstr list"
  em_preDecision :: PolicyDecision
  em_postDecision :: PolicyDecision
  em_memoryWritten :: bool
  em_consentState :: ConsentState
  em_latencyMs :: jnum
  em_costEstimateUsd :: "jnum option"
  em_previousReceiptHash :: "jstr option option"
  em_executionContextHash :: "jstr option"
  em_executionNonce :: "jstr option"
  em_timestamp :: jstr

datatype emission_error =
    SignerKeyIdEmpty | SecretEmpty | FieldEmpty jstr | TimestampNotParseable | InputDigestMalformed | ContextDigestMalformed
  | LatencyNotFinite | CostNotNonNegative | SignatureEmpty | SignatureDecodesEmpty | MutableAliasKeyId | StoredDigestMismatch
  | KeptAdvancing | SignerRaised jstr | EmissionReceipt receipt_error | EmissionSigning signing_error | RepositoryRaised jstr

record DecisionReceiptAsyncSigner =
  as_keyId :: jstr
  as_algorithm :: SignatureAlg
  as_sign :: "jstr \<Rightarrow> jstr + jstr \<times> jstr"

record 'w DecisionReceiptRepository =
  rp_put :: "SignedDecisionReceipt \<Rightarrow> 'w \<Rightarrow> (emission_error + DecisionReceiptPersistenceResult) \<times> 'w"
  rp_get :: "jstr \<Rightarrow> jstr \<Rightarrow> 'w \<Rightarrow> (emission_error + SignedDecisionReceipt option) \<times> 'w"
  rp_latest :: "(jstr \<Rightarrow> 'w \<Rightarrow> (emission_error + jstr option) \<times> 'w) option"

record 'w DefaultDecisionReceiptEmitter =
  de_signer :: DecisionReceiptAsyncSigner
  de_repository :: "'w DecisionReceiptRepository option"
  de_hmacSecret :: jstr

subsection \<open>Checks\<close>

definition assertSigner :: "DecisionReceiptAsyncSigner \<Rightarrow> emission_error + unit" where
  "assertSigner signer = (if as_keyId signer = [] then Inl SignerKeyIdEmpty else Inr ())"

definition new_emitter ::
  "DecisionReceiptAsyncSigner \<Rightarrow> 'w DecisionReceiptRepository option \<Rightarrow> jstr option \<Rightarrow> emission_error + 'w DefaultDecisionReceiptEmitter" where
  "new_emitter signer repository hmacSecret =
     (case assertSigner signer of
        Inl e \<Rightarrow> Inl e
      | Inr _ \<Rightarrow>
          let secret = or_default DEFAULT_DECISION_RECEIPT_HMAC_SECRET hmacSecret in
          if secret = [] then Inl SecretEmpty
          else Inr \<lparr>de_signer = signer, de_repository = repository, de_hmacSecret = secret\<rparr>)"

definition assertNonEmpty :: "string \<Rightarrow> jstr \<Rightarrow> emission_error + unit" where
  "assertNonEmpty name v = (if v = [] then Inl (FieldEmpty (js name)) else Inr ())"

definition num_finite :: "jnum \<Rightarrow> bool" where
  "num_finite x = (case x of NotANumber \<Rightarrow> False | Infinite _ \<Rightarrow> False | _ \<Rightarrow> True)"

definition assertEmissionInput :: "receipt_env \<Rightarrow> DecisionReceiptEmissionInput \<Rightarrow> emission_error + unit" where
  "assertEmissionInput env inp =
     (case sequence
        [assertNonEmpty ''identity.tenantId'' (id_tenantId (em_identity inp)), assertNonEmpty ''identity.userId'' (id_userId (em_identity inp)),
         assertNonEmpty ''identity.sessionId'' (id_sessionId (em_identity inp)), assertNonEmpty ''identity.requestId'' (id_requestId (em_identity inp)),
         assertNonEmpty ''modelId'' (em_modelId inp), assertNonEmpty ''policyVersion'' (em_policyVersion inp),
         assertNonEmpty ''policyHash'' (em_policyHash inp), assertNonEmpty ''timestamp'' (em_timestamp inp)] of
        Inl e \<Rightarrow> Inl e
      | Inr _ \<Rightarrow>
          if date_parse env (em_timestamp inp) = None then Inl TimestampNotParseable
          else if em_inputDigest inp \<noteq> [] \<and> \<not> digest_shape (em_inputDigest inp) then Inl InputDigestMalformed
          else if \<not> list_all digest_shape (em_retrievedContextDigests inp) then Inl ContextDigestMalformed
          else if \<not> num_finite (em_latencyMs inp) then Inl LatencyNotFinite
          else if (case em_costEstimateUsd inp of None \<Rightarrow> False | Some c \<Rightarrow> \<not> num_finite c \<or> num_less c (Zero False)) then Inl CostNotNonNegative
          else Inr ())"

definition assertSignatureShape :: "jstr \<Rightarrow> emission_error + unit" where
  "assertSignatureShape s =
     (if s = [] then Inl SignatureEmpty else if base64_decode s = [] then Inl SignatureDecodesEmpty else Inr ())"

definition isMutableKmsAliasKeyId :: "jstr \<Rightarrow> bool" where
  "isMutableKmsAliasKeyId keyId \<longleftrightarrow> startsWith keyId (js ''alias/'') \<or> full_match KMS_ALIAS_ARN_PATTERN keyId"

subsection \<open>Emission\<close>

definition emission_receipt ::
  "'w DefaultDecisionReceiptEmitter \<Rightarrow> receipt_env \<Rightarrow> DecisionReceiptEmissionInput \<Rightarrow> jstr \<Rightarrow> jstr \<Rightarrow> jstr \<Rightarrow> jstr option \<Rightarrow> DecisionReceiptBuildInput" where
  "emission_receipt em env inp tenantIdHash userIdHash sessionIdHash previousReceiptHash =
     \<lparr>b_receipt =
        \<lparr>r_receipt_id = [], r_request_id = id_requestId (em_identity inp), r_tenant_id_hash = tenantIdHash, r_user_id_hash = userIdHash,
         r_session_id_hash = sessionIdHash, r_timestamp = em_timestamp inp, r_model_id = em_modelId inp, r_policy_version = em_policyVersion inp,
         r_policy_hash = em_policyHash inp,
         r_input_digest = (if em_inputDigest inp = [] then publicSha256Digest env [] else em_inputDigest inp),
         r_retrieved_context_digests = em_retrievedContextDigests inp, r_execution_context_hash = [], r_execution_nonce = [],
         r_decision_pre = decision (em_preDecision inp), r_decision_post = decision (em_postDecision inp),
         r_action_taken = actionTaken (em_preDecision inp) @ actionTaken (em_postDecision inp),
         r_risk_score = num_max (riskScore (em_preDecision inp)) (riskScore (em_postDecision inp)), r_consent_state = em_consentState inp,
         r_memory_written = em_memoryWritten inp, r_latency_ms = rounded_latency (em_latencyMs inp),
         r_cost_estimate_usd = or_default (Zero False) (em_costEstimateUsd inp), r_prev_receipt_hash = previousReceiptHash,
         r_signature_alg = as_algorithm (de_signer em)\<rparr>,
      b_receipt_id = None, b_execution_context_hash = em_executionContextHash inp, b_execution_nonce = em_executionNonce inp\<rparr>"

definition buildUnsigned ::
  "'w DefaultDecisionReceiptEmitter \<Rightarrow> receipt_env \<Rightarrow> DecisionReceiptEmissionInput \<Rightarrow> jstr \<Rightarrow> jstr option \<Rightarrow> emission_error + UnsignedDecisionReceipt" where
  "buildUnsigned em env inp tenantIdHash previousReceiptHash =
     (case (privateHmacDigest env (de_hmacSecret em) (id_userId (em_identity inp)), privateHmacDigest env (de_hmacSecret em) (id_sessionId (em_identity inp))) of
        (Inl e, _) \<Rightarrow> Inl (EmissionReceipt e)
      | (_, Inl e) \<Rightarrow> Inl (EmissionReceipt e)
      | (Inr u, Inr s) \<Rightarrow>
          (case buildUnsignedDecisionReceipt env (emission_receipt em env inp tenantIdHash u s previousReceiptHash) of
             Inl e \<Rightarrow> Inl (EmissionReceipt e)
           | Inr r \<Rightarrow> Inr r))"

definition sign :: "'w DefaultDecisionReceiptEmitter \<Rightarrow> receipt_env \<Rightarrow> UnsignedDecisionReceipt \<Rightarrow> emission_error + SignedDecisionReceipt" where
  "sign em env u =
     (case canonicalUnsignedDecisionReceipt env u of
        Inl e \<Rightarrow> Inl (EmissionReceipt e)
      | Inr payload \<Rightarrow>
          (case as_sign (de_signer em) payload of
             Inl why \<Rightarrow> Inl (SignerRaised why)
           | Inr (signature, signatureKeyId) \<Rightarrow>
               (case assertSignatureShape signature of
                  Inl e \<Rightarrow> Inl e
                | Inr _ \<Rightarrow>
                    if as_algorithm (de_signer em) = KMS_SIGN_RSASSA_PSS_SHA_256 \<and> isMutableKmsAliasKeyId signatureKeyId then Inl MutableAliasKeyId
                    else
                      (case decisionReceiptDigest env u of
                         Inl e \<Rightarrow> Inl (EmissionReceipt e)
                       | Inr digest \<Rightarrow>
                           (case encodeDecisionReceiptSignatureEnvelope
                              \<lparr>se_keyId = signatureKeyId, se_algorithm = as_algorithm (de_signer em), se_digestSha256 = digest, se_signature = signature\<rparr> of
                              Inl e \<Rightarrow> Inl (EmissionSigning e)
                            | Inr envelope \<Rightarrow>
                                (case validateSignedDecisionReceipt env (UnsignedDecisionReceipt.extend u \<lparr>r_receipt_signature = envelope\<rparr>) of
                                   Inl e \<Rightarrow> Inl (EmissionReceipt e)
                                 | Inr r \<Rightarrow> Inr r))))))"

definition previous_hash ::
  "'w DefaultDecisionReceiptEmitter \<Rightarrow> DecisionReceiptEmissionInput \<Rightarrow> jstr \<Rightarrow> 'w \<Rightarrow> (emission_error + jstr option) \<times> 'w" where
  "previous_hash em inp tenantIdHash w =
     (case em_previousReceiptHash inp of
        Some h \<Rightarrow> (Inr h, w)
      | None \<Rightarrow>
          (case Option.bind (de_repository em) rp_latest of
             None \<Rightarrow> (Inr None, w)
           | Some latest \<Rightarrow> latest tenantIdHash w))"

definition replayed :: "receipt_env \<Rightarrow> UnsignedDecisionReceipt \<Rightarrow> SignedDecisionReceipt \<Rightarrow> emission_error + SignedDecisionReceipt" where
  "replayed env u existing =
     (case (decisionReceiptDigest env u, decisionReceiptDigest env existing) of
        (Inl e, _) \<Rightarrow> Inl (EmissionReceipt e)
      | (_, Inl e) \<Rightarrow> Inl (EmissionReceipt e)
      | (Inr incoming, Inr stored) \<Rightarrow> if incoming \<noteq> stored then Inl StoredDigestMismatch else Inr existing)"

fun emit_attempts ::
  "nat \<Rightarrow> 'w DefaultDecisionReceiptEmitter \<Rightarrow> receipt_env \<Rightarrow> DecisionReceiptEmissionInput \<Rightarrow> jstr \<Rightarrow> 'w \<Rightarrow>
     (emission_error + SignedDecisionReceipt) \<times> 'w" where
  "emit_attempts 0 em env inp tenantIdHash w = (Inl KeptAdvancing, w)"
| "emit_attempts (Suc k) em env inp tenantIdHash w =
     (case previous_hash em inp tenantIdHash w of
        (Inl e, w1) \<Rightarrow> (Inl e, w1)
      | (Inr prev, w1) \<Rightarrow>
          (case buildUnsigned em env inp tenantIdHash prev of
             Inl e \<Rightarrow> (Inl e, w1)
           | Inr u \<Rightarrow>
               (case de_repository em of
                  None \<Rightarrow> (sign em env u, w1)
                | Some rp \<Rightarrow>
                    (case rp_get rp (r_tenant_id_hash u) (r_receipt_id u) w1 of
                       (Inl e, w2) \<Rightarrow> (Inl e, w2)
                     | (Inr (Some existing), w2) \<Rightarrow> (replayed env u existing, w2)
                     | (Inr None, w2) \<Rightarrow>
                         (case sign em env u of
                            Inl e \<Rightarrow> (Inl e, w2)
                          | Inr s \<Rightarrow>
                              (case rp_put rp s w2 of
                                 (Inr p, w3) \<Rightarrow> (Inr (p_receipt p), w3)
                               | (Inl e, w3) \<Rightarrow>
                                   if e = EmissionReceipt ChainHeadConflict \<and> em_previousReceiptHash inp = None \<and> rp_latest rp \<noteq> None \<and> 0 < k
                                   then emit_attempts k em env inp tenantIdHash w3
                                   else (Inl e, w3)))))))"

definition emit ::
  "'w DefaultDecisionReceiptEmitter \<Rightarrow> receipt_env \<Rightarrow> DecisionReceiptEmissionInput \<Rightarrow> 'w \<Rightarrow> (emission_error + SignedDecisionReceipt) \<times> 'w" where
  "emit em env inp w =
     (case assertEmissionInput env inp of
        Inl e \<Rightarrow> (Inl e, w)
      | Inr _ \<Rightarrow>
          (case privateHmacDigest env (de_hmacSecret em) (id_tenantId (em_identity inp)) of
             Inl e \<Rightarrow> (Inl (EmissionReceipt e), w)
           | Inr tenantIdHash \<Rightarrow> emit_attempts 3 em env inp tenantIdHash w))"

subsection \<open>The in-memory repository behind the emitter\<close>

definition lift_error :: "receipt_error + 'a \<Rightarrow> emission_error + 'a" where
  "lift_error r = (case r of Inl e \<Rightarrow> Inl (EmissionReceipt e) | Inr x \<Rightarrow> Inr x)"

definition memory_repository :: "receipt_env \<Rightarrow> InMemoryDecisionReceiptRepository DecisionReceiptRepository" where
  "memory_repository env =
     \<lparr>rp_put = \<lambda>r repo. (lift_error (fst (put env r repo)), snd (put env r repo)),
      rp_get = \<lambda>t i repo. (Inr (repo_get t i repo), repo),
      rp_latest = Some (\<lambda>t repo. (Inr (latestHashForTenant t repo), repo))\<rparr>"

text \<open>A receipt that the emitter built and signed.\<close>

definition issued :: "'w DefaultDecisionReceiptEmitter \<Rightarrow> receipt_env \<Rightarrow> SignedDecisionReceipt \<Rightarrow> bool" where
  "issued em env s \<longleftrightarrow> (\<exists>inp t prev u. buildUnsigned em env inp t prev = Inr u \<and> sign em env u = Inr s)"

text \<open>What the emitter relies on when nobody else writes: a failed \<open>put\<close> changes nothing, and lookups are pure.\<close>

locale quiet_repository =
  fixes rp :: "'w DecisionReceiptRepository" and store_log :: "jstr \<Rightarrow> 'w \<Rightarrow> SignedDecisionReceipt list" and store_inv :: "'w \<Rightarrow> bool"
  assumes put_keeps: "store_inv w \<Longrightarrow> rp_put rp r w = (res, w') \<Longrightarrow> store_inv w'"
    and put_logs: "store_inv w \<Longrightarrow> rp_put rp r w = (Inr p, w') \<Longrightarrow>
      w' = w \<and> (\<exists>t. p_receipt p \<in> set (store_log t w))
      \<or> p_receipt p = r \<and> (\<forall>t. store_log t w' = (if t = r_tenant_id_hash r then store_log t w @ [r] else store_log t w))"
    and put_fails: "store_inv w \<Longrightarrow> rp_put rp r w = (Inl e, w') \<Longrightarrow> w' = w"
    and get_pure: "store_inv w \<Longrightarrow> rp_get rp t i w = (g, w') \<Longrightarrow> w' = w \<and> (\<forall>r. g = Inr (Some r) \<longrightarrow> (\<exists>t. r \<in> set (store_log t w)))"
    and latest_pure: "store_inv w \<Longrightarrow> rp_latest rp = Some f \<Longrightarrow> f t w = (l, w') \<Longrightarrow> w' = w"
begin

definition appends :: "'w \<Rightarrow> SignedDecisionReceipt \<Rightarrow> 'w \<Rightarrow> bool" where
  "appends w s w' \<longleftrightarrow> (\<forall>t. store_log t w' = (if t = r_tenant_id_hash s then store_log t w @ [s] else store_log t w))"

lemma put_appends:
  "store_inv w \<Longrightarrow> rp_put rp r w = (Inr p, w') \<Longrightarrow> w' = w \<and> (\<exists>t. p_receipt p \<in> set (store_log t w)) \<or> p_receipt p = r \<and> appends w r w'"
  using put_logs unfolding appends_def by blast

definition logged :: "'w DefaultDecisionReceiptEmitter \<Rightarrow> receipt_env \<Rightarrow> 'w \<Rightarrow> emission_error + SignedDecisionReceipt \<Rightarrow> 'w \<Rightarrow> bool" where
  "logged em env w res w' \<longleftrightarrow>
     (case res of
        Inl _ \<Rightarrow> w' = w
      | Inr s \<Rightarrow> w' = w \<and> (\<exists>t. s \<in> set (store_log t w))
          \<or> issued em env s \<and> appends w s w')"

lemma previous_pure:
  "store_inv w \<Longrightarrow> de_repository em = Some rp \<Longrightarrow> previous_hash em inp t w = (res, w') \<Longrightarrow> w' = w"
  using latest_pure by (auto simp: previous_hash_def split: option.splits)

lemma attempts_logged:
  assumes "store_inv w" and "de_repository em = Some rp" and "emit_attempts k em env inp t w = (res, w')"
  shows "logged em env w res w'"
  using assms(3)
proof (induction k)
  case (Suc k)
  obtain prev w1 where p: "previous_hash em inp t w = (prev, w1)" by fastforce
  then have w1: "w1 = w" using previous_pure assms by blast
  show ?case
  proof (cases prev)
    case h: (Inr h)
    show ?thesis
    proof (cases "buildUnsigned em env inp t h")
      case u: (Inr u)
      obtain g w2 where g: "rp_get rp (r_tenant_id_hash u) (r_receipt_id u) w = (g, w2)" by fastforce
      note pure = get_pure [OF assms(1) g]
      show ?thesis
      proof (cases "g = Inr None")
        case True
        show ?thesis
        proof (cases "sign em env u")
          case s: (Inr s)
          obtain q w3 where q: "rp_put rp s w = (q, w3)" by fastforce
          show ?thesis
          proof (cases q)
            case (Inl e)
            then have "w3 = w" using put_fails [OF assms(1)] q by blast
            then show ?thesis using Suc p w1 h u g pure True s q Inl assms(2) by (auto simp: logged_def split: if_splits)
          next
            case (Inr x)
            moreover have "issued em env s" using u s by (auto simp: issued_def)
            ultimately show ?thesis using put_appends [OF assms(1), of s x w3] Suc.prems p w1 h u g pure True s q assms(2)
              by (auto simp: logged_def)
          qed
        next
          case (Inl e)
          then have "res = Inl e \<and> w' = w" using Suc.prems p w1 h u g pure True assms(2) by simp
          then show ?thesis by (simp add: logged_def)
        qed
      next
        case False
        then show ?thesis using Suc.prems p w1 h u g pure assms(2)
          by (auto simp: logged_def replayed_def split: sum.splits option.splits if_splits)
      qed
    qed (use Suc.prems p w1 h assms(2) in \<open>auto simp: logged_def\<close>)
  qed (use Suc.prems p w1 in \<open>auto simp: logged_def\<close>)
qed (auto simp: logged_def)

lemma emit_logged:
  assumes "store_inv w" and "de_repository em = Some rp" and "emit em env inp w = (res, w')"
  shows "logged em env w res w'"
proof -
  have "w' = w \<and> (\<exists>e. res = Inl e) \<or> (\<exists>t. emit_attempts 3 em env inp t w = (res, w'))"
    using assms(3) by (auto simp: emit_def split: sum.splits)
  then show ?thesis using attempts_logged [OF assms(1,2)] by (auto simp: logged_def)
qed

lemma emit_keeps:
  assumes "store_inv w" and "de_repository em = Some rp" and "emit em env inp w = (res, w')"
  shows "store_inv w'"
proof -
  have "store_inv w'" if "emit_attempts k em env inp t w = (res, w')" "store_inv w" for k t w
    using that
  proof (induction k arbitrary: w)
    case (Suc k)
    then show ?case
      using previous_pure [OF Suc.prems(2) assms(2)] get_pure [OF Suc.prems(2)] put_keeps [OF Suc.prems(2)] assms(2)
      by (auto split: sum.splits prod.splits option.splits if_splits) metis+
  qed simp
  then show ?thesis using assms by (auto simp: emit_def split: sum.splits)
qed

end

lemma put_existing_stored:
  assumes "put env r repo = (Inr p, repo')" and "p_status p = IDEMPOTENT_EXISTING"
  shows "p_receipt p \<in> snd ` set (receipts repo)"
  using assms
  by (auto simp: put_def put_new_def Let_def dest!: map_of_SomeD split: sum.splits option.splits if_splits) force+

interpretation memory_store: quiet_repository "memory_repository env" tenant_log "repo_inv env" for env
proof (unfold_locales, goal_cases)
  case (1 w r res w')
  then show ?case using repo_inv_put by (auto simp: memory_repository_def)
next
  case (2 w r p w')
  then have put: "put env r w = (Inr p, w')"
    by (cases "put env r w") (auto simp: memory_repository_def lift_error_def split: sum.splits)
  show ?case
  proof (cases rule: put_result [of r env w])
    case (existing q)
    then have "p_receipt p \<in> snd ` set (receipts w)" "w' = w" using put_existing_stored [OF put] put by auto
    then show ?thesis by (auto simp: tenant_log_def)
  qed (use put in auto)
next
  case (3 w r e w')
  then show ?case by (cases rule: put_result [of r env w]) (auto simp: memory_repository_def lift_error_def)
next
  case (4 w t i res w')
  then show ?case by (auto simp: memory_repository_def repo_get_def tenant_log_def dest!: map_of_SomeD intro: rev_image_eqI)
next
  case (5 w f t res w')
  then show ?case by (auto simp: memory_repository_def)
qed

text \<open>
  Claim C7. Emission refines the append-only log of a tenant. On a reachable in-memory repository \<open>emit\<close> either
  fails and leaves the repository as it was, or returns a receipt that was stored before and leaves the
  repository as it was, or returns a receipt that it built and signed itself, which is now the last entry of its
  tenant's log and the only change of any log. The repository stays one whose logs are hash chains.
\<close>

theorem emission_refines_log:
  assumes "reachable_repo env repo" and "de_repository em = Some (memory_repository env)" and "emit em env inp repo = (res, repo')"
  shows "repo_inv env repo' \<and>
    (case res of
       Inl _ \<Rightarrow> repo' = repo
     | Inr s \<Rightarrow> repo' = repo \<and> s \<in> snd ` set (receipts repo)
         \<or> issued em env s \<and> (\<lambda>t. tenant_log t repo') = (\<lambda>t. tenant_log t repo)(r_tenant_id_hash s := tenant_log (r_tenant_id_hash s) repo @ [s]))"
proof -
  note inv = reachable_repo_inv [OF assms(1)]
  have "repo_inv env repo'" by (rule memory_store.emit_keeps [OF inv assms(2,3)])
  moreover have "memory_store.logged em env repo res repo'" by (rule memory_store.emit_logged [OF inv assms(2,3)])
  moreover have "set (tenant_log t repo) \<subseteq> snd ` set (receipts repo)" for t by (auto simp: tenant_log_def)
  ultimately show ?thesis
    by (auto simp: memory_store.logged_def memory_store.appends_def fun_eq_iff split: sum.splits)
qed

subsection \<open>A first emission succeeds\<close>

lemma buildUnsigned_eq:
  assumes "buildUnsigned em env inp t prev = Inr u"
  shows "valid_unsigned env u" and "receiptIdFromUnsignedDecisionReceipt env u = Inr (r_receipt_id u)"
    and "r_signature_alg u = as_algorithm (de_signer em)" and "r_tenant_id_hash u = t" and "r_prev_receipt_hash u = prev"
proof -
  obtain b where b: "buildUnsignedDecisionReceipt env b = Inr u" "b_receipt_id b = None" "r_signature_alg (b_receipt b) = as_algorithm (de_signer em)"
    "r_tenant_id_hash (b_receipt b) = t" "r_prev_receipt_hash (b_receipt b) = prev"
    using assms by (auto simp: buildUnsigned_def emission_receipt_def split: sum.splits)
  show "receiptIdFromUnsignedDecisionReceipt env u = Inr (r_receipt_id u)" by (rule built_id [OF b(1,2)])
  show "valid_unsigned env u" "r_signature_alg u = as_algorithm (de_signer em)" "r_tenant_id_hash u = t" "r_prev_receipt_hash u = prev"
    using build_eq_Inr [OF b(1,2)] b(3-5) by (auto simp: without_id_def)
qed

lemma emission_creates:
  assumes "assertEmissionInput env inp = Inr ()" and "privateHmacDigest env (de_hmacSecret em) (id_tenantId (em_identity inp)) = Inr t"
    and "de_repository em = Some (memory_repository env)" and "em_previousReceiptHash inp = None"
    and "buildUnsigned em env inp t (latestHashForTenant t repo) = Inr u" and "sign em env u = Inr s" and "wf_receipt_numbers s"
    and "repo_get t (r_receipt_id u) repo = None" and "marker_key s = Inr k" and "map_of (requestMarkers repo) k = None"
  obtains d h where "emit em env inp repo = (Inr s, created s k d h repo)" "r_tenant_id_hash s = t"
proof -
  have s: "s = UnsignedDecisionReceipt.extend u \<lparr>r_receipt_signature = r_receipt_signature s\<rparr>" "valid_signed env s"
    using assms(6) by (auto simp: sign_def validateSignedDecisionReceipt_def UnsignedDecisionReceipt.defs split: sum.splits if_splits prod.splits)
  have u: "r_tenant_id_hash u = t" "r_prev_receipt_hash u = latestHashForTenant t repo"
    using buildUnsigned_eq [OF assms(5)] by simp_all
  have fields: "r_tenant_id_hash s = t" "r_prev_receipt_hash s = latestHashForTenant t repo" "r_receipt_id s = r_receipt_id u"
    using u by (subst s(1); simp add: UnsignedDecisionReceipt.defs)+
  obtain d where d: "decisionReceiptRequestDigest env s = Inr d" using request_digest_ok [OF s(2) assms(7)] by blast
  obtain h where h: "signedDecisionReceiptHash env s = Inr h" using request_digest_hash_ok [OF d s(2)] by blast
  have put: "put env s repo = (Inr \<lparr>p_status = CREATED, p_receipt = s, p_persistedAt = r_timestamp s\<rparr>, created s k d h repo)"
    by (rule put_created [OF s(2) assms(9) d h assms(10)]) (simp_all add: fields assms(8))
  have "emit_attempts (Suc (Suc (Suc 0))) em env inp t repo = (Inr s, created s k d h repo)"
    using assms(3-6,8) u put by (simp add: previous_hash_def memory_repository_def lift_error_def)
  then have "emit em env inp repo = (Inr s, created s k d h repo)" using assms(1,2) by (simp add: emit_def numeral_3_eq_3)
  then show thesis using that fields(1) by blast
qed


subsection \<open>Attempts\<close>

text \<open>A repository that counts the calls of \<open>put\<close>.\<close>

definition counted :: "'w DecisionReceiptRepository \<Rightarrow> (nat \<times> 'w) DecisionReceiptRepository" where
  "counted rp =
     \<lparr>rp_put = \<lambda>r (n, w). (let (x, w') = rp_put rp r w in (x, (Suc n, w'))),
      rp_get = \<lambda>t i (n, w). (let (x, w') = rp_get rp t i w in (x, (n, w'))),
      rp_latest = map_option (\<lambda>f t (n, w). (let (x, w') = f t w in (x, (n, w')))) (rp_latest rp)\<rparr>"

definition with_repository :: "'v DecisionReceiptRepository option \<Rightarrow> 'w DefaultDecisionReceiptEmitter \<Rightarrow> 'v DefaultDecisionReceiptEmitter" where
  "with_repository rp em = \<lparr>de_signer = de_signer em, de_repository = rp, de_hmacSecret = de_hmacSecret em\<rparr>"

lemma with_repository_fields [simp]:
  "de_signer (with_repository rp em) = de_signer em" "de_repository (with_repository rp em) = rp"
  "de_hmacSecret (with_repository rp em) = de_hmacSecret em"
  by (simp_all add: with_repository_def)

lemma with_repository_receipts [simp]:
  "buildUnsigned (with_repository rp em) = buildUnsigned em" "sign (with_repository rp em) = sign em"
  unfolding fun_eq_iff sign_def buildUnsigned_def emission_receipt_def with_repository_fields by simp_all

lemma counted_previous:
  assumes "de_repository em = Some rp"
  shows "previous_hash (with_repository (Some (counted rp)) em) inp t (n, w)
    = (fst (previous_hash em inp t w), (n, snd (previous_hash em inp t w)))"
  using assms by (auto simp: previous_hash_def counted_def split: option.splits prod.splits)

lemma counted_attempts:
  assumes "de_repository em = Some rp"
  shows "\<exists>m\<le>k. emit_attempts k (with_repository (Some (counted rp)) em) env inp t (n, w)
    = (fst (emit_attempts k em env inp t w), (n + m, snd (emit_attempts k em env inp t w)))"
proof (induction k arbitrary: n w)
  case (Suc k)
  obtain prev w1 where p: "previous_hash em inp t w = (prev, w1)" by fastforce
  note cp = counted_previous [OF assms, of inp t n w, unfolded p fst_conv snd_conv]
  show ?case
  proof (cases "\<exists>h u. prev = Inr h \<and> buildUnsigned em env inp t h = Inr u")
    case True
    then obtain h u where h: "prev = Inr h" and u: "buildUnsigned em env inp t h = Inr u" by blast
    obtain g w2 where g: "rp_get rp (r_tenant_id_hash u) (r_receipt_id u) w1 = (g, w2)" by fastforce
    then have cg: "rp_get (counted rp) (r_tenant_id_hash u) (r_receipt_id u) (n, w1) = (g, (n, w2))" by (simp add: counted_def)
    show ?thesis
    proof (cases "\<exists>s. g = Inr None \<and> sign em env u = Inr s")
      case True
      then obtain s where s: "g = Inr None" "sign em env u = Inr s" by blast
      obtain q w3 where q: "rp_put rp s w2 = (q, w3)" by fastforce
      then have cq: "rp_put (counted rp) s (n, w2) = (q, (Suc n, w3))" by (simp add: counted_def)
      have latest: "rp_latest (counted rp) = None \<longleftrightarrow> rp_latest rp = None" by (simp add: counted_def)
      obtain m where m: "m \<le> k" "emit_attempts k (with_repository (Some (counted rp)) em) env inp t (Suc n, w3)
          = (fst (emit_attempts k em env inp t w3), (Suc n + m, snd (emit_attempts k em env inp t w3)))"
        using Suc.IH by blast
      let ?m = "if q = Inl (EmissionReceipt ChainHeadConflict) \<and> em_previousReceiptHash inp = None \<and> rp_latest rp \<noteq> None \<and> 0 < k then Suc m else 1"
      show ?thesis
        by (rule exI [of _ ?m]) (use m p cp h u g cg s q cq latest assms in \<open>auto split: sum.splits\<close>)
    next
      case False
      then show ?thesis
        by (intro exI [of _ 0]) (use p cp h u g cg assms in \<open>auto split: sum.splits option.splits\<close>)
    qed
  next
    case False
    then show ?thesis by (intro exI [of _ 0]) (use p cp in \<open>auto split: sum.splits\<close>)
  qed
qed simp

text \<open>
  Claim C38. Emission writes at most three times, whatever the repository answers and however its world
  changes between the calls; counting the calls does not change the result.
\<close>

theorem emission_puts_bounded:
  assumes "de_repository em = Some rp"
  shows "\<exists>m\<le>3. emit (with_repository (Some (counted rp)) em) env inp (n, w)
    = (fst (emit em env inp w), (n + m, snd (emit em env inp w)))"
proof -
  have "\<exists>m\<le>3. (x, (n, w)) = (fst (x, w), (n + m, snd (x, w)))" for x :: "emission_error + SignedDecisionReceipt" by (rule exI [of _ 0]) simp
  then show ?thesis
    using counted_attempts [OF assms, of 3 env inp _ n w] by (simp add: emit_def split: sum.splits)
qed

subsection \<open>Emitted receipts verify\<close>

definition async_of :: "DecisionReceiptSigner \<Rightarrow> DecisionReceiptAsyncSigner" where
  "async_of s =
     \<lparr>as_keyId = sg_keyId s, as_algorithm = sg_algorithm s,
      as_sign = \<lambda>p. case sg_sign s p of Inl _ \<Rightarrow> Inl [] | Inr sig \<Rightarrow> Inr (sig, sg_keyId s)\<rparr>"

lemma encode_key_id: "encodeDecisionReceiptSignatureEnvelope v = Inr t \<Longrightarrow> se_keyId v \<noteq> []"
  by (auto simp: encodeDecisionReceiptSignatureEnvelope_def assertEnvelopeShape_def envelope_entries_def get_string_def
      split: sum.splits if_splits option.splits)

lemma sign_is_signDecisionReceipt:
  assumes "de_signer em = async_of (local_signer hmac_bytes keyId secret)" and "buildUnsigned em env inp t prev = Inr u" and "sign em env u = Inr s"
  shows "signDecisionReceipt env u (local_signer hmac_bytes keyId secret) = Inr s"
proof -
  note u = buildUnsigned_eq [OF assms(2)]
  obtain payload digest envelope where a: "canonicalUnsignedDecisionReceipt env u = Inr payload" "payload \<noteq> []"
    "assertSignatureShape (base64 (hmac_bytes secret payload)) = Inr ()" "decisionReceiptDigest env u = Inr digest"
    "encodeDecisionReceiptSignatureEnvelope \<lparr>se_keyId = keyId, se_algorithm = LOCAL_HMAC_SHA256_DEV_ONLY, se_digestSha256 = digest,
      se_signature = base64 (hmac_bytes secret payload)\<rparr> = Inr envelope"
    "validateSignedDecisionReceipt env (UnsignedDecisionReceipt.extend u \<lparr>r_receipt_signature = envelope\<rparr>) = Inr s"
    using assms(1,3) by (auto simp: sign_def async_of_def local_signer_def split: sum.splits if_splits)
  have "keyId \<noteq> []" using encode_key_id [OF a(5)] by simp
  moreover have "hmac_bytes secret payload \<noteq> []" using a(3) by (auto simp: assertSignatureShape_def split: if_splits)
  then have "assertStandardBase64Signature (base64 (hmac_bytes secret payload)) = Inr ()" by (rule base64_signature)
  moreover have "r_signature_alg u = LOCAL_HMAC_SHA256_DEV_ONLY" using u(3) assms(1) by (simp add: async_of_def local_signer_def)
  ultimately show ?thesis
    using a u(1) by (simp add: signDecisionReceipt_def buildDecisionReceiptSignatureEnvelope_def validateUnsignedDecisionReceipt_def local_signer_def)
qed

text \<open>The repositories that an emitter fills, whatever inputs it is given.\<close>

inductive emitted_repo :: "InMemoryDecisionReceiptRepository DefaultDecisionReceiptEmitter \<Rightarrow> receipt_env \<Rightarrow> InMemoryDecisionReceiptRepository \<Rightarrow> bool"
  for em env where
  start: "emitted_repo em env empty_repository"
| emit: "emitted_repo em env repo \<Longrightarrow> emitted_repo em env (snd (emit em env inp repo))"

lemma stored_in_log: "r \<in> snd ` set (receipts repo) \<longleftrightarrow> r \<in> set (tenant_log (r_tenant_id_hash r) repo)"
  by (auto simp: tenant_log_def)

lemma emitted_are_issued:
  assumes "emitted_repo em env repo" and "de_repository em = Some (memory_repository env)"
  shows "repo_inv env repo \<and> (\<forall>r\<in>snd ` set (receipts repo). issued em env r)"
  using assms(1)
proof (induction rule: emitted_repo.induct)
  case start
  then show ?case by (simp add: repo_inv_empty) (simp add: empty_repository_def)
next
  case (emit repo inp)
  obtain res repo' where e: "emit em env inp repo = (res, repo')" by fastforce
  have old: "issued em env r" if "r \<in> set (tenant_log (r_tenant_id_hash r) repo)" for r
    using that emit.IH unfolding stored_in_log [symmetric] by blast
  have "memory_store.logged em env repo res repo'" using memory_store.emit_logged [OF _ assms(2) e] emit.IH by blast
  then consider "repo' = repo" | s where "issued em env s" "memory_store.appends repo s repo'"
    by (auto simp: memory_store.logged_def split: sum.splits)
  then have "issued em env r" if "r \<in> set (tenant_log (r_tenant_id_hash r) repo')" for r
    using that old by cases (auto simp: memory_store.appends_def split: if_splits)
  then have "\<forall>r\<in>snd ` set (receipts repo'). issued em env r" using stored_in_log by blast
  then show ?case using memory_store.emit_keeps [OF _ assms(2) e] emit.IH e by simp
qed

text \<open>
  Claim C3. End to end: every receipt that the emitter with the local signer ever stores, whatever sequence of
  inputs it was given, verifies with the verifier of the same key and secret. Beside the emitter this
  composes the receipt builder, the envelope encoding, the repository and the verifier; \<open>JSON.parse\<close> is assumed to read the
  canonical text of the receipt's envelope back.
\<close>

theorem emitted_receipts_verify:
  assumes "emitted_repo em env repo" and "de_repository em = Some (memory_repository env)"
    and "de_signer em = async_of (local_signer hmac_bytes keyId secret)" and "r \<in> snd ` set (receipts repo)"
    and "\<And>v. buildDecisionReceiptSignatureEnvelope env (UnsignedDecisionReceipt.truncate r) (local_signer hmac_bytes keyId secret) = Inr v \<Longrightarrow>
      parses json_parse (JObj (envelope_entries v))"
  shows "\<exists>cs. verifyDecisionReceipt env json_parse (signed_json r) (local_verifier hmac_bytes keyId secret) None
    = Inr \<lparr>vr_verdict = True, vr_checks = cs\<rparr>"
proof -
  obtain inp t prev u where u: "buildUnsigned em env inp t prev = Inr u" "sign em env u = Inr r"
    using emitted_are_issued [OF assms(1,2)] assms(4) by (auto simp: issued_def)
  note signed = sign_is_signDecisionReceipt [OF assms(3) u]
  have "UnsignedDecisionReceipt.truncate r = u"
  proof (rule sign_eq [OF signed])
    fix t
    assume "r = UnsignedDecisionReceipt.extend u \<lparr>r_receipt_signature = t\<rparr>"
    then show ?thesis by (simp add: UnsignedDecisionReceipt.defs)
  qed
  then show ?thesis using local_hmac.own_signature_verifies [OF signed buildUnsigned_eq(2) [OF u(1)]] assms(5) by blast
qed

subsection \<open>A sample emission\<close>

definition sample_decision :: PolicyDecision where
  "sample_decision = \<lparr>decision_phase = Pre_model, decision = ALLOW, decision_policyVersion = js ''v'', decision_policyHash = replicate 64 48,
     matchedRuleIds = [], matchedLayers = [], actionTaken = [js ''a''], riskScore = Finite False [5] 0, reasons = []\<rparr>"

definition sample_input :: DecisionReceiptEmissionInput where
  "sample_input = \<lparr>em_identity = \<lparr>id_tenantId = js ''t'', id_userId = js ''u'', id_role = js ''r'', id_sessionId = js ''s'', id_requestId = js ''q'', id_source = Authorizer\<rparr>,
     em_modelId = js ''m'', em_policyVersion = js ''v'', em_policyHash = replicate 64 48, em_inputDigest = zero_digest,
     em_retrievedContextDigests = [zero_digest], em_preDecision = sample_decision, em_postDecision = sample_decision, em_memoryWritten = False,
     em_consentState = Granted, em_latencyMs = Finite False [1, 2, 5] 2, em_costEstimateUsd = None, em_previousReceiptHash = None,
     em_executionContextHash = Some zero_digest, em_executionNonce = Some (js ''nonce-01''), em_timestamp = js ''2026-01-01T00:00:00Z''\<rparr>"

definition sample_emitter :: "InMemoryDecisionReceiptRepository DefaultDecisionReceiptEmitter" where
  "sample_emitter = \<lparr>de_signer = async_of sample_signer, de_repository = Some (memory_repository sample_env), de_hmacSecret = js ''h''\<rparr>"

definition sample_tenant :: jstr where
  "sample_tenant = js ''hmac-sha256:'' @ sample_digest (js ''ht'')"

lemma latency_rounds: "rounded_latency (Finite False [1, 2, 5] 2) = Finite False [1, 3] 2"
  by code_simp

lemma build_succeeds:
  assumes "valid_unsigned env ((without_id b)\<lparr>r_receipt_id := j\<rparr>)" and "wf_receipt_numbers (without_id b)" and "hex_digests (sha256 env)" and "b_receipt_id b = None"
    and "\<And>c. b_execution_context_hash b = Some c \<Longrightarrow> sha256_shape c" and "input_digest_ok (r_input_digest (b_receipt b))"
    and "url_safe_between 8 256 (r_execution_nonce (without_id b))"
  shows "\<exists>i. buildUnsignedDecisionReceipt env b = Inr ((without_id b)\<lparr>r_receipt_id := i\<rparr>)"
proof -
  let ?i = "js ''grct_'' @ sha256 env (identity_text (without_id b))"
  have "grct_shape ?i" using assms(3) by (simp add: grct_shape_def hex_digests_def)
  then have "valid_unsigned env ((without_id b)\<lparr>r_receipt_id := ?i\<rparr>)" using assms(1) by (simp add: valid_unsigned_def)
  then have "buildUnsignedDecisionReceipt env b = Inr ((without_id b)\<lparr>r_receipt_id := ?i\<rparr>)"
    using receiptId_ok [OF assms(2), of env] assms(4-7)
    by (auto simp: buildUnsignedDecisionReceipt_def Let_def without_id_def validateUnsignedDecisionReceipt_def split: option.splits)
  then show ?thesis by blast
qed

lemma sign_of_signDecisionReceipt:
  assumes "de_signer em = async_of (local_signer hmac_bytes keyId secret)" and "signDecisionReceipt env u (local_signer hmac_bytes keyId secret) = Inr s"
    and "\<And>p. hmac_bytes secret p \<noteq> []"
  shows "sign em env u = Inr s"
  using sign_eq [OF assms(2)]
proof cases
  case (1 payload sig digest v t)
  have sig: "assertSignatureShape (base64 (hmac_bytes secret payload)) = Inr ()"
    using base64_signature [OF assms(3), of payload] assms(3)
    by (auto simp: assertSignatureShape_def assertStandardBase64Signature_def split: if_splits)
  show ?thesis using 1 assms(1) sig
    by (auto simp: sign_def async_of_def local_signer_def validateSignedDecisionReceipt_def split: if_splits)
qed

definition sample_body :: UnsignedDecisionReceipt where
  "sample_body = without_id (emission_receipt sample_emitter sample_env sample_input sample_tenant
     (js ''hmac-sha256:'' @ sample_digest (js ''hu'')) (js ''hmac-sha256:'' @ sample_digest (js ''hs'')) None)"

lemma sample_hmac_shape: "hmac_shape (js ''hmac-sha256:'' @ sample_digest t)"
  using hex_digests_sample by (simp add: hex_digests_def)

lemma sample_body_fields:
  "r_request_id sample_body = js ''q''" "r_signature_alg sample_body = LOCAL_HMAC_SHA256_DEV_ONLY" "r_execution_nonce sample_body = js ''nonce-01''"
  "r_tenant_id_hash sample_body = sample_tenant" "wf_receipt_numbers sample_body"
proof -
  have "num_max (Finite False [5] 0) (Finite False [5] 0) = Finite False [5] 0" by code_simp
  then show "r_request_id sample_body = js ''q''" "r_signature_alg sample_body = LOCAL_HMAC_SHA256_DEV_ONLY" "r_execution_nonce sample_body = js ''nonce-01''"
    "r_tenant_id_hash sample_body = sample_tenant" "wf_receipt_numbers sample_body"
    by (simp_all add: sample_body_def without_id_def emission_receipt_def sample_input_def sample_emitter_def sample_decision_def async_of_def
        sample_signer_def local_signer_def or_default_def wf_receipt_numbers_def latency_rounds [unfolded One_nat_def])
qed

lemma sample_body_valid: "valid_unsigned sample_env (sample_body\<lparr>r_receipt_id := js ''grct_'' @ sample_digest []\<rparr>)"
proof -
  have "digest_shape zero_digest" by (simp only: digest_shape_def zero_digest_def sha256_shape_prefixed hex64_zeros simp_thms)
  moreover have "digest_shape (js ''hmac-sha256:'' @ sample_digest t)" for t using sample_hmac_shape unfolding digest_shape_def by blast
  moreover have "grct_shape (js ''grct_'' @ sample_digest [])"
    using hex_digests_sample by (simp add: grct_shape_def hex_digests_def)
  moreover have "url_safe_between 8 256 (js ''nonce-01'')" by code_simp
  moreover have "zod_unit_interval (num_max (Finite False [5] 0) (Finite False [5] 0))" by code_simp
  moreover have "zod_nonnegative_int (Finite False [Suc 0, 3] 2)" "zod_nonnegative (Zero False)" by code_simp+
  moreover have "zod_datetime sample_env (js ''2026-01-01T00:00:00Z'')" by (simp add: sample_env_def startsWith_def js_def)
  moreover have "sha256_shape zero_digest" by (simp only: zero_digest_def sha256_shape_prefixed hex64_zeros)
  moreover have "zero_digest \<noteq> []" by (simp add: zero_digest_def)
  ultimately show ?thesis
    by (simp add: valid_unsigned_def sample_body_def without_id_def emission_receipt_def sample_input_def sample_emitter_def sample_decision_def async_of_def
        sample_signer_def local_signer_def or_default_def latency_rounds [unfolded One_nat_def] hex64_zeros sample_tenant_def sort_by_def)
qed

lemma sample_builds:
  "\<exists>i. buildUnsigned sample_emitter sample_env sample_input sample_tenant None = Inr (sample_body\<lparr>r_receipt_id := i\<rparr>)"
proof -
  let ?b = "emission_receipt sample_emitter sample_env sample_input sample_tenant
    (js ''hmac-sha256:'' @ sample_digest (js ''hu'')) (js ''hmac-sha256:'' @ sample_digest (js ''hs'')) None"
  have b: "without_id ?b = sample_body" by (simp only: sample_body_def)
  have sha: "sha256_shape zero_digest" by (simp only: zero_digest_def sha256_shape_prefixed hex64_zeros)
  have inp: "b_execution_context_hash ?b = Some zero_digest" "r_input_digest (b_receipt ?b) = zero_digest" "b_receipt_id ?b = None"
    by (simp_all add: emission_receipt_def sample_input_def) (simp add: zero_digest_def js_def)
  moreover have "input_digest_ok zero_digest" using sha by (simp add: input_digest_ok_def zero_digest_def startsWith_def js_def cu_def)
  moreover have "url_safe_between 8 256 (js ''nonce-01'')" by code_simp
  moreover have "hex_digests (sha256 sample_env)" by (simp add: sample_env_def hex_digests_sample)
  ultimately have "\<exists>i. buildUnsignedDecisionReceipt sample_env ?b = Inr ((without_id ?b)\<lparr>r_receipt_id := i\<rparr>)"
    using sample_body_valid sample_body_fields sha by (intro build_succeeds [where j = "js ''grct_'' @ sample_digest []"]) (simp_all add: b)
  moreover have "privateHmacDigest sample_env (de_hmacSecret sample_emitter) (id_userId (em_identity sample_input)) = Inr (js ''hmac-sha256:'' @ sample_digest (js ''hu''))"
    "privateHmacDigest sample_env (de_hmacSecret sample_emitter) (id_sessionId (em_identity sample_input)) = Inr (js ''hmac-sha256:'' @ sample_digest (js ''hs''))"
    by (simp_all add: privateHmacDigest_def sample_env_def sample_emitter_def sample_input_def js_def)
  ultimately show ?thesis unfolding buildUnsigned_def b by auto
qed

lemma sample_emission:
  obtains u s where "assertEmissionInput sample_env sample_input = Inr ()"
    "privateHmacDigest sample_env (de_hmacSecret sample_emitter) (id_tenantId (em_identity sample_input)) = Inr sample_tenant"
    "de_repository sample_emitter = Some (memory_repository sample_env)" "em_previousReceiptHash sample_input = None"
    "buildUnsigned sample_emitter sample_env sample_input sample_tenant (latestHashForTenant sample_tenant empty_repository) = Inr u"
    "sign sample_emitter sample_env u = Inr s" "wf_receipt_numbers s" "repo_get sample_tenant (r_receipt_id u) empty_repository = None"
    "marker_key s = Inr (repo_key sample_tenant (js ''__request__#q''))"
    "map_of (requestMarkers empty_repository) (repo_key sample_tenant (js ''__request__#q'')) = None"
proof -
  obtain i where u: "buildUnsigned sample_emitter sample_env sample_input sample_tenant None = Inr (sample_body\<lparr>r_receipt_id := i\<rparr>)"
    using sample_builds by blast
  let ?u = "sample_body\<lparr>r_receipt_id := i\<rparr>"
  have signer: "de_signer sample_emitter = async_of (local_signer (\<lambda>_ _. [1, 2, 3]) (js ''k'') (js ''secret''))"
    by (simp add: sample_emitter_def sample_signer_def)
  have wf: "wf_receipt_numbers ?u" using sample_body_fields(5) by (simp add: wf_receipt_numbers_def)
  obtain s where s: "signDecisionReceipt sample_env ?u (local_signer (\<lambda>_ _. [1, 2, 3]) (js ''k'') (js ''secret'')) = Inr s"
    using local_signing_succeeds [OF buildUnsigned_eq(1) [OF u] wf, of "js ''k''" "\<lambda>_ _. [1, 2, 3]" "js ''secret''"] sample_body_fields(2)
    by (auto simp: sample_env_def hex_digests_sample)
  have sign: "sign sample_emitter sample_env ?u = Inr s" by (rule sign_of_signDecisionReceipt [OF signer s]) simp
  obtain t where t: "s = UnsignedDecisionReceipt.extend ?u \<lparr>r_receipt_signature = t\<rparr>" using sign_eq [OF s] by metis
  have "requestMarkerReceiptId (js ''q'') = Inr (js ''__request__#q'')" by code_simp
  then have marker: "marker_key s = Inr (repo_key sample_tenant (js ''__request__#q''))"
    using sample_body_fields(1,4) by (simp add: t marker_key_def UnsignedDecisionReceipt.defs)
  have digests: "digest_shape zero_digest" by (simp only: digest_shape_def zero_digest_def sha256_shape_prefixed hex64_zeros simp_thms)
  show thesis
  proof (rule that [of ?u s])
    show "assertEmissionInput sample_env sample_input = Inr ()" using digests
      by (simp add: assertEmissionInput_def assertNonEmpty_def sample_input_def sample_env_def num_finite_def)
    show "privateHmacDigest sample_env (de_hmacSecret sample_emitter) (id_tenantId (em_identity sample_input)) = Inr sample_tenant"
      by (simp add: privateHmacDigest_def sample_env_def sample_emitter_def sample_input_def sample_tenant_def js_def)
    show "wf_receipt_numbers s" using wf by (simp add: t wf_receipt_numbers_def UnsignedDecisionReceipt.defs)
  qed (use u sign marker in \<open>simp_all add: sample_emitter_def sample_input_def latestHashForTenant_def repo_get_def empty_repository_def\<close>)
qed


theorem emission_puts_bounded_witness:
  "\<exists>m\<le>3. emit (with_repository (Some (counted (memory_repository sample_env))) sample_emitter) sample_env sample_input (7, empty_repository)
    = (fst (emit sample_emitter sample_env sample_input empty_repository), (7 + m, snd (emit sample_emitter sample_env sample_input empty_repository)))"
  by (rule emission_puts_bounded) (simp add: sample_emitter_def)

text \<open>What the sample repository holds after one emission.\<close>

definition emitted_once :: InMemoryDecisionReceiptRepository where
  "emitted_once = snd (emit sample_emitter sample_env sample_input empty_repository)"

lemma sample_stored:
  obtains s where "emit sample_emitter sample_env sample_input empty_repository = (Inr s, emitted_once)" "snd ` set (receipts emitted_once) = {s}"
proof -
  obtain s d h where e: "emit sample_emitter sample_env sample_input empty_repository
      = (Inr s, created s (repo_key sample_tenant (js ''__request__#q'')) d h empty_repository)"
    by (rule sample_emission) (erule (9) emission_creates, rule that)
  then show thesis by (intro that [of s]) (simp_all add: emitted_once_def created_def empty_repository_def)
qed

theorem emission_refines_log_witness:
  "\<exists>s. emit sample_emitter sample_env sample_input empty_repository = (Inr s, emitted_once) \<and> repo_inv sample_env emitted_once
    \<and> issued sample_emitter sample_env s"
proof -
  obtain s where s: "emit sample_emitter sample_env sample_input empty_repository = (Inr s, emitted_once)" by (rule sample_stored)
  from emission_refines_log [OF reachable_repo.start _ this] s show ?thesis by (simp add: sample_emitter_def empty_repository_def)
qed

definition emission_parse :: "jstr \<Rightarrow> jsval option" where
  "emission_parse t =
     (case receipts emitted_once of
        [] \<Rightarrow> None
      | (k, r) # _ \<Rightarrow>
          (case buildDecisionReceiptSignatureEnvelope sample_env (UnsignedDecisionReceipt.truncate r) sample_signer of
             Inl _ \<Rightarrow> None
           | Inr v \<Rightarrow> Some (norm_val (JObj (envelope_entries v)))))"

theorem emitted_receipts_verify_witness:
  "\<exists>r\<in>snd ` set (receipts emitted_once). \<exists>cs.
     verifyDecisionReceipt sample_env emission_parse (signed_json r) (local_verifier (\<lambda>_ _. [1, 2, 3]) (js ''k'') (js ''secret'')) None
       = Inr \<lparr>vr_verdict = True, vr_checks = cs\<rparr>"
proof -
  obtain s where s: "snd ` set (receipts emitted_once) = {s}" by (rule sample_stored)
  then obtain k rs where k: "receipts emitted_once = (k, s) # rs" by (cases "receipts emitted_once") auto
  have "emitted_repo sample_emitter sample_env emitted_once" unfolding emitted_once_def by (intro emitted_repo.intros)
  then have "\<exists>cs. verifyDecisionReceipt sample_env emission_parse (signed_json s) (local_verifier (\<lambda>_ _. [1, 2, 3]) (js ''k'') (js ''secret'')) None
       = Inr \<lparr>vr_verdict = True, vr_checks = cs\<rparr>"
    by (rule emitted_receipts_verify)
      (simp_all add: s sample_emitter_def sample_signer_def emission_parse_def k parses_def del: norm_val.simps)
  then show ?thesis using s by blast
qed

end
