(* ===== verification/Epoch_Checkpoint.thy ===== *)
theory Epoch_Checkpoint
  imports Receipt_Emission
begin

text \<open>
  Epoch checkpoints over the tenants' chain heads, \<open>receipts/checkpoint.ts\<close> and the in-memory part of
  \<open>receipts/checkpointRepository.ts\<close> of \<open>packages/enforcement-runtime/src\<close>. The digest, \<open>localeCompare\<close>, the
  signer and the canonical verifier are arguments. The two loops that halve a layer
  of hashes are recursions on its length.
\<close>

subsection \<open>Data\<close>

definition epochCheckpointSchemaVersion :: jstr where
  "epochCheckpointSchemaVersion = js ''ghost.receipt_checkpoint.v1''"

record ReceiptChainHeadLeaf =
  lf_tenantId :: jstr
  lf_headHash :: jstr

datatype position = PosLeft | PosRight

type_synonym MerkleProofStep = "position \<times> jstr"

record MerkleInclusionProof =
  mp_leaf :: ReceiptChainHeadLeaf
  mp_leafHash :: jstr
  mp_proof :: "MerkleProofStep list"
  mp_root :: jstr

record UnsignedEpochCheckpoint =
  ck_schemaVersion :: jstr
  ck_epochId :: jstr
  ck_createdAt :: jstr
  ck_leafCount :: jnum
  ck_merkleRoot :: jstr
  ck_leavesHash :: jstr

record SignedEpochCheckpoint = UnsignedEpochCheckpoint +
  ck_signatureAlg :: jstr
  ck_signerKeyId :: jstr
  ck_signature :: jstr

datatype checkpoint_error =
    CheckpointCanonical canonical_error | LeafNotPresent | CheckpointSigner jstr | NoChainHeadListing
  | CheckpointExists jstr | ProofRootMismatch | ProofDoesNotReconstruct | HeadsUnavailable jstr

definition leaf_of_head :: "DecisionReceiptChainHead \<Rightarrow> ReceiptChainHeadLeaf" where
  "leaf_of_head head = \<lparr>lf_tenantId = h_tenantId head, lf_headHash = h_headHash head\<rparr>"

subsection \<open>Leaves\<close>

definition seen_heads :: "ReceiptChainHeadLeaf list \<Rightarrow> (jstr \<times> ReceiptChainHeadLeaf) list" where
  "seen_heads heads = foldl (\<lambda>seen head. AList.update (lf_tenantId head) head seen) [] heads"

definition normalizeChainHeadLeaves :: "(jstr \<Rightarrow> jstr \<Rightarrow> int) \<Rightarrow> ReceiptChainHeadLeaf list \<Rightarrow> ReceiptChainHeadLeaf list" where
  "normalizeChainHeadLeaves localeCompare heads =
     sort_by (\<lambda>a b. localeCompare (lf_tenantId a) (lf_tenantId b) \<le> 0)
       (map snd (seen_heads heads))"

definition leaf_json :: "ReceiptChainHeadLeaf \<Rightarrow> jsval" where
  "leaf_json leaf = JObj
     [(js ''domain'', JStr (js ''ghost-ark.receipt-chain-head.leaf.v1'')), (js ''tenantId'', JStr (lf_tenantId leaf)),
      (js ''headHash'', JStr (lf_headHash leaf))]"

definition receiptChainHeadLeafHash :: "(jstr \<Rightarrow> jstr) \<Rightarrow> ReceiptChainHeadLeaf \<Rightarrow> canonical_error + jstr" where
  "receiptChainHeadLeafHash sha leaf = prefixed_id (js ''sha256:'') sha (leaf_json leaf)"

definition parent_text :: "jstr \<Rightarrow> jstr \<Rightarrow> jstr" where
  "parent_text left right = js ''ghost-ark.receipt-checkpoint.node.v1:'' @ left @ js '':'' @ right"

definition merkleParentHash :: "(jstr \<Rightarrow> jstr) \<Rightarrow> jstr \<Rightarrow> jstr \<Rightarrow> jstr" where
  "merkleParentHash sha left right = js ''sha256:'' @ sha (parent_text left right)"

subsection \<open>Roots and proofs\<close>

fun next_layer :: "(jstr \<Rightarrow> jstr) \<Rightarrow> jstr list \<Rightarrow> jstr list" where
  "next_layer sha [] = []"
| "next_layer sha [left] = [merkleParentHash sha left left]"
| "next_layer sha (left # right # others) = merkleParentHash sha left right # next_layer sha others"

lemma length_next_layer [simp]: "length (next_layer sha xs) = (length xs + 1) div 2"
  by (induction sha xs rule: next_layer.induct) auto

function climb :: "(jstr \<Rightarrow> jstr) \<Rightarrow> jstr list \<Rightarrow> jstr list" where
  "climb sha layer = (if 1 < length layer then climb sha (next_layer sha layer) else layer)"
  by pat_completeness auto
termination
  by (relation "measure (\<lambda>(sha, layer). length layer)") auto

declare climb.simps [simp del]

definition merkleRootForLeaves :: "(jstr \<Rightarrow> jstr \<Rightarrow> int) \<Rightarrow> (jstr \<Rightarrow> jstr) \<Rightarrow> ReceiptChainHeadLeaf list \<Rightarrow> canonical_error + jstr" where
  "merkleRootForLeaves localeCompare sha leaves =
     (case sequence (map (receiptChainHeadLeafHash sha) (normalizeChainHeadLeaves localeCompare leaves)) of
        Inl e \<Rightarrow> Inl e
      | Inr [] \<Rightarrow> Inr (js ''sha256:'' @ sha (js ''ghost-ark.receipt-checkpoint.empty.v1''))
      | Inr layer \<Rightarrow> Inr (hd (climb sha layer)))"

definition sibling :: "jstr list \<Rightarrow> nat \<Rightarrow> jstr" where
  "sibling layer index =
     (let siblingIndex = (if index mod 2 = 0 then index + 1 else index - 1) in
      if siblingIndex < length layer then layer ! siblingIndex else layer ! index)"

function proof_path :: "(jstr \<Rightarrow> jstr) \<Rightarrow> nat \<Rightarrow> jstr list \<Rightarrow> MerkleProofStep list \<times> jstr list" where
  "proof_path sha index layer =
     (if 1 < length layer then
        (let (steps, apex) = proof_path sha (index div 2) (next_layer sha layer) in
         ((if index mod 2 = 0 then PosRight else PosLeft, sibling layer index) # steps, apex))
      else ([], layer))"
  by pat_completeness auto
termination
  by (relation "measure (\<lambda>(sha, index, layer). length layer)") auto

declare proof_path.simps [simp del]

fun find_index :: "('a \<Rightarrow> bool) \<Rightarrow> 'a list \<Rightarrow> nat option" where
  "find_index P [] = None"
| "find_index P (x # xs) = (if P x then Some 0 else map_option Suc (find_index P xs))"

definition buildMerkleInclusionProof ::
  "(jstr \<Rightarrow> jstr \<Rightarrow> int) \<Rightarrow> (jstr \<Rightarrow> jstr) \<Rightarrow> ReceiptChainHeadLeaf list \<Rightarrow> ReceiptChainHeadLeaf \<Rightarrow> checkpoint_error + MerkleInclusionProof" where
  "buildMerkleInclusionProof localeCompare sha leaves target =
     (let normalized = normalizeChainHeadLeaves localeCompare leaves in
      case find_index (\<lambda>leaf. lf_tenantId leaf = lf_tenantId target \<and> lf_headHash leaf = lf_headHash target) normalized of
        None \<Rightarrow> Inl LeafNotPresent
      | Some targetIndex \<Rightarrow>
          (case (sequence (map (receiptChainHeadLeafHash sha) normalized), receiptChainHeadLeafHash sha target, merkleRootForLeaves localeCompare sha []) of
             (Inl e, _, _) \<Rightarrow> Inl (CheckpointCanonical e)
           | (_, Inl e, _) \<Rightarrow> Inl (CheckpointCanonical e)
           | (_, _, Inl e) \<Rightarrow> Inl (CheckpointCanonical e)
           | (Inr layer, Inr leafHash, Inr emptyRoot) \<Rightarrow>
               (let (steps, apex) = proof_path sha targetIndex layer in
                Inr \<lparr>mp_leaf = target, mp_leafHash = leafHash, mp_proof = steps,
                     mp_root = (case apex of [] \<Rightarrow> emptyRoot | r # _ \<Rightarrow> r)\<rparr>)))"

fun climb_proof :: "(jstr \<Rightarrow> jstr) \<Rightarrow> MerkleProofStep list \<Rightarrow> jstr \<Rightarrow> jstr" where
  "climb_proof sha [] computed = computed"
| "climb_proof sha ((side, hash) # steps) computed =
     climb_proof sha steps (if side = PosLeft then merkleParentHash sha hash computed else merkleParentHash sha computed hash)"

definition verifyMerkleInclusionProof :: "(jstr \<Rightarrow> jstr) \<Rightarrow> MerkleInclusionProof \<Rightarrow> jstr option \<Rightarrow> canonical_error + bool" where
  "verifyMerkleInclusionProof sha p expectedRoot =
     (case receiptChainHeadLeafHash sha (mp_leaf p) of
        Inl e \<Rightarrow> Inl e
      | Inr computed \<Rightarrow>
          if computed \<noteq> mp_leafHash p then Inr False
          else Inr (climb_proof sha (mp_proof p) computed = or_default (mp_root p) expectedRoot))"

subsection \<open>Checkpoints\<close>

definition leaves_json :: "ReceiptChainHeadLeaf list \<Rightarrow> jsval" where
  "leaves_json leaves =
     JArr (map (\<lambda>l. Some (JObj [(js ''tenantId'', JStr (lf_tenantId l)), (js ''headHash'', JStr (lf_headHash l))])) leaves)"

definition buildUnsignedEpochCheckpoint ::
  "(jstr \<Rightarrow> jstr \<Rightarrow> int) \<Rightarrow> (jstr \<Rightarrow> jstr) \<Rightarrow> jstr \<Rightarrow> jstr \<Rightarrow> ReceiptChainHeadLeaf list \<Rightarrow> canonical_error + UnsignedEpochCheckpoint" where
  "buildUnsignedEpochCheckpoint localeCompare sha epochId createdAt inputLeaves =
     (let leaves = normalizeChainHeadLeaves localeCompare inputLeaves in
      case (merkleRootForLeaves localeCompare sha leaves, prefixed_id (js ''sha256:'') sha (leaves_json leaves)) of
        (Inl e, _) \<Rightarrow> Inl e
      | (_, Inl e) \<Rightarrow> Inl e
      | (Inr root, Inr leavesHash) \<Rightarrow>
          Inr \<lparr>ck_schemaVersion = epochCheckpointSchemaVersion, ck_epochId = epochId, ck_createdAt = createdAt,
               ck_leafCount = num_of_nat (length leaves), ck_merkleRoot = root, ck_leavesHash = leavesHash\<rparr>)"

definition checkpoint_json :: "('a) UnsignedEpochCheckpoint_scheme \<Rightarrow> jsval" where
  "checkpoint_json c = JObj
     [(js ''schemaVersion'', JStr (ck_schemaVersion c)), (js ''epochId'', JStr (ck_epochId c)), (js ''createdAt'', JStr (ck_createdAt c)),
      (js ''leafCount'', JNum (ck_leafCount c)), (js ''merkleRoot'', JStr (ck_merkleRoot c)), (js ''leavesHash'', JStr (ck_leavesHash c))]"

definition signEpochCheckpoint ::
  "(jstr \<Rightarrow> jstr \<Rightarrow> int) \<Rightarrow> (jstr \<Rightarrow> jstr) \<Rightarrow> jstr \<Rightarrow> jstr \<Rightarrow> ReceiptChainHeadLeaf list \<Rightarrow> DecisionReceiptAsyncSigner \<Rightarrow>
     checkpoint_error + SignedEpochCheckpoint" where
  "signEpochCheckpoint localeCompare sha epochId createdAt leaves signer =
     (case buildUnsignedEpochCheckpoint localeCompare sha epochId createdAt leaves of
        Inl e \<Rightarrow> Inl (CheckpointCanonical e)
      | Inr u \<Rightarrow>
          (case canonicalize (checkpoint_json u) of
             Inl e \<Rightarrow> Inl (CheckpointCanonical e)
           | Inr canonicalPayload \<Rightarrow>
               (case as_sign signer canonicalPayload of
                  Inl why \<Rightarrow> Inl (CheckpointSigner why)
                | Inr (signature, keyId) \<Rightarrow>
                    Inr (UnsignedEpochCheckpoint.extend u
                      \<lparr>ck_signatureAlg = alg_name (as_algorithm signer), ck_signerKeyId = keyId, ck_signature = signature\<rparr>))))"

definition createSignedEpochCheckpoint ::
  "(jstr \<Rightarrow> jstr \<Rightarrow> int) \<Rightarrow> (jstr \<Rightarrow> jstr) \<Rightarrow> jstr \<Rightarrow> jstr \<Rightarrow> ('w \<Rightarrow> (checkpoint_error + DecisionReceiptChainHead list) \<times> 'w) option \<Rightarrow>
     DecisionReceiptAsyncSigner \<Rightarrow> (SignedEpochCheckpoint \<Rightarrow> 'w \<Rightarrow> (checkpoint_error + unit) \<times> 'w) option \<Rightarrow> 'w \<Rightarrow>
     (checkpoint_error + SignedEpochCheckpoint) \<times> 'w" where
  "createSignedEpochCheckpoint localeCompare sha epochId createdAt listHeads signer putCheckpoint w =
     (case listHeads of
        None \<Rightarrow> (Inl NoChainHeadListing, w)
      | Some heads \<Rightarrow>
          (case heads w of
             (Inl e, w1) \<Rightarrow> (Inl e, w1)
           | (Inr hs, w1) \<Rightarrow>
               (case signEpochCheckpoint localeCompare sha epochId createdAt (map leaf_of_head hs) signer of
                  Inl e \<Rightarrow> (Inl e, w1)
                | Inr checkpoint \<Rightarrow>
                    (case putCheckpoint of
                       None \<Rightarrow> (Inr checkpoint, w1)
                     | Some store \<Rightarrow>
                         (case store checkpoint w1 of
                            (Inl e, w2) \<Rightarrow> (Inl e, w2)
                          | (Inr _, w2) \<Rightarrow> (Inr checkpoint, w2))))))"

subsection \<open>Verification\<close>

record EpochCheckpointCanonicalVerifier =
  ev_algorithm :: jstr
  ev_keyId :: "jstr option"
  ev_verify :: "jstr \<Rightarrow> jstr \<Rightarrow> SignedEpochCheckpoint \<Rightarrow> jstr + bool"

datatype checkpoint_detail =
    SchemaSupported | SchemaUnsupported jstr | AlgorithmExpected jstr | AlgorithmUnexpected jstr | KeyAccepted jstr
  | KeyMismatch jstr jstr | SignatureCompleted | SignatureNotCanonical canonical_error | SignatureRaisedError jstr

record checkpoint_check =
  cc_name :: jstr
  cc_passed :: bool
  cc_detail :: checkpoint_detail

definition key_accepted :: "EpochCheckpointCanonicalVerifier \<Rightarrow> SignedEpochCheckpoint \<Rightarrow> bool" where
  "key_accepted v c = (case ev_keyId v of None \<Rightarrow> True | Some k \<Rightarrow> k = [] \<or> ck_signerKeyId c = k)"

definition signature_result :: "EpochCheckpointCanonicalVerifier \<Rightarrow> SignedEpochCheckpoint \<Rightarrow> bool \<times> checkpoint_detail" where
  "signature_result v c =
     (case canonicalize (checkpoint_json c) of
        Inl e \<Rightarrow> (False, SignatureNotCanonical e)
      | Inr payload \<Rightarrow>
          (case ev_verify v payload (ck_signature c) c of
             Inl why \<Rightarrow> (False, SignatureRaisedError why)
           | Inr ok \<Rightarrow> (ok, SignatureCompleted)))"

definition verifyEpochCheckpoint :: "SignedEpochCheckpoint \<Rightarrow> EpochCheckpointCanonicalVerifier \<Rightarrow> bool \<times> checkpoint_check list" where
  "verifyEpochCheckpoint c v =
     (let schema = (ck_schemaVersion c = epochCheckpointSchemaVersion);
          algorithm = (ck_signatureAlg c = ev_algorithm v);
          key = key_accepted v c;
          (signaturePassed, detail) = signature_result v c;
          checks =
            [\<lparr>cc_name = js ''schema'', cc_passed = schema, cc_detail = (if schema then SchemaSupported else SchemaUnsupported (ck_schemaVersion c))\<rparr>,
             \<lparr>cc_name = js ''algorithm'', cc_passed = algorithm,
              cc_detail = (if algorithm then AlgorithmExpected (ck_signatureAlg c) else AlgorithmUnexpected (ck_signatureAlg c))\<rparr>,
             \<lparr>cc_name = js ''key_id'', cc_passed = key,
              cc_detail = (if key then KeyAccepted (ck_signerKeyId c) else KeyMismatch (or_default [] (ev_keyId v)) (ck_signerKeyId c))\<rparr>,
             \<lparr>cc_name = js ''signature'', cc_passed = signaturePassed, cc_detail = detail\<rparr>]
      in (list_all cc_passed checks, checks))"

subsection \<open>Checkpoint repository\<close>

type_synonym InMemoryReceiptCheckpointRepository = "(jstr \<times> SignedEpochCheckpoint) list"

definition checkpoint_put :: "SignedEpochCheckpoint \<Rightarrow> InMemoryReceiptCheckpointRepository \<Rightarrow> (checkpoint_error + unit) \<times> InMemoryReceiptCheckpointRepository" where
  "checkpoint_put c repo =
     (if map_of repo (ck_epochId c) \<noteq> None then (Inl (CheckpointExists (ck_epochId c)), repo)
      else (Inr (), AList.update (ck_epochId c) c repo))"

definition checkpoint_get :: "jstr \<Rightarrow> InMemoryReceiptCheckpointRepository \<Rightarrow> SignedEpochCheckpoint option" where
  "checkpoint_get epochId repo = map_of repo epochId"

definition slice_to :: "int \<Rightarrow> 'a list \<Rightarrow> 'a list" where
  "slice_to limit xs = take (nat (if limit < 0 then int (length xs) + limit else limit)) xs"

definition listRecent :: "(jstr \<Rightarrow> jstr \<Rightarrow> int) \<Rightarrow> int option \<Rightarrow> InMemoryReceiptCheckpointRepository \<Rightarrow> SignedEpochCheckpoint list" where
  "listRecent localeCompare limit repo =
     slice_to (or_default 20 limit)
       (sort_by (\<lambda>left right. localeCompare (ck_createdAt right) (ck_createdAt left) \<le> 0) (map snd repo))"

definition assertCheckpointIncludesHead :: "(jstr \<Rightarrow> jstr) \<Rightarrow> SignedEpochCheckpoint \<Rightarrow> MerkleInclusionProof \<Rightarrow> checkpoint_error + unit" where
  "assertCheckpointIncludesHead sha c p =
     (if mp_root p \<noteq> ck_merkleRoot c then Inl ProofRootMismatch
      else
        (case verifyMerkleInclusionProof sha p (Some (ck_merkleRoot c)) of
           Inl e \<Rightarrow> Inl (CheckpointCanonical e)
         | Inr ok \<Rightarrow> if ok then Inr () else Inl ProofDoesNotReconstruct))"

subsection \<open>Hashes of leaves and nodes\<close>

definition leaf_text :: "ReceiptChainHeadLeaf \<Rightarrow> jstr" where
  "leaf_text l = print_val (norm_val (leaf_json l))"

definition leaf_digest :: "(jstr \<Rightarrow> jstr) \<Rightarrow> ReceiptChainHeadLeaf \<Rightarrow> jstr" where
  "leaf_digest sha l = js ''sha256:'' @ sha (leaf_text l)"

lemma leaf_json_shaped: "json_shaped (leaf_json l)"
  by (simp add: leaf_json_def)

lemma leaf_hash_eq [simp]: "receiptChainHeadLeafHash sha l = Inr (leaf_digest sha l)"
  by (simp add: receiptChainHeadLeafHash_def prefixed_id_def canonicalSha256Hex_def canonicalize_norm [OF leaf_json_shaped] leaf_digest_def leaf_text_def)

lemma leaf_text_inject: "leaf_text l = leaf_text l' \<longleftrightarrow> l = l'"
proof
  assume "leaf_text l = leaf_text l'"
  then have "canonicalize (leaf_json l) = canonicalize (leaf_json l')"
    by (simp add: canonicalize_norm [OF leaf_json_shaped] leaf_text_def)
  then have eq: "norm_val (leaf_json l) = norm_val (leaf_json l')" by (rule canonicalize_inject [OF leaf_json_shaped leaf_json_shaped])
  have d: "distinct (map fst [(js ''domain'', a), (js ''tenantId'', b), (js ''headHash'', c)])" for a b c by simp
  note entry = norm_val_object_entry [OF eq [unfolded leaf_json_def] d d]
  show "l = l'" using entry [of "js ''tenantId''"] entry [of "js ''headHash''"] by simp
qed simp

lemma leaf_text_not_parent: "leaf_text l \<noteq> parent_text a b" "parent_text a b \<noteq> leaf_text l"
  by (simp_all add: leaf_text_def leaf_json_def parent_text_def js_def cu_def)

definition empty_text :: jstr where
  "empty_text = js ''ghost-ark.receipt-checkpoint.empty.v1''"

lemma empty_text_apart: "empty_text \<noteq> leaf_text l" "empty_text \<noteq> parent_text a b"
  by (simp_all add: empty_text_def leaf_text_def leaf_json_def parent_text_def js_def cu_def)

lemma digest_length: "hex_digests sha \<Longrightarrow> length (js ''sha256:'' @ sha t) = 71"
  by (simp add: hex_digests_def hex64_def)

lemma parent_text_inject:
  "length l = length l' \<or> length r = length r' \<Longrightarrow> parent_text l r = parent_text l' r' \<longleftrightarrow> l = l' \<and> r = r'"
  by (auto simp: parent_text_def)

subsection \<open>Proofs that the code builds verify\<close>

lemma nth_next_layer:
  "i < length xs \<Longrightarrow> next_layer sha xs ! (i div 2)
     = (if i mod 2 = 0 then merkleParentHash sha (xs ! i) (sibling xs i) else merkleParentHash sha (sibling xs i) (xs ! i))"
proof (induction sha xs arbitrary: i rule: next_layer.induct)
  case (3 sha x y zs)
  show ?case
  proof (cases "i < 2")
    case True
    then have "i = 0 \<or> i = 1" by auto
    then show ?thesis by (auto simp: sibling_def)
  next
    case False
    then obtain j where j: "i = Suc (Suc j)" by (metis Suc_diff_Suc add_2_eq_Suc le_add_diff_inverse not_less numeral_2_eq_2)
    then have "sibling (x # y # zs) i = sibling zs j" by (auto simp: sibling_def Let_def nth_Cons' mod_Suc split: if_splits)
    then show ?thesis using 3 j by simp
  qed
qed (auto simp: sibling_def)

lemma proof_path_climbs:
  "i < length layer \<Longrightarrow> proof_path sha i layer = (steps, apex) \<Longrightarrow>
     apex = climb sha layer \<and> apex \<noteq> [] \<and> climb_proof sha steps (layer ! i) = hd apex"
proof (induction sha i layer arbitrary: steps apex rule: proof_path.induct)
  case (1 sha i layer)
  show ?case
  proof (cases "1 < length layer")
    case True
    obtain steps' where p: "proof_path sha (i div 2) (next_layer sha layer) = (steps', apex)"
      "steps = (if i mod 2 = 0 then PosRight else PosLeft, sibling layer i) # steps'"
      using "1.prems"(2) True by (auto simp: proof_path.simps [of sha i] split: prod.splits)
    have "i div 2 < length (next_layer sha layer)" using "1.prems"(1) True by simp
    from "1.IH" [OF True this p(1)] show ?thesis
      using p(2) True nth_next_layer [OF "1.prems"(1), of sha] by (auto simp: climb.simps [of sha layer])
  next
    case False
    then have "climb sha layer = layer" by (subst climb.simps) simp
    moreover obtain x where "layer = [x]" "i = 0" using False "1.prems"(1) by (cases layer) auto
    ultimately show ?thesis using "1.prems" by (auto simp: proof_path.simps)
  qed
qed

subsection \<open>Accepted proofs name a leaf\<close>

text \<open>The hashes of all layers, and the texts that were hashed for the inner ones.\<close>

fun pair_texts :: "jstr list \<Rightarrow> jstr list" where
  "pair_texts [] = []"
| "pair_texts [x] = [parent_text x x]"
| "pair_texts (x # y # zs) = parent_text x y # pair_texts zs"

function tree_nodes :: "(jstr \<Rightarrow> jstr) \<Rightarrow> jstr list \<Rightarrow> jstr list" where
  "tree_nodes sha layer = layer @ (if 1 < length layer then tree_nodes sha (next_layer sha layer) else [])"
  by pat_completeness auto
termination
  by (relation "measure (\<lambda>(sha, layer). length layer)") auto

function tree_texts :: "(jstr \<Rightarrow> jstr) \<Rightarrow> jstr list \<Rightarrow> jstr list" where
  "tree_texts sha layer = (if 1 < length layer then pair_texts layer @ tree_texts sha (next_layer sha layer) else [])"
  by pat_completeness auto
termination
  by (relation "measure (\<lambda>(sha, layer). length layer)") auto

declare tree_nodes.simps [simp del] tree_texts.simps [simp del]

fun proof_texts :: "(jstr \<Rightarrow> jstr) \<Rightarrow> MerkleProofStep list \<Rightarrow> jstr \<Rightarrow> jstr list" where
  "proof_texts sha [] c = []"
| "proof_texts sha ((PosLeft, h) # steps) c = parent_text h c # proof_texts sha steps (merkleParentHash sha h c)"
| "proof_texts sha ((PosRight, h) # steps) c = parent_text c h # proof_texts sha steps (merkleParentHash sha c h)"

lemma next_layer_pairs:
  "x \<in> set (next_layer sha layer) \<Longrightarrow> \<exists>l\<in>set layer. \<exists>r\<in>set layer. x = merkleParentHash sha l r \<and> parent_text l r \<in> set (pair_texts layer)"
  by (induction sha layer rule: next_layer.induct) auto

lemma tree_node_cases:
  "x \<in> set (tree_nodes sha layer) \<Longrightarrow> x \<in> set layer \<or>
     (\<exists>l\<in>set (tree_nodes sha layer). \<exists>r\<in>set (tree_nodes sha layer). x = merkleParentHash sha l r \<and> parent_text l r \<in> set (tree_texts sha layer))"
proof (induction sha layer rule: tree_nodes.induct)
  case (1 sha layer)
  note nodes = tree_nodes.simps [of sha layer] and texts = tree_texts.simps [of sha layer]
  show ?case
  proof (cases "x \<in> set layer")
    case False
    then have len: "1 < length layer" and x: "x \<in> set (tree_nodes sha (next_layer sha layer))"
      using "1.prems" nodes by (auto split: if_splits)
    from "1.IH" [OF len x] show ?thesis
    proof
      assume "x \<in> set (next_layer sha layer)"
      then show ?thesis using next_layer_pairs [of x sha layer] nodes texts len by auto
    qed (use nodes texts len in auto)
  qed simp
qed

lemma climb_in_tree: "layer \<noteq> [] \<Longrightarrow> hd (climb sha layer) \<in> set (tree_nodes sha layer)"
proof (induction sha layer rule: climb.induct)
  case (1 sha layer)
  show ?case
  proof (cases "1 < length layer")
    case True
    then have "next_layer sha layer \<noteq> []" using length_next_layer [of sha layer] by fastforce
    then show ?thesis using "1.IH" True by (simp add: climb.simps [of sha layer] tree_nodes.simps [of sha layer])
  next
    case False
    then show ?thesis using "1.prems" by (simp add: climb.simps [of sha layer] tree_nodes.simps [of sha layer])
  qed
qed

text \<open>An accepted path stays inside the tree, because a parent's text determines its children.\<close>

lemma path_inside_tree:
  assumes "hex_digests sha" and "layer = map (leaf_digest sha) ls"
    and "collision_free sha ts" and "set (map leaf_text ls) \<union> set (tree_texts sha layer) \<subseteq> set ts"
  shows "set (proof_texts sha steps c) \<subseteq> set ts \<Longrightarrow> length c = 71 \<Longrightarrow> climb_proof sha steps c \<in> set (tree_nodes sha layer) \<Longrightarrow>
    c \<in> set (tree_nodes sha layer)"
proof (induction steps arbitrary: c)
  case (Cons step steps)
  obtain side h where step: "step = (side, h)" by fastforce
  define l and r where "l = (if side = PosLeft then h else c)" and "r = (if side = PosLeft then c else h)"
  have parent: "parent_text l r \<in> set ts" "set (proof_texts sha steps (merkleParentHash sha l r)) \<subseteq> set ts"
    using Cons.prems(1) by (cases side; simp add: step l_def r_def)+
  have "merkleParentHash sha l r \<in> set (tree_nodes sha layer)"
  proof (rule Cons.IH [OF parent(2)])
    show "length (merkleParentHash sha l r) = 71" unfolding merkleParentHash_def by (rule digest_length [OF assms(1)])
    show "climb_proof sha steps (merkleParentHash sha l r) \<in> set (tree_nodes sha layer)"
      using Cons.prems(3) by (cases side) (simp_all add: step l_def r_def)
  qed
  from tree_node_cases [OF this] show ?case
  proof
    assume "merkleParentHash sha l r \<in> set layer"
    then obtain lf where "lf \<in> set ls" "sha (parent_text l r) = sha (leaf_text lf)"
      by (auto simp: assms(2) merkleParentHash_def leaf_digest_def)
    then show ?thesis using collision_freeD [OF assms(3) parent(1), of "leaf_text lf"] assms(4) leaf_text_not_parent by auto
  next
    assume "\<exists>l'\<in>set (tree_nodes sha layer). \<exists>r'\<in>set (tree_nodes sha layer).
      merkleParentHash sha l r = merkleParentHash sha l' r' \<and> parent_text l' r' \<in> set (tree_texts sha layer)"
    then obtain l' r' where n: "l' \<in> set (tree_nodes sha layer)" "r' \<in> set (tree_nodes sha layer)"
      "sha (parent_text l r) = sha (parent_text l' r')" "parent_text l' r' \<in> set (tree_texts sha layer)"
      by (auto simp: merkleParentHash_def)
    have "length x = 71" if "x \<in> set (tree_nodes sha layer)" for x
      using tree_node_cases [OF that] digest_length [OF assms(1)] by (auto simp: assms(2) leaf_digest_def merkleParentHash_def)
    then have "length c = length l'" "length c = length r'" using n(1,2) Cons.prems(2) by simp_all
    moreover have "parent_text l r = parent_text l' r'" using collision_freeD [OF assms(3) parent(1) _ n(3)] n(4) assms(4) by blast
    ultimately have "l = l' \<and> r = r'" using parent_text_inject [of l l' r r'] by (auto simp: l_def r_def split: if_splits)
    then show ?thesis using n(1,2) by (auto simp: l_def r_def split: if_splits)
  qed
qed simp

lemma leaf_in_tree:
  assumes "layer = map (leaf_digest sha) ls" and "collision_free sha ts" and "leaf_text l \<in> set ts"
    and "set (map leaf_text ls) \<union> set (tree_texts sha layer) \<subseteq> set ts" and "leaf_digest sha l \<in> set (tree_nodes sha layer)"
  shows "l \<in> set ls"
  using tree_node_cases [OF assms(5)]
proof
  assume "leaf_digest sha l \<in> set layer"
  then obtain l' where "l' \<in> set ls" "sha (leaf_text l) = sha (leaf_text l')" by (auto simp: assms(1) leaf_digest_def)
  then show ?thesis using collision_freeD [OF assms(2,3), of "leaf_text l'"] assms(4) leaf_text_inject by auto
next
  assume "\<exists>a\<in>set (tree_nodes sha layer). \<exists>b\<in>set (tree_nodes sha layer). leaf_digest sha l = merkleParentHash sha a b \<and> parent_text a b \<in> set (tree_texts sha layer)"
  then obtain a b where "sha (leaf_text l) = sha (parent_text a b)" "parent_text a b \<in> set (tree_texts sha layer)"
    by (auto simp: leaf_digest_def merkleParentHash_def)
  then show ?thesis using collision_freeD [OF assms(2,3), of "parent_text a b"] assms(4) leaf_text_not_parent by auto
qed

subsection \<open>The leaves of a checkpoint\<close>

definition last_heads :: "ReceiptChainHeadLeaf list \<Rightarrow> jstr \<rightharpoonup> ReceiptChainHeadLeaf" where
  "last_heads ls = map_of (rev (map (\<lambda>l. (lf_tenantId l, l)) ls))"

lemma leaf_hashes_eq [simp]: "sequence (map (receiptChainHeadLeafHash sha) ls) = Inr (map (leaf_digest sha) ls)"
  by (rule sequence_map_ok) simp

lemma seen_heads_snoc: "seen_heads (ls @ [l]) = AList.update (lf_tenantId l) l (seen_heads ls)"
  by (simp add: seen_heads_def)

lemma map_of_seen: "map_of (seen_heads ls) = last_heads ls"
  by (induction ls rule: rev_induct) (simp_all add: seen_heads_snoc update_conv' last_heads_def, simp add: seen_heads_def)

lemma distinct_seen: "distinct (map fst (seen_heads ls))"
  by (induction ls rule: rev_induct) (simp_all add: seen_heads_snoc distinct_update, simp add: seen_heads_def)

lemma seen_keys: "(t, l) \<in> set (seen_heads ls) \<Longrightarrow> lf_tenantId l = t"
proof (induction ls rule: rev_induct)
  case (snoc x ls)
  then show ?case using set_update_subset [of "lf_tenantId x" x "seen_heads ls"] by (auto simp: seen_heads_snoc)
qed (simp add: seen_heads_def)

lemma set_normalize: "l \<in> set (normalizeChainHeadLeaves lc ls) \<longleftrightarrow> last_heads ls (lf_tenantId l) = Some l"
proof -
  have "l \<in> snd ` set (seen_heads ls) \<longleftrightarrow> (lf_tenantId l, l) \<in> set (seen_heads ls)" using seen_keys by (force simp: image_iff)
  also have "\<dots> \<longleftrightarrow> map_of (seen_heads ls) (lf_tenantId l) = Some l" by (simp only: map_of_eq_Some_iff [OF distinct_seen])
  finally show ?thesis by (simp only: normalizeChainHeadLeaves_def set_sort_by set_map map_of_seen)
qed

lemma distinct_normalize: "distinct (map lf_tenantId (normalizeChainHeadLeaves lc ls))"
proof -
  have "map lf_tenantId (map snd (seen_heads ls)) = map fst (seen_heads ls)" using seen_keys by (auto simp: comp_def)
  then have "distinct (map lf_tenantId (map snd (seen_heads ls)))" using distinct_seen by metis
  then show ?thesis unfolding normalizeChainHeadLeaves_def by (simp only: distinct_map set_sort_by distinct_sort_by)
qed

lemma last_heads_distinct: "distinct (map lf_tenantId ls) \<Longrightarrow> last_heads ls (lf_tenantId l) = Some l \<longleftrightarrow> l \<in> set ls"
  unfolding last_heads_def by (subst map_of_eq_Some_iff) (auto simp: comp_def rev_map [symmetric])

lemma normalize_twice: "set (normalizeChainHeadLeaves lc (normalizeChainHeadLeaves lc ls)) = set (normalizeChainHeadLeaves lc ls)"
  using last_heads_distinct [OF distinct_normalize] by (auto simp: set_normalize)

lemma root_eq:
  "merkleRootForLeaves lc sha leaves =
     (let ls = normalizeChainHeadLeaves lc leaves in
      Inr (if ls = [] then js ''sha256:'' @ sha empty_text else hd (climb sha (map (leaf_digest sha) ls))))"
  by (auto simp: merkleRootForLeaves_def Let_def empty_text_def split: list.splits)

lemma find_index_None: "find_index P xs = None \<longleftrightarrow> (\<forall>x\<in>set xs. \<not> P x)"
  by (induction xs) auto

lemma find_index_Some: "find_index P xs = Some i \<Longrightarrow> i < length xs \<and> P (xs ! i)"
  by (induction xs arbitrary: i) (auto split: if_splits)

text \<open>
  Inclusion proofs are complete: for a chain head among the normalised leaves the code builds a
  proof with the root of these leaves, and its own verifier accepts it; for any other leaf it raises the error for a
  missing leaf.
\<close>

theorem checkpoint_proof_complete:
  "if target \<in> set (normalizeChainHeadLeaves lc leaves)
   then \<exists>p. buildMerkleInclusionProof lc sha leaves target = Inr p \<and> mp_leaf p = target \<and> merkleRootForLeaves lc sha leaves = Inr (mp_root p)
     \<and> verifyMerkleInclusionProof sha p None = Inr True
   else buildMerkleInclusionProof lc sha leaves target = Inl LeafNotPresent"
proof -
  let ?ls = "normalizeChainHeadLeaves lc leaves"
  let ?P = "\<lambda>leaf. lf_tenantId leaf = lf_tenantId target \<and> lf_headHash leaf = lf_headHash target"
  have P: "?P l \<longleftrightarrow> l = target" for l by auto
  show ?thesis
  proof (cases "find_index ?P ?ls")
    case None
    then have "target \<notin> set ?ls" by (auto simp: find_index_None)
    then show ?thesis using None by (simp add: buildMerkleInclusionProof_def)
  next
    case (Some i)
    then have i: "i < length ?ls" "?ls ! i = target" using find_index_Some P by blast+
    obtain steps apex where p: "proof_path sha i (map (leaf_digest sha) ?ls) = (steps, apex)" by fastforce
    have "apex = climb sha (map (leaf_digest sha) ?ls)" "apex \<noteq> []" and steps: "climb_proof sha steps (leaf_digest sha target) = hd apex"
      using proof_path_climbs [OF _ p] i by auto
    then obtain r rs where r: "climb sha (map (leaf_digest sha) ?ls) = r # rs" "apex = r # rs" by (metis list.exhaust)
    have ls: "?ls \<noteq> []" "target \<in> set ?ls" using i by force+
    have "buildMerkleInclusionProof lc sha leaves target
        = Inr \<lparr>mp_leaf = target, mp_leafHash = leaf_digest sha target, mp_proof = steps, mp_root = r\<rparr>"
      using Some p r(2) by (simp add: buildMerkleInclusionProof_def root_eq Let_def)
    then show ?thesis using ls r steps by (simp add: root_eq verifyMerkleInclusionProof_def or_default_def)
  qed
qed

text \<open>The texts that a check of a proof against the root of some leaves hashes.\<close>

definition checkpoint_texts :: "(jstr \<Rightarrow> jstr) \<Rightarrow> ReceiptChainHeadLeaf list \<Rightarrow> MerkleInclusionProof \<Rightarrow> jstr list" where
  "checkpoint_texts sha ls p =
     empty_text # leaf_text (mp_leaf p) # map leaf_text ls @ tree_texts sha (map (leaf_digest sha) ls)
       @ proof_texts sha (mp_proof p) (leaf_digest sha (mp_leaf p))"

lemma climb_proof_digest: "climb_proof sha steps c = c \<and> steps = [] \<or> (\<exists>l r. climb_proof sha steps c = merkleParentHash sha l r \<and> parent_text l r \<in> set (proof_texts sha steps c))"
proof (induction steps arbitrary: c)
  case (Cons step steps)
  obtain side h where step: "step = (side, h)" by fastforce
  show ?case using Cons.IH [of "merkleParentHash sha h c"] Cons.IH [of "merkleParentHash sha c h"]
    by (cases side) (auto simp: step)
qed simp

lemma accepted_leaf:
  assumes "hex_digests sha" and "merkleRootForLeaves lc sha leaves = Inr root" and "verifyMerkleInclusionProof sha p (Some root) = Inr True"
    and "collision_free sha (checkpoint_texts sha (normalizeChainHeadLeaves lc leaves) p)"
  shows "mp_leaf p \<in> set (normalizeChainHeadLeaves lc leaves)"
proof -
  let ?ls = "normalizeChainHeadLeaves lc leaves" and ?c = "leaf_digest sha (mp_leaf p)"
  let ?layer = "map (leaf_digest sha) ?ls" and ?ts = "checkpoint_texts sha ?ls p"
  have root: "climb_proof sha (mp_proof p) ?c = root"
    using assms(3) by (auto simp: verifyMerkleInclusionProof_def or_default_def split: if_splits)
  have len: "length ?c = 71" using digest_length [OF assms(1)] by (simp only: leaf_digest_def)
  have ts: "set (map leaf_text ?ls) \<union> set (tree_texts sha ?layer) \<subseteq> set ?ts" "set (proof_texts sha (mp_proof p) ?c) \<subseteq> set ?ts"
    "leaf_text (mp_leaf p) \<in> set ?ts" "empty_text \<in> set ?ts"
    by (auto simp: checkpoint_texts_def)
  show ?thesis
  proof (cases "?ls = []")
    case True
    then have e: "climb_proof sha (mp_proof p) ?c = js ''sha256:'' @ sha empty_text" using assms(2) root by (simp add: root_eq)
    from climb_proof_digest [of sha "mp_proof p" ?c] show ?thesis
    proof
      assume "climb_proof sha (mp_proof p) ?c = ?c \<and> mp_proof p = []"
      then have "sha empty_text = sha (leaf_text (mp_leaf p))" using e by (simp add: leaf_digest_def)
      then show ?thesis using collision_freeD [OF assms(4) ts(4,3)] empty_text_apart by simp
    next
      assume "\<exists>l r. climb_proof sha (mp_proof p) ?c = merkleParentHash sha l r \<and> parent_text l r \<in> set (proof_texts sha (mp_proof p) ?c)"
      then obtain l r where "sha empty_text = sha (parent_text l r)" "parent_text l r \<in> set ?ts"
        using e ts(2) by (auto simp: merkleParentHash_def)
      then show ?thesis using collision_freeD [OF assms(4) ts(4)] empty_text_apart by metis
    qed
  next
    case False
    then have "climb_proof sha (mp_proof p) ?c \<in> set (tree_nodes sha ?layer)"
      using assms(2) root climb_in_tree [of ?layer sha] by (auto simp: root_eq Let_def)
    then have "?c \<in> set (tree_nodes sha ?layer)" by (rule path_inside_tree [OF assms(1) refl assms(4) ts(1,2) len])
    then show ?thesis by (rule leaf_in_tree [OF refl assms(4) ts(3,1)])
  qed
qed

text \<open>
  Inclusion proofs are sound: a proof that the verifier accepts against the root of a set of chain heads
  names the current head of its tenant among them, whatever steps and positions the
  proof has, when the digests are hexadecimal and do not collide on the texts that are hashed.
\<close>

theorem checkpoint_proof_sound:
  assumes "hex_digests sha" and "merkleRootForLeaves lc sha leaves = Inr root" and "verifyMerkleInclusionProof sha p (Some root) = Inr True"
    and "collision_free sha (checkpoint_texts sha (normalizeChainHeadLeaves lc leaves) p)"
  shows "last_heads leaves (lf_tenantId (mp_leaf p)) = Some (mp_leaf p)"
  using accepted_leaf [OF assms] by (simp add: set_normalize)

subsection \<open>Checkpoints of the in-memory repository\<close>

text \<open>The world of the two in-memory repositories: chain heads are listed from the first, checkpoints are stored in the second.\<close>

type_synonym repositories = "InMemoryDecisionReceiptRepository \<times> InMemoryReceiptCheckpointRepository"

definition memory_heads :: "(jstr \<Rightarrow> jstr \<Rightarrow> int) \<Rightarrow> repositories \<Rightarrow> (checkpoint_error + DecisionReceiptChainHead list) \<times> repositories" where
  "memory_heads lc w = (Inr (listChainHeads lc (fst w)), w)"

definition memory_checkpoints :: "SignedEpochCheckpoint \<Rightarrow> repositories \<Rightarrow> (checkpoint_error + unit) \<times> repositories" where
  "memory_checkpoints c w = (fst (checkpoint_put c (snd w)), (fst w, snd (checkpoint_put c (snd w))))"

definition head_leaves :: "(jstr \<Rightarrow> jstr \<Rightarrow> int) \<Rightarrow> InMemoryDecisionReceiptRepository \<Rightarrow> ReceiptChainHeadLeaf list" where
  "head_leaves lc repo = normalizeChainHeadLeaves lc (normalizeChainHeadLeaves lc (map leaf_of_head (listChainHeads lc repo)))"

lemma distinct_heads: "reachable_repo env repo \<Longrightarrow> distinct (map fst (chainHeads repo))"
proof (induction rule: reachable_repo.induct)
  case (put repo r)
  then show ?case by (cases rule: put_result [of r env repo]) (auto simp: created_def distinct_update)
qed (simp add: empty_repository_def)

lemma head_leaves_latest:
  assumes "reachable_repo env repo" and "l \<in> set (head_leaves lc repo)"
  shows "latestHashForTenant (lf_tenantId l) repo = Some (lf_headHash l)"
proof -
  let ?leaf = "\<lambda>(t, head). \<lparr>lf_tenantId = t, lf_headHash = h_headHash head\<rparr>"
  have leaves: "set (map leaf_of_head (listChainHeads lc repo)) = ?leaf ` set (chainHeads repo)"
    by (simp add: listChainHeads_def leaf_of_head_def ChainHead.defs image_image case_prod_beta)
  have "last_heads ls t = Some l \<Longrightarrow> l \<in> set ls" for ls t by (auto simp: last_heads_def dest: map_of_SomeD)
  then have "l \<in> set (map leaf_of_head (listChainHeads lc repo))"
    using assms(2) unfolding head_leaves_def normalize_twice set_normalize by blast
  then obtain t head where th: "(t, head) \<in> set (chainHeads repo)" "l = \<lparr>lf_tenantId = t, lf_headHash = h_headHash head\<rparr>"
    unfolding leaves by auto
  then show ?thesis using distinct_heads [OF assms(1)] by (simp add: latestHashForTenant_def)
qed

lemma checkpoint_root:
  assumes "signEpochCheckpoint lc sha epochId createdAt leaves signer = Inr c"
  shows "merkleRootForLeaves lc sha (normalizeChainHeadLeaves lc leaves) = Inr (ck_merkleRoot c)" and "ck_epochId c = epochId"
  using assms by (auto simp: signEpochCheckpoint_def buildUnsignedEpochCheckpoint_def Let_def UnsignedEpochCheckpoint.defs split: sum.splits)

text \<open>
  Claim C8. Checkpoints anchor the receipt logs: take a checkpoint of a reachable repository, store it,
  and let \<open>assertCheckpointIncludesHead\<close> accept a proof against it. Then the proof's leaf holds the hash of the last
  receipt in the log of its tenant at the time of the checkpoint, and the checkpoint is what the checkpoint repository
  returns for its epoch. The receipts are not changed.
\<close>

theorem checkpoint_anchors_tenant_logs:
  assumes "reachable_repo env repo"
    and "createSignedEpochCheckpoint lc sha epochId createdAt (Some (memory_heads lc)) signer (Some memory_checkpoints) (repo, stored) = (Inr c, repo', stored')"
    and "assertCheckpointIncludesHead sha c p = Inr ()" and "hex_digests sha"
    and "collision_free sha (checkpoint_texts sha (head_leaves lc repo) p)"
  shows "repo' = repo \<and> checkpoint_get epochId stored' = Some c
    \<and> (\<exists>rs r. tenant_log (lf_tenantId (mp_leaf p)) repo = rs @ [r] \<and> signedDecisionReceiptHash env r = Inr (lf_headHash (mp_leaf p)))"
proof -
  let ?leaves = "map leaf_of_head (listChainHeads lc repo)" and ?t = "lf_tenantId (mp_leaf p)"
  have c: "signEpochCheckpoint lc sha epochId createdAt ?leaves signer = Inr c" and put: "memory_checkpoints c (repo, stored) = (Inr (), repo', stored')"
    using assms(2) by (auto simp: createSignedEpochCheckpoint_def memory_heads_def split: sum.splits prod.splits)
  have stored: "repo' = repo" "checkpoint_get epochId stored' = Some c"
    using put checkpoint_root(2) [OF c] by (auto simp: memory_checkpoints_def checkpoint_put_def checkpoint_get_def update_conv' split: if_splits)
  have "verifyMerkleInclusionProof sha p (Some (ck_merkleRoot c)) = Inr True"
    using assms(3) by (auto simp: assertCheckpointIncludesHead_def split: if_splits sum.splits)
  from accepted_leaf [OF assms(4) checkpoint_root(1) [OF c] this assms(5) [unfolded head_leaves_def]]
  have "latestHashForTenant ?t repo = Some (lf_headHash (mp_leaf p))"
    by (intro head_leaves_latest [OF assms(1)]) (simp add: head_leaves_def)
  moreover have "log_linked (signedDecisionReceiptHash env) None (tenant_log ?t repo) (latestHashForTenant ?t repo)"
    using reachable_repo_inv [OF assms(1)] by (simp add: repo_inv_def)
  ultimately have "\<exists>rs r. tenant_log ?t repo = rs @ [r] \<and> signedDecisionReceiptHash env r = Inr (lf_headHash (mp_leaf p))"
    by (cases "tenant_log ?t repo" rule: rev_cases) (auto simp: log_linked_snoc)
  then show ?thesis using stored by blast
qed

subsection \<open>Signed checkpoints verify\<close>

definition local_checkpoint_verifier :: "(jstr \<Rightarrow> jstr \<Rightarrow> byte list) \<Rightarrow> jstr \<Rightarrow> jstr \<Rightarrow> EpochCheckpointCanonicalVerifier" where
  "local_checkpoint_verifier hmac_bytes keyId secret =
     \<lparr>ev_algorithm = alg_name LOCAL_HMAC_SHA256_DEV_ONLY, ev_keyId = Some keyId,
      ev_verify = \<lambda>payload sig _. case localVerifyCanonical hmac_bytes secret payload sig of Inl _ \<Rightarrow> Inl [] | Inr ok \<Rightarrow> Inr ok\<rparr>"

lemma local_checkpoint:
  obtains c t where "signEpochCheckpoint lc sha epochId createdAt leaves (async_of (local_signer hmac_bytes keyId secret)) = Inr c"
    "ck_schemaVersion c = epochCheckpointSchemaVersion" "ck_signatureAlg c = alg_name LOCAL_HMAC_SHA256_DEV_ONLY" "ck_signerKeyId c = keyId"
    "ck_signature c = base64 (hmac_bytes secret t)" "canonicalize (checkpoint_json c) = Inr t" "t \<noteq> []"
proof -
  have "json_shaped (leaves_json ls)" for ls by (auto simp: leaves_json_def list_all_iff)
  then obtain u where u: "buildUnsignedEpochCheckpoint lc sha epochId createdAt leaves = Inr u" "ck_schemaVersion u = epochCheckpointSchemaVersion" "wf_num (ck_leafCount u)"
    by (auto simp: buildUnsignedEpochCheckpoint_def Let_def prefixed_id_def canonicalSha256Hex_def canonicalize_norm root_eq wf_num_of_nat)
  have "json_shaped (checkpoint_json u)" using u(3) by (simp add: checkpoint_json_def)
  then obtain t where t: "canonicalize (checkpoint_json u) = Inr t" "t \<noteq> []"
    using canonicalize_norm [of "checkpoint_json u"] by (simp add: checkpoint_json_def del: canonicalize.simps)
  define c where "c = UnsignedEpochCheckpoint.extend u
    \<lparr>ck_signatureAlg = alg_name LOCAL_HMAC_SHA256_DEV_ONLY, ck_signerKeyId = keyId, ck_signature = base64 (hmac_bytes secret t)\<rparr>"
  have "signEpochCheckpoint lc sha epochId createdAt leaves (async_of (local_signer hmac_bytes keyId secret)) = Inr c"
    using u t by (simp add: signEpochCheckpoint_def async_of_def local_signer_def c_def)
  moreover have "ck_schemaVersion c = epochCheckpointSchemaVersion" "ck_signatureAlg c = alg_name LOCAL_HMAC_SHA256_DEV_ONLY" "ck_signerKeyId c = keyId"
    "ck_signature c = base64 (hmac_bytes secret t)" "checkpoint_json c = checkpoint_json u"
    by (simp_all add: c_def u(2) checkpoint_json_def UnsignedEpochCheckpoint.defs)
  ultimately show thesis using that [of c t] t by simp
qed

text \<open>
  Signing a checkpoint always succeeds with the local signer, and the signed checkpoint passes every check of
  \<open>verifyEpochCheckpoint\<close> with the same key and secret.
\<close>

theorem signed_checkpoint_verifies:
  assumes "\<And>payload. hmac_bytes secret payload \<noteq> []"
  shows "\<exists>c. signEpochCheckpoint lc sha epochId createdAt leaves (async_of (local_signer hmac_bytes keyId secret)) = Inr c
    \<and> fst (verifyEpochCheckpoint c (local_checkpoint_verifier hmac_bytes keyId secret))"
proof (rule local_checkpoint [of lc sha epochId createdAt leaves hmac_bytes keyId secret])
  fix c t
  assume c: "signEpochCheckpoint lc sha epochId createdAt leaves (async_of (local_signer hmac_bytes keyId secret)) = Inr c"
    and fields: "ck_schemaVersion c = epochCheckpointSchemaVersion" "ck_signatureAlg c = alg_name LOCAL_HMAC_SHA256_DEV_ONLY" "ck_signerKeyId c = keyId"
    and t: "ck_signature c = base64 (hmac_bytes secret t)" "canonicalize (checkpoint_json c) = Inr t" "t \<noteq> []"
  have "signature_result (local_checkpoint_verifier hmac_bytes keyId secret) c = (True, SignatureCompleted)"
    using t base64_signature [OF assms, of t] by (simp add: signature_result_def local_checkpoint_verifier_def localVerifyCanonical_def)
  then have "fst (verifyEpochCheckpoint c (local_checkpoint_verifier hmac_bytes keyId secret))"
    using fields by (simp add: verifyEpochCheckpoint_def key_accepted_def local_checkpoint_verifier_def Let_def)
  then show ?thesis using c by blast
qed

subsection \<open>Sample checkpoints\<close>

definition leaf_a :: ReceiptChainHeadLeaf where
  "leaf_a = \<lparr>lf_tenantId = js ''t'', lf_headHash = js ''x''\<rparr>"

definition leaf_b :: ReceiptChainHeadLeaf where
  "leaf_b = \<lparr>lf_tenantId = js ''u'', lf_headHash = js ''y''\<rparr>"

text \<open>A digest that tells the texts of the empty tree and of the two leaves from each other and from all others.\<close>

definition tree_digest :: "jstr \<Rightarrow> jstr" where
  "tree_digest t = digest_of (if t = empty_text then 0 else if t = leaf_text leaf_a then 1 else if t = leaf_text leaf_b then 2 else 3)"

lemma hex_digests_tree: "hex_digests tree_digest"
proof -
  have "is_lower_hex 48" by (simp add: is_lower_hex_def is_digit_def)
  then show ?thesis
    by (simp add: hex_digests_def hex64_def tree_digest_def digest_of_def is_lower_hex_hex_digit list_all_append list_all_replicate)
qed

lemma digests_distinct: "distinct (map digest_of [0, 1, 2, 3])"
  by code_simp

lemma leaf_texts_apart: "leaf_text leaf_a \<noteq> leaf_text leaf_b" "empty_text \<noteq> leaf_text l" "leaf_text l \<noteq> empty_text" "parent_text x y \<noteq> empty_text"
  "empty_text \<noteq> parent_text x y"
  by (simp add: leaf_text_inject leaf_a_def leaf_b_def) (metis empty_text_apart)+

definition proof_a :: MerkleInclusionProof where
  "proof_a = \<lparr>mp_leaf = leaf_a, mp_leafHash = leaf_digest tree_digest leaf_a, mp_proof = [(PosRight, leaf_digest tree_digest leaf_b)],
     mp_root = merkleParentHash tree_digest (leaf_digest tree_digest leaf_a) (leaf_digest tree_digest leaf_b)\<rparr>"

lemma normalize_ab: "normalizeChainHeadLeaves utf16LexicographicCompare [leaf_b, leaf_a] = [leaf_a, leaf_b]"
  by code_simp

lemma proof_a_collision_free: "collision_free tree_digest (checkpoint_texts tree_digest [leaf_a, leaf_b] proof_a)"
proof -
  let ?d = "leaf_digest tree_digest"
  have "distinct (map tree_digest [empty_text, leaf_text leaf_a, leaf_text leaf_b, parent_text (?d leaf_a) (?d leaf_b)])"
    using digests_distinct leaf_texts_apart leaf_text_not_parent by (simp add: tree_digest_def)
  then show ?thesis by (rule collision_free_distinct) (simp add: checkpoint_texts_def tree_texts.simps proof_a_def)
qed

theorem checkpoint_proof_sound_witness:
  "last_heads [leaf_b, leaf_a] (lf_tenantId (mp_leaf proof_a)) = Some (mp_leaf proof_a)"
proof -
  have root: "merkleRootForLeaves utf16LexicographicCompare tree_digest [leaf_b, leaf_a] = Inr (mp_root proof_a)"
    by (simp add: root_eq normalize_ab climb.simps proof_a_def)
  have "verifyMerkleInclusionProof tree_digest proof_a (Some (mp_root proof_a)) = Inr True"
    by (simp add: verifyMerkleInclusionProof_def proof_a_def or_default_def)
  from checkpoint_proof_sound [OF hex_digests_tree root this] show ?thesis using proof_a_collision_free by (simp add: normalize_ab)
qed

theorem signed_checkpoint_verifies_witness:
  "\<exists>c. signEpochCheckpoint utf16LexicographicCompare sample_digest (js ''e'') (js ''now'') [leaf_a] (async_of sample_signer) = Inr c
    \<and> fst (verifyEpochCheckpoint c (local_checkpoint_verifier (\<lambda>_ _. [1, 2, 3]) (js ''k'') (js ''secret'')))"
  unfolding sample_signer_def by (rule signed_checkpoint_verifies) simp

definition genesis_leaf :: ReceiptChainHeadLeaf where
  "genesis_leaf = \<lparr>lf_tenantId = zero_digest, lf_headHash = genesis_hash\<rparr>"

definition genesis_proof :: MerkleInclusionProof where
  "genesis_proof = \<lparr>mp_leaf = genesis_leaf, mp_leafHash = leaf_digest tree_digest genesis_leaf, mp_proof = [], mp_root = leaf_digest tree_digest genesis_leaf\<rparr>"

lemma repo1_leaves: "head_leaves lc repo1 = [genesis_leaf]"
proof -
  have "tenant_log zero_digest empty_repository = []" by (simp add: tenant_log_def empty_repository_def)
  then have "snd (put chain_env genesis empty_repository) \<noteq> empty_repository" using sample_logs(1) by (auto simp: repo1_def)
  then have "chainHeads repo1 = [(zero_digest, \<lparr>h_receiptId = r_receipt_id genesis, h_headHash = genesis_hash, h_updatedAt = r_timestamp genesis\<rparr>)]"
    by (cases rule: put_result [of genesis chain_env empty_repository])
      (auto simp: repo1_def created_def hash_genesis sample_fields, simp_all add: empty_repository_def)
  then show ?thesis
    by (simp add: head_leaves_def listChainHeads_def leaf_of_head_def ChainHead.defs normalizeChainHeadLeaves_def seen_heads_def sort_by_def genesis_leaf_def)
qed

theorem checkpoint_anchors_tenant_logs_witness:
  "\<exists>rs r. tenant_log (lf_tenantId (mp_leaf genesis_proof)) repo1 = rs @ [r] \<and> signedDecisionReceiptHash chain_env r = Inr (lf_headHash (mp_leaf genesis_proof))"
proof -
  let ?lc = utf16LexicographicCompare
  obtain c where c: "signEpochCheckpoint ?lc tree_digest (js ''e'') (js ''now'') (map leaf_of_head (listChainHeads ?lc repo1)) (async_of sample_signer) = Inr c"
    unfolding sample_signer_def by (rule local_checkpoint)
  have genesis_apart: "leaf_text genesis_leaf \<noteq> leaf_text leaf_a" "leaf_text genesis_leaf \<noteq> leaf_text leaf_b"
    by (simp_all add: leaf_text_inject leaf_a_def leaf_b_def genesis_leaf_def zero_digest_def js_def)
  have "merkleRootForLeaves ?lc tree_digest (normalizeChainHeadLeaves ?lc (map leaf_of_head (listChainHeads ?lc repo1))) = Inr (leaf_digest tree_digest genesis_leaf)"
    using repo1_leaves [of ?lc] by (simp add: root_eq head_leaves_def climb.simps)
  then have root: "ck_merkleRoot c = leaf_digest tree_digest genesis_leaf" using checkpoint_root(1) [OF c] by simp
  have free: "collision_free tree_digest (checkpoint_texts tree_digest (head_leaves ?lc repo1) genesis_proof)"
    using genesis_apart leaf_texts_apart digests_distinct
    by (auto simp: collision_free_def checkpoint_texts_def repo1_leaves genesis_proof_def tree_texts.simps tree_digest_def)
  have "createSignedEpochCheckpoint ?lc tree_digest (js ''e'') (js ''now'') (Some (memory_heads ?lc)) (async_of sample_signer) (Some memory_checkpoints) (repo1, [])
      = (Inr c, repo1, [(js ''e'', c)])"
    using c checkpoint_root(2) [OF c] by (simp add: createSignedEpochCheckpoint_def memory_heads_def memory_checkpoints_def checkpoint_put_def)
  moreover have "assertCheckpointIncludesHead tree_digest c genesis_proof = Inr ()"
    using root by (simp add: assertCheckpointIncludesHead_def verifyMerkleInclusionProof_def genesis_proof_def or_default_def)
  ultimately show ?thesis using checkpoint_anchors_tenant_logs [OF reachable_samples(1) _ _ hex_digests_tree free] by blast
qed

end
