(* ===== verification/Ledger_Revocation.thy ===== *)
theory Ledger_Revocation
  imports Epoch_Checkpoint
begin

text \<open>
  Revocation by ledger order, \<open>receipts/ledgerAnchoredRevocation.ts\<close> of \<open>packages/enforcement-runtime/src\<close>. \<open>Date.parse\<close> is an
  argument that returns \<open>None\<close> for a value that is not finite; an epoch's index is an integer, which the
  code checks to be safe and not negative.
\<close>

subsection \<open>Data\<close>

record LedgerEpochRef =
  le_epochId :: jstr
  le_index :: int
  le_createdAt :: jstr
  le_merkleRoot :: jstr

record LedgerSequence =
  ls_logId :: jstr
  ls_epochs :: "LedgerEpochRef list"

record RevocationAnchor =
  ra_keyId :: jstr
  ra_revocationEpochId :: jstr
  ra_reason :: "jstr option"

record LedgerAnchoredRevocationInput =
  lr_keyId :: jstr
  lr_receiptTimestamp :: "jstr option"
  lr_inclusionEpochId :: jstr
  lr_inclusionProof :: MerkleInclusionProof
  lr_sequence :: LedgerSequence
  lr_revocation :: RevocationAnchor

datatype sequence_error =
    LogIdMissing | NoEpochs | IndexNotSafe jstr | RootNotDigest jstr | DuplicateEpochId jstr | CreatedAtNotDate jstr
  | IndexNotIncreasing jstr | CreatedAtNotIncreasing jstr

datatype ledger_detail =
    LedgerOrdered | LedgerInvalid sequence_error | AnchorTargetsOther jstr jstr | AnchorApplies jstr | InclusionEpochMissing jstr
  | InclusionClaimed int | ProofInvalid | ProofReconstructs | RevocationEpochMissing jstr | RevocationRecorded int
  | BackdatingSuspected jstr int int | NoContradiction | IndexPrecedes int int | IndexAtOrAfter int int

record LedgerAnchoredCheck =
  lc_name :: jstr
  lc_passed :: bool
  lc_detail :: ledger_detail

datatype LedgerAnchoredStanding = Valid_pre_revocation | Rejected_post_revocation | Rejected_unprovable

datatype result_detail =
    NotAppendOnly | AnchorNotApplicable | PositionUnknown | PositionUnproven | RevocationUnknown | CommittedBefore | CommittedAtOrAfter

record LedgerAnchoredRevocationResult =
  rr_verdict :: bool
  rr_standing :: LedgerAnchoredStanding
  rr_inclusionIndex :: "int option"
  rr_revocationIndex :: "int option"
  rr_backdatingSuspected :: bool
  rr_checks :: "LedgerAnchoredCheck list"
  rr_detail :: result_detail

subsection \<open>The sequence\<close>

fun check_epochs :: "(jstr \<Rightarrow> int option) \<Rightarrow> jstr list \<Rightarrow> LedgerEpochRef option \<Rightarrow> LedgerEpochRef list \<Rightarrow> sequence_error + unit" where
  "check_epochs dateParse seenIds previous [] = Inr ()"
| "check_epochs dateParse seenIds previous (e # es) =
     (if \<not> is_safe_integer (le_index e) \<or> le_index e < 0 then Inl (IndexNotSafe (le_epochId e))
      else if \<not> sha256_shape (le_merkleRoot e) then Inl (RootNotDigest (le_epochId e))
      else if le_epochId e \<in> set seenIds then Inl (DuplicateEpochId (le_epochId e))
      else
        (case dateParse (le_createdAt e) of
           None \<Rightarrow> Inl (CreatedAtNotDate (le_epochId e))
         | Some createdAt \<Rightarrow>
             (case previous of
                None \<Rightarrow> check_epochs dateParse (le_epochId e # seenIds) (Some e) es
              | Some p \<Rightarrow>
                  if le_index e \<le> le_index p then Inl (IndexNotIncreasing (le_epochId e))
                  else if (case dateParse (le_createdAt p) of None \<Rightarrow> False | Some before \<Rightarrow> createdAt \<le> before) then Inl (CreatedAtNotIncreasing (le_epochId e))
                  else check_epochs dateParse (le_epochId e # seenIds) (Some e) es)))"

definition assertMonotonicLedgerSequence :: "(jstr \<Rightarrow> int option) \<Rightarrow> LedgerSequence \<Rightarrow> sequence_error + unit" where
  "assertMonotonicLedgerSequence dateParse s =
     (if ls_logId s = [] then Inl LogIdMissing
      else if ls_epochs s = [] then Inl NoEpochs
      else check_epochs dateParse [] None (ls_epochs s))"

definition findEpoch :: "LedgerSequence \<Rightarrow> jstr \<Rightarrow> LedgerEpochRef option" where
  "findEpoch s epochId = List.find (\<lambda>e. le_epochId e = epochId) (ls_epochs s)"

subsection \<open>Enforcement\<close>

definition ledger_check :: "string \<Rightarrow> bool \<Rightarrow> ledger_detail \<Rightarrow> LedgerAnchoredCheck" where
  "ledger_check name passed detail = \<lparr>lc_name = js name, lc_passed = passed, lc_detail = detail\<rparr>"

definition reject :: "result_detail \<Rightarrow> LedgerAnchoredCheck list \<Rightarrow> int option \<Rightarrow> LedgerAnchoredRevocationResult" where
  "reject detail checks inclusionIndex =
     \<lparr>rr_verdict = False, rr_standing = Rejected_unprovable, rr_inclusionIndex = inclusionIndex, rr_revocationIndex = None,
      rr_backdatingSuspected = False, rr_checks = checks, rr_detail = detail\<rparr>"

definition backdated :: "(jstr \<Rightarrow> int option) \<Rightarrow> jstr \<Rightarrow> LedgerEpochRef \<Rightarrow> LedgerEpochRef \<Rightarrow> bool" where
  "backdated dateParse receiptTimestamp inclusion revocation =
     (case (dateParse receiptTimestamp, dateParse (le_createdAt revocation)) of
        (Some claimed, Some sealed) \<Rightarrow> claimed < sealed \<and> le_index revocation \<le> le_index inclusion
      | _ \<Rightarrow> False)"

definition backdating_check :: "(jstr \<Rightarrow> int option) \<Rightarrow> jstr \<Rightarrow> LedgerEpochRef \<Rightarrow> LedgerEpochRef \<Rightarrow> LedgerAnchoredCheck" where
  "backdating_check dateParse ts inclusion revocation =
     (if backdated dateParse ts inclusion revocation
      then ledger_check ''backdating_detector'' False (BackdatingSuspected ts (le_index inclusion) (le_index revocation))
      else ledger_check ''backdating_detector'' True NoContradiction)"

definition enforceLedgerAnchoredRevocation ::
  "(jstr \<Rightarrow> jstr) \<Rightarrow> (jstr \<Rightarrow> int option) \<Rightarrow> LedgerAnchoredRevocationInput \<Rightarrow> canonical_error + LedgerAnchoredRevocationResult" where
  "enforceLedgerAnchoredRevocation sha dateParse inp =
     (case assertMonotonicLedgerSequence dateParse (lr_sequence inp) of
        Inl e \<Rightarrow> Inr (reject NotAppendOnly [ledger_check ''ledger_monotonic'' False (LedgerInvalid e)] None)
      | Inr _ \<Rightarrow>
          (let c1 = [ledger_check ''ledger_monotonic'' True LedgerOrdered]; anchor = lr_revocation inp in
           if lr_keyId inp \<noteq> ra_keyId anchor
           then Inr (reject AnchorNotApplicable (c1 @ [ledger_check ''key_scope'' False (AnchorTargetsOther (ra_keyId anchor) (lr_keyId inp))]) None)
           else
             (let c2 = c1 @ [ledger_check ''key_scope'' True (AnchorApplies (lr_keyId inp))] in
              case findEpoch (lr_sequence inp) (lr_inclusionEpochId inp) of
                None \<Rightarrow> Inr (reject PositionUnknown (c2 @ [ledger_check ''inclusion_epoch_located'' False (InclusionEpochMissing (lr_inclusionEpochId inp))]) None)
              | Some inclusion \<Rightarrow>
                  (let c3 = c2 @ [ledger_check ''inclusion_epoch_located'' True (InclusionClaimed (le_index inclusion))] in
                   case verifyMerkleInclusionProof sha (lr_inclusionProof inp) (Some (le_merkleRoot inclusion)) of
                     Inl e \<Rightarrow> Inl e
                   | Inr False \<Rightarrow> Inr (reject PositionUnproven (c3 @ [ledger_check ''inclusion_proof'' False ProofInvalid]) (Some (le_index inclusion)))
                   | Inr True \<Rightarrow>
                       (let c4 = c3 @ [ledger_check ''inclusion_proof'' True ProofReconstructs] in
                        case findEpoch (lr_sequence inp) (ra_revocationEpochId anchor) of
                          None \<Rightarrow> Inr (reject RevocationUnknown
                            (c4 @ [ledger_check ''revocation_epoch_located'' False (RevocationEpochMissing (ra_revocationEpochId anchor))]) (Some (le_index inclusion)))
                        | Some revocation \<Rightarrow>
                            (let c5 = c4 @ [ledger_check ''revocation_epoch_located'' True (RevocationRecorded (le_index revocation))];
                                 suspected = (case lr_receiptTimestamp inp of None \<Rightarrow> False | Some ts \<Rightarrow> backdated dateParse ts inclusion revocation);
                                 c6 = c5 @ (case lr_receiptTimestamp inp of None \<Rightarrow> [] | Some ts \<Rightarrow> [backdating_check dateParse ts inclusion revocation]);
                                 pre = (le_index inclusion < le_index revocation);
                                 c7 = c6 @ [ledger_check ''ledger_order'' pre
                                   (if pre then IndexPrecedes (le_index inclusion) (le_index revocation) else IndexAtOrAfter (le_index inclusion) (le_index revocation))]
                             in Inr \<lparr>rr_verdict = pre, rr_standing = (if pre then Valid_pre_revocation else Rejected_post_revocation),
                                     rr_inclusionIndex = Some (le_index inclusion), rr_revocationIndex = Some (le_index revocation),
                                     rr_backdatingSuspected = suspected, rr_checks = c7,
                                     rr_detail = (if pre then CommittedBefore else CommittedAtOrAfter)\<rparr>))))))"

subsection \<open>Ordered sequences\<close>

text \<open>What \<open>assertMonotonicLedgerSequence\<close> accepts, as a property of neighbours that is lifted to all pairs.\<close>

definition epoch_ok :: "(jstr \<Rightarrow> int option) \<Rightarrow> LedgerEpochRef \<Rightarrow> bool" where
  "epoch_ok dateParse e \<longleftrightarrow> is_safe_integer (le_index e) \<and> 0 \<le> le_index e \<and> sha256_shape (le_merkleRoot e) \<and> dateParse (le_createdAt e) \<noteq> None"

definition epoch_before :: "(jstr \<Rightarrow> int option) \<Rightarrow> LedgerEpochRef \<Rightarrow> LedgerEpochRef \<Rightarrow> bool" where
  "epoch_before dateParse a b \<longleftrightarrow> le_index a < le_index b \<and> the (dateParse (le_createdAt a)) < the (dateParse (le_createdAt b))"

definition ledger_ordered :: "(jstr \<Rightarrow> int option) \<Rightarrow> LedgerEpochRef list \<Rightarrow> bool" where
  "ledger_ordered dateParse es \<longleftrightarrow> list_all (epoch_ok dateParse) es \<and> sorted_wrt (epoch_before dateParse) es \<and> distinct (map le_epochId es)"

lemma epoch_before_trans: "epoch_before dateParse a b \<Longrightarrow> epoch_before dateParse b c \<Longrightarrow> epoch_before dateParse a c"
  by (auto simp: epoch_before_def)

lemma check_epochs_iff:
  "(case previous of None \<Rightarrow> True | Some p \<Rightarrow> epoch_ok dateParse p) \<Longrightarrow>
   check_epochs dateParse seen previous es = Inr () \<longleftrightarrow>
     list_all (epoch_ok dateParse) es \<and> sorted_wrt (epoch_before dateParse) (case previous of None \<Rightarrow> es | Some p \<Rightarrow> p # es)
     \<and> distinct (map le_epochId es) \<and> set (map le_epochId es) \<inter> set seen = {}"
proof (induction dateParse seen previous es rule: check_epochs.induct)
  case (1 dateParse seen previous)
  then show ?case by (simp split: option.splits)
next
  case (2 dateParse seen previous e es)
  show ?case
  proof (cases "epoch_ok dateParse e \<and> le_epochId e \<notin> set seen")
    case True
    then obtain t where t: "dateParse (le_createdAt e) = Some t" by (auto simp: epoch_ok_def)
    show ?thesis
    proof (cases previous)
      case None
      then show ?thesis using True t "2.IH"(1) by (auto simp: epoch_ok_def)
    next
      case (Some p)
      then obtain s where s: "dateParse (le_createdAt p) = Some s" using "2.prems" by (auto simp: epoch_ok_def)
      have "sorted_wrt (epoch_before dateParse) (p # e # es) \<longleftrightarrow> epoch_before dateParse p e \<and> sorted_wrt (epoch_before dateParse) (e # es)"
        using epoch_before_trans by (auto simp: sorted_wrt2)
      moreover have "epoch_before dateParse p e \<longleftrightarrow> le_index p < le_index e \<and> s < t" using s t by (simp add: epoch_before_def)
      ultimately show ?thesis using True t s Some "2.IH"(2) by (auto simp: epoch_ok_def)
    qed
  next
    case False
    then show ?thesis by (auto simp: epoch_ok_def split: option.splits)
  qed
qed

lemma monotone_iff:
  "assertMonotonicLedgerSequence dateParse s = Inr () \<longleftrightarrow> ls_logId s \<noteq> [] \<and> ls_epochs s \<noteq> [] \<and> ledger_ordered dateParse (ls_epochs s)"
  using check_epochs_iff [where previous = None and seen = "[]" and dateParse = dateParse and es = "ls_epochs s"] by (auto simp: assertMonotonicLedgerSequence_def ledger_ordered_def)

lemma find_epoch_Some: "findEpoch s i = Some e \<Longrightarrow> e \<in> set (ls_epochs s) \<and> le_epochId e = i"
  by (auto simp: findEpoch_def find_Some_iff)

lemma epochs_in_order:
  assumes "ledger_ordered dateParse es" and "a \<in> set es" and "b \<in> set es" and "le_index a < le_index b"
  shows "\<exists>xs ys zs. es = xs @ a # ys @ b # zs"
proof -
  obtain i j where i: "i < length es" "es ! i = a" and j: "j < length es" "es ! j = b" using assms(2,3) by (metis in_set_conv_nth)
  have sorted: "sorted_wrt (epoch_before dateParse) es" using assms(1) by (simp add: ledger_ordered_def)
  have "\<not> j < i" using sorted_wrt_nth_less [OF sorted, of j i] i j assms(4) by (auto simp: epoch_before_def)
  moreover have "i \<noteq> j" using i j assms(4) by auto
  ultimately have ij: "i < j" by simp
  have "es = take i es @ a # drop (Suc i) es" using i id_take_nth_drop by metis
  moreover have "drop (Suc i) es = take (j - Suc i) (drop (Suc i) es) @ b # drop (Suc (j - Suc i)) (drop (Suc i) es)"
    using ij j id_take_nth_drop [of "j - Suc i" "drop (Suc i) es"] by simp
  ultimately show ?thesis by metis
qed

lemma inclusion_check_total [simp]: "verifyMerkleInclusionProof sha p r \<noteq> Inl e"
  by (simp add: verifyMerkleInclusionProof_def)

lemma enforce_cases:
  assumes "assertMonotonicLedgerSequence dateParse (lr_sequence inp) = Inr ()" and "lr_keyId inp = ra_keyId (lr_revocation inp)"
    and "findEpoch (lr_sequence inp) (lr_inclusionEpochId inp) = Some a"
    and "verifyMerkleInclusionProof sha (lr_inclusionProof inp) (Some (le_merkleRoot a)) = Inr True"
    and "findEpoch (lr_sequence inp) (ra_revocationEpochId (lr_revocation inp)) = Some b"
  obtains cs where "enforceLedgerAnchoredRevocation sha dateParse inp = Inr
    \<lparr>rr_verdict = (le_index a < le_index b), rr_standing = (if le_index a < le_index b then Valid_pre_revocation else Rejected_post_revocation),
     rr_inclusionIndex = Some (le_index a), rr_revocationIndex = Some (le_index b),
     rr_backdatingSuspected = (case lr_receiptTimestamp inp of None \<Rightarrow> False | Some ts \<Rightarrow> backdated dateParse ts a b), rr_checks = cs,
     rr_detail = (if le_index a < le_index b then CommittedBefore else CommittedAtOrAfter)\<rparr>"
  using assms by (simp add: enforceLedgerAnchoredRevocation_def Let_def)

lemma verdict_True:
  assumes "enforceLedgerAnchoredRevocation sha dateParse inp = Inr res" and "rr_verdict res"
  obtains a b where "assertMonotonicLedgerSequence dateParse (lr_sequence inp) = Inr ()" "lr_keyId inp = ra_keyId (lr_revocation inp)"
    "findEpoch (lr_sequence inp) (lr_inclusionEpochId inp) = Some a"
    "verifyMerkleInclusionProof sha (lr_inclusionProof inp) (Some (le_merkleRoot a)) = Inr True"
    "findEpoch (lr_sequence inp) (ra_revocationEpochId (lr_revocation inp)) = Some b" "le_index a < le_index b"
  using assms by (auto simp: enforceLedgerAnchoredRevocation_def reject_def Let_def split: sum.splits if_splits option.splits bool.splits)

text \<open>
  Claim C24. What the enforcement decides: it always returns a result, and the verdict is positive exactly when the sequence is an
  ordered ledger, the anchor is for the signing key, both epochs are in the sequence, the proof verifies against the root of the
  inclusion epoch, and that epoch's index is smaller. The time stamp that the signer put on the receipt
  has no influence on verdict, standing, indices and detail.
\<close>

theorem revocation_verdict_iff:
  "\<exists>res. enforceLedgerAnchoredRevocation sha dateParse inp = Inr res
    \<and> (rr_verdict res \<longleftrightarrow>
         ls_logId (lr_sequence inp) \<noteq> [] \<and> ledger_ordered dateParse (ls_epochs (lr_sequence inp)) \<and> lr_keyId inp = ra_keyId (lr_revocation inp)
         \<and> (\<exists>a b. findEpoch (lr_sequence inp) (lr_inclusionEpochId inp) = Some a \<and> findEpoch (lr_sequence inp) (ra_revocationEpochId (lr_revocation inp)) = Some b
              \<and> verifyMerkleInclusionProof sha (lr_inclusionProof inp) (Some (le_merkleRoot a)) = Inr True \<and> le_index a < le_index b))
    \<and> (rr_standing res = Valid_pre_revocation \<longleftrightarrow> rr_verdict res)
    \<and> (\<exists>res'. enforceLedgerAnchoredRevocation sha dateParse (inp\<lparr>lr_receiptTimestamp := ts\<rparr>) = Inr res'
         \<and> rr_verdict res' = rr_verdict res \<and> rr_standing res' = rr_standing res \<and> rr_inclusionIndex res' = rr_inclusionIndex res
         \<and> rr_revocationIndex res' = rr_revocationIndex res \<and> rr_detail res' = rr_detail res)"
proof -
  have "enforceLedgerAnchoredRevocation sha dateParse i \<noteq> Inl e" for i e
    by (auto simp: enforceLedgerAnchoredRevocation_def Let_def split: sum.splits option.splits bool.splits)
  then have total: "\<exists>res. enforceLedgerAnchoredRevocation sha dateParse i = Inr res" for i by (metis sum.exhaust)
  then obtain res where res: "enforceLedgerAnchoredRevocation sha dateParse inp = Inr res" by blast
  obtain res' where res': "enforceLedgerAnchoredRevocation sha dateParse (inp\<lparr>lr_receiptTimestamp := ts\<rparr>) = Inr res'" using total by blast
  have "rr_standing res = Valid_pre_revocation \<longleftrightarrow> rr_verdict res"
    using res by (auto simp: enforceLedgerAnchoredRevocation_def reject_def Let_def split: sum.splits if_splits option.splits bool.splits)
  moreover have "rr_verdict res' = rr_verdict res \<and> rr_standing res' = rr_standing res \<and> rr_inclusionIndex res' = rr_inclusionIndex res
         \<and> rr_revocationIndex res' = rr_revocationIndex res \<and> rr_detail res' = rr_detail res"
    using res res' by (auto simp: enforceLedgerAnchoredRevocation_def reject_def Let_def split: sum.splits if_splits option.splits bool.splits)
  moreover have "rr_verdict res \<longleftrightarrow>
         ls_logId (lr_sequence inp) \<noteq> [] \<and> ledger_ordered dateParse (ls_epochs (lr_sequence inp)) \<and> lr_keyId inp = ra_keyId (lr_revocation inp)
         \<and> (\<exists>a b. findEpoch (lr_sequence inp) (lr_inclusionEpochId inp) = Some a \<and> findEpoch (lr_sequence inp) (ra_revocationEpochId (lr_revocation inp)) = Some b
              \<and> verifyMerkleInclusionProof sha (lr_inclusionProof inp) (Some (le_merkleRoot a)) = Inr True \<and> le_index a < le_index b)"
    (is "_ \<longleftrightarrow> ?spec")
  proof
    assume "rr_verdict res"
    with res show ?spec by (rule verdict_True) (auto simp: monotone_iff)
  next
    assume spec: ?spec
    then obtain a b where ab: "findEpoch (lr_sequence inp) (lr_inclusionEpochId inp) = Some a" "findEpoch (lr_sequence inp) (ra_revocationEpochId (lr_revocation inp)) = Some b"
      "verifyMerkleInclusionProof sha (lr_inclusionProof inp) (Some (le_merkleRoot a)) = Inr True" "le_index a < le_index b" by blast
    have "ls_epochs (lr_sequence inp) \<noteq> []" using ab(1) by (auto simp: findEpoch_def)
    then have "assertMonotonicLedgerSequence dateParse (lr_sequence inp) = Inr ()" using spec by (simp add: monotone_iff)
    then show "rr_verdict res" by (rule enforce_cases [OF _ _ ab(1,3,2)]) (use spec ab(4) res in auto)
  qed
  ultimately show ?thesis using res res' by blast
qed

text \<open>
  Claim C15. A positive verdict about a real ledger is right. If the root of every epoch of the sequence is the Merkle root of that epoch's
  chain heads, then the receipt's leaf was a current head in an epoch that stands before the revocation epoch in the sequence
  and was sealed before it.
\<close>

theorem accepted_receipt_precedes_revocation:
  assumes "enforceLedgerAnchoredRevocation sha dateParse inp = Inr res" and "rr_verdict res" and "hex_digests sha"
    and "\<And>e. e \<in> set (ls_epochs (lr_sequence inp)) \<Longrightarrow> merkleRootForLeaves lc sha (heads_of (le_epochId e)) = Inr (le_merkleRoot e)"
    and "collision_free sha (checkpoint_texts sha (normalizeChainHeadLeaves lc (heads_of (lr_inclusionEpochId inp))) (lr_inclusionProof inp))"
  shows "\<exists>before a between b after. ls_epochs (lr_sequence inp) = before @ a # between @ b # after
    \<and> le_epochId a = lr_inclusionEpochId inp \<and> le_epochId b = ra_revocationEpochId (lr_revocation inp) \<and> epoch_before dateParse a b
    \<and> last_heads (heads_of (le_epochId a)) (lf_tenantId (mp_leaf (lr_inclusionProof inp))) = Some (mp_leaf (lr_inclusionProof inp))"
proof (rule verdict_True [OF assms(1,2)])
  fix a b
  assume "assertMonotonicLedgerSequence dateParse (lr_sequence inp) = Inr ()"
    and a: "findEpoch (lr_sequence inp) (lr_inclusionEpochId inp) = Some a"
    and v: "verifyMerkleInclusionProof sha (lr_inclusionProof inp) (Some (le_merkleRoot a)) = Inr True"
    and b: "findEpoch (lr_sequence inp) (ra_revocationEpochId (lr_revocation inp)) = Some b" and less: "le_index a < le_index b"
  then have ordered: "ledger_ordered dateParse (ls_epochs (lr_sequence inp))" by (simp add: monotone_iff)
  note a' = find_epoch_Some [OF a] and b' = find_epoch_Some [OF b]
  obtain xs ys zs where es: "ls_epochs (lr_sequence inp) = xs @ a # ys @ b # zs" using epochs_in_order [OF ordered _ _ less] a' b' by blast
  then have "epoch_before dateParse a b" using ordered by (auto simp: ledger_ordered_def sorted_wrt_append)
  moreover have "mp_leaf (lr_inclusionProof inp) \<in> set (normalizeChainHeadLeaves lc (heads_of (lr_inclusionEpochId inp)))"
    using assms(4) [of a] a' by (intro accepted_leaf [OF assms(3) _ v assms(5)]) simp
  ultimately show ?thesis using es a' b'
    by (intro exI [of _ xs] exI [of _ a] exI [of _ ys] exI [of _ b] exI [of _ zs]) (simp add: set_normalize)
qed


subsection \<open>Sequences that a caller makes up\<close>

text \<open>
  The order is only as good as the sequence. For any leaf, any key and any two dates in order there is a
  sequence and a proof, made up by the caller from the leaf alone, for which the enforcement answers that
  the leaf was committed before the revocation. This is the attack the module's header warns of.
\<close>

theorem made_up_sequence_is_accepted:
  assumes "hex_digests sha" and "dateParse early = Some s" and "dateParse late = Some t" and "s < t"
  shows "\<exists>inp res. lr_keyId inp = keyId \<and> mp_leaf (lr_inclusionProof inp) = leaf \<and> enforceLedgerAnchoredRevocation sha dateParse inp = Inr res
    \<and> rr_standing res = Valid_pre_revocation"
proof -
  let ?root = "leaf_digest sha leaf"
  let ?epochs = "[\<lparr>le_epochId = js ''a'', le_index = 0, le_createdAt = early, le_merkleRoot = ?root\<rparr>,
    \<lparr>le_epochId = js ''b'', le_index = 1, le_createdAt = late, le_merkleRoot = ?root\<rparr>]"
  let ?inp = "\<lparr>lr_keyId = keyId, lr_receiptTimestamp = None, lr_inclusionEpochId = js ''a'',
    lr_inclusionProof = \<lparr>mp_leaf = leaf, mp_leafHash = ?root, mp_proof = [], mp_root = ?root\<rparr>,
    lr_sequence = \<lparr>ls_logId = js ''log'', ls_epochs = ?epochs\<rparr>,
    lr_revocation = \<lparr>ra_keyId = keyId, ra_revocationEpochId = js ''b'', ra_reason = None\<rparr>\<rparr>"
  have "sha256_shape ?root" using assms(1) by (simp add: leaf_digest_def hex_digests_def)
  then have ordered: "assertMonotonicLedgerSequence dateParse (lr_sequence ?inp) = Inr ()"
    using assms(2-4) by (simp add: monotone_iff ledger_ordered_def epoch_ok_def epoch_before_def is_safe_integer_def max_safe_integer_def)
  have "\<exists>res. enforceLedgerAnchoredRevocation sha dateParse ?inp = Inr res \<and> rr_standing res = Valid_pre_revocation"
    by (rule enforce_cases [OF ordered, of "?epochs ! 0" sha "?epochs ! 1"])
      (simp_all add: findEpoch_def verifyMerkleInclusionProof_def or_default_def)
  then show ?thesis by (intro exI [of _ ?inp]) auto
qed

theorem made_up_sequence_is_accepted_witness:
  "\<exists>inp res. lr_keyId inp = js ''revoked-key'' \<and> mp_leaf (lr_inclusionProof inp) = leaf_a
    \<and> enforceLedgerAnchoredRevocation sample_digest (\<lambda>d. Some (int (length d))) inp = Inr res \<and> rr_standing res = Valid_pre_revocation"
  by (rule made_up_sequence_is_accepted [OF hex_digests_sample, of _ "js ''x''" 1 "js ''yy''" 2]) simp_all

subsection \<open>A sample ledger\<close>

definition sample_sequence :: LedgerSequence where
  "sample_sequence = \<lparr>ls_logId = js ''log'', ls_epochs =
     [\<lparr>le_epochId = js ''a'', le_index = 0, le_createdAt = js ''x'', le_merkleRoot = mp_root proof_a\<rparr>,
      \<lparr>le_epochId = js ''b'', le_index = 4, le_createdAt = js ''yy'', le_merkleRoot = mp_root proof_a\<rparr>]\<rparr>"

definition sample_revocation :: LedgerAnchoredRevocationInput where
  "sample_revocation = \<lparr>lr_keyId = js ''k'', lr_receiptTimestamp = Some (js ''x''), lr_inclusionEpochId = js ''a'', lr_inclusionProof = proof_a,
     lr_sequence = sample_sequence, lr_revocation = \<lparr>ra_keyId = js ''k'', ra_revocationEpochId = js ''b'', ra_reason = None\<rparr>\<rparr>"

theorem accepted_receipt_precedes_revocation_witness:
  "last_heads [leaf_b, leaf_a] (lf_tenantId (mp_leaf (lr_inclusionProof sample_revocation))) = Some (mp_leaf (lr_inclusionProof sample_revocation))"
proof -
  let ?parse = "\<lambda>d :: jstr. Some (int (length d))"
  have "sha256_shape (mp_root proof_a)" using hex_digests_tree by (simp add: proof_a_def merkleParentHash_def hex_digests_def)
  then have ordered: "assertMonotonicLedgerSequence ?parse (lr_sequence sample_revocation) = Inr ()"
    by (simp add: sample_revocation_def sample_sequence_def monotone_iff ledger_ordered_def epoch_ok_def epoch_before_def is_safe_integer_def max_safe_integer_def)
  have "\<exists>res. enforceLedgerAnchoredRevocation tree_digest ?parse sample_revocation = Inr res \<and> rr_verdict res"
    by (rule enforce_cases [OF ordered, of "ls_epochs sample_sequence ! 0" tree_digest "ls_epochs sample_sequence ! 1"])
      (simp_all add: sample_revocation_def sample_sequence_def findEpoch_def verifyMerkleInclusionProof_def or_default_def proof_a_def)
  then obtain res where res: "enforceLedgerAnchoredRevocation tree_digest ?parse sample_revocation = Inr res" "rr_verdict res" by blast
  have inp: "lr_sequence sample_revocation = sample_sequence" "lr_inclusionProof sample_revocation = proof_a"
    by (simp_all add: sample_revocation_def)
  have root: "merkleRootForLeaves utf16LexicographicCompare tree_digest [leaf_b, leaf_a] = Inr (mp_root proof_a)"
    by (simp add: root_eq normalize_ab climb.simps proof_a_def)
  have free: "collision_free tree_digest (checkpoint_texts tree_digest [leaf_a, leaf_b] proof_a)" by (rule proof_a_collision_free)
  have epochs: "merkleRootForLeaves utf16LexicographicCompare tree_digest [leaf_b, leaf_a] = Inr (le_merkleRoot e)"
    if "e \<in> set (ls_epochs (lr_sequence sample_revocation))" for e
    using that root by (auto simp: inp sample_sequence_def)
  show ?thesis
    using accepted_receipt_precedes_revocation [OF res hex_digests_tree epochs] free unfolding inp normalize_ab by blast
qed

end
