(* ===== verification/Witness_Checkpoint.thy ===== *)
theory Witness_Checkpoint
  imports Merkle_Log Strict_Admission
begin

text \<open>
  Witness-signed checkpoints of the Merkle log, \<open>packages/research-frontier/src/witnessCheckpoint.ts\<close>: the signed
  payload, the witness key manifest and its epochs, the signature check under a manifest, and the
  consistency proof between two checkpoints.

  The ECDSA signer and verifier of Node's \<open>crypto\<close>, \<open>Date.parse\<close>, \<open>JSON.parse\<close> and SHA-256 are fields of the
  environment. The verifier returns \<open>None\<close> where it raises (a key that does not parse), \<open>Date.parse\<close>
  returns \<open>None\<close> for \<open>NaN\<close>. Tree sizes are integers, which the code checks to be safe where it does.
\<close>

subsection \<open>Data\<close>

record WitnessSignature =
  ws_witness_id :: jstr
  ws_signature_algorithm :: jstr
  ws_signature :: jstr

record UnsignedWitnessCheckpoint =
  wc_schema_version :: jstr
  wc_log_id :: jstr
  wc_tree_size :: int
  wc_root_hash :: jstr
  wc_integrated_time :: jstr

record WitnessCheckpoint = UnsignedWitnessCheckpoint +
  wc_witness_signatures :: "WitnessSignature list"

record DevWitnessKeyPair =
  dw_witnessId :: jstr
  dw_publicKeyPem :: jstr
  dw_privateKeyPem :: jstr

record WitnessKeyManifestEntry =
  we_witness_id :: jstr
  we_signature_algorithm :: jstr
  we_public_key_pem :: jstr
  we_valid_from :: jstr
  we_valid_until :: "jstr option"
  we_status :: jstr
  we_revoked_at :: "jstr option"
  we_reason :: "jstr option"

record WitnessKeyManifest =
  wm_schema_version :: jstr
  wm_generated_at :: jstr
  wm_witnesses :: "WitnessKeyManifestEntry list"

datatype witness_error =
    ManifestSchemaUnsupported | GeneratedAtNotDate | NoWitnesses | DuplicateWitness jstr | WitnessIdMissing nat
  | AlgorithmUnsupported jstr | PublicKeyMissing jstr | StatusUnsupported jstr | ValidFromNotDate jstr
  | ValidUntilNotLater jstr | RevokedBeforeValidFrom jstr
  | SignerRaised | VerifierRaised | MerkleRaised merkle_error
  | LogIdsDiffer | TreeSizesNotSafe | PreviousExceedsNew | PayloadCountMismatch | PreviousRootNotPrefix | NewRootMismatch
  | RecordSchemaUnsupported | RecordTypeUnsupported | RecordKeyIdEmpty

datatype witness_detail =
    WitnessManifestInvalid witness_error | NoWitnessEntry jstr | WitnessAlgorithmMismatch jstr jstr | IntegratedTimeNotParseable jstr
  | BeforeWitnessValidFrom jstr jstr | NotBeforeWitnessValidUntil jstr "jstr option" | WitnessRevokedWithoutTime jstr
  | AtOrAfterWitnessRevocation jstr "jstr option" | WitnessRevokedLater jstr | WitnessCurrent jstr jstr

record WitnessKeyManifestCheck =
  wk_name :: jstr
  wk_passed :: bool
  wk_detail :: witness_detail

record WitnessCheckpointConsistencyProof = MerkleConsistencyProof +
  cc_schema_version :: jstr
  cc_log_id :: jstr
  cc_old_root_hash :: jstr
  cc_new_root_hash :: jstr

record witness_env =
  v_hash :: "jstr \<Rightarrow> jstr"
  v_sign :: "jstr \<Rightarrow> jstr \<Rightarrow> jstr option"
  v_verify :: "jstr \<Rightarrow> jstr \<Rightarrow> jstr \<Rightarrow> bool option"
  v_dateParse :: "jstr \<Rightarrow> int option"
  v_jsonParse :: "jstr \<Rightarrow> jsval option"

definition witnessCheckpointSchemaVersion :: jstr where
  "witnessCheckpointSchemaVersion = js ''ghostark.research.witness_checkpoint.v1''"

definition consistencyProofSchemaVersion :: jstr where
  "consistencyProofSchemaVersion = js ''ghostark.research.witness_checkpoint_consistency_proof.v1''"

definition ecdsa :: jstr where
  "ecdsa = js ''ecdsa-p256-sha256''"

subsection \<open>The signed payload\<close>

text \<open>The number of an integer.\<close>

definition num_of_int :: "int \<Rightarrow> jnum" where
  "num_of_int n =
     (if 0 \<le> n then num_of_nat (nat n)
      else (case num_of_nat (nat (- n)) of Finite _ ds e \<Rightarrow> Finite True ds e | x \<Rightarrow> x))"

definition checkpoint_object :: "'a UnsignedWitnessCheckpoint_scheme \<Rightarrow> jsval" where
  "checkpoint_object c = JObj
     [(js ''integrated_time'', JStr (wc_integrated_time c)),
      (js ''log_id'', JStr (wc_log_id c)),
      (js ''root_hash'', JStr (wc_root_hash c)),
      (js ''schema_version'', JStr (wc_schema_version c)),
      (js ''tree_size'', JNum (num_of_int (wc_tree_size c)))]"

definition canonicalCheckpointPayload :: "'a UnsignedWitnessCheckpoint_scheme \<Rightarrow> jstr" where
  "canonicalCheckpointPayload c = print_val (checkpoint_object c)"

definition signCheckpointPayload :: "witness_env \<Rightarrow> jstr \<Rightarrow> jstr \<Rightarrow> witness_error + jstr" where
  "signCheckpointPayload env payload privateKeyPem =
     (case v_sign env payload privateKeyPem of None \<Rightarrow> Inl SignerRaised | Some s \<Rightarrow> Inr s)"

definition verifyCheckpointSignature :: "witness_env \<Rightarrow> jstr \<Rightarrow> jstr \<Rightarrow> jstr \<Rightarrow> witness_error + bool" where
  "verifyCheckpointSignature env payload sg publicKeyPem =
     (case v_verify env payload sg publicKeyPem of None \<Rightarrow> Inl VerifierRaised | Some b \<Rightarrow> Inr b)"

subsection \<open>The witness key manifest\<close>

text \<open>An optional text that is present and not empty, as a JavaScript condition takes it.\<close>

definition truthy :: "jstr option \<Rightarrow> jstr option" where
  "truthy d = (case d of Some (c # s) \<Rightarrow> Some (c # s) | _ \<Rightarrow> None)"

text \<open>A comparison with \<open>undefined\<close>, \<open>NaN\<close> or the missing bound is false: all three are \<open>None\<close>.\<close>

definition parsed_date :: "witness_env \<Rightarrow> jstr option \<Rightarrow> int option" where
  "parsed_date env d = (case truthy d of None \<Rightarrow> None | Some s \<Rightarrow> v_dateParse env s)"

definition holds_at :: "(int \<Rightarrow> bool) \<Rightarrow> int option \<Rightarrow> bool" where
  "holds_at P t = (case t of None \<Rightarrow> False | Some x \<Rightarrow> P x)"

definition witness_identity :: "WitnessKeyManifestEntry \<Rightarrow> jstr" where
  "witness_identity e = we_witness_id e @ js '':'' @ we_signature_algorithm e"

fun check_witnesses :: "witness_env \<Rightarrow> jstr list \<Rightarrow> nat \<Rightarrow> WitnessKeyManifestEntry list \<Rightarrow> witness_error + unit" where
  "check_witnesses env seen i [] = Inr ()"
| "check_witnesses env seen i (e # es) =
     (let identity = witness_identity e in
      if identity \<in> set seen then Inl (DuplicateWitness identity)
      else if we_witness_id e = [] then Inl (WitnessIdMissing i)
      else if we_signature_algorithm e \<noteq> ecdsa then Inl (AlgorithmUnsupported (we_signature_algorithm e))
      else if we_public_key_pem e = [] then Inl (PublicKeyMissing identity)
      else if we_status e \<notin> {js ''ACTIVE'', js ''DEPRECATED'', js ''REVOKED''} then Inl (StatusUnsupported identity)
      else
        (case v_dateParse env (we_valid_from e) of
           None \<Rightarrow> Inl (ValidFromNotDate identity)
         | Some validFrom \<Rightarrow>
             if holds_at (\<lambda>u. u \<le> validFrom) (parsed_date env (we_valid_until e)) then Inl (ValidUntilNotLater identity)
             else if holds_at (\<lambda>r. r < validFrom) (parsed_date env (we_revoked_at e)) then Inl (RevokedBeforeValidFrom identity)
             else check_witnesses env (identity # seen) (i + 1) es))"

definition validateWitnessKeyManifestSemantics :: "witness_env \<Rightarrow> WitnessKeyManifest \<Rightarrow> witness_error + unit" where
  "validateWitnessKeyManifestSemantics env m =
     (if wm_schema_version m \<noteq> js ''ghostark.research.witness_key_manifest.v1'' then Inl ManifestSchemaUnsupported
      else if v_dateParse env (wm_generated_at m) = None then Inl GeneratedAtNotDate
      else if wm_witnesses m = [] then Inl NoWitnesses
      else check_witnesses env [] 0 (wm_witnesses m))"

definition findWitnessKeyManifestEntry :: "WitnessKeyManifest \<Rightarrow> jstr \<Rightarrow> jstr \<Rightarrow> WitnessKeyManifestEntry option" where
  "findWitnessKeyManifestEntry m witnessId algorithm =
     (case List.find (\<lambda>e. we_witness_id e = witnessId \<and> we_signature_algorithm e = algorithm) (wm_witnesses m) of
        Some e \<Rightarrow> Some e
      | None \<Rightarrow> List.find (\<lambda>e. we_witness_id e = witnessId) (wm_witnesses m))"

definition manifest_check :: "bool \<Rightarrow> witness_detail \<Rightarrow> WitnessKeyManifestCheck" where
  "manifest_check passed detail = \<lparr>wk_name = js ''witness_key_manifest'', wk_passed = passed, wk_detail = detail\<rparr>"

definition verifyWitnessKeyManifestEpoch ::
  "witness_env \<Rightarrow> WitnessKeyManifest \<Rightarrow> jstr \<Rightarrow> jstr \<Rightarrow> jstr \<Rightarrow> WitnessKeyManifestCheck" where
  "verifyWitnessKeyManifestEpoch env m witnessId algorithm integratedTime =
     (case validateWitnessKeyManifestSemantics env m of
        Inl err \<Rightarrow> manifest_check False (WitnessManifestInvalid err)
      | Inr _ \<Rightarrow>
          (case findWitnessKeyManifestEntry m witnessId algorithm of
             None \<Rightarrow> manifest_check False (NoWitnessEntry witnessId)
           | Some e \<Rightarrow>
               if we_signature_algorithm e \<noteq> algorithm then manifest_check False (WitnessAlgorithmMismatch (we_signature_algorithm e) algorithm)
               else
                 (case v_dateParse env integratedTime of
                    None \<Rightarrow> manifest_check False (IntegratedTimeNotParseable integratedTime)
                  | Some observed \<Rightarrow>
                      if holds_at (\<lambda>f. observed < f) (v_dateParse env (we_valid_from e)) then
                        manifest_check False (BeforeWitnessValidFrom integratedTime (we_valid_from e))
                      else if holds_at (\<lambda>u. u \<le> observed) (parsed_date env (we_valid_until e)) then
                        manifest_check False (NotBeforeWitnessValidUntil integratedTime (we_valid_until e))
                      else if we_status e = js ''REVOKED'' \<and> truthy (we_revoked_at e) = None then
                        manifest_check False (WitnessRevokedWithoutTime (we_witness_id e))
                      else if holds_at (\<lambda>r. r \<le> observed) (parsed_date env (we_revoked_at e)) then
                        manifest_check False (AtOrAfterWitnessRevocation integratedTime (we_revoked_at e))
                      else manifest_check True
                        (if we_status e = js ''REVOKED'' then WitnessRevokedLater (we_witness_id e)
                         else WitnessCurrent (we_witness_id e) (we_status e)))))"

text \<open>One signature under the manifest: the epoch, the entry, the verifier. The three callers share it.\<close>

definition signature_verifies ::
  "witness_env \<Rightarrow> WitnessKeyManifest \<Rightarrow> 'a UnsignedWitnessCheckpoint_scheme \<Rightarrow> jstr \<Rightarrow> WitnessSignature \<Rightarrow> witness_error + bool" where
  "signature_verifies env m c witnessId s =
     (if \<not> wk_passed (verifyWitnessKeyManifestEpoch env m witnessId (ws_signature_algorithm s) (wc_integrated_time c)) then Inr False
      else
        (case findWitnessKeyManifestEntry m witnessId (ws_signature_algorithm s) of
           None \<Rightarrow> Inr False
         | Some e \<Rightarrow> verifyCheckpointSignature env (canonicalCheckpointPayload c) (ws_signature s) (we_public_key_pem e)))"

text \<open>\<open>every\<close> stops at the first signature that fails or raises; the caller catches what is raised.\<close>

fun every_signature :: "(WitnessSignature \<Rightarrow> witness_error + bool) \<Rightarrow> WitnessSignature list \<Rightarrow> witness_error + bool" where
  "every_signature f [] = Inr True"
| "every_signature f (s # ss) =
     (case f s of Inl err \<Rightarrow> Inl err | Inr b \<Rightarrow> if b then every_signature f ss else Inr False)"

definition verifyWitnessCheckpointSignaturesWithManifest :: "witness_env \<Rightarrow> WitnessCheckpoint \<Rightarrow> WitnessKeyManifest \<Rightarrow> bool" where
  "verifyWitnessCheckpointSignaturesWithManifest env c m =
     (case validateWitnessKeyManifestSemantics env m of
        Inl _ \<Rightarrow> False
      | Inr _ \<Rightarrow>
          (case every_signature (\<lambda>s. signature_verifies env m c (ws_witness_id s) s) (wc_witness_signatures c) of
             Inl _ \<Rightarrow> False
           | Inr b \<Rightarrow> b))"

subsection \<open>Checkpoints and their consistency\<close>

definition createWitnessCheckpoint ::
  "witness_env \<Rightarrow> jstr \<Rightarrow> jstr list \<Rightarrow> jstr \<Rightarrow> DevWitnessKeyPair \<Rightarrow> witness_error + WitnessCheckpoint" where
  "createWitnessCheckpoint env logId receiptPayloads integratedTime witness =
     (case computeMerkleRoot (v_hash env) receiptPayloads of
        Inl err \<Rightarrow> Inl (MerkleRaised err)
      | Inr root \<Rightarrow>
          let u = \<lparr>wc_schema_version = witnessCheckpointSchemaVersion, wc_log_id = logId,
                   wc_tree_size = int (length receiptPayloads), wc_root_hash = root, wc_integrated_time = integratedTime\<rparr>
          in
          (case signCheckpointPayload env (canonicalCheckpointPayload u) (dw_privateKeyPem witness) of
             Inl err \<Rightarrow> Inl err
           | Inr s \<Rightarrow>
               Inr (UnsignedWitnessCheckpoint.extend u
                 \<lparr>wc_witness_signatures =
                    [\<lparr>ws_witness_id = dw_witnessId witness, ws_signature_algorithm = ecdsa, ws_signature = s\<rparr>]\<rparr>)))"

definition assertConsistentCheckpointPair ::
  "'a UnsignedWitnessCheckpoint_scheme \<Rightarrow> 'b UnsignedWitnessCheckpoint_scheme \<Rightarrow> witness_error + unit" where
  "assertConsistentCheckpointPair previous new =
     (if wc_log_id previous \<noteq> wc_log_id new then Inl LogIdsDiffer
      else if \<not> is_safe_integer (wc_tree_size previous) \<or> wc_tree_size previous < 0
              \<or> \<not> is_safe_integer (wc_tree_size new) \<or> wc_tree_size new < 0 then Inl TreeSizesNotSafe
      else if wc_tree_size previous > wc_tree_size new then Inl PreviousExceedsNew
      else
        (case assertSha256Hex (wc_root_hash previous) of
           Inl err \<Rightarrow> Inl (MerkleRaised err)
         | Inr _ \<Rightarrow>
             (case assertSha256Hex (wc_root_hash new) of
                Inl err \<Rightarrow> Inl (MerkleRaised err)
              | Inr _ \<Rightarrow> Inr ())))"

definition createWitnessCheckpointConsistencyProof ::
  "witness_env \<Rightarrow> 'a UnsignedWitnessCheckpoint_scheme \<Rightarrow> 'b UnsignedWitnessCheckpoint_scheme \<Rightarrow> jstr list \<Rightarrow>
     witness_error + WitnessCheckpointConsistencyProof" where
  "createWitnessCheckpointConsistencyProof env previous new receiptPayloads =
     (case assertConsistentCheckpointPair previous new of
        Inl err \<Rightarrow> Inl err
      | Inr _ \<Rightarrow>
          if int (length receiptPayloads) \<noteq> wc_tree_size new then Inl PayloadCountMismatch
          else
            (case computeMerkleRoot (v_hash env) (take (nat (wc_tree_size previous)) receiptPayloads) of
               Inl err \<Rightarrow> Inl (MerkleRaised err)
             | Inr expectedOldRoot \<Rightarrow>
                 if expectedOldRoot \<noteq> wc_root_hash previous then Inl PreviousRootNotPrefix
                 else
                   (case computeMerkleRoot (v_hash env) receiptPayloads of
                      Inl err \<Rightarrow> Inl (MerkleRaised err)
                    | Inr expectedNewRoot \<Rightarrow>
                        if expectedNewRoot \<noteq> wc_root_hash new then Inl NewRootMismatch
                        else
                          (case getConsistencyProof (v_hash env) (wc_tree_size previous) receiptPayloads of
                             Inl err \<Rightarrow> Inl (MerkleRaised err)
                           | Inr p \<Rightarrow>
                               Inr (MerkleConsistencyProof.extend p
                                 \<lparr>cc_schema_version = consistencyProofSchemaVersion, cc_log_id = wc_log_id new,
                                  cc_old_root_hash = wc_root_hash previous, cc_new_root_hash = wc_root_hash new\<rparr>)))))"

definition verifyWitnessCheckpointConsistencyProof ::
  "witness_env \<Rightarrow> 'a UnsignedWitnessCheckpoint_scheme \<Rightarrow> 'b UnsignedWitnessCheckpoint_scheme \<Rightarrow> WitnessCheckpointConsistencyProof \<Rightarrow> bool" where
  "verifyWitnessCheckpointConsistencyProof env previous new p =
     (case assertConsistentCheckpointPair previous new of
        Inl _ \<Rightarrow> False
      | Inr _ \<Rightarrow>
          if cc_schema_version p \<noteq> consistencyProofSchemaVersion then False
          else if cc_log_id p \<noteq> wc_log_id previous \<or> cc_log_id p \<noteq> wc_log_id new
              \<or> old_tree_size p \<noteq> wc_tree_size previous \<or> new_tree_size p \<noteq> wc_tree_size new
              \<or> cc_old_root_hash p \<noteq> wc_root_hash previous \<or> cc_new_root_hash p \<noteq> wc_root_hash new then False
          else verifyConsistencyProof (v_hash env) (wc_root_hash previous) (wc_root_hash new)
                 (MerkleConsistencyProof.truncate p))"

subsection \<open>The payload determines the checkpoint\<close>

lemma stripped_digits:
  "xs = rev (dropWhile (\<lambda>d. d = 0) (rev xs)) @ replicate (length xs - length (dropWhile (\<lambda>d. d = 0) (rev xs))) (0 :: nat)"
proof -
  let ?t = "takeWhile (\<lambda>d. d = 0) (rev xs)" and ?d = "dropWhile (\<lambda>d. d = 0) (rev xs)"
  have split: "rev xs = ?t @ ?d" by simp
  then have "length xs = length ?t + length ?d" by (metis length_append length_rev)
  moreover have "?t = replicate (length ?t) 0"
    by (intro replicate_eqI) (auto dest: set_takeWhileD)
  ultimately have "rev ?t = replicate (length xs - length ?d) 0" by (metis diff_add_inverse2 rev_replicate)
  moreover have "xs = rev ?d @ rev ?t" by (metis rev_append rev_rev_ident split)
  ultimately show ?thesis by simp
qed

lemma num_of_nat_inject: "num_of_nat a = num_of_nat b \<longleftrightarrow> a = b"
proof
  assume eq: "num_of_nat a = num_of_nat b"
  show "a = b"
  proof (cases "a = 0 \<or> b = 0")
    case True
    then show ?thesis using eq by (auto simp: num_of_nat_def split: if_splits)
  next
    case False
    let ?s = "\<lambda>k. dropWhile (\<lambda>d. d = 0) (rev (nat_digits k))"
    have "?s a = ?s b" "length (nat_digits a) = length (nat_digits b)"
      using eq False by (auto simp: num_of_nat_def)
    then have "nat_digits a = nat_digits b"
      using stripped_digits [of "nat_digits a"] stripped_digits [of "nat_digits b"] by simp
    then show ?thesis by simp
  qed
qed simp

lemma num_of_nat_cases:
  obtains "k = 0" "num_of_nat k = Zero False"
  | ds e where "0 < k" "num_of_nat k = Finite False ds e"
  by (cases "k = 0") (auto simp: num_of_nat_def)

lemma num_of_int_inject: "num_of_int a = num_of_int b \<longleftrightarrow> a = b"
proof
  assume eq: "num_of_int a = num_of_int b"
  have val: "num_of_nat (nat \<bar>c\<bar>) = (case num_of_int c of Finite _ ds e \<Rightarrow> Finite False ds e | x \<Rightarrow> x)" for c
    by (rule num_of_nat_cases [of "nat \<bar>c\<bar>"]) (auto simp: num_of_int_def abs_if split: if_splits)
  have neg: "c < 0 \<longleftrightarrow> negative (num_of_int c)" for c
    by (rule num_of_nat_cases [of "nat \<bar>c\<bar>"]) (auto simp: num_of_int_def abs_if split: if_splits)
  have "nat \<bar>a\<bar> = nat \<bar>b\<bar>" using val [of a] val [of b] eq num_of_nat_inject by metis
  moreover have "a < 0 \<longleftrightarrow> b < 0" using neg [of a] neg [of b] eq by simp
  ultimately show "a = b" by (auto simp: abs_if split: if_splits)
qed simp

lemma wf_num_of_int [simp]: "wf_num (num_of_int n)"
  using wf_num_of_nat [of "nat n"] wf_num_of_nat [of "nat (- n)"]
  by (auto simp: num_of_int_def split: jnum.splits)

lemma norm_num_of_int [simp]: "norm_num (num_of_int n) = num_of_int n"
  by (rule num_of_nat_cases [of "nat \<bar>n\<bar>"]) (auto simp: num_of_int_def abs_if split: if_splits)

lemma print_val_inject:
  assumes "json_shaped v" and "json_shaped w" and "print_val v = print_val w"
  shows "norm_val v = norm_val w"
  using separatesD [OF separates_tree [OF json_shaped_tree [OF assms(1)]] json_shaped_tree [OF assms(2)], of "[]" "[]"]
    assms(3) by simp

lemma checkpoint_keys:
  "distinct [js ''integrated_time'', js ''log_id'', js ''root_hash'', js ''schema_version'', js ''tree_size'']"
  "sorted_wrt (\<le>) [js ''integrated_time'', js ''log_id'', js ''root_hash'', js ''schema_version'', js ''tree_size'']"
  by code_simp+

lemma norm_checkpoint: "norm_val (checkpoint_object c) = checkpoint_object c"
proof -
  have "sort_by key_le
      [(js ''integrated_time'', a :: jsval), (js ''log_id'', b), (js ''root_hash'', d), (js ''schema_version'', e), (js ''tree_size'', f)] =
      [(js ''integrated_time'', a), (js ''log_id'', b), (js ''root_hash'', d), (js ''schema_version'', e), (js ''tree_size'', f)]"
    for a b d e f
    by (rule sort_by_sorted) (use checkpoint_keys(2) in \<open>simp add: key_le_iff\<close>)
  then show ?thesis by (simp add: checkpoint_object_def)
qed

lemma checkpoint_shaped: "json_shaped (checkpoint_object c)"
  using checkpoint_keys(1) by (simp add: checkpoint_object_def)

lemma payload_inject:
  assumes "canonicalCheckpointPayload c = canonicalCheckpointPayload d"
  shows "wc_log_id c = wc_log_id d" "wc_tree_size c = wc_tree_size d" "wc_root_hash c = wc_root_hash d"
    "wc_integrated_time c = wc_integrated_time d" "wc_schema_version c = wc_schema_version d"
proof -
  have "checkpoint_object c = checkpoint_object d"
    using print_val_inject [OF checkpoint_shaped checkpoint_shaped] assms norm_checkpoint
    by (metis canonicalCheckpointPayload_def)
  then show "wc_log_id c = wc_log_id d" "wc_tree_size c = wc_tree_size d" "wc_root_hash c = wc_root_hash d"
    "wc_integrated_time c = wc_integrated_time d" "wc_schema_version c = wc_schema_version d"
    by (simp_all add: checkpoint_object_def num_of_int_inject)
qed

subsection \<open>What a verified signature shows\<close>

lemma find_witness_entry:
  assumes "findWitnessKeyManifestEntry m w alg = Some e"
  shows "e \<in> set (wm_witnesses m)" "we_witness_id e = w"
  using assms by (auto simp: findWitnessKeyManifestEntry_def find_Some_iff split: option.splits)

lemma passed_epoch:
  assumes "wk_passed (verifyWitnessKeyManifestEpoch env m w alg t)"
  obtains e where "findWitnessKeyManifestEntry m w alg = Some e" "we_signature_algorithm e = alg"
    "validateWitnessKeyManifestSemantics env m = Inr ()"
  using assms by (auto simp: verifyWitnessKeyManifestEpoch_def manifest_check_def split: sum.splits option.splits if_splits)

text \<open>The times at which a witness key counts.\<close>

definition in_witness_epoch :: "witness_env \<Rightarrow> WitnessKeyManifestEntry \<Rightarrow> int \<Rightarrow> bool" where
  "in_witness_epoch env e t \<longleftrightarrow>
     \<not> holds_at (\<lambda>f. t < f) (v_dateParse env (we_valid_from e))
     \<and> \<not> holds_at (\<lambda>u. u \<le> t) (parsed_date env (we_valid_until e))
     \<and> \<not> holds_at (\<lambda>r. r \<le> t) (parsed_date env (we_revoked_at e))
     \<and> (we_status e = js ''REVOKED'' \<longrightarrow> truthy (we_revoked_at e) \<noteq> None)"

lemma checked_algorithms:
  "check_witnesses env seen i es = Inr () \<Longrightarrow> e \<in> set es \<Longrightarrow> we_signature_algorithm e = ecdsa"
  by (induction env seen i es rule: check_witnesses.induct) (auto simp: Let_def split: if_splits option.splits)

lemma checked_identities:
  "check_witnesses env seen i es = Inr () \<Longrightarrow> distinct (map witness_identity es) \<and> set (map witness_identity es) \<inter> set seen = {}"
  by (induction env seen i es rule: check_witnesses.induct) (auto simp: Let_def split: if_splits option.splits)

lemma valid_manifest:
  assumes "validateWitnessKeyManifestSemantics env m = Inr ()"
  shows "e \<in> set (wm_witnesses m) \<Longrightarrow> we_signature_algorithm e = ecdsa" "distinct (map we_witness_id (wm_witnesses m))"
proof -
  have chk: "check_witnesses env [] 0 (wm_witnesses m) = Inr ()"
    using assms by (auto simp: validateWitnessKeyManifestSemantics_def split: if_splits)
  show alg: "we_signature_algorithm e = ecdsa" if "e \<in> set (wm_witnesses m)" for e
    using checked_algorithms [OF chk that] .
  have "map witness_identity (wm_witnesses m) = map (\<lambda>w. w @ js '':'' @ ecdsa) (map we_witness_id (wm_witnesses m))"
    using alg by (simp add: witness_identity_def)
  then show "distinct (map we_witness_id (wm_witnesses m))"
    using checked_identities [OF chk] distinct_map by metis
qed

lemma signature_verifies_True:
  assumes "signature_verifies env m c w s = Inr True"
  obtains e t where "e \<in> set (wm_witnesses m)" "we_witness_id e = w" "v_dateParse env (wc_integrated_time c) = Some t"
    "in_witness_epoch env e t"
    "v_verify env (canonicalCheckpointPayload c) (ws_signature s) (we_public_key_pem e) = Some True"
proof -
  have passed: "wk_passed (verifyWitnessKeyManifestEpoch env m w (ws_signature_algorithm s) (wc_integrated_time c))"
    using assms by (auto simp: signature_verifies_def split: if_splits)
  then obtain e where e: "findWitnessKeyManifestEntry m w (ws_signature_algorithm s) = Some e"
    by (rule passed_epoch)
  then obtain t where "v_dateParse env (wc_integrated_time c) = Some t" "in_witness_epoch env e t"
    using passed
    by (auto simp: verifyWitnessKeyManifestEpoch_def manifest_check_def in_witness_epoch_def split: sum.splits option.splits if_splits)
  moreover have "v_verify env (canonicalCheckpointPayload c) (ws_signature s) (we_public_key_pem e) = Some True"
    using assms passed e by (auto simp: signature_verifies_def verifyCheckpointSignature_def split: option.splits)
  ultimately show ?thesis using that find_witness_entry [OF e] by blast
qed

lemma signature_verifies_total:
  assumes "\<And>payload sg pem. v_verify env payload sg pem \<noteq> None"
  obtains b where "signature_verifies env m c w s = Inr b"
  using assms by (fastforce simp: signature_verifies_def verifyCheckpointSignature_def split: option.splits if_splits)

lemma every_signature_True: "every_signature f ss = Inr True \<longleftrightarrow> (\<forall>s\<in>set ss. f s = Inr True)"
  by (induction ss) (auto split: sum.splits if_splits)

subsection \<open>Round trip of the consistency proof\<close>

lemma created_checkpoint:
  assumes "createWitnessCheckpoint env logId payloads t w = Inr c"
  shows "wc_log_id c = logId" "wc_tree_size c = int (length payloads)" "wc_integrated_time c = t"
    "computeMerkleRoot (v_hash env) payloads = Inr (wc_root_hash c)"
  using assms
  by (auto simp: createWitnessCheckpoint_def UnsignedWitnessCheckpoint.defs Let_def split: sum.splits)

lemma merkle_root_hex:
  assumes "hex_digests h" and "js_array payloads" and "computeMerkleRoot h payloads = Inr root"
  shows "hex64 root"
  using assms(3) payload_root [OF assms(1,2)] mth_hex [OF assms(1) _ leaf_hashes_ok(1) [OF assms(1,2)]] assms(1)
  by (auto simp: EMPTY_TREE_ROOT_def hex_digests_def split: if_splits)

text \<open>
  Two checkpoints that one witness creates for a log and for a prefix of it, the empty and the whole
  prefix included, are linked by the code's own consistency proof:
  \<open>createWitnessCheckpointConsistencyProof\<close> returns a proof, and
  \<open>verifyWitnessCheckpointConsistencyProof\<close> accepts it.
\<close>

theorem witnessed_log_round_trip:
  fixes old new :: WitnessCheckpoint
  assumes "hex_digests (v_hash env)" and "js_array payloads" and "n \<le> length payloads"
    and "createWitnessCheckpoint env logId (take n payloads) t1 w1 = Inr old"
    and "createWitnessCheckpoint env logId payloads t2 w2 = Inr new"
  shows "\<exists>p. createWitnessCheckpointConsistencyProof env old new payloads = Inr p
    \<and> verifyWitnessCheckpointConsistencyProof env old new p"
proof -
  note old = created_checkpoint [OF assms(4)] and new = created_checkpoint [OF assms(5)]
  have size: "wc_tree_size old = int n" using old(2) assms(3) by simp
  obtain p where p: "getConsistencyProof (v_hash env) (int n) payloads = Inr p"
    "verifyConsistencyProof (v_hash env) (wc_root_hash old) (wc_root_hash new) p"
    using consistency_verifies [OF assms(1-3)] old(4) new(4) by auto
  have sizes: "old_tree_size p = int n" "new_tree_size p = int (length payloads)"
    using p(1) by (auto simp: getConsistencyProof_def getConsistencyProofFromLeafHashes_def split: sum.splits if_splits)
  have arr: "js_array (take n payloads)" using assms(2) by (simp add: js_array_def)
  have "is_safe_integer (int n)" "is_safe_integer (int (length payloads))"
    using assms(2,3) by (auto simp: is_safe_integer_def max_safe_integer_def js_array_def)
  moreover have "hex64 (wc_root_hash old)" "hex64 (wc_root_hash new)"
    using merkle_root_hex [OF assms(1) arr old(4)] merkle_root_hex [OF assms(1,2) new(4)] by simp_all
  ultimately have pair: "assertConsistentCheckpointPair old new = Inr ()"
    using old(1) size new assms(3) by (simp add: assertConsistentCheckpointPair_def)
  let ?q = "MerkleConsistencyProof.extend p
    \<lparr>cc_schema_version = consistencyProofSchemaVersion, cc_log_id = wc_log_id new,
     cc_old_root_hash = wc_root_hash old, cc_new_root_hash = wc_root_hash new\<rparr>"
  have "createWitnessCheckpointConsistencyProof env old new payloads = Inr ?q"
    using pair size old(4) new p(1) by (simp add: createWitnessCheckpointConsistencyProof_def)
  moreover have "verifyWitnessCheckpointConsistencyProof env old new ?q"
    using pair size old(1) new p(2) sizes
    by (cases p) (simp add: verifyWitnessCheckpointConsistencyProof_def MerkleConsistencyProof.defs)
  ultimately show ?thesis by blast
qed

text \<open>An environment at which hypotheses are instantiated: the signature of a payload is the payload under the key's name.\<close>

definition sample_env :: witness_env where
  "sample_env = \<lparr>v_hash = sample_digest, v_sign = \<lambda>payload key. Some (key @ payload),
     v_verify = \<lambda>payload sg key. Some (sg \<noteq> [] \<and> sg = key @ payload),
     v_dateParse = \<lambda>d. if list_all is_digit d \<and> d \<noteq> [] then Some (int (digits_value (map digit_value d))) else None,
     v_jsonParse = \<lambda>_. None\<rparr>"

definition sample_witness :: "string \<Rightarrow> DevWitnessKeyPair" where
  "sample_witness w = \<lparr>dw_witnessId = js w, dw_publicKeyPem = js ''key-'' @ js w, dw_privateKeyPem = js ''key-'' @ js w\<rparr>"

lemma sample_creates:
  assumes "js_array payloads"
  obtains c where "createWitnessCheckpoint sample_env logId payloads t w = Inr c"
  using payload_root [OF hex_digests_sample assms]
  by (auto simp: createWitnessCheckpoint_def signCheckpointPayload_def sample_env_def Let_def)

theorem witnessed_log_round_trip_witness:
  "\<exists>old new p. createWitnessCheckpoint sample_env (js ''log'') (take 2 sample_log) (js ''1'') (sample_witness ''w'') = Inr old
    \<and> createWitnessCheckpoint sample_env (js ''log'') sample_log (js ''2'') (sample_witness ''w'') = Inr new
    \<and> createWitnessCheckpointConsistencyProof sample_env old new sample_log = Inr p
    \<and> verifyWitnessCheckpointConsistencyProof sample_env old new p"
proof -
  have arr: "js_array (take 2 sample_log)" "js_array sample_log" "2 \<le> length sample_log"
    by (simp_all add: js_array_def sample_log_def)
  obtain old where old: "createWitnessCheckpoint sample_env (js ''log'') (take 2 sample_log) (js ''1'') (sample_witness ''w'') = Inr old"
    using sample_creates [OF arr(1)] .
  obtain new where new: "createWitnessCheckpoint sample_env (js ''log'') sample_log (js ''2'') (sample_witness ''w'') = Inr new"
    using sample_creates [OF arr(2)] .
  have "hex_digests (v_hash sample_env)" using hex_digests_sample by (simp add: sample_env_def)
  then show ?thesis using witnessed_log_round_trip [OF _ arr(2,3) old new] old new by blast
qed

end
