(* ===== verification/Witness_Fraud.thy ===== *)
theory Witness_Fraud
  imports Witness_Checkpoint
begin

text \<open>
  Fraud proofs against witnesses, \<open>packages/research-frontier/src/witnessFraudProof.ts\<close>: the proof that one witness
  signed two roots for the same log and size, the proof that two quorums did, and the scans that
  search a set of checkpoints for them. An exception of the signature verifier is a value \<open>Inl e\<close>.
\<close>

subsection \<open>Data\<close>

record SplitViewFraudProof =
  sp_schema_version :: jstr
  sp_log_id :: jstr
  sp_witness_id :: jstr
  sp_tree_size :: int
  sp_checkpoint_a :: WitnessCheckpoint
  sp_checkpoint_b :: WitnessCheckpoint

record FederationSplitViewProof =
  fp_schema_version :: jstr
  fp_log_id :: jstr
  fp_tree_size :: int
  fp_quorum :: int
  fp_checkpoint_a :: WitnessCheckpoint
  fp_checkpoint_b :: WitnessCheckpoint

datatype fraud_detail =
    ProofSchemaSupported | ProofSchemaUnsupported jstr | QuorumConfigured int | QuorumNotPositive
  | HeadsBindLog jstr | HeadsOfOtherLogs | HeadsAssertSize int | HeadsOfOtherSizes
  | ConflictingRoots jstr jstr | ConflictingRootsAtSize | RootsIdentical | WitnessSignedHead jstr | HeadSignatureFails
  | HeadMeetsQuorum | HeadLacksQuorum

record FraudProofCheck =
  fc_name :: jstr
  fc_passed :: bool
  fc_detail :: fraud_detail

record FraudProofVerification =
  fv_valid :: bool
  fv_checks :: "FraudProofCheck list"

record WitnessGroup =
  wg_logId :: jstr
  wg_witnessId :: jstr
  wg_treeSize :: int
  wg_checkpoints :: "WitnessCheckpoint list"

definition splitViewFraudProofSchemaVersion :: jstr where
  "splitViewFraudProofSchemaVersion = js ''ghostark.research.witness_split_view_fraud_proof.v1''"

definition federationSplitViewProofSchemaVersion :: jstr where
  "federationSplitViewProofSchemaVersion = js ''ghostark.research.witness_federation_split_view_proof.v1''"

subsection \<open>One witness\<close>

text \<open>Only the first signature that carries the witness id is looked at.\<close>

definition witnessSignatureVerifies :: "witness_env \<Rightarrow> WitnessCheckpoint \<Rightarrow> jstr \<Rightarrow> WitnessKeyManifest \<Rightarrow> witness_error + bool" where
  "witnessSignatureVerifies env c witnessId m =
     (case List.find (\<lambda>s. ws_witness_id s = witnessId) (wc_witness_signatures c) of
        None \<Rightarrow> Inr False
      | Some s \<Rightarrow> signature_verifies env m c witnessId s)"

definition fraud_check :: "string \<Rightarrow> bool \<Rightarrow> fraud_detail \<Rightarrow> fraud_detail \<Rightarrow> FraudProofCheck" where
  "fraud_check name passed yes no = \<lparr>fc_name = js name, fc_passed = passed, fc_detail = if passed then yes else no\<rparr>"

definition verification :: "FraudProofCheck list \<Rightarrow> FraudProofVerification" where
  "verification checks = \<lparr>fv_valid = list_all fc_passed checks, fv_checks = checks\<rparr>"

definition verifySplitViewFraudProof ::
  "witness_env \<Rightarrow> SplitViewFraudProof \<Rightarrow> WitnessKeyManifest \<Rightarrow> witness_error + FraudProofVerification" where
  "verifySplitViewFraudProof env p m =
     (let a = sp_checkpoint_a p; b = sp_checkpoint_b p in
      case witnessSignatureVerifies env a (sp_witness_id p) m of
        Inl err \<Rightarrow> Inl err
      | Inr aSigned \<Rightarrow>
          (case witnessSignatureVerifies env b (sp_witness_id p) m of
             Inl err \<Rightarrow> Inl err
           | Inr bSigned \<Rightarrow>
               Inr (verification
                 [fraud_check ''schema'' (sp_schema_version p = splitViewFraudProofSchemaVersion)
                    ProofSchemaSupported (ProofSchemaUnsupported (sp_schema_version p)),
                  fraud_check ''same_log'' (wc_log_id a = sp_log_id p \<and> wc_log_id b = sp_log_id p)
                    (HeadsBindLog (sp_log_id p)) HeadsOfOtherLogs,
                  fraud_check ''same_tree_size'' (wc_tree_size a = sp_tree_size p \<and> wc_tree_size b = sp_tree_size p)
                    (HeadsAssertSize (sp_tree_size p)) HeadsOfOtherSizes,
                  fraud_check ''roots_differ'' (wc_root_hash a \<noteq> wc_root_hash b)
                    (ConflictingRoots (take 16 (wc_root_hash a)) (take 16 (wc_root_hash b))) RootsIdentical,
                  fraud_check ''signature_a'' aSigned (WitnessSignedHead (sp_witness_id p)) HeadSignatureFails,
                  fraud_check ''signature_b'' bSigned (WitnessSignedHead (sp_witness_id p)) HeadSignatureFails])))"

definition group_key :: "jstr \<Rightarrow> jstr \<Rightarrow> int \<Rightarrow> jstr" where
  "group_key logId witnessId treeSize =
     print_val (JArr [Some (JStr logId), Some (JStr witnessId), Some (JNum (num_of_int treeSize))])"

definition add_to_group :: "WitnessCheckpoint \<Rightarrow> WitnessSignature \<Rightarrow> (jstr \<times> WitnessGroup) list \<Rightarrow> (jstr \<times> WitnessGroup) list" where
  "add_to_group c s groups =
     (let key = group_key (wc_log_id c) (ws_witness_id s) (wc_tree_size c);
          group = (case map_of groups key of
                     Some g \<Rightarrow> g
                   | None \<Rightarrow> \<lparr>wg_logId = wc_log_id c, wg_witnessId = ws_witness_id s,
                              wg_treeSize = wc_tree_size c, wg_checkpoints = []\<rparr>)
      in AList.update key (group\<lparr>wg_checkpoints := wg_checkpoints group @ [c]\<rparr>) groups)"

definition witness_groups :: "WitnessCheckpoint list \<Rightarrow> (jstr \<times> WitnessGroup) list" where
  "witness_groups checkpoints = fold (\<lambda>c. fold (add_to_group c) (wc_witness_signatures c)) checkpoints []"

text \<open>The pairs \<open>(xs[i], xs[j])\<close> with \<open>i < j\<close>, in the order of the two nested loops.\<close>

fun later_pairs :: "'a list \<Rightarrow> ('a \<times> 'a) list" where
  "later_pairs [] = []"
| "later_pairs (x # xs) = map (Pair x) xs @ later_pairs xs"

definition conflicting_pairs :: "WitnessCheckpoint list \<Rightarrow> (WitnessCheckpoint \<times> WitnessCheckpoint) list" where
  "conflicting_pairs bucket = filter (\<lambda>(a, b). wc_root_hash a \<noteq> wc_root_hash b) (later_pairs bucket)"

definition split_view_candidates :: "WitnessGroup \<Rightarrow> SplitViewFraudProof list" where
  "split_view_candidates g =
     map (\<lambda>(a, b). \<lparr>sp_schema_version = splitViewFraudProofSchemaVersion, sp_log_id = wg_logId g,
            sp_witness_id = wg_witnessId g, sp_tree_size = wg_treeSize g, sp_checkpoint_a = a, sp_checkpoint_b = b\<rparr>)
       (conflicting_pairs (wg_checkpoints g))"

text \<open>The first candidate whose verification is valid; an exception ends the scan.\<close>

fun first_valid :: "('p \<Rightarrow> witness_error + FraudProofVerification) \<Rightarrow> 'p list \<Rightarrow> witness_error + 'p option" where
  "first_valid verify [] = Inr None"
| "first_valid verify (p # ps) =
     (case verify p of
        Inl err \<Rightarrow> Inl err
      | Inr v \<Rightarrow> if fv_valid v then Inr (Some p) else first_valid verify ps)"

definition detectSplitView :: "witness_env \<Rightarrow> WitnessCheckpoint list \<Rightarrow> WitnessKeyManifest \<Rightarrow> witness_error + SplitViewFraudProof option" where
  "detectSplitView env checkpoints m =
     first_valid (\<lambda>p. verifySplitViewFraudProof env p m)
       (concat (map (split_view_candidates \<circ> snd) (witness_groups checkpoints)))"

subsection \<open>Two quorums\<close>

text \<open>The ids added to the \<open>Set\<close> of signers, in the order of the signatures.\<close>

fun signer_ids :: "(WitnessSignature \<Rightarrow> witness_error + bool) \<Rightarrow> WitnessSignature list \<Rightarrow> witness_error + jstr list" where
  "signer_ids f [] = Inr []"
| "signer_ids f (s # ss) =
     (case f s of
        Inl err \<Rightarrow> Inl err
      | Inr b \<Rightarrow>
          (case signer_ids f ss of
             Inl err \<Rightarrow> Inl err
           | Inr ids \<Rightarrow> Inr (if b then ws_witness_id s # ids else ids)))"

definition count_signers :: "(WitnessSignature \<Rightarrow> witness_error + bool) \<Rightarrow> WitnessSignature list \<Rightarrow> witness_error + nat" where
  "count_signers f ss = (case signer_ids f ss of Inl err \<Rightarrow> Inl err | Inr ids \<Rightarrow> Inr (length (js_set ids)))"

definition countValidWitnesses :: "witness_env \<Rightarrow> WitnessCheckpoint \<Rightarrow> WitnessKeyManifest \<Rightarrow> witness_error + nat" where
  "countValidWitnesses env c m =
     count_signers (\<lambda>s. witnessSignatureVerifies env c (ws_witness_id s) m) (wc_witness_signatures c)"

definition meets_quorum :: "bool \<Rightarrow> int \<Rightarrow> (witness_error + nat) \<Rightarrow> witness_error + bool" where
  "meets_quorum quorumOk quorum count =
     (if \<not> quorumOk then Inr False
      else (case count of Inl err \<Rightarrow> Inl err | Inr n \<Rightarrow> Inr (quorum \<le> int n)))"

definition verifyFederationSplitViewProof ::
  "witness_env \<Rightarrow> FederationSplitViewProof \<Rightarrow> WitnessKeyManifest \<Rightarrow> witness_error + FraudProofVerification" where
  "verifyFederationSplitViewProof env p m =
     (let a = fp_checkpoint_a p; b = fp_checkpoint_b p;
          quorumOk = (is_safe_integer (fp_quorum p) \<and> fp_quorum p \<ge> 1) in
      case meets_quorum quorumOk (fp_quorum p) (countValidWitnesses env a m) of
        Inl err \<Rightarrow> Inl err
      | Inr aQuorum \<Rightarrow>
          (case meets_quorum quorumOk (fp_quorum p) (countValidWitnesses env b m) of
             Inl err \<Rightarrow> Inl err
           | Inr bQuorum \<Rightarrow>
               Inr (verification
                 [fraud_check ''schema'' (fp_schema_version p = federationSplitViewProofSchemaVersion)
                    ProofSchemaSupported (ProofSchemaUnsupported (fp_schema_version p)),
                  fraud_check ''quorum_configured'' quorumOk (QuorumConfigured (fp_quorum p)) QuorumNotPositive,
                  fraud_check ''same_log'' (wc_log_id a = fp_log_id p \<and> wc_log_id b = fp_log_id p)
                    (HeadsBindLog (fp_log_id p)) HeadsOfOtherLogs,
                  fraud_check ''same_tree_size'' (wc_tree_size a = fp_tree_size p \<and> wc_tree_size b = fp_tree_size p)
                    (HeadsAssertSize (fp_tree_size p)) HeadsOfOtherSizes,
                  fraud_check ''roots_differ'' (wc_root_hash a \<noteq> wc_root_hash b)
                    ConflictingRootsAtSize RootsIdentical,
                  fraud_check ''quorum_a'' aQuorum HeadMeetsQuorum HeadLacksQuorum,
                  fraud_check ''quorum_b'' bQuorum HeadMeetsQuorum HeadLacksQuorum])))"

definition bucket_key :: "WitnessCheckpoint \<Rightarrow> jstr" where
  "bucket_key c = print_val (JArr [Some (JStr (wc_log_id c)), Some (JNum (num_of_int (wc_tree_size c)))])"

definition checkpoint_buckets :: "WitnessCheckpoint list \<Rightarrow> (jstr \<times> WitnessCheckpoint list) list" where
  "checkpoint_buckets checkpoints =
     fold (\<lambda>c buckets. AList.update (bucket_key c)
             ((case map_of buckets (bucket_key c) of None \<Rightarrow> [] | Some b \<Rightarrow> b) @ [c]) buckets)
       checkpoints []"

definition federation_candidates :: "int \<Rightarrow> WitnessCheckpoint list \<Rightarrow> FederationSplitViewProof list" where
  "federation_candidates quorum bucket =
     map (\<lambda>(a, b). \<lparr>fp_schema_version = federationSplitViewProofSchemaVersion, fp_log_id = wc_log_id a,
            fp_tree_size = wc_tree_size a, fp_quorum = quorum, fp_checkpoint_a = a, fp_checkpoint_b = b\<rparr>)
       (conflicting_pairs bucket)"

definition detectFederationSplitView ::
  "witness_env \<Rightarrow> WitnessCheckpoint list \<Rightarrow> WitnessKeyManifest \<Rightarrow> int \<Rightarrow> witness_error + FederationSplitViewProof option" where
  "detectFederationSplitView env checkpoints m quorum =
     first_valid (\<lambda>p. verifyFederationSplitViewProof env p m)
       (concat (map (federation_candidates quorum \<circ> snd) (checkpoint_buckets checkpoints)))"

subsection \<open>The groups of the scan\<close>

lemma group_key_inject: "group_key l w n = group_key l' w' n' \<longleftrightarrow> l = l' \<and> w = w' \<and> n = n'"
proof
  assume "group_key l w n = group_key l' w' n'"
  then have "norm_val (JArr [Some (JStr l), Some (JStr w), Some (JNum (num_of_int n))]) =
      norm_val (JArr [Some (JStr l'), Some (JStr w'), Some (JNum (num_of_int n'))])"
    unfolding group_key_def by (intro print_val_inject) simp_all
  then show "l = l' \<and> w = w' \<and> n = n'" by (simp add: num_of_int_inject)
qed simp

lemma bucket_key_inject:
  "bucket_key c = bucket_key d \<longleftrightarrow> wc_log_id c = wc_log_id d \<and> wc_tree_size c = wc_tree_size d"
proof
  assume "bucket_key c = bucket_key d"
  then have "norm_val (JArr [Some (JStr (wc_log_id c)), Some (JNum (num_of_int (wc_tree_size c)))]) =
      norm_val (JArr [Some (JStr (wc_log_id d)), Some (JNum (num_of_int (wc_tree_size d)))])"
    unfolding bucket_key_def by (intro print_val_inject) simp_all
  then show "wc_log_id c = wc_log_id d \<and> wc_tree_size c = wc_tree_size d" by (simp add: num_of_int_inject)
qed (simp add: bucket_key_def)

text \<open>The scan as one pass over the pairs of a checkpoint and one of its signatures.\<close>

type_synonym event = "WitnessCheckpoint \<times> WitnessSignature"

definition events :: "WitnessCheckpoint list \<Rightarrow> event list" where
  "events cs = concat (map (\<lambda>c. map (Pair c) (wc_witness_signatures c)) cs)"

definition group_events :: "event list \<Rightarrow> (jstr \<times> WitnessGroup) list" where
  "group_events es = fold (\<lambda>(c, s). add_to_group c s) es []"

definition event_of :: "jstr \<Rightarrow> jstr \<Rightarrow> int \<Rightarrow> event \<Rightarrow> bool" where
  "event_of l w n = (\<lambda>(c, s). wc_log_id c = l \<and> ws_witness_id s = w \<and> wc_tree_size c = n)"

lemma witness_groups_events: "witness_groups cs = group_events (events cs)"
proof -
  have "fold (\<lambda>c. fold (add_to_group c) (wc_witness_signatures c)) cs acc = fold (\<lambda>(c, s). add_to_group c s) (events cs) acc" for acc
    by (induction cs arbitrary: acc) (simp_all add: events_def fold_map comp_def)
  then show ?thesis by (simp add: witness_groups_def group_events_def)
qed

lemma group_events_snoc: "group_events (es @ [(c, s)]) = add_to_group c s (group_events es)"
  by (simp add: group_events_def)

lemma group_lookup:
  "map_of (group_events es) (group_key l w n) =
     (if filter (event_of l w n) es = [] then None
      else Some \<lparr>wg_logId = l, wg_witnessId = w, wg_treeSize = n, wg_checkpoints = map fst (filter (event_of l w n) es)\<rparr>)"
proof (induction es rule: rev_induct)
  case Nil
  show ?case by (simp add: group_events_def)
next
  case (snoc e es)
  obtain c s where e: "e = (c, s)" by force
  show ?case
  proof (cases "event_of l w n e")
    case True
    then show ?thesis
      using snoc.IH by (auto simp: e event_of_def group_events_snoc add_to_group_def update_conv Let_def)
  next
    case False
    then have "group_key l w n \<noteq> group_key (wc_log_id c) (ws_witness_id s) (wc_tree_size c)"
      by (auto simp: e event_of_def group_key_inject)
    then show ?thesis
      using snoc.IH False by (simp add: e group_events_snoc add_to_group_def update_conv Let_def)
  qed
qed

lemma group_keys:
  "(k, g) \<in> set (group_events es) \<Longrightarrow> k = group_key (wg_logId g) (wg_witnessId g) (wg_treeSize g) \<and> map_of (group_events es) k = Some g"
proof -
  have dist: "distinct (map fst (group_events es))"
    by (induction es rule: rev_induct)
      (auto simp: group_events_def add_to_group_def Let_def distinct_update split: prod.splits)
  have keys: "\<exists>l w n. k = group_key l w n" if "k \<in> fst ` set (group_events es)" for k
    using that
  proof (induction es rule: rev_induct)
    case (snoc e es)
    obtain c s where e: "e = (c, s)" by force
    show ?case using snoc by (auto simp: e group_events_snoc add_to_group_def Let_def dom_update)
  qed (simp add: group_events_def)
  assume mem: "(k, g) \<in> set (group_events es)"
  then have look: "map_of (group_events es) k = Some g" using dist by simp
  obtain l w n where "k = group_key l w n" using keys [of k] mem by force
  then show ?thesis using look group_lookup [of es l w n] by (auto split: if_splits)
qed

lemma later_pairs_subset: "(a, b) \<in> set (later_pairs xs) \<Longrightarrow> a \<in> set xs \<and> b \<in> set xs"
  by (induction xs) auto

lemma later_pairs_either: "a \<in> set xs \<Longrightarrow> b \<in> set xs \<Longrightarrow> a \<noteq> b \<Longrightarrow> (a, b) \<in> set (later_pairs xs) \<or> (b, a) \<in> set (later_pairs xs)"
  by (induction xs) auto

lemma first_valid_Some:
  assumes "first_valid verify ps = Inr (Some p)"
  shows "p \<in> set ps \<and> (\<exists>v. verify p = Inr v \<and> fv_valid v)"
  using assms by (induction ps) (auto split: sum.splits if_splits)

lemma first_valid_exists:
  assumes "\<And>p. \<exists>v. verify p = Inr v" and "q \<in> set ps" and "verify q = Inr v" and "fv_valid v"
  shows "\<exists>p. first_valid verify ps = Inr (Some p)"
  using assms(2)
proof (induction ps)
  case (Cons p ps)
  obtain v' where "verify p = Inr v'" using assms(1) by blast
  then show ?case using Cons assms(3,4) by (cases "fv_valid v'") auto
qed simp

subsection \<open>Equivocation of one witness\<close>

lemma verify_split_view_True:
  "(\<exists>v. verifySplitViewFraudProof env p m = Inr v \<and> fv_valid v) \<longleftrightarrow>
     sp_schema_version p = splitViewFraudProofSchemaVersion
     \<and> wc_log_id (sp_checkpoint_a p) = sp_log_id p \<and> wc_log_id (sp_checkpoint_b p) = sp_log_id p
     \<and> wc_tree_size (sp_checkpoint_a p) = sp_tree_size p \<and> wc_tree_size (sp_checkpoint_b p) = sp_tree_size p
     \<and> wc_root_hash (sp_checkpoint_a p) \<noteq> wc_root_hash (sp_checkpoint_b p)
     \<and> witnessSignatureVerifies env (sp_checkpoint_a p) (sp_witness_id p) m = Inr True
     \<and> witnessSignatureVerifies env (sp_checkpoint_b p) (sp_witness_id p) m = Inr True"
  by (auto simp: verifySplitViewFraudProof_def verification_def fraud_check_def Let_def split: sum.splits)

lemma witness_signature_total:
  assumes "\<And>payload sg pem. v_verify env payload sg pem \<noteq> None"
  shows "\<exists>b. witnessSignatureVerifies env c w m = Inr b"
proof -
  have "\<exists>b. signature_verifies env m c w s = Inr b" for s using signature_verifies_total [OF assms] by metis
  then show ?thesis
    by (cases "List.find (\<lambda>s. ws_witness_id s = w) (wc_witness_signatures c)") (auto simp: witnessSignatureVerifies_def)
qed

lemma signed_event:
  assumes "witnessSignatureVerifies env c w m = Inr True" and "c \<in> set cs"
  shows "\<exists>s. (c, s) \<in> set (filter (event_of (wc_log_id c) w (wc_tree_size c)) (events cs))"
proof -
  obtain s where "List.find (\<lambda>s. ws_witness_id s = w) (wc_witness_signatures c) = Some s"
    using assms(1) by (auto simp: witnessSignatureVerifies_def split: option.splits)
  then have "s \<in> set (wc_witness_signatures c)" "ws_witness_id s = w"
    by (auto simp: find_Some_iff)
  then show ?thesis using assms(2) by (auto simp: event_of_def events_def intro!: exI [of _ s] bexI [of _ c])
qed

lemma candidate_in_scan:
  assumes "a \<in> set cs" and "b \<in> set cs" and "wc_log_id a = wc_log_id b" and "wc_tree_size a = wc_tree_size b"
    and "wc_root_hash a \<noteq> wc_root_hash b"
    and "witnessSignatureVerifies env a w m = Inr True" and "witnessSignatureVerifies env b w m = Inr True"
  obtains q where "q \<in> set (concat (map (split_view_candidates \<circ> snd) (witness_groups cs)))"
    "sp_schema_version q = splitViewFraudProofSchemaVersion"
    "sp_witness_id q = w" "sp_log_id q = wc_log_id a" "sp_tree_size q = wc_tree_size a"
    "{sp_checkpoint_a q, sp_checkpoint_b q} = {a, b}"
proof -
  let ?es = "filter (event_of (wc_log_id a) w (wc_tree_size a)) (events cs)"
  let ?g = "\<lparr>wg_logId = wc_log_id a, wg_witnessId = w, wg_treeSize = wc_tree_size a, wg_checkpoints = map fst ?es\<rparr>"
  obtain s s' where mem: "(a, s) \<in> set ?es" "(b, s') \<in> set ?es"
    using signed_event [OF assms(6,1)] signed_event [OF assms(7,2)] assms(3,4) by metis
  have "map_of (witness_groups cs) (group_key (wc_log_id a) w (wc_tree_size a)) = Some ?g"
    using mem group_lookup [of "events cs" "wc_log_id a" w "wc_tree_size a"]
    by (metis empty_iff empty_set witness_groups_events)
  then have g: "?g \<in> snd ` set (witness_groups cs)" by (force dest: map_of_SomeD)
  have ab: "a \<in> set (map fst ?es)" "b \<in> set (map fst ?es)" "a \<noteq> b"
    using mem assms(5) by force+
  have "\<exists>x y. (x, y) \<in> set (later_pairs (map fst ?es)) \<and> {x, y} = {a, b}"
  proof (cases "(a, b) \<in> set (later_pairs (map fst ?es))")
    case True
    then show ?thesis by (intro exI [of _ a] exI [of _ b]) simp
  next
    case False
    then have "(b, a) \<in> set (later_pairs (map fst ?es))" using later_pairs_either [OF ab] by simp
    then show ?thesis by (intro exI [of _ b] exI [of _ a]) (simp add: insert_commute)
  qed
  then obtain x y where xy: "(x, y) \<in> set (later_pairs (map fst ?es))" "{x, y} = {a, b}" by blast
  let ?q = "\<lparr>sp_schema_version = splitViewFraudProofSchemaVersion, sp_log_id = wc_log_id a,
      sp_witness_id = w, sp_tree_size = wc_tree_size a, sp_checkpoint_a = x, sp_checkpoint_b = y\<rparr>"
  have "wc_root_hash x \<noteq> wc_root_hash y" using xy(2) assms(5) by (metis doubleton_eq_iff)
  then have "(x, y) \<in> set (conflicting_pairs (wg_checkpoints ?g))" using xy(1) by (simp add: conflicting_pairs_def)
  then have "?q \<in> set (split_view_candidates ?g)"
    unfolding split_view_candidates_def set_map by (rule rev_image_eqI) simp
  moreover obtain k where "(k, ?g) \<in> set (witness_groups cs)" using g by auto
  ultimately have "?q \<in> set (concat (map (split_view_candidates \<circ> snd) (witness_groups cs)))"
    by (auto intro!: bexI [of _ "(k, ?g)"])
  then show ?thesis using that [of ?q] xy(2) by simp
qed

lemma scan_members:
  assumes "q \<in> set (concat (map (split_view_candidates \<circ> snd) (witness_groups cs)))"
  shows "sp_checkpoint_a q \<in> set cs \<and> sp_checkpoint_b q \<in> set cs"
proof -
  obtain k g where g: "(k, g) \<in> set (group_events (events cs))" "q \<in> set (split_view_candidates g)"
    using assms by (auto simp: witness_groups_events)
  have "g = \<lparr>wg_logId = wg_logId g, wg_witnessId = wg_witnessId g, wg_treeSize = wg_treeSize g,
      wg_checkpoints = map fst (filter (event_of (wg_logId g) (wg_witnessId g) (wg_treeSize g)) (events cs))\<rparr>"
    using group_keys [OF g(1)] group_lookup [of "events cs" "wg_logId g" "wg_witnessId g" "wg_treeSize g"]
    by (metis option.distinct(1) option.inject)
  then have "set (wg_checkpoints g) \<subseteq> fst ` set (events cs)"
    by (metis (no_types, lifting) WitnessGroup.select_convs(4) filter_is_subset image_mono set_map)
  then have "set (wg_checkpoints g) \<subseteq> set cs" by (auto simp: events_def)
  then show ?thesis
    using g(2) by (auto simp: split_view_candidates_def conflicting_pairs_def dest: later_pairs_subset)
qed

lemma detected_split_view:
  assumes "detectSplitView env cs m = Inr (Some p)"
  shows "sp_checkpoint_a p \<in> set cs" "sp_checkpoint_b p \<in> set cs"
    "\<exists>v. verifySplitViewFraudProof env p m = Inr v \<and> fv_valid v"
  using first_valid_Some [OF assms [unfolded detectSplitView_def]] scan_members by blast+


lemma witness_signature_True:
  assumes "witnessSignatureVerifies env c w m = Inr True"
  obtains e t sg where "e \<in> set (wm_witnesses m)" "we_witness_id e = w" "v_dateParse env (wc_integrated_time c) = Some t"
    "in_witness_epoch env e t"
    "v_verify env (canonicalCheckpointPayload c) sg (we_public_key_pem e) = Some True"
    "validateWitnessKeyManifestSemantics env m = Inr ()"
proof -
  obtain s where s: "signature_verifies env m c w s = Inr True"
    using assms by (auto simp: witnessSignatureVerifies_def split: option.splits)
  then have "validateWitnessKeyManifestSemantics env m = Inr ()"
    using passed_epoch by (metis Inr_inject signature_verifies_def)
  then show ?thesis using signature_verifies_True [OF s] that by metis
qed

text \<open>
  A fraud proof that the scan returns convicts its witness: the manifest's one key of that witness
  verifies signatures over two different payloads, for the same log and tree size, at times in the
  key's epoch.
\<close>

theorem fraud_proof_convicts:
  assumes "detectSplitView env cs m = Inr (Some p)"
  shows "\<exists>e sa sb ta tb. e \<in> set (wm_witnesses m) \<and> we_witness_id e = sp_witness_id p
    \<and> v_verify env (canonicalCheckpointPayload (sp_checkpoint_a p)) sa (we_public_key_pem e) = Some True
    \<and> v_verify env (canonicalCheckpointPayload (sp_checkpoint_b p)) sb (we_public_key_pem e) = Some True
    \<and> canonicalCheckpointPayload (sp_checkpoint_a p) \<noteq> canonicalCheckpointPayload (sp_checkpoint_b p)
    \<and> wc_log_id (sp_checkpoint_a p) = wc_log_id (sp_checkpoint_b p)
    \<and> wc_tree_size (sp_checkpoint_a p) = wc_tree_size (sp_checkpoint_b p)
    \<and> v_dateParse env (wc_integrated_time (sp_checkpoint_a p)) = Some ta \<and> in_witness_epoch env e ta
    \<and> v_dateParse env (wc_integrated_time (sp_checkpoint_b p)) = Some tb \<and> in_witness_epoch env e tb"
proof -
  let ?a = "sp_checkpoint_a p" and ?b = "sp_checkpoint_b p"
  have valid: "wc_log_id ?a = wc_log_id ?b" "wc_tree_size ?a = wc_tree_size ?b" "wc_root_hash ?a \<noteq> wc_root_hash ?b"
    "witnessSignatureVerifies env ?a (sp_witness_id p) m = Inr True" "witnessSignatureVerifies env ?b (sp_witness_id p) m = Inr True"
    using detected_split_view(3) [OF assms] verify_split_view_True [of env p m] by simp_all
  obtain e ta sa where a: "e \<in> set (wm_witnesses m)" "we_witness_id e = sp_witness_id p"
    "v_dateParse env (wc_integrated_time ?a) = Some ta" "in_witness_epoch env e ta"
    "v_verify env (canonicalCheckpointPayload ?a) sa (we_public_key_pem e) = Some True"
    and ok: "validateWitnessKeyManifestSemantics env m = Inr ()"
    by (rule witness_signature_True [OF valid(4)])
  obtain e' tb sb where b: "e' \<in> set (wm_witnesses m)" "we_witness_id e' = sp_witness_id p"
    "v_dateParse env (wc_integrated_time ?b) = Some tb" "in_witness_epoch env e' tb"
    "v_verify env (canonicalCheckpointPayload ?b) sb (we_public_key_pem e') = Some True"
    by (rule witness_signature_True [OF valid(5)])
  have "e' = e" using valid_manifest(2) [OF ok] a(1,2) b(1,2) by (metis distinct_map inj_onD)
  moreover have "canonicalCheckpointPayload ?a \<noteq> canonicalCheckpointPayload ?b" using payload_inject(3) valid(3) by metis
  ultimately show ?thesis using a b valid(1,2) by blast
qed

subsection \<open>Witnesses\<close>

definition sample_entry :: "string \<Rightarrow> WitnessKeyManifestEntry" where
  "sample_entry w = \<lparr>we_witness_id = js w, we_signature_algorithm = ecdsa, we_public_key_pem = js ''key-'' @ js w,
     we_valid_from = js ''0'', we_valid_until = None, we_status = js ''ACTIVE'', we_revoked_at = None, we_reason = None\<rparr>"

definition sample_manifest :: WitnessKeyManifest where
  "sample_manifest = \<lparr>wm_schema_version = js ''ghostark.research.witness_key_manifest.v1'', wm_generated_at = js ''0'',
     wm_witnesses = [sample_entry ''v'', sample_entry ''w'']\<rparr>"

definition sample_head :: "jstr \<Rightarrow> int \<Rightarrow> WitnessCheckpoint" where
  "sample_head root n =
     (let u = \<lparr>wc_schema_version = witnessCheckpointSchemaVersion, wc_log_id = js ''log'', wc_tree_size = n,
               wc_root_hash = root, wc_integrated_time = js ''5''\<rparr> in
      UnsignedWitnessCheckpoint.extend u
        \<lparr>wc_witness_signatures =
           [\<lparr>ws_witness_id = js ''w'', ws_signature_algorithm = ecdsa,
             ws_signature = js ''key-w'' @ canonicalCheckpointPayload u\<rparr>]\<rparr>)"

lemma sample_head_fields [simp]:
  "wc_schema_version (sample_head root n) = witnessCheckpointSchemaVersion" "wc_log_id (sample_head root n) = js ''log''"
  "wc_tree_size (sample_head root n) = n" "wc_root_hash (sample_head root n) = root"
  "wc_integrated_time (sample_head root n) = js ''5''"
  by (simp_all add: sample_head_def Let_def UnsignedWitnessCheckpoint.defs)

lemma sample_head_signatures:
  "wc_witness_signatures (sample_head root n) =
     [\<lparr>ws_witness_id = js ''w'', ws_signature_algorithm = ecdsa,
       ws_signature = js ''key-w'' @ canonicalCheckpointPayload (sample_head root n)\<rparr>]"
  by (simp add: sample_head_def Let_def UnsignedWitnessCheckpoint.defs canonicalCheckpointPayload_def checkpoint_object_def)

lemma sample_epoch: "wk_passed (verifyWitnessKeyManifestEpoch sample_env sample_manifest (js ''w'') ecdsa (js ''5''))"
  "validateWitnessKeyManifestSemantics sample_env sample_manifest = Inr ()"
  by code_simp+

lemma sample_found: "findWitnessKeyManifestEntry sample_manifest (js ''w'') ecdsa = Some (sample_entry ''w'')"
  by code_simp

lemma sample_signature:
  "signature_verifies sample_env sample_manifest (sample_head root n) (js ''w'') (hd (wc_witness_signatures (sample_head root n))) = Inr True"
  using sample_epoch(1)
  by (simp add: signature_verifies_def sample_head_signatures sample_found verifyCheckpointSignature_def
      sample_env_def sample_entry_def flip: js_append)

lemma sample_signed: "witnessSignatureVerifies sample_env (sample_head root n) (js ''w'') sample_manifest = Inr True"
  using sample_signature [of root n] by (simp add: witnessSignatureVerifies_def sample_head_signatures)

lemma sample_verifier_total: "v_verify sample_env payload sg pem \<noteq> None"
  by (simp add: sample_env_def)


lemma sample_detected:
  obtains p where "detectSplitView sample_env [sample_head (js ''r'') 3, sample_head (js ''s'') 3] sample_manifest = Inr (Some p)"
proof -
  let ?cs = "[sample_head (js ''r'') 3, sample_head (js ''s'') 3]"
  have cands: "concat (map (split_view_candidates \<circ> snd) (witness_groups ?cs)) =
      [\<lparr>sp_schema_version = splitViewFraudProofSchemaVersion, sp_log_id = js ''log'', sp_witness_id = js ''w'',
        sp_tree_size = 3, sp_checkpoint_a = sample_head (js ''r'') 3, sp_checkpoint_b = sample_head (js ''s'') 3\<rparr>]"
    by (simp add: witness_groups_def add_to_group_def sample_head_signatures split_view_candidates_def conflicting_pairs_def)
  show ?thesis
    by (rule that [of "hd (concat (map (split_view_candidates \<circ> snd) (witness_groups ?cs)))"])
      (unfold detectSplitView_def cands,
        simp add: verifySplitViewFraudProof_def sample_signed verification_def fraud_check_def)
qed

theorem fraud_proof_convicts_witness:
  "\<exists>e sa sb (p :: SplitViewFraudProof). e \<in> set (wm_witnesses sample_manifest)
    \<and> v_verify sample_env (canonicalCheckpointPayload (sp_checkpoint_a p)) sa (we_public_key_pem e) = Some True
    \<and> v_verify sample_env (canonicalCheckpointPayload (sp_checkpoint_b p)) sb (we_public_key_pem e) = Some True
    \<and> canonicalCheckpointPayload (sp_checkpoint_a p) \<noteq> canonicalCheckpointPayload (sp_checkpoint_b p)"
proof -
  obtain p where "detectSplitView sample_env [sample_head (js ''r'') 3, sample_head (js ''s'') 3] sample_manifest = Inr (Some p)"
    by (rule sample_detected)
  from fraud_proof_convicts [OF this] show ?thesis by blast
qed

end
