(* ===== verification/Authenticated_Revocation.thy ===== *)
theory Authenticated_Revocation
  imports Witness_Fraud
begin

text \<open>
  Revocation by authenticated ledger order, \<open>packages/research-frontier/src/authenticatedRevocation.ts\<close>: the canonical
  revocation record, the count of the witnesses of a checkpoint, and the enforcement, one definition
  per numbered step of the code. A step raises (\<open>Inl\<close>), returns a rejection, or hands what it found
  to the next one.
\<close>

subsection \<open>Data\<close>

record LedgerRevocationRecord =
  rec_schema_version :: jstr
  rec_type :: jstr
  rec_key_id :: jstr
  rec_reason :: "jstr option"

record CheckpointInclusion =
  ci_checkpoint :: WitnessCheckpoint
  ci_leafPayload :: jstr
  ci_proof :: MerkleInclusionProof

record RevocationInclusion = CheckpointInclusion +
  ci_keyId :: jstr

record AuthenticatedRevocationInput =
  ai_keyId :: jstr
  ai_receiptTimestamp :: "jstr option"
  ai_trustRoot :: WitnessKeyManifest
  ai_witnessQuorum :: int
  ai_inclusion :: CheckpointInclusion
  ai_revocation :: RevocationInclusion
  ai_consistency :: MerkleConsistencyProof
  ai_observedCheckpoints :: "WitnessCheckpoint list option"

datatype AuthenticatedRevocationStanding =
    Valid_pre_revocation | Rejected_post_revocation | Rejected_unauthenticated | Rejected_unprovable | Rejected_equivocation

datatype check_detail =
    TrustRootWellFormed | TrustRootInvalid witness_error | QuorumInvalid int
  | RevocationTargets jstr jstr | RevocationApplies jstr | OtherLog jstr jstr | SameLog jstr
  | QuorumNotMet int nat nat | QuorumMet int nat nat
  | WitnessEquivocated jstr int jstr | FederationEquivocated int jstr | NoSplitView
  | ReceiptNotIncluded | ReceiptAt int | NotCanonicalRecord | RevocationNotIncluded | RevocationAt int
  | NotConsistent | Consistent int int | BackdatingSuspected jstr int int | NoContradiction
  | IndexPrecedes int int | IndexAtOrAfter int int

record AuthenticatedRevocationCheck =
  ac_name :: jstr
  ac_passed :: bool
  ac_detail :: check_detail

datatype outcome_detail =
    InvalidTrustRoot | QuorumNotPositiveInteger | RecordDoesNotApply | DifferentLogs | QuorumMissed
  | SingleWitnessEquivocation | FederationEquivocation | ReceiptPositionUnproven | RecordNotWellFormed
  | RevocationPositionUnproven | NotOneLog | CommittedBefore | CommittedAtOrAfter

record AuthenticatedRevocationResult =
  ar_verdict :: bool
  ar_standing :: AuthenticatedRevocationStanding
  ar_receiptLeafIndex :: "int option"
  ar_revocationLeafIndex :: "int option"
  ar_equivocationProof :: "SplitViewFraudProof option"
  ar_federationEquivocationProof :: "FederationSplitViewProof option"
  ar_backdatingSuspected :: bool
  ar_checks :: "AuthenticatedRevocationCheck list"
  ar_detail :: outcome_detail

type_synonym 'a step = "witness_error + (AuthenticatedRevocationResult + 'a)"

definition ledgerRevocationRecordSchemaVersion :: jstr where
  "ledgerRevocationRecordSchemaVersion = js ''ghostark.research.ledger_revocation_record.v1''"

definition key_revocation :: jstr where
  "key_revocation = js ''key_revocation''"

subsection \<open>The revocation record\<close>

text \<open>The array replacer of \<open>JSON.stringify\<close> prints the keys in sorted order.\<close>

definition canonicalRevocationRecordPayload :: "LedgerRevocationRecord \<Rightarrow> witness_error + jstr" where
  "canonicalRevocationRecordPayload r =
     (if rec_schema_version r \<noteq> ledgerRevocationRecordSchemaVersion then Inl RecordSchemaUnsupported
      else if rec_type r \<noteq> key_revocation then Inl RecordTypeUnsupported
      else if rec_key_id r = [] then Inl RecordKeyIdEmpty
      else Inr (print_val (JObj
        ([(js ''key_id'', JStr (rec_key_id r))] @
         (case rec_reason r of None \<Rightarrow> [] | Some reason \<Rightarrow> [(js ''reason'', JStr reason)]) @
         [(js ''schema_version'', JStr (rec_schema_version r)), (js ''type'', JStr (rec_type r))]))))"

definition revocationRecordReason :: "witness_env \<Rightarrow> jstr \<Rightarrow> jstr option" where
  "revocationRecordReason env leafPayload =
     (case v_jsonParse env leafPayload of
        Some (JObj es) \<Rightarrow> (case map_of es (js ''reason'') of Some (JStr reason) \<Rightarrow> Some reason | _ \<Rightarrow> None)
      | _ \<Rightarrow> None)"

subsection \<open>Results\<close>

definition auth_check :: "string \<Rightarrow> bool \<Rightarrow> check_detail \<Rightarrow> AuthenticatedRevocationCheck" where
  "auth_check name passed detail = \<lparr>ac_name = js name, ac_passed = passed, ac_detail = detail\<rparr>"

definition reject ::
  "AuthenticatedRevocationStanding \<Rightarrow> outcome_detail \<Rightarrow> AuthenticatedRevocationCheck list \<Rightarrow> AuthenticatedRevocationResult" where
  "reject standing detail checks =
     \<lparr>ar_verdict = False, ar_standing = standing, ar_receiptLeafIndex = None, ar_revocationLeafIndex = None,
      ar_equivocationProof = None, ar_federationEquivocationProof = None, ar_backdatingSuspected = False,
      ar_checks = checks, ar_detail = detail\<rparr>"

fun continue :: "'a step \<Rightarrow> ('a \<Rightarrow> witness_error + AuthenticatedRevocationResult) \<Rightarrow> witness_error + AuthenticatedRevocationResult" where
  "continue (Inl err) next_step = Inl err"
| "continue (Inr (Inl result)) next_step = Inr result"
| "continue (Inr (Inr x)) next_step = next_step x"

subsection \<open>The steps\<close>

definition countQuorumWitnesses :: "witness_env \<Rightarrow> WitnessCheckpoint \<Rightarrow> WitnessKeyManifest \<Rightarrow> witness_error + nat" where
  "countQuorumWitnesses env c m =
     count_signers (\<lambda>s. signature_verifies env m c (ws_witness_id s) s) (wc_witness_signatures c)"

definition check_trust_root :: "witness_env \<Rightarrow> AuthenticatedRevocationInput \<Rightarrow> AuthenticatedRevocationCheck list step" where
  "check_trust_root env input =
     (case validateWitnessKeyManifestSemantics env (ai_trustRoot input) of
        Inl err \<Rightarrow> Inr (Inl (reject Rejected_unauthenticated InvalidTrustRoot [auth_check ''trust_root'' False (TrustRootInvalid err)]))
      | Inr _ \<Rightarrow>
          if \<not> is_safe_integer (ai_witnessQuorum input) \<or> ai_witnessQuorum input < 1 then
            Inr (Inl (reject Rejected_unauthenticated QuorumNotPositiveInteger
              [auth_check ''quorum_configured'' False (QuorumInvalid (ai_witnessQuorum input))]))
          else Inr (Inr [auth_check ''trust_root'' True TrustRootWellFormed]))"

definition check_scope :: "AuthenticatedRevocationInput \<Rightarrow> AuthenticatedRevocationCheck list \<Rightarrow> AuthenticatedRevocationCheck list step" where
  "check_scope input checks =
     (let target = ci_keyId (ai_revocation input); key = ai_keyId input;
          inclusionLog = wc_log_id (ci_checkpoint (ai_inclusion input));
          revocationLog = wc_log_id (ci_checkpoint (ai_revocation input)) in
      if key \<noteq> target then
        Inr (Inl (reject Rejected_unprovable RecordDoesNotApply
          (checks @ [auth_check ''key_scope'' False (RevocationTargets target key)])))
      else
        let checks = checks @ [auth_check ''key_scope'' True (RevocationApplies key)] in
        if inclusionLog \<noteq> revocationLog then
          Inr (Inl (reject Rejected_unauthenticated DifferentLogs
            (checks @ [auth_check ''same_log'' False (OtherLog inclusionLog revocationLog)])))
        else Inr (Inr (checks @ [auth_check ''same_log'' True (SameLog inclusionLog)])))"

definition check_quorum ::
  "witness_env \<Rightarrow> AuthenticatedRevocationInput \<Rightarrow> AuthenticatedRevocationCheck list \<Rightarrow> AuthenticatedRevocationCheck list step" where
  "check_quorum env input checks =
     (case countQuorumWitnesses env (ci_checkpoint (ai_inclusion input)) (ai_trustRoot input) of
        Inl err \<Rightarrow> Inl err
      | Inr i \<Rightarrow>
          (case countQuorumWitnesses env (ci_checkpoint (ai_revocation input)) (ai_trustRoot input) of
             Inl err \<Rightarrow> Inl err
           | Inr r \<Rightarrow>
               if int i < ai_witnessQuorum input \<or> int r < ai_witnessQuorum input then
                 Inr (Inl (reject Rejected_unauthenticated QuorumMissed
                   (checks @ [auth_check ''witness_quorum'' False (QuorumNotMet (ai_witnessQuorum input) i r)])))
               else Inr (Inr (checks @ [auth_check ''witness_quorum'' True (QuorumMet (ai_witnessQuorum input) i r)]))))"

definition checkpoint_set :: "AuthenticatedRevocationInput \<Rightarrow> WitnessCheckpoint list" where
  "checkpoint_set input =
     [ci_checkpoint (ai_inclusion input), ci_checkpoint (ai_revocation input)] @
     (case ai_observedCheckpoints input of None \<Rightarrow> [] | Some cs \<Rightarrow> cs)"

definition check_equivocation ::
  "witness_env \<Rightarrow> AuthenticatedRevocationInput \<Rightarrow> AuthenticatedRevocationCheck list \<Rightarrow> AuthenticatedRevocationCheck list step" where
  "check_equivocation env input checks =
     (let logId = wc_log_id (ci_checkpoint (ai_inclusion input));
          federation =
            (case detectFederationSplitView env (checkpoint_set input) (ai_trustRoot input) (ai_witnessQuorum input) of
               Inl err \<Rightarrow> Inl err
             | Inr found \<Rightarrow>
                 (case found of
                    Some p \<Rightarrow>
                      if fp_log_id p = logId then
                        Inr (Inl ((reject Rejected_equivocation FederationEquivocation
                          (checks @ [auth_check ''no_equivocation'' False (FederationEquivocated (fp_tree_size p) (fp_log_id p))]))
                            \<lparr>ar_federationEquivocationProof := Some p\<rparr>))
                      else Inr (Inr (checks @ [auth_check ''no_equivocation'' True NoSplitView]))
                  | None \<Rightarrow> Inr (Inr (checks @ [auth_check ''no_equivocation'' True NoSplitView])))) in
      case detectSplitView env (checkpoint_set input) (ai_trustRoot input) of
        Inl err \<Rightarrow> Inl err
      | Inr found \<Rightarrow>
          (case found of
             Some p \<Rightarrow>
               if sp_log_id p = logId then
                 Inr (Inl ((reject Rejected_equivocation SingleWitnessEquivocation
                   (checks @ [auth_check ''no_equivocation'' False
                     (WitnessEquivocated (sp_witness_id p) (sp_tree_size p) (sp_log_id p))]))
                     \<lparr>ar_equivocationProof := Some p\<rparr>))
               else federation
           | None \<Rightarrow> federation))"

definition leaf_included :: "witness_env \<Rightarrow> 'a CheckpointInclusion_scheme \<Rightarrow> bool" where
  "leaf_included env ci \<longleftrightarrow>
     root_hash (ci_proof ci) = wc_root_hash (ci_checkpoint ci)
     \<and> verifyInclusionProof (v_hash env) (ci_leafPayload ci) (ci_proof ci) (Some (wc_root_hash (ci_checkpoint ci)))"

definition check_receipt ::
  "witness_env \<Rightarrow> AuthenticatedRevocationInput \<Rightarrow> AuthenticatedRevocationCheck list \<Rightarrow> (int \<times> AuthenticatedRevocationCheck list) step" where
  "check_receipt env input checks =
     (let i = leaf_index (ci_proof (ai_inclusion input)) in
      if \<not> leaf_included env (ai_inclusion input) then
        Inr (Inl (reject Rejected_unprovable ReceiptPositionUnproven
          (checks @ [auth_check ''receipt_inclusion'' False ReceiptNotIncluded])))
      else Inr (Inr (i, checks @ [auth_check ''receipt_inclusion'' True (ReceiptAt i)])))"

definition check_revocation ::
  "witness_env \<Rightarrow> AuthenticatedRevocationInput \<Rightarrow> int \<Rightarrow> AuthenticatedRevocationCheck list \<Rightarrow> (int \<times> AuthenticatedRevocationCheck list) step" where
  "check_revocation env input i checks =
     (let leaf = ci_leafPayload (ai_revocation input); j = leaf_index (ci_proof (ai_revocation input)) in
      case canonicalRevocationRecordPayload
             \<lparr>rec_schema_version = ledgerRevocationRecordSchemaVersion, rec_type = key_revocation,
              rec_key_id = ai_keyId input, rec_reason = revocationRecordReason env leaf\<rparr> of
        Inl err \<Rightarrow> Inl err
      | Inr expected \<Rightarrow>
          if leaf \<noteq> expected then
            Inr (Inl ((reject Rejected_unprovable RecordNotWellFormed
              (checks @ [auth_check ''revocation_record_shape'' False NotCanonicalRecord]))\<lparr>ar_receiptLeafIndex := Some i\<rparr>))
          else if \<not> leaf_included env (ai_revocation input) then
            Inr (Inl ((reject Rejected_unprovable RevocationPositionUnproven
              (checks @ [auth_check ''revocation_inclusion'' False RevocationNotIncluded]))\<lparr>ar_receiptLeafIndex := Some i\<rparr>))
          else Inr (Inr (j, checks @ [auth_check ''revocation_inclusion'' True (RevocationAt j)])))"

definition earlier_later :: "AuthenticatedRevocationInput \<Rightarrow> WitnessCheckpoint \<times> WitnessCheckpoint" where
  "earlier_later input =
     (let inclusionCp = ci_checkpoint (ai_inclusion input); revocationCp = ci_checkpoint (ai_revocation input) in
      if wc_tree_size inclusionCp \<le> wc_tree_size revocationCp then (inclusionCp, revocationCp) else (revocationCp, inclusionCp))"

definition consistency_ok :: "witness_env \<Rightarrow> AuthenticatedRevocationInput \<Rightarrow> bool" where
  "consistency_ok env input \<longleftrightarrow>
     (case earlier_later input of (earlier, later) \<Rightarrow>
        old_tree_size (ai_consistency input) = wc_tree_size earlier
        \<and> new_tree_size (ai_consistency input) = wc_tree_size later
        \<and> verifyConsistencyProof (v_hash env) (wc_root_hash earlier) (wc_root_hash later) (ai_consistency input))"

definition check_consistency ::
  "witness_env \<Rightarrow> AuthenticatedRevocationInput \<Rightarrow> int \<Rightarrow> int \<Rightarrow> AuthenticatedRevocationCheck list \<Rightarrow> AuthenticatedRevocationCheck list step" where
  "check_consistency env input i j checks =
     (if \<not> consistency_ok env input then
        Inr (Inl ((reject Rejected_unprovable NotOneLog
          (checks @ [auth_check ''append_only_consistency'' False NotConsistent]))
            \<lparr>ar_receiptLeafIndex := Some i, ar_revocationLeafIndex := Some j\<rparr>))
      else
        (case earlier_later input of (earlier, later) \<Rightarrow>
           Inr (Inr (checks @ [auth_check ''append_only_consistency'' True (Consistent (wc_tree_size earlier) (wc_tree_size later))]))))"

definition backdated :: "witness_env \<Rightarrow> AuthenticatedRevocationInput \<Rightarrow> jstr \<Rightarrow> int \<Rightarrow> int \<Rightarrow> bool" where
  "backdated env input ts i j =
     (case (v_dateParse env ts, v_dateParse env (wc_integrated_time (ci_checkpoint (ai_revocation input)))) of
        (Some claimed, Some sealed) \<Rightarrow> claimed < sealed \<and> j \<le> i
      | _ \<Rightarrow> False)"

definition detect_backdating ::
  "witness_env \<Rightarrow> AuthenticatedRevocationInput \<Rightarrow> int \<Rightarrow> int \<Rightarrow> AuthenticatedRevocationCheck list \<Rightarrow> bool \<times> AuthenticatedRevocationCheck list" where
  "detect_backdating env input i j checks =
     (case ai_receiptTimestamp input of
        None \<Rightarrow> (False, checks)
      | Some ts \<Rightarrow>
          if backdated env input ts i j
          then (True, checks @ [auth_check ''backdating_detector'' False (BackdatingSuspected ts i j)])
          else (False, checks @ [auth_check ''backdating_detector'' True NoContradiction]))"

definition decide_order ::
  "witness_env \<Rightarrow> AuthenticatedRevocationInput \<Rightarrow> int \<Rightarrow> int \<Rightarrow> AuthenticatedRevocationCheck list \<Rightarrow> AuthenticatedRevocationResult" where
  "decide_order env input i j checks =
     (case detect_backdating env input i j checks of (suspected, checks) \<Rightarrow>
        let pre = i < j in
        \<lparr>ar_verdict = pre, ar_standing = if pre then Valid_pre_revocation else Rejected_post_revocation,
         ar_receiptLeafIndex = Some i, ar_revocationLeafIndex = Some j, ar_equivocationProof = None,
         ar_federationEquivocationProof = None, ar_backdatingSuspected = suspected,
         ar_checks = checks @ [auth_check ''authenticated_order'' pre (if pre then IndexPrecedes i j else IndexAtOrAfter i j)],
         ar_detail = if pre then CommittedBefore else CommittedAtOrAfter\<rparr>)"

definition enforceAuthenticatedLedgerRevocation ::
  "witness_env \<Rightarrow> AuthenticatedRevocationInput \<Rightarrow> witness_error + AuthenticatedRevocationResult" where
  "enforceAuthenticatedLedgerRevocation env input =
     continue (check_trust_root env input) (\<lambda>checks.
     continue (check_scope input checks) (\<lambda>checks.
     continue (check_quorum env input checks) (\<lambda>checks.
     continue (check_equivocation env input checks) (\<lambda>checks.
     continue (check_receipt env input checks) (\<lambda>(i, checks).
     continue (check_revocation env input i checks) (\<lambda>(j, checks).
     continue (check_consistency env input i j checks) (\<lambda>checks.
     Inr (decide_order env input i j checks))))))))"

subsection \<open>What a permissive verdict shows\<close>

lemma continue_Inr:
  "continue st f = Inr r \<longleftrightarrow> st = Inr (Inl r) \<or> (\<exists>x. st = Inr (Inr x) \<and> f x = Inr r)"
  by (cases "(st, f)" rule: continue.cases) auto

lemma reject_refuses [simp]: "\<not> ar_verdict (reject standing detail checks)"
  by (simp add: reject_def)

lemma trust_root_step:
  "check_trust_root env input = Inr (Inl r) \<Longrightarrow> \<not> ar_verdict r"
  "check_trust_root env input = Inr (Inr cs) \<Longrightarrow>
     validateWitnessKeyManifestSemantics env (ai_trustRoot input) = Inr () \<and> 1 \<le> ai_witnessQuorum input"
  by (auto simp: check_trust_root_def split: sum.splits if_splits)

lemma scope_step:
  "check_scope input cs = Inr (Inl r) \<Longrightarrow> \<not> ar_verdict r"
  "check_scope input cs = Inr (Inr cs') \<Longrightarrow>
     ai_keyId input = ci_keyId (ai_revocation input)
     \<and> wc_log_id (ci_checkpoint (ai_inclusion input)) = wc_log_id (ci_checkpoint (ai_revocation input))"
  by (auto simp: check_scope_def Let_def split: if_splits)

lemma quorum_step:
  "check_quorum env input cs = Inr (Inl r) \<Longrightarrow> \<not> ar_verdict r"
  "check_quorum env input cs = Inr (Inr cs') \<Longrightarrow>
     \<exists>i j. countQuorumWitnesses env (ci_checkpoint (ai_inclusion input)) (ai_trustRoot input) = Inr i
       \<and> countQuorumWitnesses env (ci_checkpoint (ai_revocation input)) (ai_trustRoot input) = Inr j
       \<and> ai_witnessQuorum input \<le> int i \<and> ai_witnessQuorum input \<le> int j"
  by (auto simp: check_quorum_def split: sum.splits if_splits)

lemma equivocation_step: "check_equivocation env input cs = Inr (Inl r) \<Longrightarrow> \<not> ar_verdict r"
  by (auto simp: check_equivocation_def Let_def reject_def split: sum.splits option.splits if_splits)

lemma receipt_step:
  "check_receipt env input cs = Inr (Inl r) \<Longrightarrow> \<not> ar_verdict r"
  "check_receipt env input cs = Inr (Inr (i, cs')) \<Longrightarrow>
     leaf_included env (ai_inclusion input) \<and> i = leaf_index (ci_proof (ai_inclusion input))"
  by (auto simp: check_receipt_def Let_def split: if_splits)

lemma revocation_step:
  "check_revocation env input i cs = Inr (Inl r) \<Longrightarrow> \<not> ar_verdict r"
  "check_revocation env input i cs = Inr (Inr (j, cs')) \<Longrightarrow>
     leaf_included env (ai_revocation input) \<and> j = leaf_index (ci_proof (ai_revocation input))
     \<and> canonicalRevocationRecordPayload
         \<lparr>rec_schema_version = ledgerRevocationRecordSchemaVersion, rec_type = key_revocation, rec_key_id = ai_keyId input,
          rec_reason = revocationRecordReason env (ci_leafPayload (ai_revocation input))\<rparr> =
         Inr (ci_leafPayload (ai_revocation input))"
  by (auto simp: check_revocation_def Let_def reject_def split: if_splits sum.splits)

lemma consistency_step:
  "check_consistency env input i j cs = Inr (Inl r) \<Longrightarrow> \<not> ar_verdict r"
  "check_consistency env input i j cs = Inr (Inr cs') \<Longrightarrow> consistency_ok env input"
  by (auto simp: check_consistency_def reject_def split: if_splits prod.splits)

lemma decide_order_verdict [simp]: "ar_verdict (decide_order env input i j cs) \<longleftrightarrow> i < j"
  by (simp add: decide_order_def Let_def split: prod.splits)

lemma permissive_verdict:
  assumes "enforceAuthenticatedLedgerRevocation env input = Inr r" and "ar_verdict r"
  shows "validateWitnessKeyManifestSemantics env (ai_trustRoot input) = Inr ()" "1 \<le> ai_witnessQuorum input"
    "wc_log_id (ci_checkpoint (ai_inclusion input)) = wc_log_id (ci_checkpoint (ai_revocation input))"
    "\<exists>i. countQuorumWitnesses env (ci_checkpoint (ai_inclusion input)) (ai_trustRoot input) = Inr i \<and> ai_witnessQuorum input \<le> int i"
    "\<exists>j. countQuorumWitnesses env (ci_checkpoint (ai_revocation input)) (ai_trustRoot input) = Inr j \<and> ai_witnessQuorum input \<le> int j"
    "leaf_included env (ai_inclusion input)" "leaf_included env (ai_revocation input)"
    "canonicalRevocationRecordPayload
       \<lparr>rec_schema_version = ledgerRevocationRecordSchemaVersion, rec_type = key_revocation, rec_key_id = ai_keyId input,
        rec_reason = revocationRecordReason env (ci_leafPayload (ai_revocation input))\<rparr> =
       Inr (ci_leafPayload (ai_revocation input))"
    "consistency_ok env input"
    "leaf_index (ci_proof (ai_inclusion input)) < leaf_index (ci_proof (ai_revocation input))"
proof -
  obtain c1 c2 c3 c4 c5 c6 c7 i j where steps: "check_trust_root env input = Inr (Inr c1)" "check_scope input c1 = Inr (Inr c2)"
    "check_quorum env input c2 = Inr (Inr c3)" "check_equivocation env input c3 = Inr (Inr c4)"
    "check_receipt env input c4 = Inr (Inr (i, c5))" "check_revocation env input i c5 = Inr (Inr (j, c6))"
    "check_consistency env input i j c6 = Inr (Inr c7)" and r: "r = decide_order env input i j c7"
    using assms unfolding enforceAuthenticatedLedgerRevocation_def continue_Inr
    by (auto simp: continue_Inr dest: trust_root_step scope_step(1) quorum_step(1) equivocation_step receipt_step(1)
        revocation_step(1) consistency_step(1))
  show "validateWitnessKeyManifestSemantics env (ai_trustRoot input) = Inr ()" "1 \<le> ai_witnessQuorum input"
    using trust_root_step(2) [OF steps(1)] by simp_all
  show "wc_log_id (ci_checkpoint (ai_inclusion input)) = wc_log_id (ci_checkpoint (ai_revocation input))"
    using scope_step(2) [OF steps(2)] by simp
  show "\<exists>i. countQuorumWitnesses env (ci_checkpoint (ai_inclusion input)) (ai_trustRoot input) = Inr i \<and> ai_witnessQuorum input \<le> int i"
    "\<exists>j. countQuorumWitnesses env (ci_checkpoint (ai_revocation input)) (ai_trustRoot input) = Inr j \<and> ai_witnessQuorum input \<le> int j"
    using quorum_step(2) [OF steps(3)] by blast+
  show "leaf_included env (ai_inclusion input)" using receipt_step(2) [OF steps(5)] by simp
  show "leaf_included env (ai_revocation input)"
    "canonicalRevocationRecordPayload
       \<lparr>rec_schema_version = ledgerRevocationRecordSchemaVersion, rec_type = key_revocation, rec_key_id = ai_keyId input,
        rec_reason = revocationRecordReason env (ci_leafPayload (ai_revocation input))\<rparr> =
       Inr (ci_leafPayload (ai_revocation input))"
    using revocation_step(2) [OF steps(6)] by simp_all
  show "consistency_ok env input" by (rule consistency_step(2) [OF steps(7)])
  show "leaf_index (ci_proof (ai_inclusion input)) < leaf_index (ci_proof (ai_revocation input))"
    using assms(2) receipt_step(2) [OF steps(5)] revocation_step(2) [OF steps(6)] by (simp add: r)
qed

subsection \<open>The honest part of a quorum\<close>

text \<open>
  \<open>history l n\<close> is the content of the log \<open>l\<close> at size \<open>n\<close>, as its witnesses saw it. Nothing is assumed
  of the contents at two sizes. A checkpoint is a snapshot when its root is the root of that
  content; an honest key has signed snapshots only.
\<close>

definition snapshot :: "witness_env \<Rightarrow> (jstr \<Rightarrow> int \<Rightarrow> jstr list) \<Rightarrow> 'a UnsignedWitnessCheckpoint_scheme \<Rightarrow> bool" where
  "snapshot env history c \<longleftrightarrow>
     (let payloads = history (wc_log_id c) (wc_tree_size c) in
      js_array payloads \<and> int (length payloads) = wc_tree_size c
      \<and> computeMerkleRoot (v_hash env) payloads = Inr (wc_root_hash c))"

definition honest_key :: "witness_env \<Rightarrow> (jstr \<Rightarrow> int \<Rightarrow> jstr list) \<Rightarrow> jstr \<Rightarrow> bool" where
  "honest_key env history pem \<longleftrightarrow>
     (\<forall>payload sg. v_verify env payload sg pem = Some True \<longrightarrow>
        (\<exists>c :: UnsignedWitnessCheckpoint. payload = canonicalCheckpointPayload c \<and> snapshot env history c))"

lemma signer_ids_verified:
  "signer_ids f ss = Inr ids \<Longrightarrow> w \<in> set ids \<Longrightarrow> \<exists>s\<in>set ss. ws_witness_id s = w \<and> f s = Inr True"
  by (induction ss arbitrary: ids) (auto split: sum.splits if_splits)

lemma quorum_is_snapshot:
  assumes "countQuorumWitnesses env c m = Inr n" and "finite F" and "card F < n"
    and "\<And>e. e \<in> set (wm_witnesses m) \<Longrightarrow> we_witness_id e \<notin> F \<Longrightarrow> honest_key env history (we_public_key_pem e)"
  shows "snapshot env history c"
proof -
  obtain ids where ids: "signer_ids (\<lambda>s. signature_verifies env m c (ws_witness_id s) s) (wc_witness_signatures c) = Inr ids"
    and n: "n = card (set ids)"
    using assms(1) by (auto simp: countQuorumWitnesses_def count_signers_def length_js_set split: sum.splits)
  have "\<not> set ids \<subseteq> F" using assms(2,3) n card_mono leD by blast
  then obtain w where w: "w \<in> set ids" "w \<notin> F" by blast
  obtain s where s: "ws_witness_id s = w" "signature_verifies env m c w s = Inr True"
    using signer_ids_verified [OF ids w(1)] by auto
  obtain e t where e: "e \<in> set (wm_witnesses m)" "we_witness_id e = w"
    "v_verify env (canonicalCheckpointPayload c) (ws_signature s) (we_public_key_pem e) = Some True"
    by (rule signature_verifies_True [OF s(2)])
  then obtain d :: UnsignedWitnessCheckpoint where "canonicalCheckpointPayload c = canonicalCheckpointPayload d" "snapshot env history d"
    using assms(4) [OF e(1)] w(2) by (auto simp: honest_key_def)
  then show ?thesis using payload_inject [of c d] by (simp add: snapshot_def Let_def)
qed

subsection \<open>Authenticated order\<close>

definition cp_log :: "(jstr \<Rightarrow> int \<Rightarrow> jstr list) \<Rightarrow> 'a UnsignedWitnessCheckpoint_scheme \<Rightarrow> jstr list" where
  "cp_log history c = history (wc_log_id c) (wc_tree_size c)"

definition order_texts :: "witness_env \<Rightarrow> (jstr \<Rightarrow> int \<Rightarrow> jstr list) \<Rightarrow> AuthenticatedRevocationInput \<Rightarrow> jstr list" where
  "order_texts env history input =
     (let h = v_hash env; inc = ai_inclusion input; rev = ai_revocation input in
      inclusion_texts h (cp_log history (ci_checkpoint inc)) (ci_leafPayload inc) (ci_proof inc) @
      inclusion_texts h (cp_log history (ci_checkpoint rev)) (ci_leafPayload rev) (ci_proof rev) @
      (case earlier_later input of (earlier, later) \<Rightarrow>
         consistency_texts h (cp_log history earlier) (cp_log history later) (wc_root_hash earlier) (ai_consistency input)))"

lemma snapshot_leaf:
  assumes "hex_digests (v_hash env)" and "snapshot env history (ci_checkpoint ci)" and "leaf_included env ci"
    and "tree_size (ci_proof ci) = wc_tree_size (ci_checkpoint ci)"
    and "collision_free (v_hash env) (inclusion_texts (v_hash env) (cp_log history (ci_checkpoint ci)) (ci_leafPayload ci) (ci_proof ci))"
  shows "0 \<le> leaf_index (ci_proof ci)" "nat (leaf_index (ci_proof ci)) < length (cp_log history (ci_checkpoint ci))"
    "cp_log history (ci_checkpoint ci) ! nat (leaf_index (ci_proof ci)) = ci_leafPayload ci"
  using included_payload [OF assms(1) _ _ _ _ assms(5), of "wc_root_hash (ci_checkpoint ci)"] assms(2-4)
  by (auto simp: snapshot_def leaf_included_def Let_def cp_log_def nat_less_iff)

lemma snapshot_prefix:
  assumes "hex_digests (v_hash env)" and "consistency_ok env input" and "earlier_later input = (earlier, later)"
    and "snapshot env history earlier" and "snapshot env history later"
    and "collision_free (v_hash env)
      (consistency_texts (v_hash env) (cp_log history earlier) (cp_log history later) (wc_root_hash earlier) (ai_consistency input))"
  shows "length (cp_log history earlier) \<le> length (cp_log history later)
    \<and> cp_log history earlier = take (length (cp_log history earlier)) (cp_log history later)"
  using consistent_prefix [OF assms(1) _ _ _ _ _ _ _ assms(6), of "wc_root_hash later"] assms(2-5)
  by (auto simp: snapshot_def consistency_ok_def Let_def cp_log_def)

lemma receipt_precedes_record:
  assumes "hex_digests (v_hash env)"
    and "enforceAuthenticatedLedgerRevocation env input = Inr r" and "ar_verdict r"
    and "finite F" and "int (card F) < ai_witnessQuorum input"
    and "\<And>e. e \<in> set (wm_witnesses (ai_trustRoot input)) \<Longrightarrow> we_witness_id e \<notin> F \<Longrightarrow> honest_key env history (we_public_key_pem e)"
    and "tree_size (ci_proof (ai_inclusion input)) = wc_tree_size (ci_checkpoint (ai_inclusion input))"
    and "tree_size (ci_proof (ai_revocation input)) = wc_tree_size (ci_checkpoint (ai_revocation input))"
    and "collision_free (v_hash env) (order_texts env history input)"
  defines "log \<equiv> cp_log history (snd (earlier_later input))"
  defines "i \<equiv> nat (leaf_index (ci_proof (ai_inclusion input)))" and "j \<equiv> nat (leaf_index (ci_proof (ai_revocation input)))"
  shows "i < j \<and> j < length log \<and> log ! i = ci_leafPayload (ai_inclusion input) \<and> log ! j = ci_leafPayload (ai_revocation input)"
proof -
  note ok = permissive_verdict [OF assms(2,3)]
  let ?inc = "ai_inclusion input" and ?rev = "ai_revocation input"
  obtain n1 n2 where counts: "countQuorumWitnesses env (ci_checkpoint ?inc) (ai_trustRoot input) = Inr n1" "card F < n1"
    "countQuorumWitnesses env (ci_checkpoint ?rev) (ai_trustRoot input) = Inr n2" "card F < n2"
    using ok(4,5) assms(5) by auto
  have snap: "snapshot env history (ci_checkpoint ?inc)" "snapshot env history (ci_checkpoint ?rev)"
    using quorum_is_snapshot [OF counts(1) assms(4) counts(2) assms(6)]
      quorum_is_snapshot [OF counts(3) assms(4) counts(4) assms(6)] by simp_all
  obtain earlier later where el: "earlier_later input = (earlier, later)" by force
  have texts: "collision_free (v_hash env) ts" if "set ts \<subseteq> set (order_texts env history input)" for ts
    using assms(9) that by (rule collision_free_mono)
  note inc = snapshot_leaf [OF assms(1) snap(1) ok(6) assms(7) texts]
    and rev = snapshot_leaf [OF assms(1) snap(2) ok(7) assms(8) texts]
  have facts: "i < length (cp_log history (ci_checkpoint ?inc))" "cp_log history (ci_checkpoint ?inc) ! i = ci_leafPayload ?inc"
    "j < length (cp_log history (ci_checkpoint ?rev))" "cp_log history (ci_checkpoint ?rev) ! j = ci_leafPayload ?rev" "i < j"
    using inc rev ok(10) by (auto simp: i_def j_def order_texts_def Let_def)
  have pair: "snapshot env history earlier" "snapshot env history later" "log = cp_log history later"
    using el snap by (auto simp: earlier_later_def Let_def log_def split: if_splits)
  have prefix: "length (cp_log history earlier) \<le> length log" "cp_log history earlier = take (length (cp_log history earlier)) log"
    using snapshot_prefix [OF assms(1) ok(9) el pair(1,2) texts] by (auto simp: pair(3) order_texts_def el Let_def)
  have inside: "k < length log \<and> log ! k = cp_log history c ! k"
    if "c \<in> {earlier, later}" "k < length (cp_log history c)" for c k
    using that prefix pair(3) by (metis insert_iff nth_take order_less_le_trans singletonD)
  have "{ci_checkpoint ?inc, ci_checkpoint ?rev} = {earlier, later}"
    using el by (auto simp: earlier_later_def Let_def split: if_splits)
  then have mem: "ci_checkpoint ?inc \<in> {earlier, later}" "ci_checkpoint ?rev \<in> {earlier, later}" by blast+
  show ?thesis using inside [OF mem(1) facts(1)] inside [OF mem(2) facts(3)] facts by simp
qed

text \<open>
  Claim C12. Authenticated order: let fewer witnesses of the trust root than the quorum be faulty, every other
  key having signed only roots of what the log held at the stated size. If
  \<open>enforceAuthenticatedLedgerRevocation\<close> finds the receipt valid before the revocation, for
  inclusion proofs that state the sizes of their checkpoints, then one log, that of the later
  checkpoint, holds the receipt's leaf at an index strictly before the leaf of the key's canonical
  revocation record.
\<close>

theorem authenticated_order:
  assumes "hex_digests (v_hash env)"
    and "enforceAuthenticatedLedgerRevocation env input = Inr r" and "ar_verdict r"
    and "finite F" and "int (card F) < ai_witnessQuorum input"
    and "\<And>e. e \<in> set (wm_witnesses (ai_trustRoot input)) \<Longrightarrow> we_witness_id e \<notin> F \<Longrightarrow> honest_key env history (we_public_key_pem e)"
    and "tree_size (ci_proof (ai_inclusion input)) = wc_tree_size (ci_checkpoint (ai_inclusion input))"
    and "tree_size (ci_proof (ai_revocation input)) = wc_tree_size (ci_checkpoint (ai_revocation input))"
    and "collision_free (v_hash env) (order_texts env history input)"
  shows "\<exists>i j reason. i < j \<and> j < length (cp_log history (snd (earlier_later input)))
    \<and> cp_log history (snd (earlier_later input)) ! i = ci_leafPayload (ai_inclusion input)
    \<and> canonicalRevocationRecordPayload
        \<lparr>rec_schema_version = ledgerRevocationRecordSchemaVersion, rec_type = key_revocation, rec_key_id = ai_keyId input,
         rec_reason = reason\<rparr> =
        Inr (cp_log history (snd (earlier_later input)) ! j)"
  using receipt_precedes_record [OF assms] permissive_verdict(8) [OF assms(2,3)] by metis

subsection \<open>The timestamp\<close>

definition decision ::
  "witness_error + AuthenticatedRevocationResult \<Rightarrow>
     witness_error + (bool \<times> AuthenticatedRevocationStanding \<times> int option \<times> int option \<times> outcome_detail)" where
  "decision = map_sum id (\<lambda>r. (ar_verdict r, ar_standing r, ar_receiptLeafIndex r, ar_revocationLeafIndex r, ar_detail r))"

lemma decision_continue:
  assumes "\<And>x. decision (f x) = decision (g x)"
  shows "decision (continue st f) = decision (continue st g)"
  using assms by (cases "(st, f)" rule: continue.cases) auto

lemma steps_ignore_timestamp:
  "check_trust_root env (input\<lparr>ai_receiptTimestamp := ts\<rparr>) = check_trust_root env input"
  "check_scope (input\<lparr>ai_receiptTimestamp := ts\<rparr>) cs = check_scope input cs"
  "check_quorum env (input\<lparr>ai_receiptTimestamp := ts\<rparr>) cs = check_quorum env input cs"
  "check_equivocation env (input\<lparr>ai_receiptTimestamp := ts\<rparr>) cs = check_equivocation env input cs"
  "check_receipt env (input\<lparr>ai_receiptTimestamp := ts\<rparr>) cs = check_receipt env input cs"
  "check_revocation env (input\<lparr>ai_receiptTimestamp := ts\<rparr>) i cs = check_revocation env input i cs"
  "check_consistency env (input\<lparr>ai_receiptTimestamp := ts\<rparr>) i j cs = check_consistency env input i j cs"
  by (simp_all add: check_trust_root_def check_scope_def check_quorum_def check_equivocation_def checkpoint_set_def
      check_receipt_def check_revocation_def check_consistency_def consistency_ok_def earlier_later_def Let_def
      cong: if_cong sum.case_cong option.case_cong prod.case_cong)

lemma decide_order_decision:
  "decision (Inr (decide_order env input i j cs)) =
     Inr (i < j, if i < j then Valid_pre_revocation else Rejected_post_revocation, Some i, Some j,
       if i < j then CommittedBefore else CommittedAtOrAfter)"
  by (simp add: decision_def decide_order_def Let_def split: prod.splits)

text \<open>
  The signer's own timestamp never decides: whatever it is, and also when it is left out,
  \<open>enforceAuthenticatedLedgerRevocation\<close> raises the same error or returns the same verdict, standing,
  indices and reason.
\<close>

theorem timestamp_never_decides:
  "decision (enforceAuthenticatedLedgerRevocation env (input\<lparr>ai_receiptTimestamp := ts\<rparr>)) =
     decision (enforceAuthenticatedLedgerRevocation env input)"
  unfolding enforceAuthenticatedLedgerRevocation_def steps_ignore_timestamp
  by (intro decision_continue) (auto simp: steps_ignore_timestamp decide_order_decision intro!: decision_continue split: prod.splits)

subsection \<open>Signatures in front of the signatures\<close>

text \<open>Every witness id of a checkpoint gets a worthless signature in front of the real ones.\<close>

definition with_decoys :: "jstr \<Rightarrow> WitnessCheckpoint \<Rightarrow> WitnessCheckpoint" where
  "with_decoys sg c =
     c\<lparr>wc_witness_signatures := map (\<lambda>s. s\<lparr>ws_signature := sg\<rparr>) (wc_witness_signatures c) @ wc_witness_signatures c\<rparr>"

lemma with_decoys_payload [simp]: "canonicalCheckpointPayload (with_decoys sg c) = canonicalCheckpointPayload c"
  by (simp add: canonicalCheckpointPayload_def checkpoint_object_def with_decoys_def)

lemma with_decoys_verifies [simp]: "signature_verifies env m (with_decoys sg c) w s = signature_verifies env m c w s"
  unfolding signature_verifies_def with_decoys_payload by (simp add: with_decoys_def)

lemma decoy_fails:
  assumes "\<And>payload pem. v_verify env payload sg pem = Some False"
  shows "signature_verifies env m c w (s\<lparr>ws_signature := sg\<rparr>) = Inr False"
  using assms by (simp add: signature_verifies_def verifyCheckpointSignature_def split: option.splits)

lemma decoys_hide_witness:
  assumes "\<And>payload pem. v_verify env payload sg pem = Some False"
  shows "witnessSignatureVerifies env (with_decoys sg c) w m = Inr False"
proof (cases "List.find (\<lambda>s. ws_witness_id s = w) (wc_witness_signatures c)")
  case None
  then have "\<forall>s\<in>set (wc_witness_signatures c). ws_witness_id s \<noteq> w" by (simp add: find_None_iff)
  then have "List.find (\<lambda>s. ws_witness_id s = w) (wc_witness_signatures (with_decoys sg c)) = None"
    by (auto simp: find_None_iff with_decoys_def)
  then show ?thesis by (simp add: witnessSignatureVerifies_def)
next
  case (Some s)
  have "List.find P (map (\<lambda>s. s\<lparr>ws_signature := sg\<rparr>) ss @ ss') = Some (s\<lparr>ws_signature := sg\<rparr>)"
    if "List.find P ss = Some s" "\<And>s. P (s\<lparr>ws_signature := sg\<rparr>) = P s" for ss ss' P
    using that by (induction ss) (auto split: if_splits)
  then have "List.find (\<lambda>s. ws_witness_id s = w) (wc_witness_signatures (with_decoys sg c)) = Some (s\<lparr>ws_signature := sg\<rparr>)"
    using Some by (simp add: with_decoys_def)
  then show ?thesis using decoy_fails [OF assms] by (simp add: witnessSignatureVerifies_def)
qed

lemma signer_ids_skip:
  "(\<And>s. s \<in> set xs \<Longrightarrow> f s = Inr False) \<Longrightarrow> signer_ids f (xs @ ys) = signer_ids f ys"
  by (induction xs) (auto split: sum.splits)

lemma decoys_keep_quorum:
  assumes "\<And>payload pem. v_verify env payload sg pem = Some False"
  shows "countQuorumWitnesses env (with_decoys sg c) m = countQuorumWitnesses env c m"
proof -
  have "signer_ids (\<lambda>s. signature_verifies env m c (ws_witness_id s) s)
      (map (\<lambda>s. s\<lparr>ws_signature := sg\<rparr>) (wc_witness_signatures c) @ wc_witness_signatures c) =
      signer_ids (\<lambda>s. signature_verifies env m c (ws_witness_id s) s) (wc_witness_signatures c)"
    by (rule signer_ids_skip) (auto simp: decoy_fails [OF assms])
  moreover have "wc_witness_signatures (with_decoys sg c) =
      map (\<lambda>s. s\<lparr>ws_signature := sg\<rparr>) (wc_witness_signatures c) @ wc_witness_signatures c"
    by (simp add: with_decoys_def)
  ultimately show ?thesis by (simp add: countQuorumWitnesses_def count_signers_def)
qed

lemma first_valid_None:
  "(\<And>p. p \<in> set ps \<Longrightarrow> \<exists>v. verify p = Inr v \<and> \<not> fv_valid v) \<Longrightarrow> first_valid verify ps = Inr None"
  by (induction ps) (fastforce split: sum.splits)+

lemma bucket_members:
  "(k, b) \<in> set (checkpoint_buckets cs) \<Longrightarrow> set b \<subseteq> set cs"
proof (induction cs arbitrary: k b rule: rev_induct)
  case (snoc c cs)
  let ?b = "case map_of (checkpoint_buckets cs) (bucket_key c) of None \<Rightarrow> [] | Some b \<Rightarrow> b"
  have "checkpoint_buckets (cs @ [c]) = AList.update (bucket_key c) (?b @ [c]) (checkpoint_buckets cs)"
    by (simp add: checkpoint_buckets_def)
  then have "(k, b) \<in> insert (bucket_key c, ?b @ [c]) (set (checkpoint_buckets cs))"
    using snoc.prems set_update_subset by fastforce
  moreover have "set ?b \<subseteq> set cs"
    using snoc.IH map_of_SomeD [of "checkpoint_buckets cs" "bucket_key c"]
    by (cases "map_of (checkpoint_buckets cs) (bucket_key c)") auto
  ultimately show ?case using snoc.IH by fastforce
qed (simp add: checkpoint_buckets_def)


subsection \<open>A restated index\<close>

text \<open>The last of four leaves and the last of six have the same sides on their audit paths.\<close>

lemma same_sides:
  "inclusionPathPositionsForRange 3 0 4 = Inr [PLeft, PLeft]" "inclusionPathPositionsForRange 5 0 6 = Inr [PLeft, PLeft]"
  by code_simp+

lemma restated_verifies:
  assumes "verifyInclusionProof h payload p (Some root)" and "tree_size p = 4" and "leaf_index p = 3"
  shows "verifyInclusionProof h payload (p\<lparr>tree_size := 6, leaf_index := 5\<rparr>) (Some root)"
proof -
  have "assertValidLeafIndex 3 4 = Inr ()" "assertValidLeafIndex 5 6 = Inr ()" by code_simp+
  then have "verifyInclusionProof h payload (p\<lparr>tree_size := 6, leaf_index := 5\<rparr>) (Some root) = verifyInclusionProof h payload p (Some root)"
    using assms(2,3) same_sides
    by (simp add: verifyInclusionProof_def verifyInclusionProofFromLeafHash_def cong: if_cong sum.case_cong option.case_cong)
  then show ?thesis using assms(1) by simp
qed

text \<open>What the steps before the inclusion proofs ask of the input.\<close>

definition authenticated :: "witness_env \<Rightarrow> AuthenticatedRevocationInput \<Rightarrow> bool" where
  "authenticated env input \<longleftrightarrow>
     (\<exists>c1 c2 c3 c4. check_trust_root env input = Inr (Inr c1) \<and> check_scope input c1 = Inr (Inr c2)
        \<and> check_quorum env input c2 = Inr (Inr c3) \<and> check_equivocation env input c3 = Inr (Inr c4))"

lemma authenticated_decision:
  assumes "authenticated env input" and "leaf_included env (ai_inclusion input)" and "leaf_included env (ai_revocation input)"
    and "canonicalRevocationRecordPayload
       \<lparr>rec_schema_version = ledgerRevocationRecordSchemaVersion, rec_type = key_revocation, rec_key_id = ai_keyId input,
        rec_reason = revocationRecordReason env (ci_leafPayload (ai_revocation input))\<rparr> =
       Inr (ci_leafPayload (ai_revocation input))"
    and "consistency_ok env input"
  shows "\<exists>r. enforceAuthenticatedLedgerRevocation env input = Inr r
    \<and> (ar_verdict r \<longleftrightarrow> leaf_index (ci_proof (ai_inclusion input)) < leaf_index (ci_proof (ai_revocation input)))"
proof -
  obtain c1 c2 c3 c4 where steps: "check_trust_root env input = Inr (Inr c1)" "check_scope input c1 = Inr (Inr c2)"
    "check_quorum env input c2 = Inr (Inr c3)" "check_equivocation env input c3 = Inr (Inr c4)"
    using assms(1) by (auto simp: authenticated_def)
  obtain earlier later where "earlier_later input = (earlier, later)" by force
  then show ?thesis
    using steps assms(2-5)
    by (simp add: enforceAuthenticatedLedgerRevocation_def check_receipt_def check_revocation_def check_consistency_def Let_def)
qed

definition restate :: "AuthenticatedRevocationInput \<Rightarrow> AuthenticatedRevocationInput" where
  "restate input = input\<lparr>ai_revocation := (ai_revocation input)
     \<lparr>ci_proof := (ci_proof (ai_revocation input))\<lparr>tree_size := 6, leaf_index := 5\<rparr>\<rparr>\<rparr>"

lemma restate_fields [simp]:
  "ai_inclusion (restate input) = ai_inclusion input" "ai_keyId (restate input) = ai_keyId input"
  "ci_leafPayload (ai_revocation (restate input)) = ci_leafPayload (ai_revocation input)"
  "ci_checkpoint (ai_revocation (restate input)) = ci_checkpoint (ai_revocation input)"
  "ci_proof (ai_revocation (restate input)) = (ci_proof (ai_revocation input))\<lparr>tree_size := 6, leaf_index := 5\<rparr>"
  "ai_trustRoot (restate input) = ai_trustRoot input" "ai_witnessQuorum (restate input) = ai_witnessQuorum input"
  "ci_keyId (ai_revocation (restate input)) = ci_keyId (ai_revocation input)"
  "ai_consistency (restate input) = ai_consistency input" "ai_observedCheckpoints (restate input) = ai_observedCheckpoints input"
  by (simp_all add: restate_def)

lemma restate_steps:
  "check_trust_root env (restate input) = check_trust_root env input"
  "check_scope (restate input) cs = check_scope input cs"
  "check_quorum env (restate input) cs = check_quorum env input cs"
  "check_equivocation env (restate input) cs = check_equivocation env input cs"
  "consistency_ok env (restate input) = consistency_ok env input"
  by (simp_all add: check_trust_root_def check_scope_def check_quorum_def check_equivocation_def checkpoint_set_def
      consistency_ok_def earlier_later_def Let_def cong: if_cong sum.case_cong option.case_cong prod.case_cong)


subsection \<open>Witnesses\<close>

lemma sample_count: "countQuorumWitnesses sample_env (sample_head root n) sample_manifest = Inr 1"
  using sample_signature [of root n]
  by (simp add: countQuorumWitnesses_def count_signers_def sample_head_signatures js_set_def)

lemma empty_signature_fails: "v_verify sample_env payload [] pem = Some False"
  by (simp add: sample_env_def)


definition sample_record :: jstr where
  "sample_record = print_val (JObj [(js ''key_id'', JStr (js ''k'')),
     (js ''schema_version'', JStr ledgerRevocationRecordSchemaVersion), (js ''type'', JStr key_revocation)])"

lemma sample_record_canonical:
  "canonicalRevocationRecordPayload
     \<lparr>rec_schema_version = ledgerRevocationRecordSchemaVersion, rec_type = key_revocation, rec_key_id = js ''k'', rec_reason = None\<rparr> =
     Inr sample_record"
  by (simp add: canonicalRevocationRecordPayload_def sample_record_def)

definition five_leaves :: "jstr list" where
  "five_leaves = [js ''a'', js ''b'', js ''c'', sample_record, js ''r'']"

definition hashed :: "nat \<Rightarrow> jstr list" where
  "hashed n = map (leafHash sample_digest) (take n five_leaves)"

definition restated_input :: AuthenticatedRevocationInput where
  "restated_input = \<lparr>ai_keyId = js ''k'', ai_receiptTimestamp = None, ai_trustRoot = sample_manifest, ai_witnessQuorum = 1,
     ai_inclusion = \<lparr>ci_checkpoint = sample_head (mth (hnode sample_digest) (hashed 5)) 5, ci_leafPayload = js ''r'',
        ci_proof = proof_of sample_digest 4 (hashed 5)\<rparr>,
     ai_revocation = \<lparr>ci_checkpoint = sample_head (mth (hnode sample_digest) (hashed 4)) 4, ci_leafPayload = sample_record,
        ci_proof = proof_of sample_digest 3 (hashed 4), ci_keyId = js ''k''\<rparr>,
     ai_consistency = (case getConsistencyProof sample_digest 4 five_leaves of
        Inr p \<Rightarrow> p | Inl _ \<Rightarrow> \<lparr>old_tree_size = 0, new_tree_size = 0, consistency_path = []\<rparr>),
     ai_observedCheckpoints = None\<rparr>"

lemma other_sizes_no_split_view:
  assumes "m \<noteq> n"
  shows "detectSplitView env [sample_head r m, sample_head s n] man = Inr None"
    "detectFederationSplitView env [sample_head r m, sample_head s n] man q = Inr None"
  using assms
  by (simp_all add: detectSplitView_def witness_groups_def add_to_group_def sample_head_signatures group_key_inject
      split_view_candidates_def conflicting_pairs_def detectFederationSplitView_def checkpoint_buckets_def bucket_key_inject
      federation_candidates_def)

lemma restated_authenticated: "authenticated sample_env restated_input"
proof -
  have "is_safe_integer 1" by code_simp
  then show ?thesis
    by (simp add: authenticated_def check_trust_root_def sample_epoch(2) check_scope_def check_quorum_def sample_count
        check_equivocation_def checkpoint_set_def other_sizes_no_split_view restated_input_def Let_def)
qed


text \<open>A digest, an environment and a log of two leaves for the order theorem.\<close>

definition pair_digest :: "jstr \<Rightarrow> jstr" where
  "pair_digest x =
     (if x = js ''ghostark.leaf.v1:'' @ js ''r'' then digest_of 1
      else if x = js ''ghostark.leaf.v1:'' @ sample_record then digest_of 2 else digest_of 3)"

definition two_leaves :: "jstr list" where
  "two_leaves = [js ''r'', sample_record]"

definition pair_head :: WitnessCheckpoint where
  "pair_head = sample_head (digest_of 3) 2"

definition order_env :: witness_env where
  "order_env = sample_env\<lparr>v_hash := pair_digest,
     v_verify := \<lambda>payload sg key. Some (sg = key @ payload \<and> payload = canonicalCheckpointPayload pair_head)\<rparr>"

definition order_proof :: "nat \<Rightarrow> MerkleInclusionProof" where
  "order_proof i = proof_of pair_digest i (map (leafHash pair_digest) two_leaves)"

definition order_input :: AuthenticatedRevocationInput where
  "order_input = \<lparr>ai_keyId = js ''k'', ai_receiptTimestamp = None, ai_trustRoot = sample_manifest, ai_witnessQuorum = 1,
     ai_inclusion = \<lparr>ci_checkpoint = pair_head, ci_leafPayload = js ''r'', ci_proof = order_proof 0\<rparr>,
     ai_revocation = \<lparr>ci_checkpoint = pair_head, ci_leafPayload = sample_record, ci_proof = order_proof 1, ci_keyId = js ''k''\<rparr>,
     ai_consistency = \<lparr>old_tree_size = 2, new_tree_size = 2, consistency_path = []\<rparr>,
     ai_observedCheckpoints = None\<rparr>"

lemma hex_digest_of: "hex64 (digest_of v)"
proof -
  have "is_lower_hex 48" by (simp add: is_lower_hex_def is_digit_def)
  then show ?thesis by (simp add: hex64_def digest_of_def is_lower_hex_hex_digit list_all_append list_all_replicate)
qed

lemma hex_digests_pair: "hex_digests pair_digest"
  by (simp add: hex_digests_def pair_digest_def hex_digest_of)

lemma pair_texts_apart:
  "js ''r'' \<noteq> sample_record" "js ''ghostark.leaf.v1:'' @ x \<noteq> node_text l r" "node_text l r \<noteq> js ''ghostark.leaf.v1:'' @ x"
proof -
  have "hd (js ''r'') \<noteq> 123" by code_simp
  moreover have "hd sample_record = 123" by (simp add: sample_record_def)
  ultimately show "js ''r'' \<noteq> sample_record" by metis
qed (auto simp: js_def node_text_def)

lemma pair_hashes:
  "leafHash pair_digest (js ''r'') = digest_of 1" "leafHash pair_digest sample_record = digest_of 2"
  "hnode pair_digest l r = digest_of 3"
  using pair_texts_apart by (auto simp: leafHash_def pair_digest_def hnode_def)

lemma pair_pow: "pow2_below 2 = 1" "pow2_below (Suc (Suc 0)) = Suc 0"
  by code_simp+

lemma pair_collision_free:
  assumes "set ts \<subseteq> {js ''ghostark.leaf.v1:'' @ js ''r'', js ''ghostark.leaf.v1:'' @ sample_record, node_text (digest_of 1) (digest_of 2)}"
  shows "collision_free pair_digest ts"
proof -
  have "distinct [digest_of 1, digest_of 2, digest_of 3]" by code_simp
  moreover have "map pair_digest [js ''ghostark.leaf.v1:'' @ js ''r'', js ''ghostark.leaf.v1:'' @ sample_record, node_text (digest_of 1) (digest_of 2)] =
      [digest_of 1, digest_of 2, digest_of 3]"
    using pair_texts_apart by (simp add: pair_digest_def)
  ultimately have "distinct (map pair_digest
      [js ''ghostark.leaf.v1:'' @ js ''r'', js ''ghostark.leaf.v1:'' @ sample_record, node_text (digest_of 1) (digest_of 2)])" by simp
  then show ?thesis by (rule collision_free_distinct) (use assms in simp)
qed

lemma order_texts_pair:
  "set (order_texts order_env (\<lambda>l n. two_leaves) order_input) \<subseteq>
     {js ''ghostark.leaf.v1:'' @ js ''r'', js ''ghostark.leaf.v1:'' @ sample_record, node_text (digest_of 1) (digest_of 2)}"
  by (simp add: order_texts_def order_env_def order_input_def cp_log_def inclusion_texts_def consistency_texts_def earlier_later_def
      two_leaves_def order_proof_def proof_of_def path_of.simps mth_texts.simps verify_texts.simps leaf_texts_def pair_pow pair_hashes
      mth.simps Let_def)

lemma pair_root: "computeMerkleRoot pair_digest two_leaves = Inr (digest_of 3)"
  using payload_root [OF hex_digests_pair, of two_leaves]
  by (simp add: two_leaves_def js_array_def mth.simps pair_pow pair_hashes)

lemma pair_snapshot: "snapshot order_env (\<lambda>l n. two_leaves) pair_head"
  by (simp add: snapshot_def order_env_def pair_head_def pair_root Let_def) (simp add: two_leaves_def js_array_def)

lemma pair_honest: "honest_key order_env (\<lambda>l n. two_leaves) pem"
proof -
  have "canonicalCheckpointPayload pair_head = canonicalCheckpointPayload (UnsignedWitnessCheckpoint.truncate pair_head)"
    "snapshot order_env (\<lambda>l n. two_leaves) (UnsignedWitnessCheckpoint.truncate pair_head)"
    using pair_snapshot
    by (simp_all add: canonicalCheckpointPayload_def checkpoint_object_def snapshot_def UnsignedWitnessCheckpoint.defs)
  then show ?thesis by (auto simp: honest_key_def order_env_def)
qed

lemma order_same_dates: "v_dateParse order_env = v_dateParse sample_env"
  by (simp add: order_env_def)

lemma epoch_by_dates:
  assumes "v_dateParse env = v_dateParse env'"
  shows "validateWitnessKeyManifestSemantics env m = validateWitnessKeyManifestSemantics env' m"
    "verifyWitnessKeyManifestEpoch env m w alg t = verifyWitnessKeyManifestEpoch env' m w alg t"
proof -
  have "check_witnesses env seen i es = check_witnesses env' seen i es" for seen i es
    using assms by (induction env seen i es rule: check_witnesses.induct) (simp add: parsed_date_def Let_def cong: if_cong option.case_cong)+
  then show valid: "validateWitnessKeyManifestSemantics env m = validateWitnessKeyManifestSemantics env' m"
    using assms by (simp add: validateWitnessKeyManifestSemantics_def)
  show "verifyWitnessKeyManifestEpoch env m w alg t = verifyWitnessKeyManifestEpoch env' m w alg t"
    using assms valid by (simp add: verifyWitnessKeyManifestEpoch_def parsed_date_def cong: if_cong sum.case_cong option.case_cong)
qed

lemma order_count: "countQuorumWitnesses order_env pair_head sample_manifest = Inr 1"
proof -
  have "wk_passed (verifyWitnessKeyManifestEpoch order_env sample_manifest (js ''w'') ecdsa (js ''5''))"
    using sample_epoch(1) epoch_by_dates(2) [OF order_same_dates] by simp
  then have "signature_verifies order_env sample_manifest pair_head (js ''w'') (hd (wc_witness_signatures pair_head)) = Inr True"
    by (simp add: pair_head_def signature_verifies_def sample_head_signatures sample_found verifyCheckpointSignature_def
        order_env_def sample_entry_def flip: js_append)
  then show ?thesis
    by (simp add: pair_head_def countQuorumWitnesses_def count_signers_def sample_head_signatures js_set_def)
qed

lemma same_head_no_split_view:
  "detectSplitView env [sample_head r n, sample_head r n] m = Inr None"
  "detectFederationSplitView env [sample_head r n, sample_head r n] m q = Inr None"
  by (simp_all add: detectSplitView_def witness_groups_def add_to_group_def sample_head_signatures
      split_view_candidates_def conflicting_pairs_def detectFederationSplitView_def checkpoint_buckets_def federation_candidates_def)

lemma order_accepted:
  obtains r where "enforceAuthenticatedLedgerRevocation order_env order_input = Inr r" "ar_verdict r"
proof -
  have "is_safe_integer 1" by code_simp
  moreover have "validateWitnessKeyManifestSemantics order_env sample_manifest = Inr ()"
    using sample_epoch(2) epoch_by_dates(1) [OF order_same_dates] by simp
  ultimately have auth: "authenticated order_env order_input"
    using same_head_no_split_view [of order_env "digest_of 3" 2 sample_manifest]
    by (simp add: authenticated_def check_trust_root_def check_scope_def check_quorum_def order_count
        check_equivocation_def checkpoint_set_def order_input_def Let_def pair_head_def [symmetric])
  have arr: "js_array two_leaves" "0 < length two_leaves" "1 < length two_leaves" by (simp_all add: two_leaves_def js_array_def)
  note first = inclusion_round_trip [OF hex_digests_pair arr(1,2)] and second = inclusion_round_trip [OF hex_digests_pair arr(1,3)]
  have root: "mth (hnode pair_digest) (map (leafHash pair_digest) two_leaves) = digest_of 3" using first(2) pair_root by simp
  have env: "v_hash order_env = pair_digest" by (simp add: order_env_def)
  have leaves: "two_leaves ! 0 = js ''r''" "two_leaves ! 1 = sample_record" by (simp_all add: two_leaves_def)
  have inc: "leaf_included order_env (ai_inclusion order_input)" "leaf_included order_env (ai_revocation order_input)"
    using first(3) [of "Some (digest_of 3)"] second(3) [of "Some (digest_of 3)"] leaves root
    by (simp_all add: leaf_included_def order_input_def env pair_head_def order_proof_def proof_of_def)
  have recorded: "canonicalRevocationRecordPayload
       \<lparr>rec_schema_version = ledgerRevocationRecordSchemaVersion, rec_type = key_revocation, rec_key_id = ai_keyId order_input,
        rec_reason = revocationRecordReason order_env (ci_leafPayload (ai_revocation order_input))\<rparr> =
       Inr (ci_leafPayload (ai_revocation order_input))"
    using sample_record_canonical by (simp add: order_input_def revocationRecordReason_def order_env_def sample_env_def)
  have "assertTreeSize 2 = Inr ()" by code_simp
  then have "consistency_ok order_env order_input"
    by (simp add: consistency_ok_def earlier_later_def order_input_def pair_head_def verifyConsistencyProof_def hex_digest_of Let_def)
  from authenticated_decision [OF auth inc recorded this] show ?thesis
    using that by (auto simp: order_input_def order_proof_def proof_of_def)
qed

theorem authenticated_order_witness:
  "\<exists>i j reason. i < j \<and> j < length two_leaves \<and> two_leaves ! i = js ''r''
    \<and> canonicalRevocationRecordPayload
        \<lparr>rec_schema_version = ledgerRevocationRecordSchemaVersion, rec_type = key_revocation, rec_key_id = js ''k'', rec_reason = reason\<rparr> =
        Inr (two_leaves ! j)"
proof -
  obtain r where r: "enforceAuthenticatedLedgerRevocation order_env order_input = Inr r" "ar_verdict r" by (rule order_accepted)
  have hex: "hex_digests (v_hash order_env)" using hex_digests_pair by (simp add: order_env_def)
  have free: "collision_free (v_hash order_env) (order_texts order_env (\<lambda>l n. two_leaves) order_input)"
    using pair_collision_free [OF order_texts_pair] by (simp add: order_env_def)
  have sizes: "tree_size (order_proof i) = wc_tree_size pair_head" for i
    by (simp add: order_proof_def proof_of_def pair_head_def two_leaves_def)
  show ?thesis
    using authenticated_order [OF hex r _ _ pair_honest _ _ free, of "{}"] sizes
    by (simp add: order_input_def cp_log_def)
qed

end
