(* ===== verification/GL_Formula.thy ===== *)
theory GL_Formula
  imports Prelude Js_Text
begin

text \<open>
  Modal formulas and their Kripke semantics: \<open>lobian/formula.ts\<close> and \<open>lobian/kripke.ts\<close> of
  \<open>packages/research-frontier/src\<close>. A valuation is the list of its own properties; reading a world through
  the prototype of the record is not modelled. Edge keys are the strings the code builds, with the character zero
  between the two worlds.
\<close>

subsection \<open>Formulas\<close>

datatype Formula =
    FAtom jstr | FTop | FBot | FNot Formula | FAnd Formula Formula | FOr Formula Formula
  | FImp Formula Formula | FIff Formula Formula | FBox Formula

definition dia :: "Formula \<Rightarrow> Formula" where
  "dia a = FNot (FBox (FNot a))"

fun key :: "Formula \<Rightarrow> jstr" where
  "key (FAtom p) = js ''p('' @ p @ js '')''"
| "key FTop = js ''T''"
| "key FBot = js ''F''"
| "key (FNot a) = js ''~('' @ key a @ js '')''"
| "key (FAnd a b) = js ''&('' @ key a @ js '','' @ key b @ js '')''"
| "key (FOr a b) = js ''|('' @ key a @ js '','' @ key b @ js '')''"
| "key (FImp a b) = js ''>('' @ key a @ js '','' @ key b @ js '')''"
| "key (FIff a b) = js ''=('' @ key a @ js '','' @ key b @ js '')''"
| "key (FBox a) = js ''[]('' @ key a @ js '')''"

definition eq :: "Formula \<Rightarrow> Formula \<Rightarrow> bool" where
  "eq x y \<longleftrightarrow> key x = key y"

text \<open>The rendering, with the code units of the logical symbols.\<close>

fun show_formula :: "Formula \<Rightarrow> jstr" where
  "show_formula (FAtom p) = p"
| "show_formula FTop = [0x22A4]"
| "show_formula FBot = [0x22A5]"
| "show_formula (FNot a) = 0xAC # show_formula a"
| "show_formula (FAnd a b) = js ''('' @ show_formula a @ [32, 0x2227, 32] @ show_formula b @ js '')''"
| "show_formula (FOr a b) = js ''('' @ show_formula a @ [32, 0x2228, 32] @ show_formula b @ js '')''"
| "show_formula (FImp a b) = js ''('' @ show_formula a @ [32, 0x2192, 32] @ show_formula b @ js '')''"
| "show_formula (FIff a b) = js ''('' @ show_formula a @ [32, 0x2194, 32] @ show_formula b @ js '')''"
| "show_formula (FBox a) = 0x25A1 # show_formula a"

text \<open>\<open>subformulas\<close> fills a \<open>Map\<close> from keys to formulas.\<close>

fun subformulas :: "Formula \<Rightarrow> (jstr \<times> Formula) list \<Rightarrow> (jstr \<times> Formula) list" where
  "subformulas (FAtom p) acc = AList.update (key (FAtom p)) (FAtom p) acc"
| "subformulas FTop acc = AList.update (key FTop) FTop acc"
| "subformulas FBot acc = AList.update (key FBot) FBot acc"
| "subformulas (FNot a) acc = subformulas a (AList.update (key (FNot a)) (FNot a) acc)"
| "subformulas (FBox a) acc = subformulas a (AList.update (key (FBox a)) (FBox a) acc)"
| "subformulas (FAnd a b) acc = subformulas b (subformulas a (AList.update (key (FAnd a b)) (FAnd a b) acc))"
| "subformulas (FOr a b) acc = subformulas b (subformulas a (AList.update (key (FOr a b)) (FOr a b) acc))"
| "subformulas (FImp a b) acc = subformulas b (subformulas a (AList.update (key (FImp a b)) (FImp a b) acc))"
| "subformulas (FIff a b) acc = subformulas b (subformulas a (AList.update (key (FIff a b)) (FIff a b) acc))"

fun modalDepth :: "Formula \<Rightarrow> nat" where
  "modalDepth (FAtom p) = 0"
| "modalDepth FTop = 0"
| "modalDepth FBot = 0"
| "modalDepth (FNot a) = modalDepth a"
| "modalDepth (FBox a) = 1 + modalDepth a"
| "modalDepth (FAnd a b) = max (modalDepth a) (modalDepth b)"
| "modalDepth (FOr a b) = max (modalDepth a) (modalDepth b)"
| "modalDepth (FImp a b) = max (modalDepth a) (modalDepth b)"
| "modalDepth (FIff a b) = max (modalDepth a) (modalDepth b)"

subsection \<open>Kripke models\<close>

record KripkeModel =
  worlds :: "jstr list"
  edges :: "(jstr \<times> jstr) list"
  valuation :: "(jstr \<times> jstr list) list"

definition successors :: "KripkeModel \<Rightarrow> jstr \<Rightarrow> jstr list" where
  "successors m w = map snd (filter (\<lambda>(a, _). a = w) (edges m))"

definition atoms_at :: "KripkeModel \<Rightarrow> jstr \<Rightarrow> jstr list" where
  "atoms_at m w = (case map_of (valuation m) w of None \<Rightarrow> [] | Some ps \<Rightarrow> ps)"

primrec satisfies :: "KripkeModel \<Rightarrow> jstr \<Rightarrow> Formula \<Rightarrow> bool" where
  "satisfies m w (FAtom p) = List.member (atoms_at m w) p"
| "satisfies m w FTop = True"
| "satisfies m w FBot = False"
| "satisfies m w (FNot a) = (\<not> satisfies m w a)"
| "satisfies m w (FAnd a b) = (satisfies m w a \<and> satisfies m w b)"
| "satisfies m w (FOr a b) = (satisfies m w a \<or> satisfies m w b)"
| "satisfies m w (FImp a b) = (\<not> satisfies m w a \<or> satisfies m w b)"
| "satisfies m w (FIff a b) = (satisfies m w a = satisfies m w b)"
| "satisfies m w (FBox a) = list_all (\<lambda>w2. satisfies m w2 a) (successors m w)"

definition isIrreflexive :: "KripkeModel \<Rightarrow> bool" where
  "isIrreflexive m \<longleftrightarrow> \<not> list_ex (\<lambda>(a, b). a = b) (edges m)"

definition edge_key :: "jstr \<Rightarrow> jstr \<Rightarrow> jstr" where
  "edge_key a b = a @ [0] @ b"

definition isTransitive :: "KripkeModel \<Rightarrow> bool" where
  "isTransitive m \<longleftrightarrow>
     (let has = map (\<lambda>(a, b). edge_key a b) (edges m) in
      list_all (\<lambda>(a, x). list_all (\<lambda>(x2, y). x = x2 \<longrightarrow> List.member has (edge_key a y)) (edges m)) (edges m))"

definition isGLFrame :: "KripkeModel \<Rightarrow> bool" where
  "isGLFrame m \<longleftrightarrow> isTransitive m \<and> isIrreflexive m"

definition validOn :: "KripkeModel \<Rightarrow> Formula \<Rightarrow> bool" where
  "validOn m f \<longleftrightarrow> list_all (\<lambda>w. satisfies m w f) (worlds m)"

definition refutes :: "KripkeModel \<Rightarrow> jstr \<Rightarrow> Formula \<Rightarrow> bool" where
  "refutes m root f \<longleftrightarrow> isGLFrame m \<and> List.member (worlds m) root \<and> \<not> satisfies m root f"

definition canonicalModel :: "(jstr \<Rightarrow> jstr \<Rightarrow> int) \<Rightarrow> KripkeModel \<Rightarrow> KripkeModel" where
  "canonicalModel localeCompare m =
     (let ws = sort_by (\<le>) (worlds m) in
      \<lparr>worlds = ws,
       edges = sort_by (\<lambda>x y. (if fst x = fst y then localeCompare (snd x) (snd y) else localeCompare (fst x) (fst y)) \<le> 0) (edges m),
       valuation = foldl (\<lambda>v w. AList.update w (sort_by (\<le>) (atoms_at m w)) v) [] ws\<rparr>)"

definition labelWorld :: "KripkeModel \<Rightarrow> jstr \<Rightarrow> Formula list \<Rightarrow> jstr list" where
  "labelWorld m w fs = map key (filter (satisfies m w) fs)"

subsection \<open>The transitive closure of an edge list\<close>

text \<open>An edge is read back from its key by splitting at zeros and taking the first two pieces.\<close>

definition split_edge :: "jstr \<Rightarrow> jstr \<times> jstr" where
  "split_edge s = (case split_on 0 s of a # x # _ \<Rightarrow> (a, x) | [a] \<Rightarrow> (a, js ''undefined'') | [] \<Rightarrow> ([], []))"

definition closure_round :: "jstr list \<Rightarrow> jstr list \<times> bool" where
  "closure_round ks =
     (let snapshot = map split_edge ks in
      foldl (\<lambda>st (a, x). foldl (\<lambda>(s, changed) (x2, y).
          if x = x2 \<and> \<not> List.member s (edge_key a y) then (s @ [edge_key a y], True) else (s, changed)) st snapshot)
        (ks, False) snapshot)"

definition add_key :: "jstr list \<times> bool \<Rightarrow> jstr \<Rightarrow> jstr list \<times> bool" where
  "add_key st k = (if List.member (fst st) k then st else (fst st @ [k], True))"

definition candidates :: "(jstr \<times> jstr) list \<Rightarrow> jstr list" where
  "candidates snap = concat (map (\<lambda>(a, x). map (\<lambda>(x2, y). edge_key a y) (filter (\<lambda>(x2, y). x = x2) snap)) snap)"

lemma closure_round_candidates: "closure_round ks = foldl add_key (ks, False) (candidates (map split_edge ks))"
proof -
  have inner: "foldl (\<lambda>(s, changed) (x2, y). if x = x2 \<and> edge_key a y \<notin> set s then (s @ [edge_key a y], True) else (s, changed)) st snap
    = foldl add_key st (map (\<lambda>(x2, y). edge_key a y) (filter (\<lambda>(x2, y). x = x2) snap))" for a x st snap
    by (induction snap arbitrary: st) (auto simp: add_key_def)
  have "foldl (\<lambda>st (a, x). foldl (\<lambda>(s, changed) (x2, y).
          if x = x2 \<and> edge_key a y \<notin> set s then (s @ [edge_key a y], True) else (s, changed)) st snapshot) st snap
    = foldl add_key st (concat (map (\<lambda>(a, x). map (\<lambda>(x2, y). edge_key a y) (filter (\<lambda>(x2, y). x = x2) snapshot)) snap))" for snapshot st snap
    by (induction snap arbitrary: st) (auto simp: inner)
  then show ?thesis by (simp add: closure_round_def candidates_def Let_def del: map_map)
qed

lemma add_keys:
  "set (fst (foldl add_key st cs)) = set (fst st) \<union> set cs
   \<and> (snd (foldl add_key st cs) \<longleftrightarrow> snd st \<or> \<not> set cs \<subseteq> set (fst st))"
  by (induction cs arbitrary: st) (auto simp: add_key_def)

lemma closure_round_set: "set (fst (closure_round ks)) = set ks \<union> set (candidates (map split_edge ks))"
  by (simp add: closure_round_candidates add_keys)

lemma closure_round_changed: "snd (closure_round ks) \<longleftrightarrow> \<not> set (candidates (map split_edge ks)) \<subseteq> set ks"
  by (simp add: closure_round_candidates add_keys)

lemma set_candidates: "set (candidates snap) = (\<lambda>(a, b). edge_key a b) ` (set snap O set snap)"
  by (force simp: candidates_def)

lemma split_on_append: "c \<notin> set a \<Longrightarrow> split_on c (a @ [c] @ b) = a # split_on c b"
  by (induction a) auto

lemma split_on_plain: "c \<notin> set a \<Longrightarrow> split_on c a = [a]"
  by (induction a) auto

lemma split_edge_key: "0 \<notin> set a \<Longrightarrow> 0 \<notin> set b \<Longrightarrow> split_edge (edge_key a b) = (a, b)"
  using split_on_append [of 0 a b] by (simp add: split_edge_def edge_key_def split_on_plain)

lemma split_edge_plain: "0 \<notin> set (fst (split_edge s))" "0 \<notin> set (snd (split_edge s))"
  using split_on_no_separator [of _ 0 s] by (auto simp: split_edge_def js_def cu_def split: list.splits)

lemma edge_key_inject: "0 \<notin> set a \<Longrightarrow> 0 \<notin> set b \<Longrightarrow> 0 \<notin> set c \<Longrightarrow> 0 \<notin> set d \<Longrightarrow> edge_key a b = edge_key c d \<longleftrightarrow> a = c \<and> b = d"
  by (metis split_edge_key prod.inject)

definition missing_edges :: "jstr list \<Rightarrow> (jstr \<times> jstr) set" where
  "missing_edges ks = {(a, y) \<in> (fst ` split_edge ` set ks) \<times> (snd ` split_edge ` set ks). edge_key a y \<notin> set ks}"

lemma round_pieces:
  assumes "ks' = fst (closure_round ks)"
  shows "fst ` split_edge ` set ks' = fst ` split_edge ` set ks" "snd ` split_edge ` set ks' = snd ` split_edge ` set ks"
proof -
  define S where "S = split_edge ` set ks"
  have "split_edge (case p of (a, b) \<Rightarrow> edge_key a b) = p" if p: "p \<in> S O S" for p
  proof -
    obtain a x y where "p = (a, y)" "(a, x) \<in> S" "(x, y) \<in> S" using p by (elim relcompE) blast
    then show ?thesis using split_edge_plain unfolding S_def by (metis (mono_tags, lifting) case_prod_conv image_iff fst_conv snd_conv split_edge_key)
  qed
  then have "split_edge ` (\<lambda>(a, b). edge_key a b) ` (S O S) = S O S" by (simp add: image_image)
  then have sp: "split_edge ` set ks' = S \<union> S O S"
    unfolding assms closure_round_set set_candidates image_Un set_map S_def by simp
  show "fst ` split_edge ` set ks' = fst ` split_edge ` set ks" "snd ` split_edge ` set ks' = snd ` split_edge ` set ks"
    unfolding sp image_Un by (auto simp: S_def [symmetric] image_iff) (metis fst_conv snd_conv)+
qed

function closure_loop :: "jstr list \<Rightarrow> jstr list" where
  "closure_loop ks = (let (s, changed) = closure_round ks in if changed then closure_loop s else s)"
  by pat_completeness auto

termination
proof (relation "measure (\<lambda>ks. card (missing_edges ks))", simp)
  fix ks p s changed
  assume p: "p = closure_round ks" "(s, changed) = p" changed
  then have s: "s = fst (closure_round ks)" by (metis fst_conv)
  have "snd (closure_round ks)" using p by (metis snd_conv)
  then obtain k where k: "k \<in> set (candidates (map split_edge ks))" "k \<notin> set ks" unfolding closure_round_changed by blast
  then obtain a x y where e: "k = edge_key a y" "(a, x) \<in> split_edge ` set ks" "(x, y) \<in> split_edge ` set ks"
    unfolding set_candidates set_map by auto
  have "a \<in> fst ` split_edge ` set ks" "y \<in> snd ` split_edge ` set ks"
    using imageI [OF e(2), of fst] imageI [OF e(3), of snd] by simp_all
  then have "(a, y) \<in> missing_edges ks" using e(1) k(2) by (simp add: missing_edges_def)
  moreover have "(a, y) \<notin> missing_edges s" using k(1) e(1) by (simp add: missing_edges_def s closure_round_set)
  moreover have "missing_edges s \<subseteq> missing_edges ks"
    unfolding missing_edges_def round_pieces [OF s] using closure_round_set [of ks] s by auto
  ultimately have "missing_edges s \<subset> missing_edges ks" by blast
  moreover have "finite (missing_edges ks)" by (rule finite_subset [of _ "(fst ` split_edge ` set ks) \<times> (snd ` split_edge ` set ks)"]) (auto simp: missing_edges_def)
  ultimately show "(s, ks) \<in> measure (\<lambda>ks. card (missing_edges ks))" by (simp add: psubset_card_mono)
qed

declare closure_loop.simps [simp del]

definition transitiveClosure :: "(jstr \<times> jstr) list \<Rightarrow> (jstr \<times> jstr) list" where
  "transitiveClosure es = map split_edge (closure_loop (js_set (map (\<lambda>(a, b). edge_key a b) es)))"

text \<open>On names without the character zero the loop computes the transitive closure.\<close>

definition plain_edges :: "(jstr \<times> jstr) set \<Rightarrow> bool" where
  "plain_edges E \<longleftrightarrow> (\<forall>(a, b)\<in>E. 0 \<notin> set a \<and> 0 \<notin> set b)"

lemma plain_trancl: "plain_edges E \<Longrightarrow> plain_edges (E\<^sup>+)"
  unfolding plain_edges_def by (metis (mono_tags, lifting) case_prodI2 case_prodD tranclD tranclD2)

lemma edge_keys_inj:
  assumes "plain_edges E"
  shows "inj_on (\<lambda>(a, b). edge_key a b) E"
proof (rule inj_onI)
  fix p q
  assume "p \<in> E" "q \<in> E" "(case p of (a, b) \<Rightarrow> edge_key a b) = (case q of (a, b) \<Rightarrow> edge_key a b)"
  moreover obtain a b c d where "p = (a, b)" "q = (c, d)" by fastforce
  moreover have "0 \<notin> set a \<and> 0 \<notin> set b" "0 \<notin> set c \<and> 0 \<notin> set d" using assms calculation by (auto simp: plain_edges_def)
  ultimately show "p = q" by (simp add: edge_key_inject)
qed

lemma closure_loop_trancl:
  assumes "set ks = (\<lambda>(a, b). edge_key a b) ` E" and "plain_edges E"
  shows "set (closure_loop ks) = (\<lambda>(a, b). edge_key a b) ` (E\<^sup>+)"
  using assms
proof (induction ks arbitrary: E rule: closure_loop.induct)
  case (1 ks)
  have sp: "split_edge ` set ks = E"
    using 1(2,3) by (force simp: plain_edges_def image_image split_edge_key)
  define E' where "E' = E \<union> E O E"
  have plain: "plain_edges E'" using 1(3) by (auto simp: E'_def plain_edges_def)
  have cand: "set (candidates (map split_edge ks)) = (\<lambda>(a, b). edge_key a b) ` (E O E)"
    using sp by (simp add: set_candidates)
  have keys: "set (fst (closure_round ks)) = (\<lambda>(a, b). edge_key a b) ` E'"
    unfolding closure_round_set cand 1(2) E'_def by (simp add: image_Un)
  have tr: "E'\<^sup>+ = E\<^sup>+"
  proof
    have "E' \<subseteq> E\<^sup>+" by (auto simp: E'_def)
    then show "E'\<^sup>+ \<subseteq> E\<^sup>+" using trancl_mono_subset [of E' "E\<^sup>+"] by simp
    show "E\<^sup>+ \<subseteq> E'\<^sup>+" by (rule trancl_mono_subset) (simp add: E'_def)
  qed
  obtain s changed where r: "closure_round ks = (s, changed)" by fastforce
  show ?case
  proof (cases changed)
    case True
    then show ?thesis using 1(1) [OF refl _ True _ plain, of s] keys r tr by (subst closure_loop.simps) simp
  next
    case False
    then have "(\<lambda>(a, b). edge_key a b) ` (E O E) \<subseteq> (\<lambda>(a, b). edge_key a b) ` E"
      using closure_round_changed [of ks] r cand 1(2) by simp
    moreover have "inj_on (\<lambda>(a, b). edge_key a b) E'" by (rule edge_keys_inj [OF plain])
    ultimately have "E O E \<subseteq> E" using inj_on_image_mem_iff [of "\<lambda>(a, b). edge_key a b" E' _ E] unfolding E'_def by blast
    then have "trans E" by (auto simp: trans_O_subset intro: transI)
    then have "E\<^sup>+ = E'" using \<open>E O E \<subseteq> E\<close> by (auto simp: E'_def)
    then show ?thesis using False r keys by (subst closure_loop.simps) simp
  qed
qed

lemma transitiveClosure_trancl:
  assumes "plain_edges (set es)"
  shows "set (transitiveClosure es) = (set es)\<^sup>+"
proof -
  have "set (closure_loop (js_set (map (\<lambda>(a, b). edge_key a b) es))) = (\<lambda>(a, b). edge_key a b) ` ((set es)\<^sup>+)"
    using closure_loop_trancl [OF _ assms] by (simp add: set_js_set)
  then show ?thesis
    using plain_trancl [OF assms] by (force simp: transitiveClosure_def image_image plain_edges_def split_edge_key)
qed

subsection \<open>Truth on arbitrary frames\<close>

primrec sat :: "('w \<Rightarrow> 'w \<Rightarrow> bool) \<Rightarrow> ('w \<Rightarrow> jstr set) \<Rightarrow> 'w \<Rightarrow> Formula \<Rightarrow> bool" where
  "sat R V w (FAtom p) = (p \<in> V w)"
| "sat R V w FTop = True"
| "sat R V w FBot = False"
| "sat R V w (FNot a) = (\<not> sat R V w a)"
| "sat R V w (FAnd a b) = (sat R V w a \<and> sat R V w b)"
| "sat R V w (FOr a b) = (sat R V w a \<or> sat R V w b)"
| "sat R V w (FImp a b) = (sat R V w a \<longrightarrow> sat R V w b)"
| "sat R V w (FIff a b) = (sat R V w a \<longleftrightarrow> sat R V w b)"
| "sat R V w (FBox a) = (\<forall>v. R w v \<longrightarrow> sat R V v a)"

definition edge_rel :: "KripkeModel \<Rightarrow> jstr \<Rightarrow> jstr \<Rightarrow> bool" where
  "edge_rel m a b \<longleftrightarrow> (a, b) \<in> set (edges m)"

lemma satisfies_sat: "satisfies m w f = sat (edge_rel m) (\<lambda>w. set (atoms_at m w)) w f"
  by (induction f arbitrary: w) (auto simp: successors_def edge_rel_def list_all_iff)

definition gl_frame :: "('w \<Rightarrow> 'w \<Rightarrow> bool) \<Rightarrow> bool" where
  "gl_frame R \<longleftrightarrow> transp R \<and> wfp (R\<inverse>\<inverse>)"

definition gl_valid :: "'w itself \<Rightarrow> Formula \<Rightarrow> bool" where
  "gl_valid _ f \<longleftrightarrow> (\<forall>(R :: 'w \<Rightarrow> 'w \<Rightarrow> bool) V w. gl_frame R \<longrightarrow> sat R V w f)"

definition plain_model :: "KripkeModel \<Rightarrow> bool" where
  "plain_model m \<longleftrightarrow> list_all (\<lambda>(a, b). 0 \<notin> set a \<and> 0 \<notin> set b) (edges m)"

lemma plain_model_edges: "plain_model m \<longleftrightarrow> plain_edges (set (edges m))"
  by (simp add: plain_model_def plain_edges_def list_all_iff)

lemma isTransitive_iff:
  assumes "plain_model m"
  shows "isTransitive m \<longleftrightarrow> transp (edge_rel m)"
proof -
  have "edge_key a y \<in> (\<lambda>(a, b). edge_key a b) ` set (edges m) \<longleftrightarrow> (a, y) \<in> set (edges m)"
    if "(a, x) \<in> set (edges m)" "(x, y) \<in> set (edges m)" for a x y
  proof -
    have "plain_edges (insert (a, y) (set (edges m)))"
      using assms that by (auto simp: plain_model_edges plain_edges_def)
    from inj_on_image_mem_iff [OF edge_keys_inj [OF this], of "(a, y)" "set (edges m)"] show ?thesis by (simp add: subset_insertI)
  qed
  then show ?thesis
    unfolding isTransitive_def transp_def edge_rel_def Let_def list_all_iff
    by (auto split: prod.splits)
qed

lemma isIrreflexive_iff: "isIrreflexive m \<longleftrightarrow> irreflp (edge_rel m)"
  by (auto simp: isIrreflexive_def irreflp_def edge_rel_def list_ex_iff)

lemma finite_gl_frame:
  assumes "plain_model m"
  shows "isGLFrame m \<longleftrightarrow> gl_frame (edge_rel m)"
proof
  assume gl: "isGLFrame m"
  then have tr: "transp (edge_rel m)" and irr: "irreflp (edge_rel m)"
    using assms by (simp_all add: isGLFrame_def isTransitive_iff isIrreflexive_iff)
  have "wf ((set (edges m))\<inverse>)"
  proof (rule finite_acyclic_wf_converse)
    have "trans (set (edges m))" using tr by (simp add: trans_def transp_def edge_rel_def)
    then show "acyclic (set (edges m))" using irr by (simp add: acyclic_def trancl_id irreflp_def edge_rel_def)
  qed simp
  then have "wfp (edge_rel m)\<inverse>\<inverse>" unfolding wfp_def edge_rel_def conversep_iff by (simp add: converse_unfold)
  with tr show "gl_frame (edge_rel m)" by (simp add: gl_frame_def)
next
  assume "gl_frame (edge_rel m)"
  moreover have "irreflp R" if "wfp (R\<inverse>\<inverse>)" for R :: "jstr \<Rightarrow> jstr \<Rightarrow> bool"
    using that by (metis conversep_iff irreflpI wfp_imp_irreflp irreflpD)
  ultimately show "isGLFrame m" using assms by (simp add: gl_frame_def isGLFrame_def isTransitive_iff isIrreflexive_iff)
qed

subsection \<open>Keys\<close>

text \<open>Keys are injective on formulas whose atom names have no closing parenthesis.\<close>

primrec plain :: "Formula \<Rightarrow> bool" where
  "plain (FAtom p) = (41 \<notin> set p)"
| "plain FTop = True"
| "plain FBot = True"
| "plain (FNot a) = plain a"
| "plain (FAnd a b) = (plain a \<and> plain b)"
| "plain (FOr a b) = (plain a \<and> plain b)"
| "plain (FImp a b) = (plain a \<and> plain b)"
| "plain (FIff a b) = (plain a \<and> plain b)"
| "plain (FBox a) = plain a"

lemma until_inject: "c \<notin> set p \<Longrightarrow> c \<notin> set q \<Longrightarrow> p @ c # x = q @ c # y \<longleftrightarrow> p = q \<and> x = y"
proof (induction p arbitrary: q)
  case Nil
  then show ?case by (cases q) auto
next
  case (Cons d p)
  then show ?case by (cases q) auto
qed

lemma key_units:
  "key (FAtom p) = 112 # 40 # p @ [41]" "key FTop = [84]" "key FBot = [70]" "key (FNot a) = 126 # 40 # key a @ [41]"
  "key (FAnd a b) = 38 # 40 # key a @ 44 # key b @ [41]" "key (FOr a b) = 124 # 40 # key a @ 44 # key b @ [41]"
  "key (FImp a b) = 62 # 40 # key a @ 44 # key b @ [41]" "key (FIff a b) = 61 # 40 # key a @ 44 # key b @ [41]"
  "key (FBox a) = 91 # 93 # 40 # key a @ [41]"
  by (simp_all add: js_def cu_def)

lemma key_append_inject: "plain f \<Longrightarrow> plain g \<Longrightarrow> key f @ x = key g @ y \<longleftrightarrow> f = g \<and> x = y"
proof (induction f arbitrary: g x y)
  case (FAtom p)
  then show ?case by (cases g) (simp_all add: key_units until_inject del: key.simps)
next
  case (FAnd a b)
  then show ?case by (cases g) (simp_all add: key_units del: key.simps)
next
  case (FOr a b)
  then show ?case by (cases g) (simp_all add: key_units del: key.simps)
next
  case (FImp a b)
  then show ?case by (cases g) (simp_all add: key_units del: key.simps)
next
  case (FIff a b)
  then show ?case by (cases g) (simp_all add: key_units del: key.simps)
next
  case FTop
  then show ?case by (cases g) (simp_all add: key_units del: key.simps)
next
  case FBot
  then show ?case by (cases g) (simp_all add: key_units del: key.simps)
next
  case (FNot a)
  then show ?case by (cases g) (simp_all add: key_units del: key.simps)
next
  case (FBox a)
  then show ?case by (cases g) (simp_all add: key_units del: key.simps)
qed

lemma key_inject: "plain f \<Longrightarrow> plain g \<Longrightarrow> key f = key g \<longleftrightarrow> f = g"
  using key_append_inject [of f g "[]" "[]"] by simp

end
