(* ===== verification/GL_Tableau.thy ===== *)
theory GL_Tableau
  imports GL_Formula
begin

text \<open>
  The signed tableau for provability logic, \<open>lobian/glTableau.ts\<close>. The search keeps the number of nodes it
  explored and raises when the number exceeds the budget, 200000 in the code and a parameter here. The recursion is
  bounded by fuel; a budget of \<open>n\<close> nodes never needs more than \<open>n + 1\<close> of it. The elapsed time
  of the statistics is left out.
\<close>

subsection \<open>Signed formulas\<close>

datatype Sign = SignT | SignF

type_synonym Signed = "Sign \<times> Formula"

definition sign_text :: "Sign \<Rightarrow> jstr" where
  "sign_text s = (case s of SignT \<Rightarrow> js ''T:'' | SignF \<Rightarrow> js ''F:'')"

definition sk :: "Signed \<Rightarrow> jstr" where
  "sk s = sign_text (fst s) @ key (snd s)"

datatype Proof =
    Close jstr jstr
  | Alpha jstr jstr Proof
  | Beta jstr jstr "Proof list"
  | GLModal jstr jstr Proof

datatype WorldNode = WorldNode (trueAtoms: "jstr list") (succs: "WorldNode list")

datatype SearchResult = Closed Proof | Open WorldNode

datatype tableau_error = NodeBudget | OutOfFuel | NotAFrame | NotARefutation

definition MAX_NODES :: nat where
  "MAX_NODES = 200000"

fun dedup_from :: "jstr list \<Rightarrow> Signed list \<Rightarrow> Signed list" where
  "dedup_from seen [] = []"
| "dedup_from seen (s # ss) =
     (if List.member seen (sk s) then dedup_from seen ss else s # dedup_from (sk s # seen) ss)"

definition dedup :: "Signed list \<Rightarrow> Signed list" where
  "dedup sfs = dedup_from [] sfs"

definition sequentString :: "Signed list \<Rightarrow> jstr" where
  "sequentString sfs = joinWith (js '' , '') (sort_by (\<le>) (map sk (dedup sfs)))"

definition compound :: "Formula \<Rightarrow> bool" where
  "compound f = (case f of FAtom _ \<Rightarrow> False | FTop \<Rightarrow> False | FBot \<Rightarrow> False | FBox _ \<Rightarrow> False | _ \<Rightarrow> True)"

text \<open>The index of the first decomposable formula, with the formulas around it.\<close>

fun pickCompound :: "Signed list \<Rightarrow> (Signed \<times> Signed list) option" where
  "pickCompound [] = None"
| "pickCompound (s # ss) =
     (if compound (snd s) then Some (s, ss)
      else case pickCompound ss of None \<Rightarrow> None | Some (c, rest) \<Rightarrow> Some (c, s # rest))"

definition opposite :: "Sign \<Rightarrow> Sign" where
  "opposite s = (case s of SignT \<Rightarrow> SignF | SignF \<Rightarrow> SignT)"

definition closing :: "Signed list \<Rightarrow> jstr option" where
  "closing sfs =
     (let present = map sk sfs in
      case find (\<lambda>s. List.member present (sign_text (opposite (fst s)) @ key (snd s))) sfs of
        Some s \<Rightarrow> Some (js ''T:'' @ show_formula (snd s) @ js '' and F:'' @ show_formula (snd s))
      | None \<Rightarrow>
          if List.member present (js ''T:F'') then Some (js ''T:'' @ [0x22A5])
          else if List.member present (js ''F:T'') then Some (js ''F:'' @ [0x22A4])
          else None)"

text \<open>The rule for a signed formula: its branches, each a list of added formulas, and its name.\<close>

datatype rule = AlphaRule "Signed list" jstr | BetaRule "Signed list list" jstr

fun rule_for :: "Signed \<Rightarrow> rule option" where
  "rule_for (SignT, FNot a) = Some (AlphaRule [(SignF, a)] (js ''T'' @ [0xAC]))"
| "rule_for (SignF, FNot a) = Some (AlphaRule [(SignT, a)] (js ''F'' @ [0xAC]))"
| "rule_for (SignT, FAnd a b) = Some (AlphaRule [(SignT, a), (SignT, b)] (js ''T'' @ [0x2227]))"
| "rule_for (SignF, FAnd a b) = Some (BetaRule [[(SignF, a)], [(SignF, b)]] (js ''F'' @ [0x2227]))"
| "rule_for (SignT, FOr a b) = Some (BetaRule [[(SignT, a)], [(SignT, b)]] (js ''T'' @ [0x2228]))"
| "rule_for (SignF, FOr a b) = Some (AlphaRule [(SignF, a), (SignF, b)] (js ''F'' @ [0x2228]))"
| "rule_for (SignT, FImp a b) = Some (BetaRule [[(SignF, a)], [(SignT, b)]] (js ''T'' @ [0x2192]))"
| "rule_for (SignF, FImp a b) = Some (AlphaRule [(SignT, a), (SignF, b)] (js ''F'' @ [0x2192]))"
| "rule_for (SignT, FIff a b) = Some (BetaRule [[(SignT, a), (SignT, b)], [(SignF, a), (SignF, b)]] (js ''T'' @ [0x2194]))"
| "rule_for (SignF, FIff a b) = Some (BetaRule [[(SignT, a), (SignF, b)], [(SignF, a), (SignT, b)]] (js ''F'' @ [0x2194]))"
| "rule_for (SignT, FTop) = Some (AlphaRule [] (js ''triv''))"
| "rule_for (SignF, FBot) = Some (AlphaRule [] (js ''triv''))"
| "rule_for _ = None"

subsection \<open>The search\<close>

type_synonym search_fun = "Signed list \<Rightarrow> nat \<Rightarrow> tableau_error + SearchResult \<times> nat"

definition alpha :: "search_fun \<Rightarrow> Signed list \<Rightarrow> jstr \<Rightarrow> Signed list \<Rightarrow> jstr \<Rightarrow> nat \<Rightarrow> tableau_error + SearchResult \<times> nat" where
  "alpha search rest seq adds name n =
     (case search (rest @ adds) n of
        Inl e \<Rightarrow> Inl e
      | Inr (Closed p, n') \<Rightarrow> Inr (Closed (Alpha name seq p), n')
      | Inr (Open w, n') \<Rightarrow> Inr (Open w, n'))"

fun beta :: "search_fun \<Rightarrow> Signed list \<Rightarrow> jstr \<Rightarrow> Signed list list \<Rightarrow> jstr \<Rightarrow> Proof list \<Rightarrow> nat \<Rightarrow> tableau_error + SearchResult \<times> nat" where
  "beta search rest seq [] name proofs n = Inr (Closed (Beta name seq proofs), n)"
| "beta search rest seq (br # brs) name proofs n =
     (case search (rest @ br) n of
        Inl e \<Rightarrow> Inl e
      | Inr (Closed p, n') \<Rightarrow> beta search rest seq brs name (proofs @ [p]) n'
      | Inr (Open w, n') \<Rightarrow> Inr (Open w, n'))"

definition boxes :: "Sign \<Rightarrow> Signed list \<Rightarrow> Formula list" where
  "boxes which sfs = concat (map (\<lambda>(t, f). case f of FBox a \<Rightarrow> if t = which then [a] else [] | _ \<Rightarrow> []) sfs)"

definition true_atoms :: "Signed list \<Rightarrow> jstr list" where
  "true_atoms sfs = concat (map (\<lambda>(t, f). case f of FAtom p \<Rightarrow> if t = SignT then [p] else [] | _ \<Rightarrow> []) sfs)"

definition successor :: "Formula list \<Rightarrow> Formula \<Rightarrow> Signed list" where
  "successor boxedT A =
     map (\<lambda>a. (SignT, a)) boxedT @ map (\<lambda>a. (SignT, FBox a)) boxedT @ [(SignT, FBox A), (SignF, A)]"

fun modal :: "search_fun \<Rightarrow> jstr \<Rightarrow> Formula list \<Rightarrow> jstr list \<Rightarrow> WorldNode list \<Rightarrow> Formula list \<Rightarrow> nat \<Rightarrow> tableau_error + SearchResult \<times> nat" where
  "modal search seq boxedT atoms ws [] n = Inr (Open (WorldNode atoms ws), n)"
| "modal search seq boxedT atoms ws (A # As) n =
     (case search (successor boxedT A) n of
        Inl e \<Rightarrow> Inl e
      | Inr (Closed p, n') \<Rightarrow> Inr (Closed (GLModal seq (0x25A1 # show_formula A) p), n')
      | Inr (Open w, n') \<Rightarrow> modal search seq boxedT atoms (ws @ [w]) As n')"

definition saturated :: "search_fun \<Rightarrow> jstr \<Rightarrow> Signed list \<Rightarrow> nat \<Rightarrow> tableau_error + SearchResult \<times> nat" where
  "saturated search seq sfs n =
     modal search seq (boxes SignT sfs) (true_atoms sfs) [] (boxes SignF sfs) n"

fun search :: "nat \<Rightarrow> nat \<Rightarrow> search_fun" where
  "search budget 0 signedIn n = Inl OutOfFuel"
| "search budget (Suc fuel) signedIn n =
     (if budget < n + 1 then Inl NodeBudget
      else
        (let sfs = dedup signedIn; seq = sequentString sfs in
         case closing sfs of
           Some reason \<Rightarrow> Inr (Closed (Close reason seq), n + 1)
         | None \<Rightarrow>
             (case pickCompound sfs of
                None \<Rightarrow> saturated (search budget fuel) seq sfs (n + 1)
              | Some (s, rest) \<Rightarrow>
                  (case rule_for s of
                     Some (AlphaRule adds name) \<Rightarrow> alpha (search budget fuel) rest seq adds name (n + 1)
                   | Some (BetaRule branches name) \<Rightarrow> beta (search budget fuel) rest seq branches name [] (n + 1)
                   | None \<Rightarrow> saturated (search budget fuel) seq sfs (n + 1)))))"

subsection \<open>Countermodels\<close>

record model_builder =
  mb_counter :: nat
  mb_worlds :: "jstr list"
  mb_edges :: "(jstr \<times> jstr) list"
  mb_valuation :: "(jstr \<times> jstr list) list"

definition world_id :: "nat \<Rightarrow> jstr" where
  "world_id i = js ''w'' @ nat_str i"

fun assign :: "WorldNode \<Rightarrow> model_builder \<Rightarrow> jstr \<times> model_builder"
  and assign_list :: "jstr \<Rightarrow> WorldNode list \<Rightarrow> model_builder \<Rightarrow> model_builder" where
  "assign (WorldNode atoms ws) b =
     (let i = world_id (mb_counter b) in
      (i, assign_list i ws
        \<lparr>mb_counter = mb_counter b + 1, mb_worlds = mb_worlds b @ [i], mb_edges = mb_edges b,
         mb_valuation = AList.update i (sort_by (\<le>) atoms) (mb_valuation b)\<rparr>))"
| "assign_list i [] b = b"
| "assign_list i (w # ws) b =
     (let (j, b1) = assign w b in assign_list i ws (b1\<lparr>mb_edges := mb_edges b1 @ [(i, j)]\<rparr>))"

definition buildModel :: "WorldNode \<Rightarrow> KripkeModel \<times> jstr" where
  "buildModel root =
     (let (rootId, b) = assign root \<lparr>mb_counter = 0, mb_worlds = [], mb_edges = [], mb_valuation = []\<rparr> in
      (\<lparr>worlds = mb_worlds b, edges = transitiveClosure (mb_edges b), valuation = mb_valuation b\<rparr>, rootId))"

datatype DecideResult = Theorem Proof nat | Refuted KripkeModel jstr nat

definition decide_within :: "nat \<Rightarrow> Formula \<Rightarrow> tableau_error + DecideResult" where
  "decide_within budget phi =
     (case search budget (budget + 1) [(SignF, phi)] 0 of
        Inl e \<Rightarrow> Inl e
      | Inr (Closed p, n) \<Rightarrow> Inr (Theorem p n)
      | Inr (Open w, n) \<Rightarrow> (let (m, root) = buildModel w in Inr (Refuted m root n)))"

definition decide :: "Formula \<Rightarrow> tableau_error + DecideResult" where
  "decide phi = decide_within MAX_NODES phi"

definition isTheorem :: "Formula \<Rightarrow> tableau_error + bool" where
  "isTheorem phi = (case decide phi of Inl e \<Rightarrow> Inl e | Inr (Theorem _ _) \<Rightarrow> Inr True | Inr (Refuted _ _ _) \<Rightarrow> Inr False)"

definition decideChecked :: "Formula \<Rightarrow> tableau_error + DecideResult" where
  "decideChecked phi =
     (case decide phi of
        Inl e \<Rightarrow> Inl e
      | Inr (Theorem p n) \<Rightarrow> Inr (Theorem p n)
      | Inr (Refuted m root n) \<Rightarrow>
          if \<not> isGLFrame m then Inl NotAFrame
          else if \<not> refutes m root phi then Inl NotARefutation
          else Inr (Refuted m root n))"

subsection \<open>The pieces of a node\<close>

definition plain_sfs :: "Signed list \<Rightarrow> bool" where
  "plain_sfs sfs \<longleftrightarrow> (\<forall>s\<in>set sfs. plain (snd s))"

lemma plain_sfs_simps [simp]:
  "plain_sfs []" "plain_sfs (s # sfs) \<longleftrightarrow> plain (snd s) \<and> plain_sfs sfs" "plain_sfs (xs @ ys) \<longleftrightarrow> plain_sfs xs \<and> plain_sfs ys"
  by (auto simp: plain_sfs_def)

lemma sk_units: "sk (SignT, f) = 84 # 58 # key f" "sk (SignF, f) = 70 # 58 # key f"
  by (simp_all add: sk_def sign_text_def js_def cu_def)

lemma sk_inject: "plain (snd s) \<Longrightarrow> plain (snd t) \<Longrightarrow> sk s = sk t \<longleftrightarrow> s = t"
  by (cases s; cases t; cases "fst s"; cases "fst t") (auto simp: sk_units key_inject)

lemma dedup_from_subset: "set (dedup_from seen sfs) \<subseteq> set sfs"
  by (induction sfs arbitrary: seen) (auto split: if_splits)

lemma dedup_from_keys: "sk ` set sfs \<subseteq> set seen \<union> sk ` set (dedup_from seen sfs)"
proof (induction sfs arbitrary: seen)
  case (Cons s sfs)
  then show ?case using Cons.IH [of seen] Cons.IH [of "sk s # seen"] by auto
qed simp

lemma dedup_from_distinct: "distinct (map sk (dedup_from seen sfs)) \<and> set seen \<inter> sk ` set (dedup_from seen sfs) = {}"
proof (induction sfs arbitrary: seen)
  case (Cons s sfs)
  then show ?case using Cons.IH [of seen] Cons.IH [of "sk s # seen"] by auto
qed simp

lemma distinct_dedup: "distinct (dedup sfs)"
  using dedup_from_distinct [of "[]" sfs] by (simp add: dedup_def distinct_map)

lemma set_dedup: "plain_sfs sfs \<Longrightarrow> set (dedup sfs) = set sfs"
proof
  assume plain: "plain_sfs sfs"
  show "set (dedup sfs) \<subseteq> set sfs" using dedup_from_subset by (simp add: dedup_def)
  show "set sfs \<subseteq> set (dedup sfs)"
  proof
    fix s
    assume s: "s \<in> set sfs"
    then obtain t where t: "t \<in> set (dedup sfs)" "sk s = sk t" using dedup_from_keys [of sfs "[]"] by (auto simp: dedup_def)
    then have "t \<in> set sfs" using dedup_from_subset by (auto simp: dedup_def)
    with plain s t(2) have "s = t" by (simp add: plain_sfs_def sk_inject)
    with t show "s \<in> set (dedup sfs)" by simp
  qed
qed

lemma plain_dedup: "plain_sfs sfs \<Longrightarrow> plain_sfs (dedup sfs)"
  by (simp add: plain_sfs_def set_dedup [unfolded plain_sfs_def])

lemma sk_constants: "js ''T:F'' = sk (SignT, FBot)" "js ''F:T'' = sk (SignF, FTop)"
  by (simp_all add: sk_def sign_text_def js_def)

definition clash :: "Signed set \<Rightarrow> bool" where
  "clash S \<longleftrightarrow> (\<exists>f. (SignT, f) \<in> S \<and> (SignF, f) \<in> S) \<or> (SignT, FBot) \<in> S \<or> (SignF, FTop) \<in> S"

lemma closing_iff:
  assumes "plain_sfs sfs"
  shows "closing sfs \<noteq> None \<longleftrightarrow> clash (set sfs)"
proof -
  have mem: "sk s \<in> sk ` set sfs \<longleftrightarrow> s \<in> set sfs" if "plain (snd s)" for s
  proof
    assume "sk s \<in> sk ` set sfs"
    then obtain t where "t \<in> set sfs" "sk s = sk t" by blast
    with assms that show "s \<in> set sfs" by (simp add: sk_inject plain_sfs_def)
  qed simp
  have "(\<exists>s\<in>set sfs. sign_text (opposite (fst s)) @ key (snd s) \<in> sk ` set sfs) \<longleftrightarrow> (\<exists>f. (SignT, f) \<in> set sfs \<and> (SignF, f) \<in> set sfs)"
  proof -
    have "sign_text (opposite (fst s)) @ key (snd s) \<in> sk ` set sfs \<longleftrightarrow> (opposite (fst s), snd s) \<in> set sfs" if "s \<in> set sfs" for s
      using mem [of "(opposite (fst s), snd s)"] assms that by (simp add: sk_def plain_sfs_def)
    then have "(\<exists>s\<in>set sfs. sign_text (opposite (fst s)) @ key (snd s) \<in> sk ` set sfs) \<longleftrightarrow> (\<exists>(t, f)\<in>set sfs. (opposite t, f) \<in> set sfs)"
      by (simp add: case_prod_beta)
    also have "\<dots> \<longleftrightarrow> (\<exists>f. (SignT, f) \<in> set sfs \<and> (SignF, f) \<in> set sfs)"
    proof
      assume "\<exists>(t, f)\<in>set sfs. (opposite t, f) \<in> set sfs"
      then obtain t f where "(t, f) \<in> set sfs" "(opposite t, f) \<in> set sfs" by blast
      then show "\<exists>f. (SignT, f) \<in> set sfs \<and> (SignF, f) \<in> set sfs" by (cases t) (auto simp: opposite_def)
    qed (auto simp: opposite_def intro!: bexI [of _ "(SignT, _)"])
    finally show ?thesis .
  qed
  moreover have "closing sfs \<noteq> None \<longleftrightarrow>
      find (\<lambda>s. sign_text (opposite (fst s)) @ key (snd s) \<in> sk ` set sfs) sfs \<noteq> None \<or> sk (SignT, FBot) \<in> sk ` set sfs \<or> sk (SignF, FTop) \<in> sk ` set sfs"
    by (auto simp: closing_def Let_def sk_constants split: option.splits)
  ultimately show ?thesis
    using mem [of "(SignT, FBot)"] mem [of "(SignF, FTop)"] unfolding clash_def find_None_iff plain.simps snd_conv by blast
qed

lemma pickCompound_Some:
  "pickCompound sfs = Some (s, rest) \<Longrightarrow> compound (snd s) \<and> (\<exists>a b. sfs = a @ s # b \<and> rest = a @ b)"
proof (induction sfs arbitrary: s rest)
  case (Cons t sfs)
  show ?case
  proof (cases "compound (snd t)")
    case True
    then show ?thesis using Cons.prems by (intro conjI exI [of _ "[]"] exI [of _ sfs]) auto
  next
    case False
    then obtain rest' where r: "pickCompound sfs = Some (s, rest')" "rest = t # rest'"
      using Cons.prems by (auto split: option.splits)
    then obtain a b where "sfs = a @ s # b" "rest' = a @ b" "compound (snd s)" using Cons.IH by blast
    then show ?thesis using r by (intro conjI exI [of _ "t # a"] exI [of _ b]) auto
  qed
qed simp

lemma pickCompound_set: "pickCompound sfs = Some (s, rest) \<Longrightarrow> set sfs = insert s (set rest)"
  by (drule pickCompound_Some) auto

lemma pickCompound_None: "pickCompound sfs = None \<Longrightarrow> \<forall>s\<in>set sfs. \<not> compound (snd s)"
  by (induction sfs) (auto split: if_splits option.splits)

definition branches :: "rule \<Rightarrow> Signed list list" where
  "branches r = (case r of AlphaRule adds _ \<Rightarrow> [adds] | BetaRule brs _ \<Rightarrow> brs)"

lemma compound_rule: "compound (snd s) \<Longrightarrow> \<exists>r. rule_for s = Some r"
  by (cases s; cases "fst s"; cases "snd s") (auto simp: compound_def)

lemma rule_plain: "rule_for s = Some r \<Longrightarrow> plain (snd s) \<Longrightarrow> br \<in> set (branches r) \<Longrightarrow> plain_sfs br"
  by (induction s rule: rule_for.induct) (auto simp: branches_def)

lemma set_boxes: "set (boxes t sfs) = {a. (t, FBox a) \<in> set sfs}"
  by (force simp: boxes_def split: Formula.splits if_splits)

lemma set_true_atoms: "set (true_atoms sfs) = {p. (SignT, FAtom p) \<in> set sfs}"
  by (force simp: true_atoms_def split: Formula.splits if_splits)

lemma set_successor: "set (successor bs A) = {SignT} \<times> (set bs \<union> FBox ` set bs) \<union> {(SignT, FBox A), (SignF, A)}"
  by (auto simp: successor_def)

subsection \<open>What the loops return\<close>

lemma alpha_result:
  "alpha f rest seq adds name n = Inr (Closed p, n') \<Longrightarrow> \<exists>q. f (rest @ adds) n = Inr (Closed q, n')"
  "alpha f rest seq adds name n = Inr (Open w, n') \<Longrightarrow> f (rest @ adds) n = Inr (Open w, n')"
  by (auto simp: alpha_def split: sum.splits SearchResult.splits)

lemma beta_closed:
  "beta f rest seq brs name ps n = Inr (Closed p, n') \<Longrightarrow> br \<in> set brs \<Longrightarrow> \<exists>m q m'. f (rest @ br) m = Inr (Closed q, m')"
  by (induction brs arbitrary: ps n) (force split: sum.splits SearchResult.splits)+

lemma beta_open:
  "beta f rest seq brs name ps n = Inr (Open w, n') \<Longrightarrow> \<exists>br\<in>set brs. \<exists>m. f (rest @ br) m = Inr (Open w, n')"
  by (induction brs arbitrary: ps n) (auto split: sum.splits SearchResult.splits, (metis | blast)+)

lemma modal_closed:
  "modal f seq bs atoms ws As n = Inr (Closed p, n') \<Longrightarrow> \<exists>A\<in>set As. \<exists>m q. f (successor bs A) m = Inr (Closed q, n')"
  by (induction As arbitrary: ws n) (auto split: sum.splits SearchResult.splits, (metis | blast)+)

lemma modal_open:
  "modal f seq bs atoms ws As n = Inr (Open w, n') \<Longrightarrow>
    \<exists>vs. w = WorldNode atoms (ws @ vs) \<and> list_all2 (\<lambda>A v. \<exists>m m'. f (successor bs A) m = Inr (Open v, m')) As vs"
proof (induction As arbitrary: ws n)
  case (Cons A As)
  then obtain v m where v: "f (successor bs A) n = Inr (Open v, m)" "modal f seq bs atoms (ws @ [v]) As m = Inr (Open w, n')"
    by (auto split: sum.splits SearchResult.splits)
  from Cons.IH [OF v(2)] obtain vs where "w = WorldNode atoms (ws @ v # vs)"
    "list_all2 (\<lambda>A v. \<exists>m m'. f (successor bs A) m = Inr (Open v, m')) As vs"
    by auto
  with v(1) show ?case by (intro exI [of _ "v # vs"]) auto
qed simp

lemma search_rule:
  assumes "closing (dedup sfs) = None" and "pickCompound (dedup sfs) = Some (s, rest)" and "rule_for s = Some r"
    and "search B (Suc k) sfs n = Inr res"
  shows "(case r of AlphaRule adds name \<Rightarrow> alpha (search B k) rest (sequentString (dedup sfs)) adds name (n + 1)
     | BetaRule brs name \<Rightarrow> beta (search B k) rest (sequentString (dedup sfs)) brs name [] (n + 1)) = Inr res"
  using assms by (cases r) (auto simp: Let_def split: if_splits)

lemma search_saturated:
  assumes "closing (dedup sfs) = None" and "pickCompound (dedup sfs) = None" and "search B (Suc k) sfs n = Inr res"
  shows "modal (search B k) (sequentString (dedup sfs)) (boxes SignT (dedup sfs)) (true_atoms (dedup sfs)) [] (boxes SignF (dedup sfs)) (n + 1)
    = Inr res"
  using assms by (auto simp: Let_def saturated_def split: if_splits)

lemma search_closed_cases:
  assumes "search B k sfs n = Inr (Closed p, n')" and "plain_sfs sfs"
  obtains (clash) "clash (set sfs)"
  | (rule_) k' s rest r where "k = Suc k'" "set sfs = insert s (set rest)" "rule_for s = Some r"
      "\<And>br. br \<in> set (branches r) \<Longrightarrow> \<exists>m q m'. search B k' (rest @ br) m = Inr (Closed q, m')"
  | (modal_) k' A m q m' where "k = Suc k'" "(SignF, FBox A) \<in> set sfs"
      "search B k' (successor (boxes SignT (dedup sfs)) A) m = Inr (Closed q, m')"
proof -
  obtain k' where k: "k = Suc k'" using assms(1) by (cases k) auto
  note set = set_dedup [OF assms(2)]
  show thesis
  proof (cases "closing (dedup sfs)")
    case (Some reason)
    then show thesis using clash closing_iff [OF plain_dedup [OF assms(2)]] set by auto
  next
    case noclash: None
    show thesis
    proof (cases "pickCompound (dedup sfs)")
      case None
      then obtain A m q m' where "A \<in> set (boxes SignF (dedup sfs))" "search B k' (successor (boxes SignT (dedup sfs)) A) m = Inr (Closed q, m')"
        using modal_closed [OF search_saturated [OF noclash None assms(1) [unfolded k]]] by blast
      then show thesis using modal_ [OF k] set by (auto simp: set_boxes)
    next
      case (Some sr)
      then obtain s rest where pick: "pickCompound (dedup sfs) = Some (s, rest)" by (cases sr) auto
      obtain r where r: "rule_for s = Some r" using pickCompound_Some [OF pick] compound_rule by blast
      have "set sfs = insert s (set rest)" using pickCompound_set [OF pick] set by simp
      moreover have "\<exists>m q m'. search B k' (rest @ br) m = Inr (Closed q, m')" if "br \<in> set (branches r)" for br
      proof (cases r)
        case (AlphaRule adds name)
        then show ?thesis using alpha_result(1) [of "search B k'"] search_rule [OF noclash pick r assms(1) [unfolded k]] that
          unfolding branches_def by simp blast
      next
        case (BetaRule brs name)
        then show ?thesis using beta_closed [of "search B k'"] search_rule [OF noclash pick r assms(1) [unfolded k]] that
          unfolding branches_def by simp
      qed
      ultimately show thesis using rule_ [OF k _ r] by blast
    qed
  qed
qed

lemma search_open_cases:
  assumes "search B k sfs n = Inr (Open w, n')" and "plain_sfs sfs"
  obtains (rule_) k' s rest r br m m' where "k = Suc k'" "set sfs = insert s (set rest)" "rule_for s = Some r"
      "br \<in> set (branches r)" "search B k' (rest @ br) m = Inr (Open w, m')"
  | (modal_) k' vs where "k = Suc k'" "\<not> clash (set sfs)" "\<And>s. s \<in> set sfs \<Longrightarrow> \<not> compound (snd s)"
      "w = WorldNode (true_atoms (dedup sfs)) vs"
      "list_all2 (\<lambda>A v. \<exists>m m'. search B k' (successor (boxes SignT (dedup sfs)) A) m = Inr (Open v, m')) (boxes SignF (dedup sfs)) vs"
proof -
  obtain k' where k: "k = Suc k'" using assms(1) by (cases k) auto
  note set = set_dedup [OF assms(2)]
  have noclash: "closing (dedup sfs) = None" using assms(1) k by (auto simp: Let_def split: if_splits option.splits)
  then have "\<not> clash (set sfs)" using closing_iff [OF plain_dedup [OF assms(2)]] set by auto
  show thesis
  proof (cases "pickCompound (dedup sfs)")
    case None
    then obtain vs where "w = WorldNode (true_atoms (dedup sfs)) vs"
      "list_all2 (\<lambda>A v. \<exists>m m'. search B k' (successor (boxes SignT (dedup sfs)) A) m = Inr (Open v, m')) (boxes SignF (dedup sfs)) vs"
      using modal_open [OF search_saturated [OF noclash None assms(1) [unfolded k]]] by auto
    then show thesis using modal_ [OF k \<open>\<not> clash (set sfs)\<close>] pickCompound_None [OF None] set by auto
  next
    case (Some sr)
    then obtain s rest where pick: "pickCompound (dedup sfs) = Some (s, rest)" by (cases sr) auto
    obtain r where r: "rule_for s = Some r" using pickCompound_Some [OF pick] compound_rule by blast
    have "set sfs = insert s (set rest)" using pickCompound_set [OF pick] set by simp
    moreover have "\<exists>br\<in>set (branches r). \<exists>m m'. search B k' (rest @ br) m = Inr (Open w, m')"
    proof (cases r)
      case (AlphaRule adds name)
      then show ?thesis using alpha_result(2) [of "search B k'"] search_rule [OF noclash pick r assms(1) [unfolded k]]
        unfolding branches_def by simp blast
    next
      case (BetaRule brs name)
      then show ?thesis using beta_open [of "search B k'"] search_rule [OF noclash pick r assms(1) [unfolded k]]
        unfolding branches_def by simp blast
    qed
    ultimately show thesis using rule_ [OF k _ r] by blast
  qed
qed

subsection \<open>Soundness\<close>

definition holds :: "('w \<Rightarrow> 'w \<Rightarrow> bool) \<Rightarrow> ('w \<Rightarrow> jstr set) \<Rightarrow> 'w \<Rightarrow> Signed \<Rightarrow> bool" where
  "holds R V w s \<longleftrightarrow> (fst s = SignT) = sat R V w (snd s)"

lemma holds_rule:
  "rule_for s = Some r \<Longrightarrow> holds R V w s \<longleftrightarrow> (\<exists>br\<in>set (branches r). \<forall>t\<in>set br. holds R V w t)"
  by (induction s rule: rule_for.induct) (auto simp: holds_def branches_def)

lemma clash_unsat: "clash S \<Longrightarrow> \<exists>s\<in>S. \<not> holds R V w s"
  unfolding clash_def
proof (elim disjE exE conjE)
  fix f
  assume "(SignT, f) \<in> S" "(SignF, f) \<in> S"
  then show ?thesis by (cases "sat R V w f") (auto simp: holds_def intro: bexI [rotated])
qed (auto simp: holds_def intro: bexI [rotated])

text \<open>A defect of a box has a last witness, where the box holds.\<close>

lemma loeb_witness:
  assumes "gl_frame R" and "\<not> sat R V w (FBox A)"
  obtains v where "R w v" "\<not> sat R V v A" "sat R V v (FBox A)"
proof -
  have wf: "wfp (R\<inverse>\<inverse>)" and tr: "transp R" using assms(1) by (simp_all add: gl_frame_def)
  obtain u where u: "u \<in> {v. R w v \<and> \<not> sat R V v A}" using assms(2) by auto
  obtain v where v: "v \<in> {v. R w v \<and> \<not> sat R V v A}" and max: "\<And>x. R\<inverse>\<inverse> x v \<Longrightarrow> x \<notin> {v. R w v \<and> \<not> sat R V v A}"
    using wfp_eq_minimal [THEN iffD1, rule_format, OF wf u] by blast
  moreover have "sat R V v (FBox A)"
    using max v tr by (fastforce dest: transpD)
  ultimately show thesis using that by auto
qed

lemma successor_sat:
  assumes "gl_frame R" and "\<forall>s\<in>set sfs. holds R V w s" and "(SignF, FBox A) \<in> set sfs"
    and bs: "\<And>a. a \<in> set bs \<Longrightarrow> (SignT, FBox a) \<in> set sfs"
  shows "\<exists>v. \<forall>s\<in>set (successor bs A). holds R V v s"
proof -
  have "\<not> sat R V w (FBox A)" using assms(2,3) by (force simp: holds_def)
  then obtain v where v: "R w v" "\<not> sat R V v A" "sat R V v (FBox A)" using loeb_witness [OF assms(1)] by blast
  have "sat R V w (FBox a)" if "a \<in> set bs" for a using assms(2) bs [OF that] by (force simp: holds_def)
  moreover have "transp R" using assms(1) by (simp add: gl_frame_def)
  ultimately have "sat R V v a \<and> sat R V v (FBox a)" if "a \<in> set bs" for a
    using v(1) that by (auto dest: transpD)
  with v show ?thesis by (intro exI [of _ v]) (auto simp: set_successor holds_def)
qed

lemma plain_successor: "plain_sfs sfs \<Longrightarrow> (SignF, FBox A) \<in> set sfs \<Longrightarrow> plain_sfs (successor (boxes SignT (dedup sfs)) A)"
proof -
  assume *: "plain_sfs sfs" "(SignF, FBox A) \<in> set sfs"
  have "plain a" if "(t, FBox a) \<in> set sfs" for t a using *(1) that by (force simp: plain_sfs_def)
  with * show ?thesis by (auto simp: plain_sfs_def set_successor set_boxes set_dedup)
qed

lemma plain_branch:
  "plain_sfs sfs \<Longrightarrow> set sfs = insert s (set rest) \<Longrightarrow> rule_for s = Some r \<Longrightarrow> br \<in> set (branches r) \<Longrightarrow> plain_sfs (rest @ br)"
  using rule_plain [of s r br] by (auto simp: plain_sfs_def)

lemma closed_unsat:
  assumes "search B k sfs n = Inr (Closed p, n')" and "plain_sfs sfs" and "gl_frame R"
  shows "\<exists>s\<in>set sfs. \<not> holds R V w s"
  using assms(1,2)
proof (induction k arbitrary: sfs n p n' w rule: less_induct)
  case (less k)
  from less.prems show ?case
  proof (cases rule: search_closed_cases)
    case clash
    then show ?thesis by (rule clash_unsat)
  next
    case (rule_ k' s rest r)
    have "\<exists>t\<in>set (rest @ br). \<not> holds R V w t" if "br \<in> set (branches r)" for br
      using less.IH [of k' "rest @ br"] rule_(1) rule_(4) [OF that] plain_branch [OF less.prems(2) rule_(2,3) that] by blast
    then show ?thesis using holds_rule [OF rule_(3), of R V w] rule_(2) by fastforce
  next
    case (modal_ k' A m q m')
    then have unsat: "\<exists>s\<in>set (successor (boxes SignT (dedup sfs)) A). \<not> holds R V v s" for v
      using less.IH [OF _ modal_(3)] plain_successor [OF less.prems(2)] by simp
    show ?thesis
    proof (rule ccontr)
      assume "\<not> (\<exists>s\<in>set sfs. \<not> holds R V w s)"
      then have "\<exists>v. \<forall>s\<in>set (successor (boxes SignT (dedup sfs)) A). holds R V v s"
        by (intro successor_sat [OF assms(3) _ modal_(2)]) (auto simp: set_boxes set_dedup [OF less.prems(2)])
      with unsat show False by blast
    qed
  qed
qed

subsection \<open>Completeness\<close>

text \<open>An open branch is a tree of worlds; each world sees its proper descendants.\<close>

definition child :: "WorldNode \<Rightarrow> WorldNode \<Rightarrow> bool" where
  "child w v \<longleftrightarrow> v \<in> set (succs w)"

abbreviation tree_sat :: "WorldNode \<Rightarrow> Formula \<Rightarrow> bool" where
  "tree_sat \<equiv> sat child\<^sup>+\<^sup>+ (\<lambda>w. set (trueAtoms w))"

abbreviation tree_holds :: "WorldNode \<Rightarrow> Signed \<Rightarrow> bool" where
  "tree_holds \<equiv> holds child\<^sup>+\<^sup>+ (\<lambda>w. set (trueAtoms w))"

lemma saturated_holds:
  assumes "\<not> clash S" and "s \<in> S" and "\<not> compound (snd s)" and atoms: "\<And>p. p \<in> set (trueAtoms w) \<longleftrightarrow> (SignT, FAtom p) \<in> S"
    and below: "\<And>v a. child w v \<Longrightarrow> (SignT, FBox a) \<in> S \<Longrightarrow> tree_sat v a \<and> tree_sat v (FBox a)"
    and defects: "\<And>A. (SignF, FBox A) \<in> S \<Longrightarrow> \<exists>v. child w v \<and> \<not> tree_sat v A"
  shows "tree_holds w s"
proof -
  obtain t f where s: "s = (t, f)" by fastforce
  show ?thesis
  proof (cases f)
    case (FAtom p)
    then show ?thesis using assms(1,2) s by (cases t) (auto simp: holds_def atoms clash_def)
  next
    case FTop
    then show ?thesis using assms(1,2) s by (cases t) (auto simp: holds_def clash_def)
  next
    case FBot
    then show ?thesis using assms(1,2) s by (cases t) (auto simp: holds_def clash_def)
  next
    case (FBox a)
    show ?thesis
    proof (cases t)
      case SignT
      have "tree_sat v a" if v: "child\<^sup>+\<^sup>+ w v" for v
      proof -
        obtain u where u: "child w u" "child\<^sup>*\<^sup>* u v" using tranclpD [OF v] by blast
        have "tree_sat u a \<and> tree_sat u (FBox a)" using below [OF u(1)] assms(2) s FBox SignT by blast
        then show ?thesis using u(2) by (auto dest: rtranclpD)
      qed
      then show ?thesis using s FBox SignT by (simp add: holds_def)
    next
      case SignF
      then show ?thesis using defects assms(2) s FBox by (force simp: holds_def)
    qed
  qed (use assms(3) s in \<open>simp_all add: compound_def\<close>)
qed

lemma open_sat:
  assumes "search B k sfs n = Inr (Open w, n')" and "plain_sfs sfs" and "s \<in> set sfs"
  shows "tree_holds w s"
  using assms
proof (induction k arbitrary: sfs n n' w s rule: less_induct)
  case (less k)
  from less.prems(1,2) show ?case
  proof (cases rule: search_open_cases)
    case (rule_ k' t rest r br m m')
    have all: "tree_holds w u" if "u \<in> set (rest @ br)" for u
      using less.IH [OF _ rule_(5) plain_branch [OF less.prems(2) rule_(2,3,4)] that] rule_(1) by simp
    have "\<forall>u\<in>set br. tree_holds w u" using all by simp
    then have "tree_holds w t" unfolding holds_rule [OF rule_(3)] by (rule bexI [OF _ rule_(4)])
    with all [of s] show ?thesis using less.prems(3) rule_(2) by auto
  next
    case (modal_ k' vs)
    have set: "set (dedup sfs) = set sfs" using less.prems(2) by (rule set_dedup)
    have hold: "tree_holds v u" if "(SignF, FBox A) \<in> set sfs" "search B k' (successor (boxes SignT (dedup sfs)) A) m = Inr (Open v, m')"
        "u \<in> set (successor (boxes SignT (dedup sfs)) A)" for v A m m' u
      using less.IH [OF _ that(2) plain_successor [OF less.prems(2) that(1)] that(3)] modal_(1) by simp
    have zip: "\<exists>A. (SignF, FBox A) \<in> set sfs \<and> (\<exists>m m'. search B k' (successor (boxes SignT (dedup sfs)) A) m = Inr (Open v, m'))" if v: "v \<in> set vs" for v
    proof -
      obtain i where i: "i < length vs" "v = vs ! i" using v by (auto simp: in_set_conv_nth)
      then have "boxes SignF (dedup sfs) ! i \<in> set (boxes SignF (dedup sfs))" using modal_(5) by (simp add: list_all2_lengthD)
      then show ?thesis using list_all2_nthD2 [OF modal_(5) i(1)] i(2) by (auto simp: set_boxes set)
    qed
    have zip2: "\<exists>v\<in>set vs. \<exists>m m'. search B k' (successor (boxes SignT (dedup sfs)) A) m = Inr (Open v, m')" if A: "(SignF, FBox A) \<in> set sfs" for A
    proof -
      have "A \<in> set (boxes SignF (dedup sfs))" using A set by (simp add: set_boxes)
      then obtain i where i: "i < length (boxes SignF (dedup sfs))" "A = boxes SignF (dedup sfs) ! i" by (auto simp: in_set_conv_nth)
      then have "vs ! i \<in> set vs" using list_all2_lengthD [OF modal_(5)] by simp
      then show ?thesis using list_all2_nthD [OF modal_(5) i(1)] i(2) by blast
    qed
    show ?thesis
    proof (rule saturated_holds [OF modal_(2) less.prems(3) modal_(3) [OF less.prems(3)]])
      show "p \<in> set (trueAtoms w) \<longleftrightarrow> (SignT, FAtom p) \<in> set sfs" for p using modal_(4) set by (simp add: set_true_atoms)
    next
      fix v a
      assume "child w v" and a: "(SignT, FBox a) \<in> set sfs"
      then have "v \<in> set vs" using modal_(4) by (simp add: child_def)
      then obtain A m m' where A: "(SignF, FBox A) \<in> set sfs" "search B k' (successor (boxes SignT (dedup sfs)) A) m = Inr (Open v, m')" using zip by blast
      have "(SignT, a) \<in> set (successor (boxes SignT (dedup sfs)) A)" "(SignT, FBox a) \<in> set (successor (boxes SignT (dedup sfs)) A)"
        using a set by (auto simp: set_successor set_boxes)
      then show "tree_sat v a \<and> tree_sat v (FBox a)" using hold [OF A] by (fastforce simp: holds_def)
    next
      fix A
      assume A: "(SignF, FBox A) \<in> set sfs"
      then obtain v m m' where v: "v \<in> set vs" "search B k' (successor (boxes SignT (dedup sfs)) A) m = Inr (Open v, m')" using zip2 by blast
      have "tree_holds v (SignF, A)" using hold [OF A v(2)] by (simp add: set_successor)
      then show "\<exists>v. child w v \<and> \<not> tree_sat v A" using v(1) modal_(4) by (auto simp: child_def holds_def)
    qed
  qed
qed

subsection \<open>The model of an open branch\<close>

text \<open>The worlds of a tree with their numbers, and the tree edges with the nodes at their ends.\<close>

fun tree_size :: "WorldNode \<Rightarrow> nat" where
  "tree_size (WorldNode atoms ws) = 1 + sum_list (map tree_size ws)"

fun nodes :: "WorldNode \<Rightarrow> nat \<Rightarrow> (nat \<times> WorldNode) list"
  and nodes_list :: "WorldNode list \<Rightarrow> nat \<Rightarrow> (nat \<times> WorldNode) list" where
  "nodes (WorldNode atoms ws) c = (c, WorldNode atoms ws) # nodes_list ws (c + 1)"
| "nodes_list [] c = []"
| "nodes_list (w # ws) c = nodes w c @ nodes_list ws (c + tree_size w)"

fun links :: "WorldNode \<Rightarrow> nat \<Rightarrow> ((nat \<times> WorldNode) \<times> (nat \<times> WorldNode)) list"
  and links_list :: "nat \<times> WorldNode \<Rightarrow> WorldNode list \<Rightarrow> nat \<Rightarrow> ((nat \<times> WorldNode) \<times> (nat \<times> WorldNode)) list" where
  "links (WorldNode atoms ws) c = links_list (c, WorldNode atoms ws) ws (c + 1)"
| "links_list p [] c = []"
| "links_list p (w # ws) c = links w c @ (p, (c, w)) # links_list p ws (c + tree_size w)"

lemma node_numbers:
  "map fst (nodes w c) = [c ..< c + tree_size w]"
  "map fst (nodes_list ws c) = [c ..< c + sum_list (map tree_size ws)]"
proof (induction w c and ws c rule: nodes_nodes_list.induct)
  case (1 atoms ws c)
  then show ?case by (simp add: upt_rec)
next
  case (3 w ws c)
  then show ?case using upt_add_eq_append [of c "c + tree_size w" "sum_list (map tree_size ws)"] by (simp add: add.assoc)
qed simp

lemma links_ends:
  "(p, q) \<in> set (links w c) \<Longrightarrow> p \<in> set (nodes w c) \<and> q \<in> set (nodes w c) \<and> child (snd p) (snd q) \<and> fst p < fst q"
  "(p, q) \<in> set (links_list r ws c) \<Longrightarrow> fst r < c \<Longrightarrow> set ws \<subseteq> set (succs (snd r)) \<Longrightarrow>
    (p = r \<or> p \<in> set (nodes_list ws c)) \<and> q \<in> set (nodes_list ws c) \<and> child (snd p) (snd q) \<and> fst p < fst q"
proof (induction w c and r ws c arbitrary: p q and p q rule: links_links_list.induct)
  case (1 atoms ws c)
  then show ?case by fastforce
next
  case (3 r w ws c)
  have first: "(c, w) \<in> set (nodes w c)" by (cases w) simp
  from 3(3) consider "(p, q) \<in> set (links w c)" | "p = r" "q = (c, w)" | "(p, q) \<in> set (links_list r ws (c + tree_size w))" by auto
  then show ?case
  proof cases
    case 1
    then show ?thesis using 3(1) by auto
  next
    case 2
    then show ?thesis using first 3(4,5) by (auto simp: child_def)
  next
    case 3
    then show ?thesis using "3.IH"(2) [of p q] "3.prems" by auto
  qed
qed simp

lemma links_back:
  "(i, n) \<in> set (nodes w c) \<Longrightarrow> child n v \<Longrightarrow> \<exists>j. ((i, n), (j, v)) \<in> set (links w c)"
  "(v \<in> set ws \<longrightarrow> (\<exists>j. (r, (j, v)) \<in> set (links_list r ws c))) \<and>
    ((i, n) \<in> set (nodes_list ws c) \<longrightarrow> child n v \<longrightarrow> (\<exists>j. ((i, n), (j, v)) \<in> set (links_list r ws c)))"
proof (induction w c and r ws c rule: links_links_list.induct)
  case (1 atoms ws c)
  then show ?case by (auto simp: child_def)
next
  case (3 r w ws c)
  then show ?case by auto
qed simp

definition id_edges :: "WorldNode \<Rightarrow> nat \<Rightarrow> (jstr \<times> jstr) list" where
  "id_edges w c = map (\<lambda>(p, q). (world_id (fst p), world_id (fst q))) (links w c)"

definition builder_after :: "model_builder \<Rightarrow> nat \<Rightarrow> (nat \<times> WorldNode) list \<Rightarrow> ((nat \<times> WorldNode) \<times> (nat \<times> WorldNode)) list \<Rightarrow> model_builder" where
  "builder_after b c ns es =
     \<lparr>mb_counter = c, mb_worlds = mb_worlds b @ map (world_id \<circ> fst) ns,
      mb_edges = mb_edges b @ map (\<lambda>(p, q). (world_id (fst p), world_id (fst q))) es,
      mb_valuation = mb_valuation b @ map (\<lambda>(i, n). (world_id i, sort_by (\<le>) (trueAtoms n))) ns\<rparr>"

lemma world_id_inject [simp]: "world_id i = world_id j \<longleftrightarrow> i = j"
  by (simp add: world_id_def)

definition fresh_from :: "model_builder \<Rightarrow> bool" where
  "fresh_from b \<longleftrightarrow> (\<forall>i\<ge>mb_counter b. map_of (mb_valuation b) (world_id i) = None)"

lemma update_new: "map_of al k = None \<Longrightarrow> AList.update k v al = al @ [(k, v)]"
  by (induction al) (auto split: if_splits)

lemma fresh_after:
  assumes "fresh_from b" and "map fst ns = [mb_counter b ..< c]" and "mb_counter b \<le> c"
  shows "fresh_from (builder_after b c ns es)"
proof -
  have "map_of (map (\<lambda>(i, n). (world_id i, g n)) ns) (world_id i) = None" if "i \<ge> c" "\<forall>j\<in>fst ` set ns. j < c" for i g
    using that by (induction ns) auto
  moreover have "\<forall>j\<in>fst ` set ns. j < c" using assms(2) by (metis atLeastLessThan_iff set_map set_upt)
  ultimately show ?thesis
    using assms by (auto simp: fresh_from_def builder_after_def map_add_def split: option.splits)
qed

lemma assign_eq:
  "fresh_from b \<Longrightarrow> assign w b =
    (world_id (mb_counter b), builder_after b (mb_counter b + tree_size w) (nodes w (mb_counter b)) (links w (mb_counter b)))"
  "fresh_from b \<Longrightarrow> i = world_id (fst r) \<Longrightarrow> assign_list i ws b =
    builder_after b (mb_counter b + sum_list (map tree_size ws)) (nodes_list ws (mb_counter b)) (links_list r ws (mb_counter b))"
proof (induction w b and i ws b arbitrary: and r rule: assign_assign_list.induct)
  case (1 atoms ws b)
  define b1 where "b1 = builder_after b (mb_counter b + 1) [(mb_counter b, WorldNode atoms ws)] []"
  have "fresh_from b1" unfolding b1_def using 1(2) by (intro fresh_after) auto
  have eq: "\<lparr>mb_counter = mb_counter b + 1, mb_worlds = mb_worlds b @ [world_id (mb_counter b)], mb_edges = mb_edges b,
      mb_valuation = AList.update (world_id (mb_counter b)) (sort_by (\<le>) atoms) (mb_valuation b)\<rparr> = b1"
    using 1(2) by (simp add: b1_def builder_after_def fresh_from_def update_new)
  have "assign_list (world_id (mb_counter b)) ws b1 = builder_after b1 (mb_counter b1 + sum_list (map tree_size ws))
      (nodes_list ws (mb_counter b1)) (links_list (mb_counter b, WorldNode atoms ws) ws (mb_counter b1))"
    using 1(1) [OF refl, of "(mb_counter b, WorldNode atoms ws)"] \<open>fresh_from b1\<close> unfolding eq by simp
  moreover have "assign (WorldNode atoms ws) b = (world_id (mb_counter b), assign_list (world_id (mb_counter b)) ws b1)"
    unfolding assign.simps Let_def eq ..
  ultimately show ?case by (simp add: b1_def builder_after_def)
next
  case (2 i b)
  then show ?case by (simp add: builder_after_def)
next
  case (3 i w ws b)
  define c where "c = mb_counter b + tree_size w"
  define b1 where "b1 = builder_after b c (nodes w (mb_counter b)) (links w (mb_counter b))"
  define b2 where "b2 = b1\<lparr>mb_edges := mb_edges b1 @ [(i, world_id (mb_counter b))]\<rparr>"
  have a: "assign w b = (world_id (mb_counter b), b1)" using 3(1,3) by (simp add: b1_def c_def)
  have "fresh_from b1" unfolding b1_def using 3(3) by (intro fresh_after) (simp_all add: node_numbers c_def)
  then have "fresh_from b2" by (simp add: b2_def fresh_from_def)
  from 3(2) [OF a [symmetric] refl _ 3(4)] this
  have "assign_list i ws b2 = builder_after b2 (mb_counter b2 + sum_list (map tree_size ws)) (nodes_list ws (mb_counter b2)) (links_list r ws (mb_counter b2))"
    by (simp add: b2_def)
  then show ?case
    using a 3(4) by (simp add: b2_def b1_def builder_after_def c_def add.assoc split: prod.splits)
qed

lemma buildModel_eq:
  "buildModel w =
    (\<lparr>worlds = map (world_id \<circ> fst) (nodes w 0), edges = transitiveClosure (id_edges w 0),
      valuation = map (\<lambda>(i, n). (world_id i, sort_by (\<le>) (trueAtoms n))) (nodes w 0)\<rparr>, world_id 0)"
proof -
  have "fresh_from \<lparr>mb_counter = 0, mb_worlds = [], mb_edges = [], mb_valuation = []\<rparr>" by (simp add: fresh_from_def)
  from assign_eq(1) [OF this, of w] show ?thesis by (simp add: buildModel_def builder_after_def id_edges_def)
qed

lemma world_id_plain: "0 \<notin> set (world_id i)"
  using nat_str_digits [of 0 i] by (auto simp: world_id_def js_def cu_def is_digit_def)

lemma plain_id_edges: "plain_edges (set (id_edges w c))"
  by (auto simp: plain_edges_def id_edges_def world_id_plain)

lemma id_edges_increase:
  assumes "(a, b) \<in> (set (id_edges w c))\<^sup>+"
  obtains i j where "a = world_id i" "b = world_id j" "i < j"
proof -
  have "\<exists>i j. a = world_id i \<and> b = world_id j \<and> i < j"
    using assms
  proof (induction rule: trancl.induct)
    case (r_into_trancl a b)
    then show ?case using links_ends(1) by (auto simp: id_edges_def)
  next
    case (trancl_into_trancl a b d)
    then obtain i j where ij: "a = world_id i" "b = world_id j" "i < j" by blast
    from trancl_into_trancl(2) obtain k where "d = world_id k" "j < k"
      using ij(2) links_ends(1) by (auto simp: id_edges_def)
    with ij show ?case by (metis less_trans)
  qed
  then show thesis using that by blast
qed

lemma bisimulation_sat:
  assumes "\<And>a b. X a b \<Longrightarrow> V a = W b"
    and "\<And>a b a'. X a b \<Longrightarrow> R a a' \<Longrightarrow> \<exists>b'. S b b' \<and> X a' b'" and "\<And>a b b'. X a b \<Longrightarrow> S b b' \<Longrightarrow> \<exists>a'. R a a' \<and> X a' b'"
  shows "X a b \<Longrightarrow> sat R V a f = sat S W b f"
proof (induction f arbitrary: a b)
  case (FBox f)
  then show ?case using assms(2,3) by (simp, metis)
qed (use assms(1) in auto)

definition numbered :: "WorldNode \<Rightarrow> jstr \<Rightarrow> WorldNode \<Rightarrow> bool" where
  "numbered w a n \<longleftrightarrow> (\<exists>i. a = world_id i \<and> (i, n) \<in> set (nodes w 0))"

lemma numbered_inject: "numbered w (world_id i) n \<longleftrightarrow> (i, n) \<in> set (nodes w 0)"
  by (simp add: numbered_def)

lemma nodes_functional: "(i, n) \<in> set (nodes w c) \<Longrightarrow> (i, n') \<in> set (nodes w c) \<Longrightarrow> n = n'"
  using node_numbers(1) [of w c] by (metis distinct_upt eq_key_imp_eq_value)

lemma numbered_forth:
  assumes "numbered w a n" and "(a, b) \<in> set (id_edges w 0)"
  shows "\<exists>v. child n v \<and> numbered w b v"
proof -
  obtain p q where pq: "(p, q) \<in> set (links w 0)" "a = world_id (fst p)" "b = world_id (fst q)" using assms(2) by (auto simp: id_edges_def)
  then have "(fst p, n) \<in> set (nodes w 0)" using assms(1) by (simp add: numbered_inject)
  then have "snd p = n" using links_ends(1) [OF pq(1)] nodes_functional by (metis prod.collapse)
  then show ?thesis using links_ends(1) [OF pq(1)] pq(3) by (intro exI [of _ "snd q"]) (simp add: numbered_inject)
qed

lemma numbered_back:
  assumes "numbered w a n" and "child n v"
  shows "\<exists>b. (a, b) \<in> set (id_edges w 0) \<and> numbered w b v"
proof -
  obtain i where i: "a = world_id i" "(i, n) \<in> set (nodes w 0)" using assms(1) by (auto simp: numbered_def)
  then obtain j where "((i, n), (j, v)) \<in> set (links w 0)" using links_back(1) assms(2) by blast
  then show ?thesis using links_ends(1) i(1) by (intro exI [of _ "world_id j"]) (force simp: id_edges_def numbered_inject)
qed

lemma numbered_forth_trancl:
  "(a, b) \<in> (set (id_edges w 0))\<^sup>+ \<Longrightarrow> numbered w a n \<Longrightarrow> \<exists>v. child\<^sup>+\<^sup>+ n v \<and> numbered w b v"
proof (induction rule: trancl.induct)
  case (r_into_trancl a b)
  then show ?case using numbered_forth by (metis tranclp.r_into_trancl)
next
  case (trancl_into_trancl a b d)
  then show ?case using numbered_forth by (metis tranclp.trancl_into_trancl)
qed

lemma numbered_back_trancl:
  "child\<^sup>+\<^sup>+ n v \<Longrightarrow> numbered w a n \<Longrightarrow> \<exists>b. (a, b) \<in> (set (id_edges w 0))\<^sup>+ \<and> numbered w b v"
proof (induction rule: tranclp.induct)
  case (r_into_trancl n v)
  then show ?case using numbered_back by (metis trancl.r_into_trancl)
next
  case (trancl_into_trancl n v u)
  then show ?case using numbered_back by (metis trancl.trancl_into_trancl)
qed

lemma built_model:
  assumes "buildModel w = (m, root)"
  shows "plain_model m" and "isGLFrame m" and "root \<in> set (worlds m)" and "satisfies m root f \<longleftrightarrow> tree_sat w f"
proof -
  let ?E = "(set (id_edges w 0))\<^sup>+"
  have m: "m = \<lparr>worlds = map (world_id \<circ> fst) (nodes w 0), edges = transitiveClosure (id_edges w 0),
      valuation = map (\<lambda>(i, n). (world_id i, sort_by (\<le>) (trueAtoms n))) (nodes w 0)\<rparr>" and root: "root = world_id 0"
    using assms by (simp_all add: buildModel_eq)
  have E: "set (edges m) = ?E" using transitiveClosure_trancl [OF plain_id_edges] by (simp add: m)
  show plain: "plain_model m" unfolding plain_model_edges E by (rule plain_trancl [OF plain_id_edges])
  have "transp (edge_rel m)" unfolding edge_rel_def E by (auto simp: transp_def)
  moreover have "irreflp (edge_rel m)" unfolding edge_rel_def E by (auto simp: irreflp_def elim: id_edges_increase)
  ultimately show "isGLFrame m" using plain by (simp add: isGLFrame_def isTransitive_iff isIrreflexive_iff)
  have self: "(0, w) \<in> set (nodes w 0)" by (cases w) simp
  then show "root \<in> set (worlds m)" by (force simp: m root)
  have "numbered w root w" using self by (simp add: root numbered_inject)
  moreover have "set (atoms_at m a) = set (trueAtoms n)" if num: "numbered w a n" for a n
  proof -
    obtain i where i: "a = world_id i" "(i, n) \<in> set (nodes w 0)" using num by (auto simp: numbered_def)
    have "distinct (map fst (valuation m))"
      using node_numbers(1) [of w 0] by (simp add: m case_prod_beta comp_def distinct_map inj_on_def) (metis distinct_map distinct_upt inj_on_def map_map)
    moreover have "(a, sort_by (\<le>) (trueAtoms n)) \<in> set (valuation m)" using i by (force simp: m)
    ultimately show ?thesis by (simp add: atoms_at_def)
  qed
  moreover have "edge_rel m a b \<longleftrightarrow> (a, b) \<in> ?E" for a b by (simp add: edge_rel_def E)
  ultimately show "satisfies m root f \<longleftrightarrow> tree_sat w f"
    unfolding satisfies_sat using numbered_forth_trancl numbered_back_trancl
    by (intro bisimulation_sat [where X = "numbered w"]) blast+
qed

subsection \<open>Fuel and budget\<close>

definition counts_up :: "search_fun \<Rightarrow> bool" where
  "counts_up f \<longleftrightarrow> (\<forall>sfs n r n'. f sfs n = Inr (r, n') \<longrightarrow> n \<le> n')"

lemma loops_count_up:
  assumes "counts_up f"
  shows "alpha f rest seq adds name n = Inr (r, n') \<Longrightarrow> n \<le> n'"
    and "beta f rest seq brs name ps n = Inr (r, n') \<Longrightarrow> n \<le> n'"
    and "modal f seq bs atoms ws As n = Inr (r, n') \<Longrightarrow> n \<le> n'"
proof -
  have up: "f sfs k = Inr (q, k') \<Longrightarrow> k \<le> k'" for sfs k q k' using assms by (simp add: counts_up_def)
  show "alpha f rest seq adds name n = Inr (r, n') \<Longrightarrow> n \<le> n'"
    using up by (fastforce simp: alpha_def split: sum.splits SearchResult.splits)
  show "beta f rest seq brs name ps n = Inr (r, n') \<Longrightarrow> n \<le> n'"
  proof (induction brs arbitrary: ps n)
    case (Cons br brs)
    then show ?case using up by (fastforce split: sum.splits SearchResult.splits dest: order_trans)
  qed simp
  show "modal f seq bs atoms ws As n = Inr (r, n') \<Longrightarrow> n \<le> n'"
  proof (induction As arbitrary: ws n)
    case (Cons A As)
    then show ?case using up by (fastforce split: sum.splits SearchResult.splits dest: order_trans)
  qed simp
qed

lemma search_counts_up: "counts_up (search B k)"
proof (induction k)
  case (Suc k)
  note loops_count_up [OF Suc]
  then show ?case
    unfolding counts_up_def
    by (auto simp: Let_def saturated_def split: if_splits option.splits rule.splits) (meson Suc_leD)+
qed (simp add: counts_up_def)

lemma search_errors: "search B k sfs n = Inl e \<Longrightarrow> e \<in> {NodeBudget, OutOfFuel}"
proof (induction k arbitrary: sfs n)
  case (Suc k)
  have a: "alpha (search B k) rest seq adds name m = Inl e \<Longrightarrow> e \<in> {NodeBudget, OutOfFuel}" for rest seq adds name m
    using Suc.IH by (auto simp: alpha_def split: sum.splits SearchResult.splits)
  have b: "beta (search B k) rest seq brs name ps m = Inl e \<Longrightarrow> e \<in> {NodeBudget, OutOfFuel}" for rest seq brs name ps m
    using Suc.IH by (induction brs arbitrary: ps m) (auto split: sum.splits SearchResult.splits)
  have c: "modal (search B k) seq bs atoms ws As m = Inl e \<Longrightarrow> e \<in> {NodeBudget, OutOfFuel}" for seq bs atoms ws As m
    using Suc.IH by (induction As arbitrary: ws m) (auto split: sum.splits SearchResult.splits)
  from Suc.prems a b c show ?case
    by (auto simp: Let_def saturated_def split: if_splits option.splits rule.splits)
qed simp

lemma loops_have_fuel:
  assumes "counts_up f" and "\<And>sfs m. n \<le> m \<Longrightarrow> f sfs m \<noteq> Inl OutOfFuel"
  shows "alpha f rest seq adds name n \<noteq> Inl OutOfFuel"
    and "n \<le> m \<Longrightarrow> beta f rest seq brs name ps m \<noteq> Inl OutOfFuel"
    and "n \<le> m \<Longrightarrow> modal f seq bs atoms ws As m \<noteq> Inl OutOfFuel"
proof -
  have up: "f sfs k = Inr (q, k') \<Longrightarrow> n \<le> k \<Longrightarrow> n \<le> k'" for sfs k q k' using assms(1) by (fastforce simp: counts_up_def)
  show "alpha f rest seq adds name n \<noteq> Inl OutOfFuel"
    using assms(2) by (auto simp: alpha_def split: sum.splits SearchResult.splits)
  show "n \<le> m \<Longrightarrow> beta f rest seq brs name ps m \<noteq> Inl OutOfFuel"
    using assms(2) up by (induction brs arbitrary: ps m) (auto split: sum.splits SearchResult.splits)
  show "n \<le> m \<Longrightarrow> modal f seq bs atoms ws As m \<noteq> Inl OutOfFuel"
    using assms(2) up by (induction As arbitrary: ws m) (auto split: sum.splits SearchResult.splits)
qed

lemma search_has_fuel: "0 < k \<Longrightarrow> B < n + k \<Longrightarrow> search B k sfs n \<noteq> Inl OutOfFuel"
proof (induction k arbitrary: sfs n)
  case (Suc k)
  show ?case
  proof (cases "B < n + 1")
    case False
    then have "search B k sfs m \<noteq> Inl OutOfFuel" if "n + 1 \<le> m" for sfs m using Suc.IH [of m sfs] Suc.prems(2) that by simp
    from loops_have_fuel [OF search_counts_up this] False show ?thesis
      by (auto simp: Let_def saturated_def split: option.splits rule.splits)
  qed simp
qed simp

subsection \<open>The number of nodes\<close>

primrec parts :: "Formula \<Rightarrow> Formula set" where
  "parts (FAtom p) = {FAtom p}"
| "parts FTop = {FTop}"
| "parts FBot = {FBot}"
| "parts (FNot a) = insert (FNot a) (parts a)"
| "parts (FAnd a b) = insert (FAnd a b) (parts a \<union> parts b)"
| "parts (FOr a b) = insert (FOr a b) (parts a \<union> parts b)"
| "parts (FImp a b) = insert (FImp a b) (parts a \<union> parts b)"
| "parts (FIff a b) = insert (FIff a b) (parts a \<union> parts b)"
| "parts (FBox a) = insert (FBox a) (parts a)"

primrec fsize :: "Formula \<Rightarrow> nat" where
  "fsize (FAtom p) = 1"
| "fsize FTop = 1"
| "fsize FBot = 1"
| "fsize (FNot a) = 1 + fsize a"
| "fsize (FAnd a b) = 1 + fsize a + fsize b"
| "fsize (FOr a b) = 1 + fsize a + fsize b"
| "fsize (FImp a b) = 1 + fsize a + fsize b"
| "fsize (FIff a b) = 1 + fsize a + fsize b"
| "fsize (FBox a) = 1 + fsize a"

lemma finite_parts [simp]: "finite (parts f)"
  by (induction f) auto

lemma self_parts [simp]: "f \<in> parts f"
  by (cases f) auto

lemma parts_trans: "g \<in> parts f \<Longrightarrow> parts g \<subseteq> parts f"
  by (induction f) auto

lemma fsize_pos: "0 < fsize f"
  by (cases f) auto

definition weight :: "Signed set \<Rightarrow> nat" where
  "weight S = (\<Sum>s\<in>S. fsize (snd s))"

definition max_weight :: "Formula \<Rightarrow> nat" where
  "max_weight phi = 2 * (\<Sum>f\<in>parts phi. fsize f)"

definition open_boxes :: "Formula \<Rightarrow> Signed set \<Rightarrow> nat" where
  "open_boxes phi S = card {a. FBox a \<in> parts phi \<and> (SignT, FBox a) \<notin> S}"

definition node_measure :: "Formula \<Rightarrow> Signed set \<Rightarrow> nat" where
  "node_measure phi S = open_boxes phi S * (max_weight phi + 1) + weight S"

definition node_bound :: "Formula \<Rightarrow> nat" where
  "node_bound phi = (max_weight phi + 2) ^ (card {a. FBox a \<in> parts phi} * (max_weight phi + 1) + fsize phi + 1)"

lemma weight_max:
  assumes "snd ` S \<subseteq> parts phi"
  shows "weight S \<le> max_weight phi" and "finite S"
proof -
  have sub: "S \<subseteq> {SignT, SignF} \<times> parts phi"
  proof
    fix s
    assume "s \<in> S"
    then have "snd s \<in> parts phi" using assms by auto
    then show "s \<in> {SignT, SignF} \<times> parts phi" by (cases s; cases "fst s") auto
  qed
  then show "finite S" by (rule finite_subset) simp
  have "weight S \<le> weight ({SignT, SignF} \<times> parts phi)" unfolding weight_def by (rule sum_mono2) (use sub in auto)
  also have "\<dots> = (\<Sum>t\<in>{SignT, SignF}. \<Sum>f\<in>parts phi. fsize f)"
    unfolding sum.cartesian_product weight_def by (simp add: case_prod_beta)
  also have "\<dots> = max_weight phi" by (simp add: max_weight_def)
  finally show "weight S \<le> max_weight phi" .
qed

lemma finite_boxes [simp]: "finite {a. FBox a \<in> parts phi \<and> P a}"
proof -
  have "FBox ` {a. FBox a \<in> parts phi \<and> P a} \<subseteq> parts phi" by auto
  then have "finite (FBox ` {a. FBox a \<in> parts phi \<and> P a})" by (rule finite_subset) simp
  then show ?thesis by (rule finite_imageD) (simp add: inj_on_def)
qed

lemma rule_shrinks:
  "rule_for s = Some r \<Longrightarrow> compound (snd s) \<Longrightarrow> br \<in> set (branches r) \<Longrightarrow> weight (set br) < fsize (snd s) \<and> snd ` set br \<subseteq> parts (snd s)"
  by (induction s rule: rule_for.induct) (auto simp: branches_def weight_def compound_def sum.insert_if)

lemma rule_branches: "rule_for s = Some r \<Longrightarrow> length (branches r) \<le> 2"
  by (induction s rule: rule_for.induct) (auto simp: branches_def)

definition answers_within :: "nat \<Rightarrow> nat \<Rightarrow> (nat \<Rightarrow> tableau_error + SearchResult \<times> nat) \<Rightarrow> bool" where
  "answers_within B c g \<longleftrightarrow> (\<forall>n. n + c \<le> B \<longrightarrow> (\<exists>r n'. g n = Inr (r, n') \<and> n' \<le> n + c))"

lemma answers_mono:
  assumes "answers_within B c g" and "c \<le> d"
  shows "answers_within B d g"
  unfolding answers_within_def
proof (intro allI impI)
  fix n
  assume "n + d \<le> B"
  then have "n + c \<le> B" using assms(2) by simp
  then obtain r n' where "g n = Inr (r, n')" "n' \<le> n + c" using assms(1) by (auto simp: answers_within_def)
  then show "\<exists>r n'. g n = Inr (r, n') \<and> n' \<le> n + d" using assms(2) by auto
qed

lemma answers_step:
  assumes "answers_within B c g" and "n + c \<le> B"
  obtains r n' where "g n = Inr (r, n')" "n' \<le> n + c"
  using assms by (auto simp: answers_within_def)

lemma alpha_answers:
  assumes "answers_within B c (f (rest @ adds))"
  shows "answers_within B c (alpha f rest seq adds name)"
  unfolding answers_within_def
proof (intro allI impI)
  fix n
  assume "n + c \<le> B"
  then obtain r n' where "f (rest @ adds) n = Inr (r, n')" "n' \<le> n + c" using assms answers_step by blast
  then show "\<exists>r n'. alpha f rest seq adds name n = Inr (r, n') \<and> n' \<le> n + c" by (cases r) (auto simp: alpha_def)
qed

lemma beta_answers:
  "(\<And>br. br \<in> set brs \<Longrightarrow> answers_within B c (f (rest @ br))) \<Longrightarrow> n + length brs * c \<le> B \<Longrightarrow>
    \<exists>r n'. beta f rest seq brs name ps n = Inr (r, n') \<and> n' \<le> n + length brs * c"
proof (induction brs arbitrary: ps n)
  case (Cons br brs)
  have "n + c \<le> B" using Cons.prems(2) by simp
  then obtain r m where m: "f (rest @ br) n = Inr (r, m)" "m \<le> n + c" using answers_step Cons.prems(1) [of br] by (metis list.set_intros(1))
  show ?case
  proof (cases r)
    case (Closed p)
    have "m + length brs * c \<le> B" using Cons.prems(2) m(2) by simp
    then obtain q n' where "beta f rest seq brs name (ps @ [p]) m = Inr (q, n')" "n' \<le> m + length brs * c"
      using Cons.IH Cons.prems(1) by (metis list.set_intros(2))
    then show ?thesis using m Closed by auto
  next
    case (Open w)
    then show ?thesis using m by auto
  qed
qed simp

lemma modal_answers:
  "(\<And>A. A \<in> set As \<Longrightarrow> answers_within B c (f (successor bs A))) \<Longrightarrow> n + length As * c \<le> B \<Longrightarrow>
    \<exists>r n'. modal f seq bs atoms ws As n = Inr (r, n') \<and> n' \<le> n + length As * c"
proof (induction As arbitrary: ws n)
  case (Cons A As)
  have "n + c \<le> B" using Cons.prems(2) by simp
  then obtain r m where m: "f (successor bs A) n = Inr (r, m)" "m \<le> n + c" using answers_step Cons.prems(1) [of A] by (metis list.set_intros(1))
  show ?case
  proof (cases r)
    case (Open w)
    have "m + length As * c \<le> B" using Cons.prems(2) m(2) by simp
    then obtain q n' where "modal f seq bs atoms (ws @ [w]) As m = Inr (q, n')" "n' \<le> m + length As * c"
      using Cons.IH Cons.prems(1) by (metis list.set_intros(2))
    then show ?thesis using m Open by auto
  next
    case (Closed p)
    then show ?thesis using m by auto
  qed
qed simp

lemma open_boxes_mono:
  assumes "\<And>a. (SignT, FBox a) \<in> S \<Longrightarrow> (SignT, FBox a) \<in> S'"
  shows "open_boxes phi S' \<le> open_boxes phi S"
  unfolding open_boxes_def by (rule card_mono) (use assms in auto)

lemma branch_measure:
  assumes "snd ` S \<subseteq> parts phi" and "S = insert s (set rest)" and "s \<notin> set rest" and "rule_for s = Some r" and "compound (snd s)"
    and "br \<in> set (branches r)"
  shows "node_measure phi (set (rest @ br)) < node_measure phi S" and "snd ` set (rest @ br) \<subseteq> parts phi"
proof -
  have shrink: "weight (set br) < fsize (snd s)" "snd ` set br \<subseteq> parts (snd s)" using rule_shrinks [OF assms(4-6)] by blast+
  moreover have "parts (snd s) \<subseteq> parts phi" using assms(1,2) parts_trans by auto
  ultimately show "snd ` set (rest @ br) \<subseteq> parts phi" using assms(1,2) by (auto simp: image_Un)
  have "weight (set (rest @ br)) \<le> weight (set rest) + weight (set br)"
    using sum_Un_nat [of "set rest" "set br" "fsize \<circ> snd"] by (simp add: weight_def comp_def)
  also have "\<dots> < weight S" using shrink(1) assms(2,3) by (simp add: weight_def)
  finally have "weight (set (rest @ br)) < weight S" .
  moreover have "open_boxes phi (set (rest @ br)) \<le> open_boxes phi S"
    using assms(2,5) by (intro open_boxes_mono) (auto simp: compound_def)
  ultimately show "node_measure phi (set (rest @ br)) < node_measure phi S"
    unfolding node_measure_def by (meson add_le_less_mono mult_le_mono1)
qed

lemma successor_measure:
  assumes "snd ` S \<subseteq> parts phi" and "(SignF, FBox A) \<in> S" and "\<not> clash S" and bs: "set bs = {a. (SignT, FBox a) \<in> S}"
  shows "node_measure phi (set (successor bs A)) < node_measure phi S" and "snd ` set (successor bs A) \<subseteq> parts phi"
proof -
  have box: "a \<in> parts phi" if "FBox a \<in> parts phi" for a using parts_trans [OF that] by auto
  have sub: "FBox a \<in> parts phi" if "(t, FBox a) \<in> S" for t a using assms(1) that by (force intro: imageI [of _ S snd])
  show *: "snd ` set (successor bs A) \<subseteq> parts phi" using sub box assms(2) bs by (auto simp: set_successor)
  have "open_boxes phi (set (successor bs A)) < open_boxes phi S"
    unfolding open_boxes_def
  proof (rule psubset_card_mono)
    show "{a. FBox a \<in> parts phi \<and> (SignT, FBox a) \<notin> set (successor bs A)} \<subset> {a. FBox a \<in> parts phi \<and> (SignT, FBox a) \<notin> S}"
      using bs assms(2,3) sub by (auto simp: set_successor clash_def)
  qed simp
  then have "Suc (open_boxes phi (set (successor bs A))) * (max_weight phi + 1) \<le> open_boxes phi S * (max_weight phi + 1)"
    by (intro mult_le_mono1) simp
  then show "node_measure phi (set (successor bs A)) < node_measure phi S"
    using weight_max(1) [OF *] unfolding node_measure_def by simp
qed

lemma card_weight: "finite S \<Longrightarrow> card S \<le> weight S"
  unfolding weight_def using sum_mono [of S "\<lambda>_. 1" "\<lambda>s. fsize (snd s)"] fsize_pos by (force simp: Suc_le_eq)

lemma length_boxes: "length (boxes t sfs) \<le> length sfs"
  by (induction sfs) (auto simp: boxes_def split: Formula.splits)

lemma saturated_answers:
  assumes "plain_sfs sfs" and "snd ` set sfs \<subseteq> parts phi" and "1 \<le> c" and "n + (max_weight phi + 2) * c \<le> B"
    and each: "\<And>A. (SignF, FBox A) \<in> set sfs \<Longrightarrow> answers_within B c (f (successor (boxes SignT (dedup sfs)) A))"
  shows "\<exists>r n'. saturated f seq (dedup sfs) (n + 1) = Inr (r, n') \<and> n' \<le> n + (max_weight phi + 2) * c"
proof -
  let ?As = "boxes SignF (dedup sfs)"
  note set = set_dedup [OF assms(1)]
  have "length ?As \<le> length (dedup sfs)" by (rule length_boxes)
  also have "\<dots> \<le> max_weight phi"
    using card_weight [of "set sfs"] weight_max(1) [OF assms(2)] distinct_card [OF distinct_dedup, of sfs] set by simp
  finally have le: "1 + length ?As * c \<le> (max_weight phi + 2) * c"
    using assms(3) mult_le_mono1 [of "length ?As" "max_weight phi" c] unfolding add_mult_distrib by linarith
  then have "(n + 1) + length ?As * c \<le> B" using assms(4) by simp
  moreover have "answers_within B c (f (successor (boxes SignT (dedup sfs)) A))" if "A \<in> set ?As" for A
    using that each by (simp add: set_boxes set)
  ultimately obtain r n' where "saturated f seq (dedup sfs) (n + 1) = Inr (r, n')" "n' \<le> (n + 1) + length ?As * c"
    using modal_answers [of ?As B c f] unfolding saturated_def by metis
  with le show ?thesis by auto
qed

lemma rule_answers:
  assumes "1 \<le> c" and "0 < max_weight phi" and "n + (max_weight phi + 2) * c \<le> B" and "rule_for s = Some r"
    and each: "\<And>br. br \<in> set (branches r) \<Longrightarrow> answers_within B c (f (rest @ br))"
  shows "\<exists>q n'. (case r of AlphaRule adds name \<Rightarrow> alpha f rest seq adds name (n + 1) | BetaRule brs name \<Rightarrow> beta f rest seq brs name [] (n + 1))
    = Inr (q, n') \<and> n' \<le> n + (max_weight phi + 2) * c"
proof -
  have "length (branches r) * c \<le> 2 * c" using mult_le_mono1 [OF rule_branches [OF assms(4)], of c] .
  moreover have "3 * c \<le> (max_weight phi + 2) * c" using assms(2) by (intro mult_le_mono1) simp
  ultimately have le: "1 + length (branches r) * c \<le> (max_weight phi + 2) * c" using assms(1) by linarith
  then have room: "(n + 1) + length (branches r) * c \<le> B" using assms(3) by simp
  show ?thesis
  proof (cases r)
    case (AlphaRule adds name)
    then have a: "answers_within B c (alpha f rest seq adds name)" using alpha_answers each [of adds] by (simp add: branches_def)
    have "(n + 1) + c \<le> B" using room AlphaRule by (simp add: branches_def)
    from answers_step [OF a this] obtain q n' where "alpha f rest seq adds name (n + 1) = Inr (q, n')" "n' \<le> (n + 1) + c" .
    then show ?thesis using le AlphaRule by (auto simp: branches_def)
  next
    case (BetaRule brs name)
    then obtain q n' where "beta f rest seq brs name [] (n + 1) = Inr (q, n')" "n' \<le> (n + 1) + length brs * c"
      using beta_answers [of brs B c f rest "n + 1" seq name "[]"] each room by (auto simp: branches_def)
    then show ?thesis using le BetaRule by (auto simp: branches_def)
  qed
qed

lemma search_answers:
  assumes "plain_sfs sfs" and "snd ` set sfs \<subseteq> parts phi" and "node_measure phi (set sfs) < k"
  shows "answers_within B ((max_weight phi + 2) ^ (node_measure phi (set sfs) + 1)) (search B k sfs)"
  using assms
proof (induction k arbitrary: sfs)
  case (Suc k)
  define c where "c = (max_weight phi + 2) ^ node_measure phi (set sfs)"
  note set = set_dedup [OF Suc.prems(1)]
  have c: "1 \<le> c" by (simp add: c_def)
  have smaller: "answers_within B c (search B k sfs')"
    if "plain_sfs sfs'" "snd ` set sfs' \<subseteq> parts phi" "node_measure phi (set sfs') < node_measure phi (set sfs)" for sfs'
  proof (rule answers_mono)
    show "answers_within B ((max_weight phi + 2) ^ (node_measure phi (set sfs') + 1)) (search B k sfs')"
      using Suc.IH [OF that(1,2)] Suc.prems(3) that(3) by simp
    show "(max_weight phi + 2) ^ (node_measure phi (set sfs') + 1) \<le> c" unfolding c_def using that(3) by (intro power_increasing) simp_all
  qed
  have "\<exists>r n'. search B (Suc k) sfs n = Inr (r, n') \<and> n' \<le> n + (max_weight phi + 2) * c" if B: "n + (max_weight phi + 2) * c \<le> B" for n
  proof -
    have M: "n + 1 \<le> B" "n + 1 \<le> n + (max_weight phi + 2) * c" using B c by simp_all
    consider (clash) reason where "closing (dedup sfs) = Some reason"
      | (sat) "closing (dedup sfs) = None" "pickCompound (dedup sfs) = None"
      | (rule_) s rest where "closing (dedup sfs) = None" "pickCompound (dedup sfs) = Some (s, rest)" by force
    then show ?thesis
    proof cases
      case clash
      then show ?thesis using M by (simp add: Let_def)
    next
      case sat
      then have clash: "\<not> clash (set sfs)" using closing_iff [OF plain_dedup [OF Suc.prems(1)]] set by auto
      have "answers_within B c (search B k (successor (boxes SignT (dedup sfs)) A))" if "(SignF, FBox A) \<in> set sfs" for A
        using successor_measure [OF Suc.prems(2) that clash, of "boxes SignT (dedup sfs)"] plain_successor [OF Suc.prems(1) that] smaller
        by (simp add: set_boxes set)
      from saturated_answers [OF Suc.prems(1,2) c B, of "search B k", OF this] show ?thesis using sat M(1) by (simp add: Let_def)
    next
      case rule_
      obtain r where r: "rule_for s = Some r" "compound (snd s)" using pickCompound_Some [OF rule_(2)] compound_rule by blast
      have ins: "set sfs = insert s (set rest)" using pickCompound_set [OF rule_(2)] set by simp
      have notin: "s \<notin> set rest" using pickCompound_Some [OF rule_(2)] distinct_dedup [of sfs] by auto
      have each: "answers_within B c (search B k (rest @ br))" if "br \<in> set (branches r)" for br
        using branch_measure [OF Suc.prems(2) ins notin r that] plain_branch [OF Suc.prems(1) ins r(1) that] smaller by blast
      have "0 < max_weight phi"
        using weight_max(1) [OF Suc.prems(2)] fsize_pos [of "snd s"] notin unfolding ins by (simp add: weight_def)
      from rule_answers [OF c this B r(1), of "search B k", OF each] show ?thesis using rule_ r(1) M(1) by (cases r) (simp_all add: Let_def)
    qed
  qed
  then show ?case by (simp add: answers_within_def c_def)
qed simp

subsection \<open>The decision procedure\<close>

declare search.simps [simp del]

lemma decide_within_answers:
  assumes "plain phi" and "node_bound phi \<le> B"
  shows "\<exists>r n. search B (B + 1) [(SignF, phi)] 0 = Inr (r, n) \<and> n \<le> node_bound phi"
proof -
  let ?S = "set [(SignF, phi)]"
  define d where "d = node_measure phi ?S"
  have "d = card {a. FBox a \<in> parts phi} * (max_weight phi + 1) + fsize phi"
    by (simp add: d_def node_measure_def open_boxes_def weight_def)
  then have bound: "node_bound phi = (max_weight phi + 2) ^ (d + 1)" by (simp add: node_bound_def)
  have "d + 1 \<le> (max_weight phi + 2) ^ (d + 1)" using less_exp [of "d + 1"] power_mono [of 2 "max_weight phi + 2" "d + 1"] by linarith
  then have "d < B + 1" using assms(2) bound by simp
  then have "answers_within B (node_bound phi) (search B (B + 1) [(SignF, phi)])"
    using search_answers [of "[(SignF, phi)]" phi "B + 1" B] assms(1) bound by (simp add: d_def)
  moreover have "0 + node_bound phi \<le> B" using assms(2) by simp
  ultimately obtain r n where "search B (B + 1) [(SignF, phi)] 0 = Inr (r, n)" "n \<le> 0 + node_bound phi" by (rule answers_step)
  then show ?thesis by auto
qed

lemma theorem_valid:
  assumes "search B k [(SignF, phi)] 0 = Inr (Closed p, n)" and "plain phi" and "plain_model m" and "isGLFrame m"
  shows "satisfies m w phi"
  using closed_unsat [OF assms(1), of "edge_rel m" "\<lambda>w. set (atoms_at m w)" w] assms(2,4) finite_gl_frame [OF assms(3)]
  by (simp add: holds_def satisfies_sat)

lemma countermodel_refutes:
  assumes "search B k [(SignF, phi)] 0 = Inr (Open v, n)" and "plain phi" and "buildModel v = (m, root)"
  shows "refutes m root phi" and "plain_model m"
proof -
  have "\<not> tree_sat v phi" using open_sat [OF assms(1), of "(SignF, phi)"] assms(2) by (simp add: holds_def)
  then show "refutes m root phi" "plain_model m" using built_model [OF assms(3)] by (simp_all add: refutes_def)
qed

lemma loops_mono:
  assumes "\<And>sfs n x. f sfs n = Inr x \<Longrightarrow> g sfs n = Inr x"
  shows "alpha f rest seq adds name n = Inr x \<Longrightarrow> alpha g rest seq adds name n = Inr x"
    and "beta f rest seq brs name ps n = Inr x \<Longrightarrow> beta g rest seq brs name ps n = Inr x"
    and "modal f seq bs atoms ws As n = Inr x \<Longrightarrow> modal g seq bs atoms ws As n = Inr x"
proof -
  show "alpha f rest seq adds name n = Inr x \<Longrightarrow> alpha g rest seq adds name n = Inr x"
    using assms by (auto simp: alpha_def split: sum.splits SearchResult.splits)
  show "beta f rest seq brs name ps n = Inr x \<Longrightarrow> beta g rest seq brs name ps n = Inr x"
    using assms by (induction brs arbitrary: ps n) (fastforce split: sum.splits SearchResult.splits)+
  show "modal f seq bs atoms ws As n = Inr x \<Longrightarrow> modal g seq bs atoms ws As n = Inr x"
    using assms by (induction As arbitrary: ws n) (fastforce split: sum.splits SearchResult.splits)+
qed

lemma search_mono:
  assumes "search B k sfs n = Inr x" and "B \<le> B'" and "k \<le> k'"
  shows "search B' k' sfs n = Inr x"
  using assms(1,3)
proof (induction k arbitrary: k' sfs n x)
  case (Suc k)
  obtain j where j: "k' = Suc j" "k \<le> j" using Suc.prems(2) by (cases k') auto
  note mono = loops_mono [of "search B k" "search B' j", OF Suc.IH [OF _ j(2)]]
  from Suc.prems(1) assms(2) show ?case
    unfolding j(1) by (auto simp: Let_def saturated_def search.simps mono split: if_splits option.splits rule.splits)
qed (simp add: search.simps)

definition closed_model :: "KripkeModel \<Rightarrow> bool" where
  "closed_model m \<longleftrightarrow> (\<forall>(a, b)\<in>set (edges m). a \<in> set (worlds m) \<and> b \<in> set (worlds m))"

lemma built_closed:
  assumes "buildModel w = (m, root)"
  shows "closed_model m"
proof -
  have meq: "m = \<lparr>worlds = map (world_id \<circ> fst) (nodes w 0), edges = transitiveClosure (id_edges w 0),
      valuation = map (\<lambda>(i, n). (world_id i, sort_by (\<le>) (trueAtoms n))) (nodes w 0)\<rparr>"
    using assms by (simp_all add: buildModel_eq)
  have m: "set (edges m) = (set (id_edges w 0))\<^sup>+" "set (worlds m) = world_id ` fst ` set (nodes w 0)"
    using transitiveClosure_trancl [OF plain_id_edges, of w 0] by (simp_all add: meq image_image)
  have "a \<in> set (worlds m) \<and> b \<in> set (worlds m)" if ab: "(a, b) \<in> set (id_edges w 0)" for a b
  proof -
    obtain p q where pq: "(p, q) \<in> set (links w 0)" "a = world_id (fst p)" "b = world_id (fst q)" using ab by (auto simp: id_edges_def)
    then show ?thesis using links_ends(1) [OF pq(1)] unfolding m(2) by blast
  qed
  then show ?thesis unfolding closed_model_def m(1) by (auto dest: tranclD tranclD2)
qed

lemma decideChecked_cases:
  assumes "plain phi"
  obtains "decideChecked phi = Inl NodeBudget"
  | p n where "decide phi = Inr (Theorem p n)" "decideChecked phi = Inr (Theorem p n)" "\<And>m w. plain_model m \<Longrightarrow> isGLFrame m \<Longrightarrow> satisfies m w phi"
  | m root n where "decideChecked phi = Inr (Refuted m root n)" "plain_model m" "closed_model m" "refutes m root phi"
proof (cases "search MAX_NODES (MAX_NODES + 1) [(SignF, phi)] 0")
  case (Inl e)
  then have "e \<noteq> OutOfFuel" using search_has_fuel [of "MAX_NODES + 1" MAX_NODES 0 "[(SignF, phi)]"] by auto
  moreover have "e \<in> {NodeBudget, OutOfFuel}" using search_errors Inl by blast
  ultimately show thesis using Inl that(1) by (simp add: decideChecked_def decide_def decide_within_def)
next
  case (Inr rn)
  obtain r n where rn: "rn = (r, n)" by fastforce
  show thesis
  proof (cases r)
    case (Closed p)
    then show thesis
      using Inr rn theorem_valid [of MAX_NODES "MAX_NODES + 1" phi p n] assms that(2)
      by (simp add: decideChecked_def decide_def decide_within_def)
  next
    case (Open v)
    obtain m root where m: "buildModel v = (m, root)" by fastforce
    then have "refutes m root phi" "plain_model m" using Inr rn Open countermodel_refutes [of MAX_NODES "MAX_NODES + 1" phi v n m root] assms by simp_all
    moreover from this have "decideChecked phi = Inr (Refuted m root n)"
      using Inr rn Open m by (simp add: decideChecked_def decide_def decide_within_def refutes_def)
    ultimately show thesis using that(3) built_closed [OF m] by blast
  qed
qed


abbreviation loeb_p :: Formula where
  "loeb_p \<equiv> FImp (FBox (FImp (FBox (FAtom (js ''p''))) (FAtom (js ''p'')))) (FBox (FAtom (js ''p'')))"


text \<open>
  Within the budget of the code the checked procedure never disagrees with the model checker:
  it raises only when the budget is exceeded, a theorem it reports holds in every model, and a countermodel it
  returns refutes the formula. The internal errors of the wrapper are unreachable.
\<close>

theorem checked_verdict_is_right:
  assumes "plain phi"
  shows "case decideChecked phi of
      Inl e \<Rightarrow> e = NodeBudget
    | Inr (Theorem p n) \<Rightarrow> \<forall>m w. plain_model m \<and> isGLFrame m \<longrightarrow> satisfies m w phi
    | Inr (Refuted m root n) \<Rightarrow> plain_model m \<and> refutes m root phi"
by (rule decideChecked_cases [OF assms]) auto

theorem checked_verdict_is_right_witness:
  "case decideChecked (FNot (FBox FBot)) of
      Inl e \<Rightarrow> e = NodeBudget
    | Inr (Theorem p n) \<Rightarrow> \<forall>m w. plain_model m \<and> isGLFrame m \<longrightarrow> satisfies m w (FNot (FBox FBot))
    | Inr (Refuted m root n) \<Rightarrow> plain_model m \<and> refutes m root (FNot (FBox FBot))"
  by (rule checked_verdict_is_right) simp

end
