(* ===== verification/Lobian.thy ===== *)
theory Lobian
  imports GL_Tableau Canonical_JSON
begin

text \<open>
  Licensing obligations and their receipts: \<open>lobian/lobianObstacle.ts\<close> and \<open>lobian/receipt.ts\<close>. The
  digest functions and \<open>localeCompare\<close> are arguments. \<open>danf\<close> is modelled on strings, arrays and plain
  objects, which are all that a receipt contains. The notes of a verdict, fixed texts, are left out.
\<close>

subsection \<open>Obligations\<close>

datatype ObligationKind = Naive_soundness | Consistency | Loeb_self_trust

record LicensingObligation =
  ob_kind :: ObligationKind
  ob_invariant :: Formula
  ob_formula :: Formula
  ob_description :: jstr

definition licensingObligations :: "Formula \<Rightarrow> LicensingObligation list" where
  "licensingObligations invariant =
     [\<lparr>ob_kind = Naive_soundness, ob_invariant = invariant, ob_formula = FImp (FBox invariant) invariant,
       ob_description = js ''Demand that the successor's proof of \"'' @ show_formula invariant @ js ''\" implies its truth ('' @ [0x25A1, 0x3C6, 0x2192, 0x3C6] @ js '').''\<rparr>,
      \<lparr>ob_kind = Consistency, ob_invariant = invariant, ob_formula = FNot (FBox FBot),
       ob_description = js ''Demand that the successor never proves a contradiction ('' @ [0xAC, 0x25A1, 0x22A5] @ js '').''\<rparr>,
      \<lparr>ob_kind = Loeb_self_trust, ob_invariant = invariant, ob_formula = FImp (FBox (FImp (FBox invariant) invariant)) (FBox invariant),
       ob_description = [76, 0xF6] @ js ''bian self-trust for \"'' @ show_formula invariant @ js ''\" ('' @ [0x25A1, 40, 0x25A1, 0x3C6, 0x2192, 0x3C6, 41, 0x2192, 0x25A1, 0x3C6] @ js '').''\<rparr>]"

datatype Verdict =
    License_certified LicensingObligation Proof
  | License_refuted LicensingObligation KripkeModel jstr

definition is_refuted :: "Verdict \<Rightarrow> bool" where
  "is_refuted v = (case v of License_refuted _ _ _ \<Rightarrow> True | License_certified _ _ \<Rightarrow> False)"

definition evaluateObligation :: "LicensingObligation \<Rightarrow> tableau_error + Verdict" where
  "evaluateObligation ob =
     (case decideChecked (ob_formula ob) of
        Inl e \<Rightarrow> Inl e
      | Inr (Theorem p n) \<Rightarrow> Inr (License_certified ob p)
      | Inr (Refuted m root n) \<Rightarrow> Inr (License_refuted ob m root))"

record ObstacleReport =
  or_invariant :: Formula
  or_verdicts :: "Verdict list"
  or_obstacleHit :: bool

definition demonstrateLobianObstacle :: "Formula \<Rightarrow> tableau_error + ObstacleReport" where
  "demonstrateLobianObstacle invariant =
     (case sequence (map evaluateObligation (licensingObligations invariant)) of
        Inl e \<Rightarrow> Inl e
      | Inr vs \<Rightarrow> Inr \<lparr>or_invariant = invariant, or_verdicts = vs, or_obstacleHit = list_ex is_refuted vs\<rparr>)"

subsection \<open>The normal form of receipts\<close>

datatype danf_value = DStr jstr | DArr "danf_value list" | DObj "(jstr \<times> danf_value) list"

text \<open>Assigned properties come back with the array indices first, in numeric order; \<open>__proto__\<close> is not an own property.\<close>

definition array_index :: "jstr \<Rightarrow> bool" where
  "array_index s \<longleftrightarrow>
     s \<noteq> [] \<and> list_all is_digit s \<and> (length s = 1 \<or> hd s \<noteq> 48) \<and> foldl (\<lambda>n c. 10 * n + unat (c - 48)) 0 s < 4294967295"

definition index_le :: "jstr \<times> 'a \<Rightarrow> jstr \<times> 'a \<Rightarrow> bool" where
  "index_le a b \<longleftrightarrow> length (fst a) < length (fst b) \<or> length (fst a) = length (fst b) \<and> fst a \<le> fst b"

definition own_order :: "(jstr \<times> 'a) list \<Rightarrow> (jstr \<times> 'a) list" where
  "own_order es =
     (let s = filter (\<lambda>e. fst e \<noteq> js ''__proto__'') (sort_by key_le es) in
      sort_by index_le (filter (\<lambda>e. array_index (fst e)) s) @ filter (\<lambda>e. \<not> array_index (fst e)) s)"

fun danf :: "danf_value \<Rightarrow> jstr" where
  "danf (DStr s) = stringify_string s"
| "danf (DArr xs) = [91] @ joinWith [44] (map danf xs) @ [93]"
| "danf (DObj es) =
     [123] @ joinWith [44] (map (\<lambda>(k, t). stringify_string k @ [58] @ t) (own_order (map (\<lambda>(k, v). (k, danf v)) es))) @ [125]"

fun formula_data :: "Formula \<Rightarrow> danf_value" where
  "formula_data (FAtom p) = DObj [(js ''k'', DStr (js ''atom'')), (js ''name'', DStr p)]"
| "formula_data FTop = DObj [(js ''k'', DStr (js ''top''))]"
| "formula_data FBot = DObj [(js ''k'', DStr (js ''bot''))]"
| "formula_data (FNot a) = DObj [(js ''k'', DStr (js ''not'')), (js ''a'', formula_data a)]"
| "formula_data (FAnd a b) = DObj [(js ''k'', DStr (js ''and'')), (js ''a'', formula_data a), (js ''b'', formula_data b)]"
| "formula_data (FOr a b) = DObj [(js ''k'', DStr (js ''or'')), (js ''a'', formula_data a), (js ''b'', formula_data b)]"
| "formula_data (FImp a b) = DObj [(js ''k'', DStr (js ''imp'')), (js ''a'', formula_data a), (js ''b'', formula_data b)]"
| "formula_data (FIff a b) = DObj [(js ''k'', DStr (js ''iff'')), (js ''a'', formula_data a), (js ''b'', formula_data b)]"
| "formula_data (FBox a) = DObj [(js ''k'', DStr (js ''box'')), (js ''a'', formula_data a)]"

fun proof_data :: "Proof \<Rightarrow> danf_value" where
  "proof_data (Close reason seq) = DObj [(js ''rule'', DStr (js ''close'')), (js ''reason'', DStr reason), (js ''sequent'', DStr seq)]"
| "proof_data (Alpha name seq p) =
     DObj [(js ''rule'', DStr (js ''alpha'')), (js ''name'', DStr name), (js ''sequent'', DStr seq), (js ''sub'', proof_data p)]"
| "proof_data (Beta name seq ps) =
     DObj [(js ''rule'', DStr (js ''beta'')), (js ''name'', DStr name), (js ''sequent'', DStr seq), (js ''subs'', DArr (map proof_data ps))]"
| "proof_data (GLModal seq refuted p) =
     DObj [(js ''rule'', DStr (js ''gl-modal'')), (js ''sequent'', DStr seq), (js ''refuted'', DStr refuted), (js ''sub'', proof_data p)]"

definition model_data :: "KripkeModel \<Rightarrow> danf_value" where
  "model_data m =
     DObj [(js ''worlds'', DArr (map DStr (worlds m))), (js ''edges'', DArr (map (\<lambda>(a, b). DArr [DStr a, DStr b]) (edges m))),
           (js ''valuation'', DObj (map (\<lambda>(w, ps). (w, DArr (map DStr ps))) (valuation m)))]"

subsection \<open>Receipts\<close>

datatype Evidence = ProofEvidence jstr | CountermodelEvidence KripkeModel jstr

datatype ReceiptStatus = LICENSE_CERTIFIED | LICENSE_REFUTED

record LobianReceipt =
  lr_status :: ReceiptStatus
  lr_obligation_kind :: ObligationKind
  lr_invariant :: jstr
  lr_obligation :: Formula
  lr_agent_digest :: jstr
  lr_evidence :: Evidence
  lr_timestamp :: jstr
  lr_content_digest :: jstr
  lr_signature :: jstr

definition kind_text :: "ObligationKind \<Rightarrow> jstr" where
  "kind_text k = (case k of Naive_soundness \<Rightarrow> js ''naive-soundness'' | Consistency \<Rightarrow> js ''consistency'' | Loeb_self_trust \<Rightarrow> js ''loeb-self-trust'')"

definition status_text :: "ReceiptStatus \<Rightarrow> jstr" where
  "status_text s = (case s of LICENSE_CERTIFIED \<Rightarrow> js ''LICENSE_CERTIFIED'' | LICENSE_REFUTED \<Rightarrow> js ''LICENSE_REFUTED'')"

definition evidence_data :: "Evidence \<Rightarrow> danf_value" where
  "evidence_data e =
     (case e of
        ProofEvidence d \<Rightarrow> DObj [(js ''kind'', DStr (js ''proof'')), (js ''proof_digest'', DStr d)]
      | CountermodelEvidence m root \<Rightarrow> DObj [(js ''kind'', DStr (js ''countermodel'')), (js ''model'', model_data m), (js ''root'', DStr root)])"

definition unsigned_data :: "LobianReceipt \<Rightarrow> danf_value" where
  "unsigned_data r =
     DObj [(js ''protocol'', DStr (js ''GHOST-LOBIAN-V1'')), (js ''status'', DStr (status_text (lr_status r))),
           (js ''obligation_kind'', DStr (kind_text (lr_obligation_kind r))), (js ''invariant'', DStr (lr_invariant r)),
           (js ''obligation'', formula_data (lr_obligation r)), (js ''agent_digest'', DStr (lr_agent_digest r)),
           (js ''evidence'', evidence_data (lr_evidence r)), (js ''timestamp'', DStr (lr_timestamp r))]"

definition content_digest_of :: "(jstr \<Rightarrow> jstr) \<Rightarrow> LobianReceipt \<Rightarrow> jstr" where
  "content_digest_of sha r = js ''sha256:'' @ sha (danf (unsigned_data r))"

definition buildReceipt ::
  "(jstr \<Rightarrow> jstr) \<Rightarrow> (jstr \<Rightarrow> jstr \<Rightarrow> jstr) \<Rightarrow> (jstr \<Rightarrow> jstr \<Rightarrow> int) \<Rightarrow> Verdict \<Rightarrow> jstr \<Rightarrow> jstr \<Rightarrow> jstr \<Rightarrow> LobianReceipt" where
  "buildReceipt sha hmac localeCompare verdict agent timestamp hmacKey =
     (let (ob, status, evidence) =
        (case verdict of
           License_certified ob p \<Rightarrow> (ob, LICENSE_CERTIFIED, ProofEvidence (js ''sha256:'' @ sha (danf (proof_data p))))
         | License_refuted ob m root \<Rightarrow> (ob, LICENSE_REFUTED, CountermodelEvidence (canonicalModel localeCompare m) root));
        r = \<lparr>lr_status = status, lr_obligation_kind = ob_kind ob, lr_invariant = show_formula (ob_invariant ob),
             lr_obligation = ob_formula ob, lr_agent_digest = agent, lr_evidence = evidence, lr_timestamp = timestamp,
             lr_content_digest = [], lr_signature = []\<rparr>;
        digest = content_digest_of sha r
      in r\<lparr>lr_content_digest := digest, lr_signature := hmac digest hmacKey\<rparr>)"

record VerifyResult =
  ver_digest_matches :: bool
  ver_signature_matches :: bool
  ver_evidence_replays :: bool

definition ver_valid :: "VerifyResult \<Rightarrow> bool" where
  "ver_valid v \<longleftrightarrow> ver_digest_matches v \<and> ver_signature_matches v \<and> ver_evidence_replays v"

definition evidence_replays :: "LobianReceipt \<Rightarrow> tableau_error + bool" where
  "evidence_replays r =
     (case (lr_status r, lr_evidence r) of
        (LICENSE_REFUTED, CountermodelEvidence m root) \<Rightarrow> Inr (isGLFrame m \<and> refutes m root (lr_obligation r))
      | (LICENSE_CERTIFIED, _) \<Rightarrow> isTheorem (lr_obligation r)
      | _ \<Rightarrow> Inr False)"

definition verifyReceipt :: "(jstr \<Rightarrow> jstr) \<Rightarrow> (jstr \<Rightarrow> jstr \<Rightarrow> jstr) \<Rightarrow> LobianReceipt \<Rightarrow> jstr \<Rightarrow> tableau_error + VerifyResult" where
  "verifyReceipt sha hmac r hmacKey =
     (case evidence_replays r of
        Inl e \<Rightarrow> Inl e
      | Inr ok \<Rightarrow> Inr \<lparr>ver_digest_matches = (lr_content_digest r = content_digest_of sha r),
          ver_signature_matches = (lr_signature r = hmac (lr_content_digest r) hmacKey), ver_evidence_replays = ok\<rparr>)"

subsection \<open>The obstacle\<close>

definition checked_valid :: "Formula \<Rightarrow> bool" where
  "checked_valid f \<longleftrightarrow> (\<forall>m w. plain_model m \<and> isGLFrame m \<longrightarrow> satisfies m w f)"

lemma verdict_cases:
  assumes "evaluateObligation ob = Inr v" and "plain (ob_formula ob)"
  obtains p n where "v = License_certified ob p" "decide (ob_formula ob) = Inr (Theorem p n)" "checked_valid (ob_formula ob)"
  | m root where "v = License_refuted ob m root" "plain_model m" "closed_model m" "refutes m root (ob_formula ob)" "\<not> checked_valid (ob_formula ob)"
proof (rule decideChecked_cases [OF assms(2)])
  fix m root n
  assume r: "decideChecked (ob_formula ob) = Inr (Refuted m root n)" "plain_model m" "closed_model m" "refutes m root (ob_formula ob)"
  then have "\<not> checked_valid (ob_formula ob)" by (auto simp: checked_valid_def refutes_def)
  moreover have "v = License_refuted ob m root" using r(1) assms(1) by (simp add: evaluateObligation_def)
  ultimately show thesis using r that(2) by blast
qed (use assms(1) that(1) in \<open>auto simp: evaluateObligation_def checked_valid_def\<close>)

lemma verdict_refuted:
  "evaluateObligation ob = Inr v \<Longrightarrow> plain (ob_formula ob) \<Longrightarrow> is_refuted v \<longleftrightarrow> \<not> checked_valid (ob_formula ob)"
  by (erule verdict_cases) (auto simp: is_refuted_def)

lemma loeb_valid: "checked_valid (FImp (FBox (FImp (FBox f) f)) (FBox f))"
  unfolding checked_valid_def
proof (intro allI impI, elim conjE)
  fix m w
  assume m: "plain_model m" "isGLFrame m"
  then have gl: "gl_frame (edge_rel m)" by (simp add: finite_gl_frame)
  show "satisfies m w (FImp (FBox (FImp (FBox f) f)) (FBox f))"
    unfolding satisfies_sat by (rule ccontr) (use loeb_witness [OF gl, of "\<lambda>w. set (atoms_at m w)" w f] in auto)
qed

lemma consistency_not_valid: "\<not> checked_valid (FNot (FBox FBot))"
proof -
  let ?m = "\<lparr>worlds = [[]], edges = [], valuation = []\<rparr>"
  have "plain_model ?m" "isGLFrame ?m" "\<not> satisfies ?m [] (FNot (FBox FBot))"
    by (simp_all add: plain_model_def isGLFrame_def isTransitive_def isIrreflexive_def successors_def)
  then show ?thesis unfolding checked_valid_def by blast
qed

lemma soundness_valid_iff: "checked_valid (FImp (FBox f) f) \<longleftrightarrow> checked_valid f"
proof
  assume box: "checked_valid (FImp (FBox f) f)"
  show "checked_valid f"
    unfolding checked_valid_def
  proof (intro allI impI, elim conjE)
    fix m w
    assume m: "plain_model m" "isGLFrame m"
    then have wf: "wfp ((edge_rel m)\<inverse>\<inverse>)" by (simp add: finite_gl_frame gl_frame_def)
    show "satisfies m w f"
      using wf
    proof (induction w rule: wfp_induct_rule)
      case (less w)
      then have "satisfies m w (FBox f)" by (auto simp: satisfies_sat)
      then show ?case using box m by (auto simp: checked_valid_def)
    qed
  qed
qed (auto simp: checked_valid_def)

text \<open>
  The obstacle: whenever the three obligations of an invariant are decided, the consistency of the
  successor is refuted and the self-trust obligation is certified, so the obstacle is always reported. The naive
  soundness obligation is certified exactly when the invariant is itself true in every model.
\<close>

theorem obstacle_always_hit:
  assumes "plain invariant" and "demonstrateLobianObstacle invariant = Inr report"
  shows "or_obstacleHit report \<and> (\<exists>soundness consistency trust. or_verdicts report = [soundness, consistency, trust]
      \<and> is_refuted consistency \<and> \<not> is_refuted trust \<and> (is_refuted soundness \<longleftrightarrow> \<not> checked_valid invariant))"
proof -
  obtain vs where vs: "map evaluateObligation (licensingObligations invariant) = map Inr vs" "or_verdicts report = vs"
    and hit: "or_obstacleHit report = list_ex is_refuted vs"
    using assms(2) by (auto simp: demonstrateLobianObstacle_def sequence_eq_Inr split: sum.splits)
  have len2: "length (licensingObligations invariant) = 3" by (simp add: licensingObligations_def)
  have len: "length vs = 3" using arg_cong [OF vs(1), of length] len2 by simp
  then obtain a b c where abc: "vs = [a, b, c]" by (auto simp: numeral_3_eq_3 length_Suc_conv)
  have "evaluateObligation (licensingObligations invariant ! i) = Inr (vs ! i)" if "i < 3" for i
    using arg_cong [OF vs(1), of "\<lambda>xs. xs ! i"] that len len2 by simp
  from this [of 0] this [of 1] this [of 2] abc
  have e: "evaluateObligation (licensingObligations invariant ! 0) = Inr a" "evaluateObligation (licensingObligations invariant ! 1) = Inr b"
    "evaluateObligation (licensingObligations invariant ! 2) = Inr c"
    by simp_all
  have plain: "plain (ob_formula (licensingObligations invariant ! i))" if "i < 3" for i
    using assms(1) that by (auto simp: licensingObligations_def less_Suc_eq numeral_3_eq_3)
  have "is_refuted a \<longleftrightarrow> \<not> checked_valid invariant"
    using verdict_refuted [OF e(1)] plain [of 0] by (simp add: licensingObligations_def soundness_valid_iff)
  moreover have b: "is_refuted b" using verdict_refuted [OF e(2)] plain [of 1] consistency_not_valid by (simp add: licensingObligations_def)
  moreover have "\<not> is_refuted c" using verdict_refuted [OF e(3)] plain [of 2] loeb_valid by (simp add: licensingObligations_def)
  moreover have "or_obstacleHit report" using hit b abc by simp
  ultimately show ?thesis using vs(2) abc by blast
qed

subsection \<open>Receipts of verdicts\<close>

lemma canonical_satisfies:
  assumes "closed_model m"
  shows "w \<in> set (worlds m) \<Longrightarrow> satisfies (canonicalModel lc m) w f \<longleftrightarrow> satisfies m w f"
proof (induction f arbitrary: w)
  case (FAtom p)
  have "map_of (foldl (\<lambda>v w. AList.update w (g w) v) al ws) w = (if w \<in> set ws then Some (g w) else map_of al w)" for g ws w and al :: "(jstr \<times> jstr list) list"
    by (induction ws arbitrary: al) (auto simp: update_conv)
  with FAtom show ?case by (simp add: canonicalModel_def Let_def atoms_at_def split: option.splits)
next
  case (FBox f)
  have "set (successors (canonicalModel lc m) w) = set (successors m w)" by (auto simp: successors_def canonicalModel_def Let_def)
  moreover have "set (successors m w) \<subseteq> set (worlds m)" using assms by (auto simp: closed_model_def successors_def)
  ultimately show ?case using FBox.IH by (auto simp: list_all_iff)
qed auto

lemma canonical_refutes:
  assumes "closed_model m" and "refutes m root f"
  shows "refutes (canonicalModel lc m) root f"
proof -
  have "set (edges (canonicalModel lc m)) = set (edges m)" "set (worlds (canonicalModel lc m)) = set (worlds m)" by (simp_all add: canonicalModel_def Let_def)
  then have "isGLFrame (canonicalModel lc m) = isGLFrame m"
    by (simp add: isGLFrame_def isTransitive_def isIrreflexive_def list_all_iff list_ex_iff Let_def)
  moreover have "root \<in> set (worlds m)" using assms(2) by (simp add: refutes_def)
  ultimately show ?thesis using assms canonical_satisfies [OF assms(1), of root lc f] \<open>set (worlds (canonicalModel lc m)) = set (worlds m)\<close>
    by (simp add: refutes_def)
qed

text \<open>
  Every verdict has a receipt that verifies: whatever the digest functions, the receipt built from a verdict passes the digest,
  signature and replay checks with the key it was signed with.
\<close>

theorem verdict_receipt_verifies:
  assumes "plain (ob_formula ob)" and "evaluateObligation ob = Inr verdict"
  shows "\<exists>res. verifyReceipt sha hmac (buildReceipt sha hmac localeCompare verdict agent timestamp hmacKey) hmacKey = Inr res \<and> ver_valid res"
  using assms(2,1)
proof (cases rule: verdict_cases)
  case (1 p n)
  then show ?thesis
    by (simp add: verifyReceipt_def buildReceipt_def Let_def evidence_replays_def isTheorem_def content_digest_of_def unsigned_data_def ver_valid_def)
next
  case (2 m root)
  then show ?thesis using canonical_refutes [OF 2(3,4)]
    by (simp add: verifyReceipt_def buildReceipt_def Let_def evidence_replays_def content_digest_of_def unsigned_data_def ver_valid_def refutes_def)
qed

subsection \<open>Witnesses\<close>

lemma theorem_within:
  assumes "search B (B + 1) [(SignF, phi)] 0 = Inr (Closed p, n)" and "B \<le> MAX_NODES"
  shows "decide phi = Inr (Theorem p n)" and "isTheorem phi = Inr True"
proof -
  have "search MAX_NODES (MAX_NODES + 1) [(SignF, phi)] 0 = Inr (Closed p, n)"
    using search_mono [OF assms(1), of MAX_NODES "MAX_NODES + 1"] assms(2) by simp
  then show "decide phi = Inr (Theorem p n)" by (simp add: decide_def decide_within_def)
  then show "isTheorem phi = Inr True" by (simp add: isTheorem_def)
qed

definition is_closed :: "tableau_error + SearchResult \<times> nat \<Rightarrow> bool" where
  "is_closed x = (case x of Inr (Closed _, _) \<Rightarrow> True | _ \<Rightarrow> False)"

lemma isTheorem_within: "is_closed (search B (B + 1) [(SignF, phi)] 0) \<Longrightarrow> B \<le> MAX_NODES \<Longrightarrow> isTheorem phi = Inr True"
  by (auto simp: is_closed_def theorem_within split: sum.splits SearchResult.splits)

definition is_open :: "tableau_error + SearchResult \<times> nat \<Rightarrow> bool" where
  "is_open x = (case x of Inr (Open _, _) \<Rightarrow> True | _ \<Rightarrow> False)"

definition sample_invariant :: Formula where
  "sample_invariant = FAtom (js ''safe'')"

lemma sample_decisions:
  "is_open (search 5 6 [(SignF, FImp (FBox sample_invariant) sample_invariant)] 0)"
  "is_open (search 5 6 [(SignF, FNot (FBox FBot))] 0)"
  "is_closed (search 9 10 [(SignF, FImp (FBox (FImp (FBox sample_invariant) sample_invariant)) (FBox sample_invariant))] 0)"
  by code_simp+

lemma evaluated:
  assumes "is_open (search B (B + 1) [(SignF, ob_formula ob)] 0) \<or> is_closed (search B (B + 1) [(SignF, ob_formula ob)] 0)"
    and "B \<le> MAX_NODES" and "plain (ob_formula ob)"
  shows "\<exists>v. evaluateObligation ob = Inr v"
proof -
  obtain r n where "search B (B + 1) [(SignF, ob_formula ob)] 0 = Inr (r, n)"
    using assms(1) by (auto simp: is_open_def is_closed_def split: sum.splits)
  then have "search MAX_NODES (MAX_NODES + 1) [(SignF, ob_formula ob)] 0 = Inr (r, n)"
    using search_mono [of B "B + 1" _ _ _ MAX_NODES "MAX_NODES + 1"] assms(2) by simp
  then have "decideChecked (ob_formula ob) \<noteq> Inl NodeBudget"
    by (cases r) (auto simp: decideChecked_def decide_def decide_within_def split: prod.splits)
  then show ?thesis using assms(3)
    by (auto simp: evaluateObligation_def elim!: decideChecked_cases)
qed

lemma sample_obligation:
  assumes "ob \<in> set (licensingObligations sample_invariant)"
  shows "\<exists>v. evaluateObligation ob = Inr v" and "plain (ob_formula ob)"
proof -
  have f: "ob_formula ob \<in> {FImp (FBox sample_invariant) sample_invariant, FNot (FBox FBot),
      FImp (FBox (FImp (FBox sample_invariant) sample_invariant)) (FBox sample_invariant)}"
    using assms by (auto simp: licensingObligations_def)
  then show plain: "plain (ob_formula ob)" by (auto simp: sample_invariant_def js_def cu_def)
  have "is_open (search 5 (5 + 1) [(SignF, ob_formula ob)] 0) \<or> is_closed (search 9 (9 + 1) [(SignF, ob_formula ob)] 0)"
    using f sample_decisions by auto
  then show "\<exists>v. evaluateObligation ob = Inr v"
    using evaluated [of 5 ob] evaluated [of 9 ob] plain by (auto simp: MAX_NODES_def)
qed

lemma sample_report: "\<exists>report. demonstrateLobianObstacle sample_invariant = Inr report"
proof -
  have "sequence (map evaluateObligation (licensingObligations sample_invariant))
      = Inr (map (projr \<circ> evaluateObligation) (licensingObligations sample_invariant))"
    by (rule sequence_map_ok) (use sample_obligation(1) in force)
  then show ?thesis by (simp add: demonstrateLobianObstacle_def)
qed

theorem obstacle_always_hit_witness:
  "\<exists>report. demonstrateLobianObstacle sample_invariant = Inr report \<and> or_obstacleHit report
    \<and> (\<exists>soundness consistency trust. or_verdicts report = [soundness, consistency, trust] \<and> is_refuted consistency \<and> \<not> is_refuted trust)"
proof -
  obtain report where "demonstrateLobianObstacle sample_invariant = Inr report" using sample_report by blast
  then show ?thesis using obstacle_always_hit [of sample_invariant report] by (auto simp: sample_invariant_def js_def cu_def)
qed

theorem verdict_receipt_verifies_witness:
  "\<exists>verdict res. evaluateObligation (licensingObligations sample_invariant ! 1) = Inr verdict
    \<and> verifyReceipt (\<lambda>t. t) (\<lambda>t k. k @ t) (buildReceipt (\<lambda>t. t) (\<lambda>t k. k @ t) (\<lambda>_ _. 0) verdict [] [] []) [] = Inr res \<and> ver_valid res"
proof -
  have "licensingObligations sample_invariant ! 1 \<in> set (licensingObligations sample_invariant)"
    by (rule nth_mem) (simp add: licensingObligations_def)
  from sample_obligation [OF this] show ?thesis using verdict_receipt_verifies by blast
qed

subsection \<open>Names that collide\<close>

definition colliding_formula :: Formula where
  "colliding_formula = FImp (FAnd (FAtom (js ''a),p(b'')) (FAtom (js ''c''))) (FAnd (FAtom (js ''a'')) (FAtom (js ''b),p(c'')))"

definition colliding_model :: KripkeModel where
  "colliding_model = \<lparr>worlds = [js ''w''], edges = [], valuation = [(js ''w'', [js ''a),p(b'', js ''c''])]\<rparr>"

text \<open>
  Keys of formulas are not injective when atom names contain parentheses, and the tableau then
  reports a theorem that the model checker refutes.
\<close>

theorem colliding_keys_prove_falsehood:
  "isTheorem colliding_formula = Inr True \<and> refutes colliding_model (js ''w'') colliding_formula"
proof
  have "is_closed (search 5 (5 + 1) [(SignF, colliding_formula)] 0)" by code_simp
  then show "isTheorem colliding_formula = Inr True" by (rule isTheorem_within) (simp add: MAX_NODES_def)
  show "refutes colliding_model (js ''w'') colliding_formula" by code_simp
qed

definition forged_model :: KripkeModel where
  "forged_model = \<lparr>worlds = [js ''a'', js ''x'', [98, 0, 99], [97, 0, 98], js ''c''],
     edges = [(js ''a'', js ''x''), (js ''x'', [98, 0, 99]), ([97, 0, 98], js ''c'')], valuation = [(js ''x'', [js ''p''])]\<rparr>"

definition transitivity_axiom :: Formula where
  "transitivity_axiom = FImp (FBox (FAtom (js ''p''))) (FBox (FBox (FAtom (js ''p''))))"

definition forged_receipt :: "(jstr \<Rightarrow> jstr) \<Rightarrow> (jstr \<Rightarrow> jstr \<Rightarrow> jstr) \<Rightarrow> jstr \<Rightarrow> LobianReceipt" where
  "forged_receipt sha hmac hmacKey =
     (let r = \<lparr>lr_status = LICENSE_REFUTED, lr_obligation_kind = Naive_soundness, lr_invariant = [], lr_obligation = transitivity_axiom,
        lr_agent_digest = [], lr_evidence = CountermodelEvidence forged_model (js ''a''), lr_timestamp = [], lr_content_digest = [],
        lr_signature = []\<rparr>
      in r\<lparr>lr_content_digest := content_digest_of sha r, lr_signature := hmac (content_digest_of sha r) hmacKey\<rparr>)"

text \<open>
  The replay of a countermodel accepts a frame that is not transitive when world names contain
  the character zero: a receipt that refutes a theorem verifies, whatever the digest functions and the key.
\<close>

theorem forged_refutation_verifies:
  "isTheorem (lr_obligation (forged_receipt sha hmac hmacKey)) = Inr True
   \<and> verifyReceipt sha hmac (forged_receipt sha hmac hmacKey) hmacKey
     = Inr \<lparr>ver_digest_matches = True, ver_signature_matches = True, ver_evidence_replays = True\<rparr>"
proof
  have "is_closed (search 9 (9 + 1) [(SignF, transitivity_axiom)] 0)" by code_simp
  then have "isTheorem transitivity_axiom = Inr True" by (rule isTheorem_within) (simp add: MAX_NODES_def)
  then show "isTheorem (lr_obligation (forged_receipt sha hmac hmacKey)) = Inr True" by (simp add: forged_receipt_def Let_def)
  have "refutes forged_model (js ''a'') transitivity_axiom" by code_simp
  then show "verifyReceipt sha hmac (forged_receipt sha hmac hmacKey) hmacKey
     = Inr \<lparr>ver_digest_matches = True, ver_signature_matches = True, ver_evidence_replays = True\<rparr>"
    by (simp add: verifyReceipt_def forged_receipt_def Let_def evidence_replays_def content_digest_of_def unsigned_data_def refutes_def)
qed

end
