(* ===== verification/CRDT_Map.thy ===== *)
theory CRDT_Map
  imports Canonical_JSON
begin

text \<open>
  The last-write-wins map, its receipts and the simulated network, \<open>crdt/lwwMap.ts\<close>, \<open>crdt/receipt.ts\<close> and
  \<open>crdt/messageBus.ts\<close> of \<open>packages/research-frontier/src\<close>. A clock is a JavaScript number that counts up from zero and
  stays at \<open>2^53\<close>, where adding one no longer changes it. The digests, the outcome of \<open>Math.random\<close> and the
  readings of \<open>Date.now\<close> are arguments.
\<close>

subsection \<open>The map\<close>

datatype Provenance = GATEWAY_RECORDED | AGENT_ASSERTED

record LWWRegister =
  rg_value :: jstr
  rg_clock :: nat
  rg_nodeId :: jstr
  rg_provenance :: Provenance

record LWWMap =
  lm_state :: "(jstr \<times> LWWRegister) list"
  lm_localClock :: nat
  lm_nodeId :: jstr

definition new_map :: "jstr \<Rightarrow> LWWMap" where
  "new_map nodeId = \<lparr>lm_state = [], lm_localClock = 0, lm_nodeId = nodeId\<rparr>"

definition map_get :: "jstr \<Rightarrow> LWWMap \<Rightarrow> jstr option" where
  "map_get key m = map_option rg_value (map_of (lm_state m) key)"

definition increment :: "nat \<Rightarrow> nat" where
  "increment c = (if c < 2 ^ 53 then c + 1 else c)"

definition createWriteIntent :: "jstr \<Rightarrow> Provenance \<Rightarrow> LWWMap \<Rightarrow> LWWRegister \<times> LWWMap" where
  "createWriteIntent value provenance m =
     (let c = increment (lm_localClock m) in
      (\<lparr>rg_value = value, rg_clock = c, rg_nodeId = lm_nodeId m, rg_provenance = provenance\<rparr>, m\<lparr>lm_localClock := c\<rparr>))"

definition map_apply :: "jstr \<Rightarrow> LWWRegister \<Rightarrow> LWWMap \<Rightarrow> bool \<times> LWWMap" where
  "map_apply key incoming m0 =
     (let m = m0\<lparr>lm_localClock := max (lm_localClock m0) (rg_clock incoming)\<rparr>;
          won = (True, m\<lparr>lm_state := AList.update key incoming (lm_state m)\<rparr>) in
      case map_of (lm_state m) key of
        None \<Rightarrow> won
      | Some existing \<Rightarrow>
          if rg_clock incoming < rg_clock existing then (False, m)
          else if rg_clock incoming = rg_clock existing \<and> rg_nodeId incoming \<le> rg_nodeId existing then (False, m)
          else won)"

definition map_merge :: "(jstr \<times> LWWRegister) list \<Rightarrow> LWWMap \<Rightarrow> LWWMap" where
  "map_merge remoteState m = foldl (\<lambda>m (key, reg). snd (map_apply key reg m)) m remoteState"

fun provenance_name :: "Provenance \<Rightarrow> jstr" where
  "provenance_name GATEWAY_RECORDED = js ''GATEWAY_RECORDED''"
| "provenance_name AGENT_ASSERTED = js ''AGENT_ASSERTED''"

definition register_text :: "jstr \<Rightarrow> LWWRegister \<Rightarrow> jstr" where
  "register_text k reg = k @ js '':'' @ rg_value reg @ js '':'' @ nat_str (rg_clock reg) @ js '':'' @ rg_nodeId reg @ js '':'' @
     provenance_name (rg_provenance reg) @ js '';''"

definition state_text :: "LWWMap \<Rightarrow> jstr" where
  "state_text m = concat (map (\<lambda>k. case map_of (lm_state m) k of None \<Rightarrow> [] | Some reg \<Rightarrow> register_text k reg) (sort_by (\<le>) (map fst (lm_state m))))"

definition computeStateRoot :: "(jstr \<Rightarrow> jstr) \<Rightarrow> LWWMap \<Rightarrow> jstr" where
  "computeStateRoot sha m = js ''sha256:'' @ sha (state_text m)"

subsection \<open>Receipts\<close>

datatype merge_status = MERGED | DISCARDED | COLLAPSE_UNSATISFIABLE_FLOOR

record CRDTReceipt =
  cr_protocol :: jstr
  cr_status :: merge_status
  cr_pre_state_root :: jstr
  cr_key :: jstr
  cr_register :: LWWRegister
  cr_post_state_root :: jstr
  cr_signature :: jstr

definition DEV_HMAC_KEY :: jstr where
  "DEV_HMAC_KEY = js ''ghost-ark-dev-only-hmac-key''"

fun status_name :: "merge_status \<Rightarrow> jstr" where
  "status_name MERGED = js ''MERGED''"
| "status_name DISCARDED = js ''DISCARDED''"
| "status_name COLLAPSE_UNSATISFIABLE_FLOOR = js ''COLLAPSE_UNSATISFIABLE_FLOOR''"

definition register_json :: "LWWRegister \<Rightarrow> jsval" where
  "register_json r = JObj
     [(js ''value'', JStr (rg_value r)), (js ''clock'', JNum (num_of_nat (rg_clock r))), (js ''nodeId'', JStr (rg_nodeId r)),
      (js ''provenance'', JStr (provenance_name (rg_provenance r)))]"

definition receipt_payload :: "merge_status \<Rightarrow> jstr \<Rightarrow> jstr \<Rightarrow> LWWRegister \<Rightarrow> jstr \<Rightarrow> jstr" where
  "receipt_payload status preRoot key reg postRoot = print_val (JObj
     [(js ''status'', JStr (status_name status)), (js ''preRoot'', JStr preRoot), (js ''key'', JStr key), (js ''register'', register_json reg),
      (js ''postRoot'', JStr postRoot)])"

definition buildCrdtReceipt :: "(jstr \<Rightarrow> jstr \<Rightarrow> jstr) \<Rightarrow> merge_status \<Rightarrow> jstr \<Rightarrow> jstr \<Rightarrow> LWWRegister \<Rightarrow> jstr \<Rightarrow> CRDTReceipt" where
  "buildCrdtReceipt hmac status preRoot key reg postRoot =
     \<lparr>cr_protocol = js ''GHOST-CRDT-V1'', cr_status = status, cr_pre_state_root = preRoot, cr_key = key, cr_register = reg, cr_post_state_root = postRoot,
      cr_signature = js ''hmac-sha256:'' @ hmac DEV_HMAC_KEY (receipt_payload status preRoot key reg postRoot)\<rparr>"

definition verifyCrdtReceipt :: "(jstr \<Rightarrow> jstr \<Rightarrow> jstr) \<Rightarrow> CRDTReceipt \<Rightarrow> bool" where
  "verifyCrdtReceipt hmac r =
     (if cr_protocol r \<noteq> js ''GHOST-CRDT-V1'' then False
      else cr_signature r = js ''hmac-sha256:'' @ hmac DEV_HMAC_KEY
        (receipt_payload (cr_status r) (cr_pre_state_root r) (cr_key r) (cr_register r) (cr_post_state_root r)))"

subsection \<open>The network\<close>

record NetworkMessage =
  ms_fromNodeId :: jstr
  ms_toNodeId :: jstr
  ms_key :: jstr
  ms_register :: LWWRegister

datatype ProvenanceFloor = FloorGateway | FloorAgent | FloorNone

record SimulatedNetwork =
  sn_nodes :: "(jstr \<times> LWWMap) list"
  sn_inFlight :: "(NetworkMessage \<times> int) list"
  sn_receipts :: "CRDTReceipt list"

definition registerNode :: "LWWMap \<Rightarrow> SimulatedNetwork \<Rightarrow> SimulatedNetwork" where
  "registerNode m net = net\<lparr>sn_nodes := AList.update (lm_nodeId m) m (sn_nodes net)\<rparr>"

text \<open>\<open>aborted\<close> is the outcome of the random abort, \<open>deliverAt\<close> the delivery time drawn for each target.\<close>

definition proposeIntent ::
  "(jstr \<Rightarrow> jstr) \<Rightarrow> (jstr \<Rightarrow> jstr \<Rightarrow> jstr) \<Rightarrow> bool \<Rightarrow> (jstr \<Rightarrow> int) \<Rightarrow> jstr \<Rightarrow> jstr \<Rightarrow> jstr \<Rightarrow> Provenance \<Rightarrow> ProvenanceFloor \<Rightarrow> SimulatedNetwork \<Rightarrow> SimulatedNetwork" where
  "proposeIntent sha hmac aborted deliverAt nodeId key value provenance requiredFloor net =
     (case map_of (sn_nodes net) nodeId of
        None \<Rightarrow> net
      | Some node \<Rightarrow>
          if requiredFloor = FloorGateway \<and> provenance = AGENT_ASSERTED then
            (let (reg, node1) = createWriteIntent value provenance node; preRoot = computeStateRoot sha node1 in
             net\<lparr>sn_nodes := AList.update nodeId node1 (sn_nodes net),
                 sn_receipts := sn_receipts net @ [buildCrdtReceipt hmac COLLAPSE_UNSATISFIABLE_FLOOR preRoot key reg preRoot]\<rparr>)
          else if aborted then net
          else
            (let (reg, node1) = createWriteIntent value provenance node; preRoot = computeStateRoot sha node1;
                 (merged, node2) = map_apply key reg node1; postRoot = computeStateRoot sha node2 in
             net\<lparr>sn_nodes := AList.update nodeId node2 (sn_nodes net),
                 sn_receipts := sn_receipts net @ [buildCrdtReceipt hmac (if merged then MERGED else DISCARDED) preRoot key reg postRoot],
                 sn_inFlight := sn_inFlight net @
                   map (\<lambda>target. (\<lparr>ms_fromNodeId = nodeId, ms_toNodeId = target, ms_key = key, ms_register = reg\<rparr>, deliverAt target))
                     (filter (\<lambda>target. target \<noteq> nodeId) (map fst (sn_nodes net)))\<rparr>))"

fun find_ready :: "int \<Rightarrow> (NetworkMessage \<times> int) list \<Rightarrow> (NetworkMessage \<times> (NetworkMessage \<times> int) list) option" where
  "find_ready now [] = None"
| "find_ready now ((msg, deliverAt) # ms) =
     (if deliverAt \<le> now then Some (msg, ms)
      else (case find_ready now ms of None \<Rightarrow> None | Some (msg', ms') \<Rightarrow> Some (msg', (msg, deliverAt) # ms')))"

text \<open>\<open>this.nodes.get(msg.toNodeId)!\<close>: a target that is not registered raises, which is \<open>None\<close>.\<close>

definition deliver :: "(jstr \<Rightarrow> jstr) \<Rightarrow> (jstr \<Rightarrow> jstr \<Rightarrow> jstr) \<Rightarrow> NetworkMessage \<Rightarrow> SimulatedNetwork \<Rightarrow> SimulatedNetwork option" where
  "deliver sha hmac msg net =
     (case map_of (sn_nodes net) (ms_toNodeId msg) of
        None \<Rightarrow> None
      | Some node \<Rightarrow>
          (let preRoot = computeStateRoot sha node; (merged, node1) = map_apply (ms_key msg) (ms_register msg) node; postRoot = computeStateRoot sha node1 in
           Some (net\<lparr>sn_nodes := AList.update (ms_toNodeId msg) node1 (sn_nodes net),
             sn_receipts := sn_receipts net @
               [buildCrdtReceipt hmac (if merged then MERGED else DISCARDED) preRoot (ms_key msg) (ms_register msg) postRoot]\<rparr>)))"

datatype queue_result = Quiescent SimulatedNetwork | QuiescenceTimeout SimulatedNetwork | TargetMissing SimulatedNetwork | Waiting SimulatedNetwork

text \<open>Each turn of the loop reads the time twice; the recursion consumes the readings and ends in \<open>Waiting\<close> when they run out.\<close>

fun processQueueUntilQuiescence ::
  "(jstr \<Rightarrow> jstr) \<Rightarrow> (jstr \<Rightarrow> jstr \<Rightarrow> jstr) \<Rightarrow> int \<Rightarrow> int \<Rightarrow> (int \<times> int) list \<Rightarrow> SimulatedNetwork \<Rightarrow> queue_result" where
  "processQueueUntilQuiescence sha hmac startTime timeoutMs [] net = (if sn_inFlight net = [] then Quiescent net else Waiting net)"
| "processQueueUntilQuiescence sha hmac startTime timeoutMs ((t, now) # ts) net =
     (if sn_inFlight net = [] then Quiescent net
      else if timeoutMs < t - startTime then QuiescenceTimeout net
      else
        (case find_ready now (sn_inFlight net) of
           None \<Rightarrow> processQueueUntilQuiescence sha hmac startTime timeoutMs ts net
         | Some (msg, remaining) \<Rightarrow>
             (case deliver sha hmac msg (net\<lparr>sn_inFlight := remaining\<rparr>) of
                None \<Rightarrow> TargetMissing (net\<lparr>sn_inFlight := remaining\<rparr>)
              | Some net1 \<Rightarrow> processQueueUntilQuiescence sha hmac startTime timeoutMs ts net1)))"

subsection \<open>Stamps\<close>

text \<open>
  Last-write-wins on any set of stamped values. A store covers a value when it holds one with at least its stamp. Two stores that hold
  values of a set only and cover all of it agree, if no two values of the set share a stamp.
\<close>

locale stamped_values =
  fixes before :: "'r \<Rightarrow> 'r \<Rightarrow> bool"
  assumes total: "before a b \<or> before b a"
    and trans: "before a b \<Longrightarrow> before b c \<Longrightarrow> before a c"
begin

lemma refl: "before a a"
  using total by blast

definition newest :: "'k \<Rightarrow> 'r \<Rightarrow> ('k \<rightharpoonup> 'r) \<Rightarrow> ('k \<rightharpoonup> 'r)" where
  "newest k r f = (case f k of None \<Rightarrow> f(k \<mapsto> r) | Some e \<Rightarrow> if before r e then f else f(k \<mapsto> r))"

definition covers :: "('k \<rightharpoonup> 'r) \<Rightarrow> 'k \<times> 'r \<Rightarrow> bool" where
  "covers f w \<longleftrightarrow> (\<exists>s. f (fst w) = Some s \<and> before (snd w) s)"

definition holds_only :: "('k \<rightharpoonup> 'r) \<Rightarrow> ('k \<times> 'r) set \<Rightarrow> bool" where
  "holds_only f W \<longleftrightarrow> (\<forall>k r. f k = Some r \<longrightarrow> (k, r) \<in> W)"

definition stamps_unique :: "('k \<times> 'r) set \<Rightarrow> bool" where
  "stamps_unique W \<longleftrightarrow> (\<forall>k r s. (k, r) \<in> W \<longrightarrow> (k, s) \<in> W \<longrightarrow> before r s \<longrightarrow> before s r \<longrightarrow> r = s)"

lemma covers_newest: "covers (newest k r f) (k, r)"
  by (auto simp: covers_def newest_def refl split: option.splits)

lemma covers_newest_mono: "covers f w \<Longrightarrow> covers (newest k r f) w"
  using total trans by (fastforce simp: covers_def newest_def split: option.splits)

lemma holds_only_newest: "holds_only f W \<Longrightarrow> holds_only (newest k r f) (insert (k, r) W)"
  by (auto simp: holds_only_def newest_def split: option.splits if_splits)

lemma holds_only_mono: "holds_only f W \<Longrightarrow> W \<subseteq> V \<Longrightarrow> holds_only f V"
  by (auto simp: holds_only_def)

lemma determined_half:
  assumes "stamps_unique W" and "holds_only f W" and "holds_only g W" and "\<And>w. w \<in> W \<Longrightarrow> covers f w" and "\<And>w. w \<in> W \<Longrightarrow> covers g w" and "f k = Some r"
  shows "g k = Some r"
proof -
  have r: "(k, r) \<in> W" using assms(2,6) by (simp add: holds_only_def)
  then obtain s where s: "g k = Some s" "before r s" using assms(5) by (force simp: covers_def)
  then have ks: "(k, s) \<in> W" using assms(3) by (simp add: holds_only_def)
  then have "before s r" using assms(4,6) by (force simp: covers_def)
  then show ?thesis using assms(1) r ks s by (auto simp: stamps_unique_def)
qed

lemma determined:
  assumes "stamps_unique W" and "holds_only f W" and "holds_only g W" and "\<And>w. w \<in> W \<Longrightarrow> covers f w" and "\<And>w. w \<in> W \<Longrightarrow> covers g w"
  shows "f = g"
proof
  fix k
  show "f k = g k"
    using determined_half [OF assms, of k] determined_half [OF assms(1,3,2,5,4), of k] by (cases "f k"; cases "g k") auto
qed

definition put_all :: "('k \<times> 'r) list \<Rightarrow> ('k \<rightharpoonup> 'r) \<Rightarrow> ('k \<rightharpoonup> 'r)" where
  "put_all ws f = foldl (\<lambda>f w. newest (fst w) (snd w) f) f ws"

lemma put_all_covers: "w \<in> set ws \<or> covers f w \<Longrightarrow> covers (put_all ws f) w"
  unfolding put_all_def
proof (induction ws arbitrary: f)
  case (Cons x ws)
  then have "w \<in> set ws \<or> covers (newest (fst x) (snd x) f) w" using covers_newest covers_newest_mono by (metis prod.collapse set_ConsD)
  then show ?case using Cons.IH by simp
qed simp

lemma put_all_holds: "holds_only f W \<Longrightarrow> holds_only (put_all ws f) (W \<union> set ws)"
  unfolding put_all_def
proof (induction ws arbitrary: f W)
  case (Cons x ws)
  from Cons.IH [OF holds_only_newest [OF Cons.prems, of "fst x" "snd x"]] show ?case by simp
qed simp

text \<open>The order and the number of deliveries do not matter.\<close>

lemma put_all_set:
  assumes "set ws = set vs" and "stamps_unique (set ws)"
  shows "put_all ws Map.empty = put_all vs Map.empty"
proof (rule determined [OF assms(2)])
  have e: "holds_only Map.empty {}" by (simp add: holds_only_def)
  show "holds_only (put_all ws Map.empty) (set ws)" "holds_only (put_all vs Map.empty) (set ws)"
    using put_all_holds [OF e, of ws] put_all_holds [OF e, of vs] assms(1) by simp_all
qed (use put_all_covers assms(1) in blast)+

end

definition stamp_le :: "LWWRegister \<Rightarrow> LWWRegister \<Rightarrow> bool" where
  "stamp_le r s \<longleftrightarrow> rg_clock r < rg_clock s \<or> rg_clock r = rg_clock s \<and> rg_nodeId r \<le> rg_nodeId s"

interpretation lww: stamped_values stamp_le
  by unfold_locales (auto simp: stamp_le_def)

definition lookup :: "LWWMap \<Rightarrow> jstr \<rightharpoonup> LWWRegister" where
  "lookup m = map_of (lm_state m)"

lemma apply_lookup: "lookup (snd (map_apply k r m)) = lww.newest k r (lookup m)"
  by (auto simp: lookup_def map_apply_def lww.newest_def stamp_le_def Let_def update_conv' split: option.splits)

lemma apply_fields [simp]:
  "lm_localClock (snd (map_apply k r m)) = max (lm_localClock m) (rg_clock r)" "lm_nodeId (snd (map_apply k r m)) = lm_nodeId m"
  by (auto simp: map_apply_def Let_def split: option.splits)

lemma apply_distinct: "distinct (map fst (lm_state m)) \<Longrightarrow> distinct (map fst (lm_state (snd (map_apply k r m))))"
  by (auto simp: map_apply_def Let_def distinct_update split: option.splits)

lemma merge_lookup: "lookup (map_merge ws m) = lww.put_all ws (lookup m)"
  by (induction ws arbitrary: m) (simp_all add: map_merge_def lww.put_all_def case_prod_beta apply_lookup)

lemma state_text_cong:
  assumes "lookup a = lookup b" and "distinct (map fst (lm_state a))" and "distinct (map fst (lm_state b))"
  shows "state_text a = state_text b"
proof -
  have "set (map fst (lm_state m)) = dom (lookup m)" for m by (simp add: lookup_def dom_map_of_conv_image_fst)
  then have "sort_by (\<le>) (map fst (lm_state a)) = sort_by (\<le>) (map fst (lm_state b))"
    using sort_by_key_unique [of "\<lambda>x. x" "map fst (lm_state a)" "map fst (lm_state b)"] assms by (simp only: list.map_ident)
  then show ?thesis using assms(1) by (simp add: state_text_def lookup_def)
qed

text \<open>A node joins a set of writes when it holds only these and covers them all.\<close>

definition joins :: "LWWMap \<Rightarrow> (jstr \<times> LWWRegister) set \<Rightarrow> bool" where
  "joins m W \<longleftrightarrow> lww.holds_only (lookup m) W \<and> (\<forall>w\<in>W. lww.covers (lookup m) w)"

lemma joins_unique: "joins a W \<Longrightarrow> joins b W \<Longrightarrow> lww.stamps_unique W \<Longrightarrow> lookup a = lookup b"
  unfolding joins_def by (intro lww.determined [of W]) auto

lemma joins_own: "distinct (map fst (lm_state m)) \<Longrightarrow> joins m (set (lm_state m))"
  unfolding joins_def lww.holds_only_def lww.covers_def lookup_def using lww.refl by (force dest: map_of_SomeD)

lemma joins_merge:
  assumes "joins a A" and "joins b B" and "distinct (map fst (lm_state b))"
  shows "joins (map_merge (lm_state b) a) (A \<union> B)"
proof -
  have graph: "(k, r) \<in> set (lm_state b) \<longleftrightarrow> lookup b k = Some r" for k r using assms(3) by (simp add: lookup_def map_of_eq_Some_iff)
  then have sub: "set (lm_state b) \<subseteq> B" using assms(2) by (auto simp: joins_def lww.holds_only_def)
  have "lww.holds_only (lookup (map_merge (lm_state b) a)) (A \<union> set (lm_state b))"
    unfolding merge_lookup using assms(1) by (intro lww.put_all_holds) (simp add: joins_def)
  then have "lww.holds_only (lookup (map_merge (lm_state b) a)) (A \<union> B)" by (rule lww.holds_only_mono) (use sub in blast)
  moreover have "lww.covers (lookup (map_merge (lm_state b) a)) w" if "w \<in> A \<union> B" for w
  proof (cases "w \<in> A")
    case True
    then show ?thesis using assms(1) unfolding merge_lookup joins_def by (intro lww.put_all_covers) blast
  next
    case False
    then obtain s where s: "lookup b (fst w) = Some s" "stamp_le (snd w) s" using \<open>w \<in> A \<union> B\<close> assms(2) by (auto simp: joins_def lww.covers_def)
    then have "lww.covers (lookup (map_merge (lm_state b) a)) (fst w, s)" unfolding merge_lookup by (intro lww.put_all_covers) (simp add: graph)
    then show ?thesis using s(2) lww.trans by (auto simp: lww.covers_def)
  qed
  ultimately show ?thesis by (simp add: joins_def)
qed

lemma merge_distinct: "distinct (map fst (lm_state m)) \<Longrightarrow> distinct (map fst (lm_state (map_merge ws m)))"
  by (induction ws arbitrary: m) (simp_all add: map_merge_def case_prod_beta apply_distinct)

text \<open>
  The map is a state-based CRDT: merging a state into a node is commutative, associative and idempotent on what the nodes hold, as long
  as no two different writes of a key carry the same clock and node.
\<close>

theorem merge_is_semilattice:
  fixes a b c :: LWWMap
  assumes "lww.stamps_unique (set (lm_state a) \<union> set (lm_state b) \<union> set (lm_state c))"
    and "distinct (map fst (lm_state a))" and "distinct (map fst (lm_state b))" and "distinct (map fst (lm_state c))"
  shows "lookup (map_merge (lm_state b) a) = lookup (map_merge (lm_state a) b)
    \<and> lookup (map_merge (lm_state c) (map_merge (lm_state b) a)) = lookup (map_merge (lm_state (map_merge (lm_state c) b)) a)
    \<and> lookup (map_merge (lm_state a) a) = lookup a"
proof -
  let ?A = "set (lm_state a)" and ?B = "set (lm_state b)" and ?C = "set (lm_state c)"
  have unique: "W \<subseteq> ?A \<union> ?B \<union> ?C \<Longrightarrow> lww.stamps_unique W" for W using assms(1) unfolding lww.stamps_unique_def by blast
  note a = joins_own [OF assms(2)] and b = joins_own [OF assms(3)] and c = joins_own [OF assms(4)]
  note ab = joins_merge [OF a b assms(3)] and ba = joins_merge [OF b a assms(2)] and aa = joins_merge [OF a a assms(2)]
  note abc = joins_merge [OF ab c assms(4)] and bc = joins_merge [OF b c assms(4)]
  note abc' = joins_merge [OF a bc merge_distinct [OF assms(3)]]
  have "lookup (map_merge (lm_state b) a) = lookup (map_merge (lm_state a) b)"
    using joins_unique [OF ab, of "map_merge (lm_state a) b"] ba unique [of "?A \<union> ?B"] by (simp add: Un_commute)
  moreover have "lookup (map_merge (lm_state c) (map_merge (lm_state b) a)) = lookup (map_merge (lm_state (map_merge (lm_state c) b)) a)"
    using joins_unique [OF abc] abc' unique [of "?A \<union> ?B \<union> ?C"] by (simp add: Un_assoc)
  moreover have "lookup (map_merge (lm_state a) a) = lookup a" using joins_unique [OF aa, of a] a unique [of ?A] by auto
  ultimately show ?thesis by blast
qed

subsection \<open>Runs of the network\<close>

inductive net_step :: "(jstr \<Rightarrow> jstr) \<Rightarrow> (jstr \<Rightarrow> jstr \<Rightarrow> jstr) \<Rightarrow> SimulatedNetwork \<Rightarrow> SimulatedNetwork \<Rightarrow> bool" for sha hmac where
  propose: "net_step sha hmac net (proposeIntent sha hmac aborted deliverAt nodeId key value provenance floor net)"
| arrive: "sn_inFlight net = xs @ (msg, at) # ys \<Longrightarrow> deliver sha hmac msg (net\<lparr>sn_inFlight := xs @ ys\<rparr>) = Some net' \<Longrightarrow> net_step sha hmac net net'"

definition empty_network :: SimulatedNetwork where
  "empty_network = \<lparr>sn_nodes = [], sn_inFlight = [], sn_receipts = []\<rparr>"

definition start_network :: "jstr list \<Rightarrow> SimulatedNetwork" where
  "start_network ids = foldl (\<lambda>net i. registerNode (new_map i) net) empty_network ids"

inductive reachable_net :: "(jstr \<Rightarrow> jstr) \<Rightarrow> (jstr \<Rightarrow> jstr \<Rightarrow> jstr) \<Rightarrow> jstr list \<Rightarrow> SimulatedNetwork \<Rightarrow> bool" for sha hmac ids where
  start: "reachable_net sha hmac ids (start_network ids)"
| step: "reachable_net sha hmac ids net \<Longrightarrow> net_step sha hmac net net' \<Longrightarrow> reachable_net sha hmac ids net'"

definition clocks_in_range :: "SimulatedNetwork \<Rightarrow> bool" where
  "clocks_in_range net \<longleftrightarrow> (\<forall>m\<in>snd ` set (sn_nodes net). lm_localClock m < 2 ^ 53)"

text \<open>
  The invariant, for the set \<open>W\<close> of the writes accepted so far: a node's clock has reached the clocks of its own writes, so that no two writes share a stamp;
  a node holds writes of \<open>W\<close> only; and a write that a node does not cover is still on its way to it.
\<close>

definition in_flight :: "SimulatedNetwork \<Rightarrow> jstr \<Rightarrow> (jstr \<times> LWWRegister) set" where
  "in_flight net n = {(ms_key msg, ms_register msg) | msg. msg \<in> fst ` set (sn_inFlight net) \<and> ms_toNodeId msg = n}"

definition node_ok :: "SimulatedNetwork \<Rightarrow> (jstr \<times> LWWRegister) set \<Rightarrow> jstr \<Rightarrow> LWWMap \<Rightarrow> bool" where
  "node_ok net W n m \<longleftrightarrow> lm_nodeId m = n \<and> distinct (map fst (lm_state m)) \<and> lww.holds_only (lookup m) W
     \<and> (\<forall>w\<in>W. rg_nodeId (snd w) = n \<longrightarrow> rg_clock (snd w) \<le> lm_localClock m)
     \<and> (\<forall>w\<in>W. lww.covers (lookup m) w \<or> w \<in> in_flight net n)"

definition net_ok :: "SimulatedNetwork \<Rightarrow> (jstr \<times> LWWRegister) set \<Rightarrow> bool" where
  "net_ok net W \<longleftrightarrow> distinct (map fst (sn_nodes net)) \<and> (\<forall>n m. map_of (sn_nodes net) n = Some m \<longrightarrow> node_ok net W n m)
     \<and> (\<forall>w\<in>W. rg_nodeId (snd w) \<in> fst ` set (sn_nodes net))
     \<and> (\<forall>w\<in>W. \<forall>v\<in>W. rg_clock (snd w) = rg_clock (snd v) \<longrightarrow> rg_nodeId (snd w) = rg_nodeId (snd v) \<longrightarrow> w = v)
     \<and> (\<forall>msg\<in>fst ` set (sn_inFlight net). (ms_key msg, ms_register msg) \<in> W \<and> ms_toNodeId msg \<in> fst ` set (sn_nodes net))"

lemma start_nodes: "map_of (sn_nodes (start_network ids)) n = (if n \<in> set ids then Some (new_map n) else None)"
  "distinct (map fst (sn_nodes (start_network ids)))" "sn_inFlight (start_network ids) = []"
proof -
  have snoc: "start_network (is @ [i]) = registerNode (new_map i) (start_network is)" for i "is" by (simp add: start_network_def)
  have nil: "start_network [] = empty_network" by (simp add: start_network_def)
  show "map_of (sn_nodes (start_network ids)) n = (if n \<in> set ids then Some (new_map n) else None)"
    by (induction ids rule: rev_induct) (auto simp: nil snoc empty_network_def registerNode_def update_conv' new_map_def)
  show "distinct (map fst (sn_nodes (start_network ids)))" "sn_inFlight (start_network ids) = []"
    by (induction ids rule: rev_induct) (simp_all add: nil snoc empty_network_def registerNode_def distinct_update)
qed

lemma net_ok_start: "net_ok (start_network ids) {}"
  by (auto simp: net_ok_def node_ok_def start_nodes new_map_def lookup_def lww.holds_only_def in_flight_def split: if_splits)

lemma net_ok_stamps:
  assumes "net_ok net W"
  shows "lww.stamps_unique W"
  unfolding lww.stamps_unique_def
proof (intro allI impI)
  fix k r s
  assume w: "(k, r) \<in> W" "(k, s) \<in> W" and "stamp_le r s" "stamp_le s r"
  then have "rg_clock r = rg_clock s" "rg_nodeId r = rg_nodeId s" by (auto simp: stamp_le_def)
  then have "(k, r) = (k, s)" using assms w unfolding net_ok_def by (metis snd_conv)
  then show "r = s" by simp
qed

text \<open>A step changes one node, the others keep what they cover.\<close>

lemma net_ok_update:
  assumes "net_ok net W" and "map_of (sn_nodes net) n = Some m" and "sn_nodes net' = AList.update n m' (sn_nodes net)" and "W \<subseteq> W'" and "node_ok net' W' n m'"
    and "\<And>i mi. map_of (sn_nodes net) i = Some mi \<Longrightarrow> i \<noteq> n \<Longrightarrow> node_ok net W i mi \<Longrightarrow> node_ok net' W' i mi"
    and "\<And>w. w \<in> W' - W \<Longrightarrow> rg_nodeId (snd w) = n \<and> lm_localClock m < rg_clock (snd w)" and "\<And>w v. w \<in> W' - W \<Longrightarrow> v \<in> W' - W \<Longrightarrow> w = v"
    and "\<And>msg. msg \<in> fst ` set (sn_inFlight net') \<Longrightarrow> (ms_key msg, ms_register msg) \<in> W' \<and> ms_toNodeId msg \<in> fst ` set (sn_nodes net)"
  shows "net_ok net' W'"
proof -
  have keys: "fst ` set (sn_nodes net') = fst ` set (sn_nodes net)"
    using assms(2,3) by (simp add: dom_map_of_conv_image_fst [symmetric] update_conv' dom_fun_upd insert_absorb domI)
  have nodes: "map_of (sn_nodes net') = (map_of (sn_nodes net))(n \<mapsto> m')" using assms(3) by (simp add: update_conv')
  have old: "rg_clock (snd w) \<le> lm_localClock m" if "w \<in> W" "rg_nodeId (snd w) = n" for w
    using assms(1,2) that by (auto simp: net_ok_def node_ok_def)
  have "w = v" if "w \<in> W'" "v \<in> W'" "rg_clock (snd w) = rg_clock (snd v)" "rg_nodeId (snd w) = rg_nodeId (snd v)" for w v
  proof (cases "w \<in> W"; cases "v \<in> W")
    assume "w \<in> W" "v \<in> W"
    then show ?thesis using assms(1) that(3,4) by (auto simp: net_ok_def)
  next
    assume "w \<in> W" "v \<notin> W"
    then show ?thesis using assms(7) [of v] old [of w] that by auto
  next
    assume "w \<notin> W" "v \<in> W"
    then show ?thesis using assms(7) [of w] old [of v] that by auto
  qed (use assms(8) that in blast)
  moreover have "distinct (map fst (sn_nodes net'))" using assms(1,3) by (simp add: net_ok_def distinct_update)
  moreover have "node_ok net' W' i mi" if "map_of (sn_nodes net') i = Some mi" for i mi
    using that assms(1,5,6) nodes by (cases "i = n") (auto simp: net_ok_def)
  moreover have "rg_nodeId (snd w) \<in> fst ` set (sn_nodes net')" if "w \<in> W'" for w
    using that assms(1,2,7) keys by (cases "w \<in> W") (auto simp: net_ok_def dest: map_of_SomeD intro: rev_image_eqI)
  ultimately show ?thesis using assms(9) keys by (auto simp: net_ok_def)
qed

lemma deliver_ok:
  assumes "net_ok net W" and "sn_inFlight net = xs @ (msg, at) # ys" and "deliver sha hmac msg (net\<lparr>sn_inFlight := xs @ ys\<rparr>) = Some net'"
  shows "net_ok net' W"
proof -
  obtain m where m: "map_of (sn_nodes net) (ms_toNodeId msg) = Some m"
    using assms(3) by (auto simp: deliver_def split: option.splits)
  let ?k = "ms_key msg" and ?r = "ms_register msg" and ?n = "ms_toNodeId msg"
  let ?m = "snd (map_apply ?k ?r m)"
  have net': "sn_nodes net' = AList.update ?n ?m (sn_nodes net)" "sn_inFlight net' = xs @ ys"
    using assms(3) m by (auto simp: deliver_def Let_def case_prod_beta)
  have w: "(?k, ?r) \<in> W" using assms(1,2) by (auto simp: net_ok_def)
  have flight: "in_flight net i = in_flight net' i \<union> (if i = ?n then {(?k, ?r)} else {})" for i
    unfolding in_flight_def assms(2) net'(2) by auto
  have ok: "node_ok net W ?n m" using assms(1) m by (simp add: net_ok_def)
  have "lww.holds_only (lookup ?m) W"
    using lww.holds_only_newest [of "lookup m" W ?k ?r] ok w by (simp add: node_ok_def apply_lookup insert_absorb)
  moreover have "lww.covers (lookup ?m) v \<or> v \<in> in_flight net' ?n" if "v \<in> W" for v
    using that ok flight [of ?n] lww.covers_newest_mono [of "lookup m" v ?k ?r] lww.covers_newest [of ?k ?r "lookup m"]
    by (auto simp: node_ok_def apply_lookup)
  moreover have "rg_clock (snd v) \<le> lm_localClock ?m" if "v \<in> W" "rg_nodeId (snd v) = ?n" for v
    using that ok by (fastforce simp: node_ok_def)
  ultimately have "node_ok net' W ?n ?m" using ok by (simp add: node_ok_def apply_distinct)
  then show ?thesis
  proof (rule net_ok_update [OF assms(1) m net'(1) order_refl])
    show "node_ok net' W i mi" if "map_of (sn_nodes net) i = Some mi" "i \<noteq> ?n" "node_ok net W i mi" for i mi
      using that flight [of i] by (simp add: node_ok_def)
    show "(ms_key x, ms_register x) \<in> W \<and> ms_toNodeId x \<in> fst ` set (sn_nodes net)" if "x \<in> fst ` set (sn_inFlight net')" for x
      using that assms(1,2) net'(2) by (auto simp: net_ok_def)
  qed auto
qed

lemma propose_cases:
  obtains (same) "proposeIntent sha hmac aborted deliverAt n k v p fl net = net"
  | (collapsed) m where "map_of (sn_nodes net) n = Some m"
      "sn_nodes (proposeIntent sha hmac aborted deliverAt n k v p fl net) = AList.update n (snd (createWriteIntent v p m)) (sn_nodes net)"
      "sn_inFlight (proposeIntent sha hmac aborted deliverAt n k v p fl net) = sn_inFlight net"
  | (written) m where "map_of (sn_nodes net) n = Some m"
      "sn_nodes (proposeIntent sha hmac aborted deliverAt n k v p fl net)
        = AList.update n (snd (map_apply k (fst (createWriteIntent v p m)) (snd (createWriteIntent v p m)))) (sn_nodes net)"
      "fst ` set (sn_inFlight (proposeIntent sha hmac aborted deliverAt n k v p fl net)) = fst ` set (sn_inFlight net) \<union>
        {\<lparr>ms_fromNodeId = n, ms_toNodeId = t, ms_key = k, ms_register = fst (createWriteIntent v p m)\<rparr> | t. t \<in> fst ` set (sn_nodes net) \<and> t \<noteq> n}"
proof (cases "map_of (sn_nodes net) n")
  case None
  then show ?thesis using same by (simp add: proposeIntent_def)
next
  case (Some m)
  consider "fl = FloorGateway \<and> p = AGENT_ASSERTED" | "\<not> (fl = FloorGateway \<and> p = AGENT_ASSERTED)" "aborted" | "\<not> (fl = FloorGateway \<and> p = AGENT_ASSERTED)" "\<not> aborted"
    by blast
  then show ?thesis
  proof cases
    case 1
    then show ?thesis using Some collapsed [OF Some] by (simp add: proposeIntent_def Let_def case_prod_beta)
  next
    case 2
    then have "proposeIntent sha hmac aborted deliverAt n k v p fl net = net" using Some by (auto simp: proposeIntent_def)
    then show ?thesis by (rule same)
  next
    case 3
    then have no: "(fl = FloorGateway \<and> p = AGENT_ASSERTED) = False" by blast
    show ?thesis
      by (intro written [OF Some]) (simp_all add: proposeIntent_def no 3(2) Some Let_def case_prod_beta image_Un image_image setcompr_eq_image)
  qed
qed

lemma intent_fields [simp]:
  "rg_clock (fst (createWriteIntent v p m)) = increment (lm_localClock m)" "rg_nodeId (fst (createWriteIntent v p m)) = lm_nodeId m"
  "lm_localClock (snd (createWriteIntent v p m)) = increment (lm_localClock m)" "lm_nodeId (snd (createWriteIntent v p m)) = lm_nodeId m"
  "lm_state (snd (createWriteIntent v p m)) = lm_state m" "lookup (snd (createWriteIntent v p m)) = lookup m"
  by (simp_all add: createWriteIntent_def Let_def lookup_def)

lemma increment_ge: "c \<le> increment c"
  by (simp add: increment_def)

lemma clocks_before:
  assumes "map_of (sn_nodes net) n = Some m" and "sn_nodes net' = AList.update n m' (sn_nodes net)" and "lm_localClock m \<le> lm_localClock m'"
    and "clocks_in_range net'" and "distinct (map fst (sn_nodes net))"
  shows "clocks_in_range net" and "lm_localClock m' < 2 ^ 53"
proof -
  have dist: "distinct (map fst (sn_nodes net'))" using assms(2,5) by (simp add: distinct_update)
  have nodes: "map_of (sn_nodes net') = (map_of (sn_nodes net))(n \<mapsto> m')" using assms(2) by (simp add: update_conv')
  have range: "lm_localClock mi < 2 ^ 53" if "map_of (sn_nodes net') i = Some mi" for i mi
    using assms(4) map_of_SomeD [OF that] by (force simp: clocks_in_range_def)
  show m': "lm_localClock m' < 2 ^ 53" using range [of n m'] nodes by simp
  have "lm_localClock mi < 2 ^ 53" if "map_of (sn_nodes net) i = Some mi" for i mi
    using that nodes range [of i mi] m' assms(1,3) by (cases "i = n") auto
  then show "clocks_in_range net" using assms(5) by (force simp: clocks_in_range_def map_of_eq_Some_iff)
qed

lemma step_nodes:
  assumes "net_step sha hmac net net'"
  obtains "sn_nodes net' = sn_nodes net"
  | n m m' where "map_of (sn_nodes net) n = Some m" "sn_nodes net' = AList.update n m' (sn_nodes net)" "lm_localClock m \<le> lm_localClock m'"
  using assms
proof cases
  case (propose aborted deliverAt n k v p fl)
  show thesis
  proof (cases rule: propose_cases [of sha hmac aborted deliverAt n k v p fl net])
    case same
    then show ?thesis using that(1) propose by simp
  next
    case (collapsed m)
    then show ?thesis using that(2) propose increment_ge by simp
  next
    case (written m)
    then show ?thesis using that(2) propose increment_ge by (simp add: le_max_iff_disj)
  qed
next
  case (arrive xs msg at ys)
  obtain m where m: "map_of (sn_nodes net) (ms_toNodeId msg) = Some m" using arrive(2) by (auto simp: deliver_def split: option.splits)
  then have "sn_nodes net' = AList.update (ms_toNodeId msg) (snd (map_apply (ms_key msg) (ms_register msg) m)) (sn_nodes net)"
    using arrive(2) by (auto simp: deliver_def Let_def case_prod_beta)
  then show thesis using that(2) [OF m] by simp
qed

lemma reachable_net_distinct: "reachable_net sha hmac ids net \<Longrightarrow> distinct (map fst (sn_nodes net))"
proof (induction rule: reachable_net.induct)
  case (step net net')
  from step.hyps(2) show ?case by (rule step_nodes) (simp_all add: step.IH distinct_update)
qed (rule start_nodes)

lemma step_clocks:
  assumes "net_step sha hmac net net'" and "clocks_in_range net'" and "distinct (map fst (sn_nodes net))"
  shows "clocks_in_range net"
  using assms(1)
proof (rule step_nodes)
  assume "sn_nodes net' = sn_nodes net"
  then show ?thesis using assms(2) by (simp add: clocks_in_range_def)
qed (rule clocks_before(1) [OF _ _ _ assms(2,3)])

lemma propose_ok:
  assumes "net_ok net W" and "clocks_in_range (proposeIntent sha hmac aborted deliverAt n k v p fl net)"
  shows "\<exists>W'. net_ok (proposeIntent sha hmac aborted deliverAt n k v p fl net) W'"
proof (cases rule: propose_cases [of sha hmac aborted deliverAt n k v p fl net])
  case same
  then show ?thesis using assms by auto
next
  case (collapsed m)
  let ?net = "proposeIntent sha hmac aborted deliverAt n k v p fl net"
  have flight: "in_flight ?net = in_flight net" by (simp add: in_flight_def collapsed(3) fun_eq_iff)
  have "node_ok net W n m" using assms(1) collapsed(1) by (simp add: net_ok_def)
  then have "node_ok ?net W n (snd (createWriteIntent v p m))"
    using increment_ge [of "lm_localClock m"] by (auto simp: node_ok_def flight intro: le_trans)
  then have "net_ok ?net W"
    by (rule net_ok_update [OF assms(1) collapsed(1,2) order_refl]) (use assms(1) collapsed(3) flight in \<open>auto simp: node_ok_def net_ok_def\<close>)
  then show ?thesis by blast
next
  case (written m)
  let ?net = "proposeIntent sha hmac aborted deliverAt n k v p fl net" and ?r = "fst (createWriteIntent v p m)"
  let ?m = "snd (map_apply k ?r (snd (createWriteIntent v p m)))"
  have dist: "distinct (map fst (sn_nodes net))" and ok: "node_ok net W n m" using assms(1) written(1) by (simp_all add: net_ok_def)
  have "lm_localClock m \<le> lm_localClock ?m" using increment_ge by (simp add: le_max_iff_disj)
  note before = clocks_before [OF written(1,2) this assms(2) dist]
  have incr: "increment (lm_localClock m) = lm_localClock m + 1" using before(2) by (simp add: increment_def split: if_splits)
  have flight: "in_flight ?net i = in_flight net i \<union> (if i \<in> fst ` set (sn_nodes net) \<and> i \<noteq> n then {(k, ?r)} else {})" for i
  proof
    show "in_flight ?net i \<subseteq> in_flight net i \<union> (if i \<in> fst ` set (sn_nodes net) \<and> i \<noteq> n then {(k, ?r)} else {})"
      unfolding in_flight_def written(3) by (auto intro: rev_image_eqI)
    have "(k, ?r) \<in> in_flight ?net i" if "i \<in> fst ` set (sn_nodes net)" "i \<noteq> n"
      unfolding in_flight_def written(3) using that
      by (intro CollectI exI [of _ "\<lparr>ms_fromNodeId = n, ms_toNodeId = i, ms_key = k, ms_register = ?r\<rparr>"]) auto
    moreover have "in_flight net i \<subseteq> in_flight ?net i" unfolding in_flight_def written(3) by blast
    ultimately show "in_flight net i \<union> (if i \<in> fst ` set (sn_nodes net) \<and> i \<noteq> n then {(k, ?r)} else {}) \<subseteq> in_flight ?net i" by auto
  qed
  have "rg_clock (snd w) \<le> lm_localClock ?m" if "w \<in> insert (k, ?r) W" "rg_nodeId (snd w) = n" for w
    using that ok by (fastforce simp: node_ok_def incr)
  moreover have "lww.covers (lookup ?m) w \<or> w \<in> in_flight ?net n" if "w \<in> insert (k, ?r) W" for w
    using that ok lww.covers_newest_mono [of "lookup m" w k ?r] lww.covers_newest [of k ?r "lookup m"] flight [of n]
    by (auto simp: node_ok_def apply_lookup)
  moreover have "lww.holds_only (lookup ?m) (insert (k, ?r) W)" using ok lww.holds_only_newest [of "lookup m" W k ?r] by (simp add: node_ok_def apply_lookup)
  ultimately have "node_ok ?net (insert (k, ?r) W) n ?m" using ok by (simp add: node_ok_def apply_distinct)
  then have "net_ok ?net (insert (k, ?r) W)"
  proof (rule net_ok_update [OF assms(1) written(1,2) subset_insertI])
    show "node_ok ?net (insert (k, ?r) W) i mi" if i: "map_of (sn_nodes net) i = Some mi" "i \<noteq> n" "node_ok net W i mi" for i mi
    proof -
      have "i \<in> fst ` set (sn_nodes net)" using i(1) by (metis domI dom_map_of_conv_image_fst)
      then show ?thesis using i(2,3) ok flight [of i] lww.holds_only_mono [OF _ subset_insertI] by (auto simp: node_ok_def)
    qed
    show "rg_nodeId (snd w) = n \<and> lm_localClock m < rg_clock (snd w)" if "w \<in> insert (k, ?r) W - W" for w
      using that ok incr by (auto simp: node_ok_def)
    show "(ms_key x, ms_register x) \<in> insert (k, ?r) W \<and> ms_toNodeId x \<in> fst ` set (sn_nodes net)" if "x \<in> fst ` set (sn_inFlight ?net)" for x
      using that assms(1) unfolding written(3) by (auto simp: net_ok_def intro: rev_image_eqI)
  qed auto
  then show ?thesis by blast
qed

lemma reachable_net_ok: "reachable_net sha hmac ids net \<Longrightarrow> clocks_in_range net \<Longrightarrow> \<exists>W. net_ok net W"
proof (induction rule: reachable_net.induct)
  case start
  then show ?case using net_ok_start by blast
next
  case (step net net')
  obtain W where W: "net_ok net W"
    using step.IH step_clocks [OF step.hyps(2) step.prems reachable_net_distinct [OF step.hyps(1)]] by blast
  from step.hyps(2) show ?case
  proof cases
    case propose
    then show ?thesis using propose_ok [OF W] step.prems by simp
  next
    case arrive
    then show ?thesis using deliver_ok [OF W] by blast
  qed
qed

text \<open>
  Claim C9. The swarm converges. Whatever intents were proposed at which nodes, whichever were aborted or refused by their floor, and in
  whatever order the messages arrived: when no message is in flight, all nodes hold the same register for every key and compute the same
  state root. The clocks have to be below \<open>2^53\<close>, where JavaScript numbers stop counting.
\<close>

theorem swarm_converges:
  assumes "reachable_net sha hmac ids net" and "clocks_in_range net" and "sn_inFlight net = []"
    and "map_of (sn_nodes net) i = Some a" and "map_of (sn_nodes net) j = Some b"
  shows "lookup a = lookup b \<and> computeStateRoot sha a = computeStateRoot sha b"
proof -
  obtain W where W: "net_ok net W" using reachable_net_ok assms(1,2) by blast
  have joins: "joins m W \<and> distinct (map fst (lm_state m))" if "map_of (sn_nodes net) n = Some m" for n m
    using W that assms(3) by (auto simp: net_ok_def node_ok_def joins_def in_flight_def)
  have "lookup a = lookup b" using joins_unique joins assms(4,5) net_ok_stamps [OF W] by blast
  then show ?thesis using state_text_cong [of a b] joins assms(4,5) by (simp add: computeStateRoot_def)
qed

subsection \<open>The queue is worked off\<close>

lemma find_ready_Some:
  "find_ready now q = Some (msg, rem) \<Longrightarrow> \<exists>xs at ys. q = xs @ (msg, at) # ys \<and> rem = xs @ ys \<and> at \<le> now"
proof (induction now q arbitrary: msg rem rule: find_ready.induct)
  case (2 now m t ms)
  show ?case
  proof (cases "t \<le> now")
    case True
    then show ?thesis using "2.prems" by (intro exI [of _ "[]"]) auto
  next
    case False
    then obtain rem' where r: "find_ready now ms = Some (msg, rem')" "rem = (m, t) # rem'" using "2.prems" by (auto split: option.splits)
    obtain xs at ys where "ms = xs @ (msg, at) # ys" "rem' = xs @ ys" "at \<le> now" using "2.IH" [OF False r(1)] by blast
    then show ?thesis using r(2) by (intro exI [of _ "(m, t) # xs"]) auto
  qed
qed simp

lemma find_ready_None: "find_ready now q = None \<longleftrightarrow> (\<forall>(msg, at)\<in>set q. now < at)"
  by (induction now q rule: find_ready.induct) (auto split: option.splits)

lemma reachable_net_targets: "reachable_net sha hmac ids net \<Longrightarrow> msg \<in> fst ` set (sn_inFlight net) \<Longrightarrow> ms_toNodeId msg \<in> fst ` set (sn_nodes net)"
proof (induction arbitrary: msg rule: reachable_net.induct)
  case (step net net')
  have keys: "fst ` set (sn_nodes net') = fst ` set (sn_nodes net)"
    using step.hyps(2) by (rule step_nodes)
      (simp_all add: dom_map_of_conv_image_fst [symmetric] update_conv' dom_fun_upd insert_absorb domI)
  from step.hyps(2) show ?case
  proof cases
    case (propose aborted deliverAt n k v p fl)
    have "msg \<in> fst ` set (sn_inFlight net) \<or> ms_toNodeId msg \<in> fst ` set (sn_nodes net)"
    proof (cases rule: propose_cases [of sha hmac aborted deliverAt n k v p fl net])
      case (written m)
      from step.prems have "msg \<in> fst ` set (sn_inFlight net) \<union>
          {\<lparr>ms_fromNodeId = n, ms_toNodeId = t, ms_key = k, ms_register = fst (createWriteIntent v p m)\<rparr> | t. t \<in> fst ` set (sn_nodes net) \<and> t \<noteq> n}"
        unfolding propose written(3) .
      then show ?thesis by (elim UnE CollectE exE conjE) simp_all
    qed (use step.prems propose in simp_all)
    then show ?thesis using step.IH keys by blast
  next
    case (arrive xs m at ys)
    then have "sn_inFlight net' = xs @ ys" by (auto simp: deliver_def Let_def case_prod_beta split: option.splits)
    then show ?thesis using step arrive(1) keys by auto
  qed
qed (simp add: start_nodes)

lemma deliver_total:
  assumes "reachable_net sha hmac ids net" and "sn_inFlight net = xs @ (msg, at) # ys"
  obtains net' where "deliver sha hmac msg (net\<lparr>sn_inFlight := xs @ ys\<rparr>) = Some net'" "reachable_net sha hmac ids net'" "sn_inFlight net' = xs @ ys"
proof -
  have "ms_toNodeId msg \<in> fst ` set (sn_nodes net)" using reachable_net_targets [OF assms(1)] assms(2) by simp
  then obtain m where "map_of (sn_nodes net) (ms_toNodeId msg) = Some m" by (metis domD dom_map_of_conv_image_fst)
  then obtain net' where net': "deliver sha hmac msg (net\<lparr>sn_inFlight := xs @ ys\<rparr>) = Some net'" "sn_inFlight net' = xs @ ys"
    by (auto simp: deliver_def Let_def case_prod_beta)
  then show thesis using that reachable_net.step [OF assms(1) net_step.arrive [OF assms(2) net'(1)]] by blast
qed

text \<open>
  Claim C25. The queue is worked off: once the clock has passed every delivery time and the time limit is not reached, one turn of the loop per message
  is enough, and \<open>processQueueUntilQuiescence\<close> returns with no message in flight, at a network reached by deliveries.
\<close>

theorem queue_reaches_quiescence:
  assumes "reachable_net sha hmac ids net" and "length (sn_inFlight net) \<le> length ts"
    and "\<And>t now. (t, now) \<in> set ts \<Longrightarrow> t - startTime \<le> timeoutMs" and "\<And>t now msg at. (t, now) \<in> set ts \<Longrightarrow> (msg, at) \<in> set (sn_inFlight net) \<Longrightarrow> at \<le> now"
  shows "\<exists>net'. processQueueUntilQuiescence sha hmac startTime timeoutMs ts net = Quiescent net' \<and> reachable_net sha hmac ids net' \<and> sn_inFlight net' = []"
  using assms
proof (induction sha hmac startTime timeoutMs ts net rule: processQueueUntilQuiescence.induct)
  case (2 sha hmac startTime timeoutMs t now ts net)
  show ?case
  proof (cases "sn_inFlight net = []")
    case False
    then obtain x where "x \<in> set (sn_inFlight net)" by (cases "sn_inFlight net") auto
    then have "find_ready now (sn_inFlight net) \<noteq> None" using "2.prems"(4) unfolding find_ready_None by (metis case_prodD linorder_not_le list.set_intros(1) prod.collapse)
    then obtain msg rem where ready: "find_ready now (sn_inFlight net) = Some (msg, rem)" by fastforce
    from find_ready_Some [OF this] obtain xs at ys where q: "sn_inFlight net = xs @ (msg, at) # ys" "rem = xs @ ys" by blast
    obtain net' where net': "deliver sha hmac msg (net\<lparr>sn_inFlight := xs @ ys\<rparr>) = Some net'" "reachable_net sha hmac ids net'" "sn_inFlight net' = xs @ ys"
      using deliver_total [OF "2.prems"(1) q(1)] by blast
    have limit: "\<not> timeoutMs < t - startTime" using "2.prems"(3) [of t now] by simp
    have "\<exists>net''. processQueueUntilQuiescence sha hmac startTime timeoutMs ts net' = Quiescent net'' \<and> reachable_net sha hmac ids net'' \<and> sn_inFlight net'' = []"
    proof (rule "2.IH"(2) [OF False limit ready refl net'(1) [folded q(2)] net'(2)])
      show "length (sn_inFlight net') \<le> length ts" using "2.prems"(2) q(1) net'(3) by simp
      show "u - startTime \<le> timeoutMs" if "(u, v) \<in> set ts" for u v using "2.prems"(3) [of u v] that by simp
      show "b \<le> v" if "(u, v) \<in> set ts" "(a, b) \<in> set (sn_inFlight net')" for u v a b
        using "2.prems"(4) [of u v a b] that q(1) net'(3) by auto
    qed
    then show ?thesis using False limit ready q(2) net'(1) by simp
  qed (use "2.prems"(1) in simp)
qed simp

subsection \<open>Receipts of the network\<close>

definition receipt_ok :: "(jstr \<Rightarrow> jstr \<Rightarrow> jstr) \<Rightarrow> CRDTReceipt \<Rightarrow> bool" where
  "receipt_ok hmac r \<longleftrightarrow> verifyCrdtReceipt hmac r \<and> (cr_status r \<noteq> MERGED \<longrightarrow> cr_pre_state_root r = cr_post_state_root r)"

lemma built_receipt_ok: "(status \<noteq> MERGED \<longrightarrow> pre = post) \<Longrightarrow> receipt_ok hmac (buildCrdtReceipt hmac status pre k r post)"
  by (simp add: receipt_ok_def verifyCrdtReceipt_def buildCrdtReceipt_def)

lemma discarded_root: "\<not> fst (map_apply k r m) \<Longrightarrow> computeStateRoot sha (snd (map_apply k r m)) = computeStateRoot sha m"
  by (auto simp: map_apply_def Let_def computeStateRoot_def state_text_def split: option.splits if_splits)

text \<open>
  Every receipt that the network records verifies, and one for a discarded or refused write has the same state root before and after.
\<close>

theorem network_receipts_ok: "reachable_net sha hmac ids net \<Longrightarrow> r \<in> set (sn_receipts net) \<Longrightarrow> receipt_ok hmac r"
proof (induction arbitrary: r rule: reachable_net.induct)
  case start
  have "sn_receipts (start_network ids) = []"
    by (induction ids rule: rev_induct) (simp_all add: start_network_def empty_network_def registerNode_def)
  then show ?case using start by simp
next
  case (step net net')
  from step.hyps(2) show ?case
  proof cases
    case (propose aborted deliverAt n k v p fl)
    then show ?thesis using step.prems step.IH
      by (auto simp: proposeIntent_def Let_def case_prod_beta discarded_root intro!: built_receipt_ok split: option.splits if_splits)
  next
    case (arrive xs msg at ys)
    then show ?thesis using step.prems step.IH
      by (auto simp: deliver_def Let_def case_prod_beta discarded_root intro!: built_receipt_ok split: option.splits if_splits)
  qed
qed

text \<open>
  The state root does not determine the state: the fields are joined by a colon that keys and values may contain. There
  are two nodes that hold different registers and have the same root for every hash function.
\<close>

theorem state_root_is_ambiguous:
  "\<exists>a b. lookup a \<noteq> lookup b \<and> (\<forall>sha. computeStateRoot sha a = computeStateRoot sha b)"
proof -
  let ?reg = "\<lambda>v. \<lparr>rg_value = js v, rg_clock = 1, rg_nodeId = js ''n'', rg_provenance = AGENT_ASSERTED\<rparr>"
  let ?m = "\<lambda>k v. \<lparr>lm_state = [(js k, ?reg v)], lm_localClock = 1, lm_nodeId = js ''n''\<rparr>"
  have "lookup (?m ''a'' ''x:y'') (js ''a'') \<noteq> lookup (?m ''a:x'' ''y'') (js ''a'')" by (simp add: lookup_def)
  then have "lookup (?m ''a'' ''x:y'') \<noteq> lookup (?m ''a:x'' ''y'')" by metis
  moreover have "state_text (?m ''a'' ''x:y'') = state_text (?m ''a:x'' ''y'')"
    by (simp add: state_text_def register_text_def sort_by_def js_def)
  ultimately show ?thesis by (intro exI [of _ "?m ''a'' ''x:y''"] exI [of _ "?m ''a:x'' ''y''"]) (simp add: computeStateRoot_def)
qed

subsection \<open>A sample run\<close>

definition sample_write :: LWWRegister where
  "sample_write = \<lparr>rg_value = js ''v'', rg_clock = 1, rg_nodeId = js ''a'', rg_provenance = AGENT_ASSERTED\<rparr>"

definition proposed_net :: SimulatedNetwork where
  "proposed_net = proposeIntent (\<lambda>t. t) (\<lambda>_ t. t) False (\<lambda>_. 5) (js ''a'') (js ''k'') (js ''v'') AGENT_ASSERTED FloorNone
     (start_network [js ''a'', js ''b''])"

definition settled_net :: SimulatedNetwork where
  "settled_net = (case processQueueUntilQuiescence (\<lambda>t. t) (\<lambda>_ t. t) 0 100 [(1, 9)] proposed_net of Quiescent net \<Rightarrow> net | _ \<Rightarrow> proposed_net)"

lemma sample_start: "sn_nodes (start_network [js ''a'', js ''b'']) = [(js ''a'', new_map (js ''a'')), (js ''b'', new_map (js ''b''))]"
  "sn_inFlight (start_network [js ''a'', js ''b'']) = []"
  by (simp_all add: start_network_def empty_network_def registerNode_def new_map_def)

definition wrote :: "string \<Rightarrow> LWWMap" where
  "wrote n = \<lparr>lm_state = [(js ''k'', sample_write)], lm_localClock = 1, lm_nodeId = js n\<rparr>"

lemma sample_proposed:
  "sn_nodes proposed_net = [(js ''a'', wrote ''a''), (js ''b'', new_map (js ''b''))]"
  "sn_inFlight proposed_net = [(\<lparr>ms_fromNodeId = js ''a'', ms_toNodeId = js ''b'', ms_key = js ''k'', ms_register = sample_write\<rparr>, 5)]"
  by (simp_all add: proposed_net_def proposeIntent_def sample_start createWriteIntent_def map_apply_def new_map_def increment_def wrote_def
      sample_write_def Let_def)

lemma sample_settled:
  "sn_nodes settled_net = [(js ''a'', wrote ''a''), (js ''b'', wrote ''b'')]" "sn_inFlight settled_net = []"
  by (simp_all add: settled_net_def sample_proposed deliver_def map_apply_def new_map_def wrote_def sample_write_def Let_def)

lemma reachable_proposed: "reachable_net (\<lambda>t. t) (\<lambda>_ t. t) [js ''a'', js ''b''] proposed_net"
  unfolding proposed_net_def by (intro reachable_net.step [OF reachable_net.start] net_step.propose)

lemma reachable_settled: "reachable_net (\<lambda>t. t) (\<lambda>_ t. t) [js ''a'', js ''b''] settled_net"
proof (rule deliver_total [OF reachable_proposed, of "[]", unfolded append_Nil, OF sample_proposed(2)])
  fix net'
  assume d: "deliver (\<lambda>t. t) (\<lambda>_ t. t) \<lparr>ms_fromNodeId = js ''a'', ms_toNodeId = js ''b'', ms_key = js ''k'', ms_register = sample_write\<rparr>
      (proposed_net\<lparr>sn_inFlight := []\<rparr>) = Some net'"
    and r: "reachable_net (\<lambda>t. t) (\<lambda>_ t. t) [js ''a'', js ''b''] net'" and e: "sn_inFlight net' = []"
  have "settled_net = net'" using d e by (simp add: settled_net_def sample_proposed)
  then show ?thesis using r by simp
qed

theorem swarm_converges_witness:
  "lookup (wrote ''a'') = lookup (wrote ''b'') \<and> computeStateRoot (\<lambda>t. t) (wrote ''a'') = computeStateRoot (\<lambda>t. t) (wrote ''b'')"
  by (rule swarm_converges [OF reachable_settled _ sample_settled(2), of "js ''a''" _ "js ''b''"])
    (simp_all add: clocks_in_range_def sample_settled wrote_def)

theorem queue_reaches_quiescence_witness:
  "\<exists>net'. processQueueUntilQuiescence (\<lambda>t. t) (\<lambda>_ t. t) 0 100 [(1, 9)] proposed_net = Quiescent net'
    \<and> reachable_net (\<lambda>t. t) (\<lambda>_ t. t) [js ''a'', js ''b''] net' \<and> sn_inFlight net' = []"
  by (rule queue_reaches_quiescence [OF reachable_proposed]) (simp_all add: sample_proposed)

theorem network_receipts_ok_witness: "\<exists>r. r \<in> set (sn_receipts proposed_net) \<and> receipt_ok (\<lambda>_ t. t) r"
proof -
  have "sn_receipts proposed_net \<noteq> []" by (simp add: proposed_net_def proposeIntent_def sample_start Let_def case_prod_beta)
  then obtain r where "r \<in> set (sn_receipts proposed_net)" by (cases "sn_receipts proposed_net") auto
  then show ?thesis using network_receipts_ok [OF reachable_proposed] by blast
qed

theorem merge_is_semilattice_witness:
  "lookup (map_merge (lm_state (wrote ''b'')) (new_map (js ''c''))) = lookup (map_merge (lm_state (new_map (js ''c''))) (wrote ''b''))"
  using merge_is_semilattice [of "new_map (js ''c'')" "wrote ''b''" "new_map (js ''d'')"]
  by (simp add: new_map_def wrote_def lww.stamps_unique_def)

end
