(* ===== verification/Lineage.thy ===== *)
theory Lineage
  imports Canonical_JSON
begin

text \<open>
  The lineage model, \<open>events.ts\<close> and \<open>graph.ts\<close> of \<open>packages/lineage-model/src\<close>: lineage events with ids derived from
  their content, and the graph of their inputs and outputs with its walks and its cycle check.

  SHA-256, the date-time check of zod and the clock are arguments. The maps of the graph keep the
  insertion order of a JavaScript \<open>Map\<close>; the depth of the call stack is not bounded.
\<close>

subsection \<open>Events\<close>

record LineageEvent =
  ev_eventId :: jstr
  ev_tenantSlug :: jstr
  ev_eventType :: jstr
  ev_occurredAt :: jstr
  ev_inputs :: "jstr list"
  ev_outputs :: "jstr list"
  ev_actor :: jstr
  ev_runId :: "jstr option"
  ev_metadata :: "(jstr \<times> jsval) list"

record BuildLineageEventInput =
  bi_tenantSlug :: jstr
  bi_eventType :: jstr
  bi_inputs :: "jstr list option"
  bi_outputs :: "jstr list option"
  bi_actor :: jstr
  bi_runId :: "jstr option"
  bi_metadata :: "(jstr \<times> jsval) list option"
  bi_occurredAt :: "jstr option"

datatype lineage_error = InvalidLineageEvent | PayloadNotCanonical canonical_error | LineageCycle jstr

definition lineageEventTypes :: "jstr list" where
  "lineageEventTypes = map js [''ingested'', ''normalized'', ''curated'', ''cataloged'', ''queried'', ''signed'', ''indexed'',
     ''exported'', ''replayed'', ''revoked'']"

definition tenantSlugSchema :: "jstr \<Rightarrow> bool" where
  "tenantSlugSchema s =
     (case s of
        [] \<Rightarrow> False
      | c # cs \<Rightarrow> is_lower c \<and> 1 \<le> length cs \<and> length cs \<le> 47 \<and> list_all (\<lambda>d. is_lower d \<or> is_digit d \<or> d = 45) cs)"

definition lineageEventSchema :: "(jstr \<Rightarrow> bool) \<Rightarrow> LineageEvent \<Rightarrow> bool" where
  "lineageEventSchema datetime e \<longleftrightarrow>
     startsWith (ev_eventId e) (js ''lin_'') \<and> hex64 (drop 4 (ev_eventId e))
     \<and> tenantSlugSchema (ev_tenantSlug e) \<and> ev_eventType e \<in> set lineageEventTypes
     \<and> datetime (ev_occurredAt e) \<and> ev_actor e \<noteq> []"

definition validateLineageEvent :: "(jstr \<Rightarrow> bool) \<Rightarrow> LineageEvent \<Rightarrow> lineage_error + LineageEvent" where
  "validateLineageEvent datetime e = (if lineageEventSchema datetime e then Inr e else Inl InvalidLineageEvent)"

text \<open>The object without its id; a run id that is left out is a property with the value \<open>undefined\<close>.\<close>

definition lineage_payload :: "LineageEvent \<Rightarrow> jsval" where
  "lineage_payload e = JObj
     [(js ''tenantSlug'', JStr (ev_tenantSlug e)),
      (js ''eventType'', JStr (ev_eventType e)),
      (js ''occurredAt'', JStr (ev_occurredAt e)),
      (js ''inputs'', JArr (map (Some \<circ> JStr) (ev_inputs e))),
      (js ''outputs'', JArr (map (Some \<circ> JStr) (ev_outputs e))),
      (js ''actor'', JStr (ev_actor e)),
      (js ''runId'', case ev_runId e of None \<Rightarrow> JUndefined | Some r \<Rightarrow> JStr r),
      (js ''metadata'', JObj (ev_metadata e))]"

definition or_else :: "'a option \<Rightarrow> 'a \<Rightarrow> 'a" where
  "or_else x d = (case x of None \<Rightarrow> d | Some v \<Rightarrow> v)"

definition event_without_id :: "jstr \<Rightarrow> BuildLineageEventInput \<Rightarrow> LineageEvent" where
  "event_without_id now input =
     \<lparr>ev_eventId = [], ev_tenantSlug = bi_tenantSlug input, ev_eventType = bi_eventType input,
      ev_occurredAt = or_else (bi_occurredAt input) now,
      ev_inputs = sort_by (\<le>) (or_else (bi_inputs input) []), ev_outputs = sort_by (\<le>) (or_else (bi_outputs input) []),
      ev_actor = bi_actor input, ev_runId = bi_runId input, ev_metadata = or_else (bi_metadata input) []\<rparr>"

definition buildLineageEvent ::
  "(jstr \<Rightarrow> jstr) \<Rightarrow> (jstr \<Rightarrow> bool) \<Rightarrow> jstr \<Rightarrow> BuildLineageEventInput \<Rightarrow> lineage_error + LineageEvent" where
  "buildLineageEvent h datetime now input =
     (let withoutId = event_without_id now input in
      case lineageEventIdFromPayload h (lineage_payload withoutId) of
        Inl err \<Rightarrow> Inl (PayloadNotCanonical err)
      | Inr eventId \<Rightarrow> validateLineageEvent datetime (withoutId\<lparr>ev_eventId := eventId\<rparr>))"

subsection \<open>The graph\<close>

record LineageEdge =
  e_from :: jstr
  e_to :: jstr
  e_eventId :: jstr

type_synonym edge_map = "(jstr \<times> LineageEdge list) list"

record LineageGraph =
  lg_events :: "(jstr \<times> LineageEvent) list"
  lg_outgoing :: edge_map
  lg_incoming :: edge_map

definition emptyGraph :: LineageGraph where
  "emptyGraph = \<lparr>lg_events = [], lg_outgoing = [], lg_incoming = []\<rparr>"

definition edges_at :: "edge_map \<Rightarrow> jstr \<Rightarrow> LineageEdge list" where
  "edges_at m n = (case map_of m n of None \<Rightarrow> [] | Some es \<Rightarrow> es)"

definition add_at :: "jstr \<Rightarrow> LineageEdge \<Rightarrow> edge_map \<Rightarrow> edge_map" where
  "add_at n e m = AList.update n (edges_at m n @ [e]) m"

definition addEdge :: "LineageEdge \<Rightarrow> LineageGraph \<Rightarrow> LineageGraph" where
  "addEdge e g = g\<lparr>lg_outgoing := add_at (e_from e) e (lg_outgoing g), lg_incoming := add_at (e_to e) e (lg_incoming g)\<rparr>"

definition event_edges :: "LineageEvent \<Rightarrow> LineageEdge list" where
  "event_edges v =
     concat (map (\<lambda>i. map (\<lambda>x. \<lparr>e_from = i, e_to = x, e_eventId = ev_eventId v\<rparr>) (ev_outputs v)) (ev_inputs v))"

definition addEvent :: "(jstr \<Rightarrow> bool) \<Rightarrow> LineageEvent \<Rightarrow> LineageGraph \<Rightarrow> lineage_error + LineageGraph" where
  "addEvent datetime v g =
     (case validateLineageEvent datetime v of
        Inl err \<Rightarrow> Inl err
      | Inr v \<Rightarrow>
          if map_of (lg_events g) (ev_eventId v) \<noteq> None then Inr g
          else Inr (fold addEdge (event_edges v) (g\<lparr>lg_events := AList.update (ev_eventId v) v (lg_events g)\<rparr>)))"

definition eventOf :: "jstr \<Rightarrow> LineageGraph \<Rightarrow> LineageEvent option" where
  "eventOf eventId g = map_of (lg_events g) eventId"

definition graphEdges :: "LineageGraph \<Rightarrow> LineageEdge list" where
  "graphEdges g = concat (map snd (lg_outgoing g))"

subsection \<open>Walks\<close>

text \<open>The inner loop of \<open>walk\<close>; the top of the stack is the head of the list.\<close>

fun push_new :: "jstr list \<Rightarrow> jstr list \<Rightarrow> jstr list \<Rightarrow> jstr list \<times> jstr list" where
  "push_new [] seen stack = (seen, stack)"
| "push_new (n # ns) seen stack =
     (if n \<in> set seen then push_new ns seen stack else push_new ns (seen @ [n]) (n # stack))"

definition next_nodes :: "(LineageEdge \<Rightarrow> jstr) \<Rightarrow> edge_map \<Rightarrow> jstr \<Rightarrow> jstr list" where
  "next_nodes far m n = map far (edges_at m n)"

definition targets :: "(LineageEdge \<Rightarrow> jstr) \<Rightarrow> edge_map \<Rightarrow> jstr set" where
  "targets far m = far ` (\<Union>es\<in>snd ` set m. set es)"

lemma finite_targets [simp]: "finite (targets far m)"
  by (simp add: targets_def)

lemma next_in_targets: "set (next_nodes far m n) \<subseteq> targets far m"
  by (cases "map_of m n") (force simp: next_nodes_def edges_at_def targets_def dest: map_of_SomeD)+

lemma push_new_set: "set (fst (push_new ns seen stack)) = set seen \<union> set ns"
  by (induction ns seen stack rule: push_new.induct) auto

lemma push_new_grows: "push_new ns seen stack = (seen', stack') \<Longrightarrow> seen' = seen \<and> stack' = stack \<or> set seen \<subset> set seen'"
proof (induction ns seen stack rule: push_new.induct)
  case (2 n ns seen stack)
  show ?case
  proof (cases "n \<in> set seen")
    case False
    then have "set (seen @ [n]) \<subseteq> set seen'"
      using "2.prems" push_new_set [of ns "seen @ [n]" "n # stack"] by (metis Un_upper1 fst_conv push_new.simps(2))
    then show ?thesis using False by auto
  qed (use 2 in auto)
qed auto

text \<open>The outer loop. An empty name on the stack is skipped, as \<open>if (!current) continue\<close> does.\<close>

function walk_loop :: "(LineageEdge \<Rightarrow> jstr) \<Rightarrow> edge_map \<Rightarrow> jstr list \<Rightarrow> jstr list \<Rightarrow> jstr list" where
  "walk_loop far m seen [] = seen"
| "walk_loop far m seen (current # stack) =
     (if current = [] then walk_loop far m seen stack
      else (case push_new (next_nodes far m current) seen stack of
              (seen', stack') \<Rightarrow> walk_loop far m seen' stack'))"
  by pat_completeness auto
termination
proof (relation "inv_image (less_than <*lex*> less_than) (\<lambda>(far, m, seen, stack). (card (targets far m - set seen), length stack))", goal_cases)
  case (3 far m seen current stack seen' stack')
  have sub: "set seen' = set seen \<union> set (next_nodes far m current)"
    using push_new_set [of "next_nodes far m current" seen stack] 3 by (metis fst_conv)
  show ?case
  proof (cases "seen' = seen \<and> stack' = stack")
    case False
    then have "set seen \<subset> set seen'" using push_new_grows 3 by metis
    then have "targets far m - set seen' \<subset> targets far m - set seen" using sub next_in_targets [of far m current] by auto
    then show ?thesis by (simp add: psubset_card_mono)
  qed simp
qed auto

definition walk :: "(LineageEdge \<Rightarrow> jstr) \<Rightarrow> edge_map \<Rightarrow> jstr \<Rightarrow> jstr list" where
  "walk far m nodeId = sort_by (\<le>) (walk_loop far m [] [nodeId])"

definition ancestors :: "jstr \<Rightarrow> LineageGraph \<Rightarrow> jstr list" where
  "ancestors nodeId g = walk e_from (lg_incoming g) nodeId"

definition descendants :: "jstr \<Rightarrow> LineageGraph \<Rightarrow> jstr list" where
  "descendants nodeId g = walk e_to (lg_outgoing g) nodeId"

subsection \<open>The cycle check\<close>

text \<open>
  \<open>visit\<close> and its loop over the edges. On a normal return the set \<open>visiting\<close> is what it was at the call,
  since the node is deleted again; only \<open>visited\<close> is returned.
\<close>

function visit :: "edge_map \<Rightarrow> jstr set \<Rightarrow> jstr set \<Rightarrow> jstr \<Rightarrow> lineage_error + jstr set"
  and visit_all :: "edge_map \<Rightarrow> jstr set \<Rightarrow> jstr set \<Rightarrow> jstr list \<Rightarrow> lineage_error + jstr set" where
  "visit m visiting visited n =
     (if n \<in> visiting then Inl (LineageCycle n)
      else if n \<in> visited then Inr visited
      else
        (case visit_all m (insert n visiting) visited (next_nodes e_to m n) of
           Inl err \<Rightarrow> Inl err
         | Inr vd \<Rightarrow> Inr (insert n vd)))"
| "visit_all m visiting visited [] = Inr visited"
| "visit_all m visiting visited (n # ns) =
     (case visit m visiting visited n of Inl err \<Rightarrow> Inl err | Inr vd \<Rightarrow> visit_all m visiting vd ns)"
  by pat_completeness auto
termination
proof (relation "inv_image (less_than <*lex*> less_than) (\<lambda>x. case x of
      Inl (m, visiting, visited, n) \<Rightarrow> (card (fst ` set m - visiting), 1)
    | Inr (m, visiting, visited, ns) \<Rightarrow> (card (fst ` set m - visiting), 2 * length ns))", goal_cases)
  case (2 m visiting visited n)
  show ?case
  proof (cases "n \<in> fst ` set m")
    case True
    then have "fst ` set m - insert n visiting \<subset> fst ` set m - visiting" using 2 by auto
    then show ?thesis by (simp add: psubset_card_mono)
  next
    case False
    then have "map_of m n = None" by (simp add: map_of_eq_None_iff)
    moreover have "fst ` set m - insert n visiting = fst ` set m - visiting" using False by auto
    ultimately show ?thesis by (simp add: next_nodes_def edges_at_def)
  qed
qed auto

declare visit.simps [simp del]

definition assertAcyclic :: "LineageGraph \<Rightarrow> lineage_error + unit" where
  "assertAcyclic g =
     (case visit_all (lg_outgoing g) {} {} (map e_from (graphEdges g)) of Inl err \<Rightarrow> Inl err | Inr _ \<Rightarrow> Inr ())"

subsection \<open>Walks compute reachability\<close>

definition relation_of :: "(LineageEdge \<Rightarrow> jstr) \<Rightarrow> edge_map \<Rightarrow> (jstr \<times> jstr) set" where
  "relation_of far m = {(a, b). b \<in> set (next_nodes far m a)}"

text \<open>The part of the relation that a walk follows: it does not leave a node with the empty name.\<close>

definition named :: "(jstr \<times> jstr) set \<Rightarrow> (jstr \<times> jstr) set" where
  "named R = {(a, b). (a, b) \<in> R \<and> a \<noteq> []}"

lemma push_new_stack: "set (snd (push_new ns seen stack)) = set stack \<union> (set ns - set seen)"
  by (induction ns seen stack rule: push_new.induct) auto

definition walk_ok :: "(jstr \<times> jstr) set \<Rightarrow> jstr \<Rightarrow> jstr list \<Rightarrow> jstr list \<Rightarrow> bool" where
  "walk_ok R n seen stack \<longleftrightarrow>
     set seen \<subseteq> R\<^sup>+ `` {n} \<and> set stack \<subseteq> insert n (set seen) \<and> distinct seen
     \<and> (\<forall>x\<in>insert n (set seen). x \<in> set stack \<or> R `` {x} \<subseteq> set seen)"

lemma push_new_distinct: "distinct seen \<Longrightarrow> distinct (fst (push_new ns seen stack))"
  by (induction ns seen stack rule: push_new.induct) auto

lemma walk_ok_step:
  assumes "walk_ok (named (relation_of far m)) n seen (current # stack)" and "current \<noteq> []"
    and "push_new (next_nodes far m current) seen stack = (seen', stack')"
  shows "walk_ok (named (relation_of far m)) n seen' stack'"
proof -
  let ?R = "named (relation_of far m)" and ?new = "set (next_nodes far m current)"
  have sets: "set seen' = set seen \<union> ?new" "set stack' = set stack \<union> (?new - set seen)" "distinct seen'"
    using push_new_set [of "next_nodes far m current" seen stack] push_new_stack [of "next_nodes far m current" seen stack]
      push_new_distinct [of seen "next_nodes far m current" stack] assms(1,3)
    by (simp_all add: walk_ok_def)
  have succ: "?R `` {current} = ?new" using assms(2) by (auto simp: named_def relation_of_def)
  have cur: "current = n \<or> (n, current) \<in> ?R\<^sup>+" using assms(1) by (auto simp: walk_ok_def)
  then have "?new \<subseteq> ?R\<^sup>+ `` {n}"
    using succ by (auto intro: trancl_into_trancl)
  then show ?thesis using assms(1) sets succ by (auto simp: walk_ok_def)
qed

lemma walk_ok_skip:
  assumes "walk_ok (named R) n seen ([] # stack)" shows "walk_ok (named R) n seen stack"
  using assms by (auto simp: walk_ok_def named_def)

lemma walk_ok_end: "walk_ok R n seen [] \<Longrightarrow> set seen = R\<^sup>+ `` {n} \<and> distinct seen"
proof -
  assume ok: "walk_ok R n seen []"
  have "y \<in> set seen" if "(n, y) \<in> R\<^sup>+" for y
    using that ok by (induction rule: trancl_induct) (auto simp: walk_ok_def)
  then show ?thesis using ok by (auto simp: walk_ok_def)
qed

lemma walk_loop_reaches:
  assumes "walk_ok (named (relation_of far m)) n seen stack"
  shows "set (walk_loop far m seen stack) = (named (relation_of far m))\<^sup>+ `` {n} \<and> distinct (walk_loop far m seen stack)"
  using assms
proof (induction far m seen stack rule: walk_loop.induct)
  case (1 far m seen)
  then show ?case using walk_ok_end by simp
next
  case (2 far m seen current stack)
  obtain seen' stack' where push: "push_new (next_nodes far m current) seen stack = (seen', stack')" by force
  show ?case
    using 2 push walk_ok_step [OF 2(3) _ push] walk_ok_skip [of "relation_of far m" n seen stack]
    by (cases "current = []") auto
qed

lemma walk_reaches: "set (walk far m n) = (named (relation_of far m))\<^sup>+ `` {n}" "distinct (walk far m n)" "sorted (walk far m n)"
proof -
  have "walk_ok (named (relation_of far m)) n [] [n]" by (simp add: walk_ok_def)
  then show "set (walk far m n) = (named (relation_of far m))\<^sup>+ `` {n}" "distinct (walk far m n)"
    unfolding walk_def set_sort_by distinct_sort_by using walk_loop_reaches by blast+
  show "sorted (walk far m n)" by (simp add: walk_def sorted_sort_by)
qed

subsection \<open>The relation of the events\<close>

definition event_relation :: "LineageEvent \<Rightarrow> (jstr \<times> jstr) set" where
  "event_relation v = set (ev_inputs v) \<times> set (ev_outputs v)"

definition graph_relation :: "LineageGraph \<Rightarrow> (jstr \<times> jstr) set" where
  "graph_relation g = (\<Union>v\<in>ran (map_of (lg_events g)). event_relation v)"

definition sources_ok :: "edge_map \<Rightarrow> bool" where
  "sources_ok m \<longleftrightarrow> (\<forall>k es e. (k, es) \<in> set m \<longrightarrow> e \<in> set es \<longrightarrow> e_from e = k)"

definition graph_ok :: "LineageGraph \<Rightarrow> bool" where
  "graph_ok g \<longleftrightarrow> relation_of e_to (lg_outgoing g) = graph_relation g \<and> relation_of e_from (lg_incoming g) = (graph_relation g)\<inverse>
     \<and> sources_ok (lg_outgoing g)"

inductive lineage_graph :: "(jstr \<Rightarrow> bool) \<Rightarrow> LineageGraph \<Rightarrow> bool" for datetime where
  start: "lineage_graph datetime emptyGraph"
| add: "lineage_graph datetime g \<Longrightarrow> addEvent datetime v g = Inr g' \<Longrightarrow> lineage_graph datetime g'"

lemma edges_at_add_at: "edges_at (add_at n e m) k = (if k = n then edges_at m n @ [e] else edges_at m k)"
  by (simp add: edges_at_def add_at_def update_conv)

lemma relation_add_at: "relation_of far (add_at n e m) = insert (n, far e) (relation_of far m)"
  by (auto simp: relation_of_def next_nodes_def edges_at_add_at split: if_splits)

lemma relation_add_edges:
  "relation_of e_to (lg_outgoing (fold addEdge es g)) = relation_of e_to (lg_outgoing g) \<union> (\<lambda>e. (e_from e, e_to e)) ` set es"
  "relation_of e_from (lg_incoming (fold addEdge es g)) = relation_of e_from (lg_incoming g) \<union> (\<lambda>e. (e_to e, e_from e)) ` set es"
  "lg_events (fold addEdge es g) = lg_events g"
  by (induction es arbitrary: g) (auto simp: addEdge_def relation_add_at)

lemma sources_add_at:
  assumes "sources_ok m" shows "sources_ok (add_at (e_from e) e m)"
proof -
  have at: "e_from d = e_from e" if "d \<in> set (edges_at m (e_from e))" for d
    using assms that by (cases "map_of m (e_from e)") (auto simp: edges_at_def sources_ok_def dest: map_of_SomeD)
  have sub: "(k, es) \<in> set (add_at (e_from e) e m) \<Longrightarrow> (k, es) = (e_from e, edges_at m (e_from e) @ [e]) \<or> (k, es) \<in> set m" for k es
    using set_update_subset [of "e_from e" "edges_at m (e_from e) @ [e]" m] by (auto simp: add_at_def)
  show ?thesis
    unfolding sources_ok_def
  proof (intro allI impI)
    fix k es d
    assume "(k, es) \<in> set (add_at (e_from e) e m)" "d \<in> set es"
    then show "e_from d = k" using sub [of k es] at assms by (auto simp: sources_ok_def)
  qed
qed

lemma sources_add_edges: "sources_ok (lg_outgoing g) \<Longrightarrow> sources_ok (lg_outgoing (fold addEdge ds g))"
proof (induction ds arbitrary: g)
  case (Cons d ds)
  have "sources_ok (lg_outgoing (addEdge d g))" using sources_add_at [OF Cons.prems] by (simp add: addEdge_def)
  from Cons.IH [OF this] show ?case by simp
qed simp

lemma event_edges_relation: "(\<lambda>e. (e_from e, e_to e)) ` set (event_edges v) = event_relation v"
  "(\<lambda>e. (e_to e, e_from e)) ` set (event_edges v) = (event_relation v)\<inverse>"
  by (force simp: event_edges_def event_relation_def)+

lemma lineage_graph_ok: "lineage_graph datetime g \<Longrightarrow> graph_ok g"
proof (induction rule: lineage_graph.induct)
  case start
  show ?case by (simp add: graph_ok_def sources_ok_def emptyGraph_def graph_relation_def relation_of_def next_nodes_def edges_at_def)
next
  case (add g v g')
  show ?case
  proof (cases "map_of (lg_events g) (ev_eventId v)")
    case None
    let ?g = "g\<lparr>lg_events := AList.update (ev_eventId v) v (lg_events g)\<rparr>"
    have g': "g' = fold addEdge (event_edges v) ?g"
      using add.hyps(2) None by (auto simp: addEvent_def validateLineageEvent_def split: if_splits)
    have "graph_relation g' = graph_relation g \<union> event_relation v"
      using None by (simp add: graph_relation_def g' relation_add_edges update_conv' ran_map_upd Un_commute)
    then show ?thesis
      using add.IH sources_add_edges [of ?g "event_edges v"]
      by (auto simp: graph_ok_def g' relation_add_edges event_edges_relation)
  next
    case (Some w)
    then have "g' = g" using add.hyps(2) by (auto simp: addEvent_def validateLineageEvent_def split: if_splits)
    then show ?thesis using add.IH by simp
  qed
qed


text \<open>A node with the empty name ends every walk that arrives there.\<close>

lemma empty_name_stops_walk: "walk far m [] = []"
proof -
  have "set (walk far m []) = {}" unfolding walk_reaches(1) by (auto simp: named_def dest: tranclD)
  then show ?thesis by simp
qed

subsection \<open>The cycle check decides acyclicity\<close>

definition settled :: "(jstr \<times> jstr) set \<Rightarrow> jstr set \<Rightarrow> bool" where
  "settled R vd \<longleftrightarrow> R `` vd \<subseteq> vd \<and> (\<forall>x\<in>vd. (x, x) \<notin> R\<^sup>+)"

lemma settled_insert:
  assumes "settled R vd" and "R `` {n} \<subseteq> vd"
  shows "settled R (insert n vd)"
proof -
  have stay: "y \<in> vd" if "(x, y) \<in> R\<^sup>*" "x \<in> vd" for x y
    using that assms(1) by (induction rule: rtrancl_induct) (auto simp: settled_def)
  have "(n, n) \<notin> R\<^sup>+"
  proof
    assume cycle: "(n, n) \<in> R\<^sup>+"
    then obtain s where "(n, s) \<in> R" "(s, n) \<in> R\<^sup>*" by (meson tranclD)
    then have "n \<in> vd" using stay assms(2) by blast
    then show False using cycle assms(1) by (auto simp: settled_def)
  qed
  then show ?thesis using assms by (auto simp: settled_def)
qed

lemma visit_settles:
  "settled (relation_of e_to m) visited \<Longrightarrow> visit m visiting visited n = Inr vd \<Longrightarrow>
     settled (relation_of e_to m) vd \<and> visited \<subseteq> vd \<and> n \<in> vd"
  "settled (relation_of e_to m) visited \<Longrightarrow> visit_all m visiting visited ns = Inr vd \<Longrightarrow>
     settled (relation_of e_to m) vd \<and> visited \<subseteq> vd \<and> set ns \<subseteq> vd"
proof (induction m visiting visited n and m visiting visited ns arbitrary: vd and vd rule: visit_visit_all.induct)
  case (1 m visiting visited n)
  show ?case
  proof (cases "n \<in> visited")
    case True
    then show ?thesis using 1 by (auto simp: visit.simps split: if_splits)
  next
    case False
    obtain vd' where all: "visit_all m (insert n visiting) visited (next_nodes e_to m n) = Inr vd'" and vd: "vd = insert n vd'"
      and fresh: "n \<notin> visiting"
      using "1.prems"(2) False by (auto simp: visit.simps split: if_splits sum.splits)
    have "settled (relation_of e_to m) vd' \<and> visited \<subseteq> vd' \<and> set (next_nodes e_to m n) \<subseteq> vd'"
      using "1.IH" [OF fresh False "1.prems"(1) all] .
    then show ?thesis using settled_insert [of "relation_of e_to m" vd' n] by (auto simp: vd relation_of_def)
  qed
next
  case (3 m visiting visited n ns)
  then show ?case by (fastforce split: sum.splits)
qed auto

lemma visit_cycle:
  "(\<And>v. v \<in> visiting \<Longrightarrow> (v, n) \<in> (relation_of e_to m)\<^sup>+) \<Longrightarrow> visit m visiting visited n = Inl err \<Longrightarrow>
     \<exists>x. err = LineageCycle x \<and> (x, x) \<in> (relation_of e_to m)\<^sup>+"
  "(\<And>v k. v \<in> visiting \<Longrightarrow> k \<in> set ns \<Longrightarrow> (v, k) \<in> (relation_of e_to m)\<^sup>+) \<Longrightarrow> visit_all m visiting visited ns = Inl err \<Longrightarrow>
     \<exists>x. err = LineageCycle x \<and> (x, x) \<in> (relation_of e_to m)\<^sup>+"
proof (induction m visiting visited n and m visiting visited ns arbitrary: err and err rule: visit_visit_all.induct)
  case (1 m visiting visited n)
  show ?case
  proof (cases "n \<in> visiting")
    case True
    then show ?thesis using 1 by (auto simp: visit.simps)
  next
    case False
    then have all: "visit_all m (insert n visiting) visited (next_nodes e_to m n) = Inl err" "n \<notin> visited"
      using "1.prems"(2) by (auto simp: visit.simps split: if_splits sum.splits)
    have "(v, k) \<in> (relation_of e_to m)\<^sup>+" if "v \<in> insert n visiting" "k \<in> set (next_nodes e_to m n)" for v k
    proof -
      have "(n, k) \<in> relation_of e_to m" using that(2) by (simp add: relation_of_def)
      then show ?thesis using that(1) "1.prems"(1) by (auto intro: trancl_into_trancl)
    qed
    then show ?thesis using "1.IH" [OF False all(2) _ all(1)] by blast
  qed
next
  case (3 m visiting visited n ns)
  show ?case
  proof (cases "visit m visiting visited n")
    case (Inl e)
    then show ?thesis using 3 by simp
  next
    case (Inr vd)
    then show ?thesis using "3.IH"(2) [OF Inr] "3.prems" by simp
  qed
qed auto

text \<open>
  Claim C29. \<open>assertAcyclic\<close> returns normally exactly if the relation of the recorded events has no cycle, for every
  graph built from lineage events; otherwise it raises and names a node that lies on a cycle.
\<close>

theorem cycle_check_decides:
  assumes "lineage_graph datetime g"
  shows "if acyclic (graph_relation g) then assertAcyclic g = Inr ()
    else \<exists>x. assertAcyclic g = Inl (LineageCycle x) \<and> (x, x) \<in> (graph_relation g)\<^sup>+"
proof -
  have ok: "relation_of e_to (lg_outgoing g) = graph_relation g"
    "\<And>k es e. (k, es) \<in> set (lg_outgoing g) \<Longrightarrow> e \<in> set es \<Longrightarrow> e_from e = k"
    using lineage_graph_ok [OF assms] by (auto simp: graph_ok_def sources_ok_def)
  let ?m = "lg_outgoing g" and ?ns = "map e_from (graphEdges g)"
  show ?thesis
  proof (cases "visit_all ?m {} {} ?ns")
    case (Inl err)
    then obtain x where "err = LineageCycle x" "(x, x) \<in> (graph_relation g)\<^sup>+"
      using visit_cycle(2) [of "{}" ?ns ?m "{}" err] ok(1) by auto
    then show ?thesis using Inl by (auto simp: assertAcyclic_def acyclic_def)
  next
    case (Inr vd)
    have vd: "settled (graph_relation g) vd" "set ?ns \<subseteq> vd"
      using visit_settles(2) [OF _ Inr] by (auto simp: settled_def ok(1))
    have sources: "x \<in> set ?ns" if "(x, y) \<in> graph_relation g" for x y
    proof -
      have "y \<in> set (next_nodes e_to ?m x)" using that by (simp add: relation_of_def flip: ok(1))
      then obtain es e where "map_of ?m x = Some es" "e \<in> set es"
        by (cases "map_of ?m x") (auto simp: next_nodes_def edges_at_def)
      then have "(x, es) \<in> set ?m" "e \<in> set es" by (auto dest: map_of_SomeD)
      then show ?thesis using ok(2) by (force simp: graphEdges_def)
    qed
    have "acyclic (graph_relation g)"
      unfolding acyclic_def
    proof (intro allI notI)
      fix x
      assume cycle: "(x, x) \<in> (graph_relation g)\<^sup>+"
      then obtain y where "(x, y) \<in> graph_relation g" by (meson tranclD)
      then have "x \<in> vd" using sources vd(2) by blast
      then show False using vd(1) cycle by (auto simp: settled_def)
    qed
    then show ?thesis using Inr by (simp add: assertAcyclic_def)
  qed
qed

subsection \<open>Building events\<close>

lemma undefined_run: "ev_runId e = None \<Longrightarrow> canonicalize (lineage_payload e) = Inl UndefinedValue"
proof -
  assume "ev_runId e = None"
  then obtain es where "lineage_payload e = JObj es" "JUndefined \<in> snd ` set es"
    unfolding lineage_payload_def by (simp add: image_iff)
  then show ?thesis by simp
qed

text \<open>
  \<open>buildLineageEvent\<close> never returns an event for an input without a run id: the optional field is handed
  to the canonical serializer as a property whose value is \<open>undefined\<close>, which the serializer rejects.
\<close>

theorem event_without_run_raises:
  assumes "bi_runId input = None"
  shows "buildLineageEvent h datetime now input = Inl (PayloadNotCanonical UndefinedValue)"
proof -
  have "ev_runId (event_without_id now input) = None" using assms by (simp add: event_without_id_def)
  then show ?thesis
    using undefined_run
    by (simp add: buildLineageEvent_def lineageEventIdFromPayload_def prefixed_id_def canonicalSha256Hex_def Let_def)
qed

subsection \<open>Witnesses\<close>

definition sample_event :: "string \<Rightarrow> string list \<Rightarrow> string list \<Rightarrow> LineageEvent" where
  "sample_event i ins outs = \<lparr>ev_eventId = js ''lin_'' @ sample_digest (js i), ev_tenantSlug = js ''tenant-a'', ev_eventType = js ''curated'',
     ev_occurredAt = js ''t'', ev_inputs = map js ins, ev_outputs = map js outs, ev_actor = js ''me'', ev_runId = None, ev_metadata = []\<rparr>"

lemma sample_event_valid: "lineageEventSchema (\<lambda>_. True) (sample_event i ins outs)"
proof -
  have "tenantSlugSchema (js ''tenant-a'')" "js ''curated'' \<in> set lineageEventTypes" by code_simp+
  moreover have "hex64 (sample_digest (js i))" using hex_digests_sample by (simp add: hex_digests_def)
  moreover have "drop 4 (js ''lin_'' @ x) = x" for x by (simp add: js_def)
  ultimately show ?thesis by (simp add: lineageEventSchema_def sample_event_def)
qed

definition two_events :: LineageGraph where
  "two_events = fold addEdge (event_edges (sample_event ''2'' [''b''] [''c'']))
     ((fold addEdge (event_edges (sample_event ''1'' [''a''] [''b''])) (emptyGraph\<lparr>lg_events := [(ev_eventId (sample_event ''1'' [''a''] [''b'']), sample_event ''1'' [''a''] [''b''])]\<rparr>))
      \<lparr>lg_events := [(ev_eventId (sample_event ''1'' [''a''] [''b'']), sample_event ''1'' [''a''] [''b'']),
          (ev_eventId (sample_event ''2'' [''b''] [''c'']), sample_event ''2'' [''b''] [''c''])]\<rparr>)"

lemma ids_differ: "ev_eventId (sample_event ''1'' ins outs) \<noteq> ev_eventId (sample_event ''2'' ins' outs')"
proof -
  have "sample_digest (js ''1'') \<noteq> sample_digest (js ''2'')" by code_simp
  then show ?thesis by (simp add: sample_event_def)
qed

lemma two_events_graph: "lineage_graph (\<lambda>_. True) two_events"
proof -
  let ?v = "sample_event ''1'' [''a''] [''b'']" and ?w = "sample_event ''2'' [''b''] [''c'']"
  let ?g = "fold addEdge (event_edges ?v) (emptyGraph\<lparr>lg_events := [(ev_eventId ?v, ?v)]\<rparr>)"
  have "addEvent (\<lambda>_. True) ?v emptyGraph = Inr ?g"
    by (simp add: addEvent_def validateLineageEvent_def sample_event_valid emptyGraph_def)
  then have "lineage_graph (\<lambda>_. True) ?g" by (rule lineage_graph.add [OF lineage_graph.start])
  moreover have "lg_events ?g = [(ev_eventId ?v, ?v)]" by (simp add: relation_add_edges)
  then have "addEvent (\<lambda>_. True) ?w ?g = Inr two_events"
    using ids_differ [of "[''a'']" "[''b'']" "[''b'']" "[''c'']"] by (simp add: addEvent_def validateLineageEvent_def sample_event_valid two_events_def)
  ultimately show ?thesis by (rule lineage_graph.add)
qed

lemma two_events_relation: "graph_relation two_events = {(js ''a'', js ''b''), (js ''b'', js ''c'')}"
proof -
  let ?v = "sample_event ''1'' [''a''] [''b'']" and ?w = "sample_event ''2'' [''b''] [''c'']"
  have "lg_events two_events = [(ev_eventId ?v, ?v), (ev_eventId ?w, ?w)]"
    unfolding two_events_def relation_add_edges(3) by simp
  then have "ran (map_of (lg_events two_events)) = {?v, ?w}"
    using ids_differ [of "[''a'']" "[''b'']" "[''b'']" "[''c'']"] by (auto simp: ran_def)
  then show ?thesis by (auto simp: graph_relation_def event_relation_def sample_event_def)
qed


theorem cycle_check_decides_witness: "assertAcyclic two_events = Inr ()"
proof -
  have "js ''a'' < js ''b''" "js ''b'' < js ''c''" by code_simp+
  then have "acyclic ((graph_relation two_events)\<inverse>)" by (intro acyclicI_order [of _ id]) (auto simp: two_events_relation)
  then have "acyclic (graph_relation two_events)" by simp
  then show ?thesis using cycle_check_decides [OF two_events_graph] by simp
qed

theorem event_without_run_raises_witness:
  "buildLineageEvent sample_digest (\<lambda>_. True) (js ''now'')
     \<lparr>bi_tenantSlug = js ''tenant-a'', bi_eventType = js ''ingested'', bi_inputs = Some [js ''s3''], bi_outputs = Some [js ''evd''],
      bi_actor = js ''lambda:s3DropHandler'', bi_runId = None, bi_metadata = Some [], bi_occurredAt = None\<rparr> =
     Inl (PayloadNotCanonical UndefinedValue)"
  by (rule event_without_run_raises) simp

end
