(* ===== verification/Occ_Replica.thy ===== *)
theory Occ_Replica
  imports Canonical_JSON
begin

text \<open>
  Speculative replicas and their commit gate, \<open>occ/ghostReplica.ts\<close> of \<open>packages/research-frontier/src\<close>: a replica
  records the versions it reads and buffers what it writes, and the gate commits it only if those
  versions are still current.

  Values are JSON values. The plain objects of the code are lists of entries in the order of their
  insertion; keys are neither array indices nor names that every object inherits. The world is shared
  by the gate and its replicas, so reads take the current one. SHA-256 and the linear-programming
  oracle, a floating-point simplex solver, are arguments; of the oracle only the status is used.
\<close>

datatype LpStatus = OPTIMAL | INFEASIBLE | UNBOUNDED | EVALUATION_UNDECIDABLE

definition hashState :: "(jstr \<Rightarrow> jstr) \<Rightarrow> jsval \<Rightarrow> jstr" where
  "hashState h v = (if v = JUndefined then js ''undefined'' else h (print_val (norm_val v)))"

record WorldRecord =
  wr_value :: jsval
  wr_version :: nat
  wr_stateHash :: jstr

type_synonym WorldState = "(jstr \<times> WorldRecord) list"

record GhostReplica =
  gr_readSet :: "(jstr \<times> nat) list"
  gr_writeSet :: "(jstr \<times> jsval) list"

datatype commit_witness =
    ChaitinGenerator jstr "jsval option" nat
  | KripkeModel "jnum list"

datatype commit_receipt =
    Conflicts "jstr list"
  | Undecidable commit_witness
  | Refuted commit_witness
  | Committed nat

definition newReplica :: GhostReplica where
  "newReplica = \<lparr>gr_readSet = [], gr_writeSet = []\<rparr>"

definition replica_read :: "WorldState \<Rightarrow> jstr \<Rightarrow> GhostReplica \<Rightarrow> jsval \<times> GhostReplica" where
  "replica_read world key r =
     (case map_of (gr_writeSet r) key of
        Some v \<Rightarrow> (v, r)
      | None \<Rightarrow>
          (case map_of world key of
             Some rec \<Rightarrow> (wr_value rec, r\<lparr>gr_readSet := AList.update key (wr_version rec) (gr_readSet r)\<rparr>)
           | None \<Rightarrow> (JUndefined, r\<lparr>gr_readSet := AList.update key 0 (gr_readSet r)\<rparr>)))"

definition replica_write :: "jstr \<Rightarrow> jsval \<Rightarrow> GhostReplica \<Rightarrow> GhostReplica" where
  "replica_write key v r = r\<lparr>gr_writeSet := AList.update key v (gr_writeSet r)\<rparr>"

definition wipe :: "GhostReplica \<Rightarrow> GhostReplica" where
  "wipe r = \<lparr>gr_readSet = [], gr_writeSet = []\<rparr>"

text \<open>The body shared by \<open>simulateExternalMutation\<close> and the commit phase.\<close>

definition put_value :: "(jstr \<Rightarrow> jstr) \<Rightarrow> jstr \<Rightarrow> jsval \<Rightarrow> WorldState \<Rightarrow> WorldState" where
  "put_value h key v world =
     (case map_of world key of
        None \<Rightarrow> AList.update key \<lparr>wr_value = v, wr_version = 1, wr_stateHash = hashState h v\<rparr> world
      | Some rec \<Rightarrow> AList.update key (rec\<lparr>wr_value := v, wr_version := wr_version rec + 1, wr_stateHash := hashState h v\<rparr>) world)"

definition simulateExternalMutation :: "(jstr \<Rightarrow> jstr) \<Rightarrow> jstr \<Rightarrow> jsval \<Rightarrow> WorldState \<Rightarrow> WorldState" where
  "simulateExternalMutation h key v world = put_value h key v world"

definition current_version :: "WorldState \<Rightarrow> jstr \<Rightarrow> nat" where
  "current_version world key = (case map_of world key of None \<Rightarrow> 0 | Some rec \<Rightarrow> wr_version rec)"

definition read_conflicts :: "WorldState \<Rightarrow> GhostReplica \<Rightarrow> jstr list" where
  "read_conflicts world r = map fst (filter (\<lambda>(key, version). current_version world key \<noteq> version) (gr_readSet r))"

definition gate_commit ::
  "(jstr \<Rightarrow> jstr) \<Rightarrow> (jnum list \<Rightarrow> nat \<Rightarrow> LpStatus) \<Rightarrow> jnum list \<Rightarrow> jsval option \<Rightarrow> nat \<Rightarrow>
     GhostReplica \<Rightarrow> WorldState \<Rightarrow> commit_receipt \<times> GhostReplica \<times> WorldState" where
  "gate_commit h lp failureMarginals payloadContext maxIterations r world =
     (let conflicts = read_conflicts world r;
          committed = (Committed (length (gr_writeSet r)), r, fold (\<lambda>(key, v). put_value h key v) (gr_writeSet r) world) in
      if conflicts \<noteq> [] then (Conflicts conflicts, wipe r, world)
      else if failureMarginals \<noteq> [] then
        (case lp failureMarginals maxIterations of
           EVALUATION_UNDECIDABLE \<Rightarrow>
             (Undecidable (ChaitinGenerator (hashState h (case payloadContext of None \<Rightarrow> JNull | Some v \<Rightarrow> v)) payloadContext maxIterations),
              wipe r, world)
         | INFEASIBLE \<Rightarrow> (Refuted (KripkeModel failureMarginals), wipe r, world)
         | _ \<Rightarrow> committed)
      else committed)"

subsection \<open>The world under a commit\<close>

definition current_value :: "WorldState \<Rightarrow> jstr \<Rightarrow> jsval" where
  "current_value world key = (case map_of world key of None \<Rightarrow> JUndefined | Some rec \<Rightarrow> wr_value rec)"

lemma put_value_version: "current_version (put_value h k v w) k' = (if k' = k then current_version w k + 1 else current_version w k')"
  by (auto simp: current_version_def put_value_def update_conv split: option.splits)

lemma put_value_value: "current_value (put_value h k v w) k' = (if k' = k then v else current_value w k')"
  by (auto simp: current_value_def put_value_def update_conv split: option.splits)

lemma fold_put_version:
  "current_version w k \<le> current_version (fold (\<lambda>(key, v). put_value h key v) ws w) k"
  "k \<in> fst ` set ws \<Longrightarrow> current_version w k < current_version (fold (\<lambda>(key, v). put_value h key v) ws w) k"
proof (induction ws arbitrary: w)
  case (Cons x ws)
  obtain k' v where x: "x = (k', v)" by force
  { case 1
    show ?case using Cons.IH(1) [of "put_value h k' v w"] by (auto simp: x put_value_version split: if_splits)
  next
    case 2
    then show ?case
      using Cons.IH [of "put_value h k' v w"] by (cases "k = k'") (force simp: x put_value_version)+
  }
qed auto

lemma fold_put_value:
  "distinct (map fst ws) \<Longrightarrow> current_value (fold (\<lambda>(key, v). put_value h key v) ws w) k =
     (case map_of ws k of None \<Rightarrow> current_value w k | Some v \<Rightarrow> v)"
proof (induction ws arbitrary: w)
  case (Cons x ws)
  then show ?case
    by (cases x) (auto simp: put_value_value map_of_eq_None_iff image_iff split: option.splits dest: map_of_SomeD)
qed simp

lemma commit_cases:
  assumes "gate_commit h lp marg ctx n r w = (rc, r', w')"
  obtains (committed) "rc = Committed (length (gr_writeSet r))" "r' = r"
      "w' = fold (\<lambda>(key, v). put_value h key v) (gr_writeSet r) w" "read_conflicts w r = []"
  | (refused) "\<And>k. rc \<noteq> Committed k" "r' = wipe r" "w' = w"
proof (cases "read_conflicts w r = [] \<and> (marg = [] \<or> lp marg n \<in> {OPTIMAL, UNBOUNDED})")
  case True
  then have "(rc, r', w') = (Committed (length (gr_writeSet r)), r, fold (\<lambda>(key, v). put_value h key v) (gr_writeSet r) w)"
    using assms by (cases "lp marg n") (auto simp: gate_commit_def Let_def split: if_splits)
  then show ?thesis using committed True by simp
next
  case False
  then have "(\<forall>k. rc \<noteq> Committed k) \<and> r' = wipe r \<and> w' = w"
    using assms by (cases "lp marg n") (auto simp: gate_commit_def Let_def split: if_splits)
  then show ?thesis using refused by simp
qed

subsection \<open>Interleavings\<close>

text \<open>
  Any number of replicas run against one world. What a replica has read from the world is kept
  beside it, newest first; a wiped replica has read nothing.
\<close>

record occ_system =
  sy_world :: WorldState
  sy_replica :: "nat \<Rightarrow> GhostReplica"
  sy_seen :: "nat \<Rightarrow> (jstr \<times> jsval) list"

inductive occ_step :: "(jstr \<Rightarrow> jstr) \<Rightarrow> (jnum list \<Rightarrow> nat \<Rightarrow> LpStatus) \<Rightarrow> occ_system \<Rightarrow> occ_system \<Rightarrow> bool"
  for h :: "jstr \<Rightarrow> jstr" and lp :: "jnum list \<Rightarrow> nat \<Rightarrow> LpStatus" where
  begin_replica: "occ_step h lp s (s\<lparr>sy_replica := (sy_replica s)(i := newReplica), sy_seen := (sy_seen s)(i := [])\<rparr>)"
| read_world: "map_of (gr_writeSet (sy_replica s i)) k = None \<Longrightarrow> replica_read (sy_world s) k (sy_replica s i) = (v, r') \<Longrightarrow>
    occ_step h lp s (s\<lparr>sy_replica := (sy_replica s)(i := r'), sy_seen := (sy_seen s)(i := (k, v) # sy_seen s i)\<rparr>)"
| read_own: "map_of (gr_writeSet (sy_replica s i)) k = Some v \<Longrightarrow> replica_read (sy_world s) k (sy_replica s i) = (v, r') \<Longrightarrow>
    occ_step h lp s (s\<lparr>sy_replica := (sy_replica s)(i := r')\<rparr>)"
| buffer_write: "occ_step h lp s (s\<lparr>sy_replica := (sy_replica s)(i := replica_write k v (sy_replica s i))\<rparr>)"
| mutate: "occ_step h lp s (s\<lparr>sy_world := simulateExternalMutation h k v (sy_world s)\<rparr>)"
| commit_world: "gate_commit h lp marg ctx n (sy_replica s i) (sy_world s) = (Committed m, r', w') \<Longrightarrow>
    occ_step h lp s (s\<lparr>sy_world := w', sy_replica := (sy_replica s)(i := r')\<rparr>)"
| refuse_world: "gate_commit h lp marg ctx n (sy_replica s i) (sy_world s) = (rc, r', w') \<Longrightarrow> (\<And>m. rc \<noteq> Committed m) \<Longrightarrow>
    occ_step h lp s (s\<lparr>sy_world := w', sy_replica := (sy_replica s)(i := r'), sy_seen := (sy_seen s)(i := [])\<rparr>)"

inductive occ_run :: "(jstr \<Rightarrow> jstr) \<Rightarrow> (jnum list \<Rightarrow> nat \<Rightarrow> LpStatus) \<Rightarrow> occ_system \<Rightarrow> bool"
  for h :: "jstr \<Rightarrow> jstr" and lp :: "jnum list \<Rightarrow> nat \<Rightarrow> LpStatus" where
  start: "occ_run h lp \<lparr>sy_world = w, sy_replica = (\<lambda>_. newReplica), sy_seen = (\<lambda>_. [])\<rparr>"
| step: "occ_run h lp s \<Longrightarrow> occ_step h lp s s' \<Longrightarrow> occ_run h lp s'"

definition reads_ok :: "WorldState \<Rightarrow> GhostReplica \<Rightarrow> (jstr \<times> jsval) list \<Rightarrow> bool" where
  "reads_ok w r seen \<longleftrightarrow>
     distinct (map fst (gr_writeSet r))
     \<and> (\<forall>k ver. map_of (gr_readSet r) k = Some ver \<longrightarrow>
          (\<exists>v. map_of seen k = Some v \<and> ver \<le> current_version w k \<and> (current_version w k = ver \<longrightarrow> v = current_value w k)))"

definition occ_ok :: "occ_system \<Rightarrow> bool" where
  "occ_ok s \<longleftrightarrow> (\<forall>i. reads_ok (sy_world s) (sy_replica s i) (sy_seen s i))"

lemma reads_ok_empty: "reads_ok w newReplica []" "reads_ok w (wipe r) []"
  by (simp_all add: reads_ok_def newReplica_def wipe_def)

lemma reads_ok_grow:
  assumes "reads_ok w r seen"
    and "\<And>k. current_version w k \<le> current_version w' k"
    and "\<And>k. current_version w' k = current_version w k \<Longrightarrow> current_value w' k = current_value w k"
  shows "reads_ok w' r seen"
  unfolding reads_ok_def
proof (intro conjI allI impI)
  show "distinct (map fst (gr_writeSet r))" using assms(1) by (simp add: reads_ok_def)
  fix k ver
  assume "map_of (gr_readSet r) k = Some ver"
  then obtain v where v: "map_of seen k = Some v" "ver \<le> current_version w k" "current_version w k = ver \<longrightarrow> v = current_value w k"
    using assms(1) by (auto simp: reads_ok_def)
  then show "\<exists>v. map_of seen k = Some v \<and> ver \<le> current_version w' k \<and> (current_version w' k = ver \<longrightarrow> v = current_value w' k)"
    using assms(2,3) [of k] by auto
qed

lemma reads_ok_put: "reads_ok w r seen \<Longrightarrow> reads_ok (put_value h k v w) r seen"
  by (rule reads_ok_grow) (auto simp: put_value_version put_value_value split: if_splits)

lemma reads_ok_puts: "reads_ok w r seen \<Longrightarrow> reads_ok (fold (\<lambda>(key, v). put_value h key v) ws w) r seen"
  by (induction ws arbitrary: w) (auto intro: reads_ok_put)

lemma reads_ok_read:
  assumes "reads_ok w r seen" and "map_of (gr_writeSet r) k = None" and "replica_read w k r = (v, r')"
  shows "reads_ok w r' ((k, v) # seen)"
proof -
  have "r' = r\<lparr>gr_readSet := AList.update k (current_version w k) (gr_readSet r)\<rparr>" "v = current_value w k"
    using assms(2,3) by (auto simp: replica_read_def current_version_def current_value_def split: option.splits)
  then show ?thesis using assms(1) by (auto simp: reads_ok_def update_conv)
qed

lemma reads_ok_write: "reads_ok w r seen \<Longrightarrow> reads_ok w (replica_write k v r) seen"
  by (auto simp: reads_ok_def replica_write_def distinct_update)

lemma occ_ok_step:
  assumes "occ_step h lp s s'" and "occ_ok s" shows "occ_ok s'"
  using assms(1)
proof (cases rule: occ_step.cases)
  case (commit_world marg ctx n i m r' w')
  then have "r' = sy_replica s i" "w' = fold (\<lambda>(key, v). put_value h key v) (gr_writeSet (sy_replica s i)) (sy_world s)"
    by (auto elim: commit_cases)
  then show ?thesis using assms(2) commit_world(1) by (auto simp: occ_ok_def reads_ok_puts)
next
  case (refuse_world marg ctx n i rc r' w')
  then have "r' = wipe (sy_replica s i)" "w' = sy_world s" by (auto elim: commit_cases)
  then show ?thesis using assms(2) refuse_world(1) reads_ok_empty by (simp add: occ_ok_def)
next
  case (read_world i k v r')
  then show ?thesis using assms(2) reads_ok_read [OF _ read_world(2,3)] by (simp add: occ_ok_def)
next
  case (read_own i k v r')
  then have "r' = sy_replica s i" by (simp add: replica_read_def)
  then show ?thesis using assms(2) read_own(1) by (simp add: occ_ok_def)
qed (use assms(2) in \<open>auto simp: occ_ok_def reads_ok_empty reads_ok_write simulateExternalMutation_def reads_ok_put\<close>)

lemma occ_run_ok: "occ_run h lp s \<Longrightarrow> occ_ok s"
  by (induction rule: occ_run.induct) (auto simp: occ_ok_def [of "\<lparr>sy_world = _, sy_replica = _, sy_seen = _\<rparr>"] reads_ok_empty intro: occ_ok_step)

text \<open>
  Claim C14. Commits are optimistic-concurrency safe: however reads, writes, external mutations and commits of any
  number of replicas interleave, when the gate commits a replica, the last value the replica read
  for each key of its read set is the value the world has at that moment; the world then changes
  exactly by the replica's writes. Every refusal leaves the world as it is and wipes the replica.
\<close>

theorem committed_reads_are_current:
  assumes "occ_run h lp s"
    and "gate_commit h lp marg ctx n (sy_replica s i) (sy_world s) = (rc, r', w')"
  shows "(case rc of
      Committed _ \<Rightarrow>
        (\<forall>k. k \<in> dom (map_of (gr_readSet (sy_replica s i))) \<longrightarrow> map_of (sy_seen s i) k = Some (current_value (sy_world s) k))
        \<and> (\<forall>k. current_value w' k =
             (case map_of (gr_writeSet (sy_replica s i)) k of None \<Rightarrow> current_value (sy_world s) k | Some v \<Rightarrow> v))
    | _ \<Rightarrow> w' = sy_world s \<and> r' = wipe (sy_replica s i))"
proof -
  have ok: "reads_ok (sy_world s) (sy_replica s i) (sy_seen s i)" using occ_run_ok [OF assms(1)] by (simp add: occ_ok_def)
  show ?thesis
    using assms(2)
  proof (cases rule: commit_cases)
    case committed
    have "map_of (sy_seen s i) k = Some (current_value (sy_world s) k)"
      if read: "map_of (gr_readSet (sy_replica s i)) k = Some ver" for k ver
    proof -
      have "current_version (sy_world s) k = ver"
        using committed(4) map_of_SomeD [OF read] by (auto simp: read_conflicts_def filter_empty_conv)
      then show ?thesis using ok read by (auto simp: reads_ok_def)
    qed
    then show ?thesis using committed ok by (auto simp: reads_ok_def fold_put_value)
  next
    case refused
    then show ?thesis by (cases rc) auto
  qed
qed

subsection \<open>A read that is not repeatable\<close>

definition number :: "nat \<Rightarrow> jsval" where
  "number n = JNum (num_of_nat n)"

definition one_record :: "(jstr \<Rightarrow> jstr) \<Rightarrow> WorldState" where
  "one_record h = [(js ''x'', \<lparr>wr_value = number 1, wr_version = 1, wr_stateHash = hashState h (number 1)\<rparr>)]"

definition started :: "WorldState \<Rightarrow> occ_system" where
  "started w = \<lparr>sy_world = w, sy_replica = (\<lambda>_. newReplica), sy_seen = (\<lambda>_. [])\<rparr>"

definition read_by :: "nat \<Rightarrow> jstr \<Rightarrow> occ_system \<Rightarrow> occ_system" where
  "read_by i k s =
     (case replica_read (sy_world s) k (sy_replica s i) of (v, r') \<Rightarrow>
        s\<lparr>sy_replica := (sy_replica s)(i := r'), sy_seen := (sy_seen s)(i := (k, v) # sy_seen s i)\<rparr>)"

definition mutated :: "(jstr \<Rightarrow> jstr) \<Rightarrow> jstr \<Rightarrow> jsval \<Rightarrow> occ_system \<Rightarrow> occ_system" where
  "mutated h k v s = s\<lparr>sy_world := simulateExternalMutation h k v (sy_world s)\<rparr>"

definition written_by :: "nat \<Rightarrow> jstr \<Rightarrow> jsval \<Rightarrow> occ_system \<Rightarrow> occ_system" where
  "written_by i k v s = s\<lparr>sy_replica := (sy_replica s)(i := replica_write k v (sy_replica s i))\<rparr>"

text \<open>The replica reads \<open>x\<close>, the world changes \<open>x\<close>, the replica reads \<open>x\<close> again and writes what it first saw.\<close>

definition stale_state :: "(jstr \<Rightarrow> jstr) \<Rightarrow> occ_system" where
  "stale_state h = written_by 0 (js ''y'') (number 1)
     (read_by 0 (js ''x'') (mutated h (js ''x'') (number 2) (read_by 0 (js ''x'') (started (one_record h)))))"

lemma run_read:
  "occ_run h lp s \<Longrightarrow> map_of (gr_writeSet (sy_replica s i)) k = None \<Longrightarrow> occ_run h lp (read_by i k s)"
  by (auto simp: read_by_def split: prod.splits intro!: occ_run.step [of h lp s] occ_step.read_world)

lemma run_mutated: "occ_run h lp s \<Longrightarrow> occ_run h lp (mutated h k v s)"
  unfolding mutated_def by (rule occ_run.step, assumption, rule occ_step.mutate)

lemma run_written: "occ_run h lp s \<Longrightarrow> occ_run h lp (written_by i k v s)"
  unfolding written_by_def by (rule occ_run.step, assumption, rule occ_step.buffer_write)

lemma run_started: "occ_run h lp (started w)"
  unfolding started_def by (rule occ_run.start)

lemma stale_run: "occ_run h lp (stale_state h)"
  unfolding stale_state_def
  by (intro run_written run_read run_mutated run_started)
    (simp_all add: read_by_def mutated_def started_def newReplica_def replica_read_def split: option.splits)

lemma stale_facts:
  "sy_seen (stale_state h) 0 = [(js ''x'', number 2), (js ''x'', number 1)]"
  "sy_replica (stale_state h) 0 = \<lparr>gr_readSet = [(js ''x'', 2)], gr_writeSet = [(js ''y'', number 1)]\<rparr>"
  "map_of (sy_world (stale_state h)) (js ''x'') = Some \<lparr>wr_value = number 2, wr_version = 2, wr_stateHash = hashState h (number 2)\<rparr>"
  "map_of (sy_world (stale_state h)) (js ''y'') = None"
  by (simp_all add: stale_state_def written_by_def read_by_def mutated_def started_def one_record_def newReplica_def replica_read_def
      replica_write_def simulateExternalMutation_def put_value_def)

text \<open>
  A second read of a key replaces the version the first one recorded: there is an interleaving in which a
  replica reads a key, an external mutation changes it, the replica reads the key again and then
  buffers a write, and the gate commits, although the replica has seen two different values of one
  key and no single state of the world had both.
\<close>

theorem unrepeatable_read_commits:
  "\<exists>s k v1 v2 r' w'. occ_run h lp s \<and> (k, v1) \<in> set (sy_seen s 0) \<and> (k, v2) \<in> set (sy_seen s 0) \<and> v1 \<noteq> v2
    \<and> gate_commit h lp [] None 1000 (sy_replica s 0) (sy_world s) = (Committed 1, r', w') \<and> current_value w' (js ''y'') = v1"
proof -
  have neq: "number 1 \<noteq> number 2" by code_simp
  have "gate_commit h lp [] None 1000 (sy_replica (stale_state h) 0) (sy_world (stale_state h)) =
      (Committed 1, sy_replica (stale_state h) 0, put_value h (js ''y'') (number 1) (sy_world (stale_state h)))"
    by (simp add: gate_commit_def stale_facts read_conflicts_def current_version_def)
  moreover have "current_value (put_value h (js ''y'') (number 1) (sy_world (stale_state h))) (js ''y'') = number 1"
    by (simp add: put_value_value)
  ultimately show ?thesis
    using stale_run [of h lp] neq stale_facts(1) [of h]
    by (intro exI [of _ "stale_state h"] exI [of _ "js ''x''"] exI [of _ "number 1"] exI [of _ "number 2"]) auto
qed

theorem committed_reads_are_current_witness:
  "map_of (sy_seen (stale_state sample_digest) 0) (js ''x'') = Some (current_value (sy_world (stale_state sample_digest)) (js ''x''))"
proof -
  let ?s = "stale_state sample_digest" and ?lp = "\<lambda>_ _. OPTIMAL"
  have run: "occ_run sample_digest ?lp ?s" by (rule stale_run)
  have commit: "gate_commit sample_digest ?lp [] None 1000 (sy_replica ?s 0) (sy_world ?s) =
      (Committed 1, sy_replica ?s 0, put_value sample_digest (js ''y'') (number 1) (sy_world ?s))"
    by (simp add: gate_commit_def stale_facts read_conflicts_def current_version_def)
  have "js ''x'' \<in> dom (map_of (gr_readSet (sy_replica ?s 0)))" by (simp add: stale_facts)
  then show ?thesis using committed_reads_are_current [OF run commit] by simp
qed

end
