(* ===== verification/Speculation.thy ===== *)
theory Speculation
  imports Provenance Strict_Admission
begin

text \<open>
  Speculative execution, \<open>speculativeExecution/stateForker.ts\<close> of \<open>packages/research-frontier/src\<close>: a draft of the state
  that an agent changes freely, and the collapse rule that makes it the state only if the evidence
  meets its floor.

  \<open>JSON.parse\<close> of the canonical text of a value is the value's normal form. The draft is handed out by
  reference: between two operations its holder may turn it into any value. SHA-256 is an argument.
\<close>

datatype forker_error =
    NotSerializable canonical_error | NotAnObject | NestedFork | NoActiveSpeculation
  | FloorRaised provenance_error | CollapseRefused floor_detail jstr | CompareRaised canonical_error

record SpeculationCommit =
  sc_dirtyKeys :: "jstr list"
  sc_evaluationDetail :: floor_detail

record SpeculationAbortMarker =
  am_draftDigest :: jstr
  am_effectClass :: jstr

record SpeculativeContextManager =
  sm_base :: "(jstr \<times> jsval) list"
  sm_draft :: "jsval option"
  sm_markers :: "SpeculationAbortMarker list"

definition canonicalClone :: "jsval \<Rightarrow> forker_error + (jstr \<times> jsval) list" where
  "canonicalClone v =
     (case canonicalize v of
        Inl err \<Rightarrow> Inl (NotSerializable err)
      | Inr _ \<Rightarrow> (case norm_val v of JObj es \<Rightarrow> Inr es | _ \<Rightarrow> Inl NotAnObject))"

definition newManager :: "jsval \<Rightarrow> forker_error + SpeculativeContextManager" where
  "newManager context =
     (case canonicalClone context of
        Inl err \<Rightarrow> Inl err
      | Inr es \<Rightarrow> Inr \<lparr>sm_base = es, sm_draft = None, sm_markers = []\<rparr>)"

definition fork :: "SpeculativeContextManager \<Rightarrow> (forker_error + jsval) \<times> SpeculativeContextManager" where
  "fork m =
     (if sm_draft m \<noteq> None then (Inl NestedFork, m)
      else
        (case canonicalClone (JObj (sm_base m)) of
           Inl err \<Rightarrow> (Inl err, m)
         | Inr es \<Rightarrow> (Inr (JObj es), m\<lparr>sm_draft := Some (JObj es)\<rparr>)))"

text \<open>
  A property of a plain object: its own, or one that every object inherits. The inherited methods are
  functions, and \<open>__proto__\<close> is an object without enumerable properties.
\<close>

definition inherited_methods :: "jstr list" where
  "inherited_methods = map js [''constructor'', ''__defineGetter__'', ''__defineSetter__'', ''hasOwnProperty'', ''__lookupGetter__'',
     ''__lookupSetter__'', ''isPrototypeOf'', ''propertyIsEnumerable'', ''toString'', ''valueOf'', ''toLocaleString'']"

definition property :: "(jstr \<times> jsval) list \<Rightarrow> jstr \<Rightarrow> jsval option" where
  "property es k =
     (case map_of es k of
        Some v \<Rightarrow> Some v
      | None \<Rightarrow>
          if k \<in> set inherited_methods then Some JFunction
          else if k = js ''__proto__'' then Some (JObj []) else None)"

definition is_dirty :: "(jstr \<times> jsval) list \<Rightarrow> (jstr \<times> jsval) list \<Rightarrow> jstr \<Rightarrow> forker_error + bool" where
  "is_dirty base draft k =
     (case (property base k, property draft k) of
        (Some b, Some d) \<Rightarrow>
          (case canonicalize b of
             Inl err \<Rightarrow> Inl (CompareRaised err)
           | Inr x \<Rightarrow> (case canonicalize d of Inl err \<Rightarrow> Inl (CompareRaised err) | Inr y \<Rightarrow> Inr (x \<noteq> y)))
      | (None, None) \<Rightarrow> Inr False
      | _ \<Rightarrow> Inr True)"

fun collect_dirty :: "(jstr \<Rightarrow> forker_error + bool) \<Rightarrow> jstr list \<Rightarrow> forker_error + jstr list" where
  "collect_dirty f [] = Inr []"
| "collect_dirty f (k # ks) =
     (case f k of
        Inl err \<Rightarrow> Inl err
      | Inr b \<Rightarrow> (case collect_dirty f ks of Inl err \<Rightarrow> Inl err | Inr ds \<Rightarrow> Inr (if b then k # ds else ds)))"

definition dirtyKeysBetween :: "(jstr \<times> jsval) list \<Rightarrow> (jstr \<times> jsval) list \<Rightarrow> forker_error + jstr list" where
  "dirtyKeysBetween base draft =
     (case collect_dirty (is_dirty base draft) (js_set (map fst base @ map fst draft)) of
        Inl err \<Rightarrow> Inl err
      | Inr ds \<Rightarrow> Inr (sort_by (\<le>) ds))"

definition recordAbort ::
  "(jstr \<Rightarrow> jstr) \<Rightarrow> (jstr \<times> jsval) list \<Rightarrow> jstr \<Rightarrow> SpeculativeContextManager \<Rightarrow> SpeculationAbortMarker \<times> SpeculativeContextManager" where
  "recordAbort h draft cls m =
     (let marker = \<lparr>am_draftDigest = js ''sha256:'' @ h (print_val (norm_val (JObj draft))), am_effectClass = cls\<rparr> in
      (marker, m\<lparr>sm_markers := sm_markers m @ [marker], sm_draft := None\<rparr>))"

definition commitSpeculation ::
  "(jstr \<Rightarrow> jstr) \<Rightarrow> ProvenanceLabeledEvidence list \<Rightarrow> EvidenceFloorRequirement \<Rightarrow> SpeculativeContextManager \<Rightarrow>
     (forker_error + SpeculationCommit) \<times> SpeculativeContextManager" where
  "commitSpeculation h evidence requirement m =
     (case sm_draft m of
        None \<Rightarrow> (Inl NoActiveSpeculation, m)
      | Some d \<Rightarrow>
          (case canonicalClone d of
             Inl err \<Rightarrow> (Inl err, m)
           | Inr draft \<Rightarrow>
               (case evaluateEvidenceFloor evidence requirement of
                  Inl err \<Rightarrow> (Inl (FloorRaised err), m)
                | Inr evaluation \<Rightarrow>
                    if \<not> satisfied evaluation then
                      (Inl (CollapseRefused (floorDetail evaluation) (effectClass requirement)),
                       snd (recordAbort h draft (effectClass requirement) m))
                    else
                      (case dirtyKeysBetween (sm_base m) draft of
                         Inl err \<Rightarrow> (Inl err, m)
                       | Inr dirtyKeys \<Rightarrow>
                           (Inr \<lparr>sc_dirtyKeys = dirtyKeys, sc_evaluationDetail = floorDetail evaluation\<rparr>,
                            m\<lparr>sm_base := draft, sm_draft := None\<rparr>)))))"

definition abortSpeculation ::
  "(jstr \<Rightarrow> jstr) \<Rightarrow> jstr \<Rightarrow> SpeculativeContextManager \<Rightarrow> (forker_error + SpeculationAbortMarker) \<times> SpeculativeContextManager" where
  "abortSpeculation h cls m =
     (case sm_draft m of
        None \<Rightarrow> (Inl NoActiveSpeculation, m)
      | Some d \<Rightarrow>
          (case canonicalClone d of
             Inl err \<Rightarrow> (Inl err, m)
           | Inr draft \<Rightarrow> (case recordAbort h draft cls m of (marker, m') \<Rightarrow> (Inr marker, m'))))"

definition snapshot :: "SpeculativeContextManager \<Rightarrow> forker_error + (jstr \<times> jsval) list" where
  "snapshot m = canonicalClone (JObj (sm_base m))"

definition abortMarkers :: "SpeculativeContextManager \<Rightarrow> SpeculationAbortMarker list" where
  "abortMarkers m = sm_markers m"

subsection \<open>Runs\<close>

text \<open>The operations of a run. \<open>Mutate d\<close> is the holder of the draft turning it into \<open>d\<close>.\<close>

datatype operation =
    Fork
  | Mutate jsval
  | Commit "ProvenanceLabeledEvidence list" EvidenceFloorRequirement
  | Abort jstr

fun perform :: "(jstr \<Rightarrow> jstr) \<Rightarrow> operation \<Rightarrow> SpeculativeContextManager \<Rightarrow> SpeculativeContextManager" where
  "perform h Fork m = snd (fork m)"
| "perform h (Mutate d) m = m\<lparr>sm_draft := map_option (\<lambda>_. d) (sm_draft m)\<rparr>"
| "perform h (Commit evidence requirement) m = snd (commitSpeculation h evidence requirement m)"
| "perform h (Abort cls) m = snd (abortSpeculation h cls m)"

definition run :: "(jstr \<Rightarrow> jstr) \<Rightarrow> operation list \<Rightarrow> SpeculativeContextManager \<Rightarrow> SpeculativeContextManager" where
  "run h ops m = fold (perform h) ops m"

definition floor_met :: "operation \<Rightarrow> bool" where
  "floor_met op =
     (case op of
        Commit evidence requirement \<Rightarrow>
          (case evaluateEvidenceFloor evidence requirement of Inl _ \<Rightarrow> False | Inr evaluation \<Rightarrow> satisfied evaluation)
      | _ \<Rightarrow> False)"

lemma recordAbort_fields:
  "sm_base (snd (recordAbort h d c m)) = sm_base m" "sm_draft (snd (recordAbort h d c m)) = None"
  by (simp_all add: recordAbort_def Let_def)

lemma fork_base: "sm_base (snd (fork m)) = sm_base m"
  by (auto simp: fork_def split: sum.splits)

lemma abort_base: "sm_base (snd (abortSpeculation h c m)) = sm_base m"
  using recordAbort_fields(1) by (auto simp: abortSpeculation_def split: option.splits sum.splits prod.splits) (metis snd_conv)

lemma commit_base:
  assumes "sm_base (snd (commitSpeculation h ev req m)) \<noteq> sm_base m"
  obtains d draft where "sm_draft m = Some d" "canonicalClone d = Inr draft" "floor_met (Commit ev req)"
    "sm_base (snd (commitSpeculation h ev req m)) = draft" "sm_draft (snd (commitSpeculation h ev req m)) = None"
  using assms
  by (auto simp: commitSpeculation_def floor_met_def recordAbort_fields split: option.splits sum.splits if_splits)

lemma perform_base:
  assumes "sm_base (perform h op m) \<noteq> sm_base m"
  obtains d draft where "sm_draft m = Some d" "canonicalClone d = Inr draft" "floor_met op" "sm_base (perform h op m) = draft"
    "sm_draft (perform h op m) = None"
  using assms by (cases op) (auto simp: fork_base abort_base elim: commit_base)

text \<open>
  Claim C13. The collapse rule: whatever sequence of forks, arbitrary changes to the draft, commits and aborts is
  performed, the base state differs from the one at the start only if some commit of the sequence
  was supplied with evidence that meets its floor; and every single change of the base state is such a
  commit, which replaces it by the canonical clone of the draft and ends the speculation.
\<close>

theorem collapse_needs_evidence:
  "(sm_base (run h ops m) \<noteq> sm_base m \<longrightarrow> (\<exists>op. op \<in> set ops \<and> floor_met op))
   \<and> (sm_base (perform h op m') \<noteq> sm_base m' \<longrightarrow>
        floor_met op \<and> sm_draft (perform h op m') = None
        \<and> (\<exists>d. sm_draft m' = Some d \<and> canonicalClone d = Inr (sm_base (perform h op m'))))"
proof -
  have "\<exists>op. op \<in> set ops \<and> floor_met op" if "sm_base (run h ops m) \<noteq> sm_base m"
    using that
  proof (induction ops arbitrary: m)
    case (Cons op ops)
    show ?case
    proof (cases "sm_base (perform h op m) = sm_base m")
      case True
      then have "sm_base (run h ops (perform h op m)) \<noteq> sm_base (perform h op m)" using Cons.prems by (simp add: run_def)
      from Cons.IH [OF this] show ?thesis by auto
    next
      case False
      then show ?thesis by (rule perform_base) auto
    qed
  qed (simp add: run_def)
  moreover have "floor_met op \<and> sm_draft (perform h op m') = None
      \<and> (\<exists>d. sm_draft m' = Some d \<and> canonicalClone d = Inr (sm_base (perform h op m')))"
    if "sm_base (perform h op m') \<noteq> sm_base m'"
    using that by (rule perform_base) auto
  ultimately show ?thesis by blast
qed

subsection \<open>Dirty keys\<close>

definition inherited :: "jstr \<Rightarrow> bool" where
  "inherited k \<longleftrightarrow> k \<in> set inherited_methods \<or> k = js ''__proto__''"

lemma clone_members:
  assumes "canonicalClone v = Inr es" and "json_shaped v"
  shows "distinct (map fst es)" "(k, x) \<in> set es \<Longrightarrow> json_shaped x \<and> norm_val x = x"
proof -
  obtain fs where v: "v = JObj fs" and es: "es = sort_by key_le (map (\<lambda>(k, v). (k, norm_val v)) fs)"
    using assms(1) by (cases v) (auto simp: canonicalClone_def split: sum.splits)
  have shaped: "json_shaped (JObj es)" using json_shaped_norm [OF assms(2)] by (simp add: v es)
  then show "distinct (map fst es)" by simp
  show "json_shaped x \<and> norm_val x = x" if mem: "(k, x) \<in> set es" for k x
  proof -
    obtain y where "(k, y) \<in> set fs" "x = norm_val y" using mem by (auto simp: es)
    then have "json_shaped y" using assms(2) by (auto simp: v list_all_iff)
    then show ?thesis using \<open>x = norm_val y\<close> json_shaped_norm norm_val_idem by simp
  qed
qed

lemma collect_dirty_ok:
  "(\<And>k. k \<in> set ks \<Longrightarrow> f k = Inr (P k)) \<Longrightarrow> collect_dirty f ks = Inr (filter P ks)"
  by (induction ks) auto

lemma collect_dirty_raises: "k \<in> set ks \<Longrightarrow> f k = Inl err \<Longrightarrow> \<exists>err. collect_dirty f ks = Inl err"
  by (induction ks) (auto split: sum.splits)

lemma is_dirty_value:
  assumes "canonicalClone v = Inr base" and "json_shaped v" and "canonicalClone w = Inr draft" and "json_shaped w"
    and "\<not> inherited k"
  shows "is_dirty base draft k = Inr (map_of base k \<noteq> map_of draft k)"
proof -
  have eq: "canonicalize x = canonicalize y \<longleftrightarrow> x = y" if "(a, x) \<in> set base" "(b, y) \<in> set draft" for a b x y
    using clone_members(2) [OF assms(1,2) that(1)] clone_members(2) [OF assms(3,4) that(2)] canonicalize_inject by metis
  have "\<exists>t. canonicalize x = Inr t" if "(a, x) \<in> set base \<or> (a, x) \<in> set draft" for a x
    using that clone_members(2) [OF assms(1,2)] clone_members(2) [OF assms(3,4)] canonicalize_norm by blast
  then show ?thesis
    using assms(5) eq
    by (cases "map_of base k"; cases "map_of draft k")
      (fastforce simp: is_dirty_def property_def inherited_def dest: map_of_SomeD split: sum.splits)+
qed

text \<open>
  A commit reports what it changed: for two canonical states whose keys are not names that every object
  inherits, the dirty keys are, in order and without repetition, exactly the keys at which the two
  states differ as JSON values, a key present in one of them only included.
\<close>

theorem dirty_keys_are_the_difference:
  assumes "canonicalClone v = Inr base" and "json_shaped v" and "canonicalClone w = Inr draft" and "json_shaped w"
    and "\<And>k. k \<in> fst ` set (base @ draft) \<Longrightarrow> \<not> inherited k"
  shows "\<exists>ds. dirtyKeysBetween base draft = Inr ds \<and> set ds = {k. map_of base k \<noteq> map_of draft k} \<and> sorted ds \<and> distinct ds"
proof -
  let ?ks = "js_set (map fst base @ map fst draft)" and ?P = "\<lambda>k. map_of base k \<noteq> map_of draft k"
  have "collect_dirty (is_dirty base draft) ?ks = Inr (filter ?P ?ks)"
    by (rule collect_dirty_ok, rule is_dirty_value [OF assms(1-4)], rule assms(5)) auto
  moreover have "k \<in> fst ` set base \<union> fst ` set draft" if "?P k" for k
    using that map_of_eq_None_iff [of base k] map_of_eq_None_iff [of draft k] by auto
  then have "set (filter ?P ?ks) = {k. ?P k}" by auto
  ultimately show ?thesis by (simp add: dirtyKeysBetween_def sorted_sort_by)
qed

text \<open>
  A draft that adds a key with the name of an inherited method, such as \<open>constructor\<close>, can never be
  committed: whatever the evidence, \<open>commitSpeculation\<close> raises and the base state stays.
\<close>

theorem inherited_key_blocks_commit:
  assumes "sm_draft m = Some d" and "canonicalClone d = Inr draft"
    and "k \<in> fst ` set draft" and "k \<notin> fst ` set (sm_base m)" and "k \<in> set inherited_methods"
  shows "\<exists>err m'. commitSpeculation h evidence requirement m = (Inl err, m') \<and> sm_base m' = sm_base m"
proof -
  have none: "map_of (sm_base m) k = None" using assms(4) by (simp add: map_of_eq_None_iff)
  obtain v where some: "map_of draft k = Some v" using assms(3) by (metis map_of_eq_None_iff not_None_eq)
  have "is_dirty (sm_base m) draft k = Inl (CompareRaised ExecutableValue)"
    using assms(5) none some by (simp add: is_dirty_def property_def)
  moreover have "k \<in> set (js_set (map fst (sm_base m) @ map fst draft))" using assms(3) by auto
  ultimately obtain err where "collect_dirty (is_dirty (sm_base m) draft) (js_set (map fst (sm_base m) @ map fst draft)) = Inl err"
    using collect_dirty_raises [of k _ "is_dirty (sm_base m) draft"] by blast
  then have "dirtyKeysBetween (sm_base m) draft = Inl err" by (simp add: dirtyKeysBetween_def)
  then show ?thesis
    using assms(1,2) by (auto simp: commitSpeculation_def recordAbort_fields split: sum.splits)
qed

subsection \<open>Witnesses\<close>

definition base_manager :: SpeculativeContextManager where
  "base_manager = \<lparr>sm_base = [(js ''a'', JStr (js ''old''))], sm_draft = Some (JObj [(js ''a'', JStr (js ''new''))]), sm_markers = []\<rparr>"

theorem collapse_needs_evidence_witness:
  "sm_base (perform Prelude.sample_digest (Commit [sample_evidence ''alice'' SOURCE_SIGNED] sample_requirement) base_manager) \<noteq> sm_base base_manager
   \<and> floor_met (Commit [sample_evidence ''alice'' SOURCE_SIGNED] sample_requirement)"
proof -
  have "sm_base (perform Prelude.sample_digest (Commit [sample_evidence ''alice'' SOURCE_SIGNED] sample_requirement) base_manager) \<noteq> sm_base base_manager"
    by code_simp
  then show ?thesis
    using collapse_needs_evidence [of Prelude.sample_digest "[]" base_manager "Commit [sample_evidence ''alice'' SOURCE_SIGNED] sample_requirement" base_manager]
    by blast
qed

theorem dirty_keys_are_the_difference_witness:
  "\<exists>ds. dirtyKeysBetween [(js ''a'', JNull)] [(js ''b'', JNull)] = Inr ds \<and> js ''a'' \<in> set ds \<and> js ''b'' \<in> set ds"
proof -
  have clones: "canonicalClone (JObj [(js ''a'', JNull)]) = Inr [(js ''a'', JNull)]" "canonicalClone (JObj [(js ''b'', JNull)]) = Inr [(js ''b'', JNull)]"
    by code_simp+
  have own: "\<not> inherited (js ''a'')" "\<not> inherited (js ''b'')" by code_simp+
  then have "\<not> inherited k" if "k \<in> fst ` set ([(js ''a'', JNull :: jsval)] @ [(js ''b'', JNull)])" for k using that by auto
  from dirty_keys_are_the_difference [OF clones(1) _ clones(2) _ this] show ?thesis by auto
qed

theorem inherited_key_blocks_commit_witness:
  "\<exists>err m'. commitSpeculation Prelude.sample_digest [sample_evidence ''alice'' SOURCE_SIGNED] sample_requirement
       (base_manager\<lparr>sm_draft := Some (JObj [(js ''constructor'', JNull)])\<rparr>) = (Inl err, m') \<and> sm_base m' = sm_base base_manager"
proof -
  have clone: "canonicalClone (JObj [(js ''constructor'', JNull)]) = Inr [(js ''constructor'', JNull)]" by code_simp
  have key: "js ''constructor'' \<in> set inherited_methods" "js ''constructor'' \<noteq> js ''a''" by code_simp+
  show ?thesis
    using inherited_key_blocks_commit [of "base_manager\<lparr>sm_draft := Some (JObj [(js ''constructor'', JNull)])\<rparr>" _ _ "js ''constructor''",
        OF _ clone, of Prelude.sample_digest "[sample_evidence ''alice'' SOURCE_SIGNED]" sample_requirement] key
    by (simp add: base_manager_def)
qed

end
