(* ===== verification/Tenant_Namespace.thy ===== *)
theory Tenant_Namespace
  imports Js_Text Canonical_JSON
begin

text \<open>
  Tenant namespaces, \<open>tenantNamespace.ts\<close> of \<open>packages/policy-compiler/src\<close>: the tenant slug, the stage and the bucket names
  are checked, and every name a tenant owns is derived from them. \<open>toLowerCase\<close> is an argument, since it follows
  the Unicode tables; of it only the case of ASCII letters is used.
\<close>

subsection \<open>Texts\<close>

definition is_ascii :: "code_unit \<Rightarrow> bool" where
  "is_ascii c \<longleftrightarrow> c < 128"

definition ascii_lower :: "code_unit \<Rightarrow> code_unit" where
  "ascii_lower c = (if is_upper c then c + 32 else c)"

definition lowers_ascii :: "(jstr \<Rightarrow> jstr) \<Rightarrow> bool" where
  "lowers_ascii lower \<longleftrightarrow> (\<forall>s. list_all is_ascii s \<longrightarrow> lower s = map ascii_lower s)"

definition js_alnum :: "code_unit \<Rightarrow> bool" where
  "js_alnum c \<longleftrightarrow> is_lower c \<or> is_digit c"

subsection \<open>Slugs\<close>

datatype namespace_error = InvalidTenantSlug jstr | InvalidStage jstr | InvalidBucketName string jstr

text \<open>\<open>/^[a-z][a-z0-9-]{1,47}$/\<close> and, with another bound, the pattern of stages.\<close>

definition slug_between :: "nat \<Rightarrow> jstr \<Rightarrow> bool" where
  "slug_between n s \<longleftrightarrow>
     (case s of [] \<Rightarrow> False
      | c # r \<Rightarrow> is_lower c \<and> 1 \<le> length r \<and> length r \<le> n \<and> list_all (\<lambda>d. js_alnum d \<or> d = 45) r)"

definition tenantSlugPattern :: "jstr \<Rightarrow> bool" where
  "tenantSlugPattern = slug_between 47"

definition slug_metacharacters :: "code_unit list" where
  "slug_metacharacters = [42, 47, 92, 123, 125, 91, 93, 34, 39, 96, 36]"

fun unsafe_slug_text :: "jstr \<Rightarrow> bool" where
  "unsafe_slug_text [] = False"
| "unsafe_slug_text (c # s) \<longleftrightarrow>
     startsWith (c # s) (js ''..'') \<or> c \<in> set slug_metacharacters
     \<or> (take 2 (c # s) = js ''%2'' \<and> (case drop 2 (c # s) of [] \<Rightarrow> False | d # _ \<Rightarrow> ci_eq 101 d \<or> ci_eq 102 d))
     \<or> unsafe_slug_text s"

text \<open>\<open>replace(/^-|-$/gu, "")\<close>: one hyphen at either end.\<close>

definition strip_hyphens :: "jstr \<Rightarrow> jstr" where
  "strip_hyphens s =
     (let t = (case s of [] \<Rightarrow> [] | c # r \<Rightarrow> if c = 45 then r else s) in
      if t \<noteq> [] \<and> last t = 45 then butlast t else t)"

definition normalizeTenantSlug :: "(jstr \<Rightarrow> jstr) \<Rightarrow> jstr \<Rightarrow> namespace_error + jstr" where
  "normalizeTenantSlug lower s =
     (if unsafe_slug_text s then Inl (InvalidTenantSlug s)
      else
        let normalized = strip_hyphens (replace_all (Rep (\<lambda>c. c = 45) 2 None) [45]
              (replace_all (Rep (\<lambda>c. \<not> (js_alnum c \<or> c = 45)) 1 None) [45] (lower (js_trim s)))) in
        if tenantSlugPattern normalized then Inr normalized else Inl (InvalidTenantSlug s))"

subsection \<open>Namespaces\<close>

record TenantNamespaceInput =
  ti_stage :: jstr
  ti_tenantSlug :: jstr
  ti_rawBucket :: jstr
  ti_curatedBucket :: jstr
  ti_exportBucket :: jstr
  ti_resultsBucket :: jstr
  ti_region :: jstr

record TenantNamespace =
  tn_stage :: jstr
  tn_tenantSlug :: jstr
  tn_region :: jstr
  tn_rawPrefix :: jstr
  tn_curatedPrefix :: jstr
  tn_exportPrefix :: jstr
  tn_athenaResultsPrefix :: jstr
  tn_databaseName :: jstr
  tn_crawlerName :: jstr
  tn_workgroupName :: jstr
  tn_partitionKey :: jstr
  tn_tenantTagKey :: jstr
  tn_tenantTagValue :: jstr
  tn_indexAlias :: jstr

text \<open>\<open>/^(?!\d+\.\d+\.\d+\.\d+$)[a-z0-9][a-z0-9.-]{1,61}[a-z0-9]$/\<close>.\<close>

definition dotted_quad :: "jstr \<Rightarrow> bool" where
  "dotted_quad s \<longleftrightarrow> (let ps = split_on 46 s in length ps = 4 \<and> list_all (\<lambda>p. p \<noteq> [] \<and> list_all is_digit p) ps)"

definition bucketNamePattern :: "jstr \<Rightarrow> bool" where
  "bucketNamePattern s \<longleftrightarrow>
     \<not> dotted_quad s \<and> 3 \<le> length s \<and> length s \<le> 63 \<and> js_alnum (hd s) \<and> js_alnum (last s)
     \<and> list_all (\<lambda>c. js_alnum c \<or> c = 46 \<or> c = 45) s"

definition assertValidBucketName :: "jstr \<Rightarrow> string \<Rightarrow> namespace_error + unit" where
  "assertValidBucketName bucketName fld =
     (if \<not> bucketNamePattern bucketName \<or> js_includes bucketName (js ''..'') \<or> js_includes bucketName (js ''.-'')
         \<or> js_includes bucketName (js ''-.'')
      then Inl (InvalidBucketName fld bucketName) else Inr ())"

definition s3_prefix :: "jstr \<Rightarrow> jstr \<Rightarrow> string \<Rightarrow> jstr" where
  "s3_prefix bucket slug part = js ''s3://'' @ bucket @ js ''/tenants/'' @ slug @ js ''/'' @ js part @ js ''/''"

definition namespace_of :: "jstr \<Rightarrow> jstr \<Rightarrow> 'a TenantNamespaceInput_scheme \<Rightarrow> TenantNamespace" where
  "namespace_of stage slug inp = \<lparr>
     tn_stage = stage,
     tn_tenantSlug = slug,
     tn_region = ti_region inp,
     tn_rawPrefix = s3_prefix (ti_rawBucket inp) slug ''raw'',
     tn_curatedPrefix = s3_prefix (ti_curatedBucket inp) slug ''curated'',
     tn_exportPrefix = s3_prefix (ti_exportBucket inp) slug ''evidence-packs'',
     tn_athenaResultsPrefix = s3_prefix (ti_resultsBucket inp) slug ''athena'',
     tn_databaseName = js ''ghost_ark_'' @ stage @ js ''_'' @ map (\<lambda>c. if c = 45 then 95 else c) slug,
     tn_crawlerName = js ''ghost-ark-'' @ stage @ js ''-'' @ slug @ js ''-crawler'',
     tn_workgroupName = js ''ghost-ark-'' @ stage @ js ''-'' @ slug,
     tn_partitionKey = slug,
     tn_tenantTagKey = js ''tenant_slug'',
     tn_tenantTagValue = slug,
     tn_indexAlias = js ''ghost-ark-'' @ stage @ js ''-'' @ slug\<rparr>"

definition compileTenantNamespace ::
    "(jstr \<Rightarrow> jstr) \<Rightarrow> 'a TenantNamespaceInput_scheme \<Rightarrow> namespace_error + TenantNamespace" where
  "compileTenantNamespace lower inp =
     (case normalizeTenantSlug lower (ti_tenantSlug inp) of
        Inl e \<Rightarrow> Inl e
      | Inr slug \<Rightarrow>
          let stage = lower (js_trim (ti_stage inp)) in
          if \<not> slug_between 24 stage then Inl (InvalidStage (ti_stage inp))
          else
            case sequence [assertValidBucketName (ti_rawBucket inp) ''rawBucket'',
                           assertValidBucketName (ti_curatedBucket inp) ''curatedBucket'',
                           assertValidBucketName (ti_exportBucket inp) ''exportBucket'',
                           assertValidBucketName (ti_resultsBucket inp) ''resultsBucket''] of
              Inl e \<Rightarrow> Inl e
            | Inr _ \<Rightarrow> Inr (namespace_of stage slug inp))"

subsection \<open>What a compiled namespace guarantees\<close>

text \<open>Texts of letters, digits and the punctuation of resource names: no wildcard, no dollar sign, no quote.\<close>

definition is_plain_unit :: "code_unit \<Rightarrow> bool" where
  "is_plain_unit c \<longleftrightarrow> js_alnum c \<or> is_upper c \<or> c \<in> set (js ''-._:/'')"

definition plain_text :: "jstr \<Rightarrow> bool" where
  "plain_text s \<longleftrightarrow> list_all is_plain_unit s"

lemma plain_text_simps [simp]:
  "plain_text []"
  "plain_text (c # s) \<longleftrightarrow> is_plain_unit c \<and> plain_text s"
  "plain_text (s @ t) \<longleftrightarrow> plain_text s \<and> plain_text t"
  by (simp_all add: plain_text_def)

lemma plain_unit_ascii: "is_plain_unit c \<Longrightarrow> c < 128"
  by (auto simp: is_plain_unit_def js_alnum_def is_lower_def is_upper_def is_digit_def js_def cu_def word_less_nat_alt word_le_nat_alt
      split: if_splits)

lemma plain_unit_not:
  "is_plain_unit c \<Longrightarrow> c \<noteq> 42" "is_plain_unit c \<Longrightarrow> c \<noteq> 63" "is_plain_unit c \<Longrightarrow> c \<noteq> 36" "is_plain_unit c \<Longrightarrow> c \<noteq> 10"
  by (auto simp: is_plain_unit_def js_alnum_def is_lower_def is_upper_def is_digit_def js_def cu_def)

lemma slug_between_plain: "slug_between n s \<Longrightarrow> plain_text s \<and> s \<noteq> [] \<and> 47 \<notin> set s \<and> 58 \<notin> set s"
  by (auto simp: slug_between_def plain_text_def is_plain_unit_def js_alnum_def list_all_iff is_lower_def is_digit_def js_def cu_def
      split: list.splits)

lemma bucket_plain: "bucketNamePattern s \<Longrightarrow> plain_text s \<and> s \<noteq> [] \<and> 47 \<notin> set s \<and> 58 \<notin> set s"
  by (auto simp: bucketNamePattern_def plain_text_def is_plain_unit_def js_alnum_def list_all_iff is_lower_def is_digit_def js_def cu_def)

lemma normalized_slug: "normalizeTenantSlug lower s = Inr slug \<Longrightarrow> tenantSlugPattern slug"
  by (auto simp: normalizeTenantSlug_def Let_def split: if_splits)

lemma compiled_namespace:
  assumes "compileTenantNamespace lower inp = Inr ns"
  shows "ns = namespace_of (tn_stage ns) (tn_tenantSlug ns) inp" "tenantSlugPattern (tn_tenantSlug ns)" "slug_between 24 (tn_stage ns)"
    "tn_stage ns = lower (js_trim (ti_stage inp))"
    "bucketNamePattern (ti_rawBucket inp)" "bucketNamePattern (ti_curatedBucket inp)"
    "bucketNamePattern (ti_exportBucket inp)" "bucketNamePattern (ti_resultsBucket inp)"
  using assms normalized_slug
  by (auto simp: compileTenantNamespace_def assertValidBucketName_def Let_def namespace_of_def split: sum.splits if_splits)

end
