(* ===== verification/Iam_Policy.thy ===== *)
theory Iam_Policy
  imports Tenant_Namespace
begin

text \<open>
  The modeled policy language of \<open>formal/counterexampleEngine.ts\<close> in \<open>packages/policy-compiler/src\<close>: IAM documents, wildcard
  patterns, conditions, the evaluation of a document on a request, and the tenant boundary a request is
  held against. A statement is any value; a document read from JSON or compiled holds plain objects. Objects of other
  classes count as objects without entries.
\<close>

subsection \<open>Replacement in texts\<close>

text \<open>
  The replacement text of \<open>String.prototype.replace\<close> for a pattern without groups: \<open>$$\<close>, \<open>$&\<close>, the text before and the text after the match.
\<close>

fun expand :: "jstr \<Rightarrow> jstr \<Rightarrow> jstr \<Rightarrow> jstr \<Rightarrow> jstr" where
  "expand before matched after [] = []"
| "expand before matched after [c] = [c]"
| "expand before matched after (c # d # r) =
     (if c \<noteq> 36 then c # expand before matched after (d # r)
      else if d = 36 then 36 # expand before matched after r
      else if d = 38 then matched @ expand before matched after r
      else if d = 96 then before @ expand before matched after r
      else if d = 39 then after @ expand before matched after r
      else c # expand before matched after (d # r))"

text \<open>A matcher gives the length of its match at the start of a text. The text already passed is kept reversed.\<close>

fun replace_once :: "(jstr \<Rightarrow> nat option) \<Rightarrow> jstr \<Rightarrow> jstr \<Rightarrow> jstr \<Rightarrow> jstr" where
  "replace_once m rep b [] = (case m [] of Some n \<Rightarrow> expand (rev b) [] [] rep | None \<Rightarrow> [])"
| "replace_once m rep b (c # s) =
     (case m (c # s) of
        Some n \<Rightarrow> expand (rev b) (take n (c # s)) (drop n (c # s)) rep @ drop n (c # s)
      | None \<Rightarrow> c # replace_once m rep (c # b) s)"

definition literal_at :: "jstr \<Rightarrow> jstr \<Rightarrow> nat option" where
  "literal_at p s = (if startsWith s p then Some (length p) else None)"

function replace_every :: "jstr \<Rightarrow> jstr \<Rightarrow> jstr \<Rightarrow> jstr \<Rightarrow> jstr" where
  "replace_every p rep b s =
     (if p \<noteq> [] \<and> s \<noteq> [] \<and> startsWith s p
      then expand (rev b) p (drop (length p) s) rep @ replace_every p rep (rev p @ b) (drop (length p) s)
      else case s of [] \<Rightarrow> [] | c # r \<Rightarrow> c # replace_every p rep (c # b) r)"
  by pat_completeness auto
termination by (relation "measure (\<lambda>(p, rep, b, s). length s)") (auto simp: startsWith_def)

declare replace_every.simps [simp del]

subsection \<open>Requests, documents and boundaries\<close>

datatype ctx_value = CStr jstr | CArr "jstr list" | CBool bool | CNull | CNative jstr

type_synonym condition_context = "(jstr \<times> ctx_value) list"

record ModeledRequestState =
  rq_action :: jstr
  rq_resource :: jstr
  rq_slug :: jstr
  rq_context :: "condition_context option"

record IamPolicyDocument =
  doc_Version :: jstr
  doc_Statement :: "jsval list"

record TenantBoundaryModel =
  tb_tenantSlug :: jstr
  tb_allowedS3Prefixes :: "jstr list"
  tb_allowedDynamoLeadingKeys :: "jstr list"
  tb_allowedReceiptLedgerActions :: "jstr list"
  tb_forbiddenReceiptLedgerActions :: "jstr list"
  tb_allowedReadOnly :: "bool option"
  tb_allowedS3ObjectActions :: "jstr list option"

datatype ModeledPolicyDecision = Allow | Deny | ImplicitDeny

datatype model_error =
    UnsupportedConditionShape
  | UnsupportedConditionOperator jstr
  | UnsupportedConditionBlock jstr
  | NotActionOrResource
  | MalformedStatement
  | UnsupportedUri jstr

subsection \<open>Reading values\<close>

definition fld :: "(jstr \<times> jsval) list \<Rightarrow> string \<Rightarrow> jsval" where
  "fld es k = (case map_of es (js k) of None \<Rightarrow> JUndefined | Some v \<Rightarrow> v)"

definition has_key :: "(jstr \<times> jsval) list \<Rightarrow> string \<Rightarrow> bool" where
  "has_key es k \<longleftrightarrow> js k \<in> fst ` set es"

fun as_record :: "jsval \<Rightarrow> (jstr \<times> jsval) list option" where
  "as_record (JObj es) = Some es"
| "as_record JDate = Some []"
| "as_record JBuffer = Some []"
| "as_record JBinaryView = Some []"
| "as_record JMapOrSet = Some []"
| "as_record JInstance = Some []"
| "as_record _ = None"

fun string_item :: "jsval option \<Rightarrow> jstr list" where
  "string_item (Some (JStr s)) = [s]"
| "string_item _ = []"

fun asArray :: "jsval \<Rightarrow> jstr list" where
  "asArray (JArr xs) = concat (map string_item xs)"
| "asArray v = string_item (Some v)"

definition bool_text :: "bool \<Rightarrow> jstr" where
  "bool_text b = (if b then js ''true'' else js ''false'')"

fun condition_item :: "jsval option \<Rightarrow> jstr list" where
  "condition_item (Some (JStr s)) = [s]"
| "condition_item (Some (JBool b)) = [bool_text b]"
| "condition_item _ = []"

fun asConditionValues :: "jsval \<Rightarrow> jstr list" where
  "asConditionValues (JArr xs) = concat (map condition_item xs)"
| "asConditionValues v = condition_item (Some v)"

definition statementSid :: "(jstr \<times> jsval) list \<Rightarrow> jstr" where
  "statementSid st = (case fld st ''Sid'' of JStr s \<Rightarrow> s | _ \<Rightarrow> js ''(no Sid)'')"

subsection \<open>Patterns\<close>

definition hasWildcard :: "jstr \<Rightarrow> bool" where
  "hasWildcard p \<longleftrightarrow> 42 \<in> set p \<or> 63 \<in> set p"

text \<open>The code points of a text, as a regular expression with the flag \<open>u\<close> sees them; a lone surrogate is a code point.\<close>

fun points :: "jstr \<Rightarrow> int list" where
  "points [] = []"
| "points [c] = [uint c]"
| "points (c # d # s) =
     (if 0xD800 \<le> uint c \<and> uint c < 0xDC00 \<and> 0xDC00 \<le> uint d \<and> uint d < 0xE000
      then (0x10000 + (uint c - 0xD800) * 1024 + (uint d - 0xDC00)) # points s
      else uint c # points (d # s))"

definition line_terminators :: "int list" where
  "line_terminators = [10, 13, 0x2028, 0x2029]"

text \<open>
  \<open>globToRegExp(p).test(v)\<close>: the expression has a dot for a question mark, \<open>.*\<close> for a star and the escaped character for any other, between
  the anchors.
\<close>

function glob :: "int list \<Rightarrow> int list \<Rightarrow> bool" where
  "glob [] v = (v = [])"
| "glob (p # ps) v =
     (if p = 42 then glob ps v \<or> (case v of [] \<Rightarrow> False | c # r \<Rightarrow> c \<notin> set line_terminators \<and> glob (p # ps) r)
      else case v of [] \<Rightarrow> False | c # r \<Rightarrow> (if p = 63 then c \<notin> set line_terminators else p = c) \<and> glob ps r)"
  by pat_completeness auto
termination by (relation "measures [\<lambda>(p, v). length p + length v]") auto

definition matchesPattern :: "jstr \<Rightarrow> jstr \<Rightarrow> bool" where
  "matchesPattern p v \<longleftrightarrow> p = v \<or> (hasWildcard p \<and> glob (points p) (points v))"

definition slug_variable :: jstr where
  "slug_variable = js ''${aws:PrincipalTag/slug}''"

definition substitutePrincipalTag :: "jstr \<Rightarrow> ModeledRequestState \<Rightarrow> jstr" where
  "substitutePrincipalTag v rq = replace_every slug_variable (rq_slug rq) [] v"

definition actionMatches :: "(jstr \<Rightarrow> jstr) \<Rightarrow> jstr \<Rightarrow> jstr \<Rightarrow> bool" where
  "actionMatches lower p a = matchesPattern (lower p) (lower a)"

definition resourceMatches :: "jstr \<Rightarrow> jstr \<Rightarrow> ModeledRequestState \<Rightarrow> bool" where
  "resourceMatches p r rq = matchesPattern (substitutePrincipalTag p rq) r"

subsection \<open>Conditions\<close>

text \<open>A member lookup on the context object also finds what every object inherits.\<close>

definition inherited_text :: "jstr \<Rightarrow> jstr option" where
  "inherited_text k =
     (if k = js ''__proto__'' then Some (js ''[object Object]'')
      else if k = js ''constructor'' then Some (js ''function Object() { [native code] }'')
      else if k \<in> set (map js [''__defineGetter__'', ''__defineSetter__'', ''hasOwnProperty'', ''__lookupGetter__'', ''__lookupSetter__'',
                 ''isPrototypeOf'', ''propertyIsEnumerable'', ''toString'', ''valueOf'', ''toLocaleString''])
      then Some (js ''function '' @ k @ js ''() { [native code] }'')
      else None)"

definition requestContextValue :: "ModeledRequestState \<Rightarrow> jstr \<Rightarrow> ctx_value option" where
  "requestContextValue rq k =
     (if k = js ''aws:PrincipalTag/slug'' then Some (CStr (rq_slug rq))
      else case rq_context rq of
        None \<Rightarrow> None
      | Some ctx \<Rightarrow> (case map_of ctx k of Some v \<Rightarrow> Some v | None \<Rightarrow> map_option CNative (inherited_text k)))"

fun observed_values :: "ctx_value option \<Rightarrow> jstr list option" where
  "observed_values None = None"
| "observed_values (Some CNull) = None"
| "observed_values (Some (CArr xs)) = Some xs"
| "observed_values (Some (CStr s)) = Some [s]"
| "observed_values (Some (CBool b)) = Some [bool_text b]"
| "observed_values (Some (CNative t)) = Some [t]"

datatype match_operator = Equals | Like

definition valuesMatchPolicyValue :: "ctx_value option \<Rightarrow> jstr list \<Rightarrow> ModeledRequestState \<Rightarrow> match_operator \<Rightarrow> bool" where
  "valuesMatchPolicyValue rv policyValues rq opr =
     (case observed_values rv of
        None \<Rightarrow> False
      | Some observed \<Rightarrow>
          let expected = map (\<lambda>v. substitutePrincipalTag v rq) policyValues in
          case opr of
            Equals \<Rightarrow> list_ex (\<lambda>x. x \<in> set expected) observed
          | Like \<Rightarrow> list_ex (\<lambda>x. list_ex (\<lambda>y. matchesPattern y x) expected) observed)"

definition allValuesEqual :: "ctx_value option \<Rightarrow> jstr list \<Rightarrow> ModeledRequestState \<Rightarrow> bool" where
  "allValuesEqual rv policyValues rq =
     (case observed_values rv of
        None \<Rightarrow> False
      | Some observed \<Rightarrow>
          observed \<noteq> [] \<and> list_all (\<lambda>x. x \<in> set (map (\<lambda>v. substitutePrincipalTag v rq) policyValues)) observed)"

definition allowedConditionOperators :: "jstr list" where
  "allowedConditionOperators =
     map js [''StringEquals'', ''ForAllValues:StringEquals'', ''StringLike'', ''StringNotEquals'', ''Null'']"

text \<open>One entry of a condition block; \<open>False\<close> ends the evaluation.\<close>

definition entry_holds :: "jstr \<Rightarrow> jstr \<times> jsval \<Rightarrow> ModeledRequestState \<Rightarrow> bool" where
  "entry_holds opr entry rq =
     (let values = asConditionValues (snd entry); rv = requestContextValue rq (fst entry) in
      if opr = js ''StringEquals'' then valuesMatchPolicyValue rv values rq Equals
      else if opr = js ''ForAllValues:StringEquals'' then allValuesEqual rv values rq
      else if opr = js ''StringLike'' then valuesMatchPolicyValue rv values rq Like
      else if opr = js ''StringNotEquals'' then \<not> valuesMatchPolicyValue rv values rq Equals
      else if opr = js ''Null'' then (rv = None \<or> rv = Some CNull) = (js ''true'' \<in> set values)
      else True)"

fun blocks_match :: "(jstr \<times> jsval) list \<Rightarrow> ModeledRequestState \<Rightarrow> model_error + bool" where
  "blocks_match [] rq = Inr True"
| "blocks_match ((opr, block) # rest) rq =
     (if opr \<notin> set allowedConditionOperators then Inl (UnsupportedConditionOperator opr)
      else case as_record block of
        None \<Rightarrow> Inl (UnsupportedConditionBlock opr)
      | Some entries \<Rightarrow>
          if list_all (\<lambda>entry. entry_holds opr entry rq) entries then blocks_match rest rq else Inr False)"

definition conditionMatches :: "jsval \<Rightarrow> ModeledRequestState \<Rightarrow> model_error + bool" where
  "conditionMatches c rq =
     (if c = JUndefined then Inr True
      else case as_record c of
        None \<Rightarrow> Inl UnsupportedConditionShape
      | Some blocks \<Rightarrow> blocks_match blocks rq)"

subsection \<open>Evaluation of a document\<close>

definition statementMatches ::
    "(jstr \<Rightarrow> jstr) \<Rightarrow> (jstr \<times> jsval) list \<Rightarrow> ModeledRequestState \<Rightarrow> model_error + bool" where
  "statementMatches lower st rq =
     (if has_key st ''NotAction'' \<or> has_key st ''NotResource'' then Inl NotActionOrResource
      else
        let actions = asArray (fld st ''Action''); resources = asArray (fld st ''Resource'') in
        if actions = [] \<or> resources = [] then Inr False
        else if \<not> list_ex (\<lambda>a. actionMatches lower a (rq_action rq)) actions then Inr False
        else if \<not> list_ex (\<lambda>r. resourceMatches r (rq_resource rq) rq) resources then Inr False
        else conditionMatches (fld st ''Condition'') rq)"

fun evaluate_statements ::
    "(jstr \<Rightarrow> jstr) \<Rightarrow> bool \<Rightarrow> jsval list \<Rightarrow> ModeledRequestState \<Rightarrow> model_error + ModeledPolicyDecision" where
  "evaluate_statements lower allowed [] rq = Inr (if allowed then Allow else ImplicitDeny)"
| "evaluate_statements lower allowed (v # rest) rq =
     (case as_record v of
        None \<Rightarrow> Inl MalformedStatement
      | Some st \<Rightarrow>
          (case statementMatches lower st rq of
             Inl e \<Rightarrow> Inl e
           | Inr False \<Rightarrow> evaluate_statements lower allowed rest rq
           | Inr True \<Rightarrow>
               if fld st ''Effect'' = JStr (js ''Deny'') then Inr Deny
               else evaluate_statements lower (allowed \<or> fld st ''Effect'' = JStr (js ''Allow'')) rest rq))"

definition evaluateModeledPolicy ::
    "(jstr \<Rightarrow> jstr) \<Rightarrow> IamPolicyDocument \<Rightarrow> ModeledRequestState \<Rightarrow> model_error + ModeledPolicyDecision" where
  "evaluateModeledPolicy lower document rq = evaluate_statements lower False (doc_Statement document) rq"

subsection \<open>The tenant boundary\<close>

definition is_dot :: "code_unit \<Rightarrow> bool" where
  "is_dot c \<longleftrightarrow> uint c \<notin> set line_terminators"

text \<open>\<open>/^s3:\/\/([^/]+)\/(.+)$/\<close>: the bucket and the key.\<close>

definition s3_uri_parts :: "jstr \<Rightarrow> (jstr \<times> jstr) option" where
  "s3_uri_parts uri =
     (let r = drop 5 uri; bucket = takeWhile (\<lambda>c. c \<noteq> 47) r; key = drop (length bucket + 1) r in
      if startsWith uri (js ''s3://'') \<and> bucket \<noteq> [] \<and> key \<noteq> [] \<and> list_all is_dot key then Some (bucket, key) else None)"

definition s3UriToArnPrefix :: "jstr \<Rightarrow> model_error + jstr" where
  "s3UriToArnPrefix uri =
     (case s3_uri_parts uri of
        None \<Rightarrow> Inl (UnsupportedUri uri)
      | Some (bucket, key) \<Rightarrow> Inr (js ''arn:aws:s3:::'' @ bucket @ js ''/'' @ key))"

text \<open>\<open>/\/tenants\/[^/]+\/.*$/\<close> and \<open>/\/tenants\/.+$/\<close>, which both match up to the end of the text.\<close>

definition tenant_tail_at :: "jstr \<Rightarrow> nat option" where
  "tenant_tail_at s =
     (let r = drop 9 s; t = dropWhile (\<lambda>c. c \<noteq> 47) r in
      if startsWith s (js ''/tenants/'') \<and> takeWhile (\<lambda>c. c \<noteq> 47) r \<noteq> [] \<and> t \<noteq> [] \<and> list_all is_dot (tl t)
      then Some (length s) else None)"

definition tenants_end_at :: "jstr \<Rightarrow> nat option" where
  "tenants_end_at s =
     (if startsWith s (js ''/tenants/'') \<and> drop 9 s \<noteq> [] \<and> list_all is_dot (drop 9 s) then Some (length s) else None)"

definition tenant_root :: "jstr \<Rightarrow> jstr \<Rightarrow> jstr" where
  "tenant_root slug arn = replace_once tenant_tail_at (js ''/tenants/'' @ slug @ js ''/'') [] arn"

definition namespace_uris :: "TenantNamespace \<Rightarrow> jstr list" where
  "namespace_uris ns = [tn_rawPrefix ns, tn_curatedPrefix ns, tn_exportPrefix ns, tn_athenaResultsPrefix ns]"

definition buildTenantBoundaryModel :: "jstr \<Rightarrow> TenantNamespace \<Rightarrow> model_error + TenantBoundaryModel" where
  "buildTenantBoundaryModel slug ns =
     (case sequence (map s3UriToArnPrefix (namespace_uris ns)) of
        Inl e \<Rightarrow> Inl e
      | Inr arns \<Rightarrow> Inr \<lparr>
          tb_tenantSlug = slug,
          tb_allowedS3Prefixes = js_set (map (tenant_root slug) arns @ arns),
          tb_allowedDynamoLeadingKeys = [tn_partitionKey ns],
          tb_allowedReceiptLedgerActions = map js [''dynamodb:GetItem'', ''dynamodb:Query'', ''dynamodb:PutItem''],
          tb_forbiddenReceiptLedgerActions = map js [''dynamodb:BatchWriteItem'', ''dynamodb:DeleteItem'', ''dynamodb:PartiQLDelete'',
             ''dynamodb:PartiQLUpdate'', ''dynamodb:TransactWriteItems'', ''dynamodb:UpdateItem'', ''dynamodb:*'', ''*''],
          tb_allowedReadOnly = Some True,
          tb_allowedS3ObjectActions = Some (map js [''s3:GetObject'', ''s3:PutObject'', ''s3:DeleteObject'', ''s3:AbortMultipartUpload'',
             ''s3:ListBucketMultipartUploads''])\<rparr>)"

fun some_suffix :: "(jstr \<Rightarrow> bool) \<Rightarrow> jstr \<Rightarrow> bool" where
  "some_suffix P [] = P []"
| "some_suffix P (c # s) = (P (c # s) \<or> some_suffix P s)"

text \<open>\<open>/:table\/ghost-ark-[^/:]+-receipts(?:$|[/*])/\<close>.\<close>

definition receipt_table_at :: "jstr \<Rightarrow> bool" where
  "receipt_table_at s \<longleftrightarrow>
     startsWith s (js '':table/ghost-ark-'') \<and>
     (let r = drop 17 s in
      list_ex (\<lambda>j. startsWith (drop j r) (js ''-receipts'')
                   \<and> (case drop (j + 9) r of [] \<Rightarrow> True | c # _ \<Rightarrow> c = 47 \<or> c = 42))
        [1 ..< Suc (length (takeWhile (\<lambda>c. c \<noteq> 47 \<and> c \<noteq> 58) r))])"

definition isReceiptLedgerResource :: "jstr \<Rightarrow> bool" where
  "isReceiptLedgerResource = some_suffix receipt_table_at"

definition isTenantS3Object :: "jstr \<Rightarrow> TenantBoundaryModel \<Rightarrow> bool" where
  "isTenantS3Object r b = list_ex (startsWith r) (tb_allowedS3Prefixes b)"

definition isS3BucketRoot :: "jstr \<Rightarrow> TenantBoundaryModel \<Rightarrow> bool" where
  "isS3BucketRoot r b \<longleftrightarrow> r \<in> set (map (replace_once tenants_end_at [] []) (tb_allowedS3Prefixes b))"

definition context_strings :: "ModeledRequestState \<Rightarrow> string \<Rightarrow> jstr list" where
  "context_strings rq k =
     (case rq_context rq of
        None \<Rightarrow> []
      | Some ctx \<Rightarrow> (case map_of ctx (js k) of Some (CArr xs) \<Rightarrow> xs | Some (CStr s) \<Rightarrow> [s] | _ \<Rightarrow> []))"

definition contextHasAllowedLeadingKey :: "ModeledRequestState \<Rightarrow> TenantBoundaryModel \<Rightarrow> bool" where
  "contextHasAllowedLeadingKey rq b =
     (let values = context_strings rq ''dynamodb:LeadingKeys'' in
      values \<noteq> [] \<and> list_all (\<lambda>x. x \<in> set (tb_allowedDynamoLeadingKeys b)) values)"

definition contextHasAllowedS3Prefix :: "ModeledRequestState \<Rightarrow> TenantBoundaryModel \<Rightarrow> bool" where
  "contextHasAllowedS3Prefix rq b =
     (let values = context_strings rq ''s3:prefix''; home = js ''tenants/'' @ tb_tenantSlug b in
      values \<noteq> [] \<and> list_all (\<lambda>x. x = home \<or> startsWith x (home @ js ''/'')) values)"

definition isForbiddenReceiptLedgerAction :: "(jstr \<Rightarrow> jstr) \<Rightarrow> jstr \<Rightarrow> TenantBoundaryModel \<Rightarrow> bool" where
  "isForbiddenReceiptLedgerAction lower a b =
     (let normalized = lower a in
      if hasWildcard normalized then list_ex (\<lambda>f. actionMatches lower f normalized) (tb_forbiddenReceiptLedgerActions b)
      else list_ex (\<lambda>f. lower f = normalized) (filter (\<lambda>f. \<not> hasWildcard f) (tb_forbiddenReceiptLedgerActions b)))"

definition isAllowedReceiptLedgerAction :: "(jstr \<Rightarrow> jstr) \<Rightarrow> jstr \<Rightarrow> TenantBoundaryModel \<Rightarrow> bool" where
  "isAllowedReceiptLedgerAction lower a b = list_ex (\<lambda>x. actionMatches lower x a) (tb_allowedReceiptLedgerActions b)"

definition isDynamoAction :: "(jstr \<Rightarrow> jstr) \<Rightarrow> jstr \<Rightarrow> bool" where
  "isDynamoAction lower a = startsWith (lower a) (js ''dynamodb:'')"

definition isS3Action :: "(jstr \<Rightarrow> jstr) \<Rightarrow> jstr \<Rightarrow> bool" where
  "isS3Action lower a = startsWith (lower a) (js ''s3:'')"

definition isWorkflowAction :: "(jstr \<Rightarrow> jstr) \<Rightarrow> jstr \<Rightarrow> bool" where
  "isWorkflowAction lower a =
     (let n = lower a in startsWith n (js ''athena:'') \<or> startsWith n (js ''glue:'') \<or> startsWith n (js ''lakeformation:''))"

definition isTenantLambdaOrLogs :: "(jstr \<Rightarrow> jstr) \<Rightarrow> jstr \<Rightarrow> jstr \<Rightarrow> TenantBoundaryModel \<Rightarrow> bool" where
  "isTenantLambdaOrLogs lower a r b \<longleftrightarrow>
     lower a \<in> set (map js [''lambda:invokefunction'', ''logs:createlogstream'', ''logs:putlogevents'', ''logs:describelogstreams''])
     \<and> js_includes r (js ''ghost-ark-'') \<and> js_includes r (tb_tenantSlug b)"

definition tenantWorkflowActions :: "jstr list" where
  "tenantWorkflowActions = map js [''athena:StartQueryExecution'', ''athena:GetQueryExecution'', ''athena:GetQueryResults'',
     ''glue:GetDatabase'', ''glue:GetTable'', ''glue:GetPartitions'', ''glue:CreatePartition'', ''glue:BatchCreatePartition'',
     ''lakeformation:GetDataAccess'']"

definition verdict_of :: "bool \<Rightarrow> ModeledPolicyDecision" where
  "verdict_of b = (if b then Allow else Deny)"

definition evaluateTenantBoundary ::
    "(jstr \<Rightarrow> jstr) \<Rightarrow> TenantBoundaryModel \<Rightarrow> ModeledRequestState \<Rightarrow> ModeledPolicyDecision" where
  "evaluateTenantBoundary lower b rq =
     (if rq_slug rq \<noteq> tb_tenantSlug b then Deny
      else if isS3Action lower (rq_action rq) then
        (if rq_action rq = js ''s3:ListBucket''
         then verdict_of (isS3BucketRoot (rq_resource rq) b \<and> contextHasAllowedS3Prefix rq b)
         else verdict_of (isTenantS3Object (rq_resource rq) b \<and>
                list_ex (\<lambda>a. actionMatches lower a (rq_action rq))
                  (case tb_allowedS3ObjectActions b of Some xs \<Rightarrow> xs | None \<Rightarrow> map js [''s3:GetObject'', ''s3:PutObject''])))
      else if isDynamoAction lower (rq_action rq) then
        (if \<not> contextHasAllowedLeadingKey rq b then Deny
         else if isReceiptLedgerResource (rq_resource rq)
         then verdict_of (\<not> isForbiddenReceiptLedgerAction lower (rq_action rq) b \<and> isAllowedReceiptLedgerAction lower (rq_action rq) b)
         else verdict_of (js_includes (rq_resource rq) (js '':table/ghost-ark-'') \<and>
                list_ex (\<lambda>a. actionMatches lower a (rq_action rq))
                  (map js [''dynamodb:GetItem'', ''dynamodb:Query'', ''dynamodb:PutItem'', ''dynamodb:UpdateItem''])))
      else if isWorkflowAction lower (rq_action rq) then
        verdict_of (tb_allowedReadOnly b = Some True \<and> list_ex (\<lambda>a. actionMatches lower a (rq_action rq)) tenantWorkflowActions)
      else if rq_action rq = js ''iam:PassRole'' then
        verdict_of (js_includes (rq_resource rq) (tb_tenantSlug b)
                    \<and> (case rq_context rq of None \<Rightarrow> False | Some ctx \<Rightarrow> map_of ctx (js ''iam:PassedToService'') \<noteq> None))
      else verdict_of (isTenantLambdaOrLogs lower (rq_action rq) (rq_resource rq) b))"

subsection \<open>Substitution and patterns on plain texts\<close>

lemma expand_plain: "36 \<notin> set rep \<Longrightarrow> expand before matched after rep = rep"
  by (induction before matched after rep rule: expand.induct) auto

lemma slug_variable_Cons: "\<exists>r. slug_variable = 36 # r"
  by (simp add: slug_variable_def js_Cons cu_def)

lemma replace_every_prefix:
  assumes "36 \<notin> set pre"
  shows "replace_every slug_variable rep b (pre @ s) = pre @ replace_every slug_variable rep (rev pre @ b) s"
  using assms
proof (induction pre arbitrary: b)
  case (Cons c pre)
  have "\<not> startsWith (c # pre @ s) slug_variable"
    using slug_variable_Cons Cons.prems by (metis append_Cons list.inject list.set_intros(1) startsWith_iff)
  then show ?case using Cons by (simp add: replace_every.simps [of slug_variable rep b "c # pre @ s"])
qed simp

lemma replace_every_plain: "36 \<notin> set s \<Longrightarrow> replace_every slug_variable rep b s = s"
  using replace_every_prefix [of s rep b "[]"] by (simp add: replace_every.simps [of _ _ _ "[]"])

lemma replace_every_variable:
  "replace_every slug_variable rep b (slug_variable @ s)
     = expand (rev b) slug_variable s rep @ replace_every slug_variable rep (rev slug_variable @ b) s"
proof -
  have "slug_variable \<noteq> []" using slug_variable_Cons by auto
  then show ?thesis by (simp add: replace_every.simps [of slug_variable rep b "slug_variable @ s"])
qed

lemma substitute_plain: "36 \<notin> set s \<Longrightarrow> substitutePrincipalTag s rq = s"
  by (simp add: substitutePrincipalTag_def replace_every_plain)

lemma substitute_variable:
  assumes "36 \<notin> set pre" "36 \<notin> set post" "36 \<notin> set (rq_slug rq)"
  shows "substitutePrincipalTag (pre @ slug_variable @ post) rq = pre @ rq_slug rq @ post"
  using assms by (simp add: substitutePrincipalTag_def replace_every_prefix replace_every_variable replace_every_plain expand_plain)

lemma plain_text_no_special: "plain_text s \<Longrightarrow> 36 \<notin> set s \<and> 42 \<notin> set s \<and> 63 \<notin> set s"
  using plain_unit_not by (fastforce simp: plain_text_def list_all_iff)

lemma glob_literal:
  "42 \<notin> set ps \<Longrightarrow> 63 \<notin> set ps \<Longrightarrow> glob (ps @ qs) v \<longleftrightarrow> (\<exists>w. v = ps @ w \<and> glob qs w)"
proof (induction ps arbitrary: v)
  case (Cons p ps)
  then show ?case by (cases v) auto
qed simp

lemma points_Cons: "c < 128 \<Longrightarrow> points (c # s) = uint c # points s"
  by (cases s) (auto simp: word_less_def)

lemma points_ascii: "list_all is_ascii pre \<Longrightarrow> points (pre @ s) = map uint pre @ points s"
  by (induction pre) (auto simp: points_Cons is_ascii_def)

lemma points_head:
  assumes "points v = uint c # w" "c < 128"
  shows "\<exists>r. v = c # r \<and> points r = w"
  using assms by (cases v rule: points.cases) (auto simp: word_less_def word_uint_eq_iff split: if_splits)

lemma points_ascii_prefix:
  assumes "points v = map uint pre @ w" "list_all is_ascii pre"
  shows "\<exists>r. v = pre @ r \<and> points r = w"
  using assms
proof (induction pre arbitrary: v)
  case (Cons c pre)
  then obtain r where "v = c # r" "points r = map uint pre @ w" using points_head [of v c] by (auto simp: is_ascii_def)
  then show ?case using Cons by fastforce
qed simp

lemma plain_text_ascii: "plain_text s \<Longrightarrow> list_all is_ascii s"
  using plain_unit_ascii by (auto simp: plain_text_def list_all_iff is_ascii_def)

lemma matchesPattern_plain: "plain_text p \<Longrightarrow> matchesPattern p v \<longleftrightarrow> p = v"
  using plain_text_no_special by (auto simp: matchesPattern_def hasWildcard_def)

lemma no_wildcard_points: "42 \<notin> set s \<Longrightarrow> 63 \<notin> set s \<Longrightarrow> 42 \<notin> uint ` set s \<and> 63 \<notin> uint ` set (s :: jstr)"
proof -
  have "uint x = 42 \<longleftrightarrow> x = 42" "uint x = 63 \<longleftrightarrow> x = 63" for x :: code_unit by (simp_all add: word_uint_eq_iff)
  then show "42 \<notin> set s \<Longrightarrow> 63 \<notin> set s \<Longrightarrow> 42 \<notin> uint ` set s \<and> 63 \<notin> uint ` set s" by (metis imageE)
qed

lemma matchesPattern_prefix:
  assumes "plain_text pre" "matchesPattern (pre @ q) v"
  shows "startsWith v pre"
proof (cases "pre @ q = v")
  case False
  have ascii: "list_all is_ascii pre" using plain_text_ascii [OF assms(1)] .
  from False assms(2) have "glob (map uint pre @ points q) (points v)"
    by (simp add: matchesPattern_def points_ascii [OF ascii])
  then obtain w where "points v = map uint pre @ w"
    using glob_literal [of "map uint pre"] plain_text_no_special [OF assms(1)] no_wildcard_points [of pre] by auto
  then show ?thesis using points_ascii_prefix [OF _ ascii] startsWith_iff by blast
qed auto

text \<open>The star alone matches every text on one line.\<close>

lemma glob_star: "glob [42] v \<longleftrightarrow> list_all (\<lambda>c. c \<notin> set line_terminators) v"
  by (induction v) auto

lemma points_no_terminator:
  "list_all is_dot s \<Longrightarrow> list_all (\<lambda>c. c \<notin> set line_terminators) (points s)"
  by (induction s rule: points.induct) (auto simp: is_dot_def line_terminators_def)

lemma matchesPattern_star: "list_all is_dot v \<Longrightarrow> matchesPattern (js ''*'') v"
  using points_no_terminator [of v] by (simp add: matchesPattern_def hasWildcard_def js_Cons cu_def glob_star del: glob.simps)

subsection \<open>Deny overrides allow\<close>

definition statement_applies :: "(jstr \<Rightarrow> jstr) \<Rightarrow> ModeledRequestState \<Rightarrow> string \<Rightarrow> jsval \<Rightarrow> bool" where
  "statement_applies lower rq effect v \<longleftrightarrow>
     (\<exists>st. as_record v = Some st \<and> statementMatches lower st rq = Inr True \<and> fld st ''Effect'' = JStr (js effect))"

definition statement_evaluates :: "(jstr \<Rightarrow> jstr) \<Rightarrow> ModeledRequestState \<Rightarrow> jsval \<Rightarrow> bool" where
  "statement_evaluates lower rq v \<longleftrightarrow> (\<exists>st b. as_record v = Some st \<and> statementMatches lower st rq = Inr b)"

lemma evaluate_statements_decision:
  "list_all (statement_evaluates lower rq) vs \<Longrightarrow>
   evaluate_statements lower allowed vs rq =
     Inr (if list_ex (statement_applies lower rq ''Deny'') vs then Deny
          else if allowed \<or> list_ex (statement_applies lower rq ''Allow'') vs then Allow else ImplicitDeny)"
proof (induction vs arbitrary: allowed)
  case (Cons v vs)
  then obtain st b where st: "as_record v = Some st" "statementMatches lower st rq = Inr b" by (auto simp: statement_evaluates_def)
  then show ?case using Cons by (cases b) (auto simp: statement_applies_def)
qed simp

lemma allowed_by_statement:
  "evaluate_statements lower allowed vs rq = Inr Allow \<Longrightarrow> allowed \<or> (\<exists>v\<in>set vs. statement_applies lower rq ''Allow'' v)"
proof (induction vs arbitrary: allowed)
  case (Cons v vs)
  then show ?case by (fastforce simp: statement_applies_def split: option.splits sum.splits bool.splits if_splits)
qed (simp split: if_splits)

lemma denied_by_statement:
  assumes "statement_applies lower rq ''Deny'' v"
  shows "evaluate_statements lower allowed (v # vs) rq = Inr Deny"
  using assms by (auto simp: statement_applies_def)

end
