(* ===== verification/Sandbox_Policy.thy ===== *)
theory Sandbox_Policy
  imports Iam_Policy
begin

text \<open>
  The tenant sandbox policy, \<open>iamPolicies.ts\<close>, \<open>invariants.ts\<close> and \<open>lfPolicies.ts\<close> of \<open>packages/policy-compiler/src\<close>: the IAM
  document compiled for a tenant, the invariants it is checked for, and the Lake Formation plan. The main result is that the compiled
  document keeps every request of the tenant inside the tenant boundary.
\<close>

subsection \<open>The invariants of a sandbox policy\<close>

record PolicyInvariantViolation =
  piv_code :: string
  piv_sid :: "jstr option"
  piv_subject :: "jstr list"

definition statement_sid :: "(jstr \<times> jsval) list \<Rightarrow> jstr option" where
  "statement_sid st = (case fld st ''Sid'' of JStr s \<Rightarrow> Some s | _ \<Rightarrow> None)"

definition violation :: "string \<Rightarrow> (jstr \<times> jsval) list \<Rightarrow> jstr list \<Rightarrow> PolicyInvariantViolation" where
  "violation code st subject = \<lparr>piv_code = code, piv_sid = statement_sid st, piv_subject = subject\<rparr>"

text \<open>\<open>condition?.[conditionKey]?.[attribute]\<close>; a primitive has none of the members that are asked for.\<close>

definition member_value :: "jsval \<Rightarrow> string \<Rightarrow> jsval" where
  "member_value v k = (case as_record v of None \<Rightarrow> JUndefined | Some es \<Rightarrow> fld es k)"

definition conditionValue :: "(jstr \<times> jsval) list \<Rightarrow> string \<Rightarrow> string \<Rightarrow> jstr list" where
  "conditionValue st conditionKey attribute = asArray (member_value (member_value (fld st ''Condition'') conditionKey) attribute)"

definition RECEIPT_LEDGER_FORBIDDEN_ACTIONS :: "jstr list" where
  "RECEIPT_LEDGER_FORBIDDEN_ACTIONS = map js [''dynamodb:BatchWriteItem'', ''dynamodb:DeleteItem'', ''dynamodb:PartiQLDelete'',
     ''dynamodb:PartiQLUpdate'', ''dynamodb:TransactWriteItems'', ''dynamodb:UpdateItem'', ''dynamodb:*'', ''*'']"

definition forbidden_ledger_action :: "(jstr \<Rightarrow> jstr) \<Rightarrow> jstr \<Rightarrow> bool" where
  "forbidden_ledger_action lower a \<longleftrightarrow>
     a \<in> set RECEIPT_LEDGER_FORBIDDEN_ACTIONS \<or>
     (let n = lower a in
      n = js ''*'' \<or> n = js ''dynamodb:*'' \<or>
      list_ex (\<lambda>p. startsWith n (js ''dynamodb:'' @ js p))
        [''batchwrite'', ''delete'', ''partiqldelete'', ''partiqlupdate'', ''transactwrite'', ''update''])"

text \<open>\<open>/-receipts(?:$|\/)/\<close>.\<close>

definition names_receipts :: "jstr \<Rightarrow> bool" where
  "names_receipts = some_suffix (\<lambda>s. startsWith s (js ''-receipts'') \<and> (case drop 9 s of [] \<Rightarrow> True | c # _ \<Rightarrow> c = 47))"

definition statement_violations ::
    "(jstr \<Rightarrow> jstr) \<Rightarrow> jstr \<Rightarrow> (jstr \<times> jsval) list \<Rightarrow> PolicyInvariantViolation list" where
  "statement_violations lower expectedReceiptArn st =
     (let allow = (fld st ''Effect'' = JStr (js ''Allow''));
          actions = asArray (fld st ''Action'');
          resources = asArray (fld st ''Resource'');
          referencesReceiptTable = list_ex (\<lambda>r. r = expectedReceiptArn \<or> names_receipts r) resources in
      (if allow \<and> (has_key st ''NotAction'' \<or> has_key st ''NotResource'') then [violation ''allow_not_action_or_resource'' st []] else []) @
      (if allow \<and> list_ex hasWildcard actions then [violation ''allow_wildcard_action'' st []] else []) @
      (if allow \<and> js ''*'' \<in> set resources \<and>
          \<not> list_all (\<lambda>a. startsWith a (js ''athena:'') \<or> startsWith a (js ''glue:'') \<or> startsWith a (js ''lakeformation:'')) actions
       then [violation ''allow_wildcard_resource'' st []] else []) @
      (if allow \<and> referencesReceiptTable
       then (let forbidden = filter (forbidden_ledger_action lower) actions in
             if forbidden \<noteq> [] then [violation ''receipt_ledger_mutation'' st forbidden] else []) @
            (if slug_variable \<notin> set (conditionValue st ''ForAllValues:StringEquals'' ''dynamodb:LeadingKeys'')
             then [violation ''receipt_ledger_leading_keys'' st []] else [])
       else []) @
      map (\<lambda>r. violation ''s3_cross_tenant_prefix'' st [r])
        (filter (\<lambda>r. \<not> js_includes r (js ''/tenants/'' @ slug_variable @ js ''/''))
          (filter (\<lambda>r. js_includes r (js '':s3:::'') \<and> js_includes r (js ''/tenants/'')) resources)) @
      (if statement_sid st = Some (js ''AllowTenantScopedBucketListing'') \<and>
          \<not> list_all (\<lambda>p. p = js ''tenants/'' @ slug_variable \<or> p = js ''tenants/'' @ slug_variable @ js ''/*'')
              (conditionValue st ''StringLike'' ''s3:prefix'')
       then [violation ''s3_list_prefix_escape'' st []] else []))"

definition global_deny :: "(jstr \<times> jsval) list \<Rightarrow> bool" where
  "global_deny st \<longleftrightarrow> fld st ''Effect'' = JStr (js ''Deny'') \<and> js ''*'' \<in> set (asArray (fld st ''Action'')) \<and> js ''*'' \<in> set (asArray (fld st ''Resource''))"

text \<open>The violations of a document of plain statements; the policy is accepted when there are none.\<close>

definition verifyTenantSandboxPolicyInvariants ::
    "(jstr \<Rightarrow> jstr) \<Rightarrow> (jstr \<times> jsval) list list \<Rightarrow> TenantNamespace \<Rightarrow> jstr \<Rightarrow> jstr \<Rightarrow> PolicyInvariantViolation list" where
  "verifyTenantSandboxPolicyInvariants lower statements ns accountId region =
     (let expectedReceiptArn = js ''arn:aws:dynamodb:'' @ region @ js '':'' @ accountId @ js '':table/ghost-ark-'' @ tn_stage ns @ js ''-receipts'' in
      (if list_ex global_deny statements then []
       else [\<lparr>piv_code = ''missing_global_deny'', piv_sid = None, piv_subject = []\<rparr>]) @
      concat (map (statement_violations lower expectedReceiptArn) statements))"

subsection \<open>The compiled document\<close>

record TenantSandboxPolicyInput = TenantNamespaceInput +
  si_accountId :: jstr
  si_allowedRegions :: "jstr list"
  si_tenantServiceRoleArn :: jstr
  si_permissionsBoundaryArn :: "jstr option"

record CompiledIamPolicy =
  ci_name :: jstr
  ci_document :: IamPolicyDocument
  ci_hash :: jstr

datatype sandbox_error =
    NamespaceRejected namespace_error
  | InvariantsViolated "PolicyInvariantViolation list"
  | DocumentNotCanonical canonical_error

definition strs :: "jstr list \<Rightarrow> jsval" where
  "strs xs = JArr (map (\<lambda>s. Some (JStr s)) xs)"

definition jobj :: "(string \<times> jsval) list \<Rightarrow> jsval" where
  "jobj es = JObj (map (\<lambda>(k, v). (js k, v)) es)"

definition iam_statement :: "string \<Rightarrow> string \<Rightarrow> jsval \<Rightarrow> jsval \<Rightarrow> (string \<times> string \<times> jsval) option \<Rightarrow> (jstr \<times> jsval) list" where
  "iam_statement sid effect action resource cond =
     [(js ''Sid'', JStr (js sid)), (js ''Effect'', JStr (js effect)), (js ''Action'', action), (js ''Resource'', resource)] @
     (case cond of None \<Rightarrow> [] | Some (opr, key, v) \<Rightarrow> [(js ''Condition'', jobj [(opr, jobj [(key, v)])])])"

definition escalation_actions :: "jstr list" where
  "escalation_actions = map js [''iam:CreateUser'', ''iam:CreateAccessKey'', ''iam:AttachUserPolicy'', ''iam:AttachGroupPolicy'',
     ''iam:AttachRolePolicy'', ''iam:PutUserPolicy'', ''iam:PutGroupPolicy'', ''iam:PutRolePolicy'', ''iam:CreatePolicyVersion'',
     ''iam:SetDefaultPolicyVersion'', ''iam:DeletePermissionsBoundary'', ''organizations:*'', ''account:*'']"

definition object_actions :: "jstr list" where
  "object_actions = map js [''s3:GetObject'', ''s3:PutObject'', ''s3:DeleteObject'', ''s3:AbortMultipartUpload'', ''s3:ListBucketMultipartUploads'']"

definition ledger_actions :: "jstr list" where
  "ledger_actions = map js [''dynamodb:GetItem'', ''dynamodb:Query'', ''dynamodb:PutItem'']"

definition bucket_arn :: "jstr \<Rightarrow> jstr" where
  "bucket_arn b = js ''arn:aws:s3:::'' @ b"

definition buckets :: "'a TenantNamespaceInput_scheme \<Rightarrow> jstr list" where
  "buckets inp = [ti_rawBucket inp, ti_curatedBucket inp, ti_exportBucket inp, ti_resultsBucket inp]"

definition table_arn :: "('a) TenantSandboxPolicyInput_scheme \<Rightarrow> string \<Rightarrow> jstr" where
  "table_arn inp suffix =
     js ''arn:aws:dynamodb:'' @ ti_region inp @ js '':'' @ si_accountId inp @ js '':table/ghost-ark-'' @ ti_stage inp @ js suffix"

definition leading_keys :: "(string \<times> string \<times> jsval) option" where
  "leading_keys = Some (''ForAllValues:StringEquals'', ''dynamodb:LeadingKeys'', strs [slug_variable])"

definition lambda_arn :: "('a) TenantSandboxPolicyInput_scheme \<Rightarrow> jstr" where
  "lambda_arn inp = js ''arn:aws:lambda:'' @ ti_region inp @ js '':'' @ si_accountId inp @ js '':function:ghost-ark-'' @ ti_stage inp @ js ''-''"

definition logs_arn :: "('a) TenantSandboxPolicyInput_scheme \<Rightarrow> jstr" where
  "logs_arn inp = js ''arn:aws:logs:'' @ ti_region inp @ js '':'' @ si_accountId inp @ js '':log-group:/aws/lambda/ghost-ark-'' @ ti_stage inp @ js ''-''"

definition deny_statements :: "('a) TenantSandboxPolicyInput_scheme \<Rightarrow> (jstr \<times> jsval) list list" where
  "deny_statements inp =
     [iam_statement ''DenyOutsideApprovedRegions'' ''Deny'' (JStr (js ''*'')) (JStr (js ''*''))
        (Some (''StringNotEquals'', ''aws:RequestedRegion'',
               strs (if si_allowedRegions inp \<noteq> [] then si_allowedRegions inp else [ti_region inp]))),
      iam_statement ''DenyIdentityAndBoundaryEscalation'' ''Deny'' (strs escalation_actions) (JStr (js ''*'')) None,
      iam_statement ''RequireTenantPrincipalTag'' ''Deny'' (JStr (js ''*'')) (JStr (js ''*''))
        (Some (''Null'', ''aws:PrincipalTag/slug'', JStr (js ''true'')))]"

definition object_statement :: "('a) TenantSandboxPolicyInput_scheme \<Rightarrow> (jstr \<times> jsval) list" where
  "object_statement inp = iam_statement ''AllowTenantScopedS3EvidenceAccess'' ''Allow'' (strs object_actions)
     (strs (map (\<lambda>b. bucket_arn b @ js ''/tenants/'' @ slug_variable @ js ''/*'') (buckets inp))) None"

definition listing_statement :: "('a) TenantSandboxPolicyInput_scheme \<Rightarrow> (jstr \<times> jsval) list" where
  "listing_statement inp = iam_statement ''AllowTenantScopedBucketListing'' ''Allow'' (strs [js ''s3:ListBucket'']) (strs (map bucket_arn (buckets inp)))
     (Some (''StringLike'', ''s3:prefix'', strs [js ''tenants/'' @ slug_variable @ js ''/*'', js ''tenants/'' @ slug_variable]))"

definition ledger_statement :: "('a) TenantSandboxPolicyInput_scheme \<Rightarrow> string \<Rightarrow> jstr list \<Rightarrow> string \<Rightarrow> (jstr \<times> jsval) list" where
  "ledger_statement inp sid actions suffix = iam_statement sid ''Allow'' (strs actions) (strs [table_arn inp suffix]) leading_keys"

definition workflow_statement :: "(jstr \<times> jsval) list" where
  "workflow_statement = iam_statement ''AllowGlueAthenaTenantWorkflows'' ''Allow'' (strs tenantWorkflowActions) (JStr (js ''*''))
     (Some (''StringEquals'', ''aws:PrincipalTag/slug'', JStr slug_variable))"

definition role_statement :: "('a) TenantSandboxPolicyInput_scheme \<Rightarrow> (jstr \<times> jsval) list" where
  "role_statement inp = iam_statement ''AllowServiceBoundPassRole'' ''Allow'' (JStr (js ''iam:PassRole'')) (JStr (si_tenantServiceRoleArn inp))
     (Some (''StringEquals'', ''iam:PassedToService'', strs (map js [''glue.amazonaws.com'', ''lambda.amazonaws.com'', ''states.amazonaws.com''])))"

definition function_statement :: "('a) TenantSandboxPolicyInput_scheme \<Rightarrow> (jstr \<times> jsval) list" where
  "function_statement inp = iam_statement ''AllowTenantLambdaAndLogs'' ''Allow''
     (strs (map js [''lambda:InvokeFunction'', ''logs:CreateLogStream'', ''logs:PutLogEvents'', ''logs:DescribeLogStreams'']))
     (strs [lambda_arn inp @ slug_variable @ js ''-*'', logs_arn inp @ slug_variable @ js ''-*:*'']) None"

definition allow_statements :: "('a) TenantSandboxPolicyInput_scheme \<Rightarrow> (jstr \<times> jsval) list list" where
  "allow_statements inp =
     [object_statement inp,
      listing_statement inp,
      ledger_statement inp ''AllowTenantReceiptLedgerAccess'' ledger_actions ''-receipts'',
      ledger_statement inp ''AllowTenantClaimLedgerAccess'' (ledger_actions @ [js ''dynamodb:UpdateItem'']) ''-claims'',
      ledger_statement inp ''AllowTenantLineageLedgerAccess'' ledger_actions ''-lineage'',
      workflow_statement,
      role_statement inp,
      function_statement inp]"

definition boundary_statements :: "('a) TenantSandboxPolicyInput_scheme \<Rightarrow> (jstr \<times> jsval) list list" where
  "boundary_statements inp =
     (case si_permissionsBoundaryArn inp of
        None \<Rightarrow> []
      | Some arn \<Rightarrow>
          if arn = [] then []
          else [iam_statement ''DenyRoleCreationWithoutBoundary'' ''Deny'' (strs (map js [''iam:CreateRole'', ''iam:PutRolePermissionsBoundary'']))
                  (JStr (js ''*'')) (Some (''StringNotEquals'', ''iam:PermissionsBoundary'', JStr arn))])"

definition sandbox_statements :: "('a) TenantSandboxPolicyInput_scheme \<Rightarrow> (jstr \<times> jsval) list list" where
  "sandbox_statements inp = deny_statements inp @ allow_statements inp @ boundary_statements inp"

definition sandbox_document :: "('a) TenantSandboxPolicyInput_scheme \<Rightarrow> IamPolicyDocument" where
  "sandbox_document inp = \<lparr>doc_Version = js ''2012-10-17'', doc_Statement = map JObj (sandbox_statements inp)\<rparr>"

definition document_json :: "IamPolicyDocument \<Rightarrow> jsval" where
  "document_json d = jobj [(''Version'', JStr (doc_Version d)), (''Statement'', JArr (map Some (doc_Statement d)))]"

definition compileTenantSandboxPolicy ::
    "(jstr \<Rightarrow> jstr) \<Rightarrow> (jstr \<Rightarrow> jstr) \<Rightarrow> ('a) TenantSandboxPolicyInput_scheme \<Rightarrow> sandbox_error + CompiledIamPolicy" where
  "compileTenantSandboxPolicy lower sha inp =
     (case compileTenantNamespace lower inp of
        Inl e \<Rightarrow> Inl (NamespaceRejected e)
      | Inr ns \<Rightarrow>
          let violations = verifyTenantSandboxPolicyInvariants lower (sandbox_statements inp) ns (si_accountId inp) (ti_region inp) in
          if violations \<noteq> [] then Inl (InvariantsViolated violations)
          else case canonicalSha256Hex sha (document_json (sandbox_document inp)) of
            Inl e \<Rightarrow> Inl (DocumentNotCanonical e)
          | Inr h \<Rightarrow> Inr \<lparr>ci_name = js ''ghost-ark-'' @ tn_stage ns @ js ''-'' @ tn_tenantSlug ns @ js ''-sandbox'',
                           ci_document = sandbox_document inp, ci_hash = h\<rparr>)"

subsection \<open>When a statement applies\<close>

lemma asArray_strs [simp]: "asArray (strs xs) = xs"
  by (induction xs) (simp_all add: strs_def)

lemma asArray_JStr [simp]: "asArray (JStr s) = [s]"
  by simp

lemma asConditionValues_strs [simp]: "asConditionValues (strs xs) = xs"
  by (induction xs) (simp_all add: strs_def)

definition condition_holds :: "(string \<times> string \<times> jsval) option \<Rightarrow> ModeledRequestState \<Rightarrow> bool" where
  "condition_holds cond rq = (case cond of None \<Rightarrow> True | Some (opr, key, v) \<Rightarrow> entry_holds (js opr) (js key, v) rq)"

definition known_operator :: "(string \<times> string \<times> jsval) option \<Rightarrow> bool" where
  "known_operator cond = (case cond of None \<Rightarrow> True | Some (opr, key, v) \<Rightarrow> js opr \<in> set allowedConditionOperators)"

lemma iam_statement_fields [simp]:
  "fld (iam_statement sid eff act res cond) ''Sid'' = JStr (js sid)"
  "fld (iam_statement sid eff act res cond) ''Effect'' = JStr (js eff)"
  "fld (iam_statement sid eff act res cond) ''Action'' = act"
  "fld (iam_statement sid eff act res cond) ''Resource'' = res"
  "\<not> has_key (iam_statement sid eff act res cond) ''NotAction''"
  "\<not> has_key (iam_statement sid eff act res cond) ''NotResource''"
  by (cases cond; auto simp: iam_statement_def fld_def has_key_def)+

lemma iam_statement_condition:
  "fld (iam_statement sid eff act res cond) ''Condition''
     = (case cond of None \<Rightarrow> JUndefined | Some (opr, key, v) \<Rightarrow> jobj [(opr, jobj [(key, v)])])"
  by (simp add: iam_statement_def fld_def split: option.splits)

lemma iam_statement_matches:
  assumes "known_operator cond"
  shows "statementMatches lower (iam_statement sid eff act res cond) rq =
    Inr (list_ex (\<lambda>a. actionMatches lower a (rq_action rq)) (asArray act)
         \<and> list_ex (\<lambda>r. resourceMatches r (rq_resource rq) rq) (asArray res) \<and> condition_holds cond rq)"
proof -
  have "conditionMatches (fld (iam_statement sid eff act res cond) ''Condition'') rq = Inr (condition_holds cond rq)"
    using assms by (auto simp: iam_statement_condition conditionMatches_def condition_holds_def known_operator_def jobj_def split: option.splits)
  then show ?thesis by (auto simp: statementMatches_def Let_def)
qed

lemma iam_statement_applies:
  assumes "known_operator cond"
  shows "statement_applies lower rq effect (JObj (iam_statement sid eff act res cond)) \<longleftrightarrow>
    eff = effect \<and> (\<exists>a\<in>set (asArray act). actionMatches lower a (rq_action rq))
    \<and> (\<exists>r\<in>set (asArray res). resourceMatches r (rq_resource rq) rq) \<and> condition_holds cond rq"
  using assms by (auto simp: statement_applies_def iam_statement_matches list_ex_iff)

lemma operators_known [simp]:
  "known_operator None" "known_operator (Some (''StringNotEquals'', k, v))" "known_operator (Some (''Null'', k, v))"
  "known_operator (Some (''StringLike'', k, v))" "known_operator (Some (''StringEquals'', k, v))" "known_operator leading_keys"
  by (simp_all add: known_operator_def allowedConditionOperators_def leading_keys_def)

subsection \<open>Actions\<close>

definition low :: "string \<Rightarrow> jstr" where
  "low a = map ascii_lower (js a)"

lemma plain_lower: "plain_text s \<Longrightarrow> plain_text (map ascii_lower s)"
proof -
  have "is_plain_unit (ascii_lower c)" if "is_plain_unit c" for c
  proof (cases "is_upper c")
    case True
    then have "65 \<le> unat c" "unat c \<le> 90" by (simp_all add: is_upper_def word_le_nat_alt)
    then have "is_lower (c + 32)" by (simp add: is_lower_def word_le_nat_alt unat_word_ariths)
    then show ?thesis using True by (simp add: ascii_lower_def is_plain_unit_def js_alnum_def)
  qed (use that in \<open>simp add: ascii_lower_def\<close>)
  then show "plain_text s \<Longrightarrow> ?thesis" by (auto simp: plain_text_def list_all_iff)
qed

lemma lower_literal: "lowers_ascii lower \<Longrightarrow> plain_text (js a) \<Longrightarrow> lower (js a) = low a"
  by (simp add: lowers_ascii_def low_def plain_text_ascii)

lemma literal_action:
  assumes "lowers_ascii lower" "plain_text (js a)"
  shows "actionMatches lower (js a) x \<longleftrightarrow> lower x = low a"
  using assms plain_lower [OF assms(2)] by (auto simp: actionMatches_def lower_literal matchesPattern_plain simp flip: low_def)

lemma action_in:
  assumes "lowers_ascii lower" "list_all (\<lambda>a. plain_text (js a)) as"
  shows "(\<exists>a\<in>set (map js as). actionMatches lower a x) \<longleftrightarrow> lower x \<in> low ` set as"
  using assms by (auto simp: literal_action list_all_iff)

text \<open>The names of the actions that the allowing statements list.\<close>

abbreviation object_names :: "string list" where
  "object_names \<equiv> [''s3:GetObject'', ''s3:PutObject'', ''s3:DeleteObject'', ''s3:AbortMultipartUpload'', ''s3:ListBucketMultipartUploads'']"

abbreviation ledger_names :: "string list" where
  "ledger_names \<equiv> [''dynamodb:GetItem'', ''dynamodb:Query'', ''dynamodb:PutItem'']"

abbreviation claim_names :: "string list" where
  "claim_names \<equiv> [''dynamodb:GetItem'', ''dynamodb:Query'', ''dynamodb:PutItem'', ''dynamodb:UpdateItem'']"

abbreviation workflow_names :: "string list" where
  "workflow_names \<equiv> [''athena:StartQueryExecution'', ''athena:GetQueryExecution'', ''athena:GetQueryResults'',
     ''glue:GetDatabase'', ''glue:GetTable'', ''glue:GetPartitions'', ''glue:CreatePartition'', ''glue:BatchCreatePartition'',
     ''lakeformation:GetDataAccess'']"

abbreviation function_names :: "string list" where
  "function_names \<equiv> [''lambda:InvokeFunction'', ''logs:CreateLogStream'', ''logs:PutLogEvents'', ''logs:DescribeLogStreams'']"

lemma plain_actions:
  "list_all (\<lambda>a. plain_text (js a)) object_names"
  "list_all (\<lambda>a. plain_text (js a)) ledger_names"
  "list_all (\<lambda>a. plain_text (js a)) claim_names"
  "list_all (\<lambda>a. plain_text (js a)) workflow_names"
  "list_all (\<lambda>a. plain_text (js a)) function_names"
  "plain_text (js ''s3:ListBucket'')" "plain_text (js ''iam:PassRole'')"
  by code_simp+

lemma low_all: "list_all (\<lambda>a. P (low a)) as \<Longrightarrow> y \<in> low ` set as \<Longrightarrow> P y"
  by (auto simp: list_all_iff)

subsection \<open>The boundary of a compiled namespace\<close>

definition tenant_home :: "jstr \<Rightarrow> jstr \<Rightarrow> jstr" where
  "tenant_home bucket slug = bucket_arn bucket @ js ''/tenants/'' @ slug @ js ''/''"

lemma replace_once_prefix:
  assumes "\<And>t. m t \<noteq> None \<Longrightarrow> startsWith t (js ''/tenants/'')" and "47 \<notin> set pre"
  shows "replace_once m rep b (pre @ s) = pre @ replace_once m rep (rev pre @ b) s"
  using assms(2)
proof (induction pre arbitrary: b)
  case (Cons c pre)
  have "\<not> startsWith (c # pre @ s) (js ''/tenants/'')" using Cons.prems by (auto simp: startsWith_iff js_Cons cu_def)
  then have "m (c # pre @ s) = None" using assms(1) by blast
  then show ?case using Cons by simp
qed simp

lemma replace_once_here: "m s = Some (length s) \<Longrightarrow> s \<noteq> [] \<Longrightarrow> 36 \<notin> set rep \<Longrightarrow> replace_once m rep b s = rep"
  by (cases s) (simp_all add: expand_plain)

lemma plain_is_dot: "plain_text s \<Longrightarrow> list_all is_dot s"
proof -
  have "is_dot c" if "is_plain_unit c" for c
  proof -
    have "uint c < 128" "c \<noteq> 10" "c \<noteq> 13"
      using that plain_unit_ascii [OF that]
      by (auto simp: word_less_def is_plain_unit_def js_alnum_def is_lower_def is_upper_def is_digit_def js_def cu_def)
    then show ?thesis by (auto simp: is_dot_def line_terminators_def word_uint_eq_iff)
  qed
  then show "plain_text s \<Longrightarrow> ?thesis" by (auto simp: plain_text_def list_all_iff)
qed

lemma plain_literals [simp]:
  "plain_text (js ''/tenants/'')" "plain_text (js ''tenants/'')" "plain_text (js ''/'')" "plain_text (js ''arn:aws:s3:::'')"
  "plain_text (js ''arn:aws:dynamodb:'')" "plain_text (js '':'')" "plain_text (js '':table/ghost-ark-'')"
  "plain_text (js ''-receipts'')" "plain_text (js ''-claims'')" "plain_text (js ''-lineage'')" "plain_text (js ''-'')"
  "plain_text (js ''arn:aws:lambda:'')" "plain_text (js '':function:ghost-ark-'')"
  "plain_text (js ''arn:aws:logs:'')" "plain_text (js '':log-group:/aws/lambda/ghost-ark-'')"
  by code_simp+

lemma bucket_arn_plain:
  assumes "bucketNamePattern b"
  shows "plain_text (bucket_arn b)" "47 \<notin> set (bucket_arn b)"
proof -
  show "plain_text (bucket_arn b)" using bucket_plain [OF assms] by (simp add: bucket_arn_def)
  show "47 \<notin> set (bucket_arn b)" using bucket_plain [OF assms] by (simp add: bucket_arn_def js_def cu_def)
qed

lemma take_slug_segment: "47 \<notin> set s \<Longrightarrow> takeWhile (\<lambda>c. c \<noteq> 47) (s @ 47 # t) = s \<and> dropWhile (\<lambda>c. c \<noteq> 47) (s @ 47 # t) = 47 # t"
  by (induction s) auto

lemma slash: "js ''/'' = [47]"
  by (simp add: js_def cu_def)

lemma drop_tenants: "drop 9 (js ''/tenants/'' @ s) = s"
  by (simp add: js_def)

lemma home_uri:
  assumes b: "bucketNamePattern b" and slug: "tenantSlugPattern slug" and part: "plain_text (js part)"
  shows "s3UriToArnPrefix (s3_prefix b slug part) = Inr (tenant_home b slug @ js part @ js ''/'')"
proof -
  let ?key = "js ''tenants/'' @ slug @ js ''/'' @ js part @ js ''/''"
  have slug': "plain_text slug" using slug slug_between_plain by (simp add: tenantSlugPattern_def)
  have uri: "s3_prefix b slug part = js ''s3://'' @ b @ 47 # ?key" by (simp add: s3_prefix_def js_def cu_def)
  have "drop 5 (js ''s3://'' @ b @ 47 # ?key) = b @ 47 # ?key" by (simp add: js_def)
  moreover have "takeWhile (\<lambda>c. c \<noteq> 47) (b @ 47 # ?key) = b" using bucket_plain [OF b] take_slug_segment by blast
  moreover have "list_all is_dot ?key" by (rule plain_is_dot) (use slug' part in simp)
  ultimately have "s3_uri_parts (s3_prefix b slug part) = Some (b, ?key)"
    using bucket_plain [OF b] by (simp add: s3_uri_parts_def Let_def uri)
  then show ?thesis by (simp add: s3UriToArnPrefix_def tenant_home_def bucket_arn_def js_def)
qed

lemma home_root:
  assumes b: "bucketNamePattern b" and slug: "tenantSlugPattern slug" and part: "plain_text (js part)"
  shows "tenant_root slug (tenant_home b slug @ js part @ js ''/'') = tenant_home b slug"
proof -
  let ?tail = "js ''/tenants/'' @ slug @ js ''/'' @ js part @ js ''/''"
  have slug': "plain_text slug" "slug \<noteq> []" "47 \<notin> set slug" using slug slug_between_plain by (auto simp: tenantSlugPattern_def)
  have seg: "takeWhile (\<lambda>c. c \<noteq> 47) (slug @ 47 # t) = slug" "dropWhile (\<lambda>c. c \<noteq> 47) (slug @ 47 # t) = 47 # t" for t
    using take_slug_segment [OF slug'(3)] by auto
  have "list_all is_dot (js part @ js ''/'')" by (rule plain_is_dot) (use part in simp)
  then have "tenant_tail_at ?tail = Some (length ?tail)"
    using slug'(2) seg [of "js part @ js ''/''"] by (simp add: tenant_tail_at_def Let_def drop_tenants slash)
  moreover have "startsWith t (js ''/tenants/'')" if "tenant_tail_at t \<noteq> None" for t
    using that by (auto simp: tenant_tail_at_def Let_def split: if_splits)
  moreover have "36 \<notin> set (js ''/tenants/'' @ slug @ js ''/'')"
    by (rule conjunct1 [OF plain_text_no_special]) (use slug' in simp)
  ultimately show ?thesis
    using replace_once_prefix [of tenant_tail_at "bucket_arn b"] bucket_arn_plain [OF b]
    by (simp add: tenant_root_def tenant_home_def replace_once_here)
qed

lemma home_bucket:
  assumes b: "bucketNamePattern b" and slug: "tenantSlugPattern slug"
  shows "replace_once tenants_end_at [] [] (tenant_home b slug) = bucket_arn b"
proof -
  let ?tail = "js ''/tenants/'' @ slug @ js ''/''"
  have "plain_text slug" using slug slug_between_plain by (simp add: tenantSlugPattern_def)
  then have "list_all is_dot (slug @ js ''/'')" using plain_is_dot [of "slug @ js ''/''"] by simp
  then have "tenants_end_at ?tail = Some (length ?tail)" by (simp add: tenants_end_at_def drop_tenants)
  moreover have "startsWith t (js ''/tenants/'')" if "tenants_end_at t \<noteq> None" for t
    using that by (auto simp: tenants_end_at_def split: if_splits)
  ultimately show ?thesis
    using replace_once_prefix [of tenants_end_at "bucket_arn b"] bucket_arn_plain [OF b]
    by (simp add: tenant_home_def replace_once_here)
qed

lemma parts_plain [simp]:
  "plain_text (js ''raw'')" "plain_text (js ''curated'')" "plain_text (js ''evidence-packs'')" "plain_text (js ''athena'')"
  by code_simp+

definition sandbox_boundary :: "jstr \<Rightarrow> 'a TenantNamespaceInput_scheme \<Rightarrow> TenantBoundaryModel \<Rightarrow> bool" where
  "sandbox_boundary slug inp b \<longleftrightarrow>
     tb_tenantSlug b = slug \<and> tb_allowedDynamoLeadingKeys b = [slug] \<and> tb_allowedReadOnly b = Some True
     \<and> (\<forall>x\<in>set (buckets inp). tenant_home x slug \<in> set (tb_allowedS3Prefixes b))
     \<and> tb_allowedReceiptLedgerActions b = ledger_actions
     \<and> tb_forbiddenReceiptLedgerActions b = RECEIPT_LEDGER_FORBIDDEN_ACTIONS
     \<and> tb_allowedS3ObjectActions b = Some object_actions"

lemma compiled_boundary:
  assumes ns: "compileTenantNamespace lower inp = Inr ns"
  shows "\<exists>b. buildTenantBoundaryModel (tn_tenantSlug ns) ns = Inr b \<and> sandbox_boundary (tn_tenantSlug ns) inp b"
proof -
  let ?s = "tn_tenantSlug ns"
  note c = compiled_namespace [OF ns]
  have uris: "namespace_uris ns = [s3_prefix (ti_rawBucket inp) ?s ''raw'', s3_prefix (ti_curatedBucket inp) ?s ''curated'',
      s3_prefix (ti_exportBucket inp) ?s ''evidence-packs'', s3_prefix (ti_resultsBucket inp) ?s ''athena'']" "tn_partitionKey ns = ?s"
    by (subst c(1), simp add: namespace_uris_def namespace_of_def)+
  show ?thesis
    using c(2,5-8)
    by (simp add: buildTenantBoundaryModel_def uris home_uri home_root sandbox_boundary_def ledger_actions_def object_actions_def
        RECEIPT_LEDGER_FORBIDDEN_ACTIONS_def buckets_def)
qed

subsection \<open>Requests inside the sandbox\<close>

text \<open>
  Inputs and requests for which the document and the boundary speak of the same names. The region, the account, the stage and the role are plain
  texts, and the role belongs to the tenant. A request spells the two actions that the boundary compares by their exact text the way the boundary does,
  and names one listing prefix and its leading keys as strings.
\<close>

definition plain_sandbox :: "jstr \<Rightarrow> ('a) TenantSandboxPolicyInput_scheme \<Rightarrow> bool" where
  "plain_sandbox slug inp \<longleftrightarrow>
     list_all plain_text [ti_region inp, si_accountId inp, ti_stage inp, si_tenantServiceRoleArn inp]
     \<and> list_all (\<lambda>s. 47 \<notin> set s) [ti_region inp, si_accountId inp, ti_stage inp]
     \<and> js_includes (si_tenantServiceRoleArn inp) slug"

definition context_value :: "ModeledRequestState \<Rightarrow> string \<Rightarrow> ctx_value option" where
  "context_value rq k = (case rq_context rq of None \<Rightarrow> None | Some ctx \<Rightarrow> map_of ctx (js k))"

definition modeled_request :: "(jstr \<Rightarrow> jstr) \<Rightarrow> ModeledRequestState \<Rightarrow> bool" where
  "modeled_request lower rq \<longleftrightarrow>
     list_all (\<lambda>a. lower (rq_action rq) = low a \<longrightarrow> rq_action rq = js a) [''s3:ListBucket'', ''iam:PassRole'']
     \<and> (case context_value rq ''s3:prefix'' of Some (CArr xs) \<Rightarrow> length xs \<le> 1 | Some (CBool _) \<Rightarrow> False | Some (CNative _) \<Rightarrow> False | _ \<Rightarrow> True)
     \<and> (case context_value rq ''dynamodb:LeadingKeys'' of Some (CBool _) \<Rightarrow> False | Some (CNative _) \<Rightarrow> False | _ \<Rightarrow> True)"

lemma context_lookup:
  assumes "inherited_text (js k) = None" "js k \<noteq> js ''aws:PrincipalTag/slug''"
  shows "requestContextValue rq (js k) = context_value rq k"
  using assms by (auto simp: requestContextValue_def context_value_def split: option.splits)

lemma context_lookups:
  "requestContextValue rq (js ''s3:prefix'') = context_value rq ''s3:prefix''"
  "requestContextValue rq (js ''dynamodb:LeadingKeys'') = context_value rq ''dynamodb:LeadingKeys''"
  "requestContextValue rq (js ''iam:PassedToService'') = context_value rq ''iam:PassedToService''"
  by (rule context_lookup; simp add: inherited_text_def)+

lemma context_strings_value:
  "context_strings rq k = (case context_value rq k of Some (CArr xs) \<Rightarrow> xs | Some (CStr s) \<Rightarrow> [s] | _ \<Rightarrow> [])"
  by (auto simp: context_strings_def context_value_def split: option.splits)

lemma leading_keys_bound:
  assumes "condition_holds leading_keys rq" "modeled_request lower rq" "tb_allowedDynamoLeadingKeys b = [rq_slug rq]" "36 \<notin> set (rq_slug rq)"
  shows "contextHasAllowedLeadingKey rq b"
proof -
  have "substitutePrincipalTag slug_variable rq = rq_slug rq" using substitute_variable [of "[]" "[]" rq] assms(4) by simp
  then have "allValuesEqual (context_value rq ''dynamodb:LeadingKeys'') [slug_variable] rq" and
    "\<exists>xs. observed_values (context_value rq ''dynamodb:LeadingKeys'') = Some xs \<and> xs \<noteq> [] \<and> list_all (\<lambda>x. x = rq_slug rq) xs"
    using assms(1) by (auto simp: condition_holds_def leading_keys_def entry_holds_def context_lookups allValuesEqual_def split: option.splits)
  then show ?thesis
    using assms(2,3) by (auto simp: contextHasAllowedLeadingKey_def context_strings_value modeled_request_def
        split: option.splits ctx_value.splits)
qed

lemma list_prefix_bound:
  assumes holds: "condition_holds (Some (''StringLike'', ''s3:prefix'', strs [js ''tenants/'' @ slug_variable @ js ''/*'', js ''tenants/'' @ slug_variable])) rq"
    and rq: "modeled_request lower rq" and b: "tb_tenantSlug b = rq_slug rq" and plain: "plain_text (rq_slug rq)"
  shows "contextHasAllowedS3Prefix rq b"
proof -
  let ?home = "js ''tenants/'' @ rq_slug rq"
  have d: "36 \<notin> set (js ''tenants/'')" "36 \<notin> set (js ''/*'')" "36 \<notin> set (rq_slug rq)"
    using plain_text_no_special [OF plain] by (simp_all add: js_def cu_def)
  have sub: "substitutePrincipalTag (js ''tenants/'' @ slug_variable @ js ''/*'') rq = ?home @ js ''/*''"
    "substitutePrincipalTag (js ''tenants/'' @ slug_variable) rq = ?home"
    using substitute_variable [OF d] substitute_variable [OF d(1) _ d(3), of "[]"] by simp_all
  have star: "js ''/*'' = js ''/'' @ [42]" by (simp add: js_def cu_def)
  have ok: "x = ?home \<or> startsWith x (?home @ js ''/'')"
    if "matchesPattern (?home @ js ''/*'') x \<or> matchesPattern ?home x" for x
    using that matchesPattern_prefix [of "?home @ js ''/''" "[42]" x] matchesPattern_plain [of ?home x] plain by (auto simp: star)
  obtain xs x where "observed_values (context_value rq ''s3:prefix'') = Some xs" "x \<in> set xs"
      "x = ?home \<or> startsWith x (?home @ js ''/'')"
    using holds ok by (auto simp: condition_holds_def entry_holds_def context_lookups valuesMatchPolicyValue_def sub list_ex_iff split: option.splits)
  then show ?thesis
    using rq b by (auto simp: contextHasAllowedS3Prefix_def context_strings_value modeled_request_def le_Suc_eq length_Suc_conv
        split: option.splits ctx_value.splits)
qed

lemma object_request:
  assumes "lower x \<in> low ` set object_names" and "lowers_ascii lower"
  shows "isS3Action lower x" "x \<noteq> js ''s3:ListBucket''"
proof -
  let ?P = "\<lambda>n. startsWith n (js ''s3:'') \<and> n \<noteq> low ''s3:ListBucket''"
  have "list_all (\<lambda>a. ?P (low a)) object_names" by code_simp
  then have "?P (lower x)" using assms(1) by (rule low_all)
  then show "isS3Action lower x" "x \<noteq> js ''s3:ListBucket''"
    using lower_literal [OF assms(2) plain_actions(6)] by (auto simp: isS3Action_def)
qed

lemma listing_request:
  assumes "lower x = low ''s3:ListBucket''"
  shows "isS3Action lower x"
proof -
  have "startsWith (low ''s3:ListBucket'') (js ''s3:'')" by code_simp
  then show ?thesis using assms by (simp add: isS3Action_def)
qed

lemma ledger_request:
  assumes "lower x \<in> low ` set claim_names"
  shows "isDynamoAction lower x" "\<not> isS3Action lower x"
proof -
  let ?P = "\<lambda>n. startsWith n (js ''dynamodb:'') \<and> \<not> startsWith n (js ''s3:'')"
  have "list_all (\<lambda>a. ?P (low a)) claim_names" by code_simp
  then have "?P (lower x)" using assms by (rule low_all)
  then show "isDynamoAction lower x" "\<not> isS3Action lower x" by (simp_all add: isS3Action_def isDynamoAction_def)
qed

abbreviation forbidden_names :: "string list" where
  "forbidden_names \<equiv> [''dynamodb:BatchWriteItem'', ''dynamodb:DeleteItem'', ''dynamodb:PartiQLDelete'', ''dynamodb:PartiQLUpdate'',
     ''dynamodb:TransactWriteItems'', ''dynamodb:UpdateItem'']"

lemma append_only_request:
  assumes "lower x \<in> low ` set ledger_names" "lowers_ascii lower"
    and "tb_forbiddenReceiptLedgerActions b = RECEIPT_LEDGER_FORBIDDEN_ACTIONS"
  shows "\<not> isForbiddenReceiptLedgerAction lower x b"
proof -
  have f: "filter (\<lambda>f. \<not> hasWildcard f) RECEIPT_LEDGER_FORBIDDEN_ACTIONS = map js forbidden_names" by code_simp
  have p: "list_all (\<lambda>a. plain_text (js a)) forbidden_names" by code_simp
  let ?P = "\<lambda>n. \<not> hasWildcard n \<and> n \<notin> low ` set forbidden_names"
  have "list_all (\<lambda>a. ?P (low a)) ledger_names" by code_simp
  then have "?P (lower x)" using assms(1) by (rule low_all)
  moreover have "lower (js a) = low a" if "a \<in> set forbidden_names" for a
    using p that lower_literal [OF assms(2)] by (auto simp: list_all_iff simp del: list.set)
  ultimately show ?thesis
    using assms(3) by (auto simp: isForbiddenReceiptLedgerAction_def Let_def f list_ex_iff simp del: list.set list.map) (metis image_eqI)
qed

lemma workflow_request:
  assumes "lower x \<in> low ` set workflow_names"
  shows "isWorkflowAction lower x" "\<not> isS3Action lower x" "\<not> isDynamoAction lower x"
proof -
  let ?P = "\<lambda>n. (startsWith n (js ''athena:'') \<or> startsWith n (js ''glue:'') \<or> startsWith n (js ''lakeformation:''))
      \<and> \<not> startsWith n (js ''s3:'') \<and> \<not> startsWith n (js ''dynamodb:'')"
  have "list_all (\<lambda>a. ?P (low a)) workflow_names" by code_simp
  then have "?P (lower x)" using assms by (rule low_all)
  then show "isWorkflowAction lower x" "\<not> isS3Action lower x" "\<not> isDynamoAction lower x"
    by (simp_all add: isS3Action_def isDynamoAction_def isWorkflowAction_def Let_def)
qed

lemma other_request:
  assumes "lower x \<in> low ` set (''iam:PassRole'' # function_names)"
  shows "\<not> isWorkflowAction lower x" "\<not> isS3Action lower x" "\<not> isDynamoAction lower x"
proof -
  let ?P = "\<lambda>n. \<not> startsWith n (js ''athena:'') \<and> \<not> startsWith n (js ''glue:'') \<and> \<not> startsWith n (js ''lakeformation:'')
      \<and> \<not> startsWith n (js ''s3:'') \<and> \<not> startsWith n (js ''dynamodb:'')"
  have "list_all (\<lambda>a. ?P (low a)) (''iam:PassRole'' # function_names)" by code_simp
  then have "?P (lower x)" using assms by (rule low_all)
  then show "\<not> isWorkflowAction lower x" "\<not> isS3Action lower x" "\<not> isDynamoAction lower x"
    by (simp_all add: isS3Action_def isDynamoAction_def isWorkflowAction_def Let_def)
qed

lemma function_request:
  assumes "lower x \<in> low ` set function_names" "lowers_ascii lower"
  shows "x \<noteq> js ''iam:PassRole''"
    "lower x \<in> set (map js [''lambda:invokefunction'', ''logs:createlogstream'', ''logs:putlogevents'', ''logs:describelogstreams''])"
proof -
  let ?P = "\<lambda>n. n \<noteq> low ''iam:PassRole'' \<and>
      n \<in> set (map js [''lambda:invokefunction'', ''logs:createlogstream'', ''logs:putlogevents'', ''logs:describelogstreams''])"
  have "list_all (\<lambda>a. ?P (low a)) function_names" by code_simp
  then have P: "?P (lower x)" using assms(1) by (rule low_all)
  then show "x \<noteq> js ''iam:PassRole''" using lower_literal [OF assms(2) plain_actions(7)] by auto
  show "lower x \<in> set (map js [''lambda:invokefunction'', ''logs:createlogstream'', ''logs:putlogevents'', ''logs:describelogstreams''])"
    using P by (rule conjunct2)
qed

subsection \<open>The compiled document stays inside the boundary\<close>

lemma resource_star_prefix:
  assumes "plain_text pre" "plain_text (rq_slug rq)" "36 \<notin> set post" "resourceMatches (pre @ slug_variable @ post) r rq"
  shows "startsWith r (pre @ rq_slug rq)"
  using assms substitute_variable [of pre post rq] plain_text_no_special [OF assms(1)] plain_text_no_special [OF assms(2)]
    matchesPattern_prefix [of "pre @ rq_slug rq" post r] by (simp add: resourceMatches_def)

lemma resource_plain: "plain_text p \<Longrightarrow> resourceMatches p r rq \<longleftrightarrow> p = r"
  using plain_text_no_special by (simp add: resourceMatches_def substitute_plain matchesPattern_plain)

lemma includes_trans: "js_includes s t \<Longrightarrow> js_includes (a @ s @ b) t"
  by (auto simp: js_includes_iff) (metis append.assoc)

lemma includes_append [simp]: "js_includes (a @ t @ b) t" "js_includes (t @ b) t" "js_includes (a @ t) t"
  by (auto simp: js_includes_iff) (metis append_Nil append_Nil2)+

lemma some_suffix_iff: "some_suffix P s \<longleftrightarrow> (\<exists>a b. s = a @ b \<and> P b)"
proof (induction s)
  case (Cons c s)
  show ?case using Cons by (auto simp: Cons_eq_append_conv)
qed simp

text \<open>A table whose name ends otherwise is not taken for the receipt ledger.\<close>

lemma one_slash:
  assumes "a @ 47 # b = c @ 47 # d" "47 \<notin> set c" "47 \<notin> set (d :: jstr)"
  shows "b = d"
  using assms by (metis append_Cons_eq_iff)

lemma claims_table_is_no_ledger:
  assumes region: "47 \<notin> set region" and account: "47 \<notin> set account" and stage: "47 \<notin> set stage" "42 \<notin> set stage"
  shows "\<not> isReceiptLedgerResource (js ''arn:aws:dynamodb:'' @ region @ js '':'' @ account @ js '':table/ghost-ark-'' @ stage @ js ''-claims'')"
proof
  let ?pre = "js ''arn:aws:dynamodb:'' @ region @ js '':'' @ account @ js '':table''"
  let ?name = "js ''ghost-ark-'' @ stage @ js ''-claims''"
  assume "isReceiptLedgerResource (js ''arn:aws:dynamodb:'' @ region @ js '':'' @ account @ js '':table/ghost-ark-'' @ stage @ js ''-claims'')"
  moreover have "js '':table/ghost-ark-'' = js '':table'' @ 47 # js ''ghost-ark-''" by (simp add: js_def cu_def)
  ultimately obtain a s where s: "?pre @ 47 # ?name = a @ s" "receipt_table_at s"
    by (auto simp: isReceiptLedgerResource_def some_suffix_iff)
  then obtain r where r: "s = js '':table/ghost-ark-'' @ r" by (auto simp: receipt_table_at_def startsWith_iff)
  have "drop 17 s = r" by (simp add: r)
  then obtain j where j: "startsWith (drop j r) (js ''-receipts'')" "case drop (j + 9) r of [] \<Rightarrow> True | c # _ \<Rightarrow> c = 47 \<or> c = 42"
    using s(2) by (auto simp: receipt_table_at_def Let_def list_ex_iff)
  have "(a @ js '':table'') @ 47 # (js ''ghost-ark-'' @ r) = ?pre @ 47 # ?name" using s(1) r by (simp add: js_def cu_def)
  moreover have "47 \<notin> set ?pre" "47 \<notin> set ?name" using region account stage by (simp_all add: js_def cu_def)
  ultimately have name: "r = stage @ js ''-claims''" using one_slash by (metis same_append_eq)
  then have "47 \<notin> set (drop (j + 9) r)" "42 \<notin> set (drop (j + 9) r)"
    using stage by (auto simp: js_def cu_def dest: in_set_dropD)
  then have "drop (j + 9) r = []" using j(2) by (auto split: list.splits)
  then have "drop j r = js ''-receipts''"
    using j(1) by (auto simp: startsWith_def js_def)
  then have "r = take j r @ js ''-receipts''" by (metis append_take_drop_id)
  then have "rev r = rev (js ''-receipts'') @ rev (take j r)" by (metis rev_append)
  then show False using name by (simp add: js_def cu_def)
qed

lemma plain_sandboxD:
  assumes "plain_sandbox slug inp"
  shows "plain_text (table_arn inp ''-receipts'')" "plain_text (table_arn inp ''-claims'')" "plain_text (table_arn inp ''-lineage'')"
    "plain_text (lambda_arn inp)" "plain_text (logs_arn inp)" "plain_text (si_tenantServiceRoleArn inp)"
    "js_includes (si_tenantServiceRoleArn inp) slug" "\<not> isReceiptLedgerResource (table_arn inp ''-claims'')"
proof -
  have s: "plain_text (ti_region inp)" "plain_text (si_accountId inp)" "plain_text (ti_stage inp)" "plain_text (si_tenantServiceRoleArn inp)"
    "js_includes (si_tenantServiceRoleArn inp) slug" "47 \<notin> set (ti_region inp)" "47 \<notin> set (si_accountId inp)" "47 \<notin> set (ti_stage inp)"
    using assms by (auto simp: plain_sandbox_def)
  show "plain_text (table_arn inp ''-receipts'')" "plain_text (table_arn inp ''-claims'')" "plain_text (table_arn inp ''-lineage'')"
    "plain_text (lambda_arn inp)" "plain_text (logs_arn inp)" "plain_text (si_tenantServiceRoleArn inp)"
    "js_includes (si_tenantServiceRoleArn inp) slug"
    using s by (simp_all add: table_arn_def lambda_arn_def logs_arn_def)
  show "\<not> isReceiptLedgerResource (table_arn inp ''-claims'')"
    unfolding table_arn_def using claims_table_is_no_ledger s plain_text_no_special by blast
qed

lemma allow_statement_cases:
  assumes "statement_applies lower rq ''Allow'' v" "v \<in> set (doc_Statement (sandbox_document inp))"
  shows "\<exists>st\<in>set (allow_statements inp). v = JObj st"
  using assms
  by (auto simp: sandbox_document_def sandbox_statements_def deny_statements_def boundary_statements_def iam_statement_applies
      split: option.splits if_splits)

definition sandbox_request ::
    "(jstr \<Rightarrow> jstr) \<Rightarrow> ('a) TenantSandboxPolicyInput_scheme \<Rightarrow> ModeledRequestState \<Rightarrow> TenantBoundaryModel \<Rightarrow> bool" where
  "sandbox_request lower inp rq b \<longleftrightarrow>
     lowers_ascii lower \<and> plain_sandbox (rq_slug rq) inp \<and> tenantSlugPattern (rq_slug rq) \<and> list_all bucketNamePattern (buckets inp)
     \<and> sandbox_boundary (rq_slug rq) inp b \<and> modeled_request lower rq"

lemma sandbox_slug:
  assumes "sandbox_request lower inp rq b"
  shows "plain_text (rq_slug rq)" "36 \<notin> set (rq_slug rq)" "rq_slug rq = tb_tenantSlug b" "lowers_ascii lower"
  using assms slug_between_plain plain_text_no_special by (auto simp: sandbox_request_def tenantSlugPattern_def sandbox_boundary_def)

lemma object_statement_bound:
  assumes s: "sandbox_request lower inp rq b"
    and a: "\<exists>a\<in>set (map js object_names). actionMatches lower a (rq_action rq)"
    and r: "\<exists>r\<in>set (map (\<lambda>x. bucket_arn x @ js ''/tenants/'' @ slug_variable @ js ''/*'') (buckets inp)). resourceMatches r (rq_resource rq) rq"
  shows "evaluateTenantBoundary lower b rq = Allow"
proof -
  note sl = sandbox_slug [OF s]
  from r obtain x where x: "x \<in> set (buckets inp)" "resourceMatches (bucket_arn x @ js ''/tenants/'' @ slug_variable @ js ''/*'') (rq_resource rq) rq"
    by auto
  have sub: "substitutePrincipalTag (bucket_arn x @ js ''/tenants/'' @ slug_variable @ js ''/*'') rq = tenant_home x (rq_slug rq) @ [42]"
    and home: "plain_text (tenant_home x (rq_slug rq))" "tenant_home x (rq_slug rq) \<in> set (tb_allowedS3Prefixes b)"
  proof -
    have x': "bucketNamePattern x" using s x(1) by (auto simp: sandbox_request_def list_all_iff)
    then have p: "plain_text (bucket_arn x @ js ''/tenants/'')" using bucket_arn_plain by simp
    then have "36 \<notin> set (bucket_arn x @ js ''/tenants/'')" "36 \<notin> set (js ''/*'')"
      using plain_text_no_special by (blast, simp add: js_def cu_def)
    moreover have "js ''/*'' = js ''/'' @ [42]" by (simp add: js_def cu_def)
    ultimately show "substitutePrincipalTag (bucket_arn x @ js ''/tenants/'' @ slug_variable @ js ''/*'') rq = tenant_home x (rq_slug rq) @ [42]"
      using substitute_variable [of "bucket_arn x @ js ''/tenants/''" "js ''/*''" rq] sl(2) by (simp add: tenant_home_def)
    show "plain_text (tenant_home x (rq_slug rq))" using p sl(1) by (simp add: tenant_home_def)
    show "tenant_home x (rq_slug rq) \<in> set (tb_allowedS3Prefixes b)" using s x(1) by (simp add: sandbox_request_def sandbox_boundary_def)
  qed
  have "startsWith (rq_resource rq) (tenant_home x (rq_slug rq))"
    using matchesPattern_prefix [OF home(1)] x(2) by (simp add: resourceMatches_def sub)
  then have "isTenantS3Object (rq_resource rq) b" using home(2) by (auto simp: isTenantS3Object_def list_ex_iff)
  moreover have "list_ex (\<lambda>a. actionMatches lower a (rq_action rq)) (map js object_names)" using a by (simp only: list_ex_iff)
  moreover have "tb_allowedS3ObjectActions b = Some (map js object_names)"
    using s by (simp add: sandbox_request_def sandbox_boundary_def object_actions_def)
  moreover have "lower (rq_action rq) \<in> low ` set object_names" using a action_in [OF sl(4) plain_actions(1)] by simp
  ultimately show ?thesis
    using object_request [OF _ sl(4)] sl(3) by (simp add: evaluateTenantBoundary_def verdict_of_def del: list.map list.set)
qed

lemma listing_statement_bound:
  assumes s: "sandbox_request lower inp rq b"
    and a: "actionMatches lower (js ''s3:ListBucket'') (rq_action rq)"
    and r: "\<exists>r\<in>set (map bucket_arn (buckets inp)). resourceMatches r (rq_resource rq) rq"
    and c: "condition_holds (Some (''StringLike'', ''s3:prefix'', strs [js ''tenants/'' @ slug_variable @ js ''/*'', js ''tenants/'' @ slug_variable])) rq"
  shows "evaluateTenantBoundary lower b rq = Allow"
proof -
  note sl = sandbox_slug [OF s]
  have low: "lower (rq_action rq) = low ''s3:ListBucket''" using a literal_action [OF sl(4) plain_actions(6)] by simp
  then have name: "rq_action rq = js ''s3:ListBucket''" using s by (simp add: sandbox_request_def modeled_request_def)
  from r obtain x where x: "x \<in> set (buckets inp)" "resourceMatches (bucket_arn x) (rq_resource rq) rq" by auto
  have x': "bucketNamePattern x" using s x(1) by (auto simp: sandbox_request_def list_all_iff)
  have "rq_resource rq = bucket_arn x" using x(2) resource_plain [OF bucket_arn_plain(1) [OF x']] by simp
  moreover have "bucket_arn x = replace_once tenants_end_at [] [] (tenant_home x (rq_slug rq))"
    using home_bucket [OF x'] s by (simp add: sandbox_request_def)
  moreover have "tenant_home x (rq_slug rq) \<in> set (tb_allowedS3Prefixes b)" using s x(1) by (simp add: sandbox_request_def sandbox_boundary_def)
  ultimately have "isS3BucketRoot (rq_resource rq) b" by (simp add: isS3BucketRoot_def)
  moreover have "contextHasAllowedS3Prefix rq b"
    using list_prefix_bound [OF c _ _ sl(1), of lower b] s sl(3) by (simp add: sandbox_request_def)
  ultimately show ?thesis using listing_request [of lower "rq_action rq"] low name sl(3) by (simp add: evaluateTenantBoundary_def verdict_of_def)
qed

lemma ledger_statement_bound:
  assumes s: "sandbox_request lower inp rq b"
    and a: "\<exists>a\<in>set (map js names). actionMatches lower a (rq_action rq)"
    and r: "resourceMatches (table_arn inp suffix) (rq_resource rq) rq"
    and c: "condition_holds leading_keys rq"
    and names: "names = ledger_names \<and> suffix \<in> {''-receipts'', ''-lineage''} \<or> names = claim_names \<and> suffix = ''-claims''"
  shows "evaluateTenantBoundary lower b rq = Allow"
proof -
  note sl = sandbox_slug [OF s]
  have plain: "plain_sandbox (rq_slug rq) inp" using s by (simp add: sandbox_request_def)
  have res: "rq_resource rq = table_arn inp suffix" using resource_plain plain_sandboxD(1-3) [OF plain] r names by auto
  have table: "js_includes (table_arn inp suffix) (js '':table/ghost-ark-'')"
    using includes_append(1) [of "js ''arn:aws:dynamodb:'' @ ti_region inp @ js '':'' @ si_accountId inp"] by (simp add: table_arn_def)
  have act: "lower (rq_action rq) \<in> low ` set names"
    using a action_in [OF sl(4) plain_actions(2)] action_in [OF sl(4) plain_actions(3)] names by blast
  then have claim: "lower (rq_action rq) \<in> low ` set claim_names" using names by auto
  then have any: "list_ex (\<lambda>a. actionMatches lower a (rq_action rq)) (map js claim_names)"
    using action_in [OF sl(4) plain_actions(3)] by (simp only: list_ex_iff)
  note dyn = ledger_request [of lower "rq_action rq", OF claim]
  have keys: "contextHasAllowedLeadingKey rq b"
    using leading_keys_bound [OF c _ _ sl(2), of lower b] s by (simp add: sandbox_request_def sandbox_boundary_def)
  show ?thesis
  proof (cases "isReceiptLedgerResource (rq_resource rq)")
    case True
    then have led: "names = ledger_names" using names plain_sandboxD(8) [OF plain] res by auto
    have "list_ex (\<lambda>a. actionMatches lower a (rq_action rq)) ledger_actions" using a led by (simp add: ledger_actions_def)
    then have "isAllowedReceiptLedgerAction lower (rq_action rq) b"
      using s by (simp add: isAllowedReceiptLedgerAction_def sandbox_request_def sandbox_boundary_def)
    moreover have "\<not> isForbiddenReceiptLedgerAction lower (rq_action rq) b"
      using append_only_request [OF _ sl(4)] act led s by (simp add: sandbox_request_def sandbox_boundary_def)
    ultimately show ?thesis
      using True keys dyn sl(3) by (simp add: evaluateTenantBoundary_def verdict_of_def)
  next
    case False
    then show ?thesis
      using any table keys dyn sl(3) by (simp add: evaluateTenantBoundary_def verdict_of_def res)
  qed
qed

lemma workflow_statement_bound:
  assumes s: "sandbox_request lower inp rq b" and a: "\<exists>a\<in>set tenantWorkflowActions. actionMatches lower a (rq_action rq)"
  shows "evaluateTenantBoundary lower b rq = Allow"
proof -
  note sl = sandbox_slug [OF s]
  have "lower (rq_action rq) \<in> low ` set workflow_names"
    using a action_in [OF sl(4) plain_actions(4)] by (simp only: tenantWorkflowActions_def)
  note wf = workflow_request [of lower "rq_action rq", OF this]
  have "list_ex (\<lambda>a. actionMatches lower a (rq_action rq)) tenantWorkflowActions" using a by (simp only: list_ex_iff)
  moreover have "tb_allowedReadOnly b = Some True" using s by (simp add: sandbox_request_def sandbox_boundary_def)
  ultimately show ?thesis using wf sl(3) by (simp add: evaluateTenantBoundary_def verdict_of_def)
qed

lemma role_statement_bound:
  assumes s: "sandbox_request lower inp rq b" and a: "actionMatches lower (js ''iam:PassRole'') (rq_action rq)"
    and r: "resourceMatches (si_tenantServiceRoleArn inp) (rq_resource rq) rq"
    and c: "condition_holds (Some (''StringEquals'', ''iam:PassedToService'', v)) rq"
  shows "evaluateTenantBoundary lower b rq = Allow"
proof -
  note sl = sandbox_slug [OF s]
  have plain: "plain_sandbox (rq_slug rq) inp" using s by (simp add: sandbox_request_def)
  have low: "lower (rq_action rq) = low ''iam:PassRole''" using a literal_action [OF sl(4) plain_actions(7)] by simp
  then have name: "rq_action rq = js ''iam:PassRole''" using s by (simp add: sandbox_request_def modeled_request_def)
  have "rq_resource rq = si_tenantServiceRoleArn inp" using r resource_plain [OF plain_sandboxD(6) [OF plain]] by simp
  moreover have "context_value rq ''iam:PassedToService'' \<noteq> None"
    using c by (cases "context_value rq ''iam:PassedToService''")
      (auto simp: condition_holds_def entry_holds_def context_lookups valuesMatchPolicyValue_def)
  ultimately show ?thesis
    using other_request [of lower "rq_action rq"] low name plain_sandboxD(7) [OF plain] sl(3)
    by (auto simp: evaluateTenantBoundary_def verdict_of_def context_value_def split: option.splits)
qed

lemma function_statement_bound:
  assumes s: "sandbox_request lower inp rq b" and a: "\<exists>a\<in>set (map js function_names). actionMatches lower a (rq_action rq)"
    and r: "resourceMatches (lambda_arn inp @ slug_variable @ js ''-*'') (rq_resource rq) rq
          \<or> resourceMatches (logs_arn inp @ slug_variable @ js ''-*:*'') (rq_resource rq) rq"
  shows "evaluateTenantBoundary lower b rq = Allow"
proof -
  note sl = sandbox_slug [OF s]
  have plain: "plain_sandbox (rq_slug rq) inp" using s by (simp add: sandbox_request_def)
  have "36 \<notin> set (js ''-*'')" "36 \<notin> set (js ''-*:*'')" by (simp_all add: js_def cu_def)
  then have "startsWith (rq_resource rq) (lambda_arn inp @ rq_slug rq) \<or> startsWith (rq_resource rq) (logs_arn inp @ rq_slug rq)"
    using r resource_star_prefix sl(1) plain_sandboxD(4,5) [OF plain] by blast
  then obtain t where t: "rq_resource rq = lambda_arn inp @ rq_slug rq @ t \<or> rq_resource rq = logs_arn inp @ rq_slug rq @ t"
    by (auto simp: startsWith_iff)
  have "js '':function:ghost-ark-'' = js '':function:'' @ js ''ghost-ark-''"
    "js '':log-group:/aws/lambda/ghost-ark-'' = js '':log-group:/aws/lambda/'' @ js ''ghost-ark-''" by (simp_all add: js_def)
  then have "js_includes (rq_resource rq) (js ''ghost-ark-'')"
    using t by (auto simp: lambda_arn_def logs_arn_def js_includes_iff) (metis append.assoc)+
  moreover have "js_includes (rq_resource rq) (rq_slug rq)" using t by auto
  moreover have low: "lower (rq_action rq) \<in> low ` set function_names" using a action_in [OF sl(4) plain_actions(5)] by simp
  ultimately have "isTenantLambdaOrLogs lower (rq_action rq) (rq_resource rq) b"
    using function_request(2) [of lower "rq_action rq", OF low sl(4)] sl(3) unfolding isTenantLambdaOrLogs_def by simp
  moreover have "lower (rq_action rq) \<in> low ` set (''iam:PassRole'' # function_names)" using low by (auto simp: image_iff)
  ultimately show ?thesis
    using other_request [of lower "rq_action rq"] function_request(1) [of lower "rq_action rq", OF low sl(4)] sl(3)
    by (simp add: evaluateTenantBoundary_def verdict_of_def del: list.set)
qed

lemma allow_within_boundary:
  assumes s: "sandbox_request lower inp rq b" and st: "st \<in> set (allow_statements inp)" and ap: "statement_applies lower rq ''Allow'' (JObj st)"
  shows "evaluateTenantBoundary lower b rq = Allow"
proof -
  note app = iam_statement_applies [of _ lower rq "''Allow''"]
  have acts: "ledger_actions @ [js ''dynamodb:UpdateItem''] = map js claim_names" "ledger_actions = map js ledger_names"
    "object_actions = map js object_names" by (simp_all add: ledger_actions_def object_actions_def)
  have ledger: ?thesis if "st = ledger_statement inp sid (map js names) suffix"
    "names = ledger_names \<and> suffix \<in> {''-receipts'', ''-lineage''} \<or> names = claim_names \<and> suffix = ''-claims''" for sid names suffix
    using ap that(1) ledger_statement_bound [OF s _ _ _ that(2)] by (simp add: ledger_statement_def app del: set_map)
  from st consider "st = object_statement inp" | "st = listing_statement inp"
    | (ledger) "st = ledger_statement inp ''AllowTenantReceiptLedgerAccess'' (map js ledger_names) ''-receipts''
        \<or> st = ledger_statement inp ''AllowTenantClaimLedgerAccess'' (map js claim_names) ''-claims''
        \<or> st = ledger_statement inp ''AllowTenantLineageLedgerAccess'' (map js ledger_names) ''-lineage''"
    | (workflow) "st = workflow_statement" | (role) "st = role_statement inp" | (fn) "st = function_statement inp"
    unfolding allow_statements_def acts(1) unfolding acts(2) by (simp only: list.set insert_iff empty_iff) blast
  then show ?thesis
  proof cases
    case 1
    then show ?thesis using ap object_statement_bound [OF s] by (simp only: object_statement_def app [OF operators_known(1)] acts asArray_strs)
  next
    case 2
    then show ?thesis using ap listing_statement_bound [OF s] by (simp add: listing_statement_def app del: set_map)
  next
    case workflow
    then show ?thesis using ap workflow_statement_bound [OF s] by (simp add: workflow_statement_def app)
  next
    case role
    then show ?thesis using ap role_statement_bound [OF s] by (auto simp: role_statement_def app)
  next
    case fn
    then show ?thesis using ap function_statement_bound [OF s] by (simp only: function_statement_def app [OF operators_known(1)] asArray_strs) auto
  qed (use ledger in blast)
qed

lemma allowed_within_boundary:
  assumes "lowers_ascii lower" and ns: "compileTenantNamespace lower inp = Inr ns" and "plain_sandbox (tn_tenantSlug ns) inp"
    and "rq_slug rq = tn_tenantSlug ns" and "modeled_request lower rq" and "sandbox_boundary (tn_tenantSlug ns) inp b"
    and allow: "evaluateModeledPolicy lower (sandbox_document inp) rq = Inr Allow"
  shows "evaluateTenantBoundary lower b rq = Allow"
proof -
  obtain v where v: "v \<in> set (doc_Statement (sandbox_document inp))" "statement_applies lower rq ''Allow'' v"
    using allow allowed_by_statement [of lower False "doc_Statement (sandbox_document inp)" rq] by (auto simp: evaluateModeledPolicy_def)
  then obtain st where st: "st \<in> set (allow_statements inp)" "v = JObj st" using allow_statement_cases by blast
  have "sandbox_request lower inp rq b"
    using assms(1,3-6) compiled_namespace(2,5-8) [OF ns] by (simp add: sandbox_request_def buckets_def)
  then show ?thesis using allow_within_boundary st v(2) by blast
qed

lemma compiled_document: "compileTenantSandboxPolicy lower sha inp = Inr pol \<Longrightarrow> ci_document pol = sandbox_document inp"
  by (auto simp: compileTenantSandboxPolicy_def Let_def split: sum.splits if_splits)


definition sample_sandbox :: TenantSandboxPolicyInput where
  "sample_sandbox = \<lparr>ti_stage = js ''dev'', ti_tenantSlug = js ''Acme Lab'', ti_rawBucket = js ''raw'', ti_curatedBucket = js ''curated'',
     ti_exportBucket = js ''exports'', ti_resultsBucket = js ''results'', ti_region = js ''us-east-1'', si_accountId = js ''123456789012'',
     si_allowedRegions = [js ''us-east-1''], si_tenantServiceRoleArn = js ''arn:aws:iam::123456789012:role/ghost-ark-dev-acme-lab-role'',
     si_permissionsBoundaryArn = None\<rparr>"

definition sample_request :: ModeledRequestState where
  "sample_request = \<lparr>rq_action = js ''s3:GetObject'', rq_resource = js ''arn:aws:s3:::raw/tenants/acme-lab/raw/a.json'', rq_slug = js ''acme-lab'',
     rq_context = Some [(js ''aws:RequestedRegion'', CStr (js ''us-east-1''))]\<rparr>"

lemma lowers_ascii_map: "lowers_ascii (map ascii_lower)"
  by (simp add: lowers_ascii_def)

lemma sample_namespace: "compileTenantNamespace (map ascii_lower) sample_sandbox = Inr (namespace_of (js ''dev'') (js ''acme-lab'') sample_sandbox)"
  by code_simp

lemma sample_statements:
  defines "arn \<equiv> js ''arn:aws:dynamodb:us-east-1:123456789012:table/ghost-ark-dev-receipts''"
  shows "list_all (\<lambda>st. statement_violations (map ascii_lower) arn st = []) (deny_statements sample_sandbox)"
    "statement_violations (map ascii_lower) arn (object_statement sample_sandbox) = []"
    "statement_violations (map ascii_lower) arn (listing_statement sample_sandbox) = []"
    "statement_violations (map ascii_lower) arn (ledger_statement sample_sandbox ''AllowTenantReceiptLedgerAccess'' ledger_actions ''-receipts'') = []"
    "statement_violations (map ascii_lower) arn
       (ledger_statement sample_sandbox ''AllowTenantClaimLedgerAccess'' (ledger_actions @ [js ''dynamodb:UpdateItem'']) ''-claims'') = []"
    "statement_violations (map ascii_lower) arn (ledger_statement sample_sandbox ''AllowTenantLineageLedgerAccess'' ledger_actions ''-lineage'') = []"
    "statement_violations (map ascii_lower) arn workflow_statement = []"
    "statement_violations (map ascii_lower) arn (role_statement sample_sandbox) = []"
    "statement_violations (map ascii_lower) arn (function_statement sample_sandbox) = []"
    "list_ex global_deny (deny_statements sample_sandbox)"
  unfolding arn_def by code_simp+

lemma sample_violations:
  "verifyTenantSandboxPolicyInvariants (map ascii_lower) (sandbox_statements sample_sandbox)
     (namespace_of (js ''dev'') (js ''acme-lab'') sample_sandbox) (js ''123456789012'') (js ''us-east-1'') = []"
proof -
  have arn: "js ''arn:aws:dynamodb:'' @ js ''us-east-1'' @ js '':'' @ js ''123456789012'' @ js '':table/ghost-ark-'' @ js ''dev'' @ js ''-receipts''
    = js ''arn:aws:dynamodb:us-east-1:123456789012:table/ghost-ark-dev-receipts''" by (simp add: js_def)
  have "boundary_statements sample_sandbox = []" by (simp add: boundary_statements_def sample_sandbox_def)
  then have "list_all (\<lambda>st. statement_violations (map ascii_lower) (js ''arn:aws:dynamodb:us-east-1:123456789012:table/ghost-ark-dev-receipts'') st = [])
      (sandbox_statements sample_sandbox)"
    unfolding sandbox_statements_def allow_statements_def by (simp only: list_all_append list.pred_inject append_Nil2 sample_statements simp_thms)
  then have "concat (map (statement_violations (map ascii_lower) (js ''arn:aws:dynamodb:us-east-1:123456789012:table/ghost-ark-dev-receipts''))
      (sandbox_statements sample_sandbox)) = []" by (simp only: concat_eq_Nil_conv list_all_iff set_map ball_simps)
  moreover have "list_ex global_deny (sandbox_statements sample_sandbox)"
    unfolding sandbox_statements_def by (simp only: list_ex_append sample_statements simp_thms)
  moreover have "tn_stage (namespace_of (js ''dev'') (js ''acme-lab'') sample_sandbox) = js ''dev''" by (simp add: namespace_of_def)
  ultimately show ?thesis
    unfolding verifyTenantSandboxPolicyInvariants_def Let_def by (simp only: arn if_True append_Nil)
qed

lemma sample_allows: "evaluateModeledPolicy (map ascii_lower) (sandbox_document sample_sandbox) sample_request = Inr Allow"
  by code_simp

lemma sample_plain: "plain_sandbox (js ''acme-lab'') sample_sandbox" "modeled_request (map ascii_lower) sample_request"
  by code_simp+

lemma shaped_strs [simp]: "json_shaped (strs xs)"
  by (simp add: strs_def list_all_iff)

lemma shaped_statement [simp]:
  "distinct (map fst (iam_statement sid eff act res cond))"
  "list_all (\<lambda>(k, v). json_shaped v) (iam_statement sid eff act res cond) \<longleftrightarrow>
     json_shaped act \<and> json_shaped res \<and> (case cond of None \<Rightarrow> True | Some (opr, key, v) \<Rightarrow> json_shaped v)"
  by (auto simp: iam_statement_def jobj_def split: option.splits)

lemma shaped_sandbox: "json_shaped (document_json (sandbox_document inp))"
proof -
  have "list_all (\<lambda>st. json_shaped (JObj st)) (sandbox_statements inp)"
    by (simp add: sandbox_statements_def deny_statements_def allow_statements_def boundary_statements_def object_statement_def
        listing_statement_def ledger_statement_def workflow_statement_def role_statement_def function_statement_def leading_keys_def
        split: option.splits)
  then show ?thesis by (simp add: document_json_def jobj_def sandbox_document_def list_all_iff)
qed

lemma sandbox_compiles:
  assumes "compileTenantNamespace lower inp = Inr ns"
    and "verifyTenantSandboxPolicyInvariants lower (sandbox_statements inp) ns (si_accountId inp) (ti_region inp) = []"
  shows "\<exists>pol. compileTenantSandboxPolicy lower sha inp = Inr pol \<and> ci_document pol = sandbox_document inp"
  using assms canonicalize_norm [OF shaped_sandbox, of inp] by (simp add: compileTenantSandboxPolicy_def canonicalSha256Hex_def)


end
