(* ===== verification/Lake_Formation.thy ===== *)
theory Lake_Formation
  imports Sandbox_Policy
begin

text \<open>
  Lake Formation plans, \<open>lfPolicies.ts\<close> of \<open>packages/policy-compiler/src\<close> with the plan invariants of \<open>invariants.ts\<close>. The
  plan is hashed by the canonical serializer before it is checked, and the serializer does not accept it.
\<close>

record LakeFormationPolicyInput = TenantNamespaceInput +
  lf_producerRoleArn :: jstr
  lf_consumerRoleArn :: jstr
  lf_databaseName :: "jstr option"
  lf_tableName :: jstr
  lf_allowedColumns :: "jstr list option"
  lf_rowFilterExpression :: "jstr option"
  lf_classification :: "jstr option"

record LakeFormationGrantSpec =
  lg_principalArn :: jstr
  lg_permissions :: "jstr list"
  lg_resource :: jsval
  lg_condition :: "(jstr \<times> jsval) list option"

record LakeFormationPlan =
  lp_namespace :: TenantNamespace
  lp_tags :: "jsval list"
  lp_grants :: "LakeFormationGrantSpec list"
  lp_rowFilterExpression :: jstr
  lp_columnAllowList :: "jstr list"

definition verifyLakeFormationPolicyInvariants :: "LakeFormationPlan \<Rightarrow> PolicyInvariantViolation list" where
  "verifyLakeFormationPolicyInvariants plan =
     (let tenantSlug = tn_tenantSlug (lp_namespace plan); v = \<lambda>code. \<lparr>piv_code = code, piv_sid = None, piv_subject = []\<rparr> in
      (if lp_rowFilterExpression plan \<noteq> js ''tenant_slug = '' @ [39] @ tenantSlug @ [39] then [v ''lakeformation_row_filter_escape''] else []) @
      concat (map (\<lambda>grant.
        (case lg_condition grant of
           None \<Rightarrow> []
         | Some c \<Rightarrow> if fld c ''tenantSlug'' \<noteq> JStr tenantSlug then [v ''lakeformation_condition_tenant_mismatch''] else []) @
        (if js ''DROP'' \<in> set (lg_permissions grant) \<or> js ''DELETE'' \<in> set (lg_permissions grant)
         then [v ''lakeformation_destructive_permission''] else [])) (lp_grants plan)))"

definition lf_tag :: "string \<Rightarrow> jstr list \<Rightarrow> jsval" where
  "lf_tag k vs = jobj [(''CatalogId'', JUndefined), (''TagKey'', JStr (js k)), (''TagValues'', strs vs)]"

definition lf_table :: "jstr \<Rightarrow> jstr \<Rightarrow> jsval" where
  "lf_table database table = jobj [(''Table'', jobj [(''DatabaseName'', JStr database), (''Name'', JStr table)])]"

definition value_or :: "'b option \<Rightarrow> 'b \<Rightarrow> 'b" where
  "value_or x d = (case x of None \<Rightarrow> d | Some v \<Rightarrow> v)"

definition lakeFormationPlan :: "TenantNamespace \<Rightarrow> LakeFormationPolicyInput \<Rightarrow> LakeFormationPlan" where
  "lakeFormationPlan ns inp =
     (let databaseName = value_or (lf_databaseName inp) (tn_databaseName ns);
          classification = value_or (lf_classification inp) (js ''internal'');
          allowedColumns = value_or (lf_allowedColumns inp) [];
          rowFilterExpression = value_or (lf_rowFilterExpression inp) (js ''tenant_slug = '' @ [39] @ tn_tenantSlug ns @ [39]);
          table = lf_table databaseName (lf_tableName inp);
          tableWithColumns = (if allowedColumns \<noteq> []
            then jobj [(''TableWithColumns'', jobj [(''DatabaseName'', JStr databaseName), (''Name'', JStr (lf_tableName inp)), (''ColumnNames'', strs allowedColumns)])]
            else table) in
      \<lparr>lp_namespace = ns,
       lp_tags = [lf_tag ''tenant_slug'' [tn_tenantSlug ns], lf_tag ''classification'' [classification],
                  lf_tag ''evidence_role'' (map js [''raw'', ''curated'', ''receipt'', ''export''])],
       lp_grants =
         [\<lparr>lg_principalArn = lf_producerRoleArn inp, lg_permissions = map js [''DESCRIBE'', ''SELECT'', ''INSERT'', ''ALTER''],
           lg_resource = table, lg_condition = None\<rparr>,
          \<lparr>lg_principalArn = lf_consumerRoleArn inp, lg_permissions = map js [''DESCRIBE'', ''SELECT''], lg_resource = tableWithColumns,
           lg_condition = Some [(js ''rowFilterExpression'', JStr rowFilterExpression), (js ''tenantSlug'', JStr (tn_tenantSlug ns)),
                                (js ''classification'', JStr classification)]\<rparr>],
       lp_rowFilterExpression = rowFilterExpression,
       lp_columnAllowList = allowedColumns\<rparr>)"

definition namespace_json :: "TenantNamespace \<Rightarrow> jsval" where
  "namespace_json ns = jobj [
     (''stage'', JStr (tn_stage ns)), (''tenantSlug'', JStr (tn_tenantSlug ns)), (''region'', JStr (tn_region ns)),
     (''s3'', jobj [(''rawPrefix'', JStr (tn_rawPrefix ns)), (''curatedPrefix'', JStr (tn_curatedPrefix ns)),
                    (''exportPrefix'', JStr (tn_exportPrefix ns)), (''athenaResultsPrefix'', JStr (tn_athenaResultsPrefix ns))]),
     (''glue'', jobj [(''databaseName'', JStr (tn_databaseName ns)), (''crawlerName'', JStr (tn_crawlerName ns))]),
     (''athena'', jobj [(''workgroupName'', JStr (tn_workgroupName ns))]),
     (''dynamodb'', jobj [(''partitionKey'', JStr (tn_partitionKey ns))]),
     (''lakeFormation'', jobj [(''tenantTagKey'', JStr (tn_tenantTagKey ns)), (''tenantTagValue'', JStr (tn_tenantTagValue ns))]),
     (''opensearch'', jobj [(''indexAlias'', JStr (tn_indexAlias ns))])]"

definition grant_json :: "LakeFormationGrantSpec \<Rightarrow> jsval" where
  "grant_json g = JObj ([(js ''principalArn'', JStr (lg_principalArn g)), (js ''permissions'', strs (lg_permissions g)), (js ''resource'', lg_resource g)] @
     (case lg_condition g of None \<Rightarrow> [] | Some c \<Rightarrow> [(js ''condition'', JObj c)]))"

definition plan_json :: "LakeFormationPlan \<Rightarrow> jsval" where
  "plan_json plan = jobj [
     (''namespace'', namespace_json (lp_namespace plan)),
     (''tags'', JArr (map Some (lp_tags plan))),
     (''grants'', JArr (map (\<lambda>g. Some (grant_json g)) (lp_grants plan))),
     (''rowFilterExpression'', JStr (lp_rowFilterExpression plan)),
     (''columnAllowList'', strs (lp_columnAllowList plan))]"

definition compileLakeFormationPolicy ::
    "(jstr \<Rightarrow> jstr) \<Rightarrow> (jstr \<Rightarrow> jstr) \<Rightarrow> LakeFormationPolicyInput \<Rightarrow> sandbox_error + (LakeFormationPlan \<times> jstr)" where
  "compileLakeFormationPolicy lower sha inp =
     (case compileTenantNamespace lower inp of
        Inl e \<Rightarrow> Inl (NamespaceRejected e)
      | Inr ns \<Rightarrow>
          let plan = lakeFormationPlan ns inp in
          case canonicalSha256Hex sha (plan_json plan) of
            Inl e \<Rightarrow> Inl (DocumentNotCanonical e)
          | Inr h \<Rightarrow>
              let violations = verifyLakeFormationPolicyInvariants plan in
              if violations \<noteq> [] then Inl (InvariantsViolated violations) else Inr (plan, h))"

lemma canonical_object_members:
  assumes "canonicalize (JObj es) = Inr t" "(k, v) \<in> set es"
  shows "\<exists>u. canonicalize v = Inr u"
proof -
  obtain ts where "sequence (map print_entry (sort_by key_le (map (\<lambda>(k, v). (k, canonicalize v)) es))) = Inr ts"
    using assms(1) by (auto simp: brackets_def split: if_splits sum.splits)
  then have "map print_entry (sort_by key_le (map (\<lambda>(k, v). (k, canonicalize v)) es)) = map Inr ts" by (simp add: sequence_eq_Inr)
  moreover have "(k, canonicalize v) \<in> set (sort_by key_le (map (\<lambda>(k, v). (k, canonicalize v)) es))" using assms(2) by force
  ultimately have "\<exists>u. print_entry (k, canonicalize v) = Inr u" by (metis (no_types, lifting) imageE image_eqI list.set_map)
  then show ?thesis by (auto simp: print_entry_def split: sum.splits)
qed

text \<open>
  Claim C30. \<open>compileLakeFormationPolicy\<close> never returns a plan: every tag carries the property \<open>CatalogId\<close> with the value undefined, which the
  canonical serializer refuses. A valid namespace leads to the exception of the serializer and an invalid one to that of the namespace.
\<close>

theorem lake_formation_plan_always_raises:
  "case compileTenantNamespace lower inp of
     Inl e \<Rightarrow> compileLakeFormationPolicy lower sha inp = Inl (NamespaceRejected e)
   | Inr ns \<Rightarrow> (\<exists>e. compileLakeFormationPolicy lower sha inp = Inl (DocumentNotCanonical e))"
proof -
  have tag: "canonicalize (lf_tag k vs) = Inl UndefinedValue" for k vs by (simp add: lf_tag_def jobj_def)
  have "canonicalize (plan_json (lakeFormationPlan ns inp)) \<noteq> Inr t" for ns t
  proof
    let ?tags = "JArr (map Some (lp_tags (lakeFormationPlan ns inp)))"
    assume "canonicalize (plan_json (lakeFormationPlan ns inp)) = Inr t"
    then have "\<exists>u. canonicalize ?tags = Inr u"
      unfolding plan_json_def jobj_def by (rule canonical_object_members [where k = "js ''tags''"]) simp
    then show False by (simp add: lakeFormationPlan_def Let_def tag brackets_def)
  qed
  then show ?thesis
    by (auto simp: compileLakeFormationPolicy_def canonicalSha256Hex_def Let_def split: sum.splits)
qed

end
