(* ===== verification/Counterexample_Engine.thy ===== *)
theory Counterexample_Engine
  imports Sandbox_Policy
begin

text \<open>
  The bounded counterexample search of \<open>formal/counterexampleEngine.ts\<close> in \<open>packages/policy-compiler/src\<close>: the warnings about parts of a document that
  are not modeled, the requests the search tries, and the report. The language the requests are evaluated in is that of \<open>Iam_Policy\<close>.
\<close>

subsection \<open>The requests that are tried\<close>

definition ddbActions :: "string list" where
  "ddbActions = [''dynamodb:GetItem'', ''dynamodb:Query'', ''dynamodb:PutItem'', ''dynamodb:UpdateItem'', ''dynamodb:DeleteItem'',
     ''dynamodb:BatchWriteItem'', ''dynamodb:TransactWriteItems'', ''dynamodb:PartiQLUpdate'', ''dynamodb:PartiQLDelete'']"

definition probe_names :: "string list" where
  "probe_names = ddbActions @ [''dynamodb:*'', ''s3:GetObject'', ''s3:PutObject'', ''s3:DeleteObject'', ''s3:ListBucket'', ''s3:*''] @
     workflow_names @ [''athena:DeleteWorkGroup'', ''glue:DeleteTable'', ''lakeformation:RevokePermissions'', ''iam:PassRole'', ''iam:CreateUser''] @
     function_names @ [''*'']"

definition crossTenantSlug :: "jstr \<Rightarrow> jstr" where
  "crossTenantSlug slug = (if slug = js ''tenant-b'' then js ''tenant-c'' else js ''tenant-b'')"

definition contextForAction :: "jstr \<Rightarrow> jstr \<Rightarrow> jstr \<Rightarrow> jstr \<Rightarrow> condition_context" where
  "contextForAction action tenantSlug region leadingKey =
     [(js ''aws:RequestedRegion'', CStr region)] @
     (if startsWith action (js ''dynamodb:'') then [(js ''dynamodb:LeadingKeys'', CArr [leadingKey])] else []) @
     (if action = js ''s3:ListBucket'' then [(js ''s3:prefix'', CStr (js ''tenants/'' @ leadingKey @ js ''/*''))] else []) @
     (if action = js ''iam:PassRole'' then [(js ''iam:PassedToService'', CStr (js ''glue.amazonaws.com''))] else []) @
     [(js ''aws:PrincipalTag/slug'', CStr tenantSlug)]"

text \<open>The states that are enumerated from a namespace.\<close>

definition s3UriToBucketArn :: "jstr \<Rightarrow> model_error + jstr" where
  "s3UriToBucketArn uri =
     (let r = drop 5 uri; bucket = takeWhile (\<lambda>c. c \<noteq> 47) r in
      if startsWith uri (js ''s3://'') \<and> bucket \<noteq> [] \<and> length bucket < length r then Inr (js ''arn:aws:s3:::'' @ bucket) else Inl (UnsupportedUri uri))"

definition to_cross_tenant :: "jstr \<Rightarrow> jstr \<Rightarrow> jstr" where
  "to_cross_tenant slug r =
     replace_once (literal_at (js ''/tenants/'' @ slug @ js ''/'')) (js ''/tenants/'' @ crossTenantSlug slug @ js ''/'') [] r"

definition namespace_table :: "TenantNamespace \<Rightarrow> string \<Rightarrow> jstr" where
  "namespace_table ns suffix = js ''arn:aws:dynamodb:'' @ tn_region ns @ js '':123456789012:table/ghost-ark-'' @ tn_stage ns @ js suffix"

definition enumerated_resources :: "jstr \<Rightarrow> TenantNamespace \<Rightarrow> jstr list \<Rightarrow> jstr list \<Rightarrow> jstr list" where
  "enumerated_resources slug ns prefixes roots =
     js_set (map (\<lambda>p. p @ js ''object.json'') prefixes @
       map (\<lambda>p. to_cross_tenant slug p @ js ''object.json'') prefixes @ roots @
       [namespace_table ns ''-receipts'', namespace_table ns ''-claims'', namespace_table ns ''-lineage'', namespace_table ns ''-unscoped'', js ''*'',
        js ''arn:aws:iam::123456789012:role/ghost-ark-'' @ tn_stage ns @ js ''-'' @ slug @ js ''-tenant-service-role'',
        js ''arn:aws:lambda:'' @ tn_region ns @ js '':123456789012:function:ghost-ark-'' @ tn_stage ns @ js ''-'' @ slug @ js ''-worker'',
        js ''arn:aws:logs:'' @ tn_region ns @ js '':123456789012:log-group:/aws/lambda/ghost-ark-'' @ tn_stage ns @ js ''-'' @ slug @ js ''-worker:*''])"

definition request_states :: "jstr list \<Rightarrow> jstr list \<Rightarrow> jstr list \<Rightarrow> jstr list \<Rightarrow> (jstr \<Rightarrow> jstr \<Rightarrow> jstr \<Rightarrow> condition_context) \<Rightarrow> ModeledRequestState list" where
  "request_states slugs keys actions resources ctx =
     concat (map (\<lambda>slug. concat (map (\<lambda>key. concat (map (\<lambda>action. map (\<lambda>resource.
       \<lparr>rq_action = action, rq_resource = resource, rq_slug = slug, rq_context = Some (ctx action slug key)\<rparr>) resources) actions)) keys)) slugs)"

definition enumerateModeledRequestStates :: "jstr \<Rightarrow> TenantNamespace \<Rightarrow> model_error + ModeledRequestState list" where
  "enumerateModeledRequestStates slug ns =
     (case sequence (map s3UriToArnPrefix (namespace_uris ns)) of
        Inl e \<Rightarrow> Inl e
      | Inr prefixes \<Rightarrow>
          (case sequence (map s3UriToBucketArn (namespace_uris ns)) of
             Inl e \<Rightarrow> Inl e
           | Inr roots \<Rightarrow>
               Inr (request_states [slug, crossTenantSlug slug] [slug, crossTenantSlug slug] (map js probe_names)
                 (enumerated_resources slug ns prefixes roots) (\<lambda>action s key. contextForAction action s (tn_region ns) key))))"

text \<open>The states that the search itself tries, from the document.\<close>

definition statement_strings :: "string \<Rightarrow> jsval \<Rightarrow> jstr list" where
  "statement_strings k v = asArray (member_value v k)"

definition replace_stars :: "jstr \<Rightarrow> jstr \<Rightarrow> jstr" where
  "replace_stars rep s = concat (map (\<lambda>c. if c = 42 then rep else [c]) s)"

definition policyResourceProbes :: "IamPolicyDocument \<Rightarrow> jstr \<Rightarrow> jstr list" where
  "policyResourceProbes document slug =
     (let resources = map (replace_every slug_variable slug []) (concat (map (statement_strings ''Resource'') (doc_Statement document)));
          exact = filter (\<lambda>r. \<not> hasWildcard r \<or> r = js ''*'') resources;
          cross = map (\<lambda>r. if hasWildcard r then replace_stars (js ''object.json'') r else r)
                    (map (to_cross_tenant slug) (filter (\<lambda>r. js_includes r (js ''/tenants/'' @ slug @ js ''/'')) resources));
          expanded = concat (map (\<lambda>r. if 42 \<notin> set r then [r]
                       else [replace_stars (js ''object.json'') r, to_cross_tenant slug (replace_stars (js ''cross-tenant/object.json'') r)]) resources) in
      js_set (exact @ cross @ expanded @ [js ''*'']))"

definition probe_context :: "jstr \<Rightarrow> jstr \<Rightarrow> jstr \<Rightarrow> condition_context" where
  "probe_context action slug leadingKey =
     (let ctx = contextForAction action slug (js ''us-east-1'') (if leadingKey = [] then crossTenantSlug slug else leadingKey) in
      if leadingKey = [] then filter (\<lambda>kv. fst kv \<noteq> js ''dynamodb:LeadingKeys'' \<and> fst kv \<noteq> js ''s3:prefix'') ctx else ctx)"

definition probe_actions :: "IamPolicyDocument \<Rightarrow> jstr list" where
  "probe_actions document = js_set (concat (map (statement_strings ''Action'') (doc_Statement document)) @ map js probe_names)"

definition requestStateProbes :: "IamPolicyDocument \<Rightarrow> TenantBoundaryModel \<Rightarrow> ModeledRequestState list" where
  "requestStateProbes document b =
     (let slug = tb_tenantSlug b in
      request_states [slug] [slug, crossTenantSlug slug, []] (probe_actions document) (policyResourceProbes document slug) probe_context)"

subsection \<open>Warnings\<close>

definition supportedStatementFields :: "jstr list" where
  "supportedStatementFields = map js [''Sid'', ''Effect'', ''Action'', ''Resource'', ''Condition'', ''NotAction'', ''NotResource'']"

definition supportedConditionKeys :: "jstr list" where
  "supportedConditionKeys = map js [''aws:PrincipalTag/slug'', ''aws:RequestedRegion'', ''dynamodb:LeadingKeys'', ''s3:prefix'',
     ''iam:PassedToService'', ''iam:PermissionsBoundary'']"

definition warn :: "string \<Rightarrow> jstr \<Rightarrow> jstr \<Rightarrow> jstr" where
  "warn what subject sid = js ''Unsupported '' @ js what @ subject @ js '' in statement '' @ sid @ js ''; failing closed.''"

fun array_length :: "jsval \<Rightarrow> nat option" where
  "array_length (JArr xs) = Some (length xs)"
| "array_length _ = None"

definition malformed :: "(jsval \<Rightarrow> bool) \<Rightarrow> jstr list \<Rightarrow> jsval \<Rightarrow> bool" where
  "malformed scalar values v \<longleftrightarrow>
     values = [] \<or> (case array_length v of Some n \<Rightarrow> length values \<noteq> n | None \<Rightarrow> v \<noteq> JUndefined \<and> \<not> scalar v)"

fun is_string :: "jsval \<Rightarrow> bool" where
  "is_string (JStr s) = True"
| "is_string _ = False"

fun is_string_or_bool :: "jsval \<Rightarrow> bool" where
  "is_string_or_bool (JStr s) = True"
| "is_string_or_bool (JBool b) = True"
| "is_string_or_bool _ = False"

definition entry_warnings :: "jstr \<Rightarrow> jstr \<Rightarrow> jstr \<times> jsval \<Rightarrow> jstr list" where
  "entry_warnings sid opr entry =
     (let k = fst entry; values = asConditionValues (snd entry) in
      (if k \<notin> set supportedConditionKeys then [warn ''condition key '' k sid] else []) @
      (if malformed is_string_or_bool values (snd entry) then [warn ''condition value for '' k sid] else []) @
      (if opr \<noteq> js ''Null'' \<and> [] \<in> set values then [warn ''empty condition value for '' k sid] else []) @
      (if opr = js ''Null'' \<and> \<not> set values \<subseteq> {js ''true'', js ''false''} then [warn ''Null condition value for '' k sid] else []))"

definition block_warnings :: "jstr \<Rightarrow> jstr \<times> jsval \<Rightarrow> jstr list" where
  "block_warnings sid block =
     (if fst block \<notin> set allowedConditionOperators then [warn ''condition operator '' (fst block) sid]
      else case as_record (snd block) of
        None \<Rightarrow> [warn ''condition block for '' (fst block) sid]
      | Some entries \<Rightarrow> concat (map (entry_warnings sid (fst block)) entries))"

definition statement_warnings :: "(jstr \<Rightarrow> jstr) \<Rightarrow> (jstr \<times> jsval) list \<Rightarrow> jstr list" where
  "statement_warnings lower st =
     (let sid = statementSid st; effect = fld st ''Effect''; action = fld st ''Action''; resource = fld st ''Resource''; cond = fld st ''Condition'';
          iamActions = filter (\<lambda>a. startsWith (lower a) (js ''iam:'')) (asArray action) in
      map (\<lambda>f. warn ''statement field '' f sid) (filter (\<lambda>f. f \<notin> set supportedStatementFields) (map fst st)) @
      (if effect \<noteq> JStr (js ''Allow'') \<and> effect \<noteq> JStr (js ''Deny'')
       then [js ''Unsupported Effect in statement '' @ sid @ js ''; expected Allow or Deny, failing closed.''] else []) @
      (if has_key st ''NotAction'' then [warn ''NotAction'' [] sid] else []) @
      (if has_key st ''NotResource'' then [warn ''NotResource'' [] sid] else []) @
      (if \<not> has_key st ''NotAction'' \<and> malformed is_string (asArray action) action then [warn ''Action shape'' [] sid] else []) @
      (if \<not> has_key st ''NotResource'' \<and> malformed is_string (asArray resource) resource then [warn ''Resource shape'' [] sid] else []) @
      (case as_record cond of
         Some blocks \<Rightarrow> concat (map (block_warnings sid) blocks)
       | None \<Rightarrow> if cond \<noteq> JUndefined then [warn ''condition shape'' [] sid] else []) @
      (if iamActions \<noteq> []
       then [js ''IAM actions in statement '' @ sid @ js '' are modeled only for bounded service-role pass-through: '' @ joinWith (js '', '') iamActions @ js ''.'']
       else []))"

text \<open>
  The members of a statement. The members of an array are its items; the first member lookup or the operator \<open>in\<close> raises a type error on a primitive.
\<close>

fun statement_members :: "jsval \<Rightarrow> (jstr \<times> jsval) list option" where
  "statement_members (JArr xs) = Some (concat (map (\<lambda>(i, x). case x of None \<Rightarrow> [] | Some v \<Rightarrow> [(nat_str i, v)]) (enumerate 0 xs)))"
| "statement_members v = as_record v"

datatype engine_error = TypeErrorRaised | DigestRaised canonical_error

fun unsupportedPolicyWarnings :: "(jstr \<Rightarrow> jstr) \<Rightarrow> jsval list \<Rightarrow> engine_error + jstr list" where
  "unsupportedPolicyWarnings lower [] = Inr []"
| "unsupportedPolicyWarnings lower (v # vs) =
     (case statement_members v of
        None \<Rightarrow> Inl TypeErrorRaised
      | Some st \<Rightarrow>
          (case unsupportedPolicyWarnings lower vs of Inl e \<Rightarrow> Inl e | Inr ws \<Rightarrow> Inr (statement_warnings lower st @ ws)))"

definition fails_closed :: "jstr \<Rightarrow> bool" where
  "fails_closed w \<longleftrightarrow> js_includes w (js ''Unsupported'') \<or> js_includes w (js ''Malformed'') \<or> js_includes w (js ''Invalid'')"

definition failClosedWarnings :: "jstr list \<Rightarrow> bool" where
  "failClosedWarnings = list_ex fails_closed"

subsection \<open>The report\<close>

fun error_message :: "model_error \<Rightarrow> jstr" where
  "error_message UnsupportedConditionShape = js ''Unsupported condition shape''"
| "error_message (UnsupportedConditionOperator opr) = js ''Unsupported condition operator '' @ opr"
| "error_message (UnsupportedConditionBlock opr) = js ''Unsupported condition block for '' @ opr"
| "error_message NotActionOrResource = js ''NotAction and NotResource are outside the Ghost-Ark tenant sandbox model''"
| "error_message MalformedStatement = js ''Malformed IAM statement''"
| "error_message (UnsupportedUri uri) = js ''Unsupported S3 namespace URI '' @ uri"

record PolicyCounterexample =
  pc_requestState :: ModeledRequestState
  pc_violatedBoundary :: jstr
  pc_explanation :: jstr

definition counterexampleFor :: "ModeledRequestState \<Rightarrow> PolicyCounterexample" where
  "counterexampleFor rq = \<lparr>pc_requestState = rq,
     pc_violatedBoundary = js ''generated policy allowed a request outside the declared tenant boundary'',
     pc_explanation = js ''Modeled policy returned Allow while the Ghost-Ark tenant boundary returned Deny.''\<rparr>"

datatype Verdict = PASS | FAIL

record PolicyVerificationReport =
  pr_verdict :: Verdict
  pr_policyDigest :: jstr
  pr_boundaryDigest :: jstr
  pr_counterexamples :: "PolicyCounterexample list"
  pr_warnings :: "jstr list"

fun try_probes ::
    "(jstr \<Rightarrow> jstr) \<Rightarrow> IamPolicyDocument \<Rightarrow> TenantBoundaryModel \<Rightarrow> ModeledRequestState list \<Rightarrow> PolicyCounterexample list \<times> jstr list" where
  "try_probes lower document b [] = ([], [])"
| "try_probes lower document b (rq # rest) =
     (case evaluateModeledPolicy lower document rq of
        Inl e \<Rightarrow> ([], [error_message e @ js ''; failing closed.''])
      | Inr decision \<Rightarrow>
          (let (ces, ws) = try_probes lower document b rest in
           (if decision = Allow \<and> evaluateTenantBoundary lower b rq = Deny then (counterexampleFor rq # ces, ws) else (ces, ws))))"

definition policyDigest :: "(jstr \<Rightarrow> jstr) \<Rightarrow> IamPolicyDocument \<Rightarrow> canonical_error + jstr" where
  "policyDigest sha document = prefixed_id (js ''sha256:'') sha
     (jobj [(''schemaVersion'', JStr (js ''ghost.policy_counterexample.policy_digest.v1'')), (''document'', document_json document)])"

definition boundary_json :: "TenantBoundaryModel \<Rightarrow> jsval" where
  "boundary_json b = jobj ([(''tenantSlug'', JStr (tb_tenantSlug b)), (''allowedS3Prefixes'', strs (tb_allowedS3Prefixes b)),
       (''allowedDynamoLeadingKeys'', strs (tb_allowedDynamoLeadingKeys b)),
       (''allowedReceiptLedgerActions'', strs (tb_allowedReceiptLedgerActions b)),
       (''forbiddenReceiptLedgerActions'', strs (tb_forbiddenReceiptLedgerActions b))] @
     (case tb_allowedReadOnly b of None \<Rightarrow> [] | Some x \<Rightarrow> [(''allowedReadOnlyAthenaGlueLakeFormation'', JBool x)]) @
     (case tb_allowedS3ObjectActions b of None \<Rightarrow> [] | Some xs \<Rightarrow> [(''allowedS3ObjectActions'', strs xs)]))"

definition boundaryDigest :: "(jstr \<Rightarrow> jstr) \<Rightarrow> TenantBoundaryModel \<Rightarrow> canonical_error + jstr" where
  "boundaryDigest sha b = prefixed_id (js ''sha256:'') sha
     (jobj [(''schemaVersion'', JStr (js ''ghost.policy_counterexample.boundary_digest.v1'')), (''boundary'', boundary_json b)])"

definition verifyNoTenantBoundaryCounterexample ::
    "(jstr \<Rightarrow> jstr) \<Rightarrow> (jstr \<Rightarrow> jstr) \<Rightarrow> IamPolicyDocument \<Rightarrow> TenantBoundaryModel \<Rightarrow> engine_error + PolicyVerificationReport" where
  "verifyNoTenantBoundaryCounterexample lower sha document b =
     (case unsupportedPolicyWarnings lower (doc_Statement document) of
        Inl e \<Rightarrow> Inl e
      | Inr ws0 \<Rightarrow>
          let (ces, ws1) = (if failClosedWarnings ws0 then ([], []) else try_probes lower document b (requestStateProbes document b));
              warnings = ws0 @ ws1 in
          (case (policyDigest sha document, boundaryDigest sha b) of
             (Inl e, _) \<Rightarrow> Inl (DigestRaised e)
           | (Inr _, Inl e) \<Rightarrow> Inl (DigestRaised e)
           | (Inr pd, Inr bd) \<Rightarrow>
               Inr \<lparr>pr_verdict = (if ces = [] \<and> \<not> failClosedWarnings warnings then PASS else FAIL),
                    pr_policyDigest = pd, pr_boundaryDigest = bd, pr_counterexamples = ces, pr_warnings = warnings\<rparr>))"

subsection \<open>What a passing verdict means\<close>

definition no_counterexample :: "(jstr \<Rightarrow> jstr) \<Rightarrow> IamPolicyDocument \<Rightarrow> TenantBoundaryModel \<Rightarrow> ModeledRequestState \<Rightarrow> bool" where
  "no_counterexample lower document b rq \<longleftrightarrow>
     \<not> (evaluateModeledPolicy lower document rq = Inr Allow \<and> evaluateTenantBoundary lower b rq = Deny)"

lemma try_probes_evaluated:
  assumes "\<forall>rq\<in>set rqs. \<exists>d. evaluateModeledPolicy lower document rq = Inr d"
  shows "try_probes lower document b rqs = (map counterexampleFor (filter (\<lambda>rq. \<not> no_counterexample lower document b rq) rqs), [])"
  using assms by (induction rqs) (auto simp: no_counterexample_def split: sum.splits)

lemma failClosed_append [simp]: "failClosedWarnings (ws @ vs) \<longleftrightarrow> failClosedWarnings ws \<or> failClosedWarnings vs"
  by (simp add: failClosedWarnings_def)

lemma warn_fails_closed [simp]: "fails_closed (warn what subject sid)"
proof -
  have "js_includes (js ''Unsupported'' @ s) (js ''Unsupported'')" for s by simp
  moreover have "js ''Unsupported '' = js ''Unsupported'' @ js '' ''" by (simp add: js_def)
  ultimately show ?thesis by (simp add: fails_closed_def warn_def)
qed

lemma unsupported_fails_closed: "fails_closed (js ''Unsupported Effect in statement '' @ s)"
proof -
  have "js_includes (js ''Unsupported'' @ t) (js ''Unsupported'')" for t by simp
  moreover have "js ''Unsupported Effect in statement '' = js ''Unsupported'' @ js '' Effect in statement ''" by (simp add: js_def)
  ultimately show ?thesis by (simp add: fails_closed_def)
qed

lemma failClosed_concat: "failClosedWarnings (concat (map f xs)) \<longleftrightarrow> (\<exists>x\<in>set xs. failClosedWarnings (f x))"
  by (induction xs) (auto simp: failClosedWarnings_def)

lemma supported_block:
  "\<not> failClosedWarnings (block_warnings sid block) \<Longrightarrow> fst block \<in> set allowedConditionOperators \<and> as_record (snd block) \<noteq> None"
  by (auto simp: block_warnings_def failClosedWarnings_def split: if_splits option.splits)

lemma supported_statement:
  assumes "\<not> failClosedWarnings (statement_warnings lower st)"
  shows "fld st ''Effect'' \<in> {JStr (js ''Allow''), JStr (js ''Deny'')}" "\<not> has_key st ''NotAction''" "\<not> has_key st ''NotResource''"
    "fld st ''Condition'' = JUndefined \<or> (\<exists>blocks. as_record (fld st ''Condition'') = Some blocks
       \<and> (\<forall>block\<in>set blocks. fst block \<in> set allowedConditionOperators \<and> as_record (snd block) \<noteq> None))"
proof -
  note w = assms [unfolded statement_warnings_def Let_def failClosed_append]
  show "fld st ''Effect'' \<in> {JStr (js ''Allow''), JStr (js ''Deny'')}"
    using w by (auto simp: failClosedWarnings_def unsupported_fails_closed split: if_splits)
  show "\<not> has_key st ''NotAction''" "\<not> has_key st ''NotResource''"
    using w by (auto simp: failClosedWarnings_def split: if_splits)
  show "fld st ''Condition'' = JUndefined \<or> (\<exists>blocks. as_record (fld st ''Condition'') = Some blocks
       \<and> (\<forall>block\<in>set blocks. fst block \<in> set allowedConditionOperators \<and> as_record (snd block) \<noteq> None))"
  proof (cases "as_record (fld st ''Condition'')")
    case None
    then show ?thesis using w by (auto simp: failClosedWarnings_def split: if_splits)
  next
    case (Some blocks)
    have "\<not> failClosedWarnings (concat (map (block_warnings (statementSid st)) blocks))" using w by (auto simp: Some)
    then show ?thesis using Some supported_block by (auto simp: failClosed_concat)
  qed
qed

lemma blocks_match_total:
  "\<forall>block\<in>set blocks. fst block \<in> set allowedConditionOperators \<and> as_record (snd block) \<noteq> None \<Longrightarrow> \<exists>r. blocks_match blocks rq = Inr r"
  by (induction blocks rq rule: blocks_match.induct) auto

lemma supported_statement_evaluates:
  assumes "as_record v = Some st" "\<not> failClosedWarnings (statement_warnings lower st)"
  shows "statement_evaluates lower rq v"
proof -
  note s = supported_statement [OF assms(2)]
  have "\<exists>r. conditionMatches (fld st ''Condition'') rq = Inr r"
    using s(4) blocks_match_total by (auto simp: conditionMatches_def)
  then show ?thesis using assms(1) s(2,3) by (auto simp: statement_evaluates_def statementMatches_def Let_def)
qed

lemma array_statement_fails:
  assumes "statement_members (JArr xs) = Some st"
  shows "failClosedWarnings (statement_warnings lower st)"
proof -
  have "js ''Effect'' \<noteq> nat_str i" for i
  proof
    assume "js ''Effect'' = nat_str i"
    then have "\<forall>c\<in>set (js ''Effect''). is_digit c" using nat_str_digits by auto
    then show False by (simp add: js_def cu_def is_digit_def)
  qed
  then have "js ''Effect'' \<notin> fst ` set st"
    using assms by (auto simp: image_iff split: option.splits)
  then have "map_of st (js ''Effect'') = None" by (simp add: map_of_eq_None_iff)
  then have "fld st ''Effect'' = JUndefined" by (simp add: fld_def)
  then show ?thesis using supported_statement(1) [of lower st] by auto
qed

lemma supported_policy_evaluates:
  assumes "unsupportedPolicyWarnings lower vs = Inr ws" "\<not> failClosedWarnings ws"
  shows "list_all (statement_evaluates lower rq) vs"
  using assms
proof (induction vs arbitrary: ws)
  case (Cons v vs)
  then obtain st vs' where st: "statement_members v = Some st" "unsupportedPolicyWarnings lower vs = Inr vs'" "ws = statement_warnings lower st @ vs'"
    by (auto split: option.splits sum.splits)
  have "as_record v = Some st"
  proof (cases v)
    case (JArr xs)
    then show ?thesis using array_statement_fails st Cons.prems(2) by auto
  qed (use st(1) in auto)
  then show ?case using supported_statement_evaluates Cons st by auto
qed simp

lemma supported_decision:
  assumes "unsupportedPolicyWarnings lower (doc_Statement document) = Inr ws" "\<not> failClosedWarnings ws"
  shows "\<exists>d. evaluateModeledPolicy lower document rq = Inr d"
  using evaluate_statements_decision [OF supported_policy_evaluates [OF assms]] by (simp add: evaluateModeledPolicy_def)

text \<open>
  The verdict of the search is PASS exactly when no warning about the document fails closed and none of the requests that are tried is allowed by the
  document and denied by the boundary. For a document without such a warning no evaluation raises, so the search always runs to its end.
\<close>

theorem verdict_pass_iff:
  assumes "verifyNoTenantBoundaryCounterexample lower sha document b = Inr report"
  shows "pr_verdict report = PASS \<longleftrightarrow>
    (\<exists>ws. unsupportedPolicyWarnings lower (doc_Statement document) = Inr ws \<and> \<not> failClosedWarnings ws
       \<and> list_all (no_counterexample lower document b) (requestStateProbes document b))"
proof -
  obtain ws where ws: "unsupportedPolicyWarnings lower (doc_Statement document) = Inr ws"
    using assms by (cases "unsupportedPolicyWarnings lower (doc_Statement document)") (auto simp: verifyNoTenantBoundaryCounterexample_def)
  show ?thesis
  proof (cases "failClosedWarnings ws")
    case True
    then show ?thesis using assms ws
      by (auto simp: verifyNoTenantBoundaryCounterexample_def Let_def split: sum.splits)
  next
    case False
    then have "try_probes lower document b (requestStateProbes document b)
        = (map counterexampleFor (filter (\<lambda>rq. \<not> no_counterexample lower document b rq) (requestStateProbes document b)), [])"
      using try_probes_evaluated supported_decision [OF ws] by blast
    then show ?thesis using assms ws False
      by (auto simp: verifyNoTenantBoundaryCounterexample_def Let_def failClosedWarnings_def filter_empty_conv list_all_iff split: sum.splits if_splits)
  qed
qed

subsection \<open>The probes\<close>

lemma probe_members:
  assumes "rq \<in> set (requestStateProbes document b)"
  shows "rq_action rq \<in> set (probe_actions document)" "rq_resource rq \<in> set (policyResourceProbes document (tb_tenantSlug b))"
    "rq_slug rq = tb_tenantSlug b" "\<exists>key. rq_context rq = Some (probe_context (rq_action rq) (rq_slug rq) key)"
  using assms by (auto simp: requestStateProbes_def request_states_def Let_def)

lemma set_expand: "set (expand before matched after rep) \<subseteq> set before \<union> set matched \<union> set after \<union> set rep"
  by (induction before matched after rep rule: expand.induct) auto

lemma set_replace_every: "set (replace_every p rep b s) \<subseteq> set rep \<union> set b \<union> set s"
proof (induction p rep b s rule: replace_every.induct)
  case (1 p rep b s)
  show ?case
  proof (cases "p \<noteq> [] \<and> s \<noteq> [] \<and> startsWith s p")
    case True
    let ?t = "drop (length p) s"
    have sub: "set p \<subseteq> set s" "set ?t \<subseteq> set s" using True set_drop_subset by (auto simp: startsWith_iff)
    have "replace_every p rep b s = expand (rev b) p ?t rep @ replace_every p rep (rev p @ b) ?t"
      using True by (simp add: replace_every.simps [of p rep b s])
    moreover have "set (replace_every p rep (rev p @ b) ?t) \<subseteq> set rep \<union> set p \<union> set b \<union> set ?t" using "1.IH"(1) [OF True] by auto
    ultimately show ?thesis using sub set_expand [of "rev b" p ?t rep] by auto
  next
    case False
    note eq = replace_every.simps [of p rep b s]
    show ?thesis
    proof (cases s)
      case Nil
      then show ?thesis using eq False by simp
    next
      case (Cons c r)
      then show ?thesis using "1.IH"(2) [OF False Cons] eq False by auto
    qed
  qed
qed

lemma set_replace_once: "set (replace_once m rep b s) \<subseteq> set rep \<union> set b \<union> set s"
proof (induction m rep b s rule: replace_once.induct)
  case (1 m rep b)
  show ?case using set_expand [of "rev b" "[]" "[]" rep] by (auto split: option.splits)
next
  case (2 m rep b c s)
  show ?case
  proof (cases "m (c # s)")
    case None
    then show ?thesis using 2 by auto
  next
    case (Some n)
    then show ?thesis
      using set_expand [of "rev b" "take n (c # s)" "drop n (c # s)" rep] set_take_subset [of n "c # s"] set_drop_subset [of n "c # s"]
      by auto
  qed
qed

lemma dots_subset: "set s \<subseteq> set t \<union> set u \<Longrightarrow> list_all is_dot t \<Longrightarrow> list_all is_dot u \<Longrightarrow> list_all is_dot s"
  by (auto simp: list_all_iff)

lemma dots_stars: "list_all is_dot rep \<Longrightarrow> list_all is_dot s \<Longrightarrow> list_all is_dot (replace_stars rep s)"
  by (auto simp: list_all_iff replace_stars_def split: if_splits)

lemma dots_literals [simp]:
  "list_all is_dot (js ''object.json'')" "list_all is_dot (js ''cross-tenant/object.json'')" "list_all is_dot (js ''/tenants/'')" "list_all is_dot (js ''/'')"
  "list_all is_dot (js ''tenant-b'')" "list_all is_dot (js ''tenant-c'')" "list_all is_dot (js ''*'')"
  by code_simp+

lemma dots_cross: "list_all is_dot r \<Longrightarrow> list_all is_dot (to_cross_tenant slug r)"
  unfolding to_cross_tenant_def
  by (rule dots_subset [of _ "js ''/tenants/'' @ crossTenantSlug slug @ js ''/''" r])
    (use set_replace_once in \<open>fastforce simp: crossTenantSlug_def\<close>)+

text \<open>Documents and tenants whose texts fit on one line.\<close>

definition one_line :: "(jstr \<Rightarrow> jstr) \<Rightarrow> IamPolicyDocument \<Rightarrow> jstr \<Rightarrow> bool" where
  "one_line lower document slug \<longleftrightarrow>
     list_all is_dot slug
     \<and> list_all (\<lambda>v. list_all (\<lambda>a. list_all is_dot (lower a)) (statement_strings ''Action'' v)
                   \<and> list_all (list_all is_dot) (statement_strings ''Resource'' v)) (doc_Statement document)"

lemma probe_resource_dots:
  assumes "one_line lower document slug" "r \<in> set (policyResourceProbes document slug)"
  shows "list_all is_dot r"
proof -
  let ?rs = "map (replace_every slug_variable slug []) (concat (map (statement_strings ''Resource'') (doc_Statement document)))"
  have rs: "list_all is_dot x" if "x \<in> set ?rs" for x
  proof -
    from that obtain v y where "v \<in> set (doc_Statement document)" "y \<in> set (statement_strings ''Resource'' v)" "x = replace_every slug_variable slug [] y"
      by auto
    then show ?thesis using assms(1) set_replace_every [of slug_variable slug "[]" y] by (auto simp: one_line_def list_all_iff)
  qed
  define rs where "rs = ?rs"
  have "r \<in> set (filter (\<lambda>r. \<not> hasWildcard r \<or> r = js ''*'') rs)
    \<union> set (map (\<lambda>r. if hasWildcard r then replace_stars (js ''object.json'') r else r)
        (map (to_cross_tenant slug) (filter (\<lambda>r. js_includes r (js ''/tenants/'' @ slug @ js ''/'')) rs)))
    \<union> set (concat (map (\<lambda>r. if 42 \<notin> set r then [r]
        else [replace_stars (js ''object.json'') r, to_cross_tenant slug (replace_stars (js ''cross-tenant/object.json'') r)]) rs)) \<union> {js ''*''}"
    using assms(2) by (simp only: policyResourceProbes_def Let_def set_js_set set_append list.set rs_def [symmetric] Un_assoc)
  moreover have "list_all is_dot x" if "x \<in> set rs" for x using rs that by (simp only: rs_def)
  ultimately show ?thesis by (auto intro!: dots_cross dots_stars split: if_splits)
qed

lemma probe_action_dots:
  assumes "one_line lower document slug" "lowers_ascii lower" "a \<in> set (probe_actions document)"
  shows "list_all is_dot (lower a)"
proof -
  have names: "list_all (\<lambda>n. list_all is_ascii (js n) \<and> list_all is_dot (low n)) probe_names" by code_simp
  from assms(3) consider v where "v \<in> set (doc_Statement document)" "a \<in> set (statement_strings ''Action'' v)"
    | n where "n \<in> set probe_names" "a = js n"
    by (auto simp: probe_actions_def)
  then show ?thesis
  proof cases
    case 1
    then show ?thesis using assms(1) by (auto simp: one_line_def list_all_iff)
  next
    case 2
    then show ?thesis using names assms(2) by (auto simp: list_all_iff lowers_ascii_def low_def)
  qed
qed

lemma probe_region: "requestContextValue \<lparr>rq_action = a, rq_resource = r, rq_slug = s, rq_context = Some (probe_context a' s' key)\<rparr> (js ''aws:RequestedRegion'')
    = Some (CStr (js ''us-east-1''))"
  by (simp add: requestContextValue_def probe_context_def contextForAction_def Let_def)

subsection \<open>A document for another region\<close>

definition region_guard :: "string \<Rightarrow> jstr list \<Rightarrow> jsval" where
  "region_guard sid regions =
     JObj (iam_statement sid ''Deny'' (JStr (js ''*'')) (JStr (js ''*'')) (Some (''StringNotEquals'', ''aws:RequestedRegion'', strs regions)))"

lemma region_guard_applies:
  assumes rq: "rq \<in> set (requestStateProbes document b)" and lower: "lowers_ascii lower" and line: "one_line lower document (tb_tenantSlug b)"
    and regions: "js ''us-east-1'' \<notin> set regions" "\<forall>r\<in>set regions. 36 \<notin> set r"
  shows "statement_applies lower rq ''Deny'' (region_guard sid regions)"
proof -
  note p = probe_members [OF rq]
  obtain key where key: "rq_context rq = Some (probe_context (rq_action rq) (rq_slug rq) key)" using p(4) by blast
  have "lower (js ''*'') = js ''*''"
    using lower by (simp add: lowers_ascii_def is_ascii_def ascii_lower_def is_upper_def js_def cu_def)
  then have act: "actionMatches lower (js ''*'') (rq_action rq)"
    using matchesPattern_star [OF probe_action_dots [OF line lower p(1)]] by (simp add: actionMatches_def)
  have "36 \<notin> set (js ''*'')" by (simp add: js_def cu_def)
  then have res: "resourceMatches (js ''*'') (rq_resource rq) rq"
    using matchesPattern_star [OF probe_resource_dots [OF line p(2)]] by (simp add: resourceMatches_def substitute_plain)
  have "requestContextValue rq (js ''aws:RequestedRegion'') = Some (CStr (js ''us-east-1''))"
    using probe_region [of "rq_action rq" "rq_resource rq" "rq_slug rq" "rq_action rq" "rq_slug rq" key] by (simp add: requestContextValue_def key)
  moreover have "map (\<lambda>v. substitutePrincipalTag v rq) regions = regions" using regions(2) by (simp add: substitute_plain map_idI)
  ultimately have "condition_holds (Some (''StringNotEquals'', ''aws:RequestedRegion'', strs regions)) rq"
    using regions(1) by (simp add: condition_holds_def entry_holds_def valuesMatchPolicyValue_def del: set_map)
  then show ?thesis using act res by (simp add: region_guard_def iam_statement_applies)
qed

lemma verify_returns:
  assumes "unsupportedPolicyWarnings lower (doc_Statement document) = Inr ws" "json_shaped (document_json document)"
  shows "\<exists>report. verifyNoTenantBoundaryCounterexample lower sha document b = Inr report"
proof -
  have "json_shaped (boundary_json b)" by (auto simp: boundary_json_def jobj_def split: option.splits)
  then have "json_shaped (jobj [(''schemaVersion'', JStr s), (''boundary'', boundary_json b)])"
    "json_shaped (jobj [(''schemaVersion'', JStr s), (''document'', document_json document)])" for s
    using assms(2) by (simp_all add: jobj_def)
  then obtain pd bd where "policyDigest sha document = Inr pd" "boundaryDigest sha b = Inr bd"
    by (auto simp: policyDigest_def boundaryDigest_def prefixed_id_def canonicalSha256Hex_def canonicalize_norm)
  then show ?thesis using assms(1) by (simp add: verifyNoTenantBoundaryCounterexample_def case_prod_unfold Let_def)
qed


definition open_document :: IamPolicyDocument where
  "open_document = \<lparr>doc_Version = js ''2012-10-17'', doc_Statement =
     [region_guard ''DenyOutsideApprovedRegions'' [js ''eu-west-1''],
      JObj (iam_statement ''AllowEverything'' ''Allow'' (JStr (js ''*'')) (JStr (js ''*'')) None)]\<rparr>"

definition sample_boundary :: TenantBoundaryModel where
  "sample_boundary = \<lparr>tb_tenantSlug = js ''acme-lab'', tb_allowedS3Prefixes = [js ''arn:aws:s3:::raw/tenants/acme-lab/''],
     tb_allowedDynamoLeadingKeys = [js ''acme-lab''], tb_allowedReceiptLedgerActions = ledger_actions,
     tb_forbiddenReceiptLedgerActions = RECEIPT_LEDGER_FORBIDDEN_ACTIONS, tb_allowedReadOnly = Some True, tb_allowedS3ObjectActions = None\<rparr>"

lemma open_document_supported: "unsupportedPolicyWarnings (map ascii_lower) (doc_Statement open_document) = Inr []"
  by code_simp

lemma open_document_line: "one_line (map ascii_lower) open_document (tb_tenantSlug sample_boundary)"
  by code_simp

lemma open_document_report:
  "\<exists>report. verifyNoTenantBoundaryCounterexample (map ascii_lower) sample_digest open_document sample_boundary = Inr report"
  by (rule verify_returns [OF open_document_supported])
    (simp add: document_json_def jobj_def open_document_def region_guard_def)


theorem verdict_pass_iff_witness:
  "\<exists>report. verifyNoTenantBoundaryCounterexample (map ascii_lower) sample_digest open_document sample_boundary = Inr report
     \<and> (pr_verdict report = PASS \<longleftrightarrow>
         (\<exists>ws. unsupportedPolicyWarnings (map ascii_lower) (doc_Statement open_document) = Inr ws \<and> \<not> failClosedWarnings ws
            \<and> list_all (no_counterexample (map ascii_lower) open_document sample_boundary) (requestStateProbes open_document sample_boundary)))"
  using open_document_report verdict_pass_iff by blast

subsection \<open>The compiled sandbox passes\<close>

definition iam_note :: "jstr \<Rightarrow> jstr list \<Rightarrow> jstr list" where
  "iam_note sid actions =
     (if actions = [] then []
      else [js ''IAM actions in statement '' @ sid @ js '' are modeled only for bounded service-role pass-through: '' @ joinWith (js '', '') actions @ js ''.''])"

definition sound_condition :: "(string \<times> string \<times> jsval) option \<Rightarrow> bool" where
  "sound_condition cond =
     (case cond of
        None \<Rightarrow> True
      | Some (opr, key, v) \<Rightarrow>
          js opr \<in> set allowedConditionOperators \<and> js key \<in> set supportedConditionKeys
          \<and> \<not> malformed is_string_or_bool (asConditionValues v) v
          \<and> (if opr = ''Null'' then set (asConditionValues v) \<subseteq> {js ''true'', js ''false''} else [] \<notin> set (asConditionValues v)))"

lemma iam_statement_warnings:
  assumes "eff = ''Allow'' \<or> eff = ''Deny''" "\<not> malformed is_string (asArray act) act" "\<not> malformed is_string (asArray res) res" "sound_condition cond"
  shows "statement_warnings lower (iam_statement sid eff act res cond)
    = iam_note (js sid) (filter (\<lambda>a. startsWith (lower a) (js ''iam:'')) (asArray act))"
proof -
  have fields: "filter (\<lambda>f. f \<notin> set supportedStatementFields) (map fst (iam_statement sid eff act res cond)) = []"
    by (cases cond) (auto simp: iam_statement_def supportedStatementFields_def)
  have sid: "statementSid (iam_statement sid eff act res cond) = js sid" by (simp add: statementSid_def)
  have conds: "(case as_record (fld (iam_statement sid eff act res cond) ''Condition'') of
       Some blocks \<Rightarrow> concat (map (block_warnings (js sid)) blocks)
     | None \<Rightarrow> if fld (iam_statement sid eff act res cond) ''Condition'' \<noteq> JUndefined then [warn ''condition shape'' [] (js sid)] else []) = []"
    using assms(4)
    by (auto simp: iam_statement_condition sound_condition_def jobj_def block_warnings_def entry_warnings_def Let_def split: option.splits if_splits)
  show ?thesis
    unfolding statement_warnings_def Let_def sid conds fields iam_statement_fields using assms(1-3) by (auto simp: iam_note_def)
qed

lemma well_shaped [simp]:
  "malformed is_string xs (strs xs) \<longleftrightarrow> xs = []"
  "\<not> malformed is_string [s] (JStr s)"
  "malformed is_string_or_bool xs (strs xs) \<longleftrightarrow> xs = []"
  "\<not> malformed is_string_or_bool [s] (JStr s)"
  by (simp_all add: malformed_def strs_def)

lemma iam_filter:
  assumes "lowers_ascii lower" "list_all (\<lambda>n. list_all is_ascii (js n)) names"
  shows "filter (\<lambda>a. startsWith (lower a) (js ''iam:'')) (map js names) = map js (filter (\<lambda>n. startsWith (low n) (js ''iam:'')) names)"
  using assms by (induction names) (auto simp: lowers_ascii_def low_def)

text \<open>The statements by their sid and the names of their actions.\<close>

definition quiet_statement :: "string \<Rightarrow> string list \<Rightarrow> bool" where
  "quiet_statement sid names \<longleftrightarrow>
     list_all (\<lambda>n. list_all is_ascii (js n)) names
     \<and> \<not> failClosedWarnings (iam_note (js sid) (map js (filter (\<lambda>n. startsWith (low n) (js ''iam:'')) names)))"

abbreviation escalation_names :: "string list" where
  "escalation_names \<equiv> [''iam:CreateUser'', ''iam:CreateAccessKey'', ''iam:AttachUserPolicy'', ''iam:AttachGroupPolicy'',
     ''iam:AttachRolePolicy'', ''iam:PutUserPolicy'', ''iam:PutGroupPolicy'', ''iam:PutRolePolicy'', ''iam:CreatePolicyVersion'',
     ''iam:SetDefaultPolicyVersion'', ''iam:DeletePermissionsBoundary'', ''organizations:*'', ''account:*'']"

lemma quiet_statements:
  "quiet_statement ''DenyOutsideApprovedRegions'' [''*'']"
  "quiet_statement ''DenyIdentityAndBoundaryEscalation'' escalation_names"
  "quiet_statement ''RequireTenantPrincipalTag'' [''*'']"
  "quiet_statement ''AllowTenantScopedS3EvidenceAccess'' object_names"
  "quiet_statement ''AllowTenantScopedBucketListing'' [''s3:ListBucket'']"
  "quiet_statement ''AllowTenantReceiptLedgerAccess'' ledger_names"
  "quiet_statement ''AllowTenantClaimLedgerAccess'' claim_names"
  "quiet_statement ''AllowTenantLineageLedgerAccess'' ledger_names"
  "quiet_statement ''AllowGlueAthenaTenantWorkflows'' workflow_names"
  "quiet_statement ''AllowServiceBoundPassRole'' [''iam:PassRole'']"
  "quiet_statement ''AllowTenantLambdaAndLogs'' function_names"
  "quiet_statement ''DenyRoleCreationWithoutBoundary'' [''iam:CreateRole'', ''iam:PutRolePermissionsBoundary'']"
  by code_simp+

lemma quiet_iam_statement:
  assumes "lowers_ascii lower" "quiet_statement sid names" "asArray act = map js names" "\<not> malformed is_string (asArray act) act"
    and "eff = ''Allow'' \<or> eff = ''Deny''" "\<not> malformed is_string (asArray res) res" "sound_condition cond"
  shows "\<not> failClosedWarnings (statement_warnings lower (iam_statement sid eff act res cond))"
  using assms iam_statement_warnings [of eff act res cond lower sid] iam_filter [of lower names] by (simp add: quiet_statement_def)

lemma sandbox_warnings:
  assumes lower: "lowers_ascii lower" and regions: "ti_region inp \<noteq> []" "[] \<notin> set (si_allowedRegions inp)"
  shows "list_all (\<lambda>st. \<not> failClosedWarnings (statement_warnings lower st)) (sandbox_statements inp)"
proof -
  have acts: "ledger_actions = map js ledger_names" "object_actions = map js object_names" "escalation_actions = map js escalation_names"
    "tenantWorkflowActions = map js workflow_names" "ledger_actions @ [js ''dynamodb:UpdateItem''] = map js claim_names"
    by (simp_all add: ledger_actions_def object_actions_def escalation_actions_def tenantWorkflowActions_def)
  have conds: "js ''StringNotEquals'' \<in> set allowedConditionOperators" "js ''Null'' \<in> set allowedConditionOperators"
    "js ''StringLike'' \<in> set allowedConditionOperators" "js ''StringEquals'' \<in> set allowedConditionOperators"
    "js ''ForAllValues:StringEquals'' \<in> set allowedConditionOperators" by (simp_all add: allowedConditionOperators_def)
  have sv: "slug_variable \<noteq> []" "[] \<noteq> slug_variable" by (simp_all add: slug_variable_def)
  note quiet = quiet_iam_statement [OF lower quiet_statements(1)] quiet_iam_statement [OF lower quiet_statements(2)]
    quiet_iam_statement [OF lower quiet_statements(3)] quiet_iam_statement [OF lower quiet_statements(4)]
    quiet_iam_statement [OF lower quiet_statements(5)] quiet_iam_statement [OF lower quiet_statements(6)]
    quiet_iam_statement [OF lower quiet_statements(7)] quiet_iam_statement [OF lower quiet_statements(8)]
    quiet_iam_statement [OF lower quiet_statements(9)] quiet_iam_statement [OF lower quiet_statements(10)]
    quiet_iam_statement [OF lower quiet_statements(11)] quiet_iam_statement [OF lower quiet_statements(12)]
  have "list_all (\<lambda>st. \<not> failClosedWarnings (statement_warnings lower st)) (deny_statements inp)"
    unfolding deny_statements_def list.pred_inject
    using regions
    by (intro conjI quiet TrueI)
      (simp_all add: acts sound_condition_def conds supportedConditionKeys_def)
  moreover have "list_all (\<lambda>st. \<not> failClosedWarnings (statement_warnings lower st)) (allow_statements inp)"
    unfolding allow_statements_def list.pred_inject object_statement_def listing_statement_def ledger_statement_def workflow_statement_def
      role_statement_def function_statement_def
    by (intro conjI quiet TrueI)
      (simp_all add: acts sound_condition_def leading_keys_def conds supportedConditionKeys_def sv buckets_def)
  moreover have "list_all (\<lambda>st. \<not> failClosedWarnings (statement_warnings lower st)) (boundary_statements inp)"
    using quiet(12) by (auto simp: boundary_statements_def sound_condition_def conds supportedConditionKeys_def split: option.splits)
  ultimately show ?thesis by (simp add: sandbox_statements_def)
qed

lemma warnings_of_records:
  "unsupportedPolicyWarnings lower (map JObj sts) = Inr (concat (map (statement_warnings lower) sts))"
  by (induction sts) simp_all

abbreviation document_names :: "string list" where
  "document_names \<equiv> [''*'', ''s3:ListBucket'', ''iam:PassRole'', ''iam:CreateRole'', ''iam:PutRolePermissionsBoundary''] @ escalation_names @ object_names
     @ claim_names @ workflow_names @ function_names"

lemma sandbox_actions:
  "set (concat (map (statement_strings ''Action'') (doc_Statement (sandbox_document inp)))) \<subseteq> js ` set document_names"
proof -
  have "statement_strings ''Action'' (JObj (iam_statement sid eff act res cond)) = asArray act" for sid eff act res cond
    by (simp add: statement_strings_def member_value_def)
  then show ?thesis
    by (auto simp: sandbox_document_def sandbox_statements_def deny_statements_def allow_statements_def boundary_statements_def object_statement_def
        listing_statement_def ledger_statement_def workflow_statement_def role_statement_def function_statement_def
        ledger_actions_def object_actions_def escalation_actions_def tenantWorkflowActions_def split: option.splits if_splits)
qed

lemma probe_spelling:
  "list_all (\<lambda>n. list_all is_ascii (js n) \<and> list_all (\<lambda>a. low n = low a \<longrightarrow> n = a) [''s3:ListBucket'', ''iam:PassRole'']) (document_names @ probe_names)"
  by code_simp

lemma sandbox_probe_modeled:
  assumes lower: "lowers_ascii lower" and rq: "rq \<in> set (requestStateProbes (sandbox_document inp) b)"
  shows "modeled_request lower rq"
proof -
  note p = probe_members [OF rq]
  obtain key where key: "rq_context rq = Some (probe_context (rq_action rq) (rq_slug rq) key)" using p(4) by blast
  have "rq_action rq \<in> js ` set (document_names @ probe_names)"
    using p(1) sandbox_actions [of inp] by (auto simp only: probe_actions_def set_js_set set_append set_map image_Un Un_iff)
  then obtain n where n: "rq_action rq = js n" "n \<in> set (document_names @ probe_names)" by blast
  have ok: "list_all is_ascii (js n) \<and> list_all (\<lambda>a. low n = low a \<longrightarrow> n = a) [''s3:ListBucket'', ''iam:PassRole'']"
    using probe_spelling n(2) unfolding list_all_iff by blast
  then have "lower (rq_action rq) = low n" using lower n(1) by (simp add: lowers_ascii_def low_def)
  then have spelled: "list_all (\<lambda>a. lower (rq_action rq) = low a \<longrightarrow> rq_action rq = js a) [''s3:ListBucket'', ''iam:PassRole'']"
    using ok n(1) by simp
  have "context_value rq ''s3:prefix'' \<in> {None} \<union> range (Some \<circ> CStr)" "context_value rq ''dynamodb:LeadingKeys'' \<in> {None} \<union> range (Some \<circ> CArr)"
    by (auto simp: context_value_def key probe_context_def contextForAction_def Let_def)
  then show ?thesis using spelled by (auto simp: modeled_request_def)
qed



end
