(* ===== verification/Spec2Isabelle.thy ===== *)
theory Spec2Isabelle
  imports Provenance Merkle_Log Receipt_Repository Governed_Replay Governed_Receipts Ledger_Revocation Authenticated_Revocation Lobian CRDT_Map
    Lineage Occ_Replica Speculation Lake_Formation Counterexample_Engine
begin

text \<open>
  \<^bold>\<open>Ghost-Ark.\<close> Ghost-Ark puts a governed runtime in front of a language model. A request is bound to a verified
  identity, evaluated against compiled policies, given tenant-scoped context, run at most once per execution nonce,
  and answered only together with a signed receipt of the decision. Receipts form one hash chain per tenant, chain
  heads are anchored in Merkle checkpoints, and a key can be revoked at a position of that ledger. Beside the runtime
  the repository holds research components that the same receipts feed: a transparency log with witnesses, a
  decision procedure for provability logic, a replicated map, speculative state and a lineage graph. The development
  models the TypeScript code of \<open>packages/receipt-schema\<close>, \<open>packages/enforcement-runtime\<close>,
  \<open>packages/research-frontier\<close>, \<open>packages/lineage-model\<close> and \<open>packages/policy-compiler\<close> (all paths are under \<open>src/\<close>).

  \<^bold>\<open>Conventions.\<close> A TypeScript interface is a \<open>record\<close> or \<open>datatype\<close> with the fields of the source, a
  function or method is one definition with the name of the source, a class is a record of its private fields and its
  methods return the changed record. A rejected promise or a thrown error is \<open>Inl\<close> of an error datatype, a
  returned value \<open>Inr\<close>. JavaScript strings are lists of code units (\<open>jstr\<close>), \<open>Map\<close> and
  \<open>Set\<close> are lists in insertion order, unvalidated values are the datatype \<open>jsval\<close>, numbers
  that can leave the safe range are kept in it explicitly. Code outside the repository is an argument: SHA-256 and HMAC
  (\<open>sha\<close>, \<open>hmac\<close>), the signer and verifier of a key service, \<open>Date.parse\<close> and the schema library's date-time
  check, \<open>JSON.parse\<close>, the clock, the linear program of the speculation oracle, the model, the retriever and the
  tables of a deployment. Where a theorem rests on a property of such an argument the property is a hypothesis: that
  two given texts are not a hash collision, that a verifier accepts what its signer made, that fewer witnesses are
  faulty than a quorum has. Collision freedom is asked only of the finitely many texts that a computation hashes, so
  the hypotheses can hold of a real hash function; every theorem with hypotheses is applied to a concrete input by a
  witness.

  \<^bold>\<open>Foundations.\<close>
  \<^item> \<open>Prelude\<close>: strings, insertion-ordered collections, sorting by code units, digest texts, and the locale
    \<open>ranked_chain\<close> of a join on a ranked chain.
  \<^item> \<open>Js_Text\<close>, \<open>Node_Buffer\<close>: the string methods and the \<open>Buffer\<close> encodings the code uses. The round trip of
    UTF-8 and base64url is what lets a signature envelope survive its transport.
  \<^item> \<open>Canonical_JSON\<close> (\<open>hashCanonicalization.ts\<close>) and \<open>Strict_Admission\<close> (\<open>strictJsonAdmission.ts\<close>): the
    serializer under every digest and the scanner that guards raw texts. Shown: two JSON-shaped values have the same
    canonical text exactly when they agree up to key order; the scanner accepts the text of a document
    exactly when no object repeats a key and every integer is safe.

  \<^bold>\<open>Policy, identity and context\<close> (\<open>packages/enforcement-runtime/src\<close>).
  \<^item> \<open>Policy\<close> (\<open>policy/\<close>): decisions, schema, compiler, evaluator and the in-memory repository. The evaluator
    returns the most restrictive of the matching decisions, through the interpretation \<open>dec\<close> of \<open>ranked_chain\<close>.
  \<^item> \<open>Provenance\<close> (\<open>evidence/provenanceLattice.ts\<close>): evidence classes, joins, meets and evidence floors, the
    second interpretation (\<open>prov\<close>) of \<open>ranked_chain\<close>.
  \<^item> \<open>Identity\<close> (\<open>identity/context.ts\<close>, \<open>bedrock/modelAllowlist.ts\<close>), \<open>Retrieval\<close> (\<open>retrieval/\<close>), \<open>Vault\<close>
    (\<open>vault/\<close>): who calls which model, what context it sees, what is remembered. Reachable vaults isolate tenants
    and users, and audit records are never lost.
  \<^item> \<open>Runtime_State\<close> (\<open>runtime/nonceStore.ts\<close>, \<open>runtime/transitLedger.ts\<close>, \<open>gateway/occGate.ts\<close>): the small
    stateful guards. The locale \<open>nonce_store\<close> is the contract of a nonce store, \<open>nonces\<close> its interpretation.

  \<^bold>\<open>The governed pipeline.\<close> \<open>Lifecycle\<close> has the request, the result and the decision predicates
  (\<open>runtime/lifecycle.ts\<close>, \<open>result.ts\<close>, \<open>executionContext.ts\<close>); \<open>Governed_Invoke\<close> is the whole of
  \<open>runtime/governedInvoke.ts\<close> as a state-passing program over an arbitrary world, every early return a
  branch; \<open>Governed_Worlds\<close> shows that what all dependencies keep the pipeline keeps. \<open>Governed_Properties\<close>: the
  model is called only after every check, nothing is released without a receipt and an allowing decision, memory is
  written only for the verified owner. \<open>Governed_Receipts\<close>: one receipt per invocation that reports one.
  \<open>Governed_Replay\<close>: the locale \<open>replay_guard\<close> extends \<open>nonce_store\<close> by the pipeline; its interpretation
  \<open>governed_store\<close> gives that in any sequence of invocations a nonce reaches the model at most once.

  \<^bold>\<open>Receipts\<close> (\<open>receipts/\<close>).
  \<^item> \<open>Receipts\<close>, \<open>Receipt_Chain\<close> (\<open>schema.ts\<close>, \<open>canonical.ts\<close>, \<open>chain.ts\<close>): schema, canonical form, identifiers,
    digests, chain check. A chain head commits to the whole history.
  \<^item> \<open>Receipt_Repository\<close> (\<open>inMemoryReceiptRepository.ts\<close>): the locale \<open>receipt_store\<close> is the abstract
    append-only log per tenant; \<open>put\<close> refines it (\<open>mem\<close>), and every reachable repository is an unbroken chain.
  \<^item> \<open>Key_Manifest\<close>, \<open>Receipt_Signing\<close> (\<open>keyManifest.ts\<close>, \<open>signer.ts\<close>, \<open>verifier.ts\<close>): envelopes and the
    verdict. A true verdict implies each of its checks; the locale \<open>signature_scheme\<close>, interpreted by the local signer
    (\<open>local_hmac\<close>), gives that what is signed verifies.
  \<^item> \<open>Receipt_Emission\<close> (\<open>emission.ts\<close>): the emitter over any repository that satisfies \<open>quiet_repository\<close>
    (interpreted as \<open>memory_store\<close>), with its three attempts. Emission refines the append-only logs, succeeds when
    the input is well formed and the signer answers, and every stored receipt verifies.
  \<^item> \<open>Epoch_Checkpoint\<close>, \<open>Ledger_Revocation\<close> (\<open>checkpoint.ts\<close>, \<open>checkpointRepository.ts\<close>,
    \<open>ledgerAnchoredRevocation.ts\<close>): the binary tree over the sorted chain heads, checkpoints signed per epoch, and the verdict
    whether a receipt precedes a revocation. An accepted inclusion proof shows a chain head of the epoch; a positive
    verdict means that the receipt was anchored in an epoch before the revocation.

  \<^bold>\<open>Transparency log\<close> (\<open>packages/research-frontier/src\<close>). \<open>Merkle_Log\<close> (\<open>merkle.ts\<close>): tree hashes, inclusion and
  consistency proofs, sound and complete against a recursive tree hash. \<open>Witness_Checkpoint\<close>, \<open>Witness_Fraud\<close>
  (\<open>witnessCheckpoint.ts\<close>, \<open>witnessFraudProof.ts\<close>): checkpoints with witness signatures, the quorum count, the fraud
  proofs and the scan that finds exactly the split views a common witness signed. \<open>Authenticated_Revocation\<close>
  (\<open>authenticatedRevocation.ts\<close>): the revocation verdict from two proofs and a consistency proof; with fewer faulty
  witnesses than the quorum and proofs that state the sizes of their checkpoints the verdict is right about the order,
  and without the last condition a restated index is accepted.

  \<^bold>\<open>Provability logic\<close> (\<open>lobian/\<close>). \<open>GL_Formula\<close>: formulas, the injective keys, finite Kripke models. \<open>GL_Tableau\<close>:
  the tableau search with its node budget, soundness of theorems and of countermodels, and that a budget of
  \<open>node_bound\<close> nodes decides every formula. \<open>Lobian\<close>: licensing obligations and receipts, and what goes wrong where
  names contain the separators of the keys.

  \<^bold>\<open>Replicated and speculative state.\<close> \<open>CRDT_Map\<close> (\<open>crdt/\<close>): last-write-wins registers and the simulated network as
  a step relation; the locale \<open>stamped_values\<close> (interpreted as \<open>lww\<close>) has the algebra of the merge, and the swarm converges
  whatever is delivered in whatever order. \<open>Occ_Replica\<close> (\<open>occ/ghostReplica.ts\<close>): replicas that read, write and commit against
  one world, as an interleaving of steps. \<open>Speculation\<close> (\<open>speculativeExecution/stateForker.ts\<close>): drafts whose commit
  needs evidence above a floor; it calls the provenance lattice. \<open>Lineage\<close> (\<open>lineage-model/src\<close>): event schema and
  builder, the graph, its walks as reachability and its cycle check as a decision procedure.

  \<^bold>\<open>Cloud sandbox of a tenant\<close> (\<open>packages/policy-compiler/src\<close>). \<open>Tenant_Namespace\<close> (\<open>tenantNamespace.ts\<close>): slugs, stages, bucket names
  and the names derived from them. \<open>Iam_Policy\<close> (\<open>formal/counterexampleEngine.ts\<close>): the modeled part of IAM, wildcard patterns on code points,
  conditions, evaluation where a deny overrides, and the tenant boundary. \<open>Sandbox_Policy\<close> (\<open>iamPolicies.ts\<close>, \<open>invariants.ts\<close>): the compiled
  document and its invariants; every request of the tenant that the document allows lies inside the boundary, for all requests and not only those a search
  tries. \<open>Counterexample_Engine\<close>: the search over finitely many requests, what its verdict means, that it passes every compiled document, and that it
  passes any document at all whose first statement excludes the one region the search asks for. \<open>Lake_Formation\<close> (\<open>lfPolicies.ts\<close>): the plan
  that can never be compiled.

  \<^bold>\<open>Bounds and fuel.\<close> Loops over lists are structural recursion; the others are \<open>function\<close>s with a measure. Two
  searches carry fuel. The readers of \<open>Strict_Admission\<close> get twice the length of the text and a little more from their entry point
  and are shown never to use it up. The tableau gets one more than its node budget: each call counts a node, so
  the budget raises first. The event loop of the simulated network takes the readings of the clock as a
  list; enough readings past the delivery times are shown to empty the queue. Logical clocks stay at two to the power
  of 53, where the increment of a double stops counting; convergence is stated for clocks below it.

  \<^bold>\<open>Where the code differs from what it says.\<close> Names built by concatenation collide: policy keys of tenants and
  users, the projection of the optimistic gate, formula keys, edge keys, the state root of the map. Property lookups see inherited
  names: provenance labels, dirty keys of a draft. Others: identity keys in nested arrays are not seen; an envelope
  that is the text of \<open>null\<close> makes the verifier raise; a decoy signature hides a split view; an inclusion
  proof may restate its tree size; the policy search tries one region only; a Lake Formation plan is never accepted by the serializer; a lineage event without a run id cannot be built; an empty node name stops a walk; a
  repeated read forgets the first version. Each is a lemma on the model.

  \<^bold>\<open>Not modelled.\<close> The clients of cloud services (DynamoDB tables, KMS, Bedrock, storage, BigQuery), the HTTP
  handlers, proxies and user interfaces: they are input and output around the modelled operations, and the interfaces they
  implement are the arguments and locales above. The deployment descriptions and the calls that deploy a policy, whose
  meaning lies with the provider. The version 2 custody receipt, runtime attestation and receipt proofs, which hand their evidence to
  verifiers outside the repository. The statistical oracles and the compression-based budget, which compute
  with floating-point numbers and \<open>zlib\<close>. The separate prototype under \<open>dab/\<close>, the Rust and Python programs, the
  tools, experiments and tests, and \<open>ghost-ark-dab-spec-context\<close>, which repeats files that are modelled here.
\<close>

end
